(* ===== verification/Prelude.thy ===== *)
theory Prelude
  imports Main "HOL-Library.List_Lexorder" "HOL-Library.Sublist"
begin

text \<open>
  Shared vocabulary of the development: the types that stand for Rust's basic types, the result
  type of fallible code, the iterator adaptors the sources use on slices
  (\<open>max_by_key\<close>, \<open>min_by_key\<close>, \<open>find\<close>), and ordered maps (\<open>BTreeMap\<close>) as sorted
  association lists behind an interface locale.

  Rust's \<open>char\<close> is a Unicode scalar value; it is modelled by its number, and a \<open>String\<close> by the
  list of its scalar values. So lengths in characters, lengths in UTF-8 bytes and the order of
  strings (byte order and scalar order agree for UTF-8) all have a definition. ASCII literals of
  the source are written \<open>lit ''...''\<close>.
\<close>

type_synonym uchar = nat
type_synonym str = "uchar list"

definition lit :: "string \<Rightarrow> str" where
  "lit s = map of_char s"

abbreviation ch :: "char \<Rightarrow> uchar" where
  "ch c \<equiv> of_char c"

named_theorems str_simps \<open>facts that evaluate operations on texts\<close>
named_theorems res_simps \<open>facts that evaluate fallible code\<close>

lemma lit_Nil [str_simps]: "lit [] = []"
  by (simp add: lit_def)

lemma lit_Cons [str_simps]: "lit (c # s) = ch c # lit s"
  by (simp add: lit_def)

lemma length_lit [simp]: "length (lit s) = length s"
  by (simp add: lit_def)

section \<open>Fallible code\<close>

text \<open>
  \<open>Result<T, E>\<close> is \<open>'e + 'a\<close>, with \<open>Inl\<close> for \<open>Err\<close>. The operator \<open>?\<close> of the source is
  \<open>and_then\<close>.
\<close>

definition and_then :: "'e + 'a \<Rightarrow> ('a \<Rightarrow> 'e + 'b) \<Rightarrow> 'e + 'b" where
  "and_then r f = (case r of Inl e \<Rightarrow> Inl e | Inr v \<Rightarrow> f v)"

lemma and_then_simps [simp]:
  "and_then (Inl e) f = Inl e"
  "and_then (Inr v) f = f v"
  by (simp_all add: and_then_def)

lemma and_then_Inr_iff [res_simps]:
  "and_then r f = Inr y \<longleftrightarrow> (\<exists>x. r = Inr x \<and> f x = Inr y)"
  by (cases r) auto

lemma and_then_Inl_iff [res_simps]:
  "and_then r f = Inl e \<longleftrightarrow> r = Inl e \<or> (\<exists>x. r = Inr x \<and> f x = Inl e)"
  by (cases r) auto

definition ok_or :: "'e \<Rightarrow> 'a option \<Rightarrow> 'e + 'a" where
  "ok_or e v = (case v of None \<Rightarrow> Inl e | Some x \<Rightarrow> Inr x)"

lemma ok_or_simps [simp]: "ok_or e None = Inl e" "ok_or e (Some x) = Inr x"
  by (simp_all add: ok_or_def)

lemma ok_or_Inr_iff [res_simps]: "ok_or e v = Inr x \<longleftrightarrow> v = Some x"
  by (cases v) auto

text \<open>\<open>Option<Result<T, E>>::transpose\<close>, as used for optional fields.\<close>

definition transpose_opt :: "('e + 'a) option \<Rightarrow> 'e + 'a option" where
  "transpose_opt v = (case v of None \<Rightarrow> Inr None | Some (Inl e) \<Rightarrow> Inl e | Some (Inr x) \<Rightarrow> Inr (Some x))"

lemma transpose_opt_simps [simp]:
  "transpose_opt None = Inr None"
  "transpose_opt (Some (Inl e)) = Inl e"
  "transpose_opt (Some (Inr x)) = Inr (Some x)"
  by (simp_all add: transpose_opt_def)

text \<open>\<open>Result::ok\<close>.\<close>

definition ok_opt :: "'e + 'a \<Rightarrow> 'a option" where
  "ok_opt r = (case r of Inl _ \<Rightarrow> None | Inr v \<Rightarrow> Some v)"

lemma ok_opt_simps [simp]: "ok_opt (Inl e) = None" "ok_opt (Inr v) = Some v"
  by (simp_all add: ok_opt_def)

lemma ok_opt_Some_iff [res_simps]: "ok_opt r = Some v \<longleftrightarrow> r = Inr v"
  by (cases r) auto

section \<open>Iterator adaptors on slices\<close>

text \<open>
  \<open>Iterator::max_by_key\<close> returns the last of several maximal elements, \<open>Iterator::min_by_key\<close>
  the first of several minimal ones.
\<close>

fun max_by_key :: "('a \<Rightarrow> 'k::linorder) \<Rightarrow> 'a list \<Rightarrow> 'a option" where
  "max_by_key k [] = None"
| "max_by_key k (x # xs) =
     (case max_by_key k xs of None \<Rightarrow> Some x | Some y \<Rightarrow> Some (if k x \<le> k y then y else x))"

fun min_by_key :: "('a \<Rightarrow> 'k::linorder) \<Rightarrow> 'a list \<Rightarrow> 'a option" where
  "min_by_key k [] = None"
| "min_by_key k (x # xs) =
     (case min_by_key k xs of None \<Rightarrow> Some x | Some y \<Rightarrow> Some (if k x \<le> k y then x else y))"

lemma max_by_key_None [simp]: "max_by_key k xs = None \<longleftrightarrow> xs = []"
  by (cases xs) (auto split: option.splits)

lemma min_by_key_None [simp]: "min_by_key k xs = None \<longleftrightarrow> xs = []"
  by (cases xs) (auto split: option.splits)

lemma max_by_key_mem: "max_by_key k xs = Some y \<Longrightarrow> y \<in> set xs"
  by (induction xs arbitrary: y) (auto split: option.splits if_splits)

lemma min_by_key_mem: "min_by_key k xs = Some y \<Longrightarrow> y \<in> set xs"
  by (induction xs arbitrary: y) (auto split: option.splits if_splits)

lemma max_by_key_ge: "max_by_key k xs = Some y \<Longrightarrow> x \<in> set xs \<Longrightarrow> k x \<le> k y"
proof (induction xs arbitrary: x y)
  case Nil
  then show ?case by simp
next
  case (Cons z zs)
  show ?case
  proof (cases "max_by_key k zs")
    case None
    with Cons.prems show ?thesis by auto
  next
    case (Some w)
    with Cons.prems Cons.IH [OF Some] show ?thesis by (fastforce split: if_splits)
  qed
qed

lemma min_by_key_le: "min_by_key k xs = Some y \<Longrightarrow> x \<in> set xs \<Longrightarrow> k y \<le> k x"
proof (induction xs arbitrary: x y)
  case Nil
  then show ?case by simp
next
  case (Cons z zs)
  show ?case
  proof (cases "min_by_key k zs")
    case None
    with Cons.prems show ?thesis by auto
  next
    case (Some w)
    with Cons.prems Cons.IH [OF Some] show ?thesis by (fastforce split: if_splits)
  qed
qed

text \<open>\<open>Iterator::max\<close> on values.\<close>

definition max_opt :: "'a::linorder list \<Rightarrow> 'a option" where
  "max_opt xs = max_by_key (\<lambda>x. x) xs"

lemma max_opt_None [simp]: "max_opt xs = None \<longleftrightarrow> xs = []"
  by (simp add: max_opt_def)

lemma max_opt_mem: "max_opt xs = Some y \<Longrightarrow> y \<in> set xs"
  unfolding max_opt_def by (rule max_by_key_mem)

lemma max_opt_ge: "max_opt xs = Some y \<Longrightarrow> x \<in> set xs \<Longrightarrow> x \<le> y"
  unfolding max_opt_def by (drule (1) max_by_key_ge)

text \<open>\<open>filter_map\<close>.\<close>

fun filter_map :: "('a \<Rightarrow> 'b option) \<Rightarrow> 'a list \<Rightarrow> 'b list" where
  "filter_map f [] = []"
| "filter_map f (x # xs) = (case f x of None \<Rightarrow> filter_map f xs | Some y \<Rightarrow> y # filter_map f xs)"

lemma set_filter_map: "set (filter_map f xs) = {y. \<exists>x \<in> set xs. f x = Some y}"
  by (induction xs) (auto split: option.splits)

lemma filter_map_append [simp]: "filter_map f (xs @ ys) = filter_map f xs @ filter_map f ys"
  by (induction xs) (auto split: option.splits)

lemma filter_map_all_Some: "(\<And>x. x \<in> set xs \<Longrightarrow> f x = Some (g x)) \<Longrightarrow> filter_map f xs = map g xs"
  by (induction xs) auto

section \<open>Ordered maps\<close>

text \<open>
  The interface of \<open>BTreeMap\<close> the sources use: \<open>insert\<close> returns the value it replaced, \<open>get\<close>
  looks a key up, iteration is in key order.
\<close>

locale ordered_map =
  fixes empty_map :: 'm
    and insert_key :: "'k::linorder \<Rightarrow> 'v \<Rightarrow> 'm \<Rightarrow> 'm"
    and get_key :: "'m \<Rightarrow> 'k \<Rightarrow> 'v option"
    and entries :: "'m \<Rightarrow> ('k \<times> 'v) list"
    and invar :: "'m \<Rightarrow> bool"
  assumes invar_empty: "invar empty_map"
    and invar_insert: "invar m \<Longrightarrow> invar (insert_key k v m)"
    and get_empty: "get_key empty_map k = None"
    and get_insert: "invar m \<Longrightarrow> get_key (insert_key k v m) k' = (if k' = k then Some v else get_key m k')"
    and entries_get: "invar m \<Longrightarrow> (k, v) \<in> set (entries m) \<longleftrightarrow> get_key m k = Some v"
    and entries_sorted: "invar m \<Longrightarrow> sorted_wrt (<) (map fst (entries m))"
begin

text \<open>Inserting a list of pairs, the way the parsers fill their maps.\<close>

definition insert_all :: "('k \<times> 'v) list \<Rightarrow> 'm \<Rightarrow> 'm" where
  "insert_all kvs m = fold (\<lambda>(k, v) m. insert_key k v m) kvs m"

lemma invar_insert_all: "invar m \<Longrightarrow> invar (insert_all kvs m)"
  by (induction kvs arbitrary: m) (auto simp: insert_all_def invar_insert)

lemma get_insert_all:
  "invar m \<Longrightarrow> distinct (map fst kvs) \<Longrightarrow>
   get_key (insert_all kvs m) k = (case map_of kvs k of None \<Rightarrow> get_key m k | Some v \<Rightarrow> Some v)"
proof (induction kvs arbitrary: m)
  case Nil
  then show ?case by (simp add: insert_all_def)
next
  case (Cons p kvs)
  obtain a b where p: "p = (a, b)" by (cases p)
  have "insert_all (p # kvs) m = insert_all kvs (insert_key a b m)"
    by (simp add: insert_all_def p)
  moreover have "map_of kvs a = None" using Cons.prems(2) p by (auto simp: map_of_eq_None_iff)
  ultimately show ?case using Cons.IH [of "insert_key a b m"] Cons.prems p
    by (auto simp: invar_insert get_insert split: option.splits)
qed

lemma entries_distinct: "invar m \<Longrightarrow> distinct (map fst (entries m))"
  using entries_sorted by (simp add: strict_sorted_iff)

end

type_synonym ('k, 'v) btree_map = "('k \<times> 'v) list"

fun bt_insert :: "'k::linorder \<Rightarrow> 'v \<Rightarrow> ('k, 'v) btree_map \<Rightarrow> ('k, 'v) btree_map" where
  "bt_insert k v [] = [(k, v)]"
| "bt_insert k v ((k', v') # m) =
     (if k < k' then (k, v) # (k', v') # m
      else if k = k' then (k, v) # m
      else (k', v') # bt_insert k v m)"

definition bt_get :: "('k, 'v) btree_map \<Rightarrow> 'k \<Rightarrow> 'v option" where
  "bt_get m k = map_of m k"

definition bt_sorted :: "('k::linorder, 'v) btree_map \<Rightarrow> bool" where
  "bt_sorted m \<longleftrightarrow> sorted_wrt (<) (map fst m)"

lemma bt_get_insert [simp]: "bt_get (bt_insert k v m) k' = (if k' = k then Some v else bt_get m k')"
  by (induction k v m rule: bt_insert.induct) (auto simp: bt_get_def)

lemma bt_get_Nil [simp]: "bt_get [] k = None"
  by (simp add: bt_get_def)

lemma set_keys_bt_insert: "fst ` set (bt_insert k v m) = insert k (fst ` set m)"
  by (induction k v m rule: bt_insert.induct) auto

lemma bt_sorted_insert: "bt_sorted m \<Longrightarrow> bt_sorted (bt_insert k v m)"
proof (induction k v m rule: bt_insert.induct)
  case (1 k v)
  show ?case by (simp add: bt_sorted_def)
next
  case (2 k v k' v' m)
  consider "k < k'" | "k = k'" | "k' < k" by fastforce
  then show ?case
  proof cases
    case 3
    with 2 have "bt_sorted (bt_insert k v m)" by (simp add: bt_sorted_def)
    with 3 2(2) set_keys_bt_insert [of k v m] show ?thesis
      by (auto simp: bt_sorted_def image_iff)
  qed (use 2 in \<open>auto simp: bt_sorted_def\<close>)
qed

interpretation bt: ordered_map "[]" bt_insert bt_get "\<lambda>m. m" bt_sorted
proof unfold_locales
  fix m :: "('k::linorder, 'v) btree_map" and k v
  show "bt_sorted m \<Longrightarrow> ((k, v) \<in> set m) = (bt_get m k = Some v)"
    unfolding bt_sorted_def bt_get_def
    by (auto simp: strict_sorted_iff intro: map_of_SomeD)
qed (auto simp: bt_sorted_insert [unfolded bt_sorted_def] bt_sorted_def)

lemma map_of_below: "\<forall>x \<in> set m. k' < fst x \<Longrightarrow> (k :: 'k::linorder) < k' \<Longrightarrow> map_of m k = None"
  by (auto simp: map_of_eq_None_iff)

lemma length_bt_insert:
  "bt_sorted m \<Longrightarrow> length (bt_insert k v m) = (if bt_get m k = None then Suc (length m) else length m)"
  by (induction k v m rule: bt_insert.induct) (auto simp: bt_sorted_def bt_get_def map_of_below split: option.splits)

lemma set_bt_insert: "set (bt_insert k v m) \<subseteq> insert (k, v) (set m)"
  by (induction k v m rule: bt_insert.induct) auto

lemma bt_get_in: "bt_get m k = Some v \<Longrightarrow> (k, v) \<in> set m"
  by (auto simp: bt_get_def intro: map_of_SomeD)

end
