(* ===== verification/RustStr.thy ===== *)
theory RustStr
  imports Prelude
begin

text \<open>
  The operations of Rust's \<open>char\<close>, \<open>str\<close> and integer formatting that the sources call, over the
  texts of \<open>Prelude\<close>, and the lemmas on them that the parsers share. Each definition follows the
  documented behaviour of the standard library.
\<close>

section \<open>Characters\<close>

definition is_whitespace :: "uchar \<Rightarrow> bool" where
  "is_whitespace c \<longleftrightarrow>
     9 \<le> c \<and> c \<le> 13 \<or> c = 32 \<or> c = 0x85 \<or> c = 0xA0 \<or> c = 0x1680 \<or> 0x2000 \<le> c \<and> c \<le> 0x200A
     \<or> c = 0x2028 \<or> c = 0x2029 \<or> c = 0x202F \<or> c = 0x205F \<or> c = 0x3000"

definition is_control :: "uchar \<Rightarrow> bool" where
  "is_control c \<longleftrightarrow> c < 32 \<or> 127 \<le> c \<and> c \<le> 159"

definition is_ascii_digit :: "uchar \<Rightarrow> bool" where
  "is_ascii_digit c \<longleftrightarrow> 48 \<le> c \<and> c \<le> 57"

definition is_ascii_lowercase :: "uchar \<Rightarrow> bool" where
  "is_ascii_lowercase c \<longleftrightarrow> 97 \<le> c \<and> c \<le> 122"

definition is_ascii_uppercase :: "uchar \<Rightarrow> bool" where
  "is_ascii_uppercase c \<longleftrightarrow> 65 \<le> c \<and> c \<le> 90"

definition is_ascii_alphabetic :: "uchar \<Rightarrow> bool" where
  "is_ascii_alphabetic c \<longleftrightarrow> is_ascii_lowercase c \<or> is_ascii_uppercase c"

definition is_ascii_alphanumeric :: "uchar \<Rightarrow> bool" where
  "is_ascii_alphanumeric c \<longleftrightarrow> is_ascii_alphabetic c \<or> is_ascii_digit c"

lemmas char_class_defs =
  is_whitespace_def is_control_def is_ascii_digit_def is_ascii_lowercase_def
  is_ascii_uppercase_def is_ascii_alphabetic_def is_ascii_alphanumeric_def

definition ascii_lower :: "uchar \<Rightarrow> uchar" where
  "ascii_lower c = (if is_ascii_uppercase c then c + 32 else c)"

definition to_ascii_lowercase :: "str \<Rightarrow> str" where
  "to_ascii_lowercase s = map ascii_lower s"

definition eq_ignore_ascii_case :: "str \<Rightarrow> str \<Rightarrow> bool" where
  "eq_ignore_ascii_case a b \<longleftrightarrow> to_ascii_lowercase a = to_ascii_lowercase b"

lemma ascii_lower_idem [simp]: "ascii_lower (ascii_lower c) = ascii_lower c"
  by (simp add: ascii_lower_def is_ascii_uppercase_def)

lemma to_ascii_lowercase_idem [simp]:
  "to_ascii_lowercase (to_ascii_lowercase s) = to_ascii_lowercase s"
  by (simp add: to_ascii_lowercase_def comp_def)

lemma to_ascii_lowercase_append [simp]:
  "to_ascii_lowercase (a @ b) = to_ascii_lowercase a @ to_ascii_lowercase b"
  by (simp add: to_ascii_lowercase_def)

lemma to_ascii_lowercase_Nil_iff [simp]: "to_ascii_lowercase s = [] \<longleftrightarrow> s = []"
  by (simp add: to_ascii_lowercase_def)

lemma eq_ignore_ascii_case_refl [simp]: "eq_ignore_ascii_case s s"
  by (simp add: eq_ignore_ascii_case_def)

lemma eq_ignore_ascii_case_sym: "eq_ignore_ascii_case a b \<Longrightarrow> eq_ignore_ascii_case b a"
  by (simp add: eq_ignore_ascii_case_def)

lemma eq_ignore_ascii_case_trans:
  "eq_ignore_ascii_case a b \<Longrightarrow> eq_ignore_ascii_case b c \<Longrightarrow> eq_ignore_ascii_case a c"
  by (simp add: eq_ignore_ascii_case_def)

section \<open>Lengths\<close>

text \<open>\<open>str::len\<close> counts UTF-8 bytes.\<close>

definition utf8_width :: "uchar \<Rightarrow> nat" where
  "utf8_width c = (if c < 0x80 then 1 else if c < 0x800 then 2 else if c < 0x10000 then 3 else 4)"

definition byte_len :: "str \<Rightarrow> nat" where
  "byte_len s = sum_list (map utf8_width s)"

lemma byte_len_simps [simp]:
  "byte_len [] = 0" "byte_len (c # s) = utf8_width c + byte_len s"
  by (simp_all add: byte_len_def)

lemma byte_len_append [simp]: "byte_len (a @ b) = byte_len a + byte_len b"
  by (simp add: byte_len_def)

lemma byte_len_ascii: "(\<And>c. c \<in> set s \<Longrightarrow> c < 128) \<Longrightarrow> byte_len s = length s"
  by (induction s) (auto simp: utf8_width_def)

lemma length_le_byte_len: "length s \<le> byte_len s"
  by (induction s) (auto simp: utf8_width_def)

section \<open>Trimming\<close>

definition trim_start :: "str \<Rightarrow> str" where
  "trim_start s = dropWhile is_whitespace s"

definition trim_end :: "str \<Rightarrow> str" where
  "trim_end s = rev (dropWhile is_whitespace (rev s))"

definition trim :: "str \<Rightarrow> str" where
  "trim s = trim_end (trim_start s)"

lemma trim_start_Nil [simp]: "trim_start [] = []"
  by (simp add: trim_start_def)

lemma trim_end_Nil [simp]: "trim_end [] = []"
  by (simp add: trim_end_def)

lemma trim_Nil [simp]: "trim [] = []"
  by (simp add: trim_def)

lemma length_trim_start: "length (trim_start s) \<le> length s"
  by (simp add: trim_start_def length_dropWhile_le)

lemma dropWhile_id: "s = [] \<or> \<not> P (hd s) \<Longrightarrow> dropWhile P s = s"
  by (cases s) auto

lemma trim_start_id: "s = [] \<or> \<not> is_whitespace (hd s) \<Longrightarrow> trim_start s = s"
  by (simp add: trim_start_def dropWhile_id)

lemma trim_end_id: "s = [] \<or> \<not> is_whitespace (last s) \<Longrightarrow> trim_end s = s"
  by (simp add: trim_end_def dropWhile_id hd_rev)

text \<open>A text is trimmed when it neither starts nor ends with whitespace.\<close>

definition trimmed :: "str \<Rightarrow> bool" where
  "trimmed s \<longleftrightarrow> s = [] \<or> \<not> is_whitespace (hd s) \<and> \<not> is_whitespace (last s)"

lemma trim_id: "trimmed s \<Longrightarrow> trim s = s"
  by (auto simp: trimmed_def trim_def trim_start_id trim_end_id)

lemma hd_dropWhile_not: "dropWhile P s \<noteq> [] \<Longrightarrow> \<not> P (hd (dropWhile P s))"
  by (induction s) auto

lemma last_trim_end: "trim_end s \<noteq> [] \<Longrightarrow> \<not> is_whitespace (last (trim_end s))"
  unfolding trim_end_def by (simp only: rev_is_Nil_conv last_rev hd_dropWhile_not not_False_eq_True)

lemma trim_end_prefix: "prefix (trim_end s) s"
proof -
  have "rev s = takeWhile is_whitespace (rev s) @ dropWhile is_whitespace (rev s)" by simp
  then have "s = trim_end s @ rev (takeWhile is_whitespace (rev s))"
    unfolding trim_end_def by (metis rev_append rev_rev_ident)
  then show ?thesis by (metis prefixI)
qed

lemma hd_prefix: "prefix a b \<Longrightarrow> a \<noteq> [] \<Longrightarrow> hd a = hd b"
  by (auto simp: prefix_def)

lemma trimmed_trim [simp]: "trimmed (trim s)"
proof (cases "trim s = []")
  case False
  then have ne: "trim_start s \<noteq> []" by (auto simp: trim_def)
  have "hd (trim s) = hd (trim_start s)"
    unfolding trim_def using False by (intro hd_prefix trim_end_prefix) (simp add: trim_def)
  moreover have "\<not> is_whitespace (hd (trim_start s))"
    using ne hd_dropWhile_not unfolding trim_start_def by blast
  moreover have "\<not> is_whitespace (last (trim s))"
    using False last_trim_end unfolding trim_def by blast
  ultimately show ?thesis by (simp add: trimmed_def)
qed (simp add: trimmed_def)

lemma trim_trim [simp]: "trim (trim s) = trim s"
  by (rule trim_id) simp

lemma set_trim: "set (trim s) \<subseteq> set s"
  by (auto simp: trim_def trim_end_def trim_start_def dest!: set_dropWhileD)

text \<open>\<open>trim_end_matches\<close> and \<open>trim_start_matches\<close> with a single character.\<close>

definition trim_start_matches :: "uchar \<Rightarrow> str \<Rightarrow> str" where
  "trim_start_matches c s = dropWhile ((=) c) s"

section \<open>Prefixes, suffixes and search\<close>

fun strip_prefix :: "str \<Rightarrow> str \<Rightarrow> str option" where
  "strip_prefix [] s = Some s"
| "strip_prefix (p # ps) [] = None"
| "strip_prefix (p # ps) (c # s) = (if p = c then strip_prefix ps s else None)"

definition starts_with :: "str \<Rightarrow> str \<Rightarrow> bool" where
  "starts_with p s \<longleftrightarrow> strip_prefix p s \<noteq> None"

definition strip_suffix :: "str \<Rightarrow> str \<Rightarrow> str option" where
  "strip_suffix p s = map_option rev (strip_prefix (rev p) (rev s))"

definition ends_with :: "str \<Rightarrow> str \<Rightarrow> bool" where
  "ends_with p s \<longleftrightarrow> strip_suffix p s \<noteq> None"

lemma strip_prefix_Some_iff: "strip_prefix p s = Some r \<longleftrightarrow> s = p @ r"
  by (induction p s rule: strip_prefix.induct) auto

lemma strip_prefix_append [simp]: "strip_prefix p (p @ r) = Some r"
  by (simp add: strip_prefix_Some_iff)

lemma starts_with_iff_prefix: "starts_with p s \<longleftrightarrow> prefix p s"
  by (auto simp: starts_with_def strip_prefix_Some_iff prefix_def)

lemma strip_suffix_Some_iff: "strip_suffix p s = Some r \<longleftrightarrow> s = r @ p"
  by (auto simp: strip_suffix_def strip_prefix_Some_iff)
    (metis rev_append rev_rev_ident)

lemma strip_suffix_append [simp]: "strip_suffix p (r @ p) = Some r"
  by (simp add: strip_suffix_Some_iff)

lemma length_strip_prefix: "strip_prefix p s = Some r \<Longrightarrow> length s = length p + length r"
  by (simp add: strip_prefix_Some_iff)

text \<open>\<open>trim_end_matches\<close> with a non-empty string pattern strips it as often as it occurs.\<close>

function trim_end_matches_str :: "str \<Rightarrow> str \<Rightarrow> str" where
  "trim_end_matches_str p s =
     (if p = [] then s
      else case strip_suffix p s of None \<Rightarrow> s | Some r \<Rightarrow> trim_end_matches_str p r)"
  by pat_completeness auto
termination
  by (relation "measure (\<lambda>(p, s). length s)") (auto simp: strip_suffix_Some_iff)

declare trim_end_matches_str.simps [simp del]

text \<open>
  \<open>str::find\<close> with a string pattern, as the pair of the text before the first occurrence and the
  text after it; \<open>split_once\<close> is the same with a separator.
\<close>

fun split_at_sub :: "str \<Rightarrow> str \<Rightarrow> (str \<times> str) option" where
  "split_at_sub p [] = (if p = [] then Some ([], []) else None)"
| "split_at_sub p (c # s) =
     (case strip_prefix p (c # s) of
        Some r \<Rightarrow> Some ([], r)
      | None \<Rightarrow> map_option (\<lambda>(a, b). (c # a, b)) (split_at_sub p s))"

definition contains_str :: "str \<Rightarrow> str \<Rightarrow> bool" where
  "contains_str p s \<longleftrightarrow> split_at_sub p s \<noteq> None"

lemma split_at_sub_Some: "split_at_sub p s = Some (a, b) \<Longrightarrow> s = a @ p @ b"
proof (induction p s arbitrary: a b rule: split_at_sub.induct)
  case (1 p)
  then show ?case by (auto split: if_splits)
next
  case (2 p c s)
  then show ?case
    by (cases "strip_prefix p (c # s)") (auto simp: strip_prefix_Some_iff)
qed

lemma split_at_sub_None: "split_at_sub p s = None \<longleftrightarrow> \<not> sublist p s"
proof (induction p s rule: split_at_sub.induct)
  case (1 p)
  then show ?case by (auto)
next
  case (2 p c s)
  show ?case
  proof (cases "strip_prefix p (c # s)")
    case None
    then have "\<not> prefix p (c # s)" by (metis not_Some_eq prefixE strip_prefix_append)
    then have "sublist p (c # s) \<longleftrightarrow> sublist p s" by (auto simp: sublist_Cons_right)
    with None 2 show ?thesis by simp
  next
    case (Some r)
    then have "sublist p (c # s)" by (metis prefixI prefix_imp_sublist strip_prefix_Some_iff)
    with Some show ?thesis by simp
  qed
qed

lemma contains_str_iff: "contains_str p s \<longleftrightarrow> sublist p s"
  by (simp add: contains_str_def split_at_sub_None)

definition split_once :: "uchar \<Rightarrow> str \<Rightarrow> (str \<times> str) option" where
  "split_once c s =
     (if c \<in> set s then Some (takeWhile ((\<noteq>) c) s, tl (dropWhile ((\<noteq>) c) s)) else None)"

lemma split_once_None [simp]: "split_once c s = None \<longleftrightarrow> c \<notin> set s"
  by (simp add: split_once_def)

lemma split_once_append [simp]: "c \<notin> set a \<Longrightarrow> split_once c (a @ c # b) = Some (a, b)"
  by (auto simp: split_once_def takeWhile_append dropWhile_append)

lemma split_once_Some_iff: "split_once c s = Some (a, b) \<longleftrightarrow> s = a @ c # b \<and> c \<notin> set a"
proof
  assume *: "split_once c s = Some (a, b)"
  then have "c \<in> set s" by (metis option.distinct(1) split_once_None)
  then obtain x y where "s = x @ c # y" "c \<notin> set x" by (meson split_list_first)
  with * show "s = a @ c # b \<and> c \<notin> set a" by auto
qed auto

section \<open>Splitting\<close>

fun split_pred :: "(uchar \<Rightarrow> bool) \<Rightarrow> str \<Rightarrow> str list" where
  "split_pred P [] = [[]]"
| "split_pred P (x # s) =
     (if P x then [] # split_pred P s
      else case split_pred P s of [] \<Rightarrow> [[x]] | w # ws \<Rightarrow> (x # w) # ws)"

definition split :: "uchar \<Rightarrow> str \<Rightarrow> str list" where
  "split c s = split_pred ((=) c) s"

lemma split_pred_ne [simp]: "split_pred P s \<noteq> []"
  by (induction s) (auto split: list.splits)

lemma split_pred_no_sep: "(\<And>c. c \<in> set s \<Longrightarrow> \<not> P c) \<Longrightarrow> split_pred P s = [s]"
  by (induction s) auto

lemma split_pred_append:
  "(\<And>c. c \<in> set a \<Longrightarrow> \<not> P c) \<Longrightarrow> P x \<Longrightarrow> split_pred P (a @ x # s) = a # split_pred P s"
  by (induction a) auto

lemma split_pred_piece: "w \<in> set (split_pred P s) \<Longrightarrow> c \<in> set w \<Longrightarrow> \<not> P c \<and> c \<in> set s"
proof (induction s arbitrary: w c)
  case Nil
  then show ?case by simp
next
  case (Cons x s)
  obtain v vs where vs: "split_pred P s = v # vs" by (meson neq_Nil_conv split_pred_ne)
  show ?case
  proof (cases "P x")
    case True
    with Cons.prems have "w \<in> set (split_pred P s)" by auto
    then show ?thesis using Cons.IH [of w c] Cons.prems(2) by simp
  next
    case False
    with vs Cons.prems consider "w = x # v" | "w \<in> set vs" by auto
    then show ?thesis using False vs Cons.prems(2) Cons.IH [of v c] Cons.IH [of w c] by cases auto
  qed
qed

lemma split_ne [simp]: "split c s \<noteq> []"
  by (simp add: split_def)

lemma split_no_sep: "c \<notin> set s \<Longrightarrow> split c s = [s]"
  unfolding split_def by (rule split_pred_no_sep) auto

lemma split_append: "c \<notin> set a \<Longrightarrow> split c (a @ c # s) = a # split c s"
  unfolding split_def by (rule split_pred_append) auto

lemma split_piece: "w \<in> set (split c s) \<Longrightarrow> c \<notin> set w \<and> set w \<subseteq> set s"
  unfolding split_def using split_pred_piece by fastforce

fun join :: "str \<Rightarrow> str list \<Rightarrow> str" where
  "join sep [] = []"
| "join sep [x] = x"
| "join sep (x # xs) = x @ sep @ join sep xs"

lemma split_join:
  "xs \<noteq> [] \<Longrightarrow> (\<And>x. x \<in> set xs \<Longrightarrow> c \<notin> set x) \<Longrightarrow> split c (join [c] xs) = xs"
proof (induction "[c]" xs rule: join.induct)
  case 1
  then show ?case by simp
next
  case (2 x)
  then show ?case by (simp add: split_no_sep)
next
  case (3 x y ys)
  then show ?case by (simp add: split_append)
qed

lemma set_join: "set (join sep xs) \<subseteq> set sep \<union> (\<Union>x \<in> set xs. set x)"
  by (induction sep xs rule: join.induct) auto

lemma hd_join: "x \<noteq> [] \<Longrightarrow> hd (join sep (x # xs)) = hd x"
  by (cases xs) simp_all

lemma last_join: "xs \<noteq> [] \<Longrightarrow> (\<And>x. x \<in> set xs \<Longrightarrow> x \<noteq> []) \<Longrightarrow> last (join sep xs) = last (last xs)"
proof (induction sep xs rule: join.induct)
  case (3 sep x y ys)
  have "join sep (y # ys) \<noteq> []" using 3(3) [of y] by (cases ys) auto
  with 3 show ?case by simp
qed auto

text \<open>The fields of \<open>split_whitespace\<close> are non-empty and free of whitespace.\<close>

definition split_whitespace :: "str \<Rightarrow> str list" where
  "split_whitespace s = filter (\<lambda>w. w \<noteq> []) (split_pred is_whitespace s)"

lemma split_whitespace_word:
  "w \<in> set (split_whitespace s) \<Longrightarrow> w \<noteq> [] \<and> (\<forall>c \<in> set w. \<not> is_whitespace c)"
  by (auto simp: split_whitespace_def dest: split_pred_piece)

text \<open>
  \<open>str::lines\<close>: a line ends at a line feed, a carriage return right before that line feed is
  dropped, and the last line needs no terminator.
\<close>

definition chomp_cr :: "str \<Rightarrow> str" where
  "chomp_cr s = (case strip_suffix [13] s of None \<Rightarrow> s | Some r \<Rightarrow> r)"

function lines :: "str \<Rightarrow> str list" where
  "lines s =
     (if s = [] then []
      else case split_once 10 s of
        None \<Rightarrow> [s]
      | Some (a, b) \<Rightarrow> chomp_cr a # lines b)"
  by pat_completeness auto
termination
  by (relation "measure length") (auto simp: split_once_Some_iff)

declare lines.simps [simp del]

lemma lines_Nil [simp]: "lines [] = []"
  by (simp add: lines.simps)

lemma lines_single: "s \<noteq> [] \<Longrightarrow> 10 \<notin> set s \<Longrightarrow> lines s = [s]"
  using split_once_None [of 10 s] by (subst lines.simps) (simp del: split_once_None)

lemma lines_append: "10 \<notin> set a \<Longrightarrow> lines (a @ 10 # b) = chomp_cr a # lines b"
  by (subst lines.simps) auto

lemma chomp_cr_id: "s = [] \<or> last s \<noteq> 13 \<Longrightarrow> chomp_cr s = s"
  by (auto simp: chomp_cr_def strip_suffix_Some_iff split: option.splits)

section \<open>Decimal numbers\<close>

function show_nat :: "nat \<Rightarrow> str" where
  "show_nat n = (if n < 10 then [48 + n] else show_nat (n div 10) @ [48 + n mod 10])"
  by pat_completeness auto
termination
  by (relation "measure id") auto

declare show_nat.simps [simp del]

definition show_int :: "int \<Rightarrow> str" where
  "show_int i = (if i < 0 then 45 # show_nat (nat (- i)) else show_nat (nat i))"

definition dec_value :: "str \<Rightarrow> nat" where
  "dec_value s = foldl (\<lambda>n c. 10 * n + (c - 48)) 0 s"

definition all_digits :: "str \<Rightarrow> bool" where
  "all_digits s \<longleftrightarrow> (\<forall>c \<in> set s. is_ascii_digit c)"

lemma all_digits_code [code]: "all_digits s = list_all is_ascii_digit s"
  by (simp add: all_digits_def list_all_iff)

text \<open>
  \<open>str::parse\<close> at an unsigned width: an optional plus sign, then at least one digit, then a range
  check.
\<close>

definition parse_uint :: "nat \<Rightarrow> str \<Rightarrow> nat option" where
  "parse_uint w s =
     (let d = (case strip_prefix [43] s of Some r \<Rightarrow> r | None \<Rightarrow> s)
      in if d \<noteq> [] \<and> all_digits d \<and> dec_value d < 2 ^ w then Some (dec_value d) else None)"

lemma dec_value_snoc [simp]: "dec_value (s @ [c]) = 10 * dec_value s + (c - 48)"
  by (simp add: dec_value_def)

lemma dec_value_show_nat [simp]: "dec_value (show_nat n) = n"
proof (induction n rule: show_nat.induct)
  case (1 n)
  show ?case
  proof (cases "n < 10")
    case True
    then show ?thesis by (subst show_nat.simps) (simp add: dec_value_def)
  next
    case False
    with 1 show ?thesis by (subst show_nat.simps) simp
  qed
qed

lemma show_nat_digits: "c \<in> set (show_nat n) \<Longrightarrow> is_ascii_digit c"
proof (induction n rule: show_nat.induct)
  case (1 n)
  show ?case
  proof (cases "n < 10")
    case True
    with 1 show ?thesis by (simp add: show_nat.simps [of n] is_ascii_digit_def)
  next
    case False
    moreover have "n mod 10 < 10" by simp
    ultimately show ?thesis
      using 1 by (auto simp: show_nat.simps [of n] is_ascii_digit_def)
  qed
qed

lemma show_nat_ne [simp]: "show_nat n \<noteq> []"
  by (subst show_nat.simps) simp

lemma all_digits_show_nat [simp]: "all_digits (show_nat n)"
  by (simp add: all_digits_def show_nat_digits)

lemma parse_uint_show_nat: "n < 2 ^ w \<Longrightarrow> parse_uint w (show_nat n) = Some n"
proof -
  assume n: "n < 2 ^ w"
  have "is_ascii_digit (hd (show_nat n))"
    by (rule show_nat_digits [of _ n], rule hd_in_set) simp
  then obtain c r where cr: "show_nat n = c # r" "c \<noteq> 43"
    by (cases "show_nat n") (auto simp: is_ascii_digit_def)
  then have "strip_prefix [43] (show_nat n) = None" by simp
  with n show ?thesis by (simp add: parse_uint_def Let_def)
qed

lemma show_nat_inj: "show_nat m = show_nat n \<Longrightarrow> m = n"
  by (metis dec_value_show_nat)

lemma show_int_inj: "show_int i = show_int j \<Longrightarrow> i = j"
proof -
  have "45 \<notin> set (show_nat n)" for n by (auto simp: is_ascii_digit_def dest!: show_nat_digits)
  then have "45 # show_nat m \<noteq> show_nat n" for m n by (metis list.set_intros(1))
  moreover assume "show_int i = show_int j"
  ultimately show ?thesis
    by (auto simp: show_int_def split: if_splits dest!: show_nat_inj) metis+
qed

lemma parse_uint_bound: "parse_uint w s = Some n \<Longrightarrow> n < 2 ^ w"
  by (auto simp: parse_uint_def Let_def split: if_splits)

text \<open>
  \<open>str::parse\<close> at the width of \<open>i64\<close>: an optional sign, then at least one digit, then a range check.
\<close>

definition parse_i64 :: "str \<Rightarrow> int option" where
  "parse_i64 s =
     (case strip_prefix [45] s of
        Some d \<Rightarrow> (if d \<noteq> [] \<and> all_digits d \<and> dec_value d \<le> 2 ^ 63 then Some (- int (dec_value d)) else None)
      | None \<Rightarrow> map_option int (parse_uint 63 s))"

definition i64_range :: "int \<Rightarrow> bool" where
  "i64_range i \<longleftrightarrow> - (2 ^ 63) \<le> i \<and> i < 2 ^ 63"

lemma strip_minus_show_nat: "strip_prefix [45] (show_nat n) = None"
proof -
  have "is_ascii_digit (hd (show_nat n))"
    by (rule show_nat_digits [of _ n], rule hd_in_set) simp
  then show ?thesis by (cases "show_nat n") (auto simp: is_ascii_digit_def)
qed

lemma parse_i64_show_int: "i64_range i \<Longrightarrow> parse_i64 (show_int i) = Some i"
proof (cases "i < 0")
  case True
  assume "i64_range i"
  with True have "nat (- i) \<le> 2 ^ 63" by (simp add: i64_range_def)
  with True show ?thesis by (simp add: parse_i64_def show_int_def)
next
  case False
  assume "i64_range i"
  with False have "nat i < 2 ^ 63" by (simp add: i64_range_def nat_less_iff)
  with False show ?thesis
    by (simp add: parse_i64_def show_int_def strip_minus_show_nat parse_uint_show_nat)
qed

end
