(* ===== verification/CronField.thy ===== *)
theory CronField
  imports RustStr "HOL-Library.Word"
begin

text \<open>
  One field of a five-field cron expression (\<open>backend/src/schedule/cron_field.rs\<close>): the valueue set
  as a 64-bit mask, the grammar \<open>*\<close>, \<open>v\<close>, \<open>a-b\<close>, comma lists and \<open>/n\<close> steps, and every rejection
  as a value. The messages of the source are kept as structured errors: the field name, the
  offending token and the detail with its numbers.
\<close>

unbundle bit_operations_syntax

section \<open>Data\<close>

record cron_field =
  mask :: "64 word"
  restricted :: bool

record field_spec =
  spec_name :: str
  spec_min :: nat
  spec_max :: nat

datatype field_detail =
    MustNotBeEmpty
  | NotADecimalNumber str
  | StepMustBeAtLeastOne
  | StepExceedsDomain nat nat nat
  | RangeIsDescending nat nat
  | ValueOutsideRange nat nat nat bool
  | MatchesNoValue

datatype cron_error =
    InvalidField str str field_detail
  | NotFiveFields str nat
  | NeverFires str

definition MINUTE :: field_spec where
  "MINUTE = \<lparr>spec_name = lit ''minute'', spec_min = 0, spec_max = 59\<rparr>"

definition HOUR :: field_spec where
  "HOUR = \<lparr>spec_name = lit ''hour'', spec_min = 0, spec_max = 23\<rparr>"

definition DAY_OF_MONTH :: field_spec where
  "DAY_OF_MONTH = \<lparr>spec_name = lit ''day-of-month'', spec_min = 1, spec_max = 31\<rparr>"

definition MONTH :: field_spec where
  "MONTH = \<lparr>spec_name = lit ''month'', spec_min = 1, spec_max = 12\<rparr>"

definition DAY_OF_WEEK :: field_spec where
  "DAY_OF_WEEK = \<lparr>spec_name = lit ''day-of-week'', spec_min = 0, spec_max = 6\<rparr>"

lemmas field_spec_defs = MINUTE_def HOUR_def DAY_OF_MONTH_def MONTH_def DAY_OF_WEEK_def

section \<open>Operations\<close>

definition cf_matches :: "cron_field \<Rightarrow> nat \<Rightarrow> bool" where
  "cf_matches f val \<longleftrightarrow> val < 64 \<and> mask f AND push_bit val 1 \<noteq> 0"

definition cf_values :: "cron_field \<Rightarrow> nat list" where
  "cf_values f = filter (cf_matches f) [0..<64]"

definition is_restricted :: "cron_field \<Rightarrow> bool" where
  "is_restricted f = restricted f"

definition invalid :: "field_spec \<Rightarrow> str \<Rightarrow> field_detail \<Rightarrow> cron_error" where
  "invalid spec token detail = InvalidField (spec_name spec) token detail"

definition parse_u32 :: "str \<Rightarrow> field_spec \<Rightarrow> str \<Rightarrow> cron_error + nat" where
  "parse_u32 val spec token =
     (if val = [] \<or> \<not> all_digits val
      then Inl (invalid spec token (NotADecimalNumber val))
      else ok_or (invalid spec token (NotADecimalNumber val)) (parse_uint 32 val))"

definition parse_bounded :: "str \<Rightarrow> field_spec \<Rightarrow> str \<Rightarrow> cron_error + nat" where
  "parse_bounded val spec token =
     and_then (parse_u32 val spec token) (\<lambda>parsed.
       if parsed < spec_min spec \<or> parsed > spec_max spec
       then Inl (invalid spec token
              (ValueOutsideRange parsed (spec_min spec) (spec_max spec)
                 (spec_name spec = spec_name DAY_OF_WEEK \<and> parsed = 7)))
       else Inr parsed)"

definition parse_range :: "str \<Rightarrow> field_spec \<Rightarrow> str \<Rightarrow> cron_error + (nat \<times> nat \<times> bool)" where
  "parse_range rng spec token =
     (if rng = lit ''*'' then Inr (spec_min spec, spec_max spec, False)
      else case split_once (ch (CHR ''-'')) rng of
        Some (start, end) \<Rightarrow>
          and_then (parse_bounded start spec token) (\<lambda>start.
          and_then (parse_bounded end spec token) (\<lambda>end.
            if start > end then Inl (invalid spec token (RangeIsDescending start end))
            else Inr (start, end, True)))
      | None \<Rightarrow>
          and_then (parse_bounded rng spec token) (\<lambda>val. Inr (val, val, True)))"

definition split_step :: "str \<Rightarrow> field_spec \<Rightarrow> str \<Rightarrow> cron_error + (str \<times> nat)" where
  "split_step item spec token =
     (case split_once (ch (CHR ''/'')) item of
        None \<Rightarrow> Inr (item, 1)
      | Some (rng, step) \<Rightarrow>
          and_then (parse_u32 step spec token) (\<lambda>step.
            if step = 0 then Inl (invalid spec token StepMustBeAtLeastOne)
            else if step > spec_max spec - spec_min spec + 1
            then Inl (invalid spec token (StepExceedsDomain step (spec_min spec) (spec_max spec)))
            else Inr (rng, step)))"

text \<open>
  The inner loop of \<open>parse_field\<close>: set the bits of \<open>val\<close>, \<open>val + step\<close>, and so on up to
  \<open>end\<close>. The guard \<open>0 < step\<close> always holds here (lemma \<open>split_step_Inr\<close>); it makes the loop total.
\<close>

function set_range :: "64 word \<Rightarrow> nat \<Rightarrow> nat \<Rightarrow> nat \<Rightarrow> 64 word" where
  "set_range m val end step =
     (if val \<le> end \<and> 0 < step
      then set_range (m OR push_bit val 1) (val + step) end step
      else m)"
  by pat_completeness auto
termination
  by (relation "measure (\<lambda>(m, val, end, step). Suc end - val)") auto

declare set_range.simps [simp del]

fun parse_items :: "field_spec \<Rightarrow> str \<Rightarrow> str list \<Rightarrow> 64 word \<times> bool \<Rightarrow> cron_error + (64 word \<times> bool)" where
  "parse_items spec token [] (m, r) = Inr (m, r)"
| "parse_items spec token (item # items) (m, r) =
     and_then (split_step item spec token) (\<lambda>(rng, step).
     and_then (parse_range rng spec token) (\<lambda>(start, end, item_restricted).
       parse_items spec token items
         (set_range m start end step, r \<or> item_restricted \<or> step > 1)))"

definition parse_field :: "str \<Rightarrow> field_spec \<Rightarrow> cron_error + cron_field" where
  "parse_field token spec =
     (if token = [] then Inl (invalid spec token MustNotBeEmpty)
      else and_then (parse_items spec token (split (ch (CHR '','')) token) (0, False))
        (\<lambda>(m, r).
           if m = 0 then Inl (invalid spec token MatchesNoValue)
           else Inr \<lparr>mask = m, restricted = r\<rparr>))"

section \<open>The value set\<close>

lemma cf_matches_iff_bit: "cf_matches f v \<longleftrightarrow> bit (mask f) v"
  unfolding cf_matches_def bit_iff_and_push_bit_not_eq_0 [symmetric]
  by (auto dest: bit_imp_le_length)

lemma cf_matches_less: "cf_matches f v \<Longrightarrow> v < 64"
  by (simp add: cf_matches_def)

lemma set_cf_values [simp]: "set (cf_values f) = {v. cf_matches f v}"
  by (auto simp: cf_values_def dest: cf_matches_less)

lemma sorted_cf_values: "sorted_wrt (<) (cf_values f)"
  by (simp add: cf_values_def sorted_wrt_filter)

lemma set_range_bit:
  assumes "0 < step"
  shows "bit (set_range m val end step) n \<longleftrightarrow>
     bit m n \<or> n < 64 \<and> val \<le> n \<and> n \<le> end \<and> step dvd (n - val)"
  using assms
proof (induction m val "end" step rule: set_range.induct)
  case (1 m v e s)
  show ?case
  proof (cases "v \<le> e")
    case True
    have "bit (set_range m v e s) n \<longleftrightarrow>
        bit (m OR push_bit v 1) n \<or> n < 64 \<and> v + s \<le> n \<and> n \<le> e \<and> s dvd (n - (v + s))"
      using 1 True by (simp add: set_range.simps [of m v e s])
    moreover have "bit (m OR push_bit v 1) n \<longleftrightarrow> bit m n \<or> n < 64 \<and> n = v"
      by (auto simp: bit_or_iff bit_exp_iff)
    moreover have "v + s \<le> n \<and> s dvd (n - (v + s)) \<or> n = v \<longleftrightarrow> v \<le> n \<and> s dvd (n - v)"
    proof (cases "v + s \<le> n")
      case True
      then have "n - v = n - (v + s) + s" by simp
      then have "s dvd (n - v) \<longleftrightarrow> s dvd (n - (v + s))" by (metis dvd_add_left_iff dvd_refl)
      with True show ?thesis by auto
    next
      case False
      then have "v \<le> n \<Longrightarrow> s dvd (n - v) \<Longrightarrow> n = v" using 1(2)
        by (metis add.commute dvd_imp_le le_add_diff_inverse less_diff_conv linorder_not_less
            not_less_iff_gr_or_eq zero_less_diff)
      with False show ?thesis using 1(2) by auto
    qed
    ultimately show ?thesis using True by auto
  next
    case False
    then show ?thesis by (auto simp: set_range.simps [of m v e s])
  qed
qed

lemma parse_u32_Inr: "parse_u32 val spec token = Inr n \<Longrightarrow> val \<noteq> [] \<and> all_digits val \<and> n = dec_value val"
proof -
  assume *: "parse_u32 val spec token = Inr n"
  then have v: "val \<noteq> []" "all_digits val" and p: "parse_uint 32 val = Some n"
    by (auto simp: parse_u32_def res_simps split: if_splits)
  have "strip_prefix [43] val = None"
    using v by (cases val) (auto simp: all_digits_def is_ascii_digit_def)
  with p v show ?thesis by (auto simp: parse_uint_def Let_def split: if_splits)
qed

lemma parse_bounded_Inr:
  "parse_bounded val spec token = Inr n \<Longrightarrow> spec_min spec \<le> n \<and> n \<le> spec_max spec"
  by (auto simp: parse_bounded_def res_simps split: if_splits)

lemma split_step_Inr:
  "split_step item spec token = Inr (rng, step) \<Longrightarrow>
   0 < step \<and> step \<le> spec_max spec - spec_min spec + 1"
  by (auto simp: split_step_def res_simps split: option.splits if_splits)

lemma parse_range_Inr:
  "spec_min spec \<le> spec_max spec \<Longrightarrow> parse_range rng spec token = Inr (start, end, r) \<Longrightarrow>
   spec_min spec \<le> start \<and> start \<le> end \<and> end \<le> spec_max spec"
  by (auto simp: parse_range_def res_simps split: option.splits if_splits dest!: parse_bounded_Inr)

text \<open>What one comma item denotes.\<close>

definition item_denotes :: "field_spec \<Rightarrow> str \<Rightarrow> str \<Rightarrow> nat \<Rightarrow> bool" where
  "item_denotes spec token item v \<longleftrightarrow>
     (\<exists>rng step start end r.
        split_step item spec token = Inr (rng, step) \<and>
        parse_range rng spec token = Inr (start, end, r) \<and>
        start \<le> v \<and> v \<le> end \<and> step dvd (v - start))"

lemma parse_items_bits:
  assumes "parse_items spec token items (m, r) = Inr (m', r')"
    and spec: "spec_min spec \<le> spec_max spec" "spec_max spec < 64"
  shows "bit m' v \<longleftrightarrow> bit m v \<or> (\<exists>item \<in> set items. item_denotes spec token item v)"
  using assms(1)
proof (induction items arbitrary: m r)
  case Nil
  then show ?case by simp
next
  case (Cons item items)
  from Cons.prems obtain rng step start "end" ir where
    s: "split_step item spec token = Inr (rng, step)" and
    p: "parse_range rng spec token = Inr (start, end, ir)" and
    rec: "parse_items spec token items
      (set_range m start end step, r \<or> ir \<or> step > 1) = Inr (m', r')"
    by (auto simp: res_simps)
  have "end < 64" using parse_range_Inr [OF spec(1) p] spec(2) by simp
  then have "bit (set_range m start end step) v \<longleftrightarrow> bit m v \<or> item_denotes spec token item v"
    using split_step_Inr [OF s] by (auto simp: set_range_bit item_denotes_def s p)
  with Cons.IH [OF rec] show ?case by auto
qed

lemma item_denotes_range:
  assumes "spec_min spec \<le> spec_max spec" "item_denotes spec token item v"
  shows "spec_min spec \<le> v \<and> v \<le> spec_max spec"
proof -
  from assms(2) obtain rng step start "end" r where
    "parse_range rng spec token = Inr (start, end, r)" "start \<le> v" "v \<le> end"
    unfolding item_denotes_def by blast
  with parse_range_Inr [OF assms(1) this(1)] show ?thesis by simp
qed

lemma parse_field_matches:
  assumes "parse_field token spec = Inr f" "spec_min spec \<le> spec_max spec" "spec_max spec < 64"
  shows "cf_matches f v \<longleftrightarrow> (\<exists>item \<in> set (split (ch (CHR '','')) token). item_denotes spec token item v)"
proof -
  from assms(1) obtain m r where
    "parse_items spec token (split (ch (CHR '','')) token) (0, False) = Inr (m, r)"
    and f: "f = \<lparr>mask = m, restricted = r\<rparr>"
    by (auto simp: parse_field_def res_simps split: if_splits)
  from parse_items_bits [OF this(1) assms(2,3)] f show ?thesis
    by (simp add: cf_matches_iff_bit)
qed

text \<open>A parsed field is well formed: it matches some value, and only values of its domain.\<close>

definition wf_field :: "field_spec \<Rightarrow> cron_field \<Rightarrow> bool" where
  "wf_field spec f \<longleftrightarrow>
     (\<exists>v. cf_matches f v) \<and> (\<forall>v. cf_matches f v \<longrightarrow> spec_min spec \<le> v \<and> v \<le> spec_max spec)"

lemma parse_field_wf:
  assumes "parse_field token spec = Inr f" "spec_min spec \<le> spec_max spec" "spec_max spec < 64"
  shows "wf_field spec f"
proof -
  have "mask f \<noteq> 0" using assms(1) by (auto simp: parse_field_def res_simps split: if_splits)
  then have "\<exists>v. cf_matches f v"
    unfolding cf_matches_iff_bit by (metis bit_0_eq bit_word_eqI bot_apply bot_bool_def)
  moreover have "spec_min spec \<le> v \<and> v \<le> spec_max spec" if "cf_matches f v" for v
    using that parse_field_matches [OF assms] item_denotes_range [OF assms(2)] by blast
  ultimately show ?thesis by (auto simp: wf_field_def)
qed

section \<open>The documented grammar\<close>

text \<open>
  The items the module's documentation lists, with their concrete syntax and their meaning,
  independent of the parser: \<open>*\<close>, a single value, a range, and a step on \<open>*\<close> or on a range.
\<close>

datatype cron_item = Star "nat option" | Single nat | Span nat nat "nat option"

fun print_step :: "nat option \<Rightarrow> str" where
  "print_step None = []"
| "print_step (Some n) = ch (CHR ''/'') # show_nat n"

fun item_base :: "cron_item \<Rightarrow> str" where
  "item_base (Star s) = lit ''*''"
| "item_base (Single v) = show_nat v"
| "item_base (Span a b s) = show_nat a @ ch (CHR ''-'') # show_nat b"

fun item_step :: "cron_item \<Rightarrow> nat option" where
  "item_step (Star s) = s"
| "item_step (Single v) = None"
| "item_step (Span a b s) = s"

definition print_item :: "cron_item \<Rightarrow> str" where
  "print_item i = item_base i @ print_step (item_step i)"

fun item_bounds :: "field_spec \<Rightarrow> cron_item \<Rightarrow> nat \<times> nat" where
  "item_bounds spec (Star s) = (spec_min spec, spec_max spec)"
| "item_bounds spec (Single v) = (v, v)"
| "item_bounds spec (Span a b s) = (a, b)"

definition the_step :: "cron_item \<Rightarrow> nat" where
  "the_step i = (case item_step i of None \<Rightarrow> 1 | Some n \<Rightarrow> n)"

definition item_means :: "field_spec \<Rightarrow> cron_item \<Rightarrow> nat \<Rightarrow> bool" where
  "item_means spec i v \<longleftrightarrow>
     (let (a, b) = item_bounds spec i in a \<le> v \<and> v \<le> b \<and> the_step i dvd (v - a))"

definition item_narrows :: "cron_item \<Rightarrow> bool" where
  "item_narrows i \<longleftrightarrow> (\<forall>s. i \<noteq> Star s) \<or> 1 < the_step i"

definition wf_item :: "field_spec \<Rightarrow> cron_item \<Rightarrow> bool" where
  "wf_item spec i \<longleftrightarrow>
     (let (a, b) = item_bounds spec i
      in spec_min spec \<le> a \<and> a \<le> b \<and> b \<le> spec_max spec) \<and>
     0 < the_step i \<and> the_step i \<le> spec_max spec - spec_min spec + 1"

lemma not_in_show_nat: "\<not> is_ascii_digit c \<Longrightarrow> c \<notin> set (show_nat n)"
  by (auto dest: show_nat_digits)

lemma seps_not_in_show_nat [simp]:
  "ch (CHR '','') \<notin> set (show_nat n)"
  "ch (CHR ''/'') \<notin> set (show_nat n)"
  "ch (CHR ''-'') \<notin> set (show_nat n)"
  "42 \<notin> set (show_nat n)" "44 \<notin> set (show_nat n)" "45 \<notin> set (show_nat n)" "47 \<notin> set (show_nat n)"
  by (rule not_in_show_nat, simp add: is_ascii_digit_def)+

lemma print_item_no_comma: "44 \<notin> set (print_item i)"
  by (cases i; cases "item_step i") (auto simp: print_item_def str_simps)

lemma item_base_no_slash: "47 \<notin> set (item_base i)"
  by (cases i) (auto simp: str_simps)

lemma parse_u32_show_nat: "n < 2 ^ 32 \<Longrightarrow> parse_u32 (show_nat n) spec token = Inr n"
  by (simp add: parse_u32_def parse_uint_show_nat)

lemma parse_bounded_show_nat:
  "spec_min spec \<le> n \<Longrightarrow> n \<le> spec_max spec \<Longrightarrow> spec_max spec < 64 \<Longrightarrow>
   parse_bounded (show_nat n) spec token = Inr n"
  by (simp add: parse_bounded_def parse_u32_show_nat)

lemma show_nat_not_star [simp]: "show_nat n @ r \<noteq> lit ''*''" "show_nat n \<noteq> lit ''*''"
proof -
  have "hd (show_nat n) \<noteq> 42" by (metis hd_in_set seps_not_in_show_nat(4) show_nat_ne)
  then show "show_nat n @ r \<noteq> lit ''*''" "show_nat n \<noteq> lit ''*''"
    by (cases "show_nat n"; auto simp: str_simps)+
qed

lemma split_step_print:
  "wf_item spec i \<Longrightarrow> spec_max spec < 64 \<Longrightarrow>
   split_step (print_item i) spec token = Inr (item_base i, the_step i)"
proof (cases "item_step i")
  case None
  then show ?thesis using item_base_no_slash [of i]
    using split_once_None [of 47 "item_base i"]
    by (simp add: split_step_def print_item_def the_step_def del: split_once_None)
next
  case (Some n)
  moreover assume "wf_item spec i" "spec_max spec < 64"
  ultimately have n: "0 < n" "n \<le> spec_max spec - spec_min spec + 1" "n < 2 ^ 32"
    by (auto simp: wf_item_def the_step_def)
  with Some show ?thesis using item_base_no_slash [of i]
    by (simp add: split_step_def print_item_def the_step_def parse_u32_show_nat)
qed

lemma parse_range_print:
  "wf_item spec i \<Longrightarrow> spec_max spec < 64 \<Longrightarrow>
   parse_range (item_base i) spec token =
     Inr (fst (item_bounds spec i), snd (item_bounds spec i), \<forall>s. i \<noteq> Star s)"
proof (cases i)
  case (Single v)
  moreover assume "wf_item spec i" "spec_max spec < 64"
  moreover have "split_once 45 (show_nat v) = None" by simp
  ultimately show ?thesis
    by (simp add: parse_range_def wf_item_def parse_bounded_show_nat del: split_once_None)
qed (auto simp: parse_range_def wf_item_def parse_bounded_show_nat)

lemma parse_items_print:
  assumes "\<forall>i \<in> set is. wf_item spec i" "spec_max spec < 64"
  shows "\<exists>m'. parse_items spec token (map print_item is) (m, r) =
           Inr (m', r \<or> (\<exists>i \<in> set is. item_narrows i))"
  using assms(1)
proof (induction "is" arbitrary: m r)
  case Nil
  then show ?case by simp
next
  case (Cons i "is")
  let ?b = "item_bounds spec i"
  let ?n = "\<forall>s. i \<noteq> Star s"
  have "\<forall>i \<in> set is. wf_item spec i" using Cons.prems by simp
  from Cons.IH [OF this, of "set_range m (fst ?b) (snd ?b) (the_step i)" "r \<or> ?n \<or> the_step i > 1"]
  obtain m' where
    "parse_items spec token (map print_item is)
       (set_range m (fst ?b) (snd ?b) (the_step i), r \<or> ?n \<or> the_step i > 1) =
     Inr (m', (r \<or> ?n \<or> the_step i > 1) \<or> (\<exists>i \<in> set is. item_narrows i))" by blast
  moreover have "((r \<or> ?n \<or> the_step i > 1) \<or> (\<exists>i \<in> set is. item_narrows i)) =
      (r \<or> (\<exists>i \<in> set (i # is). item_narrows i))"
    by (simp add: item_narrows_def disj_assoc)
  moreover have "wf_item spec i" using Cons.prems by simp
  ultimately show ?case
    using assms(2) by (simp add: split_step_print parse_range_print del: disj_assoc)
qed

lemma item_denotes_print:
  "wf_item spec i \<Longrightarrow> spec_max spec < 64 \<Longrightarrow>
   item_denotes spec token (print_item i) v \<longleftrightarrow> item_means spec i v"
  by (auto simp: item_denotes_def item_means_def split_step_print parse_range_print split: prod.splits)

lemma print_items_ne: "is \<noteq> [] \<Longrightarrow> join [44] (map print_item is) \<noteq> []"
proof (cases "is")
  case (Cons i js)
  have "item_base i \<noteq> []" by (cases i) (auto simp: str_simps)
  with Cons show ?thesis by (cases js) (auto simp: print_item_def)
qed simp

text \<open>
  Every comma list of documented items, printed in the documented syntax, is accepted; the
  parsed field matches exactly the values the items mean (in particular the mask is never empty)
  and is restricted exactly when an item other than a bare \<open>*\<close> occurs.
\<close>

theorem parse_field_print:
  assumes "is \<noteq> []" "\<forall>i \<in> set is. wf_item spec i" "spec_max spec < 64"
  shows "\<exists>f. parse_field (join [ch (CHR '','')] (map print_item is)) spec = Inr f \<and>
             (\<forall>v. cf_matches f v \<longleftrightarrow> (\<exists>i \<in> set is. item_means spec i v)) \<and>
             is_restricted f = (\<exists>i \<in> set is. item_narrows i)"
proof -
  let ?t = "join [44] (map print_item is)"
  have sp: "split 44 ?t = map print_item is"
    using assms(1) by (intro split_join) (auto simp: print_item_no_comma)
  have ms: "spec_min spec \<le> spec_max spec"
    using assms(1,2) by (cases "is") (auto simp: wf_item_def split: prod.splits)
  obtain m where m: "parse_items spec ?t (map print_item is) (0, False) =
      Inr (m, \<exists>i \<in> set is. item_narrows i)"
    using parse_items_print [OF assms(2,3), of ?t 0 False] by auto
  have bits: "bit m v \<longleftrightarrow> (\<exists>i \<in> set is. item_means spec i v)" for v
    using parse_items_bits [OF m ms assms(3), of v] assms(2,3) by (auto simp: item_denotes_print)
  obtain i where i: "i \<in> set is" using assms(1) by (cases "is") auto
  then have "item_means spec i (fst (item_bounds spec i))"
    using assms(2) by (auto simp: item_means_def wf_item_def split: prod.splits)
  with bits i have "m \<noteq> 0" by (metis bit_0_eq bot_apply bot_bool_def)
  then have "parse_field ?t spec = Inr \<lparr>mask = m, restricted = \<exists>i \<in> set is. item_narrows i\<rparr>"
    using m sp print_items_ne [OF assms(1)] by (simp add: parse_field_def)
  then show ?thesis using bits by (auto simp: cf_matches_iff_bit is_restricted_def)
qed

theorem parse_field_print_witness:
  "\<exists>f. parse_field (join [ch (CHR '','')] (map print_item [Star (Some 15), Span 1 5 None])) MINUTE = Inr f \<and>
       cf_matches f 45 \<and> \<not> cf_matches f 46 \<and> is_restricted f"
proof -
  have 1: "[Star (Some 15), Span 1 5 None] \<noteq> []" by simp
  have 2: "\<forall>i \<in> set [Star (Some 15), Span 1 5 None]. wf_item MINUTE i"
    by (simp add: wf_item_def the_step_def MINUTE_def)
  have 3: "spec_max MINUTE < 64" by (simp add: MINUTE_def)
  show ?thesis using parse_field_print [OF 1 2 3]
    by (auto simp: item_means_def item_narrows_def the_step_def MINUTE_def)
qed

text \<open>
  Whatever text is parsed against one of the five domains, an accepted field is well formed
  (it matches at least one value and no value outside its domain), so the final check of the
  source for an empty mask never fires on an accepted item list.
\<close>

theorem parse_field_sound:
  assumes "spec \<in> {MINUTE, HOUR, DAY_OF_MONTH, MONTH, DAY_OF_WEEK}" "parse_field token spec = Inr f"
  shows "wf_field spec f"
proof -
  have "spec_min spec \<le> spec_max spec" "spec_max spec < 64"
    using assms(1) by (auto simp: field_spec_defs)
  then show ?thesis using parse_field_wf assms(2) by blast
qed

theorem parse_field_sound_witness:
  "\<exists>f. parse_field (lit ''9'') HOUR = Inr f \<and> wf_field HOUR f"
proof -
  have "parse_field (lit ''9'') HOUR = Inr \<lparr>mask = 2 ^ 9, restricted = True\<rparr>"
    by (simp add: parse_field_def str_simps split_def split_step_def split_once_def parse_range_def
        parse_bounded_def parse_u32_def parse_uint_def all_digits_def is_ascii_digit_def dec_value_def
        HOUR_def set_range.simps)
  then show ?thesis using parse_field_sound [of HOUR "lit ''9''"] by auto
qed

end
