(* ===== verification/Cron.thy ===== *)
theory Cron
  imports CronField
begin

text \<open>
  The five-field cron expression in UTC (\<open>backend/src/schedule/cron.rs\<close>).

  An instant (\<open>DateTime<Utc>\<close>) is its distance from the Unix epoch in nanoseconds; a date
  (\<open>NaiveDate\<close>) is its day number. Which month, day of month and day of week a day number has is
  the calendar library's business: the operations take a \<open>calendar\<close> with these three projections
  and the bounds of its date range as a parameter. The searches are correct for every such
  parameter; only the theorem on the search horizon, in theory \<open>Gregorian\<close>, needs its laws.
\<close>

section \<open>Instants and dates\<close>

type_synonym instant = int
type_synonym date = int

definition NANOS_PER_SEC :: int where
  "NANOS_PER_SEC = 1000000000"

definition NANOS_PER_DAY :: int where
  "NANOS_PER_DAY = 86400 * NANOS_PER_SEC"

lemma nanos_pos [simp]: "0 < NANOS_PER_SEC" "0 < NANOS_PER_DAY"
  by (simp_all add: NANOS_PER_SEC_def NANOS_PER_DAY_def)

record calendar =
  cal_month :: "date \<Rightarrow> nat"
  cal_day :: "date \<Rightarrow> nat"
  cal_weekday :: "date \<Rightarrow> nat"
  cal_min :: date
  cal_max :: date

definition date_naive :: "instant \<Rightarrow> date" where
  "date_naive t = t div NANOS_PER_DAY"

definition checked_add_days :: "calendar \<Rightarrow> date \<Rightarrow> nat \<Rightarrow> date option" where
  "checked_add_days cal d n = (if d + int n \<le> cal_max cal then Some (d + int n) else None)"

definition checked_sub_days :: "calendar \<Rightarrow> date \<Rightarrow> nat \<Rightarrow> date option" where
  "checked_sub_days cal d n = (if cal_min cal \<le> d - int n then Some (d - int n) else None)"

definition at_hm :: "date \<Rightarrow> nat \<Rightarrow> nat \<Rightarrow> instant" where
  "at_hm d h m = d * NANOS_PER_DAY + (int h * 3600 + int m * 60) * NANOS_PER_SEC"

definition and_hms_opt :: "date \<Rightarrow> nat \<Rightarrow> nat \<Rightarrow> instant option" where
  "and_hms_opt d h m = (if h < 24 \<and> m < 60 then Some (at_hm d h m) else None)"

definition num_seconds :: "int \<Rightarrow> int" where
  "num_seconds dur = sgn dur * (\<bar>dur\<bar> div NANOS_PER_SEC)"

section \<open>The expression\<close>

record cron_expr =
  ce_minute :: cron_field
  ce_hour :: cron_field
  ce_day_of_month :: cron_field
  ce_month :: cron_field
  ce_day_of_week :: cron_field
  ce_expression :: str

definition MAX_SEARCH_DAYS :: nat where
  "MAX_SEARCH_DAYS = 366 * 8 + 1"

definition parse_cron :: "str \<Rightarrow> cron_error + cron_expr" where
  "parse_cron expression =
     (let fields = split_whitespace expression
      in if length fields \<noteq> 5 then Inl (NotFiveFields expression (length fields))
         else
           and_then (parse_field (fields ! 0) MINUTE) (\<lambda>minute.
           and_then (parse_field (fields ! 1) HOUR) (\<lambda>hour.
           and_then (parse_field (fields ! 2) DAY_OF_MONTH) (\<lambda>dom.
           and_then (parse_field (fields ! 3) MONTH) (\<lambda>month.
           and_then (parse_field (fields ! 4) DAY_OF_WEEK) (\<lambda>dow.
             Inr \<lparr>ce_minute = minute, ce_hour = hour, ce_day_of_month = dom, ce_month = month,
                  ce_day_of_week = dow, ce_expression = join (lit '' '') fields\<rparr>))))))"

definition day_matches :: "calendar \<Rightarrow> cron_expr \<Rightarrow> date \<Rightarrow> bool" where
  "day_matches cal e d =
     (if \<not> cf_matches (ce_month e) (cal_month cal d) then False
      else
        let dom = cf_matches (ce_day_of_month e) (cal_day cal d);
            dow = cf_matches (ce_day_of_week e) (cal_weekday cal d)
        in case (is_restricted (ce_day_of_month e), is_restricted (ce_day_of_week e)) of
             (True, True) \<Rightarrow> dom \<or> dow
           | (True, False) \<Rightarrow> dom
           | (False, True) \<Rightarrow> dow
           | (False, False) \<Rightarrow> True)"

text \<open>The candidate instants of one day, in the order of the two nested loops.\<close>

definition candidates :: "cron_expr \<Rightarrow> date \<Rightarrow> instant list" where
  "candidates e d =
     concat (map (\<lambda>hour. filter_map (\<lambda>minute. and_hms_opt d hour minute) (cf_values (ce_minute e)))
       (cf_values (ce_hour e)))"

fun scan_forward :: "calendar \<Rightarrow> cron_expr \<Rightarrow> instant \<Rightarrow> date \<Rightarrow> nat \<Rightarrow> nat \<Rightarrow> instant option" where
  "scan_forward cal e after start offset 0 = None"
| "scan_forward cal e after start offset (Suc left) =
     (case checked_add_days cal start offset of
        None \<Rightarrow> None
      | Some d \<Rightarrow>
          (if \<not> day_matches cal e d then scan_forward cal e after start (Suc offset) left
           else case find (\<lambda>candidate. candidate > after) (candidates e d) of
             Some candidate \<Rightarrow> Some candidate
           | None \<Rightarrow> scan_forward cal e after start (Suc offset) left))"

definition next_after :: "calendar \<Rightarrow> cron_expr \<Rightarrow> instant \<Rightarrow> cron_error + instant" where
  "next_after cal e after =
     ok_or (NeverFires (ce_expression e))
       (scan_forward cal e after (date_naive after) 0 MAX_SEARCH_DAYS)"

fun scan_backward :: "calendar \<Rightarrow> cron_expr \<Rightarrow> instant \<Rightarrow> date \<Rightarrow> nat \<Rightarrow> nat \<Rightarrow> instant option" where
  "scan_backward cal e at start offset 0 = None"
| "scan_backward cal e at start offset (Suc left) =
     (case checked_sub_days cal start offset of
        None \<Rightarrow> None
      | Some d \<Rightarrow>
          (if \<not> day_matches cal e d then scan_backward cal e at start (Suc offset) left
           else case find (\<lambda>candidate. candidate \<le> at) (rev (candidates e d)) of
             Some candidate \<Rightarrow> Some candidate
           | None \<Rightarrow> scan_backward cal e at start (Suc offset) left))"

definition previous_or_equal :: "calendar \<Rightarrow> cron_expr \<Rightarrow> instant \<Rightarrow> instant option" where
  "previous_or_equal cal e at = scan_backward cal e at (date_naive at) 0 MAX_SEARCH_DAYS"

definition SAMPLE :: nat where
  "SAMPLE = 32"

text \<open>Midnight of 2001-01-01, day number 11323.\<close>

definition reference_instant :: instant where
  "reference_instant = at_hm 11323 0 0"

fun sample_gaps :: "calendar \<Rightarrow> cron_expr \<Rightarrow> nat \<Rightarrow> instant \<Rightarrow> nat option \<Rightarrow> nat option" where
  "sample_gaps cal e 0 cursor smallest = smallest"
| "sample_gaps cal e (Suc n) cursor smallest =
     (case next_after cal e cursor of
        Inl _ \<Rightarrow> smallest
      | Inr nxt \<Rightarrow>
          (let gap = nat (max 0 (num_seconds (nxt - cursor)))
           in sample_gaps cal e n nxt
                (Some (case smallest of None \<Rightarrow> gap | Some current \<Rightarrow> min current gap))))"

definition min_interval_secs :: "calendar \<Rightarrow> cron_expr \<Rightarrow> nat option" where
  "min_interval_secs cal e =
     (case next_after cal e reference_instant of
        Inl _ \<Rightarrow> None
      | Inr cursor \<Rightarrow> sample_gaps cal e SAMPLE cursor None)"

section \<open>The human rendering\<close>

fun windows2 :: "'a list \<Rightarrow> ('a \<times> 'a) list" where
  "windows2 (x # y # xs) = (x, y) # windows2 (y # xs)"
| "windows2 _ = []"

definition even_step :: "nat list \<Rightarrow> nat option" where
  "even_step values =
     (case values of
        first # second # _ \<Rightarrow>
          (let step = second - first
           in if first = 0 \<and> step > 1 \<and> list_all (\<lambda>(a, b). b - a = step) (windows2 values)
              then Some step else None)
      | _ \<Rightarrow> None)"

definition weekday_name :: "nat \<Rightarrow> str" where
  "weekday_name day =
     (if day = 0 then lit ''Sunday'' else if day = 1 then lit ''Monday''
      else if day = 2 then lit ''Tuesday'' else if day = 3 then lit ''Wednesday''
      else if day = 4 then lit ''Thursday'' else if day = 5 then lit ''Friday''
      else lit ''Saturday'')"

definition single_value :: "cron_field \<Rightarrow> nat option" where
  "single_value f = (case cf_values f of [v] \<Rightarrow> Some v | _ \<Rightarrow> None)"

definition pad2 :: "nat \<Rightarrow> str" where
  "pad2 n = (if n < 10 then ch (CHR ''0'') # show_nat n else show_nat n)"

definition describe_expression :: "cron_expr \<Rightarrow> str" where
  "describe_expression e = lit ''cron `'' @ ce_expression e @ lit ''` (UTC)''"

definition describe_sub_hourly :: "cron_expr \<Rightarrow> bool \<Rightarrow> str option" where
  "describe_sub_hourly e every_day =
     (if every_day \<and> single_value (ce_hour e) = None \<and> \<not> is_restricted (ce_hour e)
      then let minutes = cf_values (ce_minute e)
           in case even_step minutes of
                Some step \<Rightarrow> Some (lit ''every '' @ show_nat step @ lit '' minutes'')
              | None \<Rightarrow> if length minutes = 60 then Some (lit ''every minute'') else None
      else None)"

definition describe :: "cron_expr \<Rightarrow> str" where
  "describe e =
     (let every_day = (\<not> is_restricted (ce_day_of_month e) \<and> \<not> is_restricted (ce_day_of_week e)
            \<and> \<not> is_restricted (ce_month e))
      in case describe_sub_hourly e every_day of
           Some s \<Rightarrow> s
         | None \<Rightarrow>
             (case (single_value (ce_minute e), single_value (ce_hour e)) of
                (Some minute, Some hour) \<Rightarrow>
                  (let tm = pad2 hour @ lit '':'' @ pad2 minute @ lit '' UTC'';
                       days = cf_values (ce_day_of_week e)
                   in if every_day then lit ''daily at '' @ tm
                      else if \<not> is_restricted (ce_day_of_month e) \<and> \<not> is_restricted (ce_month e)
                      then (if days = [1, 2, 3, 4, 5] then lit ''weekdays at '' @ tm
                            else if days = [0, 6] then lit ''weekends at '' @ tm
                            else case days of
                              [day] \<Rightarrow> lit ''every '' @ weekday_name day @ lit '' at '' @ tm
                            | _ \<Rightarrow> describe_expression e)
                      else describe_expression e)
              | _ \<Rightarrow> describe_expression e))"

section \<open>Well-formed expressions and firing instants\<close>

definition wf_expr :: "cron_expr \<Rightarrow> bool" where
  "wf_expr e \<longleftrightarrow>
     wf_field MINUTE (ce_minute e) \<and> wf_field HOUR (ce_hour e) \<and>
     wf_field DAY_OF_MONTH (ce_day_of_month e) \<and> wf_field MONTH (ce_month e) \<and>
     wf_field DAY_OF_WEEK (ce_day_of_week e)"

text \<open>The instants an expression denotes, without any search.\<close>

definition fires :: "calendar \<Rightarrow> cron_expr \<Rightarrow> instant \<Rightarrow> bool" where
  "fires cal e t \<longleftrightarrow>
     (\<exists>d h m. t = at_hm d h m \<and> cal_min cal \<le> d \<and> d \<le> cal_max cal \<and> day_matches cal e d \<and>
        h < 24 \<and> m < 60 \<and> cf_matches (ce_hour e) h \<and> cf_matches (ce_minute e) m)"

lemma parse_cron_wf: "parse_cron s = Inr e \<Longrightarrow> wf_expr e"
proof -
  assume "parse_cron s = Inr e"
  then have
    "parse_field (split_whitespace s ! 0) MINUTE = Inr (ce_minute e)"
    "parse_field (split_whitespace s ! 1) HOUR = Inr (ce_hour e)"
    "parse_field (split_whitespace s ! 2) DAY_OF_MONTH = Inr (ce_day_of_month e)"
    "parse_field (split_whitespace s ! 3) MONTH = Inr (ce_month e)"
    "parse_field (split_whitespace s ! 4) DAY_OF_WEEK = Inr (ce_day_of_week e)"
    by (auto simp: parse_cron_def Let_def res_simps split: if_splits)
  then show ?thesis
    unfolding wf_expr_def by (intro conjI; elim parse_field_wf) (simp_all add: field_spec_defs)
qed

lemma date_naive_at_hm: "h < 24 \<Longrightarrow> m < 60 \<Longrightarrow> date_naive (at_hm d h m) = d"
proof -
  assume hm: "h < 24" "m < 60"
  let ?r = "(int h * 3600 + int m * 60) * NANOS_PER_SEC"
  have "0 \<le> ?r" "?r < NANOS_PER_DAY" using hm by (auto simp: NANOS_PER_DAY_def NANOS_PER_SEC_def)
  then show ?thesis by (simp add: date_naive_def at_hm_def)
qed

lemma date_naive_mono: "s \<le> t \<Longrightarrow> date_naive s \<le> date_naive t"
  by (simp add: date_naive_def zdiv_mono1)

lemma and_hms_opt_Some: "and_hms_opt d h m = Some t \<longleftrightarrow> h < 24 \<and> m < 60 \<and> t = at_hm d h m"
  by (auto simp: and_hms_opt_def)

lemma set_candidates:
  "set (candidates e d) =
     {at_hm d h m | h m. h < 24 \<and> m < 60 \<and> cf_matches (ce_hour e) h \<and> cf_matches (ce_minute e) m}"
  by (auto simp: candidates_def set_filter_map and_hms_opt_def split: if_splits)

lemma fires_iff_candidates:
  "fires cal e t \<longleftrightarrow>
     (\<exists>d. cal_min cal \<le> d \<and> d \<le> cal_max cal \<and> day_matches cal e d \<and> t \<in> set (candidates e d))"
  by (auto simp: fires_def set_candidates)

lemma candidate_date: "c \<in> set (candidates e d) \<Longrightarrow> date_naive c = d"
  by (auto simp: set_candidates date_naive_at_hm)

lemma fires_on_its_date:
  "fires cal e t \<Longrightarrow> cal_min cal \<le> date_naive t \<and> date_naive t \<le> cal_max cal \<and>
     day_matches cal e (date_naive t) \<and> t \<in> set (candidates e (date_naive t))"
  by (auto simp: fires_iff_candidates candidate_date)

lemma sorted_filter_map_hms:
  "sorted_wrt (<) ms \<Longrightarrow> sorted_wrt (<) (filter_map (and_hms_opt d h) ms)"
proof (induction ms)
  case (Cons m ms)
  have "\<And>y. y \<in> set (filter_map (and_hms_opt d h) ms) \<Longrightarrow> at_hm d h m < y"
    using Cons.prems by (auto simp: set_filter_map and_hms_opt_Some at_hm_def NANOS_PER_SEC_def)
  with Cons show ?case by (auto simp: and_hms_opt_Some split: option.splits)
qed simp

lemma sorted_candidates_aux:
  "sorted_wrt (<) hs \<Longrightarrow> sorted_wrt (<) ms \<Longrightarrow>
   sorted_wrt (<) (concat (map (\<lambda>h. filter_map (and_hms_opt d h) ms) hs))"
proof (induction hs)
  case (Cons h hs)
  have "x < y" if x: "x \<in> set (filter_map (and_hms_opt d h) ms)"
    and y: "y \<in> set (filter_map (and_hms_opt d h') ms)" and h': "h' \<in> set hs" for x y h'
  proof -
    obtain m where "m < 60" "x = at_hm d h m"
      using x unfolding set_filter_map and_hms_opt_Some by blast
    moreover obtain m' where "y = at_hm d h' m'"
      using y unfolding set_filter_map and_hms_opt_Some by blast
    moreover have "h < h'" using Cons.prems(1) h' by auto
    ultimately show ?thesis by (simp add: at_hm_def NANOS_PER_SEC_def)
  qed
  with Cons show ?case by (auto simp: sorted_wrt_append sorted_filter_map_hms)
qed simp

lemma sorted_candidates: "sorted_wrt (<) (candidates e d)"
  unfolding candidates_def by (intro sorted_candidates_aux sorted_cf_values)

lemma find_sorted_least:
  "sorted_wrt (<) xs \<Longrightarrow> find P xs = Some x \<Longrightarrow>
   x \<in> set xs \<and> P x \<and> (\<forall>y \<in> set xs. P y \<longrightarrow> x \<le> (y :: 'a::linorder))"
  by (induction xs) (auto split: if_splits simp: less_imp_le)

lemma find_rev_sorted_greatest:
  "sorted_wrt (<) xs \<Longrightarrow> find P (rev xs) = Some x \<Longrightarrow>
   x \<in> set xs \<and> P x \<and> (\<forall>y \<in> set xs. P y \<longrightarrow> (y :: 'a::linorder) \<le> x)"
proof (induction xs rule: rev_induct)
  case (snoc a xs)
  then show ?case by (auto simp: sorted_wrt_append split: if_splits intro: less_imp_le)
qed simp

lemma find_None: "find P xs = None \<longleftrightarrow> (\<forall>x \<in> set xs. \<not> P x)"
  by (auto simp: find_None_iff)

section \<open>The forward search\<close>

lemma scan_forward_Some:
  "scan_forward cal e after start offset left = Some s \<Longrightarrow> cal_min cal \<le> start \<Longrightarrow>
   fires cal e s \<and> after < s \<and> start + int offset \<le> date_naive s \<and>
   (\<forall>u. fires cal e u \<longrightarrow> after < u \<longrightarrow> start + int offset \<le> date_naive u \<longrightarrow> s \<le> u)"
proof (induction left arbitrary: offset)
  case 0
  then show ?case by simp
next
  case (Suc left)
  let ?d = "start + int offset"
  have range: "?d \<le> cal_max cal"
    using Suc.prems(1) by (auto simp: checked_add_days_def split: if_splits)
  show ?case
  proof (cases "day_matches cal e ?d \<and> (\<exists>c \<in> set (candidates e ?d). after < c)")
    case False
    then have rec: "scan_forward cal e after start (Suc offset) left = Some s"
      using Suc.prems(1) range
      by (auto simp: checked_add_days_def split: if_splits option.splits
          dest!: find_sorted_least [OF sorted_candidates])
    have later: "start + int (Suc offset) \<le> date_naive u"
      if "fires cal e u" "after < u" "?d \<le> date_naive u" for u
      using that False fires_on_its_date [OF that(1)]
      by (cases "date_naive u = ?d") auto
    show ?thesis using Suc.IH [OF rec Suc.prems(2)] later by force
  next
    case True
    then have f: "find (\<lambda>c. after < c) (candidates e ?d) = Some s"
      using Suc.prems(1) range
      by (auto simp: checked_add_days_def find_None split: option.splits)
    note least = find_sorted_least [OF sorted_candidates f]
    have "s \<le> u" if u: "fires cal e u" "after < u" "?d \<le> date_naive u" for u
    proof (cases "date_naive u = ?d")
      case True
      with u least fires_on_its_date [OF u(1)] show ?thesis by auto
    next
      case False
      then have "date_naive s < date_naive u" using u least candidate_date by fastforce
      then show ?thesis using date_naive_mono [of u s] by linarith
    qed
    moreover have "fires cal e s"
      unfolding fires_iff_candidates using least True range Suc.prems(2)
      by (intro exI [of _ ?d]) auto
    ultimately show ?thesis using least candidate_date by fastforce
  qed
qed

lemma scan_forward_None:
  assumes "scan_forward cal e after start offset left = None" "fires cal e u" "after < u"
    "start + int offset \<le> date_naive u"
  shows "start + int offset + int left \<le> date_naive u"
  using assms(1,4)
proof (induction left arbitrary: offset)
  case 0
  then show ?case by simp
next
  case (Suc left)
  let ?d = "start + int offset"
  note u = fires_on_its_date [OF assms(2)]
  have range: "?d \<le> cal_max cal" using Suc.prems(2) u by linarith
  have rec: "scan_forward cal e after start (Suc offset) left = None"
    using Suc.prems(1) range by (auto simp: checked_add_days_def split: if_splits option.splits)
  have "date_naive u \<noteq> ?d"
  proof
    assume "date_naive u = ?d"
    with u have "day_matches cal e ?d" "u \<in> set (candidates e ?d)" by auto
    then show False using Suc.prems(1) range assms(3)
      by (auto simp: checked_add_days_def find_None split: option.splits)
  qed
  with Suc.prems(2) have "start + int (Suc offset) \<le> date_naive u" by simp
  from Suc.IH [OF rec this] show ?case by simp
qed

section \<open>The backward search\<close>

lemma scan_backward_Some:
  "scan_backward cal e at start offset left = Some s \<Longrightarrow> start \<le> cal_max cal \<Longrightarrow>
   fires cal e s \<and> s \<le> at \<and> date_naive s \<le> start - int offset \<and>
   (\<forall>u. fires cal e u \<longrightarrow> u \<le> at \<longrightarrow> date_naive u \<le> start - int offset \<longrightarrow> u \<le> s)"
proof (induction left arbitrary: offset)
  case 0
  then show ?case by simp
next
  case (Suc left)
  let ?d = "start - int offset"
  have range: "cal_min cal \<le> ?d"
    using Suc.prems(1) by (auto simp: checked_sub_days_def split: if_splits)
  show ?case
  proof (cases "day_matches cal e ?d \<and> (\<exists>c \<in> set (candidates e ?d). c \<le> at)")
    case False
    then have rec: "scan_backward cal e at start (Suc offset) left = Some s"
      using Suc.prems(1) range
      by (auto simp: checked_sub_days_def split: if_splits option.splits
          dest!: find_rev_sorted_greatest [OF sorted_candidates])
    have earlier: "date_naive u \<le> start - int (Suc offset)"
      if "fires cal e u" "u \<le> at" "date_naive u \<le> ?d" for u
      using that False fires_on_its_date [OF that(1)]
      by (cases "date_naive u = ?d") auto
    show ?thesis using Suc.IH [OF rec Suc.prems(2)] earlier by force
  next
    case True
    then have f: "find (\<lambda>c. c \<le> at) (rev (candidates e ?d)) = Some s"
      using Suc.prems(1) range
      by (auto simp: checked_sub_days_def find_None split: option.splits)
    note greatest = find_rev_sorted_greatest [OF sorted_candidates f]
    have "u \<le> s" if u: "fires cal e u" "u \<le> at" "date_naive u \<le> ?d" for u
    proof (cases "date_naive u = ?d")
      case True
      with u greatest fires_on_its_date [OF u(1)] show ?thesis by auto
    next
      case False
      then have "date_naive u < date_naive s" using u greatest candidate_date by fastforce
      then show ?thesis using date_naive_mono [of s u] by linarith
    qed
    moreover have "fires cal e s"
      unfolding fires_iff_candidates using greatest True range Suc.prems(2)
      by (intro exI [of _ ?d]) auto
    ultimately show ?thesis using greatest candidate_date by fastforce
  qed
qed

lemma scan_backward_None:
  assumes "scan_backward cal e at start offset left = None" "fires cal e u" "u \<le> at"
    "date_naive u \<le> start - int offset"
  shows "date_naive u \<le> start - int offset - int left"
  using assms(1,4)
proof (induction left arbitrary: offset)
  case 0
  then show ?case by simp
next
  case (Suc left)
  let ?d = "start - int offset"
  note u = fires_on_its_date [OF assms(2)]
  have range: "cal_min cal \<le> ?d" using Suc.prems(2) u by linarith
  have rec: "scan_backward cal e at start (Suc offset) left = None"
    using Suc.prems(1) range by (auto simp: checked_sub_days_def split: if_splits option.splits)
  have "date_naive u \<noteq> ?d"
  proof
    assume "date_naive u = ?d"
    with u have "day_matches cal e ?d" "u \<in> set (candidates e ?d)" by auto
    then show False using Suc.prems(1) range assms(3)
      by (auto simp: checked_sub_days_def find_None split: option.splits)
  qed
  with Suc.prems(2) have "date_naive u \<le> start - int (Suc offset)" by simp
  from Suc.IH [OF rec this] show ?case by simp
qed

section \<open>The contract of a recurrence\<close>

text \<open>
  What the schedule clock relies on: \<open>next_occ\<close> finds the least occurrence after an instant,
  \<open>prev_occ\<close> the greatest one at or before it. The clock's own lemmas about recurrences are
  proved here once, from the contract.
\<close>

locale recurrence =
  fixes in_range :: "instant \<Rightarrow> bool"
    and occurs :: "'e \<Rightarrow> instant \<Rightarrow> bool"
    and next_occ :: "'e \<Rightarrow> instant \<Rightarrow> 'err + instant"
    and prev_occ :: "'e \<Rightarrow> instant \<Rightarrow> instant option"
  assumes next_sound: "in_range t \<Longrightarrow> next_occ e t = Inr s \<Longrightarrow> occurs e s \<and> t < s"
    and next_least: "in_range t \<Longrightarrow> next_occ e t = Inr s \<Longrightarrow> occurs e u \<Longrightarrow> t < u \<Longrightarrow> s \<le> u"
    and prev_sound: "in_range t \<Longrightarrow> prev_occ e t = Some s \<Longrightarrow> occurs e s \<and> s \<le> t"
    and prev_greatest: "in_range t \<Longrightarrow> prev_occ e t = Some s \<Longrightarrow> occurs e u \<Longrightarrow> u \<le> t \<Longrightarrow> u \<le> s"
    and prev_at: "in_range t \<Longrightarrow> occurs e t \<Longrightarrow> prev_occ e t = Some t"
    and occurs_range: "occurs e t \<Longrightarrow> in_range t"
begin

lemma prev_mono:
  "in_range t \<Longrightarrow> in_range t' \<Longrightarrow> t \<le> t' \<Longrightarrow> prev_occ e t = Some s \<Longrightarrow> prev_occ e t' = Some s' \<Longrightarrow> s \<le> s'"
  using prev_greatest [of t' e s' s] prev_sound [of t e s] by simp

text \<open>Nothing occurs between the latest occurrence and the moment it was looked up.\<close>

lemma next_of_prev:
  "in_range t \<Longrightarrow> prev_occ e t = Some s \<Longrightarrow> next_occ e s = Inr n \<Longrightarrow> t < n"
  by (metis linorder_not_less next_sound occurs_range order_less_imp_le order_less_irrefl
      order_less_le_trans prev_greatest prev_sound)

lemma next_prev_le:
  "in_range t \<Longrightarrow> in_range c \<Longrightarrow> prev_occ e t = Some s \<Longrightarrow> c < s \<Longrightarrow> next_occ e c = Inr n \<Longrightarrow> n \<le> s"
  using next_least prev_sound by blast

end

definition representable :: "calendar \<Rightarrow> instant \<Rightarrow> bool" where
  "representable cal t \<longleftrightarrow> cal_min cal \<le> date_naive t \<and> date_naive t \<le> cal_max cal"

lemma next_after_Inr:
  "next_after cal e t = Inr s \<Longrightarrow> scan_forward cal e t (date_naive t) 0 MAX_SEARCH_DAYS = Some s"
  by (simp add: next_after_def res_simps)

interpretation cron: recurrence "representable cal" "fires cal" "next_after cal" "previous_or_equal cal"
  for cal
proof
  fix t e s u
  assume t: "representable cal t"
  show "next_after cal e t = Inr s \<Longrightarrow> fires cal e s \<and> t < s"
    using t scan_forward_Some by (fastforce simp: representable_def dest: next_after_Inr)
  show "next_after cal e t = Inr s \<Longrightarrow> fires cal e u \<Longrightarrow> t < u \<Longrightarrow> s \<le> u"
    using t scan_forward_Some [of cal e t "date_naive t" 0 MAX_SEARCH_DAYS s] date_naive_mono [of t u]
    by (auto simp: representable_def dest!: next_after_Inr)
  show "previous_or_equal cal e t = Some s \<Longrightarrow> fires cal e s \<and> s \<le> t"
    using t scan_backward_Some by (fastforce simp: representable_def previous_or_equal_def)
  show "previous_or_equal cal e t = Some s \<Longrightarrow> fires cal e u \<Longrightarrow> u \<le> t \<Longrightarrow> u \<le> s"
    using t scan_backward_Some [of cal e t "date_naive t" 0 MAX_SEARCH_DAYS s] date_naive_mono [of u t]
    by (auto simp: representable_def previous_or_equal_def)
  show "fires cal e t \<Longrightarrow> previous_or_equal cal e t = Some t"
  proof -
    assume f: "fires cal e t"
    show ?thesis
    proof (cases "previous_or_equal cal e t")
      case None
      then show ?thesis using scan_backward_None [of cal e t "date_naive t" 0 MAX_SEARCH_DAYS t] f
        by (simp add: previous_or_equal_def MAX_SEARCH_DAYS_def)
    next
      case (Some s)
      then show ?thesis
        using t f scan_backward_Some [of cal e t "date_naive t" 0 MAX_SEARCH_DAYS s]
        by (force simp: representable_def previous_or_equal_def)
    qed
  qed
next
  fix e t
  show "fires cal e t \<Longrightarrow> representable cal t"
    using fires_on_its_date by (simp add: representable_def)
qed

lemma next_after_Inl:
  assumes "next_after cal e t = Inl err" "fires cal e u" "t < u"
  shows "date_naive t + int MAX_SEARCH_DAYS \<le> date_naive u"
  using assms scan_forward_None [of cal e t "date_naive t" 0 MAX_SEARCH_DAYS u]
    date_naive_mono [of t u]
  by (auto simp: next_after_def res_simps ok_or_def split: option.splits)

lemma previous_or_equal_None:
  assumes "previous_or_equal cal e t = None" "fires cal e u" "u \<le> t"
  shows "date_naive u \<le> date_naive t - int MAX_SEARCH_DAYS"
  using assms scan_backward_None [of cal e t "date_naive t" 0 MAX_SEARCH_DAYS u]
    date_naive_mono [of u t]
  by (auto simp: previous_or_equal_def)

end
