(* ===== verification/Gregorian.thy ===== *)
theory Gregorian
  imports Cron
begin

text \<open>
  The laws of the calendar the clock runs on, as an interface: the dates of the range follow each
  other as in the proleptic Gregorian calendar, and weekdays in a cycle of seven. From them, that
  the search horizon of \<open>CronExpr::next_after\<close> is long enough, and an instance of the interface
  that counts forward from 1970-01-01.
\<close>

section \<open>Civil dates\<close>

type_synonym civil = "int \<times> nat \<times> nat"

definition leap :: "int \<Rightarrow> bool" where
  "leap y \<longleftrightarrow> y mod 4 = 0 \<and> (y mod 100 \<noteq> 0 \<or> y mod 400 = 0)"

definition days_in_month :: "int \<Rightarrow> nat \<Rightarrow> nat" where
  "days_in_month y m =
     (if m = 2 then (if leap y then 29 else 28) else if m \<in> {4, 6, 9, 11} then 30 else 31)"

fun valid_civil :: "civil \<Rightarrow> bool" where
  "valid_civil (y, m, d) \<longleftrightarrow> 1 \<le> m \<and> m \<le> 12 \<and> 1 \<le> d \<and> d \<le> days_in_month y m"

fun next_civil :: "civil \<Rightarrow> civil" where
  "next_civil (y, m, d) =
     (if d < days_in_month y m then (y, m, d + 1)
      else if m < 12 then (y, m + 1, 1) else (y + 1, 1, 1))"

text \<open>A day count: days before the year, days before the month, day of the month.\<close>

definition before_year :: "int \<Rightarrow> int" where
  "before_year y = 365 * y + (y - 1) div 4 - (y - 1) div 100 + (y - 1) div 400"

definition before_month :: "int \<Rightarrow> nat \<Rightarrow> nat" where
  "before_month y m =
     (if m \<le> 1 then 0 else [0, 31, 59, 90, 120, 151, 181, 212, 243, 273, 304, 334] ! (m - 1)
        + (if 2 < m \<and> leap y then 1 else 0))"

fun day_count :: "civil \<Rightarrow> int" where
  "day_count (y, m, d) = before_year y + int (before_month y m) + int d"

lemma leap_day_count:
  fixes p q r y :: int
  shows "(c \<longrightarrow> b) \<Longrightarrow> (b \<longrightarrow> a) \<Longrightarrow>
    365 * (y + 1) + (p + of_bool a) - (q + of_bool b) + (r + of_bool c) =
    365 * y + p - q + r + 365 + (if a \<and> (\<not> b \<or> c) then 1 else 0)"
  by (cases a; cases b; cases c) simp_all

lemma before_year_Suc: "before_year (y + 1) = before_year y + 365 + (if leap y then 1 else 0)"
proof -
  have d: "y div n = (y - 1) div n + (if y mod n = 0 then 1 else 0)" if "0 < n" for n :: int
  proof -
    have "y = n * (y div n) + y mod n" by simp
    then have "y - 1 = n * (y div n) + (y mod n - 1)" by linarith
    then have "(y - 1) div n = y div n + (y mod n - 1) div n"
      using that by (metis div_mult_self2 add.commute less_irrefl)
    moreover have "(y mod n - 1) div n = (if y mod n = 0 then - 1 else 0)"
    proof (cases "y mod n = 0")
      case True
      have "(- 1) div n = - 1" using that by (simp add: div_eq_minus1)
      with True show ?thesis by simp
    next
      case False
      then have "0 \<le> y mod n - 1" "y mod n - 1 < n"
        using that pos_mod_bound [OF that, of y] pos_mod_sign [OF that, of y] by linarith+
      with False show ?thesis by simp
    qed
    ultimately show ?thesis by simp
  qed
  define p q r where pqr: "p = (y - 1) div 4" "q = (y - 1) div 100" "r = (y - 1) div 400"
  define a b c where abc: "a \<longleftrightarrow> y mod 4 = 0" "b \<longleftrightarrow> y mod 100 = 0" "c \<longleftrightarrow> y mod 400 = 0"
  have i: "c \<longrightarrow> b" "b \<longrightarrow> a" unfolding abc by presburger+
  have "y div 4 = p + of_bool a" "y div 100 = q + of_bool b" "y div 400 = r + of_bool c"
    using d [of 4] d [of 100] d [of 400] unfolding pqr abc by (simp_all only: of_bool_def)
  then have "before_year (y + 1) = 365 * (y + 1) + (p + of_bool a) - (q + of_bool b) + (r + of_bool c)"
    unfolding before_year_def by (simp only: add_diff_cancel_right')
  also have "\<dots> = 365 * y + p - q + r + 365 + (if a \<and> (\<not> b \<or> c) then 1 else 0)"
    by (rule leap_day_count [OF i])
  also have "365 * y + p - q + r = before_year y" by (simp only: before_year_def pqr)
  also have "(a \<and> (\<not> b \<or> c)) = leap y" by (simp only: leap_def abc)
  finally show ?thesis .
qed

lemma before_month_Suc:
  "1 \<le> m \<Longrightarrow> m < 12 \<Longrightarrow> before_month y (m + 1) = before_month y m + days_in_month y m"
proof -
  assume "1 \<le> m" "m < 12"
  then have "m = 1 \<or> m = 2 \<or> m = 3 \<or> m = 4 \<or> m = 5 \<or> m = 6 \<or> m = 7 \<or> m = 8 \<or> m = 9
    \<or> m = 10 \<or> m = 11" by presburger
  then show ?thesis by (elim disjE) (simp_all add: before_month_def days_in_month_def)
qed

lemma before_month_12: "before_month y 12 + days_in_month y 12 = 365 + (if leap y then 1 else 0)"
  by (simp add: before_month_def days_in_month_def)

lemma day_count_next: "valid_civil c \<Longrightarrow> day_count (next_civil c) = day_count c + 1"
proof -
  assume v: "valid_civil c"
  obtain y m d where c: "c = (y, m, d)" by (cases c) auto
  consider "d < days_in_month y m" | "d = days_in_month y m" "m < 12" | "d = days_in_month y m" "m = 12"
    using v c by fastforce
  then show ?thesis
  proof cases
    case 2
    then show ?thesis using v c before_month_Suc [of m y] by (simp add: before_month_def)
  next
    case 3
    then show ?thesis using c before_month_12 [of y] before_year_Suc [of y]
      by (simp add: before_month_def)
  qed (simp add: c)
qed

lemma valid_next: "valid_civil c \<Longrightarrow> valid_civil (next_civil c)"
  by (cases c) (auto simp: days_in_month_def)

lemma before_month_mono: "1 \<le> m \<Longrightarrow> m < n \<Longrightarrow> n \<le> 12 \<Longrightarrow> before_month y m + days_in_month y m \<le> before_month y n"
proof (induction n)
  case (Suc n)
  then show ?case using before_month_Suc [of m y] before_month_Suc [of n y]
    by (cases "m = n") auto
qed simp

lemma in_year: "valid_civil (y, m, d) \<Longrightarrow>
  before_year y < day_count (y, m, d) \<and> day_count (y, m, d) \<le> before_year (y + 1)"
  using before_month_mono [of m 12 y] before_month_12 [of y] before_year_Suc [of y]
  by (cases "m = 12") auto

lemma before_year_mono: "y \<le> z \<Longrightarrow> before_year y \<le> before_year z"
proof (induction z rule: int_ge_induct)
  case (step z)
  then show ?case using before_year_Suc [of z] by auto
qed simp

lemma day_count_inj:
  assumes "valid_civil c" "valid_civil c'" "day_count c = day_count c'"
  shows "c = c'"
proof -
  obtain y m d y' m' d' where c: "c = (y, m, d)" "c' = (y', m', d')" by (cases c; cases c') auto
  have "\<not> y < y'" "\<not> y' < y"
    using in_year [of y m d] in_year [of y' m' d'] assms c
      before_year_mono [of "y + 1" y'] before_year_mono [of "y' + 1" y] by auto
  then have y: "y = y'" by simp
  have "\<not> m < m'" "\<not> m' < m"
    using assms c y before_month_mono [of m m' y] before_month_mono [of m' m y] by auto
  then show ?thesis using assms c y by simp
qed

lemma before_year_le: "before_year (y + int k) \<le> before_year y + 366 * int k"
proof (induction k)
  case (Suc k)
  have e: "y + int (Suc k) = y + int k + 1" by simp
  show ?case unfolding e before_year_Suc using Suc by (simp split: if_splits)
qed simp

section \<open>The calendar interface\<close>

locale gregorian_calendar =
  fixes cal :: calendar
    and year :: "date \<Rightarrow> int"
  assumes civil_valid: "cal_min cal \<le> d \<Longrightarrow> d \<le> cal_max cal \<Longrightarrow>
      valid_civil (year d, cal_month cal d, cal_day cal d) \<and> cal_weekday cal d < 7"
    and civil_next: "cal_min cal \<le> d \<Longrightarrow> d < cal_max cal \<Longrightarrow>
      (year (d + 1), cal_month cal (d + 1), cal_day cal (d + 1)) =
        next_civil (year d, cal_month cal d, cal_day cal d)"
    and weekday_next: "cal_min cal \<le> d \<Longrightarrow> d < cal_max cal \<Longrightarrow>
      cal_weekday cal (d + 1) = (cal_weekday cal d + 1) mod 7"
begin

definition civil_of :: "date \<Rightarrow> civil" where
  "civil_of d = (year d, cal_month cal d, cal_day cal d)"

lemma civil_of_valid: "cal_min cal \<le> d \<Longrightarrow> d \<le> cal_max cal \<Longrightarrow> valid_civil (civil_of d)"
  using civil_valid by (simp add: civil_of_def)

lemma day_count_add:
  "cal_min cal \<le> d \<Longrightarrow> d + int k \<le> cal_max cal \<Longrightarrow>
   day_count (civil_of (d + int k)) = day_count (civil_of d) + int k"
proof (induction k)
  case (Suc k)
  then have n: "civil_of (d + int k + 1) = next_civil (civil_of (d + int k))"
    using civil_next [of "d + int k"] by (simp add: civil_of_def)
  have e: "d + int (Suc k) = d + int k + 1" by simp
  show ?case unfolding e n using Suc civil_of_valid [of "d + int k"] by (simp add: day_count_next)
qed simp

lemma weekday_add:
  "cal_min cal \<le> d \<Longrightarrow> d + int k \<le> cal_max cal \<Longrightarrow>
   cal_weekday cal (d + int k) = (cal_weekday cal d + k) mod 7"
proof (induction k)
  case 0
  then show ?case using civil_valid [of d] by simp
next
  case (Suc k)
  then have n: "cal_weekday cal (d + int k + 1) = (cal_weekday cal (d + int k) + 1) mod 7"
    using weekday_next [of "d + int k"] by simp
  have e: "d + int (Suc k) = d + int k + 1" by simp
  show ?case unfolding e n using Suc by (simp add: mod_simps)
qed

text \<open>A valid date lies as many days ahead as the day counts say.\<close>

lemma reach_date:
  assumes "cal_min cal \<le> d" "valid_civil c" "day_count (civil_of d) \<le> day_count c"
    "d + (day_count c - day_count (civil_of d)) \<le> cal_max cal"
  shows "civil_of (d + (day_count c - day_count (civil_of d))) = c"
proof -
  let ?k = "nat (day_count c - day_count (civil_of d))"
  have k: "int ?k = day_count c - day_count (civil_of d)" using assms(3) by simp
  have "day_count (civil_of (d + int ?k)) = day_count c"
    using day_count_add [of d ?k] assms(1,4) k by simp
  moreover have "valid_civil (civil_of (d + int ?k))"
    using civil_of_valid [of "d + int ?k"] assms(1,4) k by simp
  ultimately show ?thesis using day_count_inj assms(2) k by metis
qed

text \<open>A date valid in every year comes within the next two years.\<close>

lemma next_year_date:
  assumes "cal_min cal \<le> d" "d + 733 \<le> cal_max cal" "\<And>y. valid_civil (y, m, n)"
  shows "\<exists>d'. d < d' \<and> d' \<le> d + 732 \<and> civil_of d' = (year d + 1, m, n)"
proof -
  let ?c = "(year d + 1, m, n)" and ?s = "civil_of d"
  have v: "valid_civil ?s" using assms by (intro civil_of_valid) auto
  have "before_year (year d) < day_count ?s" "day_count ?s \<le> before_year (year d + 1)"
    using in_year v unfolding civil_of_def by blast+
  moreover have "before_year (year d + 1) < day_count ?c"
    "day_count ?c \<le> before_year (year d + 1 + 1)"
    using in_year assms(3) by blast+
  moreover have "before_year (year d + 1 + 1) \<le> before_year (year d) + 732"
    using before_year_Suc [of "year d"] before_year_Suc [of "year d + 1"] by (simp split: if_splits)
  ultimately have b: "0 < day_count ?c - day_count ?s" "day_count ?c - day_count ?s \<le> 732" by linarith+
  then have "civil_of (d + (day_count ?c - day_count ?s)) = ?c"
    using assms by (intro reach_date) auto
  with b show ?thesis by (intro exI [of _ "d + (day_count ?c - day_count ?s)"]) auto
qed

end

text \<open>Between two leap days lie at most eight years.\<close>

lemma leap_within_8:
  "(\<exists>k \<in> {1 .. 7 :: int}. leap (y + k)) \<or> leap y \<and> leap (y + 8)"
proof (rule disjCI)
  assume *: "\<not> (leap y \<and> leap (y + 8))"
  have m: "y mod 4 \<in> {0, 1, 2, 3}" by auto
  show "\<exists>k \<in> {1 .. 7 :: int}. leap (y + k)"
  proof (rule ccontr)
    assume "\<not> (\<exists>k \<in> {1 .. 7 :: int}. leap (y + k))"
    then have n: "\<not> leap (y + 1)" "\<not> leap (y + 2)" "\<not> leap (y + 3)" "\<not> leap (y + 4)"
      "\<not> leap (y + 5)" "\<not> leap (y + 6)" "\<not> leap (y + 7)" by auto
    show False using n * unfolding leap_def by presburger
  qed
qed

context gregorian_calendar
begin

lemma reach_within:
  assumes "cal_min cal \<le> d" "d + int b \<le> cal_max cal" "valid_civil c"
    "day_count (civil_of d) < day_count c" "day_count c \<le> day_count (civil_of d) + int b"
  shows "\<exists>d'. d < d' \<and> d' \<le> d + int b \<and> civil_of d' = c"
  using assms reach_date [of d c]
  by (intro exI [of _ "d + (day_count c - day_count (civil_of d))"]) auto

lemma leap_day_ahead:
  assumes "cal_min cal \<le> d" "d + 2928 \<le> cal_max cal"
  shows "\<exists>d' y. d < d' \<and> d' \<le> d + 2928 \<and> civil_of d' = (y, 2, 29)"
proof -
  define y where "y = year d"
  have feb: "valid_civil (z, 2, 29)" "day_count (z, 2, 29) = before_year z + 60" if "leap z" for z
    using that by (simp_all add: days_in_month_def before_month_def)
  have s: "before_year y < day_count (civil_of d)" "day_count (civil_of d) \<le> before_year (y + 1)"
    using in_year [of y "cal_month cal d" "cal_day cal d"] civil_of_valid [of d] assms
    unfolding civil_of_def y_def by auto
  have reach: "\<exists>d' y. d < d' \<and> d' \<le> d + 2928 \<and> civil_of d' = (y, 2, 29)"
    if "leap z" "day_count (civil_of d) < before_year z + 60"
      "before_year z + 60 \<le> day_count (civil_of d) + 2928" for z
    using reach_within [of d 2928 "(z, 2, 29)"] assms feb [OF that(1)] that(2,3)
    by (metis of_nat_numeral)
  consider k where "1 \<le> k" "k \<le> 7" "leap (y + k)" | "leap y" "leap (y + 8)"
    using leap_within_8 [of y] by auto
  then show ?thesis
  proof cases
    case 1
    have "before_year (y + k) \<le> before_year y + 366 * 7"
      using before_year_le [of y 7] before_year_mono [of "y + k" "y + 7"] 1 by simp
    moreover have "before_year (y + 1) \<le> before_year (y + k)" using 1 by (intro before_year_mono) simp
    ultimately show ?thesis using reach [OF 1(3)] s by simp
  next
    case 2
    show ?thesis
    proof (cases "day_count (civil_of d) < before_year y + 60")
      case True
      then show ?thesis using reach [OF 2(1)] s by simp
    next
      case False
      moreover have "before_year (y + 8) \<le> before_year y + 366 * 8" using before_year_le [of y 8] by simp
      moreover have "before_year (y + 1) \<le> before_year (y + 8)" by (intro before_year_mono) simp
      ultimately show ?thesis using reach [OF 2(2)] s by simp
    qed
  qed
qed

text \<open>Every weekday comes in the first seven days of a month.\<close>

lemma weekday_ahead:
  assumes "cal_min cal \<le> d" "d + 2928 \<le> cal_max cal" "1 \<le> m" "m \<le> 12" "w < 7"
  shows "\<exists>d'. d < d' \<and> d' \<le> d + 2928 \<and> cal_month cal d' = m \<and> cal_weekday cal d' = w"
proof -
  have v: "valid_civil (y, m, n)" if "1 \<le> n" "n \<le> 7" for y n
    using assms(3,4) that by (auto simp: days_in_month_def)
  obtain d1 where d1: "d < d1" "d1 \<le> d + 732" "civil_of d1 = (year d + 1, m, 1)"
    using next_year_date [of d m 1] assms v by auto
  define j where "j = (w + (7 - cal_weekday cal d1)) mod 7"
  have j: "j < 7" by (simp add: j_def)
  have w1: "cal_weekday cal d1 < 7" using civil_valid [of d1] d1 assms by simp
  have "cal_weekday cal (d1 + int j) = (cal_weekday cal d1 + j) mod 7"
    using weekday_add [of d1 j] d1 assms j by simp
  also have "\<dots> = (cal_weekday cal d1 + (w + (7 - cal_weekday cal d1))) mod 7"
    unfolding j_def by (simp only: mod_simps)
  also have "\<dots> = w" using w1 assms(5) by simp
  finally have "cal_weekday cal (d1 + int j) = w" .
  moreover have "civil_of (d1 + int j) = (year d + 1, m, 1 + j)"
    using reach_date [of d1 "(year d + 1, m, 1 + j)"] d1 assms v [of "1 + j"] j by simp
  ultimately show ?thesis using d1 j by (intro exI [of _ "d1 + int j"]) (simp add: civil_of_def)
qed

lemma month_day_ahead:
  assumes "cal_min cal \<le> d" "d + 2928 \<le> cal_max cal" "valid_civil (y, m, n)"
  shows "\<exists>d'. d < d' \<and> d' \<le> d + 2928 \<and> cal_month cal d' = m \<and> cal_day cal d' = n"
proof (cases "m = 2 \<and> n = 29")
  case True
  then show ?thesis using leap_day_ahead [of d] assms by (auto simp: civil_of_def)
next
  case False
  then have "valid_civil (z, m, n)" for z
    using assms(3) by (auto simp: days_in_month_def split: if_splits)
  then obtain d' where "d < d'" "d' \<le> d + 732" "civil_of d' = (year d + 1, m, n)"
    using next_year_date [of d m n] assms by auto
  then show ?thesis by (intro exI [of _ d']) (auto simp: civil_of_def)
qed

lemma day_matches_ahead:
  assumes "cal_min cal \<le> d" "d + 2928 \<le> cal_max cal"
    "cal_min cal \<le> d0" "d0 \<le> cal_max cal" "day_matches cal e d0"
  shows "\<exists>d'. d < d' \<and> d' \<le> d + 2928 \<and> day_matches cal e d'"
proof -
  have v: "valid_civil (year d0, cal_month cal d0, cal_day cal d0)" "cal_weekday cal d0 < 7"
    using civil_valid assms by auto
  obtain a where a: "d < a" "a \<le> d + 2928" "cal_month cal a = cal_month cal d0"
    "cal_day cal a = cal_day cal d0" using month_day_ahead [OF assms(1,2) v(1)] by auto
  obtain b where b: "d < b" "b \<le> d + 2928" "cal_month cal b = cal_month cal d0"
    "cal_weekday cal b = cal_weekday cal d0"
    using weekday_ahead [of d "cal_month cal d0" "cal_weekday cal d0"] assms v by auto
  have "day_matches cal e a \<or> day_matches cal e b"
    using assms(5) a(3,4) b(3,4) by (auto simp: day_matches_def Let_def split: if_splits bool.splits)
  with a(1,2) b(1,2) show ?thesis by blast
qed

lemma next_after_total:
  assumes "cal_min cal \<le> date_naive t" "date_naive t + 2928 \<le> cal_max cal" "fires cal e u"
  shows "\<exists>s. next_after cal e t = Inr s"
proof (cases "next_after cal e t")
  case (Inl err)
  obtain d0 h m where u: "u = at_hm d0 h m" "cal_min cal \<le> d0" "d0 \<le> cal_max cal"
    "day_matches cal e d0" "h < 24" "m < 60" "cf_matches (ce_hour e) h" "cf_matches (ce_minute e) m"
    using assms(3) by (auto simp: fires_def)
  obtain d' where d': "date_naive t < d'" "d' \<le> date_naive t + 2928" "day_matches cal e d'"
    using day_matches_ahead [of "date_naive t" d0 e] assms u by auto
  let ?v = "at_hm d' h m"
  have dv: "date_naive ?v = d'" using u by (simp add: date_naive_at_hm)
  have "fires cal e ?v" unfolding fires_def using d' u assms by (intro exI [of _ d'] exI [of _ h] exI [of _ m]) auto
  moreover have "t < ?v" using date_naive_mono [of ?v t] d' dv by linarith
  ultimately show ?thesis using next_after_Inl [OF Inl] dv d' by (force simp: MAX_SEARCH_DAYS_def)
qed simp

end

context gregorian_calendar
begin

text \<open>The backward search finds a firing whenever there is one at or before the instant.\<close>

lemma previous_total:
  assumes "representable cal t" "fires cal e u" "u \<le> t"
  shows "\<exists>s. previous_or_equal cal e t = Some s"
proof (cases "previous_or_equal cal e t")
  case None
  obtain d0 h m where u: "u = at_hm d0 h m" "cal_min cal \<le> d0" "d0 \<le> cal_max cal"
    "day_matches cal e d0" "h < 24" "m < 60" "cf_matches (ce_hour e) h" "cf_matches (ce_minute e) m"
    using assms(2) by (auto simp: fires_def)
  have far: "date_naive u \<le> date_naive t - 2929"
    using previous_or_equal_None [OF None assms(2,3)] by (simp add: MAX_SEARCH_DAYS_def)
  have r: "cal_min cal \<le> date_naive u" "date_naive t \<le> cal_max cal"
    using fires_on_its_date [OF assms(2)] assms(1) by (simp_all add: representable_def)
  obtain d' where d': "date_naive t - 2929 < d'" "d' \<le> date_naive t - 1" "day_matches cal e d'"
    using day_matches_ahead [of "date_naive t - 2929" d0 e] far r u by auto
  let ?v = "at_hm d' h m"
  have dv: "date_naive ?v = d'" using u by (simp add: date_naive_at_hm)
  have "fires cal e ?v"
    unfolding fires_def using d' u far r by (intro exI [of _ d'] exI [of _ h] exI [of _ m]) auto
  moreover have "?v \<le> t" using date_naive_mono [of t ?v] d' dv by linarith
  ultimately show ?thesis using previous_or_equal_None [OF None] dv d' by (force simp: MAX_SEARCH_DAYS_def)
qed simp

end

section \<open>The Gregorian calendar from 1970-01-01\<close>

text \<open>
  An instance: dates count forward from Thursday 1970-01-01, day number 0, up to the last day of
  the year 9999.
\<close>

definition civil_at :: "int \<Rightarrow> civil" where
  "civil_at d = (next_civil ^^ nat d) (1970, 1, 1)"

definition civil_calendar :: calendar where
  "civil_calendar =
     \<lparr>cal_month = (\<lambda>d. fst (snd (civil_at d))), cal_day = (\<lambda>d. snd (snd (civil_at d))),
      cal_weekday = (\<lambda>d. (nat d + 4) mod 7), cal_min = 0, cal_max = 2932896\<rparr>"

definition civil_year :: "date \<Rightarrow> int" where
  "civil_year d = fst (civil_at d)"

lemma civil_at_valid: "0 \<le> d \<Longrightarrow> valid_civil (civil_at d)"
proof -
  have "valid_civil ((next_civil ^^ n) (1970, 1, 1))" for n
  proof (induction n)
    case (Suc n)
    then show ?case unfolding funpow.simps comp_def by (rule valid_next)
  qed (simp add: days_in_month_def)
  then show ?thesis by (simp add: civil_at_def)
qed

lemma civil_at_next: "0 \<le> d \<Longrightarrow> civil_at (d + 1) = next_civil (civil_at d)"
  by (simp add: civil_at_def nat_add_distrib)

interpretation civil: gregorian_calendar civil_calendar civil_year
proof
  fix d
  assume "cal_min civil_calendar \<le> d"
  then have d: "0 \<le> d" by (simp add: civil_calendar_def)
  show "valid_civil (civil_year d, cal_month civil_calendar d, cal_day civil_calendar d) \<and>
    cal_weekday civil_calendar d < 7"
    using civil_at_valid [OF d] by (simp add: civil_calendar_def civil_year_def)
  show "(civil_year (d + 1), cal_month civil_calendar (d + 1), cal_day civil_calendar (d + 1)) =
    next_civil (civil_year d, cal_month civil_calendar d, cal_day civil_calendar d)"
    using civil_at_next [OF d] by (simp add: civil_calendar_def civil_year_def)
  show "cal_weekday civil_calendar (d + 1) = (cal_weekday civil_calendar d + 1) mod 7"
    using d by (simp add: civil_calendar_def nat_add_distrib mod_simps)
qed

text \<open>The first leap day of the range, 1972-02-29, is day 789.\<close>

lemma civil_at_789: "civil_at 789 = (1972, 2, 29)"
proof -
  have z: "civil.civil_of 0 = (1970, 1, 1)"
    unfolding civil.civil_of_def by (simp add: civil_calendar_def civil_year_def civil_at_def)
  have "civil.civil_of (0 + (day_count (1972, 2, 29) - day_count (civil.civil_of 0))) = (1972, 2, 29)"
    unfolding z
    by (rule civil.reach_date [where d = 0, unfolded z])
       (simp_all add: civil_calendar_def days_in_month_def leap_def before_year_def before_month_def)
  moreover have "day_count (1972, 2, 29) - day_count (1970, 1, 1) = 789"
    by (simp add: before_year_def before_month_def leap_def)
  ultimately have "civil.civil_of 789 = (1972, 2, 29)" unfolding z by simp
  then show ?thesis
    unfolding civil.civil_of_def by (simp add: civil_calendar_def civil_year_def prod_eq_iff)
qed

section \<open>The searches are exact\<close>

text \<open>The expression \<open>0 0 29 2 *\<close>, as it is parsed.\<close>

definition leap_day_expr :: cron_expr where
  "leap_day_expr =
     \<lparr>ce_minute = \<lparr>mask = 1, restricted = True\<rparr>, ce_hour = \<lparr>mask = 1, restricted = True\<rparr>,
      ce_day_of_month = \<lparr>mask = 2 ^ 29, restricted = True\<rparr>,
      ce_month = \<lparr>mask = 4, restricted = True\<rparr>,
      ce_day_of_week = \<lparr>mask = 127, restricted = False\<rparr>,
      ce_expression = lit ''0 0 29 2 *''\<rparr>"

lemma leap_day_fires: "fires civil_calendar leap_day_expr (at_hm 789 0 0)"
proof -
  have "day_matches civil_calendar leap_day_expr 789"
    by (simp add: day_matches_def leap_day_expr_def civil_calendar_def civil_at_789 cf_matches_def
        is_restricted_def Let_def bit_exp_iff bit_numeral_iff)
  moreover have "cf_matches (ce_hour leap_day_expr) 0" "cf_matches (ce_minute leap_day_expr) 0"
    by (simp_all add: leap_day_expr_def cf_matches_def)
  ultimately show ?thesis
    unfolding fires_def by (intro exI [of _ 789] exI [of _ 0]) (simp add: civil_calendar_def)
qed

text \<open>
  C38: \<open>next_after\<close> returns the least firing instant strictly after its argument; it reports that an
  expression never fires only when no firing instant lies on the days of its search window.
\<close>

theorem next_after_correct:
  assumes "representable cal t"
  shows "case next_after cal e t of
      Inr s \<Rightarrow> fires cal e s \<and> t < s \<and> (\<forall>u. fires cal e u \<and> t < u \<longrightarrow> s \<le> u)
    | Inl err \<Rightarrow> err = NeverFires (ce_expression e) \<and>
        (\<forall>u. fires cal e u \<and> t < u \<longrightarrow> date_naive t + int MAX_SEARCH_DAYS \<le> date_naive u)"
proof (cases "next_after cal e t")
  case (Inl err)
  then have "err = NeverFires (ce_expression e)"
    by (simp add: next_after_def ok_or_def split: option.splits)
  then show ?thesis using Inl next_after_Inl [OF Inl] by simp
next
  case (Inr s)
  then show ?thesis using cron.next_sound [OF assms Inr] cron.next_least [OF assms Inr] by simp
qed

text \<open>The search of the schedule \<open>0 0 29 2 *\<close> from the epoch.\<close>

theorem next_after_correct_witness:
  "representable civil_calendar 0 \<and>
   (case next_after civil_calendar leap_day_expr 0 of
      Inr s \<Rightarrow> fires civil_calendar leap_day_expr s \<and> 0 < s \<and>
        (\<forall>u. fires civil_calendar leap_day_expr u \<and> 0 < u \<longrightarrow> s \<le> u)
    | Inl err \<Rightarrow> err = NeverFires (ce_expression leap_day_expr) \<and>
        (\<forall>u. fires civil_calendar leap_day_expr u \<and> 0 < u \<longrightarrow>
           date_naive 0 + int MAX_SEARCH_DAYS \<le> date_naive u))"
proof -
  have r: "representable civil_calendar 0"
    by (simp add: representable_def civil_calendar_def date_naive_def)
  from next_after_correct [OF r, of leap_day_expr] r show ?thesis by blast
qed

text \<open>
  \<open>previous_or_equal\<close> returns the greatest firing instant at or before its argument; it returns
  nothing only when no firing instant lies on the days of its search window.
\<close>

theorem previous_or_equal_correct:
  assumes "representable cal t"
  shows "case previous_or_equal cal e t of
      Some s \<Rightarrow> fires cal e s \<and> s \<le> t \<and> (\<forall>u. fires cal e u \<and> u \<le> t \<longrightarrow> u \<le> s)
    | None \<Rightarrow> (\<forall>u. fires cal e u \<and> u \<le> t \<longrightarrow>
        date_naive u \<le> date_naive t - int MAX_SEARCH_DAYS)"
proof (cases "previous_or_equal cal e t")
  case None
  then show ?thesis using previous_or_equal_None [OF None] by simp
next
  case (Some s)
  then show ?thesis using cron.prev_sound [OF assms Some] cron.prev_greatest [OF assms Some] by simp
qed

theorem previous_or_equal_correct_witness:
  "representable civil_calendar (at_hm 800 7 30) \<and>
   (case previous_or_equal civil_calendar leap_day_expr (at_hm 800 7 30) of
      Some s \<Rightarrow> fires civil_calendar leap_day_expr s \<and> s \<le> at_hm 800 7 30 \<and>
        (\<forall>u. fires civil_calendar leap_day_expr u \<and> u \<le> at_hm 800 7 30 \<longrightarrow> u \<le> s)
    | None \<Rightarrow> (\<forall>u. fires civil_calendar leap_day_expr u \<and> u \<le> at_hm 800 7 30 \<longrightarrow>
        date_naive u \<le> date_naive (at_hm 800 7 30) - int MAX_SEARCH_DAYS))"
proof -
  have r: "representable civil_calendar (at_hm 800 7 30)"
    by (simp add: representable_def civil_calendar_def date_naive_at_hm)
  from previous_or_equal_correct [OF r, of leap_day_expr] r show ?thesis by blast
qed

text \<open>
  The search horizon of \<open>next_after\<close> is long enough: in the Gregorian calendar, an expression
  that fires at all has a next firing after every instant whose window lies inside the
  calendar's range, also when it fires on leap days only.
\<close>

theorem next_after_finds_every_expression:
  assumes "gregorian_calendar cal year" "cal_min cal \<le> date_naive t"
    "date_naive t + int MAX_SEARCH_DAYS \<le> cal_max cal + 1" "fires cal e u"
  shows "\<exists>s. next_after cal e t = Inr s"
  using gregorian_calendar.next_after_total [OF assms(1)] assms(2-4)
  by (simp add: MAX_SEARCH_DAYS_def)

theorem next_after_finds_every_expression_witness:
  "gregorian_calendar civil_calendar civil_year \<and>
   (\<exists>s. next_after civil_calendar leap_day_expr (at_hm 790 0 0) = Inr s)"
proof -
  have "\<exists>s. next_after civil_calendar leap_day_expr (at_hm 790 0 0) = Inr s"
    by (rule next_after_finds_every_expression [OF civil.gregorian_calendar_axioms _ _ leap_day_fires])
       (simp_all add: civil_calendar_def date_naive_at_hm MAX_SEARCH_DAYS_def)
  then show ?thesis using civil.gregorian_calendar_axioms by blast
qed

end
