(* ===== verification/RunMarker.thy ===== *)
theory RunMarker
  imports Cron
begin

text \<open>
  The run record of a scheduled workflow and its hidden marker
  (\<open>backend/src/schedule/marker.rs\<close>): rendering, parsing, and the collection of the records from
  the comments of a definition issue.

  RFC 3339 rendering and parsing belong to the date library, so they are the parameter \<open>codec\<close> of
  the operations; its laws are the locale \<open>timestamp_codec\<close>. An error value keeps which check
  failed and the field or token it names, not the sentence around it.
\<close>

section \<open>Records\<close>

datatype run_status = Dispatched | Ok | Failed | Timeout | SkippedOverlap

datatype step_status = StepOk | StepFailed | StepSkipped

record run_step =
  rs_index :: nat
  rs_id :: str
  rs_status :: step_status
  rs_duration_s :: "nat option"

record run_record =
  rr_slot :: instant
  rr_manual :: bool
  rr_status :: run_status
  rr_started :: instant
  rr_ended :: "instant option"
  rr_issue :: "nat option"
  rr_detail :: "str option"
  rr_steps :: "run_step list"

record codec =
  to_rfc3339 :: "instant \<Rightarrow> str"
  from_rfc3339 :: "str \<Rightarrow> instant option"

datatype marker_error =
    BadStatus str | NotAMarker | NoAssignment | BadFieldName | NotQuoted | Unterminated
  | DuplicateField str | MissingField str | BadTimestamp str | BadBool str | BadIssue

definition MARKER_PREFIX :: str where
  "MARKER_PREFIX = lit ''<!-- fkst-cron-run:v1''"

definition MAX_DETAIL_CHARS :: nat where
  "MAX_DETAIL_CHARS = 200"

fun run_status_as_str :: "run_status \<Rightarrow> str" where
  "run_status_as_str Dispatched = lit ''dispatched''"
| "run_status_as_str Ok = lit ''ok''"
| "run_status_as_str Failed = lit ''failed''"
| "run_status_as_str Timeout = lit ''timeout''"
| "run_status_as_str SkippedOverlap = lit ''skipped-overlap''"

definition run_status_parse :: "str \<Rightarrow> marker_error + run_status" where
  "run_status_parse s =
     (if s = lit ''dispatched'' then Inr Dispatched
      else if s = lit ''ok'' then Inr Ok
      else if s = lit ''failed'' then Inr Failed
      else if s = lit ''timeout'' then Inr Timeout
      else if s = lit ''skipped-overlap'' then Inr SkippedOverlap
      else Inl (BadStatus s))"

definition is_terminal :: "run_status \<Rightarrow> bool" where
  "is_terminal s \<longleftrightarrow> s \<noteq> Dispatched"

fun step_status_as_str :: "step_status \<Rightarrow> str" where
  "step_status_as_str StepOk = lit ''ok''"
| "step_status_as_str StepFailed = lit ''failed''"
| "step_status_as_str StepSkipped = lit ''skipped''"

definition step_status_parse :: "str \<Rightarrow> step_status option" where
  "step_status_parse s =
     (if s = lit ''ok'' then Some StepOk
      else if s = lit ''failed'' then Some StepFailed
      else if s = lit ''skipped'' then Some StepSkipped
      else None)"

definition new_record :: "instant \<Rightarrow> run_status \<Rightarrow> instant \<Rightarrow> run_record" where
  "new_record slot status at =
     \<lparr>rr_slot = slot, rr_manual = False, rr_status = status, rr_started = at,
      rr_ended = (if is_terminal status then Some at else None), rr_issue = None,
      rr_detail = None, rr_steps = []\<rparr>"

definition with_detail :: "run_record \<Rightarrow> str \<Rightarrow> run_record" where
  "with_detail r detail = r\<lparr>rr_detail := Some detail\<rparr>"

definition with_issue :: "run_record \<Rightarrow> nat \<Rightarrow> run_record" where
  "with_issue r issue = r\<lparr>rr_issue := Some issue\<rparr>"

definition manual :: "run_record \<Rightarrow> run_record" where
  "manual r = r\<lparr>rr_manual := True\<rparr>"

definition duration_s :: "run_record \<Rightarrow> nat option" where
  "duration_s r = map_option (\<lambda>ended. nat (max 0 (num_seconds (ended - rr_started r)))) (rr_ended r)"

section \<open>Rendering\<close>

definition quote_char :: uchar where
  "quote_char = 34"

definition render_field :: "str \<times> str \<Rightarrow> str" where
  "render_field kv = fst kv @ ch (CHR ''='') # quote_char # snd kv @ [quote_char]"

definition sanitize_char :: "uchar \<Rightarrow> uchar" where
  "sanitize_char c = (if c = quote_char \<or> c = ch (CHR ''<'') \<or> c = ch (CHR ''>'') then 39 else c)"

definition sanitize_detail :: "str \<Rightarrow> str" where
  "sanitize_detail detail =
     trim (take MAX_DETAIL_CHARS (filter (\<lambda>c. \<not> is_control c) (map sanitize_char detail)))"

definition render_step :: "run_step \<Rightarrow> str" where
  "render_step st =
     show_nat (rs_index st) @ lit '':'' @ rs_id st @ lit '':'' @
     step_status_as_str (rs_status st) @ lit '':'' @
     (case rs_duration_s st of None \<Rightarrow> [] | Some s \<Rightarrow> show_nat s)"

definition render_steps :: "run_step list \<Rightarrow> str" where
  "render_steps steps = join (lit '';'') (map render_step steps)"

definition show_bool :: "bool \<Rightarrow> str" where
  "show_bool b = (if b then lit ''true'' else lit ''false'')"

text \<open>The attributes of a marker, in the order they are pushed; absent ones are left out.\<close>

definition marker_fields :: "codec \<Rightarrow> run_record \<Rightarrow> (str \<times> str) list" where
  "marker_fields cod r =
     [(lit ''slot'', to_rfc3339 cod (rr_slot r)),
      (lit ''manual'', show_bool (rr_manual r)),
      (lit ''status'', run_status_as_str (rr_status r)),
      (lit ''started'', to_rfc3339 cod (rr_started r))]
     @ (case rr_ended r of Some ended \<Rightarrow> [(lit ''ended'', to_rfc3339 cod ended)] | None \<Rightarrow> [])
     @ (case rr_issue r of Some issue \<Rightarrow> [(lit ''issue'', show_nat issue)] | None \<Rightarrow> [])
     @ (case rr_detail r of
          Some detail \<Rightarrow>
            (let sanitized = sanitize_detail detail
             in if sanitized \<noteq> [] then [(lit ''detail'', sanitized)] else [])
        | None \<Rightarrow> [])
     @ (if rr_steps r \<noteq> [] then [(lit ''steps'', render_steps (rr_steps r))] else [])"

definition render_marker :: "codec \<Rightarrow> run_record \<Rightarrow> str" where
  "render_marker cod r =
     MARKER_PREFIX @ lit '' '' @ join (lit '' '') (map render_field (marker_fields cod r)) @ lit '' -->''"

section \<open>Parsing\<close>

function parse_attributes_from ::
  "str \<Rightarrow> (str, str) btree_map \<Rightarrow> marker_error + (str, str) btree_map" where
  "parse_attributes_from input flds =
     (let rest = trim_start input
      in if rest = [] then Inr flds
         else case split_once (ch (CHR ''='')) rest of
           None \<Rightarrow> Inl NoAssignment
         | Some (raw, after) \<Rightarrow>
             (let key = trim raw
              in if key = [] \<or> list_ex is_whitespace key then Inl BadFieldName
                 else case strip_prefix [quote_char] after of
                   None \<Rightarrow> Inl NotQuoted
                 | Some quoted \<Rightarrow>
                     (case split_once quote_char quoted of
                        None \<Rightarrow> Inl Unterminated
                      | Some (val, rest') \<Rightarrow>
                          if bt_get flds key \<noteq> None then Inl (DuplicateField key)
                          else parse_attributes_from rest' (bt_insert key val flds))))"
  by pat_completeness auto
termination
proof (relation "measure (\<lambda>(input, _). length input)")
  fix input :: str and flds :: "(str, str) btree_map" and rest p raw after key quoted q val rest'
  assume a: "rest = trim_start input" "split_once (ch (CHR ''='')) rest = Some p" "(raw, after) = p"
    "strip_prefix [quote_char] after = Some quoted" "split_once quote_char quoted = Some q"
    "(val, rest') = q"
  from a have "length rest' < length rest"
    by (auto simp: split_once_Some_iff strip_prefix_Some_iff)
  also have "\<dots> \<le> length input" using a(1) length_trim_start by simp
  finally show "((rest', bt_insert key val flds), input, flds)
      \<in> measure (\<lambda>(input, _). length input)" by simp
qed simp

declare parse_attributes_from.simps [simp del]

definition parse_attributes :: "str \<Rightarrow> marker_error + (str, str) btree_map" where
  "parse_attributes input = parse_attributes_from input []"

definition parse_step :: "str \<Rightarrow> run_step option" where
  "parse_step entry =
     (case split (ch (CHR '':'')) entry of
        index_s # rest1 \<Rightarrow>
          (case parse_uint 32 index_s of
             None \<Rightarrow> None
           | Some index \<Rightarrow>
               (case rest1 of
                  i # status_s # rest2 \<Rightarrow>
                    (case step_status_parse status_s of
                       None \<Rightarrow> None
                     | Some status \<Rightarrow>
                         (let duration = (case rest2 of [] \<Rightarrow> [] | d # _ \<Rightarrow> d)
                          in if i = [] then None
                             else Some \<lparr>rs_index = index, rs_id = i, rs_status = status,
                                        rs_duration_s = parse_uint 64 duration\<rparr>))
                | _ \<Rightarrow> None))
      | [] \<Rightarrow> None)"

definition parse_steps :: "str \<Rightarrow> run_step list" where
  "parse_steps s = filter_map parse_step (filter (\<lambda>entry. entry \<noteq> []) (split (ch (CHR '';'')) s))"

definition required :: "(str, str) btree_map \<Rightarrow> str \<Rightarrow> marker_error + str" where
  "required flds key = ok_or (MissingField key) (bt_get flds key)"

definition parse_timestamp :: "codec \<Rightarrow> str \<Rightarrow> str \<Rightarrow> marker_error + instant" where
  "parse_timestamp cod s field = ok_or (BadTimestamp field) (from_rfc3339 cod s)"

definition parse_bool :: "str \<Rightarrow> str \<Rightarrow> marker_error + bool" where
  "parse_bool s field =
     (if s = lit ''true'' then Inr True else if s = lit ''false'' then Inr False
      else Inl (BadBool field))"

definition parse_marker :: "codec \<Rightarrow> str \<Rightarrow> marker_error + run_record" where
  "parse_marker cod marker0 =
     (let marker = trim marker0
      in and_then (ok_or NotAMarker
           (Option.bind (strip_prefix MARKER_PREFIX marker) (strip_suffix (lit ''-->'')))) (\<lambda>attributes.
         and_then (parse_attributes (trim attributes)) (\<lambda>flds.
         and_then (and_then (required flds (lit ''slot'')) (\<lambda>v. parse_timestamp cod v (lit ''slot''))) (\<lambda>slot.
         and_then (and_then (required flds (lit ''manual'')) (\<lambda>v. parse_bool v (lit ''manual''))) (\<lambda>man.
         and_then (and_then (required flds (lit ''status'')) run_status_parse) (\<lambda>status.
         and_then (and_then (required flds (lit ''started'')) (\<lambda>v. parse_timestamp cod v (lit ''started''))) (\<lambda>started.
         and_then (transpose_opt (map_option (\<lambda>v. parse_timestamp cod v (lit ''ended''))
           (bt_get flds (lit ''ended'')))) (\<lambda>ended.
         and_then (transpose_opt (map_option (\<lambda>v. ok_or BadIssue (parse_uint 64 v))
           (bt_get flds (lit ''issue'')))) (\<lambda>issue.
           Inr \<lparr>rr_slot = slot, rr_manual = man, rr_status = status, rr_started = started,
                rr_ended = ended, rr_issue = issue, rr_detail = bt_get flds (lit ''detail''),
                rr_steps = (case bt_get flds (lit ''steps'') of None \<Rightarrow> [] | Some v \<Rightarrow> parse_steps v)\<rparr>)))))))))"

definition collect_records :: "codec \<Rightarrow> str list \<Rightarrow> run_record list" where
  "collect_records cod comments =
     filter_map (\<lambda>line. ok_opt (parse_marker cod line))
       (filter (\<lambda>line. starts_with MARKER_PREFIX (trim_start line)) (concat (map lines comments)))"

section \<open>Attributes survive rendering\<close>

definition plain_key :: "str \<Rightarrow> bool" where
  "plain_key k \<longleftrightarrow> k \<noteq> [] \<and> ch (CHR ''='') \<notin> set k \<and> list_all (\<lambda>c. \<not> is_whitespace c) k"

lemma parse_attributes_from_Nil [simp]: "parse_attributes_from [] m = Inr m"
  by (subst parse_attributes_from.simps) (simp add: Let_def)

lemma parse_attributes_from_space: "parse_attributes_from (32 # s) m = parse_attributes_from s m"
proof -
  have t: "trim_start (32 # s) = trim_start s" by (simp add: trim_start_def is_whitespace_def)
  show ?thesis
    unfolding parse_attributes_from.simps [of "32 # s"] parse_attributes_from.simps [of s] t ..
qed

lemma parse_attributes_from_field:
  assumes "plain_key k" "quote_char \<notin> set v" "bt_get m k = None"
  shows "parse_attributes_from (render_field (k, v) @ s) m = parse_attributes_from s (bt_insert k v m)"
proof -
  have k: "k \<noteq> []" "ch (CHR ''='') \<notin> set k" "\<And>c. c \<in> set k \<Longrightarrow> \<not> is_whitespace c"
    using assms(1) by (auto simp: plain_key_def list_all_iff)
  have "trimmed k" using k(1,3) by (simp add: trimmed_def)
  then have t: "trim k = k" by (rule trim_id)
  have r: "render_field (k, v) @ s = k @ ch (CHR ''='') # quote_char # v @ quote_char # s"
    by (simp add: render_field_def)
  have ts: "trim_start (k @ x) = k @ x" for x
    using k(1,3) by (intro trim_start_id) (cases k; simp)
  have so: "split_once (ch (CHR ''='')) (k @ ch (CHR ''='') # x) = Some (k, x)" for x
    using k(2) by (rule split_once_append)
  have ne: "k @ x \<noteq> []" for x using k(1) by simp
  have nw: "\<not> list_ex is_whitespace k" using k(3) by (auto simp: list_ex_iff)
  have sv: "split_once quote_char (v @ quote_char # s) = Some (v, s)"
    using assms(2) by (rule split_once_append)
  show ?thesis
    unfolding r
    by (subst parse_attributes_from.simps)
       (simp only: ts Let_def so ne t k(1) nw sv option.case prod.case if_False HOL.simp_thms
         strip_prefix.simps if_True refl assms(3))
qed

lemma parse_attributes_from_fields:
  "(\<And>k v. (k, v) \<in> set kvs \<Longrightarrow> plain_key k \<and> quote_char \<notin> set v) \<Longrightarrow> distinct (map fst kvs) \<Longrightarrow>
   (\<And>k. k \<in> fst ` set kvs \<Longrightarrow> bt_get m k = None) \<Longrightarrow>
   parse_attributes_from (join (lit '' '') (map render_field kvs)) m = Inr (bt.insert_all kvs m)"
proof (induction kvs arbitrary: m)
  case Nil
  then show ?case by (simp add: bt.insert_all_def)
next
  case (Cons kv kvs)
  obtain k v where kv: "kv = (k, v)" by (cases kv)
  have ins: "bt.insert_all (kv # kvs) m = bt.insert_all kvs (bt_insert k v m)"
    by (simp add: bt.insert_all_def kv)
  have step: "parse_attributes_from (render_field (k, v) @ s) m = parse_attributes_from s (bt_insert k v m)"
    for s using Cons.prems kv by (intro parse_attributes_from_field) auto
  have ih: "parse_attributes_from (join (lit '' '') (map render_field kvs)) (bt_insert k v m) =
      Inr (bt.insert_all kvs (bt_insert k v m))"
    using Cons.prems kv by (intro Cons.IH) auto
  show ?case
  proof (cases kvs)
    case Nil
    then show ?thesis using step [of "[]"] by (simp add: kv ins bt.insert_all_def)
  next
    case (Cons kv' kvs')
    have "join (lit '' '') (map render_field (kv # kvs)) =
        render_field (k, v) @ 32 # join (lit '' '') (map render_field kvs)"
      by (simp add: kv Cons str_simps)
    then show ?thesis using step ih ins by (simp add: parse_attributes_from_space)
  qed
qed

section \<open>Steps survive rendering\<close>

definition wf_step :: "run_step \<Rightarrow> bool" where
  "wf_step st \<longleftrightarrow>
     rs_index st < 2 ^ 32 \<and> rs_id st \<noteq> [] \<and>
     list_all (\<lambda>c. c \<notin> {58, 59, 34, 10}) (rs_id st) \<and>
     (case rs_duration_s st of None \<Rightarrow> True | Some s \<Rightarrow> s < 2 ^ 64)"

lemma digit_range: "c \<in> set (show_nat n) \<Longrightarrow> 48 \<le> c \<and> c \<le> 57"
  using show_nat_digits [of c n] by (simp add: is_ascii_digit_def)

lemma step_status_chars: "c \<in> set (step_status_as_str s) \<Longrightarrow> 97 \<le> c"
  by (cases s) (auto simp: str_simps)

lemma step_status_roundtrip: "step_status_parse (step_status_as_str s) = Some s"
  by (cases s) (simp_all add: step_status_parse_def str_simps)

lemma run_status_roundtrip: "run_status_parse (run_status_as_str s) = Inr s"
  by (cases s) (simp_all add: run_status_parse_def str_simps)

lemma parse_uint_Nil [simp]: "parse_uint w [] = None"
  by (simp add: parse_uint_def Let_def)

lemma parse_step_render: "wf_step st \<Longrightarrow> parse_step (render_step st) = Some st"
proof -
  assume wf: "wf_step st"
  let ?d = "case rs_duration_s st of None \<Rightarrow> [] | Some s \<Rightarrow> show_nat s"
  have n: "58 \<notin> set (show_nat n)" for n using digit_range by fastforce
  have i: "58 \<notin> set (rs_id st)" using wf by (auto simp: wf_step_def list_all_iff)
  have s: "58 \<notin> set (step_status_as_str x)" for x using step_status_chars by fastforce
  have d: "58 \<notin> set ?d" using n by (simp split: option.splits)
  have "render_step st = show_nat (rs_index st) @ 58 # rs_id st @ 58 #
      step_status_as_str (rs_status st) @ 58 # ?d"
    by (simp add: render_step_def str_simps)
  then have "split 58 (render_step st) =
      [show_nat (rs_index st), rs_id st, step_status_as_str (rs_status st), ?d]"
    using n i s d by (simp add: split_append split_no_sep)
  moreover have "parse_uint 64 ?d = rs_duration_s st"
    using wf by (simp add: wf_step_def parse_uint_show_nat split: option.splits)
  moreover have "parse_uint 32 (show_nat (rs_index st)) = Some (rs_index st)" "rs_id st \<noteq> []"
    using wf by (auto simp: wf_step_def intro: parse_uint_show_nat)
  ultimately show ?thesis
    by (simp add: parse_step_def step_status_roundtrip Let_def)
qed

lemma render_step_chars:
  assumes "wf_step st" "c \<in> set (render_step st)"
  shows "c \<noteq> 59 \<and> c \<noteq> 34 \<and> c \<noteq> 10"
proof -
  consider "c = 58" | n where "c \<in> set (show_nat n)" | "c \<in> set (rs_id st)"
    | "c \<in> set (step_status_as_str (rs_status st))"
    using assms(2) by (auto simp: render_step_def str_simps split: option.splits)
  then show ?thesis
  proof cases
    case 2
    then show ?thesis using digit_range [OF 2] by simp
  next
    case 3
    then show ?thesis using assms(1) by (auto simp: wf_step_def list_all_iff)
  next
    case 4
    then show ?thesis using step_status_chars [OF 4] by simp
  qed simp
qed

lemma render_steps_chars:
  "\<forall>st \<in> set steps. wf_step st \<Longrightarrow> c \<in> set (render_steps steps) \<Longrightarrow> c \<noteq> 34 \<and> c \<noteq> 10"
  using set_join [of "lit '';''" "map render_step steps"] render_step_chars
  by (fastforce simp: render_steps_def str_simps)

lemma parse_steps_render:
  assumes "\<forall>st \<in> set steps. wf_step st" "steps \<noteq> []"
  shows "parse_steps (render_steps steps) = steps"
proof -
  have ne: "render_step st \<noteq> []" for st by (simp add: render_step_def)
  have "split 59 (join [59] (map render_step steps)) = map render_step steps"
    using assms render_step_chars by (intro split_join) auto
  then have s: "split 59 (render_steps steps) = map render_step steps"
    by (simp add: render_steps_def str_simps)
  have f: "filter (\<lambda>entry. entry \<noteq> []) (map render_step steps) = map render_step steps"
    using ne by (simp add: filter_empty_conv)
  have "filter_map parse_step (map render_step steps) = steps"
    using assms(1) by (induction steps) (simp_all add: parse_step_render)
  with s f show ?thesis by (simp add: parse_steps_def)
qed

section \<open>The marker survives rendering\<close>

definition whole_second :: "instant \<Rightarrow> instant" where
  "whole_second t = NANOS_PER_SEC * (t div NANOS_PER_SEC)"

text \<open>What the wire format keeps of a record: whole seconds, and the sanitized detail.\<close>

definition canonical :: "run_record \<Rightarrow> run_record" where
  "canonical r = r\<lparr>rr_slot := whole_second (rr_slot r), rr_started := whole_second (rr_started r),
     rr_ended := map_option whole_second (rr_ended r),
     rr_detail := (case rr_detail r of None \<Rightarrow> None
       | Some d \<Rightarrow> if sanitize_detail d = [] then None else Some (sanitize_detail d))\<rparr>"

definition wf_record :: "(instant \<Rightarrow> bool) \<Rightarrow> run_record \<Rightarrow> bool" where
  "wf_record valid r \<longleftrightarrow>
     valid (rr_slot r) \<and> valid (rr_started r) \<and> pred_option valid (rr_ended r) \<and>
     pred_option (\<lambda>n. n < 2 ^ 64) (rr_issue r) \<and> list_all wf_step (rr_steps r)"

lemma sanitize_detail_chars:
  assumes "c \<in> set (sanitize_detail d)"
  shows "c \<noteq> quote_char \<and> c \<noteq> ch (CHR ''<'') \<and> c \<noteq> ch (CHR ''>'') \<and> \<not> is_control c"
proof -
  have "c \<in> set (take MAX_DETAIL_CHARS (filter (\<lambda>c. \<not> is_control c) (map sanitize_char d)))"
    using assms set_trim unfolding sanitize_detail_def by blast
  then have "c \<in> set (filter (\<lambda>c. \<not> is_control c) (map sanitize_char d))" by (rule in_set_takeD)
  then show ?thesis by (auto simp: sanitize_char_def quote_char_def)
qed

lemma length_trim: "length (trim s) \<le> length s"
  by (metis le_trans length_trim_start prefix_length_le trim_def trim_end_prefix)

lemma sanitize_detail_length: "length (sanitize_detail d) \<le> MAX_DETAIL_CHARS"
  unfolding sanitize_detail_def by (rule order_trans [OF length_trim]) simp

lemmas marker_keys = marker_fields_def Let_def str_simps

lemma marker_fields_keys: "distinct (map fst (marker_fields cod r))"
  by (simp add: marker_keys split: option.splits)

lemma marker_fields_plain: "(k, v) \<in> set (marker_fields cod r) \<Longrightarrow> plain_key k"
  by (auto simp: marker_keys plain_key_def is_whitespace_def split: option.splits if_splits)

lemma marker_field_value:
  "(k, v) \<in> set (marker_fields cod r) \<Longrightarrow>
   v = to_rfc3339 cod (rr_slot r) \<or> v = show_bool (rr_manual r) \<or> v = run_status_as_str (rr_status r) \<or>
   v = to_rfc3339 cod (rr_started r) \<or> (\<exists>t. rr_ended r = Some t \<and> v = to_rfc3339 cod t) \<or>
   (\<exists>n. v = show_nat n) \<or> (\<exists>d. v = sanitize_detail d) \<or> v = render_steps (rr_steps r)"
  by (cases "rr_ended r"; cases "rr_issue r"; cases "rr_detail r")
     (auto simp: marker_fields_def Let_def split: if_splits)

lemma marker_fields_lookup:
  "map_of (marker_fields cod r) (lit ''slot'') = Some (to_rfc3339 cod (rr_slot r))"
  "map_of (marker_fields cod r) (lit ''manual'') = Some (show_bool (rr_manual r))"
  "map_of (marker_fields cod r) (lit ''status'') = Some (run_status_as_str (rr_status r))"
  "map_of (marker_fields cod r) (lit ''started'') = Some (to_rfc3339 cod (rr_started r))"
  "map_of (marker_fields cod r) (lit ''ended'') = map_option (to_rfc3339 cod) (rr_ended r)"
  "map_of (marker_fields cod r) (lit ''issue'') = map_option show_nat (rr_issue r)"
  "map_of (marker_fields cod r) (lit ''detail'') = rr_detail (canonical r)"
  "map_of (marker_fields cod r) (lit ''steps'') =
     (if rr_steps r = [] then None else Some (render_steps (rr_steps r)))"
  by (simp_all add: marker_keys canonical_def split: option.splits)

lemma is_whitespace_space [simp]: "is_whitespace 32"
  by (simp add: is_whitespace_def)

lemma trim_pad: "trimmed s \<Longrightarrow> s \<noteq> [] \<Longrightarrow> trim (32 # s @ [32]) = s"
proof -
  assume s: "trimmed s" "s \<noteq> []"
  have "trim_start (32 # s @ [32]) = s @ [32]"
    using s by (cases s) (simp_all add: trim_start_def trimmed_def)
  moreover have "trim_end (s @ [32]) = trim_end s"
    by (simp add: trim_end_def)
  ultimately show ?thesis using s by (simp add: trim_def trim_end_id trimmed_def)
qed

lemma marker_text_trimmed:
  fixes cod r
  defines "J \<equiv> join (lit '' '') (map render_field (marker_fields cod r))"
  shows "trimmed J" "J \<noteq> []"
proof -
  have ne: "render_field kv \<noteq> []" for kv by (simp add: render_field_def)
  obtain kvs where f: "marker_fields cod r = (lit ''slot'', to_rfc3339 cod (rr_slot r)) # kvs"
    by (simp add: marker_fields_def)
  have "hd J = ch (CHR ''s'')"
    unfolding J_def f by (simp add: hd_join render_field_def str_simps)
  moreover have "last J = quote_char"
  proof -
    have "last J = last (last (map render_field (marker_fields cod r)))"
      unfolding J_def by (rule last_join) (auto simp: f ne ne [symmetric])
    also have "\<dots> = quote_char" by (simp add: last_map f render_field_def)
    finally show ?thesis .
  qed
  ultimately show "trimmed J" by (simp add: trimmed_def is_whitespace_def quote_char_def)
  show "J \<noteq> []" unfolding J_def f by (cases kvs) (simp_all add: ne)
qed

lemma parse_marker_attributes:
  assumes "\<And>k v. (k, v) \<in> set (marker_fields cod r) \<Longrightarrow> quote_char \<notin> set v"
  shows "Option.bind (strip_prefix MARKER_PREFIX (trim (render_marker cod r))) (strip_suffix (lit ''-->'')) =
      Some (32 # join (lit '' '') (map render_field (marker_fields cod r)) @ [32])"
    and "parse_attributes (trim (32 # join (lit '' '') (map render_field (marker_fields cod r)) @ [32])) =
      Inr (bt.insert_all (marker_fields cod r) [])"
proof -
  let ?J = "join (lit '' '') (map render_field (marker_fields cod r))"
  have r: "render_marker cod r = MARKER_PREFIX @ (32 # ?J @ [32]) @ lit ''-->''"
    by (simp add: render_marker_def str_simps)
  have "hd (render_marker cod r) = 60" "last (render_marker cod r) = 62"
    by (simp_all add: render_marker_def MARKER_PREFIX_def str_simps)
  then have t: "trim (render_marker cod r) = render_marker cod r"
    by (intro trim_id) (simp add: trimmed_def is_whitespace_def)
  show "Option.bind (strip_prefix MARKER_PREFIX (trim (render_marker cod r))) (strip_suffix (lit ''-->'')) =
      Some (32 # ?J @ [32])"
    unfolding t unfolding r strip_prefix_append Option.bind_lunit by (rule strip_suffix_append)
  show "parse_attributes (trim (32 # ?J @ [32])) = Inr (bt.insert_all (marker_fields cod r) [])"
    unfolding trim_pad [OF marker_text_trimmed] parse_attributes_def
    using marker_fields_plain marker_fields_keys assms
    by (intro parse_attributes_from_fields) auto
qed

lemma show_bool_roundtrip: "parse_bool (show_bool b) f = Inr b"
  by (cases b) (simp_all add: parse_bool_def show_bool_def str_simps)

text \<open>What the clock relies on of RFC 3339 rendering: it keeps whole seconds and is plain text.\<close>

locale timestamp_codec =
  fixes cod :: codec
    and valid :: "instant \<Rightarrow> bool"
  assumes from_to: "valid t \<Longrightarrow> from_rfc3339 cod (to_rfc3339 cod t) = Some (whole_second t)"
    and plain: "valid t \<Longrightarrow> c \<in> set (to_rfc3339 cod t) \<Longrightarrow> 32 < c \<and> c < 127 \<and> c \<notin> {34, 60, 62}"
begin

lemma field_chars:
  assumes "wf_record valid r" "(k, v) \<in> set (marker_fields cod r)" "c \<in> set v"
  shows "c \<noteq> 34 \<and> c \<noteq> 10"
proof -
  consider t where "valid t" "c \<in> set (to_rfc3339 cod t)" | "c \<in> set (show_bool (rr_manual r))"
    | "c \<in> set (run_status_as_str (rr_status r))" | n where "c \<in> set (show_nat n)"
    | d where "c \<in> set (sanitize_detail d)" | "c \<in> set (render_steps (rr_steps r))"
    using marker_field_value [OF assms(2)] assms(1,3) by (auto simp: wf_record_def)
  then show ?thesis
  proof cases
    case 1
    then show ?thesis using plain by fastforce
  next
    case 2
    then show ?thesis by (auto simp: show_bool_def str_simps split: if_splits)
  next
    case 3
    then show ?thesis by (cases "rr_status r") (auto simp: str_simps)
  next
    case 4
    then show ?thesis using digit_range by fastforce
  next
    case 5
    then show ?thesis using sanitize_detail_chars [OF 5] by (auto simp: quote_char_def is_control_def)
  next
    case 6
    then show ?thesis using assms(1) render_steps_chars [of "rr_steps r" c]
      by (simp add: wf_record_def list_all_iff)
  qed
qed

lemma lookup:
  "bt_get (bt.insert_all (marker_fields cod r) []) k = map_of (marker_fields cod r) k"
  by (subst bt.get_insert_all) (simp_all add: bt_sorted_def marker_fields_keys split: option.splits)

lemma parse_render:
  assumes wf: "wf_record valid r"
  shows "parse_marker cod (render_marker cod r) = Inr (canonical r)"
proof -
  have q: "\<And>k v. (k, v) \<in> set (marker_fields cod r) \<Longrightarrow> quote_char \<notin> set v"
    using field_chars [OF wf] by (auto simp: quote_char_def)
  have ts: "parse_timestamp cod (to_rfc3339 cod t) f = Inr (whole_second t)" if "valid t" for t f
    using from_to [OF that] by (simp add: parse_timestamp_def)
  have ended: "transpose_opt (map_option (\<lambda>v. parse_timestamp cod v f) (map_option (to_rfc3339 cod) (rr_ended r)))
      = Inr (map_option whole_second (rr_ended r))" for f
    using wf ts by (cases "rr_ended r") (simp_all add: wf_record_def)
  have issue: "transpose_opt (map_option (\<lambda>v. ok_or BadIssue (parse_uint 64 v)) (map_option show_nat (rr_issue r)))
      = Inr (rr_issue r)"
    using wf by (cases "rr_issue r") (simp_all add: wf_record_def parse_uint_show_nat)
  have steps: "(case if rr_steps r = [] then None else Some (render_steps (rr_steps r)) of
      None \<Rightarrow> [] | Some v \<Rightarrow> parse_steps v) = rr_steps r"
    using wf parse_steps_render by (simp add: wf_record_def list_all_iff)
  have v: "valid (rr_slot r)" "valid (rr_started r)" using wf by (simp_all add: wf_record_def)
  have body: "Option.bind (strip_prefix MARKER_PREFIX (trim (render_marker cod r))) (strip_suffix (lit ''-->'')) =
      Some (32 # join (lit '' '') (map render_field (marker_fields cod r)) @ [32])"
    by (rule parse_marker_attributes(1)) (rule q)
  have attrs: "parse_attributes (trim (32 # join (lit '' '') (map render_field (marker_fields cod r)) @ [32])) =
      Inr (bt.insert_all (marker_fields cod r) [])"
    by (rule parse_marker_attributes(2)) (rule q)
  show ?thesis
    unfolding parse_marker_def Let_def body ok_or_simps and_then_simps attrs
    by (simp add: required_def lookup marker_fields_lookup ts v show_bool_roundtrip
        run_status_roundtrip ended issue steps) (simp add: canonical_def)
qed

lemma render_one_line:
  assumes "wf_record valid r"
  shows "10 \<notin> set (render_marker cod r)"
proof -
  have f: "10 \<notin> set (render_field kv)" if "kv \<in> set (marker_fields cod r)" for kv
  proof -
    obtain k v where kv: "kv = (k, v)" by (cases kv)
    have "10 \<notin> set v" using field_chars [OF assms] that kv by blast
    moreover have "10 \<notin> set k" using marker_fields_plain that kv
      by (fastforce simp: plain_key_def list_all_iff is_whitespace_def)
    ultimately show ?thesis by (simp add: kv render_field_def quote_char_def)
  qed
  have "10 \<notin> set (join (lit '' '') (map render_field (marker_fields cod r)))"
    using set_join [of "lit '' ''" "map render_field (marker_fields cod r)"] f by (auto simp: str_simps)
  then show ?thesis by (simp add: render_marker_def MARKER_PREFIX_def str_simps)
qed

lemma collect_comment:
  assumes "wf_record valid r" "10 \<notin> set human" "\<not> starts_with MARKER_PREFIX (trim_start (chomp_cr human))"
  shows "collect_records cod [human @ 10 # 10 # render_marker cod r] = [canonical r]"
proof -
  have ne: "render_marker cod r \<noteq> []" by (simp add: render_marker_def MARKER_PREFIX_def str_simps)
  have l: "lines (human @ 10 # 10 # render_marker cod r) = [chomp_cr human, [], render_marker cod r]"
    using lines_append [OF assms(2)] lines_append [of "[]" "render_marker cod r"]
      lines_single [OF ne render_one_line [OF assms(1)]] chomp_cr_id [of "[]"] by simp
  have "hd (render_marker cod r) = 60" by (simp add: render_marker_def MARKER_PREFIX_def str_simps)
  then have "trim_start (render_marker cod r) = render_marker cod r"
    by (intro trim_start_id) (simp add: is_whitespace_def)
  then have "starts_with MARKER_PREFIX (trim_start (render_marker cod r))"
    by (simp add: starts_with_iff_prefix render_marker_def)
  moreover have "\<not> starts_with MARKER_PREFIX (trim_start [])"
    by (simp add: starts_with_iff_prefix MARKER_PREFIX_def str_simps)
  ultimately show ?thesis
    using parse_render [OF assms(1)] assms(3) by (simp add: collect_records_def l del: trim_start_Nil)
qed

end

lemma collect_records_append:
  "collect_records cod (xs @ ys) = collect_records cod xs @ collect_records cod ys"
  by (simp add: collect_records_def)

section \<open>Rendering cannot be subverted\<close>

text \<open>
  A detail is free text of a failing step; what is left of it after sanitizing can neither
  close the attribute nor the HTML comment nor break the line, and its length is bounded.
\<close>

theorem sanitize_detail_safe:
  "list_all (\<lambda>c. c \<noteq> quote_char \<and> c \<noteq> ch (CHR ''<'') \<and> c \<noteq> ch (CHR ''>'') \<and> \<not> is_control c)
     (sanitize_detail detail) \<and>
   length (sanitize_detail detail) \<le> MAX_DETAIL_CHARS \<and> trimmed (sanitize_detail detail)"
proof (intro conjI)
  show "trimmed (sanitize_detail detail)" unfolding sanitize_detail_def by (rule trimmed_trim)
qed (use sanitize_detail_chars sanitize_detail_length in \<open>auto simp only: list_all_iff\<close>)

end
