(* ===== verification/SectionParse.thy ===== *)
theory SectionParse
  imports RustStr
begin

text \<open>
  Splitting an issue body into its \<open>###\<close> sections (\<open>backend/src/goals/section_parse.rs\<close>), shared
  by the trigger grammar and the scheduled-workflow grammar. The regular expression for
  environment names is written out as a predicate on characters.
\<close>

datatype section_error =
    DuplicateHeading str
  | InvalidEnvironmentName str
  | ManyEnvironments

definition MAX_ENV_NAME_LEN :: nat where
  "MAX_ENV_NAME_LEN = 40"

definition env_edge_char :: "uchar \<Rightarrow> bool" where
  "env_edge_char c \<longleftrightarrow> is_ascii_lowercase c \<or> is_ascii_digit c"

text \<open>\<open>[a-z0-9]([a-z0-9-]*[a-z0-9])?\<close>, anchored at both ends.\<close>

definition env_name_regex :: "str \<Rightarrow> bool" where
  "env_name_regex s \<longleftrightarrow>
     (case s of
        [] \<Rightarrow> False
      | c # r \<Rightarrow> env_edge_char c \<and>
          (r = [] \<or> list_all (\<lambda>x. env_edge_char x \<or> x = ch (CHR ''-'')) (butlast r) \<and> env_edge_char (last r)))"

definition is_valid_env_name :: "str \<Rightarrow> bool" where
  "is_valid_env_name name \<longleftrightarrow> byte_len name \<le> MAX_ENV_NAME_LEN \<and> env_name_regex name"

definition non_empty_lines :: "str \<Rightarrow> str list" where
  "non_empty_lines block = filter (\<lambda>line. line \<noteq> []) (map trim (lines block))"

definition parse_environment_name :: "str \<Rightarrow> section_error + str option" where
  "parse_environment_name block =
     (case non_empty_lines block of
        [] \<Rightarrow> Inr None
      | [name] \<Rightarrow> (if is_valid_env_name name then Inr (Some name) else Inl (InvalidEnvironmentName name))
      | _ \<Rightarrow> Inl ManyEnvironments)"

definition is_heading :: "str \<Rightarrow> bool" where
  "is_heading line \<longleftrightarrow>
     starts_with (lit ''### '') (trim_end line) \<and> \<not> starts_with (lit ''#### '') (trim_end line)"

text \<open>
  The loop over the lines, with the finished sections and the section being read. At a heading the
  current section has just been flushed, so only the finished ones can repeat the heading.
\<close>

fun split_sections_from ::
  "str list \<Rightarrow> (str \<times> str) list \<Rightarrow> (str \<times> str) option \<Rightarrow> section_error + (str \<times> str) list" where
  "split_sections_from [] sections current =
     Inr (case current of None \<Rightarrow> sections | Some s \<Rightarrow> sections @ [s])"
| "split_sections_from (line # rest) sections current =
     (if is_heading line then
        (let sections = (case current of None \<Rightarrow> sections | Some s \<Rightarrow> sections @ [s]);
             heading = trim_end line
         in if list_ex (\<lambda>s. fst s = heading) sections then Inl (DuplicateHeading heading)
            else split_sections_from rest sections (Some (heading, [])))
      else case current of
        Some (heading, content) \<Rightarrow>
          split_sections_from rest sections (Some (heading, content @ line @ [10]))
      | None \<Rightarrow> split_sections_from rest sections None)"

definition split_sections :: "str \<Rightarrow> section_error + (str \<times> str) list" where
  "split_sections body = split_sections_from (lines body) [] None"

function strip_html_comments :: "str \<Rightarrow> str" where
  "strip_html_comments rest =
     (case split_at_sub (lit ''<!--'') rest of
        None \<Rightarrow> rest
      | Some (before, after) \<Rightarrow>
          before @ (case split_at_sub (lit ''-->'') after of
                      Some (_, rest') \<Rightarrow> strip_html_comments rest'
                    | None \<Rightarrow> []))"
  by pat_completeness auto
termination
proof (relation "measure length")
  fix rest p before after q c rest'
  assume "split_at_sub (lit ''<!--'') rest = Some p" "(before, after) = p"
    "split_at_sub (lit ''-->'') after = Some q" "(c, rest') = q"
  then show "(rest', rest) \<in> measure length" by (auto dest!: split_at_sub_Some)
qed simp

declare strip_html_comments.simps [simp del]

section \<open>Sections\<close>

lemma trim_end_idem [simp]: "trim_end (trim_end s) = trim_end s"
  using last_trim_end trim_end_id by blast

lemma split_sections_from_headings:
  "split_sections_from ls sections current = Inr out \<Longrightarrow>
   distinct (map fst (sections @ (case current of None \<Rightarrow> [] | Some s \<Rightarrow> [s]))) \<Longrightarrow>
   (\<forall>s \<in> set sections. is_heading (fst s)) \<Longrightarrow> pred_option (\<lambda>s. is_heading (fst s)) current \<Longrightarrow>
   distinct (map fst out) \<and> (\<forall>s \<in> set out. is_heading (fst s))"
proof (induction ls sections current rule: split_sections_from.induct)
  case (1 sections current)
  then show ?case by (cases current) auto
next
  case (2 line rest sections current)
  have h: "is_heading (trim_end line)" if "is_heading line"
    using that by (simp add: is_heading_def)
  show ?case
  proof (cases "is_heading line")
    case True
    let ?s = "case current of None \<Rightarrow> sections | Some s \<Rightarrow> sections @ [s]"
    have r: "split_sections_from rest ?s (Some (trim_end line, [])) = Inr out"
      and n: "\<not> list_ex (\<lambda>s. fst s = trim_end line) ?s"
      using "2.prems"(1) True by (auto simp: Let_def split: if_splits)
    have n': "trim_end line \<notin> fst ` set ?s" using n by (auto simp: list_ex_iff)
    have d: "distinct (map fst ?s)" using "2.prems"(2) by (cases current) auto
    have hs: "\<forall>s \<in> set ?s. is_heading (fst s)" using "2.prems"(3,4) by (cases current) auto
    show ?thesis
      using "2.IH"(1) [OF True refl refl n r] n' d hs h [OF True] by simp
  next
    case False
    show ?thesis
    proof (cases current)
      case None
      then show ?thesis using "2.IH"(2) [OF False None] "2.prems" False by simp
    next
      case (Some hc)
      obtain h c where hc: "current = Some (h, c)" using Some by (cases hc) simp
      show ?thesis using "2.IH"(3) [OF False hc refl] "2.prems" False hc by simp
    qed
  qed
qed

lemma split_sections_distinct:
  "split_sections body = Inr out \<Longrightarrow> distinct (map fst out) \<and> (\<forall>s \<in> set out. is_heading (fst s))"
  unfolding split_sections_def by (drule split_sections_from_headings) simp_all

text \<open>A body written section by section, each content a list of lines.\<close>

definition body_lines :: "(str \<times> str list) list \<Rightarrow> str list" where
  "body_lines secs = concat (map (\<lambda>(h, ls). h # ls) secs)"

definition unlines :: "str list \<Rightarrow> str" where
  "unlines ls = concat (map (\<lambda>l. l @ [10]) ls)"

definition plain_line :: "str \<Rightarrow> bool" where
  "plain_line l \<longleftrightarrow> 10 \<notin> set l \<and> (l = [] \<or> last l \<noteq> 13)"

lemma lines_unlines: "(\<And>l. l \<in> set ls \<Longrightarrow> plain_line l) \<Longrightarrow> lines (unlines ls) = ls"
proof (induction ls)
  case (Cons l ls)
  then have "plain_line l" by simp
  then have "chomp_cr l = l" "10 \<notin> set l" by (simp_all add: plain_line_def chomp_cr_id)
  with Cons show ?case by (simp add: unlines_def lines_append)
qed (simp add: unlines_def)

lemma split_content:
  "(\<And>l. l \<in> set ls \<Longrightarrow> \<not> is_heading l) \<Longrightarrow>
   split_sections_from (ls @ rest) done0 (Some (h, c)) =
     split_sections_from rest done0 (Some (h, c @ unlines ls))"
  by (induction ls arbitrary: c) (simp_all add: unlines_def)

lemma split_body:
  "(\<And>h ls l. (h, ls) \<in> set secs \<Longrightarrow> l \<in> set ls \<Longrightarrow> \<not> is_heading l) \<Longrightarrow>
   (\<And>h ls. (h, ls) \<in> set secs \<Longrightarrow> is_heading h \<and> trim_end h = h) \<Longrightarrow>
   distinct (map fst done0 @ map fst secs) \<Longrightarrow>
   (case cur of None \<Rightarrow> done1 = done0 | Some s \<Rightarrow> done0 = done1 @ [s]) \<Longrightarrow>
   split_sections_from (body_lines secs) done1 cur = Inr (done0 @ map (\<lambda>(h, ls). (h, unlines ls)) secs)"
proof (induction secs arbitrary: done0 done1 cur)
  case Nil
  then show ?case by (cases cur) (simp_all add: body_lines_def)
next
  case (Cons s secs)
  obtain h ls where s: "s = (h, ls)" by (cases s)
  have d: "(case cur of None \<Rightarrow> done1 | Some s \<Rightarrow> done1 @ [s]) = done0"
    using Cons.prems(4) by (cases cur) auto
  have hh: "is_heading h" "trim_end h = h" using Cons.prems(2) [of h ls] s by auto
  have "h \<notin> fst ` set done0" using Cons.prems(3) s by auto
  then have n: "\<not> list_ex (\<lambda>x. fst x = h) done0" by (auto simp: list_ex_iff)
  have "body_lines (s # secs) = h # ls @ body_lines secs" by (simp add: body_lines_def s)
  then have "split_sections_from (body_lines (s # secs)) done1 cur =
      split_sections_from (ls @ body_lines secs) done0 (Some (h, []))"
    using hh n d by (simp add: Let_def)
  also have "\<dots> = split_sections_from (body_lines secs) done0 (Some (h, unlines ls))"
    using Cons.prems(1) s by (subst split_content) auto
  also have "\<dots> = Inr ((done0 @ [(h, unlines ls)]) @ map (\<lambda>(h, ls). (h, unlines ls)) secs)"
  proof (rule Cons.IH)
    show "is_heading ha \<and> trim_end ha = ha" if "(ha, lsa) \<in> set secs" for ha lsa
      using Cons.prems(2) [of ha lsa] that by simp
    show "\<not> is_heading l" if "(ha, lsa) \<in> set secs" "l \<in> set lsa" for ha lsa l
      using Cons.prems(1) [of ha lsa l] that by simp
  qed (use Cons.prems(3) s in auto)
  finally show ?case by (simp add: s)
qed

lemma split_intro:
  "(\<And>l. l \<in> set ls \<Longrightarrow> \<not> is_heading l) \<Longrightarrow>
   split_sections_from (ls @ rest) sections None = split_sections_from rest sections None"
  by (induction ls) simp_all

lemma split_unlines:
  assumes "\<forall>l \<in> set (intro @ body_lines secs). plain_line l" "\<forall>l \<in> set intro. \<not> is_heading l"
    "\<forall>(h, ls) \<in> set secs. is_heading h \<and> trim_end h = h \<and> (\<forall>l \<in> set ls. \<not> is_heading l)"
    "distinct (map fst secs)"
  shows "split_sections (unlines (intro @ body_lines secs)) =
    Inr (map (\<lambda>(h, ls). (h, unlines ls)) secs)"
proof -
  have "lines (unlines (intro @ body_lines secs)) = intro @ body_lines secs"
    using assms(1) by (intro lines_unlines) blast
  then show ?thesis
    using assms(2-4) by (simp add: split_sections_def split_intro)
      (subst split_body [where ?done0.0 = "[]"], auto)
qed

text \<open>
  Splitting a body written section by section, after any introduction, gives the sections
  back: each heading with the text of its lines, and deeper headings stay body text.
\<close>

theorem split_sections_body:
  assumes "\<forall>l \<in> set (intro @ body_lines secs). plain_line l" "\<forall>l \<in> set intro. \<not> is_heading l"
    "\<forall>(h, ls) \<in> set secs. is_heading h \<and> trim_end h = h \<and> (\<forall>l \<in> set ls. \<not> is_heading l)"
    "distinct (map fst secs)"
  shows "split_sections (unlines (intro @ body_lines secs)) =
    Inr (map (\<lambda>(h, ls). (h, unlines ls)) secs)"
  by (rule split_unlines [OF assms])

theorem split_sections_body_witness:
  "split_sections (unlines ([lit ''Hello''] @ body_lines
      [(lit ''### Workflow'', [[], lit ''nightly'']), (lit ''### Run Mode'', [lit ''once'', lit ''#### note''])])) =
    Inr [(lit ''### Workflow'', unlines [[], lit ''nightly'']),
         (lit ''### Run Mode'', unlines [lit ''once'', lit ''#### note''])]"
  using split_sections_body [of "[lit ''Hello'']"
      "[(lit ''### Workflow'', [[], lit ''nightly'']), (lit ''### Run Mode'', [lit ''once'', lit ''#### note''])]"]
  by (simp add: body_lines_def plain_line_def is_heading_def starts_with_def trim_end_def is_whitespace_def
      str_simps)

section \<open>Comments\<close>

lemma strip_no_comment: "\<not> sublist (lit ''<!--'') s \<Longrightarrow> strip_html_comments s = s"
  using split_at_sub_None [of "lit ''<!--''" s] by (subst strip_html_comments.simps) simp

text \<open>
  A comment opened after text free of comment openers is removed up to its first closer; without a
  closer everything from the opener on is removed.
\<close>

lemma split_at_sub_append:
  assumes "\<not> sublist p (a @ butlast p)" "p \<noteq> []"
  shows "split_at_sub p (a @ p @ b) = Some (a, b)"
  using assms(1)
proof (induction a)
  case Nil
  obtain c q where "p = c # q" using assms(2) by (cases p) auto
  then show ?case using strip_prefix_append [of p b] by simp
next
  case (Cons x a)
  have "\<not> prefix p (x # a @ p @ b)"
  proof
    assume pr: "prefix p (x # a @ p @ b)"
    have "x # a @ p @ b = (x # a @ butlast p) @ last p # b" using assms(2) by simp
    moreover have "length p \<le> length (x # a @ butlast p)" using assms(2) by (simp add: Suc_leI)
    ultimately have "prefix p (x # a @ butlast p)" using pr
      by (metis prefix_length_prefix prefixI)
    then show False using Cons.prems by (metis append_Cons prefix_imp_sublist)
  qed
  then have "strip_prefix p (x # a @ p @ b) = None"
    by (metis not_Some_eq prefixI strip_prefix_Some_iff)
  moreover have "\<not> sublist p (a @ butlast p)" using Cons.prems by (simp add: sublist_Cons_right)
  ultimately show ?case using Cons.IH by simp
qed

lemma strip_comment:
  assumes "\<not> sublist (lit ''<!--'') (a @ lit ''<!-'')" "\<not> sublist (lit ''-->'') (c @ lit ''--'')"
  shows "strip_html_comments (a @ lit ''<!--'' @ c @ lit ''-->'' @ rest) = a @ strip_html_comments rest"
proof -
  have o: "split_at_sub (lit ''<!--'') (a @ lit ''<!--'' @ s) = Some (a, s)" for s
    using assms(1) by (intro split_at_sub_append) (simp_all add: str_simps)
  have "split_at_sub (lit ''-->'') (c @ lit ''-->'' @ rest) = Some (c, rest)"
    using assms(2) by (intro split_at_sub_append) (simp_all add: str_simps)
  then show ?thesis by (subst strip_html_comments.simps) (simp add: o)
qed

lemma strip_unterminated:
  assumes "\<not> sublist (lit ''<!--'') (a @ lit ''<!-'')" "\<not> sublist (lit ''-->'') c"
  shows "strip_html_comments (a @ lit ''<!--'' @ c) = a"
proof -
  have "split_at_sub (lit ''<!--'') (a @ lit ''<!--'' @ c) = Some (a, c)"
    using assms(1) by (intro split_at_sub_append) (simp_all add: str_simps)
  then show ?thesis
    using assms(2) split_at_sub_None [of "lit ''-->''" c] by (subst strip_html_comments.simps) simp
qed

section \<open>Environment names\<close>

lemma env_name_chars:
  "env_name_regex s \<longleftrightarrow> s \<noteq> [] \<and> env_edge_char (hd s) \<and> env_edge_char (last s) \<and>
     (\<forall>c \<in> set s. env_edge_char c \<or> c = ch (CHR ''-''))"
proof (cases s)
  case (Cons c r)
  show ?thesis
  proof (cases r rule: rev_cases)
    case (snoc r' x)
    then show ?thesis by (auto simp: Cons env_name_regex_def list_all_iff)
  qed (auto simp: Cons env_name_regex_def)
qed (simp add: env_name_regex_def)

lemma parse_environment_name_valid:
  "parse_environment_name block = Inr (Some name) \<Longrightarrow> is_valid_env_name name"
  by (auto simp: parse_environment_name_def split: list.splits if_splits)

end
