(* ===== verification/ScheduledWorkflow.thy ===== *)
theory ScheduledWorkflow
  imports SectionParse Cron
begin

text \<open>
  The grammar of a scheduled-workflow issue (\<open>backend/src/goals/scheduled_workflow_parse.rs\<close>).
  An error value keeps the heading, the key or the length the message shows; no constructor
  carries an argument value, and the theorems below show what an accepted definition satisfies.
\<close>

section \<open>Data\<close>

datatype run_mode = Once | Cron cron_expr

record scheduled_workflow_spec =
  workflow_id :: str
  run_mode :: run_mode
  arguments :: "(str, str) btree_map"

datatype workflow_error =
    SectionError section_error
  | UnknownSection str
  | MissingSection str
  | EmptySection str
  | ManyLines str
  | BadWorkflowId str
  | BadRunMode str
  | BadCron cron_error
  | NoSeparator
  | BadArgumentKey str
  | EmptyArgument str
  | ArgumentTooLong str nat
  | ArgumentControlChars str
  | CredentialShaped str
  | ArgumentsBudget
  | DuplicateArgument str
  | TooManyArguments

definition HEADING_WORKFLOW :: str where "HEADING_WORKFLOW = lit ''### Workflow''"
definition HEADING_RUN_MODE :: str where "HEADING_RUN_MODE = lit ''### Run Mode''"
definition HEADING_ARGUMENTS :: str where "HEADING_ARGUMENTS = lit ''### Arguments''"
definition CRON_PREFIX :: str where "CRON_PREFIX = lit ''cron:''"
definition ONCE :: str where "ONCE = lit ''once''"

definition MAX_WORKFLOW_ID_BYTES :: nat where "MAX_WORKFLOW_ID_BYTES = 64"
definition MAX_ARGUMENTS :: nat where "MAX_ARGUMENTS = 32"
definition MAX_ARGUMENT_KEY_BYTES :: nat where "MAX_ARGUMENT_KEY_BYTES = 64"
definition MAX_ARGUMENT_VALUE_BYTES :: nat where "MAX_ARGUMENT_VALUE_BYTES = 1024"
definition MAX_ARGUMENTS_SERIALIZED_BYTES :: nat where "MAX_ARGUMENTS_SERIALIZED_BYTES = 16 * 1024"
definition CREDENTIAL_MIN_ENTROPY_LEN :: nat where "CREDENTIAL_MIN_ENTROPY_LEN = 32"

definition CREDENTIAL_PREFIXES :: "str list" where
  "CREDENTIAL_PREFIXES = map lit [''ghp_'', ''gho_'', ''ghu_'', ''ghs_'', ''ghr_'', ''github_pat_'',
     ''nyx_'', ''sk-'', ''xoxb-'', ''xoxp-'', ''AKIA'', ''-----BEGIN'']"

lemmas heading_defs = HEADING_WORKFLOW_def HEADING_RUN_MODE_def HEADING_ARGUMENTS_def

lemmas workflow_limits = MAX_WORKFLOW_ID_BYTES_def MAX_ARGUMENTS_def MAX_ARGUMENT_KEY_BYTES_def
  MAX_ARGUMENT_VALUE_BYTES_def MAX_ARGUMENTS_SERIALIZED_BYTES_def CREDENTIAL_MIN_ENTROPY_LEN_def

section \<open>Parsing\<close>

definition render_run_mode :: "run_mode \<Rightarrow> str" where
  "render_run_mode mode =
     (case mode of Once \<Rightarrow> ONCE | Cron cron \<Rightarrow> lit ''cron: '' @ ce_expression cron)"

fun reject_unknown_sections :: "(str \<times> str) list \<Rightarrow> workflow_error + unit" where
  "reject_unknown_sections [] = Inr ()"
| "reject_unknown_sections ((heading, _) # rest) =
     (if heading = HEADING_WORKFLOW \<or> heading = HEADING_RUN_MODE \<or> heading = HEADING_ARGUMENTS
      then reject_unknown_sections rest else Inl (UnknownSection heading))"

definition single_line :: "(str \<times> str) list \<Rightarrow> str \<Rightarrow> workflow_error + str" where
  "single_line sections heading =
     (case find (\<lambda>s. fst s = heading) sections of
        None \<Rightarrow> Inl (MissingSection heading)
      | Some (_, content) \<Rightarrow>
          (case non_empty_lines (strip_html_comments content) of
             [line] \<Rightarrow> Inr line
           | [] \<Rightarrow> Inl (EmptySection heading)
           | _ \<Rightarrow> Inl (ManyLines heading)))"

definition is_path_safe_id :: "str \<Rightarrow> bool" where
  "is_path_safe_id i \<longleftrightarrow>
     i \<noteq> [] \<and> byte_len i \<le> MAX_WORKFLOW_ID_BYTES \<and> \<not> contains_str (lit ''..'') i \<and>
     list_all (\<lambda>c. is_ascii_alphanumeric c \<or> c = ch (CHR ''.'') \<or> c = ch (CHR ''_'') \<or> c = ch (CHR ''-'')) i \<and>
     is_ascii_alphanumeric (hd i) \<and> is_ascii_alphanumeric (last i)"

definition parse_workflow_id :: "(str \<times> str) list \<Rightarrow> workflow_error + str" where
  "parse_workflow_id sections =
     and_then (single_line sections HEADING_WORKFLOW) (\<lambda>i.
       if \<not> is_path_safe_id i then Inl (BadWorkflowId i) else Inr i)"

text \<open>
  \<open>line.get(..5)\<close> is \<open>None\<close> when the line is shorter than five bytes or byte five is inside a
  character; in both cases the first five characters cannot be the ASCII prefix.
\<close>

definition strip_cron_prefix :: "str \<Rightarrow> str option" where
  "strip_cron_prefix line =
     (let n = length CRON_PREFIX
      in if n \<le> length line \<and> eq_ignore_ascii_case (take n line) CRON_PREFIX
         then Some (trim (drop n line)) else None)"

definition parse_run_mode :: "(str \<times> str) list \<Rightarrow> workflow_error + run_mode" where
  "parse_run_mode sections =
     and_then (single_line sections HEADING_RUN_MODE) (\<lambda>line.
       if eq_ignore_ascii_case line ONCE then Inr Once
       else case strip_cron_prefix line of
         None \<Rightarrow> Inl (BadRunMode line)
       | Some expression \<Rightarrow>
           (case parse_cron expression of Inl e \<Rightarrow> Inl (BadCron e) | Inr c \<Rightarrow> Inr (Cron c)))"

definition is_valid_argument_key :: "str \<Rightarrow> bool" where
  "is_valid_argument_key key \<longleftrightarrow>
     key \<noteq> [] \<and> byte_len key \<le> MAX_ARGUMENT_KEY_BYTES \<and> is_ascii_alphabetic (hd key) \<and>
     list_all (\<lambda>c. is_ascii_alphanumeric c \<or> c = ch (CHR ''_'')) key"

text \<open>On a text of ASCII token characters, the bytes are the characters.\<close>

definition is_high_entropy_token :: "str \<Rightarrow> bool" where
  "is_high_entropy_token v \<longleftrightarrow>
     byte_len v \<ge> CREDENTIAL_MIN_ENTROPY_LEN \<and>
     list_all (\<lambda>c. is_ascii_alphanumeric c \<or> c \<in> {ch (CHR ''+''), ch (CHR ''/''), ch (CHR ''=''),
       ch (CHR ''_''), ch (CHR ''-'')}) v \<and>
     list_ex is_ascii_digit v \<and> list_ex is_ascii_alphabetic v"

definition looks_like_credential :: "str \<Rightarrow> bool" where
  "looks_like_credential v \<longleftrightarrow>
     list_ex (\<lambda>p. starts_with p v) CREDENTIAL_PREFIXES \<or> is_high_entropy_token v"

definition reject_credential_shaped :: "str \<Rightarrow> str \<Rightarrow> workflow_error + unit" where
  "reject_credential_shaped key v =
     (if \<not> looks_like_credential v then Inr () else Inl (CredentialShaped key))"

fun parse_argument_lines ::
  "str list \<Rightarrow> nat \<Rightarrow> (str, str) btree_map \<Rightarrow> workflow_error + (str, str) btree_map" where
  "parse_argument_lines [] serialized args = Inr args"
| "parse_argument_lines (line # rest) serialized args =
     (case split_once (ch (CHR '':'')) line of
        None \<Rightarrow> Inl NoSeparator
      | Some (k, v) \<Rightarrow>
          (let key = trim k; val = trim v
           in if \<not> is_valid_argument_key key then Inl (BadArgumentKey key)
              else if val = [] then Inl (EmptyArgument key)
              else if byte_len val > MAX_ARGUMENT_VALUE_BYTES then Inl (ArgumentTooLong key (byte_len val))
              else if list_ex is_control val then Inl (ArgumentControlChars key)
              else and_then (reject_credential_shaped key val) (\<lambda>_.
                let serialized = serialized + byte_len key + byte_len val
                in if serialized > MAX_ARGUMENTS_SERIALIZED_BYTES then Inl ArgumentsBudget
                   else if bt_get args key \<noteq> None then Inl (DuplicateArgument key)
                   else if length (bt_insert key val args) > MAX_ARGUMENTS then Inl TooManyArguments
                   else parse_argument_lines rest serialized (bt_insert key val args))))"

definition parse_arguments :: "(str \<times> str) list \<Rightarrow> workflow_error + (str, str) btree_map" where
  "parse_arguments sections =
     (case find (\<lambda>s. fst s = HEADING_ARGUMENTS) sections of
        None \<Rightarrow> Inr []
      | Some (_, content) \<Rightarrow>
          parse_argument_lines (non_empty_lines (strip_html_comments content)) 0 [])"

definition parse_scheduled_workflow :: "str \<Rightarrow> workflow_error + scheduled_workflow_spec" where
  "parse_scheduled_workflow body =
     (case split_sections body of
        Inl e \<Rightarrow> Inl (SectionError e)
      | Inr sections \<Rightarrow>
          and_then (reject_unknown_sections sections) (\<lambda>_.
          and_then (parse_workflow_id sections) (\<lambda>i.
          and_then (parse_run_mode sections) (\<lambda>mode.
          and_then (parse_arguments sections) (\<lambda>args.
            Inr \<lparr>workflow_id = i, run_mode = mode, arguments = args\<rparr>)))))"

section \<open>Accepted definitions\<close>

definition wf_argument :: "str \<times> str \<Rightarrow> bool" where
  "wf_argument kv \<longleftrightarrow>
     is_valid_argument_key (fst kv) \<and> snd kv \<noteq> [] \<and> trimmed (snd kv) \<and>
     byte_len (snd kv) \<le> MAX_ARGUMENT_VALUE_BYTES \<and> \<not> list_ex is_control (snd kv) \<and>
     \<not> looks_like_credential (snd kv)"

definition args_bytes :: "(str \<times> str) list \<Rightarrow> nat" where
  "args_bytes kvs = sum_list (map (\<lambda>(k, v). byte_len k + byte_len v) kvs)"

definition wf_arguments :: "(str, str) btree_map \<Rightarrow> bool" where
  "wf_arguments args \<longleftrightarrow>
     bt_sorted args \<and> length args \<le> MAX_ARGUMENTS \<and>
     args_bytes args \<le> MAX_ARGUMENTS_SERIALIZED_BYTES \<and> list_all wf_argument args"

definition wf_spec :: "scheduled_workflow_spec \<Rightarrow> bool" where
  "wf_spec spec \<longleftrightarrow>
     is_path_safe_id (workflow_id spec) \<and>
     (case run_mode spec of Once \<Rightarrow> True | Cron e \<Rightarrow> wf_expr e) \<and> wf_arguments (arguments spec)"

lemma args_bytes_insert:
  "bt_get m k = None \<Longrightarrow> args_bytes (bt_insert k v m) = args_bytes m + byte_len k + byte_len v"
  by (induction k v m rule: bt_insert.induct) (auto simp: args_bytes_def bt_get_def split: if_splits)

lemma parse_argument_lines_wf:
  "parse_argument_lines ls n m = Inr out \<Longrightarrow> args_bytes m = n \<Longrightarrow> wf_arguments m \<Longrightarrow> wf_arguments out"
proof (induction ls n m rule: parse_argument_lines.induct)
  case (2 line rest n m)
  obtain k v where kv: "split_once (ch (CHR '':'')) line = Some (k, v)"
    using "2.prems"(1) by (auto split: option.splits)
  let ?k = "trim k" and ?v = "trim v"
  let ?n = "n + byte_len ?k + byte_len ?v"
  have ok: "is_valid_argument_key ?k" "?v \<noteq> []" "byte_len ?v \<le> MAX_ARGUMENT_VALUE_BYTES"
    "\<not> list_ex is_control ?v" "\<not> looks_like_credential ?v" "?n \<le> MAX_ARGUMENTS_SERIALIZED_BYTES"
    "bt_get m ?k = None" "length (bt_insert ?k ?v m) \<le> MAX_ARGUMENTS"
    "parse_argument_lines rest ?n (bt_insert ?k ?v m) = Inr out"
    using "2.prems"(1) kv
    by (auto simp: Let_def reject_credential_shaped_def split: if_splits)
  have "wf_argument (?k, ?v)" using ok by (simp add: wf_argument_def)
  then have wf: "wf_arguments (bt_insert ?k ?v m)"
    using "2.prems"(2,3) ok set_bt_insert [of ?k ?v m] args_bytes_insert [OF ok(7), of ?v]
    by (auto simp: wf_arguments_def bt_sorted_insert list_all_iff)
  show ?case
    using "2.IH" [OF kv refl refl refl] ok wf "2.prems"(2) args_bytes_insert [OF ok(7), of ?v]
    by (simp add: reject_credential_shaped_def)
qed simp

lemma path_safe_chars:
  assumes "is_path_safe_id i" "c \<in> set i"
  shows "is_ascii_alphanumeric c \<or> c = 46 \<or> c = 95 \<or> c = 45"
  using assms by (auto simp: is_path_safe_id_def list_all_iff)

section \<open>Writing a definition\<close>

lemma split_whitespace_join:
  assumes "\<And>w. w \<in> set ws \<Longrightarrow> w \<noteq> [] \<and> (\<forall>c \<in> set w. \<not> is_whitespace c)"
  shows "split_whitespace (join (lit '' '') ws) = ws"
proof (cases "ws = []")
  case False
  then have "split_pred is_whitespace (join (lit '' '') ws) = ws"
    using assms
  proof (induction "lit '' ''" ws rule: join.induct)
    case (2 w)
    then show ?case by (simp add: split_pred_no_sep)
  next
    case (3 w w' ws)
    have "split_pred is_whitespace (w @ 32 # join (lit '' '') (w' # ws)) =
        w # split_pred is_whitespace (join (lit '' '') (w' # ws))"
      using 3(3) [of w] by (intro split_pred_append) (auto simp: is_whitespace_def)
    moreover have "split_pred is_whitespace (join (lit '' '') (w' # ws)) = w' # ws"
      by (rule 3(1)) (use 3(3) in auto)
    ultimately show ?case by (simp add: str_simps)
  qed simp
  then show ?thesis using assms by (simp add: split_whitespace_def filter_id_conv)
qed (simp add: split_whitespace_def)

lemma parse_cron_reparse: "parse_cron s = Inr e \<Longrightarrow> parse_cron (ce_expression e) = Inr e"
proof -
  assume p: "parse_cron s = Inr e"
  then have e: "ce_expression e = join (lit '' '') (split_whitespace s)"
    by (auto simp: parse_cron_def Let_def res_simps split: if_splits)
  have "split_whitespace (ce_expression e) = split_whitespace s"
    unfolding e by (rule split_whitespace_join) (rule split_whitespace_word)
  then show ?thesis using p by (auto simp: parse_cron_def Let_def split: if_splits)
qed

definition argument_line :: "str \<times> str \<Rightarrow> str" where
  "argument_line kv = fst kv @ lit '': '' @ snd kv"

definition definition_sections :: "scheduled_workflow_spec \<Rightarrow> (str \<times> str list) list" where
  "definition_sections spec =
     [(HEADING_WORKFLOW, [[], workflow_id spec]),
      (HEADING_RUN_MODE, [[], render_run_mode (run_mode spec)]),
      (HEADING_ARGUMENTS, [] # map argument_line (arguments spec))]"

definition definition_body :: "scheduled_workflow_spec \<Rightarrow> str" where
  "definition_body spec = unlines (body_lines (definition_sections spec))"

text \<open>A definition that can be written down: no value opens an HTML comment.\<close>

definition writable :: "scheduled_workflow_spec \<Rightarrow> bool" where
  "writable spec \<longleftrightarrow>
     wf_spec spec \<and>
     (case run_mode spec of Once \<Rightarrow> True
      | Cron e \<Rightarrow> parse_cron (ce_expression e) = Inr e \<and> ch (CHR ''<'') \<notin> set (ce_expression e)) \<and>
     list_all (\<lambda>kv. ch (CHR ''<'') \<notin> set (snd kv)) (arguments spec)"

lemma bt_insert_last: "bt_sorted (m @ [(k, v)]) \<Longrightarrow> bt_insert k v m = m @ [(k, v)]"
  by (induction m) (auto simp: bt_sorted_def sorted_wrt_append)

lemma bt_get_fresh: "bt_sorted (m @ (k, v) # m') \<Longrightarrow> bt_get m k = None"
  by (auto simp: bt_sorted_def bt_get_def map_of_eq_None_iff sorted_wrt_append)

lemma argument_key_char:
  "is_valid_argument_key k \<Longrightarrow> c \<in> set k \<Longrightarrow> \<not> is_whitespace c \<and> c \<noteq> 58 \<and> c \<noteq> 60 \<and> c < 128"
  by (auto simp: is_valid_argument_key_def list_all_iff char_class_defs is_whitespace_def)

lemma trim_no_whitespace: "(\<And>c. c \<in> set s \<Longrightarrow> \<not> is_whitespace c) \<Longrightarrow> trim s = s"
  by (rule trim_id) (auto simp: trimmed_def)

lemma trim_space: "trimmed s \<Longrightarrow> trim (32 # s) = s"
proof -
  assume "trimmed s"
  moreover have "trim (32 # s) = trim s" by (simp add: trim_def trim_start_def is_whitespace_def)
  ultimately show ?thesis by (simp add: trim_id)
qed

lemma parse_argument_line:
  assumes "wf_argument (k, v)"
  shows "split_once (ch (CHR '':'')) (argument_line (k, v)) = Some (k, 32 # v)" "trim k = k" "trim (32 # v) = v"
proof -
  have k: "is_valid_argument_key k" and v: "trimmed v" using assms by (simp_all add: wf_argument_def)
  have "argument_line (k, v) = k @ 58 # 32 # v" by (simp add: argument_line_def str_simps)
  moreover have "58 \<notin> set k" using argument_key_char [OF k] by blast
  ultimately show "split_once (ch (CHR '':'')) (argument_line (k, v)) = Some (k, 32 # v)" by simp
  show "trim k = k" using argument_key_char [OF k] by (intro trim_no_whitespace) blast
  show "trim (32 # v) = v" using v by (rule trim_space)
qed

lemma parse_argument_lines_render:
  "wf_arguments (m @ kvs) \<Longrightarrow>
   parse_argument_lines (map argument_line kvs) (args_bytes m) m = Inr (m @ kvs)"
proof (induction kvs arbitrary: m)
  case (Cons kv kvs)
  obtain k v where kv: "kv = (k, v)" by (cases kv)
  have wf: "wf_argument (k, v)" using Cons.prems by (simp add: wf_arguments_def kv)
  have sorted: "bt_sorted (m @ (k, v) # kvs)" using Cons.prems by (simp add: wf_arguments_def kv)
  have "bt_sorted (m @ [(k, v)])" using sorted by (auto simp: bt_sorted_def sorted_wrt_append)
  then have ins: "bt_insert k v m = m @ [(k, v)]" by (rule bt_insert_last)
  have lim: "args_bytes m + byte_len k + byte_len v \<le> MAX_ARGUMENTS_SERIALIZED_BYTES"
    "length (m @ [(k, v)]) \<le> MAX_ARGUMENTS"
    using Cons.prems by (simp_all add: wf_arguments_def kv args_bytes_def)
  have "parse_argument_lines (map argument_line kvs) (args_bytes (m @ [(k, v)])) (m @ [(k, v)]) =
      Inr (m @ (k, v) # kvs)"
    using Cons.IH [of "m @ [(k, v)]"] Cons.prems by (simp add: kv)
  then show ?case
    using wf lim parse_argument_line [OF wf] bt_get_fresh [OF sorted]
    by (simp add: kv ins wf_argument_def reject_credential_shaped_def Let_def args_bytes_def add.assoc)
qed simp

lemma content_lines:
  assumes "\<And>l. l \<in> set ls \<Longrightarrow> plain_line l" "\<And>l. l \<in> set ls \<Longrightarrow> ch (CHR ''<'') \<notin> set l"
  shows "non_empty_lines (strip_html_comments (unlines ls)) = filter (\<lambda>l. l \<noteq> []) (map trim ls)"
proof -
  have "60 \<notin> set (unlines ls)" using assms(2) by (auto simp: unlines_def)
  then have "\<not> sublist (lit ''<!--'') (unlines ls)"
    by (auto simp: str_simps dest: set_mono_sublist)
  then show ?thesis using lines_unlines [OF assms(1)] by (simp add: strip_no_comment non_empty_lines_def)
qed

lemma cron_expression_plain:
  assumes "parse_cron (ce_expression e) = Inr e"
  shows "trimmed (ce_expression e)" "c \<in> set (ce_expression e) \<Longrightarrow> c = 32 \<or> \<not> is_whitespace c"
    "ce_expression e \<noteq> []"
proof -
  let ?ws = "split_whitespace (ce_expression e)"
  have e: "ce_expression e = join (lit '' '') ?ws"
    using assms by (auto simp: parse_cron_def Let_def res_simps dest!: arg_cong [of _ _ ce_expression] split: if_splits)
  have "length ?ws = 5" using assms by (auto simp: parse_cron_def Let_def split: if_splits)
  then obtain w0 ws where ws: "?ws = w0 # ws" by (cases ?ws) auto
  have word: "w \<noteq> [] \<and> (\<forall>c \<in> set w. \<not> is_whitespace c)" if "w \<in> set ?ws" for w
    using that by (rule split_whitespace_word)
  have "last (ce_expression e) = last (last ?ws)"
    by (subst e) (rule last_join, use ws word in auto)
  moreover have "hd (ce_expression e) = hd w0" by (subst e) (use ws word hd_join in fastforce)
  moreover have "last ?ws \<in> set ?ws" "w0 \<in> set ?ws" using ws by auto
  ultimately show "trimmed (ce_expression e)" using word by (simp add: trimmed_def)
  show "ce_expression e \<noteq> []"
    using \<open>length ?ws = 5\<close> by (auto simp: split_whitespace_def)
  show "c = 32 \<or> \<not> is_whitespace c" if "c \<in> set (ce_expression e)"
    using that set_join [of "lit '' ''" ?ws] word e by (auto simp: str_simps)
qed

definition text_line :: "str \<Rightarrow> bool" where
  "text_line l \<longleftrightarrow> plain_line l \<and> ch (CHR ''<'') \<notin> set l \<and> \<not> is_heading l"

lemma text_lineI:
  assumes "\<And>c. c \<in> set l \<Longrightarrow> c \<noteq> 10 \<and> c \<noteq> 13 \<and> c \<noteq> 60" "l = [] \<or> hd l \<noteq> 35"
  shows "text_line l"
proof -
  have "\<not> is_heading l"
  proof
    assume "is_heading l"
    then have "prefix (lit ''### '') (trim_end l)" by (simp add: is_heading_def starts_with_iff_prefix)
    then have "prefix (lit ''### '') l" using trim_end_prefix prefix_order.trans by blast
    then show False using assms(2) by (auto simp: str_simps prefix_def)
  qed
  moreover have "plain_line l" using assms(1) by (cases l rule: rev_cases) (auto simp: plain_line_def)
  ultimately show ?thesis using assms(1) by (auto simp: text_line_def)
qed

lemma single_line_of:
  assumes "map_of secs h = Some (unlines [[], l])" "text_line l" "trim l = l" "l \<noteq> []"
  shows "single_line secs h = Inr l"
proof -
  have p: "plain_line x \<and> ch (CHR ''<'') \<notin> set x" if "x \<in> set [[], l]" for x
    using that assms(2) by (auto simp: text_line_def plain_line_def)
  have f: "find (\<lambda>s. fst s = h) secs = Some (h, unlines [[], l])"
    using assms(1) by (induction secs) (auto split: if_splits)
  have "non_empty_lines (strip_html_comments (unlines [[], l])) = [l]"
    using p assms(3,4) by (subst content_lines) auto
  then show ?thesis by (simp add: single_line_def f)
qed

lemma workflow_id_line:
  assumes "is_path_safe_id i"
  shows "text_line i" "trim i = i" "i \<noteq> []"
proof -
  note c = path_safe_chars [OF assms]
  show ne: "i \<noteq> []" using assms by (simp add: is_path_safe_id_def)
  have "c \<noteq> 10 \<and> c \<noteq> 13 \<and> c \<noteq> 60 \<and> c \<noteq> 35 \<and> \<not> is_whitespace c" if "c \<in> set i" for c
    using c [OF that] by (auto simp: char_class_defs)
  then show "text_line i" "trim i = i" using ne by (auto intro!: text_lineI trim_no_whitespace)
qed

lemma run_mode_line:
  assumes "case mode of Once \<Rightarrow> True
      | Cron e \<Rightarrow> parse_cron (ce_expression e) = Inr e \<and> ch (CHR ''<'') \<notin> set (ce_expression e)"
  defines "l \<equiv> render_run_mode mode"
  shows "text_line l \<and> trim l = l \<and> l \<noteq> [] \<and>
    (single_line secs HEADING_RUN_MODE = Inr l \<longrightarrow> parse_run_mode secs = Inr mode)"
proof (cases mode)
  case Once
  have l: "l = lit ''once''" by (simp add: l_def render_run_mode_def Once ONCE_def)
  have "text_line l" unfolding l by (rule text_lineI) (auto simp: str_simps)
  moreover have "trim l = l" unfolding l by (rule trim_no_whitespace) (auto simp: str_simps is_whitespace_def)
  ultimately show ?thesis
    by (simp add: parse_run_mode_def Once ONCE_def l str_simps)
next
  case (Cron e)
  have e: "parse_cron (ce_expression e) = Inr e" "60 \<notin> set (ce_expression e)" using assms(1) Cron by auto
  note ex = cron_expression_plain [OF e(1)]
  have l: "l = lit ''cron:'' @ 32 # ce_expression e"
    by (simp add: l_def render_run_mode_def Cron str_simps)
  have "c \<noteq> 10 \<and> c \<noteq> 13 \<and> c \<noteq> 60" if "c \<in> set l" for c
    using that ex(2) [of c] e(2) by (auto simp: l str_simps is_whitespace_def)
  moreover have "hd l \<noteq> 35" by (simp add: l str_simps)
  ultimately have "text_line l" by (intro text_lineI) auto
  moreover have "trimmed l"
    using ex(1,3) by (simp add: trimmed_def l str_simps is_whitespace_def [of 99])
  moreover have "strip_cron_prefix l = Some (ce_expression e)"
    using trim_space [OF ex(1)] by (simp add: strip_cron_prefix_def CRON_PREFIX_def l)
  moreover have "\<not> eq_ignore_ascii_case l ONCE"
    by (simp add: eq_ignore_ascii_case_def to_ascii_lowercase_def ascii_lower_def l ONCE_def str_simps
        is_ascii_uppercase_def)
  ultimately show ?thesis
    using e(1) by (simp add: parse_run_mode_def Cron trim_id l)
qed

lemma argument_text_line:
  assumes "wf_argument kv" "ch (CHR ''<'') \<notin> set (snd kv)"
  shows "text_line (argument_line kv)" "trim (argument_line kv) = argument_line kv" "argument_line kv \<noteq> []"
proof -
  obtain k v where kv: "kv = (k, v)" by (cases kv)
  have k: "is_valid_argument_key k" and v: "trimmed v" "v \<noteq> []" "\<not> list_ex is_control v"
    using assms(1) by (simp_all add: wf_argument_def kv)
  have kc: "\<not> is_whitespace c \<and> c \<noteq> 58 \<and> c \<noteq> 60 \<and> c < 128" if "c \<in> set k" for c
    using argument_key_char [OF k that] .
  have ne: "k \<noteq> []" "is_ascii_alphabetic (hd k)" using k by (simp_all add: is_valid_argument_key_def)
  have l: "argument_line kv = k @ 58 # 32 # v" by (simp add: argument_line_def kv str_simps)
  have vc: "c \<noteq> 10 \<and> c \<noteq> 13" if "c \<in> set v" for c
    using that v(3) by (auto simp: list_ex_iff is_control_def)
  have "c \<noteq> 10 \<and> c \<noteq> 13 \<and> c \<noteq> 60" if "c \<in> set (argument_line kv)" for c
    using that vc [of c] kc [of c] assms(2) unfolding l by (auto simp: kv is_whitespace_def)
  moreover have "hd (argument_line kv) \<noteq> 35" using ne by (auto simp: l char_class_defs)
  ultimately show "text_line (argument_line kv)" by (intro text_lineI) auto
  have "trimmed (argument_line kv)" using kc [of "hd k"] v ne by (simp add: trimmed_def l)
  then show "trim (argument_line kv) = argument_line kv" by (rule trim_id)
  show "argument_line kv \<noteq> []" by (simp add: l)
qed

lemma find_map_of: "map_of secs h = Some c \<Longrightarrow> find (\<lambda>s. fst s = h) secs = Some (h, c)"
  by (induction secs) (auto split: if_splits)

lemma parse_arguments_render:
  assumes "wf_arguments args" "list_all (\<lambda>kv. ch (CHR ''<'') \<notin> set (snd kv)) args"
    "map_of secs HEADING_ARGUMENTS = Some (unlines ([] # map argument_line args))"
  shows "parse_arguments secs = Inr args"
proof -
  have line: "text_line (argument_line kv) \<and> trim (argument_line kv) = argument_line kv \<and> argument_line kv \<noteq> []"
    if "kv \<in> set args" for kv
    using that assms(1,2) argument_text_line [of kv] by (auto simp: wf_arguments_def list_all_iff)
  have "non_empty_lines (strip_html_comments (unlines ([] # map argument_line args))) =
      filter (\<lambda>l. l \<noteq> []) (map trim ([] # map argument_line args))"
    using line by (intro content_lines) (auto simp: text_line_def plain_line_def)
  also have "\<dots> = map argument_line args" using line by (induction args) auto
  finally show ?thesis
    using parse_argument_lines_render [of "[]" args] assms(1) find_map_of [OF assms(3)]
    by (simp add: parse_arguments_def args_bytes_def)
qed

lemma split_definition_body:
  assumes "writable spec"
  shows "split_sections (definition_body spec) =
    Inr [(HEADING_WORKFLOW, unlines [[], workflow_id spec]),
         (HEADING_RUN_MODE, unlines [[], render_run_mode (run_mode spec)]),
         (HEADING_ARGUMENTS, unlines ([] # map argument_line (arguments spec)))]"
proof -
  have w: "is_path_safe_id (workflow_id spec)" "wf_arguments (arguments spec)"
    using assms by (simp_all add: writable_def wf_spec_def)
  have tl: "text_line (workflow_id spec)" "text_line (render_run_mode (run_mode spec))"
    using workflow_id_line [OF w(1)] run_mode_line [of "run_mode spec"] assms by (auto simp: writable_def)
  have ta: "text_line (argument_line kv)" if "kv \<in> set (arguments spec)" for kv
    using that w(2) assms argument_text_line [of kv] by (auto simp: wf_arguments_def writable_def list_all_iff)
  have e: "text_line []" by (rule text_lineI) auto
  have all: "text_line l" if "(h, ls) \<in> set (definition_sections spec)" "l \<in> set ls" for h ls l
    using that tl ta e by (auto simp: definition_sections_def)
  have hd: "is_heading h \<and> trim_end h = h \<and> plain_line h" if "(h, ls) \<in> set (definition_sections spec)" for h ls
    using that by (auto simp: definition_sections_def heading_defs is_heading_def starts_with_def trim_end_def
        is_whitespace_def plain_line_def str_simps)
  have "split_sections (unlines ([] @ body_lines (definition_sections spec))) =
      Inr (map (\<lambda>(h, ls). (h, unlines ls)) (definition_sections spec))"
  proof (rule split_unlines)
    show "\<forall>l \<in> set ([] @ body_lines (definition_sections spec)). plain_line l"
      using all hd by (fastforce simp: body_lines_def text_line_def)
    show "\<forall>(h, ls) \<in> set (definition_sections spec).
        is_heading h \<and> trim_end h = h \<and> (\<forall>l \<in> set ls. \<not> is_heading l)"
      using all hd by (fastforce simp: text_line_def)
    show "distinct (map fst (definition_sections spec))"
      by (simp add: definition_sections_def heading_defs str_simps)
  qed simp
  then show ?thesis by (simp add: definition_body_def definition_sections_def)
qed

lemma parse_definition_body:
  assumes "writable spec"
  shows "parse_scheduled_workflow (definition_body spec) = Inr spec"
proof -
  let ?secs = "[(HEADING_WORKFLOW, unlines [[], workflow_id spec]),
    (HEADING_RUN_MODE, unlines [[], render_run_mode (run_mode spec)]),
    (HEADING_ARGUMENTS, unlines ([] # map argument_line (arguments spec)))]"
  have w: "is_path_safe_id (workflow_id spec)" "wf_arguments (arguments spec)"
    using assms by (simp_all add: writable_def wf_spec_def)
  have ne: "HEADING_RUN_MODE \<noteq> HEADING_WORKFLOW" "HEADING_ARGUMENTS \<noteq> HEADING_WORKFLOW"
    "HEADING_ARGUMENTS \<noteq> HEADING_RUN_MODE" by (simp_all add: heading_defs str_simps)
  have m: "map_of ?secs HEADING_WORKFLOW = Some (unlines [[], workflow_id spec])"
    "map_of ?secs HEADING_RUN_MODE = Some (unlines [[], render_run_mode (run_mode spec)])"
    "map_of ?secs HEADING_ARGUMENTS = Some (unlines ([] # map argument_line (arguments spec)))"
    using ne by simp_all
  have "parse_workflow_id ?secs = Inr (workflow_id spec)"
    unfolding parse_workflow_id_def using single_line_of [OF m(1) workflow_id_line [OF w(1)]] w(1)
    by (simp del: map_of.simps)
  moreover have "parse_run_mode ?secs = Inr (run_mode spec)"
    using run_mode_line [of "run_mode spec" ?secs] single_line_of [OF m(2)] assms by (simp add: writable_def)
  moreover have "parse_arguments ?secs = Inr (arguments spec)"
    using parse_arguments_render [OF w(2) _ m(3)] assms by (simp add: writable_def)
  ultimately show ?thesis
    using split_definition_body [OF assms] by (simp add: parse_scheduled_workflow_def)
qed

definition sample_spec :: scheduled_workflow_spec where
  "sample_spec = \<lparr>workflow_id = lit ''nightly-build'', run_mode = Once,
     arguments = [(lit ''branch'', lit ''main''), (lit ''note'', lit ''run: all'')]\<rparr>"

lemma sample_spec_writable: "writable sample_spec"
proof -
  have "is_path_safe_id (lit ''nightly-build'')"
    by (simp add: is_path_safe_id_def contains_str_def byte_len_def utf8_width_def workflow_limits char_class_defs str_simps)
  moreover have "wf_argument (lit ''branch'', lit ''main'')" "wf_argument (lit ''note'', lit ''run: all'')"
    by (simp_all add: wf_argument_def is_valid_argument_key_def trimmed_def byte_len_def utf8_width_def
        workflow_limits char_class_defs is_whitespace_def is_control_def looks_like_credential_def
        CREDENTIAL_PREFIXES_def starts_with_def is_high_entropy_token_def str_simps)
  moreover have "lit ''branch'' < lit ''note''" by (simp add: str_simps)
  ultimately show ?thesis
    by (simp add: writable_def wf_spec_def sample_spec_def wf_arguments_def bt_sorted_def args_bytes_def
        workflow_limits byte_len_def utf8_width_def str_simps)
qed

text \<open>
  A definition written in the documented form is read back exactly: the workflow id, the
  cadence as \<open>RunMode::render\<close> prints it, and every argument.
\<close>

theorem parse_scheduled_workflow_body:
  assumes "writable spec"
  shows "parse_scheduled_workflow (definition_body spec) = Inr spec"
  by (rule parse_definition_body [OF assms])

theorem parse_scheduled_workflow_body_witness:
  "writable sample_spec \<and> parse_scheduled_workflow (definition_body sample_spec) = Inr sample_spec"
  using parse_scheduled_workflow_body [OF sample_spec_writable] sample_spec_writable by simp

text \<open>
  An accepted definition names a path-safe workflow id, a well-formed cadence, and arguments
  within every documented limit, none of them credential-shaped and none with control characters.
\<close>

theorem parse_scheduled_workflow_wf:
  assumes "parse_scheduled_workflow body = Inr spec"
  shows "wf_spec spec"
proof -
  obtain secs where s: "parse_workflow_id secs = Inr (workflow_id spec)"
    "parse_run_mode secs = Inr (run_mode spec)" "parse_arguments secs = Inr (arguments spec)"
    using assms by (auto simp: parse_scheduled_workflow_def res_simps split: sum.splits)
  have "is_path_safe_id (workflow_id spec)"
    using s(1) by (auto simp: parse_workflow_id_def res_simps split: if_splits)
  moreover have "case run_mode spec of Once \<Rightarrow> True | Cron e \<Rightarrow> wf_expr e"
    using s(2) by (cases "run_mode spec")
      (auto simp: parse_run_mode_def res_simps split: if_splits option.splits sum.splits intro: parse_cron_wf)
  moreover have "wf_arguments (arguments spec)"
  proof -
    have e: "wf_arguments []"
      by (simp add: wf_arguments_def bt_sorted_def args_bytes_def)
    show ?thesis
      using s(3) e parse_argument_lines_wf [of _ 0 "[]"]
      by (auto simp: parse_arguments_def args_bytes_def split: option.splits)
  qed
  ultimately show ?thesis by (simp add: wf_spec_def)
qed

theorem parse_scheduled_workflow_wf_witness:
  "parse_scheduled_workflow (definition_body sample_spec) = Inr sample_spec \<and> wf_spec sample_spec"
  using parse_scheduled_workflow_wf [OF parse_definition_body [OF sample_spec_writable]]
    parse_definition_body [OF sample_spec_writable] by simp

end
