(* ===== verification/Decision.thy ===== *)
theory Decision
  imports Gregorian RunMarker ScheduledWorkflow
begin

text \<open>
  The pure clock (\<open>backend/src/schedule/decision.rs\<close>): from the state of one scheduled workflow,
  the single thing to do about it now.
\<close>

record open_dispatch =
  od_slot :: instant
  od_started :: instant

record schedule_state =
  anchor :: instant
  cursor :: "instant option"
  running_label :: bool
  ss_open_dispatch :: "open_dispatch option"
  latest_terminal :: "(instant \<times> run_status) option"
  paused :: bool

datatype schedule_action =
    Nothing
  | Dispatch instant nat
  | SkipOverlap instant
  | Expire instant instant
  | Complete instant run_status
  | ReleaseRunning
  | AdoptRunning instant

definition MAX_COUNTED_SKIPS :: nat where
  "MAX_COUNTED_SKIPS = 64"

definition terminal_slots :: "run_record list \<Rightarrow> instant list" where
  "terminal_slots records = map rr_slot (filter (\<lambda>r. is_terminal (rr_status r)) records)"

definition open_dispatch_of :: "run_record list \<Rightarrow> run_record option" where
  "open_dispatch_of records =
     max_by_key rr_slot
       (filter (\<lambda>r. rr_slot r \<notin> set (terminal_slots records))
         (filter (\<lambda>r. rr_status r = Dispatched) records))"

definition floor_of :: "schedule_state \<Rightarrow> instant" where
  "floor_of st = (case cursor st of Some c \<Rightarrow> c | None \<Rightarrow> anchor st)"

definition due_slot :: "calendar \<Rightarrow> run_mode \<Rightarrow> schedule_state \<Rightarrow> instant \<Rightarrow> instant option" where
  "due_slot cal mode st now =
     (case mode of
        Once \<Rightarrow> (if cursor st = None \<and> now \<ge> anchor st then Some (anchor st) else None)
      | Cron cron \<Rightarrow>
          (case previous_or_equal cal cron now of
             Some slot \<Rightarrow> (if slot > floor_of st then Some slot else None)
           | None \<Rightarrow> None))"

text \<open>The counting loop: \<open>skipped\<close> so far, and how many more iterations its guard allows.\<close>

fun count_loop :: "(instant \<Rightarrow> 'err + instant) \<Rightarrow> instant \<Rightarrow> instant \<Rightarrow> nat \<Rightarrow> nat \<Rightarrow> nat" where
  "count_loop nxt slot cur skipped 0 = skipped"
| "count_loop nxt slot cur skipped (Suc left) =
     (case nxt cur of
        Inr n \<Rightarrow> (if n < slot then count_loop nxt slot n (Suc skipped) left else skipped)
      | Inl _ \<Rightarrow> skipped)"

definition count_skipped :: "calendar \<Rightarrow> run_mode \<Rightarrow> schedule_state \<Rightarrow> instant \<Rightarrow> nat" where
  "count_skipped cal mode st slot =
     (case mode of
        Once \<Rightarrow> 0
      | Cron cron \<Rightarrow> count_loop (next_after cal cron) slot (floor_of st) 0 MAX_COUNTED_SKIPS)"

definition decide :: "calendar \<Rightarrow> run_mode \<Rightarrow> schedule_state \<Rightarrow> instant \<Rightarrow> int \<Rightarrow> schedule_action" where
  "decide cal mode st now timeout =
     (case (running_label st, ss_open_dispatch st) of
        (True, Some opn) \<Rightarrow>
          (if now - od_started opn \<ge> timeout then Expire (od_slot opn) (od_started opn)
           else case due_slot cal mode st now of
             Some slot \<Rightarrow> SkipOverlap slot
           | None \<Rightarrow> Nothing)
      | (True, None) \<Rightarrow>
          (case latest_terminal st of
             Some (slot, status) \<Rightarrow> Complete slot status
           | None \<Rightarrow> ReleaseRunning)
      | (False, Some opn) \<Rightarrow> AdoptRunning (od_slot opn)
      | (False, None) \<Rightarrow>
          (if paused st then Nothing
           else case due_slot cal mode st now of
             Some slot \<Rightarrow> Dispatch slot (count_skipped cal mode st slot)
           | None \<Rightarrow> Nothing))"

section \<open>The open dispatch\<close>

lemma terminal_slots_iff:
  "s \<in> set (terminal_slots records) \<longleftrightarrow> (\<exists>r \<in> set records. is_terminal (rr_status r) \<and> rr_slot r = s)"
  by (auto simp: terminal_slots_def)

definition open_record :: "run_record list \<Rightarrow> run_record \<Rightarrow> bool" where
  "open_record records r \<longleftrightarrow>
     r \<in> set records \<and> rr_status r = Dispatched \<and> rr_slot r \<notin> set (terminal_slots records)"

lemma open_dispatch_None: "open_dispatch_of records = None \<longleftrightarrow> (\<forall>r. \<not> open_record records r)"
  by (auto simp: open_dispatch_of_def open_record_def filter_empty_conv)

lemma open_dispatch_Some:
  "open_dispatch_of records = Some r \<Longrightarrow>
   open_record records r \<and> (\<forall>r'. open_record records r' \<longrightarrow> rr_slot r' \<le> rr_slot r)"
  unfolding open_dispatch_of_def open_record_def
  using max_by_key_mem [of rr_slot "filter (\<lambda>r. rr_slot r \<notin> set (terminal_slots records))
      (filter (\<lambda>r. rr_status r = Dispatched) records)" r]
    max_by_key_ge [of rr_slot "filter (\<lambda>r. rr_slot r \<notin> set (terminal_slots records))
      (filter (\<lambda>r. rr_status r = Dispatched) records)" r]
  by auto

section \<open>Counting the slots passed over\<close>

text \<open>
  A recurrence whose search also succeeds whenever a later occurrence exists: the stronger contract
  under which the reported number of missed slots is exact.
\<close>

locale total_recurrence = recurrence in_range occurs next_occ prev_occ
  for in_range :: "instant \<Rightarrow> bool"
    and occurs :: "'e \<Rightarrow> instant \<Rightarrow> bool"
    and next_occ :: "'e \<Rightarrow> instant \<Rightarrow> 'err + instant"
    and prev_occ :: "'e \<Rightarrow> instant \<Rightarrow> instant option" +
  fixes in_window :: "instant \<Rightarrow> bool"
  assumes window_range: "in_window t \<Longrightarrow> in_range t"
    and next_total: "in_window t \<Longrightarrow> occurs e u \<Longrightarrow> \<exists>s. next_occ e t = Inr s"
    and window_down: "in_window t \<Longrightarrow> in_range u \<Longrightarrow> u \<le> t \<Longrightarrow> in_window u"
begin

lemma finite_between: "finite {u. occurs e u \<and> (c :: instant) < u \<and> u < s}"
  by (rule finite_subset [of _ "{c <..< s}"]) auto

lemma between_step:
  assumes "in_range c" "next_occ e c = Inr n" "n < s"
  shows "{u. occurs e u \<and> c < u \<and> u < s} = insert n {u. occurs e u \<and> n < u \<and> u < s}"
  using next_sound [OF assms(1,2)] next_least [OF assms(1,2)] assms(3) by force

lemma count_loop_exact:
  "in_window s \<Longrightarrow> occurs e s \<Longrightarrow> in_range c \<Longrightarrow> c < s \<Longrightarrow>
   count_loop (next_occ e) s c k n = k + min n (card {u. occurs e u \<and> c < u \<and> u < s})"
proof (induction n arbitrary: c k)
  case (Suc n)
  then have "in_window c" using window_down [of s c] by simp
  then obtain m where m: "next_occ e c = Inr m" using next_total Suc.prems(2) by blast
  note ms = next_sound [OF Suc.prems(3) m]
  show ?case
  proof (cases "m < s")
    case True
    have c: "card {u. occurs e u \<and> c < u \<and> u < s} = Suc (card {u. occurs e u \<and> m < u \<and> u < s})"
      unfolding between_step [OF Suc.prems(3) m True] using finite_between by simp
    show ?thesis
      using Suc.IH [of m "Suc k"] Suc.prems True m ms occurs_range [of e m] c by simp
  next
    case False
    then have none: "{u. occurs e u \<and> c < u \<and> u < s} = {}"
      using next_least [OF Suc.prems(3) m] by force
    show ?thesis unfolding none using False m by simp
  qed
qed simp

end

definition horizon_in_range :: "calendar \<Rightarrow> instant \<Rightarrow> bool" where
  "horizon_in_range cal t \<longleftrightarrow> representable cal t \<and> date_naive t + int MAX_SEARCH_DAYS \<le> cal_max cal + 1"

sublocale gregorian_calendar \<subseteq>
  total: total_recurrence "representable cal" "fires cal" "next_after cal" "previous_or_equal cal"
    "horizon_in_range cal"
proof
  fix t u e
  show "horizon_in_range cal t \<Longrightarrow> representable cal t" by (simp add: horizon_in_range_def)
  show "horizon_in_range cal t \<Longrightarrow> fires cal e u \<Longrightarrow> \<exists>s. next_after cal e t = Inr s"
    using next_after_total [of t e u] by (simp add: horizon_in_range_def representable_def MAX_SEARCH_DAYS_def)
  show "horizon_in_range cal t \<Longrightarrow> representable cal u \<Longrightarrow> u \<le> t \<Longrightarrow> horizon_in_range cal u"
    using date_naive_mono [of u t] by (simp add: horizon_in_range_def representable_def)
qed

context gregorian_calendar
begin

lemma count_skipped_exact:
  assumes "horizon_in_range cal slot" "fires cal e slot" "representable cal (floor_of st)" "floor_of st < slot"
  shows "count_skipped cal (Cron e) st slot =
    min MAX_COUNTED_SKIPS (card {u. fires cal e u \<and> floor_of st < u \<and> u < slot})"
  using total.count_loop_exact [OF assms] by (simp add: count_skipped_def)

end

section \<open>Decisions\<close>

lemma due_slot_cron:
  assumes "representable cal now" "due_slot cal (Cron e) st now = Some slot"
  shows "fires cal e slot \<and> floor_of st < slot \<and> slot \<le> now \<and> (\<forall>u. fires cal e u \<and> u \<le> now \<longrightarrow> u \<le> slot)"
proof -
  have "previous_or_equal cal e now = Some slot" "floor_of st < slot"
    using assms(2) by (auto simp: due_slot_def split: option.splits if_splits)
  then show ?thesis using cron.prev_sound [OF assms(1)] cron.prev_greatest [OF assms(1)] by blast
qed

lemma decide_Dispatch_iff:
  "decide cal mode st now timeout = Dispatch slot k \<longleftrightarrow>
   \<not> running_label st \<and> ss_open_dispatch st = None \<and> \<not> paused st \<and>
   due_slot cal mode st now = Some slot \<and> k = count_skipped cal mode st slot"
  by (auto simp: decide_def split: bool.splits option.splits)

text \<open>
  C37: the clock dispatches only an idle, unpaused schedule with nothing in flight; the slot is the
  latest firing of the cadence up to now, later than every recorded slot, and the reported number
  of missed slots is the number of firings in between, counted up to the cap.
\<close>

theorem decide_dispatches_latest_missed_slot:
  assumes "gregorian_calendar cal year" "horizon_in_range cal now" "representable cal (floor_of st)"
    "decide cal (Cron e) st now timeout = Dispatch slot skipped"
  shows "\<not> running_label st \<and> ss_open_dispatch st = None \<and> \<not> paused st \<and>
    fires cal e slot \<and> floor_of st < slot \<and> slot \<le> now \<and>
    (\<forall>u. fires cal e u \<and> u \<le> now \<longrightarrow> u \<le> slot) \<and>
    skipped = min MAX_COUNTED_SKIPS (card {u. fires cal e u \<and> floor_of st < u \<and> u < slot})"
proof -
  have d: "\<not> running_label st" "ss_open_dispatch st = None" "\<not> paused st"
    "due_slot cal (Cron e) st now = Some slot" "skipped = count_skipped cal (Cron e) st slot"
    using assms(4) by (simp_all add: decide_Dispatch_iff)
  have "representable cal now" using assms(2) by (simp add: horizon_in_range_def)
  note due = due_slot_cron [OF this d(4)]
  then have r: "representable cal slot" using cron.occurs_range by blast
  have "horizon_in_range cal slot"
    using assms(2) r due date_naive_mono [of slot now] by (simp add: horizon_in_range_def)
  then have "skipped = min MAX_COUNTED_SKIPS (card {u. fires cal e u \<and> floor_of st < u \<and> u < slot})"
    using gregorian_calendar.count_skipped_exact [OF assms(1)] assms(3) due by (simp add: d(5))
  with d due show ?thesis by blast
qed

definition hourly :: cron_expr where
  "hourly =
     \<lparr>ce_minute = \<lparr>mask = 1, restricted = True\<rparr>, ce_hour = \<lparr>mask = 2 ^ 24 - 1, restricted = False\<rparr>,
      ce_day_of_month = \<lparr>mask = 2 ^ 32 - 2, restricted = False\<rparr>,
      ce_month = \<lparr>mask = 2 ^ 13 - 2, restricted = False\<rparr>,
      ce_day_of_week = \<lparr>mask = 127, restricted = False\<rparr>, ce_expression = lit ''0 * * * *''\<rparr>"

definition idle_state :: schedule_state where
  "idle_state = \<lparr>anchor = at_hm 0 0 30, cursor = None, running_label = False, ss_open_dispatch = None,
     latest_terminal = None, paused = False\<rparr>"

lemma candidates_hourly_0:
  "candidates hourly 0 = map (\<lambda>h. at_hm 0 h 0) [0..<24]"
  by (simp add: candidates_def hourly_def cf_values_def cf_matches_def and_hms_opt_def upt_conv_Cons)

lemma previous_or_equal_same_day:
  assumes "cal_min cal \<le> date_naive t" "day_matches cal e (date_naive t)"
    "find (\<lambda>c. c \<le> t) (rev (candidates e (date_naive t))) = Some s"
  shows "previous_or_equal cal e t = Some s"
proof -
  obtain n where m: "MAX_SEARCH_DAYS = Suc n" by (simp add: MAX_SEARCH_DAYS_def)
  show ?thesis using assms by (simp add: previous_or_equal_def m checked_sub_days_def)
qed

lemma hourly_matches: "day_matches civil_calendar hourly 0"
  by (simp add: day_matches_def hourly_def civil_calendar_def civil_at_def is_restricted_def cf_matches_def)

lemma hourly_previous: "previous_or_equal civil_calendar hourly (at_hm 0 5 10) = Some (at_hm 0 5 0)"
proof -
  have d: "date_naive (at_hm 0 5 10) = 0" by (simp add: date_naive_at_hm)
  have "find (\<lambda>c. c \<le> at_hm 0 5 10) (rev (candidates hourly 0)) = Some (at_hm 0 5 0)"
    by (simp add: candidates_hourly_0 at_hm_def NANOS_PER_SEC_def upt_conv_Cons)
  then show ?thesis
    using hourly_matches d by (intro previous_or_equal_same_day) (simp_all add: civil_calendar_def)
qed

lemma idle_dispatch:
  "decide civil_calendar (Cron hourly) idle_state (at_hm 0 5 10) timeout =
     Dispatch (at_hm 0 5 0) (count_skipped civil_calendar (Cron hourly) idle_state (at_hm 0 5 0))"
proof -
  have "at_hm 0 0 30 < at_hm 0 5 0" by (simp add: at_hm_def NANOS_PER_SEC_def)
  then show ?thesis
    by (simp add: decide_def due_slot_def hourly_previous idle_state_def floor_of_def)
qed

theorem decide_dispatches_latest_missed_slot_witness:
  "decide civil_calendar (Cron hourly) idle_state (at_hm 0 5 10) 60 =
     Dispatch (at_hm 0 5 0) (count_skipped civil_calendar (Cron hourly) idle_state (at_hm 0 5 0)) \<and>
   fires civil_calendar hourly (at_hm 0 5 0) \<and>
   count_skipped civil_calendar (Cron hourly) idle_state (at_hm 0 5 0) =
     min MAX_COUNTED_SKIPS
       (card {u. fires civil_calendar hourly u \<and> at_hm 0 0 30 < u \<and> u < at_hm 0 5 0})"
proof -
  have "horizon_in_range civil_calendar (at_hm 0 5 10)"
    by (simp add: horizon_in_range_def representable_def date_naive_at_hm civil_calendar_def MAX_SEARCH_DAYS_def)
  moreover have "floor_of idle_state = at_hm 0 0 30" by (simp add: floor_of_def idle_state_def)
  moreover have "representable civil_calendar (at_hm 0 0 30)"
    by (simp add: representable_def date_naive_at_hm civil_calendar_def)
  ultimately show ?thesis
    using decide_dispatches_latest_missed_slot [OF civil.gregorian_calendar_axioms _ _ idle_dispatch [of 60]]
      idle_dispatch [of 60] by simp
qed

text \<open>
  No due slot is lost: an idle, unpaused schedule dispatches exactly when its cadence fired
  since the last recorded slot (since its creation, when nothing is recorded).
\<close>

theorem idle_schedule_dispatches_iff_due:
  assumes "gregorian_calendar cal year" "representable cal now"
    "\<not> running_label st" "ss_open_dispatch st = None" "\<not> paused st"
  shows "(\<exists>slot k. decide cal (Cron e) st now timeout = Dispatch slot k) \<longleftrightarrow>
    (\<exists>u. fires cal e u \<and> floor_of st < u \<and> u \<le> now)"
proof
  assume "\<exists>slot k. decide cal (Cron e) st now timeout = Dispatch slot k"
  then show "\<exists>u. fires cal e u \<and> floor_of st < u \<and> u \<le> now"
    using due_slot_cron [OF assms(2)] by (auto simp: decide_Dispatch_iff)
next
  assume "\<exists>u. fires cal e u \<and> floor_of st < u \<and> u \<le> now"
  then obtain u where u: "fires cal e u" "floor_of st < u" "u \<le> now" by blast
  obtain s where s: "previous_or_equal cal e now = Some s"
    using gregorian_calendar.previous_total [OF assms(1,2) u(1,3)] by blast
  then have "floor_of st < s" using cron.prev_greatest [OF assms(2) s u(1,3)] u(2) by simp
  then show "\<exists>slot k. decide cal (Cron e) st now timeout = Dispatch slot k"
    using assms(3-5) s by (simp add: decide_Dispatch_iff due_slot_def)
qed

theorem idle_schedule_dispatches_iff_due_witness:
  "(\<exists>slot k. decide civil_calendar (Cron hourly) idle_state (at_hm 0 5 10) 60 = Dispatch slot k) \<longleftrightarrow>
    (\<exists>u. fires civil_calendar hourly u \<and> floor_of idle_state < u \<and> u \<le> at_hm 0 5 10)"
  by (rule idle_schedule_dispatches_iff_due [OF civil.gregorian_calendar_axioms])
     (simp_all add: representable_def date_naive_at_hm civil_calendar_def idle_state_def)

end
