(* ===== verification/Labels.thy ===== *)
theory Labels
  imports RustStr
begin

text \<open>
  Platform-owned label names (\<open>backend/src/reconcile/reserved_labels.rs\<close>) and the deployment
  namespace of work labels (the pure part of \<open>backend/src/reconcile/work_labels.rs\<close>).

  \<open>str::to_lowercase\<close> folds all of Unicode; its table is a parameter \<open>lower\<close> of the namespace
  operation.
\<close>

section \<open>Reserved labels\<close>

definition SCHEDULED_WORKFLOW_LABEL :: str where "SCHEDULED_WORKFLOW_LABEL = lit ''fkst-scheduled-workflow''"
definition SCHEDULE_INVALID_LABEL :: str where "SCHEDULE_INVALID_LABEL = lit ''fkst-schedule-invalid''"
definition CRON_RUNNING_LABEL :: str where "CRON_RUNNING_LABEL = lit ''fkst-cron-running''"
definition CRON_PAUSED_LABEL :: str where "CRON_PAUSED_LABEL = lit ''fkst-cron-paused''"
definition CRON_FAILED_LABEL :: str where "CRON_FAILED_LABEL = lit ''fkst-cron-failed''"
definition CRON_TIMEOUT_LABEL :: str where "CRON_TIMEOUT_LABEL = lit ''fkst-cron-timeout''"
definition WORKFLOW_RUN_LABEL :: str where "WORKFLOW_RUN_LABEL = lit ''fkst-workflow-run''"
definition WORKFLOW_SCHEDULED_RUN_LABEL :: str where
  "WORKFLOW_SCHEDULED_RUN_LABEL = lit ''fkst-workflow-scheduled''"

lemmas reserved_label_defs = SCHEDULED_WORKFLOW_LABEL_def SCHEDULE_INVALID_LABEL_def
  CRON_RUNNING_LABEL_def CRON_PAUSED_LABEL_def CRON_FAILED_LABEL_def CRON_TIMEOUT_LABEL_def
  WORKFLOW_RUN_LABEL_def WORKFLOW_SCHEDULED_RUN_LABEL_def

definition RESERVED_LABELS :: "str list" where
  "RESERVED_LABELS =
     [SCHEDULED_WORKFLOW_LABEL, SCHEDULE_INVALID_LABEL, CRON_RUNNING_LABEL, CRON_PAUSED_LABEL,
      CRON_FAILED_LABEL, CRON_TIMEOUT_LABEL, WORKFLOW_RUN_LABEL, WORKFLOW_SCHEDULED_RUN_LABEL]"

definition is_reserved_label :: "str \<Rightarrow> bool" where
  "is_reserved_label label \<longleftrightarrow>
     list_ex (\<lambda>reserved. eq_ignore_ascii_case reserved (trim label)) RESERVED_LABELS"

text \<open>The message is the label and the list of reserved names.\<close>

definition reserved_work_label_rejection :: "str \<Rightarrow> (str \<times> str list) option" where
  "reserved_work_label_rejection label =
     (if is_reserved_label label then Some (label, RESERVED_LABELS) else None)"

lemma reserved_labels_distinct: "distinct RESERVED_LABELS"
  by (simp add: RESERVED_LABELS_def reserved_label_defs str_simps)

lemma cron_labels_distinct [simp]:
  "CRON_RUNNING_LABEL \<noteq> CRON_PAUSED_LABEL" "CRON_RUNNING_LABEL \<noteq> CRON_FAILED_LABEL"
  "CRON_RUNNING_LABEL \<noteq> CRON_TIMEOUT_LABEL" "CRON_RUNNING_LABEL \<noteq> SCHEDULE_INVALID_LABEL"
  "CRON_PAUSED_LABEL \<noteq> CRON_RUNNING_LABEL" "CRON_FAILED_LABEL \<noteq> CRON_RUNNING_LABEL"
  "CRON_TIMEOUT_LABEL \<noteq> CRON_RUNNING_LABEL" "SCHEDULE_INVALID_LABEL \<noteq> CRON_RUNNING_LABEL"
  "CRON_PAUSED_LABEL \<noteq> CRON_FAILED_LABEL" "CRON_PAUSED_LABEL \<noteq> CRON_TIMEOUT_LABEL"
  "CRON_PAUSED_LABEL \<noteq> SCHEDULE_INVALID_LABEL" "CRON_FAILED_LABEL \<noteq> CRON_PAUSED_LABEL"
  "CRON_TIMEOUT_LABEL \<noteq> CRON_PAUSED_LABEL" "SCHEDULE_INVALID_LABEL \<noteq> CRON_PAUSED_LABEL"
  "CRON_FAILED_LABEL \<noteq> SCHEDULE_INVALID_LABEL" "CRON_TIMEOUT_LABEL \<noteq> SCHEDULE_INVALID_LABEL"
  "SCHEDULE_INVALID_LABEL \<noteq> CRON_FAILED_LABEL" "SCHEDULE_INVALID_LABEL \<noteq> CRON_TIMEOUT_LABEL"
  "CRON_FAILED_LABEL \<noteq> CRON_TIMEOUT_LABEL" "CRON_TIMEOUT_LABEL \<noteq> CRON_FAILED_LABEL"
  by (simp_all add: reserved_label_defs str_simps)

section \<open>The work-label namespace\<close>

definition GITHUB_LABEL_NAME_MAX_CHARS :: nat where
  "GITHUB_LABEL_NAME_MAX_CHARS = 50"

datatype work_label_error =
    NamespaceShape
  | NamespaceTooLong
  | EmptyLogicalLabel
  | EffectiveUntrimmed str
  | EffectiveComma str
  | EffectiveControl str
  | EffectiveTooLong str nat
  | EffectiveCollision str str str

record effective_work_labels =
  ewl_logical :: "str list"
  ewl_effective :: "str list"
  ewl_logical_to_effective :: "(str, str) btree_map"
  ewl_namespaced :: bool

definition validate_work_label_namespace :: "str \<Rightarrow> work_label_error + unit" where
  "validate_work_label_namespace ns =
     (let valid_shape =
        ns \<noteq> [] \<and> list_all (\<lambda>c. c < 128) ns \<and>
        list_all (\<lambda>c. is_ascii_lowercase c \<or> is_ascii_digit c \<or> c = ch (CHR ''-'')) ns \<and>
        \<not> starts_with (lit ''-'') ns \<and> \<not> ends_with (lit ''-'') ns \<and> \<not> contains_str (lit ''--'') ns
      in if \<not> valid_shape then Inl NamespaceShape
         else if length ns > GITHUB_LABEL_NAME_MAX_CHARS - 2 then Inl NamespaceTooLong
         else Inr ())"

definition validate_effective_label :: "str \<Rightarrow> work_label_error + unit" where
  "validate_effective_label label =
     (if label = [] \<or> trim label \<noteq> label then Inl (EffectiveUntrimmed label)
      else if ch (CHR '','') \<in> set label then Inl (EffectiveComma label)
      else if list_ex is_control label then Inl (EffectiveControl label)
      else if length label > GITHUB_LABEL_NAME_MAX_CHARS then Inl (EffectiveTooLong label (length label))
      else Inr ())"

definition effective_label :: "str option \<Rightarrow> str \<Rightarrow> str" where
  "effective_label ns logical =
     (case ns of Some n \<Rightarrow> logical @ lit ''-'' @ n | None \<Rightarrow> logical)"

text \<open>
  The loop over the sorted set of labels: the effective labels so far, the map, and the owner of
  each folded effective label.
\<close>

fun namespace_loop ::
  "(str \<Rightarrow> str) \<Rightarrow> str option \<Rightarrow> str list \<Rightarrow> str list \<Rightarrow> (str, str) btree_map \<Rightarrow> (str \<rightharpoonup> str) \<Rightarrow>
   work_label_error + (str list \<times> (str, str) btree_map)" where
  "namespace_loop lower ns [] effective m owners = Inr (effective, m)"
| "namespace_loop lower ns (logical # rest) effective m owners =
     (if logical = [] then Inl EmptyLogicalLabel
      else
        let eff = effective_label ns logical
        in and_then (validate_effective_label eff) (\<lambda>_.
             let folded = lower eff
             in case owners folded of
                  Some owner \<Rightarrow>
                    (if owner \<noteq> logical then Inl (EffectiveCollision owner logical eff)
                     else namespace_loop lower ns rest (effective @ [eff]) (bt_insert logical eff m)
                            (owners(folded \<mapsto> logical)))
                | None \<Rightarrow>
                    namespace_loop lower ns rest (effective @ [eff]) (bt_insert logical eff m)
                      (owners(folded \<mapsto> logical))))"

definition apply_work_label_namespace ::
  "(str \<Rightarrow> str) \<Rightarrow> str list \<Rightarrow> str option \<Rightarrow> work_label_error + effective_work_labels" where
  "apply_work_label_namespace lower labels ns =
     and_then (case ns of Some n \<Rightarrow> validate_work_label_namespace n | None \<Rightarrow> Inr ()) (\<lambda>_.
       let logical = sort (remdups labels)
       in and_then (namespace_loop lower ns logical [] [] Map.empty) (\<lambda>(effective, m).
            Inr \<lparr>ewl_logical = logical, ewl_effective = effective, ewl_logical_to_effective = m,
                 ewl_namespaced = (ns \<noteq> None)\<rparr>))"

lemma validate_effective_label_Inr:
  "validate_effective_label label = Inr () \<longleftrightarrow>
     label \<noteq> [] \<and> trim label = label \<and> ch (CHR '','') \<notin> set label \<and> \<not> list_ex is_control label \<and>
     length label \<le> GITHUB_LABEL_NAME_MAX_CHARS"
  by (auto simp: validate_effective_label_def)

text \<open>What the loop has established for the labels it has passed.\<close>

lemma namespace_loop_sound:
  "namespace_loop lower ns ls eff m owners = Inr (eff', m') \<Longrightarrow> distinct (passed @ ls) \<Longrightarrow>
   eff = map (effective_label ns) passed \<Longrightarrow> (\<forall>l. bt_get m l = (if l \<in> set passed then Some (effective_label ns l) else None)) \<Longrightarrow>
   (\<forall>l \<in> set passed. owners (lower (effective_label ns l)) = Some l) \<Longrightarrow>
   (\<forall>l \<in> set passed. validate_effective_label (effective_label ns l) = Inr ()) \<Longrightarrow>
   eff' = map (effective_label ns) (passed @ ls) \<and>
   (\<forall>l. bt_get m' l = (if l \<in> set (passed @ ls) then Some (effective_label ns l) else None)) \<and>
   inj_on (\<lambda>l. lower (effective_label ns l)) (set (passed @ ls)) \<and>
   (\<forall>l \<in> set (passed @ ls). validate_effective_label (effective_label ns l) = Inr ())"
proof (induction ls arbitrary: passed eff m owners)
  case Nil
  then show ?case by (auto simp: inj_on_def) (metis option.inject)
next
  case (Cons l ls)
  let ?e = "effective_label ns l"
  have v: "validate_effective_label ?e = Inr ()"
    using Cons.prems(1) by (auto simp: Let_def res_simps split: if_splits)
  have fresh: "owners (lower ?e) = None \<or> owners (lower ?e) = Some l"
    using Cons.prems(1) v by (auto simp: Let_def split: if_splits option.splits)
  have rec: "namespace_loop lower ns ls (eff @ [?e]) (bt_insert l ?e m) (owners(lower ?e \<mapsto> l)) = Inr (eff', m')"
    using Cons.prems(1) v by (auto simp: Let_def split: if_splits option.splits)
  have own: "\<forall>x \<in> set (passed @ [l]). (owners(lower ?e \<mapsto> l)) (lower (effective_label ns x)) = Some x"
  proof
    fix x assume "x \<in> set (passed @ [l])"
    then consider "x = l" | "x \<in> set passed" "x \<noteq> l" by auto
    then show "(owners(lower ?e \<mapsto> l)) (lower (effective_label ns x)) = Some x"
      using fresh Cons.prems(5) by cases force+
  qed
  have "eff' = map (effective_label ns) ((passed @ [l]) @ ls) \<and>
    (\<forall>x. bt_get m' x = (if x \<in> set ((passed @ [l]) @ ls) then Some (effective_label ns x) else None)) \<and>
    inj_on (\<lambda>l. lower (effective_label ns l)) (set ((passed @ [l]) @ ls)) \<and>
    (\<forall>l \<in> set ((passed @ [l]) @ ls). validate_effective_label (effective_label ns l) = Inr ())"
    by (rule Cons.IH [OF rec]) (use Cons.prems own v in \<open>auto simp: fun_upd_def\<close>)
  then show ?case by simp
qed

text \<open>
  A namespaced label set is usable on GitHub and keeps every label apart: each effective label
  is valid, and two different logical labels never fold to the same effective label.
\<close>

theorem apply_work_label_namespace_sound:
  assumes "apply_work_label_namespace lower labels ns = Inr w"
  shows "ewl_logical w = sort (remdups labels) \<and>
    ewl_effective w = map (effective_label ns) (ewl_logical w) \<and>
    (\<forall>l. bt_get (ewl_logical_to_effective w) l = (if l \<in> set labels then Some (effective_label ns l) else None)) \<and>
    inj_on (\<lambda>l. lower (effective_label ns l)) (set labels) \<and>
    (\<forall>e \<in> set (ewl_effective w). e \<noteq> [] \<and> trimmed e \<and> length e \<le> GITHUB_LABEL_NAME_MAX_CHARS \<and>
       ch (CHR '','') \<notin> set e \<and> \<not> list_ex is_control e)"
proof -
  let ?ls = "sort (remdups labels)"
  obtain eff m where loop: "namespace_loop lower ns ?ls [] [] Map.empty = Inr (eff, m)"
    and w: "w = \<lparr>ewl_logical = ?ls, ewl_effective = eff, ewl_logical_to_effective = m,
      ewl_namespaced = (ns \<noteq> None)\<rparr>"
    using assms by (auto simp: apply_work_label_namespace_def Let_def res_simps split: option.splits)
  have "eff = map (effective_label ns) ([] @ ?ls) \<and>
    (\<forall>l. bt_get m l = (if l \<in> set ([] @ ?ls) then Some (effective_label ns l) else None)) \<and>
    inj_on (\<lambda>l. lower (effective_label ns l)) (set ([] @ ?ls)) \<and>
    (\<forall>l \<in> set ([] @ ?ls). validate_effective_label (effective_label ns l) = Inr ())"
    by (rule namespace_loop_sound [OF loop]) auto
  moreover have "trimmed e" if "trim e = e" for e using that trimmed_trim [of e] by simp
  ultimately show ?thesis by (auto simp: w validate_effective_label_Inr)
qed

theorem apply_work_label_namespace_sound_witness:
  "\<exists>w. apply_work_label_namespace to_ascii_lowercase [WORKFLOW_RUN_LABEL] (Some (lit ''acme'')) = Inr w \<and>
     bt_get (ewl_logical_to_effective w) WORKFLOW_RUN_LABEL = Some (lit ''fkst-workflow-run-acme'')"
proof -
  have v: "validate_work_label_namespace (lit ''acme'') = Inr ()"
    by (simp add: validate_work_label_namespace_def Let_def char_class_defs starts_with_def ends_with_def
        strip_suffix_def contains_str_def GITHUB_LABEL_NAME_MAX_CHARS_def str_simps)
  have e: "effective_label (Some (lit ''acme'')) WORKFLOW_RUN_LABEL = lit ''fkst-workflow-run-acme''"
    by (simp add: effective_label_def reserved_label_defs str_simps)
  have "trim (lit ''fkst-workflow-run-acme'') = lit ''fkst-workflow-run-acme''"
    by (rule trim_id) (simp add: trimmed_def is_whitespace_def str_simps)
  then have "validate_effective_label (lit ''fkst-workflow-run-acme'') = Inr ()"
    by (simp add: validate_effective_label_Inr is_control_def GITHUB_LABEL_NAME_MAX_CHARS_def str_simps)
  then obtain w where w: "apply_work_label_namespace to_ascii_lowercase [WORKFLOW_RUN_LABEL] (Some (lit ''acme'')) = Inr w"
    using v e by (simp add: apply_work_label_namespace_def WORKFLOW_RUN_LABEL_def Let_def str_simps)
  show ?thesis using apply_work_label_namespace_sound [OF w] w e by simp
qed

end
