(* ===== verification/RunIssue.thy ===== *)
theory RunIssue
  imports RunMarker
begin

text \<open>
  The run issue a due slot becomes (\<open>backend/src/reconcile/schedule_run_issue.rs\<close>): its title, its
  body, and the quoting of argument values as TOML basic strings. A reader of basic strings, as
  the TOML format defines them, is the reference the quoting is proved against.
\<close>

record run_issue_request =
  rq_schedule_issue :: int
  rq_workflow_id :: str
  rq_slot :: instant
  rq_arguments :: "(str, str) btree_map"
  rq_work_label :: str
  rq_creator_login :: str
  rq_manual :: bool

definition RUN_ISSUE_MARKER :: str where
  "RUN_ISSUE_MARKER = lit ''fkst-cron-dispatch:v1''"

definition em_dash :: uchar where "em_dash = 8212"

definition title :: "codec \<Rightarrow> run_issue_request \<Rightarrow> str" where
  "title cod rq =
     lit ''[scheduled] '' @ rq_workflow_id rq @ [32, em_dash, 32] @ to_rfc3339 cod (rq_slot rq)"

definition hex_digit :: "nat \<Rightarrow> uchar" where
  "hex_digit n = (if n < 10 then 48 + n else 55 + n)"

definition hex4 :: "nat \<Rightarrow> str" where
  "hex4 n = [hex_digit (n div 4096 mod 16), hex_digit (n div 256 mod 16), hex_digit (n div 16 mod 16),
     hex_digit (n mod 16)]"

text \<open>Control characters are below 160, so four hexadecimal digits always suffice.\<close>

definition toml_escape :: "uchar \<Rightarrow> str" where
  "toml_escape c =
     (if c = 34 then [92, 34]
      else if c = 92 then [92, 92]
      else if c = 10 then [92, ch (CHR ''n'')]
      else if c = 13 then [92, ch (CHR ''r'')]
      else if c = 9 then [92, ch (CHR ''t'')]
      else if is_control c then [92, ch (CHR ''u'')] @ hex4 c
      else [c])"

definition toml_basic_string :: "str \<Rightarrow> str" where
  "toml_basic_string v = 34 # concat (map toml_escape v) @ [34]"

definition nl :: str where "nl = [10]"

definition render_run_issue_body :: "codec \<Rightarrow> run_issue_request \<Rightarrow> str" where
  "render_run_issue_body cod rq =
     lit ''<!-- '' @ RUN_ISSUE_MARKER @ lit '' schedule='' @ [34] @ show_int (rq_schedule_issue rq) @ [34] @
     lit '' workflow='' @ [34] @ rq_workflow_id rq @ [34] @ lit '' slot='' @ [34] @
     to_rfc3339 cod (rq_slot rq) @ [34] @ lit '' manual='' @ [34] @ show_bool (rq_manual rq) @ [34] @
     lit '' -->'' @ nl @ nl @
     lit ''### Scheduled Run'' @ nl @ nl @
     lit ''Workflow `'' @ rq_workflow_id rq @ lit ''`, slot `'' @ to_rfc3339 cod (rq_slot rq) @ lit ''`'' @
     (if rq_manual rq then lit '', started manually'' else []) @ lit ''.'' @ nl @ nl @
     lit ''### Arguments'' @ nl @ nl @
     (if rq_arguments rq = [] then lit ''_None._'' @ nl @ nl
      else lit ''```toml'' @ nl @
           concat (map (\<lambda>(key, v). key @ lit '' = '' @ toml_basic_string v @ nl) (rq_arguments rq)) @
           lit ''```'' @ nl @ nl) @
     lit ''---'' @ nl @ nl @ lit ''_Created by the fkst control plane for scheduled workflow #'' @
     show_int (rq_schedule_issue rq) @
     lit ''. Editing or closing this issue does not change the schedule '' @ [em_dash] @ lit '' edit #'' @
     show_int (rq_schedule_issue rq) @ lit '' instead._'' @ nl"

section \<open>Reading basic strings\<close>

definition unhex :: "uchar \<Rightarrow> nat option" where
  "unhex c = (if 48 \<le> c \<and> c \<le> 57 then Some (c - 48) else if 65 \<le> c \<and> c \<le> 70 then Some (c - 55) else None)"

definition read_hex4 :: "str \<Rightarrow> (uchar \<times> str) option" where
  "read_hex4 s =
     (case map unhex (take 4 s) of
        [Some a, Some b, Some c, Some d] \<Rightarrow> Some (a * 4096 + b * 256 + c * 16 + d, drop 4 s)
      | _ \<Rightarrow> None)"

definition read_escape :: "str \<Rightarrow> (uchar \<times> str) option" where
  "read_escape s =
     (case s of
        [] \<Rightarrow> None
      | e # s' \<Rightarrow>
          if e = ch (CHR ''u'') then read_hex4 s'
          else if e = 34 then Some (34, s')
          else if e = 92 then Some (92, s')
          else if e = ch (CHR ''n'') then Some (10, s')
          else if e = ch (CHR ''r'') then Some (13, s')
          else if e = ch (CHR ''t'') then Some (9, s')
          else None)"

lemma length_read_escape: "read_escape s = Some (x, r) \<Longrightarrow> length r < length s"
  by (auto simp: read_escape_def read_hex4_def split: list.splits if_splits option.splits)

text \<open>
  The rest of a basic string after its opening quote: the value and what follows the closing
  quote. Raw control characters other than tab are not allowed.
\<close>

function toml_read :: "str \<Rightarrow> (str \<times> str) option" where
  "toml_read s =
     (case s of
        [] \<Rightarrow> None
      | c # r \<Rightarrow>
          if c = 34 then Some ([], r)
          else if c = 92 then
            (case read_escape r of
               None \<Rightarrow> None
             | Some (x, r') \<Rightarrow> map_option (\<lambda>(v, e). (x # v, e)) (toml_read r'))
          else if c < 32 \<and> c \<noteq> 9 \<or> c = 127 then None
          else map_option (\<lambda>(v, e). (c # v, e)) (toml_read r))"
  by pat_completeness auto
termination
  by (relation "measure length") (auto dest!: length_read_escape)

declare toml_read.simps [simp del]

lemma unhex_digit: "n < 16 \<Longrightarrow> unhex (hex_digit n) = Some n"
  by (auto simp: unhex_def hex_digit_def)

lemma hex_sum:
  "c = x * 16 + d \<Longrightarrow> x = y * 16 + e \<Longrightarrow> y = f * 16 + g \<Longrightarrow> f * 4096 + g * 256 + e * 16 + d = (c :: nat)"
  by simp

lemma hex_value:
  "c < 65536 \<Longrightarrow> c div 4096 mod 16 * 4096 + c div 256 mod 16 * 256 + c div 16 mod 16 * 16 + c mod 16 = (c :: nat)"
proof -
  assume c: "c < 65536"
  have d: "c div 256 = c div 16 div 16" "c div 4096 = c div 16 div 16 div 16"
    by (simp_all add: div_mult2_eq [symmetric])
  have "c div 4096 < 16" using c by (simp add: less_mult_imp_div_less)
  then have "c div 4096 mod 16 = c div 4096" by (rule mod_less)
  then show ?thesis
    unfolding d by (intro hex_sum) (simp_all only: div_mult_mod_eq)
qed

lemma toml_read_escape:
  "toml_read (toml_escape c @ s) = map_option (\<lambda>(v, r). (c # v, r)) (toml_read s)"
proof (cases "is_control c")
  case True
  then have "c < 65536" by (auto simp: is_control_def)
  then have "read_hex4 (hex4 c @ s) = Some (c, s)"
    using hex_value [of c] by (simp add: read_hex4_def hex4_def unhex_digit)
  then show ?thesis
    using True by (subst toml_read.simps) (simp add: toml_escape_def read_escape_def)
next
  case False
  then have "\<not> c < 32 \<and> c \<noteq> 127" by (auto simp: is_control_def)
  then show ?thesis using False by (subst toml_read.simps) (simp add: toml_escape_def read_escape_def)
qed

lemma toml_read_concat: "toml_read (concat (map toml_escape v) @ 34 # s) = Some (v, s)"
proof (induction v)
  case Nil
  show ?case by (subst toml_read.simps) simp
qed (simp add: toml_read_escape)

text \<open>
  An argument value reaches the run issue as data: a reader of TOML basic strings gets exactly
  the value back and stops at the closing quote, whatever characters the value holds.
\<close>

theorem toml_basic_string_roundtrip:
  "toml_basic_string v @ s = 34 # drop 1 (toml_basic_string v) @ s \<and>
   toml_read (drop 1 (toml_basic_string v) @ s) = Some (v, s)"
  by (simp add: toml_basic_string_def toml_read_concat)

end
