(* ===== verification/SchedulePlan.thy ===== *)
theory SchedulePlan
  imports Decision Labels RunIssue
begin

text \<open>
  Planning for one scheduled workflow (\<open>backend/src/reconcile/schedule_plan.rs\<close>): its state
  recovered from labels and run records, and the clock's answer as an effect.
\<close>

record cron_config =
  cron_min_interval_secs :: nat
  cron_max_runtime_secs :: nat
  cron_max_jobs_per_creator :: nat
  cfg_bot_login :: "str option"
  cfg_work_label_namespace :: "str option"

text \<open>
  Why a definition is not accepted: the data its message shows. The denial variants come from the
  authorization of the issue, the others from the pass.
\<close>

datatype invalid_detail =
    DeniedUnrouted nat
  | DeniedNoSession str
  | DeniedUnauthorized int
  | ParseFailed workflow_error
  | CadenceTooTight str nat nat
  | RunLabelUnusable work_label_error
  | RunLabelUnresolved str
  | OverCap str nat

datatype schedule_effect =
    EffDispatch int run_issue_request nat
  | EffRecordSkip int instant
  | EffExpire int instant instant
  | EffComplete int instant run_status
  | EffReleaseRunning int
  | EffAdoptRunning int instant
  | EffFlagInvalid int invalid_detail
  | EffClearInvalid int

fun schedule_issue_of :: "schedule_effect \<Rightarrow> int" where
  "schedule_issue_of (EffDispatch i _ _) = i"
| "schedule_issue_of (EffRecordSkip i _) = i"
| "schedule_issue_of (EffExpire i _ _) = i"
| "schedule_issue_of (EffComplete i _ _) = i"
| "schedule_issue_of (EffReleaseRunning i) = i"
| "schedule_issue_of (EffAdoptRunning i _) = i"
| "schedule_issue_of (EffFlagInvalid i _) = i"
| "schedule_issue_of (EffClearInvalid i) = i"

record schedule_observation =
  ob_schedule_issue :: int
  ob_labels :: "str list"
  ob_created_at :: instant
  ob_spec :: scheduled_workflow_spec
  ob_records :: "run_record list"
  ob_work_label :: str
  ob_creator_login :: str

definition build_state :: "schedule_observation \<Rightarrow> schedule_state" where
  "build_state ob =
     \<lparr>anchor = ob_created_at ob,
      cursor = max_opt (map rr_slot (ob_records ob)),
      running_label = (CRON_RUNNING_LABEL \<in> set (ob_labels ob)),
      ss_open_dispatch = map_option (\<lambda>r. \<lparr>od_slot = rr_slot r, od_started = rr_started r\<rparr>)
        (open_dispatch_of (ob_records ob)),
      latest_terminal = map_option (\<lambda>r. (rr_slot r, rr_status r))
        (max_by_key rr_slot (filter (\<lambda>r. is_terminal (rr_status r)) (ob_records ob))),
      paused = (CRON_PAUSED_LABEL \<in> set (ob_labels ob))\<rparr>"

definition run_request :: "schedule_observation \<Rightarrow> instant \<Rightarrow> run_issue_request" where
  "run_request ob slot =
     \<lparr>rq_schedule_issue = ob_schedule_issue ob, rq_workflow_id = workflow_id (ob_spec ob), rq_slot = slot,
      rq_arguments = arguments (ob_spec ob), rq_work_label = ob_work_label ob,
      rq_creator_login = ob_creator_login ob, rq_manual = False\<rparr>"

definition run_budget :: "cron_config \<Rightarrow> int" where
  "run_budget cfg = int (cron_max_runtime_secs cfg) * NANOS_PER_SEC"

text \<open>The match on the clock's answer.\<close>

definition action_effects :: "schedule_observation \<Rightarrow> schedule_action \<Rightarrow> schedule_effect list" where
  "action_effects ob action =
     (let i = ob_schedule_issue ob
      in case action of
           Nothing \<Rightarrow> []
         | Dispatch slot skipped \<Rightarrow> [EffDispatch i (run_request ob slot) skipped]
         | SkipOverlap slot \<Rightarrow> [EffRecordSkip i slot]
         | Expire slot started \<Rightarrow> [EffExpire i slot started]
         | Complete slot status \<Rightarrow> [EffComplete i slot status]
         | ReleaseRunning \<Rightarrow> [EffReleaseRunning i]
         | AdoptRunning slot \<Rightarrow> [EffAdoptRunning i slot])"

definition plan_schedule ::
  "calendar \<Rightarrow> schedule_observation \<Rightarrow> instant \<Rightarrow> cron_config \<Rightarrow> schedule_effect list" where
  "plan_schedule cal ob now cfg =
     (if SCHEDULE_INVALID_LABEL \<in> set (ob_labels ob) then [EffClearInvalid (ob_schedule_issue ob)] else []) @
     action_effects ob (decide cal (run_mode (ob_spec ob)) (build_state ob) now (run_budget cfg))"

definition plan_invalid :: "int \<Rightarrow> str list \<Rightarrow> invalid_detail \<Rightarrow> schedule_effect list" where
  "plan_invalid i labels detail =
     (if SCHEDULE_INVALID_LABEL \<in> set labels then [] else [EffFlagInvalid i detail])"

definition check_min_interval :: "calendar \<Rightarrow> run_mode \<Rightarrow> cron_config \<Rightarrow> invalid_detail + unit" where
  "check_min_interval cal mode cfg =
     (case mode of
        Once \<Rightarrow> Inr ()
      | Cron cron \<Rightarrow>
          (case min_interval_secs cal cron of
             None \<Rightarrow> Inr ()
           | Some interval \<Rightarrow>
               if interval < cron_min_interval_secs cfg
               then Inl (CadenceTooTight (ce_expression cron) interval (cron_min_interval_secs cfg))
               else Inr ()))"

section \<open>Plans target their own issue\<close>

lemma plan_schedule_targets: "eff \<in> set (plan_schedule cal ob now cfg) \<Longrightarrow> schedule_issue_of eff = ob_schedule_issue ob"
  by (auto simp: plan_schedule_def action_effects_def Let_def split: schedule_action.splits if_splits)

lemma plan_invalid_targets: "eff \<in> set (plan_invalid i labels d) \<Longrightarrow> schedule_issue_of eff = i"
  by (auto simp: plan_invalid_def split: if_splits)

lemma plan_schedule_Dispatch:
  assumes "EffDispatch i rq k \<in> set (plan_schedule cal ob now cfg)"
  shows "decide cal (run_mode (ob_spec ob)) (build_state ob) now (run_budget cfg) = Dispatch (rq_slot rq) k \<and>
    rq = run_request ob (rq_slot rq) \<and> i = ob_schedule_issue ob"
  using assms by (auto simp: plan_schedule_def action_effects_def run_request_def Let_def split: schedule_action.splits if_splits)

end
