(* ===== verification/Rfc3339.thy ===== *)
theory Rfc3339
  imports Gregorian RunMarker
begin

text \<open>
  RFC 3339 timestamps with whole seconds and a \<open>Z\<close> offset, for the years 1970 to 9999: an instance
  of the interface \<open>timestamp_codec\<close> on the Gregorian calendar, and the round trip of the run
  marker over every codec that meets the interface.
\<close>

section \<open>Timestamps\<close>

definition dec2 :: "nat \<Rightarrow> str" where
  "dec2 n = [48 + n div 10, 48 + n mod 10]"

definition undec2 :: "uchar \<Rightarrow> uchar \<Rightarrow> nat" where
  "undec2 a b = 10 * (a - 48) + (b - 48)"

definition dash :: uchar where "dash = ch (CHR ''-'')"
definition colon :: uchar where "colon = ch (CHR '':'')"

definition utc_render :: "instant \<Rightarrow> str" where
  "utc_render t =
     (let (y, m, d) = civil_at (date_naive t);
          s = nat (t div NANOS_PER_SEC mod 86400)
      in dec2 (nat y div 100) @ dec2 (nat y mod 100) @ [dash] @ dec2 m @ [dash] @ dec2 d @
         [ch (CHR ''T'')] @ dec2 (s div 3600) @ [colon] @ dec2 (s div 60 mod 60) @ [colon] @
         dec2 (s mod 60) @ [ch (CHR ''Z'')])"

definition utc_instant :: "civil \<Rightarrow> nat \<Rightarrow> nat \<Rightarrow> nat \<Rightarrow> instant" where
  "utc_instant c h m s =
     (day_count c - day_count (1970, 1, 1)) * NANOS_PER_DAY +
     (int h * 3600 + int m * 60 + int s) * NANOS_PER_SEC"

definition utc_parse :: "str \<Rightarrow> instant option" where
  "utc_parse x =
     (case x of
        [y1, y2, y3, y4, k1, m1, m2, k2, d1, d2, k3, h1, h2, k4, n1, n2, k5, s1, s2, k6] \<Rightarrow>
          (let c = (int (100 * undec2 y1 y2 + undec2 y3 y4), undec2 m1 m2, undec2 d1 d2)
           in if list_all is_ascii_digit [y1, y2, y3, y4, m1, m2, d1, d2, h1, h2, n1, n2, s1, s2] \<and>
                 [k1, k2, k3, k4, k5, k6] = [dash, dash, ch (CHR ''T''), colon, colon, ch (CHR ''Z'')] \<and>
                 valid_civil c \<and> undec2 h1 h2 < 24 \<and> undec2 n1 n2 < 60 \<and> undec2 s1 s2 < 60
              then Some (utc_instant c (undec2 h1 h2) (undec2 n1 n2) (undec2 s1 s2)) else None)
      | _ \<Rightarrow> None)"

definition utc_codec :: codec where
  "utc_codec = \<lparr>to_rfc3339 = utc_render, from_rfc3339 = utc_parse\<rparr>"

lemma undec2_dec2: "n < 100 \<Longrightarrow> undec2 (48 + n div 10) (48 + n mod 10) = n"
  by (simp add: undec2_def)

lemma digit_dec2: "n < 100 \<Longrightarrow> is_ascii_digit (48 + n div 10)" "is_ascii_digit (48 + n mod 10)"
proof -
  assume "n < 100"
  then have "n div 10 \<le> 9" by (simp add: div_le_mono less_Suc_eq_le [symmetric] div_less_iff_less_mult)
  then show "is_ascii_digit (48 + n div 10)" by (simp add: is_ascii_digit_def)
next
  have "n mod 10 < 10" by simp
  then show "is_ascii_digit (48 + n mod 10)" by (simp add: is_ascii_digit_def)
qed

text \<open>The year of a date of the calendar's range has four digits.\<close>

lemma civil_day_count: "0 \<le> d \<Longrightarrow> day_count (civil_at d) = day_count (1970, 1, 1) + d"
proof -
  have "day_count ((next_civil ^^ n) (1970, 1, 1)) = day_count (1970, 1, 1) + int n" for n
  proof (induction n)
    case (Suc n)
    have "valid_civil ((next_civil ^^ n) (1970, 1, 1))" using civil_at_valid [of "int n"] by (simp add: civil_at_def)
    then show ?case using Suc day_count_next by simp
  qed simp
  then show "0 \<le> d \<Longrightarrow> ?thesis" by (simp add: civil_at_def)
qed

lemma civil_year_range:
  assumes "0 \<le> d" "d \<le> 2932896" "civil_at d = (y, m, n)"
  shows "0 \<le> y \<and> y < 10000"
proof -
  have c: "before_year y < 719528 + d" "719528 + d \<le> before_year (y + 1)"
    using in_year [of y m n] civil_at_valid [OF assms(1)] civil_day_count [OF assms(1)] assms(3)
    by (simp_all add: before_year_def before_month_def)
  have "\<not> 10000 \<le> y"
  proof
    assume "10000 \<le> y"
    from before_year_mono [OF this] have "3652424 \<le> before_year y" by (simp add: before_year_def)
    then show False using c assms(2) by simp
  qed
  moreover have "\<not> y + 1 \<le> 0"
  proof
    assume "y + 1 \<le> 0"
    from before_year_mono [OF this] have "before_year (y + 1) \<le> 0" by (simp add: before_year_def)
    then show False using c assms(1) by simp
  qed
  ultimately show ?thesis by simp
qed

definition utc_valid :: "instant \<Rightarrow> bool" where
  "utc_valid t \<longleftrightarrow> 0 \<le> date_naive t \<and> date_naive t \<le> 2932896"

lemma civil_small:
  "valid_civil (y, m, d) \<Longrightarrow> m < 100 \<and> d < 100"
  by (auto simp: days_in_month_def split: if_splits)

lemma sexagesimal: "a * 60 + b = c \<Longrightarrow> c * 60 + d = e \<Longrightarrow> a * 3600 + b * 60 + d = (e :: nat)"
  by simp

lemma second_of_day:
  fixes t :: instant
  defines "s \<equiv> nat (t div NANOS_PER_SEC mod 86400)"
  shows "s div 3600 < 24" "s div 60 mod 60 < 60" "s mod 60 < 60"
    "date_naive t * NANOS_PER_DAY +
      (int (s div 3600) * 3600 + int (s div 60 mod 60) * 60 + int (s mod 60)) * NANOS_PER_SEC = whole_second t"
proof -
  have "s < 86400" unfolding s_def by (simp add: nat_less_iff)
  then show "s div 3600 < 24" by (simp add: div_less_iff_less_mult)
  show "s div 60 mod 60 < 60" "s mod 60 < 60" by simp_all
  have "s div 3600 * 3600 + s div 60 mod 60 * 60 + s mod 60 = s"
  proof -
    have "s div 60 div 60 * 60 + s div 60 mod 60 = s div 60" by (rule div_mult_mod_eq)
    moreover have "s div 60 * 60 + s mod 60 = s" by (rule div_mult_mod_eq)
    moreover have "s div 3600 = s div 60 div 60" by (simp add: div_mult2_eq [symmetric])
    ultimately show ?thesis by (simp only: sexagesimal)
  qed
  then have "int (s div 3600 * 3600 + s div 60 mod 60 * 60 + s mod 60) = int s" by (simp only:)
  then have "int (s div 3600) * 3600 + int (s div 60 mod 60) * 60 + int (s mod 60) = int s"
    unfolding of_nat_add of_nat_mult of_nat_numeral .
  moreover have "int s = t div NANOS_PER_SEC mod 86400" unfolding s_def by simp
  moreover have "date_naive t = t div NANOS_PER_SEC div 86400"
    unfolding date_naive_def NANOS_PER_DAY_def by (simp add: zdiv_zmult2_eq NANOS_PER_SEC_def mult.commute)
  moreover have "(t div NANOS_PER_SEC div 86400) * (86400 * NANOS_PER_SEC) +
      t div NANOS_PER_SEC mod 86400 * NANOS_PER_SEC = whole_second t"
    unfolding mult.assoc [symmetric] distrib_right [symmetric] div_mult_mod_eq
    by (simp only: whole_second_def mult.commute)
  ultimately show "date_naive t * NANOS_PER_DAY +
      (int (s div 3600) * 3600 + int (s div 60 mod 60) * 60 + int (s mod 60)) * NANOS_PER_SEC = whole_second t"
    by (simp only: NANOS_PER_DAY_def)
qed

lemma utc_parse_render: "utc_valid t \<Longrightarrow> utc_parse (utc_render t) = Some (whole_second t)"
proof -
  assume v: "utc_valid t"
  define s where "s = nat (t div NANOS_PER_SEC mod 86400)"
  obtain y m d where c: "civil_at (date_naive t) = (y, m, d)" by (cases "civil_at (date_naive t)")
  have vc: "valid_civil (y, m, d)" using civil_at_valid [of "date_naive t"] v c by (simp add: utc_valid_def)
  have y: "0 \<le> y" "y < 10000" using civil_year_range [OF _ _ c] v by (simp_all add: utc_valid_def)
  have md: "m < 100" "d < 100" using civil_small [OF vc] by auto
  have y100: "nat y div 100 < 100" using y by (simp add: div_less_iff_less_mult nat_less_iff)
  have ymod: "nat y mod 100 < 100" by simp
  note sod = second_of_day [of t, folded s_def]
  have hms: "s div 3600 < 100" "s div 60 mod 60 < 100" "s mod 60 < 100" 
    by (rule less_trans [OF sod(1)], simp, rule less_trans [OF sod(2)], simp, rule less_trans [OF sod(3)], simp)
  have yy: "int (100 * (nat y div 100) + nat y mod 100) = y" using y(1) by simp
  have ren: "utc_render t = dec2 (nat y div 100) @ dec2 (nat y mod 100) @ [dash] @ dec2 m @ [dash] @ dec2 d @
      [ch (CHR ''T'')] @ dec2 (s div 3600) @ [colon] @ dec2 (s div 60 mod 60) @ [colon] @
      dec2 (s mod 60) @ [ch (CHR ''Z'')]"
    by (simp add: utc_render_def c s_def Let_def)
  have "day_count (y, m, d) - day_count (1970, 1, 1) = date_naive t"
    using civil_day_count [of "date_naive t"] c v by (simp add: utc_valid_def)
  then have i: "utc_instant (y, m, d) (s div 3600) (s div 60 mod 60) (s mod 60) = whole_second t"
    using sod(4) by (simp only: utc_instant_def)
  show ?thesis
    unfolding ren utc_parse_def dec2_def append_Cons append_Nil list.case Let_def
      undec2_dec2 [OF y100] undec2_dec2 [OF md(1)] undec2_dec2 [OF md(2)] undec2_dec2 [OF hms(1)]
      undec2_dec2 [OF hms(2)] undec2_dec2 [OF hms(3)] undec2_dec2 [OF ymod] yy
    using vc sod(1-3) y100 ymod md hms i
    by (simp only: list.pred_inject digit_dec2 HOL.simp_thms if_True)
qed

lemma utc_plain:
  assumes "utc_valid t" "c \<in> set (utc_render t)"
  shows "32 < c \<and> c < 127 \<and> c \<notin> {34, 60, 62}"
proof -
  obtain y m d where c: "civil_at (date_naive t) = (y, m, d)" by (cases "civil_at (date_naive t)")
  have vc: "valid_civil (y, m, d)"
    using civil_at_valid [of "date_naive t"] assms c by (simp add: utc_valid_def)
  have y: "y < 10000" using civil_year_range [OF _ _ c] assms by (simp add: utc_valid_def)
  have y100: "nat y div 100 < 100" using y by (simp add: div_less_iff_less_mult nat_less_iff)
  note sod = second_of_day [of t]
  have dec: "48 \<le> x \<and> x \<le> 57" if "x \<in> set (dec2 n)" "n < 100" for x n
    using that digit_dec2 [of n] by (auto simp: dec2_def is_ascii_digit_def)
  have ymod: "nat y mod 100 < 100" by simp
  define p q r where pqr: "p = nat (t div NANOS_PER_SEC mod 86400) div 3600"
    "q = nat (t div NANOS_PER_SEC mod 86400) div 60 mod 60" "r = nat (t div NANOS_PER_SEC mod 86400) mod 60"
  have "p < 24" "q < 60" "r < 60" using sod(1-3) unfolding pqr by blast+
  then have small: "p < 100" "q < 100" "r < 100" by simp_all
  have "\<exists>n \<in> {nat y div 100, nat y mod 100, m, d, p, q, r}. c \<in> set (dec2 n) \<or>
      c \<in> {dash, colon, ch (CHR ''T''), ch (CHR ''Z'')}"
    using assms(2) unfolding utc_render_def c Let_def prod.case pqr
    by (simp only: set_append list.set Un_iff insert_iff empty_iff bex_simps) blast
  then obtain n where "n \<in> {nat y div 100, nat y mod 100, m, d, p, q, r}"
    "c \<in> set (dec2 n) \<or> c \<in> {dash, colon, ch (CHR ''T''), ch (CHR ''Z'')}" by blast
  moreover from this(1) have "n < 100" using y100 ymod civil_small [OF vc] small by blast
  moreover have "x \<in> {dash, colon, ch (CHR ''T''), ch (CHR ''Z'')} \<Longrightarrow> 32 < x \<and> x < 127 \<and> x \<notin> {34, 60, 62}" for x
    by (auto simp: dash_def colon_def)
  moreover have "48 \<le> x \<and> x \<le> 57 \<Longrightarrow> 32 < x \<and> x < 127 \<and> x \<notin> {34, 60, 62}" for x :: nat by auto
  ultimately show ?thesis using dec by metis
qed

interpretation utc: timestamp_codec utc_codec utc_valid
proof
  show "utc_valid t \<Longrightarrow> from_rfc3339 utc_codec (to_rfc3339 utc_codec t) = Some (whole_second t)" for t
    by (simp add: utc_codec_def utc_parse_render)
  show "utc_valid t \<Longrightarrow> c \<in> set (to_rfc3339 utc_codec t) \<Longrightarrow> 32 < c \<and> c < 127 \<and> c \<notin> {34, 60, 62}" for t c
    unfolding utc_codec_def codec.simps by (rule utc_plain)
qed

section \<open>The round trip of the run marker\<close>


definition sample_record :: run_record where
  "sample_record =
     \<lparr>rr_slot = at_hm 19723 9 30, rr_manual = False, rr_status = Failed, rr_started = at_hm 19723 9 31 + 5,
      rr_ended = Some (at_hm 19723 9 40), rr_issue = Some 42,
      rr_detail = Some (lit ''boom --> <b>'' @ [quote_char, 10] @ lit '' status=x''),
      rr_steps = [\<lparr>rs_index = 1, rs_id = lit ''fetch'', rs_status = StepOk, rs_duration_s = Some 7\<rparr>,
                  \<lparr>rs_index = 2, rs_id = lit ''build'', rs_status = StepFailed, rs_duration_s = None\<rparr>]\<rparr>"

lemma sample_record_wf: "wf_record utc_valid sample_record"
proof -
  have d: "date_naive (at_hm 19723 9 31 + 5) = 19723"
    by (simp add: date_naive_def at_hm_def NANOS_PER_DAY_def NANOS_PER_SEC_def)
  show ?thesis
    by (simp add: wf_record_def sample_record_def utc_valid_def date_naive_at_hm d wf_step_def str_simps)
qed


end
