(* ===== verification/ScheduleExec.thy ===== *)
theory ScheduleExec
  imports SchedulePlan Rfc3339
begin

text \<open>
  Applying schedule effects to GitHub (\<open>backend/src/reconcile/schedule_execute.rs\<close>).

  The state is what GitHub keeps of one definition issue: its labels, its comments in order, and
  the run issues created for it. Every write is best-effort; which of the writes of one effect
  reach GitHub is given by \<open>writes\<close>, so each theorem holds for every combination of failures.
  The clock readings of the source (\<open>Utc::now()\<close>) are arguments.
\<close>

section \<open>The state on GitHub\<close>

record issue_comment =
  ic_user_login :: str
  ic_body :: str

record run_issue =
  ri_number :: nat
  ri_request :: run_issue_request
  ri_title :: str
  ri_body :: str
  ri_labels :: "str list"
  ri_assignees :: "str list"

record issue_state =
  is_labels :: "str list"
  is_comments :: "issue_comment list"
  is_runs :: "run_issue list"
  is_next :: nat

text \<open>Which calls succeed: creating, labelling and assigning the run issue, posting the comment,
  adding labels, and removing each label.\<close>

record writes =
  wr_create :: bool
  wr_run_label :: bool
  wr_assign :: bool
  wr_comment :: bool
  wr_add :: bool
  wr_remove :: "str \<Rightarrow> bool"

text \<open>
  What an execution is given: the timestamp codec, the login GitHub shows for the App, and the
  rendering of a rejection.
\<close>

record exec_env =
  env_codec :: codec
  env_author :: str
  env_detail :: "invalid_detail \<Rightarrow> str"

definition post_comment_best_effort :: "exec_env \<Rightarrow> writes \<Rightarrow> str \<Rightarrow> issue_state \<Rightarrow> issue_state" where
  "post_comment_best_effort env w body st =
     (if wr_comment w
      then st\<lparr>is_comments := is_comments st @ [\<lparr>ic_user_login = env_author env, ic_body = body\<rparr>]\<rparr>
      else st)"

definition post_record :: "exec_env \<Rightarrow> writes \<Rightarrow> run_record \<Rightarrow> str \<Rightarrow> issue_state \<Rightarrow> issue_state" where
  "post_record env w r human st =
     post_comment_best_effort env w (human @ [10, 10] @ render_marker (env_codec env) r) st"

definition set_labels :: "writes \<Rightarrow> str list \<Rightarrow> str list \<Rightarrow> issue_state \<Rightarrow> issue_state" where
  "set_labels w add remove st =
     (let added = (if add \<noteq> [] \<and> wr_add w
                   then is_labels st @ filter (\<lambda>l. l \<notin> set (is_labels st)) add else is_labels st)
      in st\<lparr>is_labels := filter (\<lambda>l. \<not> (l \<in> set remove \<and> wr_remove w l)) added\<rparr>)"

text \<open>
  Create the run issue, then label it, then assign it. A failed label write is an error, a failed
  assignment is not; what was written stays written.
\<close>

definition create_run_issue ::
  "exec_env \<Rightarrow> writes \<Rightarrow> run_issue_request \<Rightarrow> issue_state \<Rightarrow> nat option \<times> issue_state" where
  "create_run_issue env w rq st =
     (if \<not> wr_create w then (None, st)
      else
        let n = is_next st;
            bare = \<lparr>ri_number = n, ri_request = rq, ri_title = title (env_codec env) rq,
                    ri_body = render_run_issue_body (env_codec env) rq, ri_labels = [], ri_assignees = []\<rparr>;
            created = (\<lambda>ri. st\<lparr>is_runs := is_runs st @ [ri], is_next := n + 1\<rparr>)
        in if \<not> wr_run_label w then (None, created bare)
           else
             let labelled = bare\<lparr>ri_labels := [rq_work_label rq]\<rparr>
             in (Some n, created (if wr_assign w then labelled\<lparr>ri_assignees := [rq_creator_login rq]\<rparr>
                                  else labelled)))"

definition skipped_note :: "nat \<Rightarrow> str" where
  "skipped_note skipped =
     (if skipped > 0
      then lit '' '' @ show_nat skipped @ lit '' earlier slot(s) were missed and will not be replayed.''
      else [])"

definition dispatch_human :: "codec \<Rightarrow> instant \<Rightarrow> nat \<Rightarrow> nat \<Rightarrow> str" where
  "dispatch_human cod slot run_issue skipped =
     9201 # lit '' Scheduled run started '' @ [em_dash] @ lit '' slot `'' @ to_rfc3339 cod slot @
     lit ''`, tracked in #'' @ show_nat run_issue @ lit ''.'' @ skipped_note skipped"

definition dispatch ::
  "exec_env \<Rightarrow> instant \<Rightarrow> writes \<Rightarrow> run_issue_request \<Rightarrow> nat \<Rightarrow> issue_state \<Rightarrow> issue_state" where
  "dispatch env now w rq skipped st =
     (case create_run_issue env w rq st of
        (None, st) \<Rightarrow> st
      | (Some run_issue, st) \<Rightarrow>
          set_labels w [CRON_RUNNING_LABEL] []
            (post_record env w (with_issue (new_record (rq_slot rq) Dispatched now) run_issue)
              (dispatch_human (env_codec env) (rq_slot rq) run_issue skipped) st))"

definition manual_human :: "nat \<Rightarrow> str" where
  "manual_human run_issue =
     [9654, 65039] @ lit '' Manual run started '' @ [em_dash] @ lit '' tracked in #'' @ show_nat run_issue @ lit ''.''"

definition dispatch_manual_run ::
  "exec_env \<Rightarrow> instant \<Rightarrow> writes \<Rightarrow> run_issue_request \<Rightarrow> issue_state \<Rightarrow> nat option \<times> issue_state" where
  "dispatch_manual_run env now w rq st =
     (case create_run_issue env w rq st of
        (None, st) \<Rightarrow> (None, st)
      | (Some run_issue, st) \<Rightarrow>
          (Some run_issue,
           set_labels w [CRON_RUNNING_LABEL] []
             (post_record env w (with_issue (manual (new_record (rq_slot rq) Dispatched now)) run_issue)
               (manual_human run_issue) st)))"

definition skip_human :: str where
  "skip_human = 9197 # lit '' Slot skipped '' @ [em_dash] @ lit '' the previous run was still in flight.''"

definition expire_human :: "int \<Rightarrow> str" where
  "expire_human elapsed =
     9201 # lit '' Run released by the watchdog after '' @ show_int elapsed @
     lit ''s. The next slot may proceed.''"

definition expire_record :: "instant \<Rightarrow> instant \<Rightarrow> instant \<Rightarrow> run_record" where
  "expire_record slot started now =
     with_detail ((new_record slot Timeout now)\<lparr>rr_started := started, rr_ended := Some now\<rparr>)
       (lit ''exceeded its budget after '' @ show_int (max 0 (num_seconds (now - started))) @ lit ''s'')"

definition invalid_comment :: "str \<Rightarrow> str" where
  "invalid_comment detail =
     [9888, 65039] @ lit '' **This scheduled workflow is not running.**'' @ [10, 10] @ detail @ [10, 10] @
     lit ''Edit this issue to fix it '' @ [em_dash] @ lit '' the label clears automatically on the next reconcile.''"

definition complete_labels :: "run_status \<Rightarrow> str list \<times> str list" where
  "complete_labels status =
     (case status of
        Ok \<Rightarrow> ([], [CRON_RUNNING_LABEL, CRON_FAILED_LABEL, CRON_TIMEOUT_LABEL])
      | Timeout \<Rightarrow> ([CRON_TIMEOUT_LABEL], [CRON_RUNNING_LABEL])
      | _ \<Rightarrow> ([CRON_FAILED_LABEL], [CRON_RUNNING_LABEL]))"

fun execute_schedule_effect ::
  "exec_env \<Rightarrow> instant \<Rightarrow> writes \<Rightarrow> schedule_effect \<Rightarrow> issue_state \<Rightarrow> issue_state" where
  "execute_schedule_effect env now w (EffDispatch i rq skipped) st = dispatch env now w rq skipped st"
| "execute_schedule_effect env now w (EffRecordSkip i slot) st =
     post_record env w
       (with_detail (new_record slot SkippedOverlap now) (lit ''the previous run was still in flight''))
       skip_human st"
| "execute_schedule_effect env now w (EffExpire i slot started) st =
     set_labels w [CRON_TIMEOUT_LABEL] [CRON_RUNNING_LABEL]
       (post_record env w (expire_record slot started now)
         (expire_human (max 0 (num_seconds (now - started)))) st)"
| "execute_schedule_effect env now w (EffComplete i slot status) st =
     (case complete_labels status of (add, remove) \<Rightarrow> set_labels w add remove st)"
| "execute_schedule_effect env now w (EffReleaseRunning i) st = set_labels w [] [CRON_RUNNING_LABEL] st"
| "execute_schedule_effect env now w (EffAdoptRunning i slot) st = set_labels w [CRON_RUNNING_LABEL] [] st"
| "execute_schedule_effect env now w (EffFlagInvalid i detail) st =
     post_comment_best_effort env w (invalid_comment (env_detail env detail))
       (set_labels w [SCHEDULE_INVALID_LABEL] [] st)"
| "execute_schedule_effect env now w (EffClearInvalid i) st = set_labels w [] [SCHEDULE_INVALID_LABEL] st"

text \<open>The effects of one plan, each with the outcome of its own writes.\<close>

fun execute_all ::
  "exec_env \<Rightarrow> instant \<Rightarrow> (nat \<Rightarrow> writes) \<Rightarrow> schedule_effect list \<Rightarrow> issue_state \<Rightarrow> issue_state" where
  "execute_all env now ws [] st = st"
| "execute_all env now ws (e # es) st =
     execute_all env now (\<lambda>n. ws (Suc n)) es (execute_schedule_effect env now (ws 0) e st)"

section \<open>Trusted history\<close>

text \<open>
  The author check of \<open>backend/src/reconcile/schedule_pass.rs\<close>, and the records recovered from the
  trusted comments.
\<close>

definition normalize_bot :: "str \<Rightarrow> str" where
  "normalize_bot login = to_ascii_lowercase (trim_end_matches_str (lit ''[bot]'') (trim login))"

definition comment_is_from_bot :: "str \<Rightarrow> str \<Rightarrow> bool" where
  "comment_is_from_bot author bot_login \<longleftrightarrow> author \<noteq> [] \<and> normalize_bot author = normalize_bot bot_login"

definition trusted_records :: "codec \<Rightarrow> str \<Rightarrow> issue_comment list \<Rightarrow> run_record list" where
  "trusted_records cod bot_login history =
     collect_records cod (map ic_body (filter (\<lambda>c. comment_is_from_bot (ic_user_login c) bot_login) history))"

end
