(* ===== verification/ScheduleRuns.thy ===== *)
theory ScheduleRuns
  imports ScheduleExec
begin

text \<open>
  Every run of one scheduled workflow: passes of the clock with arbitrary write failures, runs
  started by hand, terminal records of the session, other people's comments and label changes, as
  a step relation on what GitHub keeps. The invariant of the reachable states, the repair of
  interrupted dispatches, the watchdog, and three behaviours that differ from the comments of the
  source.
\<close>

section \<open>Posted records are read back\<close>

definition human_line :: "str \<Rightarrow> bool" where
  "human_line h \<longleftrightarrow> h \<noteq> [] \<and> 10 \<notin> set h \<and> \<not> is_whitespace (hd h) \<and> hd h \<noteq> ch (CHR ''<'')"

lemma human_line_no_marker:
  assumes "human_line h"
  shows "\<not> starts_with MARKER_PREFIX (trim_start (chomp_cr h))"
proof -
  obtain c r where h: "h = c # r" using assms by (cases h) (auto simp: human_line_def)
  have c: "\<not> is_whitespace c" "c \<noteq> 60" using assms by (simp_all add: human_line_def h)
  have "c \<noteq> 13" using c by (auto simp: is_whitespace_def)
  have "\<exists>r'. chomp_cr h = c # r'"
  proof (cases "strip_suffix [13] h")
    case (Some x)
    then have "c # r = x @ [13]" by (simp add: strip_suffix_Some_iff h)
    then have "\<exists>r'. x = c # r'" using \<open>c \<noteq> 13\<close> by (cases x) auto
    then show ?thesis by (simp add: chomp_cr_def Some)
  qed (simp add: chomp_cr_def h)
  then obtain r' where "chomp_cr h = c # r'" by blast
  then show ?thesis using c
    by (simp add: trim_start_def starts_with_iff_prefix MARKER_PREFIX_def str_simps)
qed

lemma show_nat_no_newline [simp]: "10 \<notin> set (show_nat n)"
  using digit_range [of 10 n] by auto

lemma show_int_no_newline [simp]: "10 \<notin> set (show_int i)"
  by (simp add: show_int_def)

lemma human_lines [simp]:
  "human_line skip_human" "human_line (expire_human e)" "human_line (manual_human n)"
  by (simp_all add: human_line_def skip_human_def expire_human_def manual_human_def em_dash_def
      is_whitespace_def str_simps)

lemma trusted_records_append:
  "trusted_records cod bl (h @ h') = trusted_records cod bl h @ trusted_records cod bl h'"
  by (simp add: trusted_records_def collect_records_append)

lemma untrusted_comment:
  "\<not> comment_is_from_bot (ic_user_login c) bl \<Longrightarrow> trusted_records cod bl [c] = []"
  by (simp add: trusted_records_def collect_records_def)

lemma is_comments_set_labels [simp]:
  "is_comments (set_labels w a r st) = is_comments st" "is_runs (set_labels w a r st) = is_runs st"
  "is_next (set_labels w a r st) = is_next st"
  by (simp_all add: set_labels_def Let_def)

lemma is_runs_post [simp]:
  "is_runs (post_record env w r h st) = is_runs st" "is_labels (post_record env w r h st) = is_labels st"
  "is_next (post_record env w r h st) = is_next st"
  by (simp_all add: post_record_def post_comment_best_effort_def)

lemma post_record_history:
  assumes "timestamp_codec (env_codec env) valid" "comment_is_from_bot (env_author env) bl"
    "wf_record valid r" "human_line h"
  shows "trusted_records (env_codec env) bl (is_comments (post_record env w r h st)) =
    trusted_records (env_codec env) bl (is_comments st) @ (if wr_comment w then [canonical r] else [])"
proof -
  have "collect_records (env_codec env) [h @ 10 # 10 # render_marker (env_codec env) r] = [canonical r]"
    using timestamp_codec.collect_comment [OF assms(1,3)] assms(4) human_line_no_marker [OF assms(4)]
    by (simp add: human_line_def)
  then show ?thesis
    using assms(2)
    by (simp add: post_record_def post_comment_best_effort_def trusted_records_append)
       (simp add: trusted_records_def)
qed

section \<open>Runs of a definition\<close>

text \<open>
  What is fixed over the life of a definition: the calendar, the execution environment, the App
  login, the configuration, the issue number and the creation time. The body is editable, so each
  pass may see another specification.
\<close>

record sched_ctx =
  cx_cal :: calendar
  cx_env :: exec_env
  cx_bot :: str
  cx_cfg :: cron_config
  cx_issue :: int
  cx_anchor :: instant

abbreviation records_of :: "sched_ctx \<Rightarrow> issue_state \<Rightarrow> run_record list" where
  "records_of cx st \<equiv> trusted_records (env_codec (cx_env cx)) (cx_bot cx) (is_comments st)"

definition observe :: "sched_ctx \<Rightarrow> scheduled_workflow_spec \<Rightarrow> str \<Rightarrow> str \<Rightarrow> issue_state \<Rightarrow> schedule_observation" where
  "observe cx spec wl creator st =
     \<lparr>ob_schedule_issue = cx_issue cx, ob_labels = is_labels st, ob_created_at = cx_anchor cx,
      ob_spec = spec, ob_records = records_of cx st, ob_work_label = wl, ob_creator_login = creator\<rparr>"

definition pass ::
  "sched_ctx \<Rightarrow> scheduled_workflow_spec \<Rightarrow> str \<Rightarrow> str \<Rightarrow> instant \<Rightarrow> instant \<Rightarrow> (nat \<Rightarrow> writes) \<Rightarrow>
   issue_state \<Rightarrow> issue_state" where
  "pass cx spec wl creator now now' ws st =
     execute_all (cx_env cx) now' ws
       (plan_schedule (cx_cal cx) (observe cx spec wl creator st) now (cx_cfg cx)) st"

definition wf_ctx :: "(instant \<Rightarrow> bool) \<Rightarrow> sched_ctx \<Rightarrow> bool" where
  "wf_ctx valid cx \<longleftrightarrow>
     timestamp_codec (env_codec (cx_env cx)) valid \<and>
     (\<forall>t. representable (cx_cal cx) t \<longrightarrow> valid t) \<and>
     comment_is_from_bot (env_author (cx_env cx)) (cx_bot cx) \<and>
     representable (cx_cal cx) (cx_anchor cx)"

text \<open>
  The steps: a pass of the clock (planned at \<open>now\<close>, executed at \<open>now'\<close>), a run started by hand, a
  terminal record written by the session for a run in flight, any comment of another author, and
  any change of labels by a user.
\<close>

inductive sched_step :: "sched_ctx \<Rightarrow> instant \<times> issue_state \<Rightarrow> instant \<times> issue_state \<Rightarrow> bool"
  for cx where
  step_pass: "sched_step cx (t, st) (now', pass cx spec wl creator now now' ws st)"
    if "t \<le> now" "now \<le> now'" "representable (cx_cal cx) now" "representable (cx_cal cx) now'"
      "is_next st < 2 ^ 64"
| step_manual: "sched_step cx (t, st) (now, snd (dispatch_manual_run (cx_env cx) now w rq st))"
    if "t \<le> now" "representable (cx_cal cx) now" "is_next st < 2 ^ 64"
      "CRON_RUNNING_LABEL \<notin> set (is_labels st)" "rq_manual rq" "rq_slot rq = now"
| step_pod: "sched_step cx (t, st) (now, post_record (cx_env cx) w r h st)"
    if "t \<le> now" "open_record (records_of cx st) r0" "rr_slot r = rr_slot r0" "is_terminal (rr_status r)"
      "wf_record (representable (cx_cal cx)) r" "human_line h"
| step_comment: "sched_step cx (t, st) (now, st\<lparr>is_comments := is_comments st @ [c]\<rparr>)"
    if "t \<le> now" "\<not> comment_is_from_bot (ic_user_login c) (cx_bot cx)"
| step_labels: "sched_step cx (t, st) (now, st\<lparr>is_labels := ls\<rparr>)"
    if "t \<le> now"

inductive sched_reachable :: "sched_ctx \<Rightarrow> instant \<times> issue_state \<Rightarrow> bool"
  for cx where
  reach_init: "sched_reachable cx (cx_anchor cx, st)" if "records_of cx st = []"
| reach_step: "sched_reachable cx q" if "sched_reachable cx p" "sched_step cx p q"

section \<open>The invariant\<close>

definition clock_slots :: "run_record list \<Rightarrow> instant list" where
  "clock_slots rs = map rr_slot (filter (\<lambda>r. rr_status r = Dispatched \<and> \<not> rr_manual r) rs)"

definition backed :: "run_issue list \<Rightarrow> run_record \<Rightarrow> bool" where
  "backed runs r \<longleftrightarrow>
     (\<exists>ri \<in> set runs. rr_issue r = Some (ri_number ri) \<and> rq_work_label (ri_request ri) \<in> set (ri_labels ri) \<and>
        whole_second (rq_slot (ri_request ri)) = rr_slot r)"

definition sched_inv :: "sched_ctx \<Rightarrow> instant \<times> issue_state \<Rightarrow> bool" where
  "sched_inv cx p \<longleftrightarrow>
     (let rs = records_of cx (snd p)
      in (\<forall>r \<in> set rs. rr_slot r \<le> fst p \<and> representable (cx_cal cx) (rr_slot r) \<and>
            representable (cx_cal cx) (rr_started r) \<and> whole_second (rr_slot r) = rr_slot r) \<and>
         (\<forall>r \<in> set rs. rr_status r = Dispatched \<longrightarrow> backed (is_runs (snd p)) r) \<and>
         distinct (clock_slots rs))"

lemma whole_second_le: "whole_second t \<le> t"
proof -
  have "NANOS_PER_SEC * (t div NANOS_PER_SEC) + t mod NANOS_PER_SEC = t" by simp
  moreover have "0 \<le> t mod NANOS_PER_SEC" by simp
  ultimately show ?thesis unfolding whole_second_def by linarith
qed

lemma whole_second_idem [simp]: "whole_second (whole_second t) = whole_second t"
  by (simp add: whole_second_def NANOS_PER_SEC_def)

lemma date_whole_second: "date_naive (whole_second t) = date_naive t"
proof -
  have "NANOS_PER_SEC * (t div NANOS_PER_SEC) div NANOS_PER_SEC = t div NANOS_PER_SEC"
    by (simp add: NANOS_PER_SEC_def)
  moreover have "u div NANOS_PER_DAY = u div NANOS_PER_SEC div 86400" for u
    unfolding NANOS_PER_DAY_def by (simp add: zdiv_zmult2_eq NANOS_PER_SEC_def mult.commute)
  ultimately show ?thesis unfolding date_naive_def whole_second_def by (simp only:)
qed

lemma representable_whole_second [simp]: "representable cal (whole_second t) \<longleftrightarrow> representable cal t"
  by (simp add: representable_def date_whole_second)

lemma whole_second_at_hm: "whole_second (at_hm d h m) = at_hm d h m"
proof -
  have "at_hm d h m = NANOS_PER_SEC * (d * 86400 + int h * 3600 + int m * 60)"
    by (simp add: at_hm_def NANOS_PER_DAY_def algebra_simps)
  then show ?thesis by (simp add: whole_second_def NANOS_PER_SEC_def)
qed

lemma whole_second_fires: "fires cal e t \<Longrightarrow> whole_second t = t"
  by (auto simp: fires_def whole_second_at_hm)

lemma canonical_simps [simp]:
  "rr_slot (canonical r) = whole_second (rr_slot r)" "rr_status (canonical r) = rr_status r"
  "rr_started (canonical r) = whole_second (rr_started r)" "rr_manual (canonical r) = rr_manual r"
  "rr_issue (canonical r) = rr_issue r"
  by (simp_all add: canonical_def)

lemma inv_extend:
  assumes "sched_inv cx (t, st)" "t \<le> t'" "records_of cx st' = records_of cx st @ new"
    "is_runs st' = is_runs st @ extra" "length new \<le> 1"
    "\<And>r. r \<in> set new \<Longrightarrow> rr_slot r \<le> t' \<and> representable (cx_cal cx) (rr_slot r) \<and>
       representable (cx_cal cx) (rr_started r) \<and> whole_second (rr_slot r) = rr_slot r \<and>
       (rr_status r = Dispatched \<longrightarrow> backed (is_runs st') r) \<and>
       (rr_status r = Dispatched \<and> \<not> rr_manual r \<longrightarrow> rr_slot r \<notin> rr_slot ` set (records_of cx st))"
  shows "sched_inv cx (t', st')"
proof -
  let ?rs = "records_of cx st"
  have old: "\<forall>r \<in> set ?rs. rr_slot r \<le> t \<and> representable (cx_cal cx) (rr_slot r) \<and>
      representable (cx_cal cx) (rr_started r) \<and> whole_second (rr_slot r) = rr_slot r"
    "\<forall>r \<in> set ?rs. rr_status r = Dispatched \<longrightarrow> backed (is_runs st) r" "distinct (clock_slots ?rs)"
    using assms(1) by (simp_all add: sched_inv_def Let_def)
  have b: "backed (is_runs st) r \<Longrightarrow> backed (is_runs st') r" for r
    using assms(4) by (auto simp: backed_def)
  have "distinct (clock_slots (?rs @ new))"
  proof (cases new)
    case (Cons r rest)
    then have "new = [r]" using assms(5) by simp
    then show ?thesis using old(3) assms(6) [of r] by (auto simp: clock_slots_def)
  qed (use old(3) in simp)
  moreover have "\<forall>r \<in> set (?rs @ new). rr_slot r \<le> t' \<and> representable (cx_cal cx) (rr_slot r) \<and>
      representable (cx_cal cx) (rr_started r) \<and> whole_second (rr_slot r) = rr_slot r"
    using old(1) assms(2,6) by fastforce
  moreover have "\<forall>r \<in> set (?rs @ new). rr_status r = Dispatched \<longrightarrow> backed (is_runs st') r"
    using old(2) assms(6) b by auto
  ultimately show ?thesis by (simp add: sched_inv_def assms(3))
qed

lemma inv_same: "sched_inv cx (t, st) \<Longrightarrow> t \<le> t' \<Longrightarrow> records_of cx st' = records_of cx st \<Longrightarrow>
    is_runs st' = is_runs st \<Longrightarrow> sched_inv cx (t', st')"
  by (rule inv_extend [where new = "[]" and extra = "[]"]) auto

lemma wf_new_record:
  "valid slot \<Longrightarrow> valid now \<Longrightarrow> wf_record valid (new_record slot status now)"
  by (simp add: wf_record_def new_record_def)

text \<open>The three ways creating a run issue can end.\<close>

lemma create_run_issue_cases:
  obtains "create_run_issue env w rq st = (None, st)"
  | ri where "fst (create_run_issue env w rq st) = None"
      "snd (create_run_issue env w rq st) = st\<lparr>is_runs := is_runs st @ [ri], is_next := is_next st + 1\<rparr>"
  | ri where "create_run_issue env w rq st =
      (Some (is_next st), st\<lparr>is_runs := is_runs st @ [ri], is_next := is_next st + 1\<rparr>)"
      "ri_number ri = is_next st" "ri_request ri = rq" "ri_labels ri = [rq_work_label rq]"
proof (cases "wr_create w")
  case True
  show ?thesis
  proof (cases "wr_run_label w")
    case True
    then show ?thesis using \<open>wr_create w\<close> that(3) by (auto simp: create_run_issue_def Let_def)
  qed (use \<open>wr_create w\<close> that(2) in \<open>auto simp: create_run_issue_def Let_def\<close>)
qed (use that(1) in \<open>simp add: create_run_issue_def\<close>)

lemma dispatch_human_line:
  assumes "timestamp_codec cod valid" "valid slot"
  shows "human_line (dispatch_human cod slot n k)"
proof -
  have "10 \<notin> set (to_rfc3339 cod slot)"
    using timestamp_codec.plain [OF assms, of 10] by auto
  then show ?thesis
    by (simp add: human_line_def dispatch_human_def skipped_note_def em_dash_def is_whitespace_def str_simps)
qed

text \<open>A slot the clock finds due is later than every recorded slot, unless nothing is recorded.\<close>

lemma due_slot_new:
  assumes "due_slot cal mode (build_state ob) now = Some slot" "representable cal now"
  shows "slot \<le> now \<and> whole_second slot \<notin> rr_slot ` set (ob_records ob) \<and>
    (mode = Once \<longrightarrow> slot = ob_created_at ob) \<and> (mode \<noteq> Once \<longrightarrow> representable cal slot)"
proof (cases mode)
  case Once
  then have "cursor (build_state ob) = None" "slot = ob_created_at ob" "slot \<le> now"
    using assms(1) by (auto simp: due_slot_def build_state_def split: if_splits)
  then show ?thesis using Once by (simp add: build_state_def)
next
  case (Cron e)
  note due = due_slot_cron [OF assms(2), of e "build_state ob" slot]
  have d: "fires cal e slot" "floor_of (build_state ob) < slot" "slot \<le> now"
    using due assms(1) Cron by auto
  have "rr_slot r \<le> floor_of (build_state ob)" if r: "r \<in> set (ob_records ob)" for r
  proof -
    obtain c where c: "max_opt (map rr_slot (ob_records ob)) = Some c"
      using r by (cases "max_opt (map rr_slot (ob_records ob))") auto
    then show ?thesis using max_opt_ge [OF c, of "rr_slot r"] r by (simp add: floor_of_def build_state_def)
  qed
  then show ?thesis
    using d whole_second_fires [OF d(1)] cron.occurs_range [OF d(1)] Cron by fastforce
qed

lemma dispatch_inv:
  assumes cx: "wf_ctx valid cx" and inv: "sched_inv cx (t, st)" and "t \<le> now" "representable (cx_cal cx) now"
    "rq_slot rq \<le> now" "representable (cx_cal cx) (rq_slot rq)" "is_next st < 2 ^ 64"
    "whole_second (rq_slot rq) \<notin> rr_slot ` set (records_of cx st)"
  shows "sched_inv cx (now, dispatch (cx_env cx) now w rq k st)"
proof (cases rule: create_run_issue_cases [of "cx_env cx" w rq st])
  case 1
  then show ?thesis using inv_same [OF inv \<open>t \<le> now\<close>] by (simp add: dispatch_def)
next
  case (2 ri)
  then have "dispatch (cx_env cx) now w rq k st = snd (create_run_issue (cx_env cx) w rq st)"
    by (cases "create_run_issue (cx_env cx) w rq st") (simp add: dispatch_def)
  then show ?thesis using 2
    by (intro inv_extend [OF inv \<open>t \<le> now\<close>, where new = "[]" and extra = "[ri]"]) simp_all
next
  case (3 ri)
  let ?r = "with_issue (new_record (rq_slot rq) Dispatched now) (is_next st)"
  let ?d = "dispatch (cx_env cx) now w rq k st"
  have v: "valid (rq_slot rq)" "valid now" and cod: "timestamp_codec (env_codec (cx_env cx)) valid"
    and bl: "comment_is_from_bot (env_author (cx_env cx)) (cx_bot cx)"
    using cx assms(4,6) by (auto simp: wf_ctx_def)
  have wf: "wf_record valid ?r" using v assms(7) by (simp add: wf_record_def with_issue_def new_record_def is_terminal_def)
  have rs: "records_of cx ?d = records_of cx st @ (if wr_comment w then [canonical ?r] else [])"
    using 3 post_record_history [OF cod bl wf dispatch_human_line [OF cod v(1)]] by (simp add: dispatch_def)
  have runs: "is_runs ?d = is_runs st @ [ri]" using 3 by (simp add: dispatch_def)
  have "backed (is_runs ?d) (canonical ?r)"
    using 3 runs by (auto simp: backed_def with_issue_def new_record_def)
  then show ?thesis
    using assms(4-6,8) whole_second_le [of "rq_slot rq"]
    by (intro inv_extend [OF inv \<open>t \<le> now\<close> rs runs])
       (auto simp: with_issue_def new_record_def split: if_splits)
qed

lemma manual_inv:
  assumes cx: "wf_ctx valid cx" and inv: "sched_inv cx (t, st)" and "t \<le> now" "representable (cx_cal cx) now"
    "rq_slot rq = now" "is_next st < 2 ^ 64"
  shows "sched_inv cx (now, snd (dispatch_manual_run (cx_env cx) now w rq st))"
proof (cases rule: create_run_issue_cases [of "cx_env cx" w rq st])
  case 1
  then show ?thesis using inv_same [OF inv \<open>t \<le> now\<close>] by (simp add: dispatch_manual_run_def)
next
  case (2 ri)
  then have "snd (dispatch_manual_run (cx_env cx) now w rq st) = snd (create_run_issue (cx_env cx) w rq st)"
    by (cases "create_run_issue (cx_env cx) w rq st") (simp add: dispatch_manual_run_def)
  then show ?thesis using 2
    by (intro inv_extend [OF inv \<open>t \<le> now\<close>, where new = "[]" and extra = "[ri]"]) simp_all
next
  case (3 ri)
  let ?r = "with_issue (manual (new_record (rq_slot rq) Dispatched now)) (is_next st)"
  let ?d = "snd (dispatch_manual_run (cx_env cx) now w rq st)"
  have v: "valid now" and cod: "timestamp_codec (env_codec (cx_env cx)) valid"
    and bl: "comment_is_from_bot (env_author (cx_env cx)) (cx_bot cx)"
    using cx assms(4) by (auto simp: wf_ctx_def)
  have wf: "wf_record valid ?r"
    using v assms(5,6) by (simp add: wf_record_def with_issue_def manual_def new_record_def is_terminal_def)
  have rs: "records_of cx ?d = records_of cx st @ (if wr_comment w then [canonical ?r] else [])"
    using 3 post_record_history [OF cod bl wf human_lines(3)] by (simp add: dispatch_manual_run_def)
  have runs: "is_runs ?d = is_runs st @ [ri]" using 3 by (simp add: dispatch_manual_run_def)
  have "backed (is_runs ?d) (canonical ?r)"
    using 3 runs by (auto simp: backed_def with_issue_def manual_def new_record_def)
  then show ?thesis
    using assms(4-6) whole_second_le [of now]
    by (intro inv_extend [OF inv \<open>t \<le> now\<close> rs runs])
       (auto simp: with_issue_def manual_def new_record_def split: if_splits)
qed

text \<open>A terminal record keeps the invariant, whatever its slot.\<close>

lemma terminal_record_inv:
  assumes cx: "wf_ctx valid cx" and inv: "sched_inv cx (t, st)" and "t \<le> now"
    "wf_record (representable (cx_cal cx)) r" "is_terminal (rr_status r)" "rr_slot r \<le> now" "human_line h"
  shows "sched_inv cx (now, post_record (cx_env cx) w r h st)"
proof -
  have wf: "wf_record valid r"
    using assms(4) cx by (auto simp: wf_record_def wf_ctx_def pred_option_def)
  have rs: "records_of cx (post_record (cx_env cx) w r h st) =
      records_of cx st @ (if wr_comment w then [canonical r] else [])"
    using cx by (intro post_record_history [OF _ _ wf assms(7)]) (auto simp: wf_ctx_def)
  show ?thesis
    using assms(4-6) whole_second_le [of "rr_slot r"]
    by (intro inv_extend [OF inv \<open>t \<le> now\<close> rs, where extra = "[]"])
       (auto simp: is_terminal_def wf_record_def split: if_splits)
qed

lemma inv_labels: "sched_inv cx (t, st) \<Longrightarrow> sched_inv cx (t, set_labels w a r st)"
  by (simp add: sched_inv_def)

lemma effect_inv:
  assumes cx: "wf_ctx valid cx" and inv: "sched_inv cx (t, st)" and "t \<le> now" "now \<le> now'"
    "representable (cx_cal cx) now" "representable (cx_cal cx) now'" "is_next st < 2 ^ 64"
    "eff \<in> set (plan_schedule (cx_cal cx) (observe cx spec wl creator st) now (cx_cfg cx))"
  shows "sched_inv cx (now', execute_schedule_effect (cx_env cx) now' w eff st)"
proof -
  let ?ob = "observe cx spec wl creator st"
  have inv': "sched_inv cx (now', st)" using inv_same [OF inv] assms(3,4) by simp
  have recs: "ob_records ?ob = records_of cx st" "ob_created_at ?ob = cx_anchor cx" by (simp_all add: observe_def)
  have due: "slot \<le> now' \<and> representable (cx_cal cx) slot \<and> whole_second slot \<notin> rr_slot ` set (records_of cx st)"
    if "due_slot (cx_cal cx) mode (build_state ?ob) now = Some slot" for mode slot
    using due_slot_new [OF that assms(5)] assms(4) cx recs by (cases mode) (auto simp: wf_ctx_def)
  have old: "rr_slot r \<le> now' \<and> representable (cx_cal cx) (rr_slot r) \<and> representable (cx_cal cx) (rr_started r)"
    if "r \<in> set (records_of cx st)" for r using inv' that by (simp add: sched_inv_def Let_def)
  show ?thesis
  proof (cases eff)
    case (EffDispatch i rq k)
    then have d: "decide (cx_cal cx) (run_mode (ob_spec ?ob)) (build_state ?ob) now (run_budget (cx_cfg cx)) =
        Dispatch (rq_slot rq) k" using plan_schedule_Dispatch assms(8) by blast
    then have "due_slot (cx_cal cx) (run_mode (ob_spec ?ob)) (build_state ?ob) now = Some (rq_slot rq)"
      by (simp add: decide_Dispatch_iff)
    from due [OF this] show ?thesis
      using assms(3-7) EffDispatch dispatch_inv [OF cx inv, of now' rq w k] by simp
  next
    case (EffRecordSkip i slot)
    then have "due_slot (cx_cal cx) (run_mode (ob_spec ?ob)) (build_state ?ob) now = Some slot"
      using assms(8) by (auto simp: plan_schedule_def action_effects_def decide_def Let_def split: schedule_action.splits if_splits
          option.splits bool.splits)
    then show ?thesis
      using due assms(3-6) EffRecordSkip
      by (auto intro!: terminal_record_inv [OF cx inv] simp: wf_record_def with_detail_def new_record_def is_terminal_def)
  next
    case (EffExpire i slot started)
    then obtain r where r: "open_dispatch_of (records_of cx st) = Some r" "slot = rr_slot r" "started = rr_started r"
      using assms(8) recs
      by (auto simp: plan_schedule_def action_effects_def decide_def Let_def build_state_def split: schedule_action.splits if_splits
          option.splits bool.splits)
    then have "r \<in> set (records_of cx st)" using open_dispatch_Some by (auto simp: open_record_def)
    note o = old [OF this]
    have "sched_inv cx (now', post_record (cx_env cx) w (expire_record slot started now') h st)" if "human_line h" for h
      using o r assms(3-6) that
      by (intro terminal_record_inv [OF cx inv])
         (auto simp: expire_record_def wf_record_def with_detail_def new_record_def is_terminal_def)
    then show ?thesis using EffExpire by (simp add: inv_labels)
  next
    case (EffFlagInvalid i d)
    then show ?thesis using assms(8) by (auto simp: plan_schedule_def action_effects_def Let_def split: schedule_action.splits if_splits)
  qed (use inv' in \<open>auto simp: inv_labels split: prod.splits\<close>)
qed

text \<open>A plan is at most one clearing of the invalid latch, then at most one other effect.\<close>

lemma plan_schedule_shape:
  "\<exists>main. plan_schedule cal ob now cfg =
     (if SCHEDULE_INVALID_LABEL \<in> set (ob_labels ob) then [EffClearInvalid (ob_schedule_issue ob)] else []) @ main \<and>
     (main = [] \<or> (\<exists>e. main = [e]))"
  by (auto simp: plan_schedule_def action_effects_def Let_def split: schedule_action.splits)

lemma pass_inv:
  assumes cx: "wf_ctx valid cx" and inv: "sched_inv cx (t, st)" and "t \<le> now" "now \<le> now'"
    "representable (cx_cal cx) now" "representable (cx_cal cx) now'" "is_next st < 2 ^ 64"
  shows "sched_inv cx (now', pass cx spec wl creator now now' ws st)"
proof -
  let ?plan = "plan_schedule (cx_cal cx) (observe cx spec wl creator st) now (cx_cfg cx)"
  have inv': "sched_inv cx (now', st)" using inv_same [OF inv] assms(3,4) by simp
  have one: "sched_inv cx (now', execute_schedule_effect (cx_env cx) now' w e st)" if "e \<in> set ?plan" for e w
    using effect_inv [OF assms that] .
  have two: "sched_inv cx (now', execute_schedule_effect (cx_env cx) now' w e
      (execute_schedule_effect (cx_env cx) now' w' (EffClearInvalid i) st))" if "e \<in> set ?plan" for e w w' i
  proof -
    let ?st = "execute_schedule_effect (cx_env cx) now' w' (EffClearInvalid i) st"
    have same: "records_of cx (execute_schedule_effect (cx_env cx) now' w e ?st) =
        records_of cx (execute_schedule_effect (cx_env cx) now' w e st) \<and>
      is_runs (execute_schedule_effect (cx_env cx) now' w e ?st) =
        is_runs (execute_schedule_effect (cx_env cx) now' w e st)"
      by (cases e) (auto simp: dispatch_def create_run_issue_def post_record_def post_comment_best_effort_def
          set_labels_def Let_def split: prod.splits option.splits if_splits)
    show ?thesis using inv_same [OF one [OF that] order_refl] same by blast
  qed
  obtain main where m: "?plan = (if SCHEDULE_INVALID_LABEL \<in> set (is_labels st) then [EffClearInvalid (cx_issue cx)] else []) @ main"
    "main = [] \<or> (\<exists>e. main = [e])"
    using plan_schedule_shape [of "cx_cal cx" "observe cx spec wl creator st" now "cx_cfg cx"]
    by (auto simp: observe_def)
  show ?thesis
    using m one two inv' unfolding pass_def by (auto simp: inv_labels)
qed

lemma sched_inv_step:
  assumes "wf_ctx valid cx" "sched_inv cx p" "sched_step cx p q"
  shows "sched_inv cx q"
  using assms(3)
proof cases
  case step_pass
  then show ?thesis using pass_inv [OF assms(1)] assms(2) by simp
next
  case step_manual
  then show ?thesis using manual_inv [OF assms(1)] assms(2) by simp
next
  case (step_pod t now st r0 r h w)
  then have "rr_slot r \<le> t" using assms(2) by (auto simp: open_record_def sched_inv_def Let_def)
  then show ?thesis using step_pod terminal_record_inv [OF assms(1)] assms(2) by simp
next
  case (step_comment t now c st)
  then show ?thesis using assms(2) inv_same [of cx t st now] untrusted_comment
    by (auto simp: trusted_records_append)
next
  case (step_labels t now st ls)
  then show ?thesis using assms(2) inv_same [of cx t st now] by auto
qed

lemma sched_inv_reachable:
  assumes "wf_ctx valid cx" "sched_reachable cx p"
  shows "sched_inv cx p"
  using assms(2)
proof induction
  case (reach_init st)
  then show ?case by (simp add: sched_inv_def clock_slots_def)
next
  case (reach_step p q)
  then show ?case using sched_inv_step [OF assms(1)] by blast
qed

section \<open>Theorems about every run of a definition\<close>

text \<open>A context to show that the hypotheses can be met: UTC timestamps and the App \<open>fkst\<close>.\<close>

definition sample_ctx :: sched_ctx where
  "sample_ctx =
     \<lparr>cx_cal = civil_calendar,
      cx_env = \<lparr>env_codec = utc_codec, env_author = lit ''fkst'', env_detail = (\<lambda>_. lit ''x'')\<rparr>,
      cx_bot = lit ''fkst'',
      cx_cfg = \<lparr>cron_min_interval_secs = 900, cron_max_runtime_secs = 3600, cron_max_jobs_per_creator = 10,
        cfg_bot_login = Some (lit ''fkst''), cfg_work_label_namespace = None\<rparr>,
      cx_issue = 7, cx_anchor = at_hm 0 0 30\<rparr>"

definition fresh_issue :: issue_state where
  "fresh_issue = \<lparr>is_labels = [], is_comments = [], is_runs = [], is_next = 8\<rparr>"

lemma sample_ctx_wf: "wf_ctx utc_valid sample_ctx"
  using utc.timestamp_codec_axioms
  by (simp add: wf_ctx_def sample_ctx_def utc_valid_def representable_def civil_calendar_def
      comment_is_from_bot_def date_naive_at_hm str_simps)

lemma sample_no_records: "records_of sample_ctx fresh_issue = []"
  by (simp add: fresh_issue_def trusted_records_def collect_records_def)

text \<open>A pass at 05:10 that plans from the fresh issue, with every write succeeding.\<close>

definition all_ok :: writes where
  "all_ok = \<lparr>wr_create = True, wr_run_label = True, wr_assign = True, wr_comment = True, wr_add = True,
     wr_remove = (\<lambda>_. True)\<rparr>"

definition hourly_spec :: scheduled_workflow_spec where
  "hourly_spec = \<lparr>workflow_id = lit ''nightly'', run_mode = Cron hourly, arguments = []\<rparr>"

definition after_pass :: issue_state where
  "after_pass = pass sample_ctx hourly_spec (lit ''work'') (lit ''ann'') (at_hm 0 5 10) (at_hm 0 5 10)
     (\<lambda>_. all_ok) fresh_issue"

lemma after_pass_reachable: "sched_reachable sample_ctx (at_hm 0 5 10, after_pass)"
proof (rule reach_step [OF reach_init [OF sample_no_records]])
  have "at_hm 0 0 30 \<le> at_hm 0 5 10" by (simp add: at_hm_def NANOS_PER_SEC_def)
  moreover have "representable civil_calendar (at_hm 0 5 10)"
    by (simp add: representable_def civil_calendar_def date_naive_at_hm)
  ultimately show "sched_step sample_ctx (cx_anchor sample_ctx, fresh_issue) (at_hm 0 5 10, after_pass)"
    unfolding after_pass_def by (intro step_pass) (simp_all add: sample_ctx_def fresh_issue_def)
qed




lemma sample_plan:
  "\<exists>k. plan_schedule civil_calendar (observe sample_ctx hourly_spec wl cr fresh_issue) (at_hm 0 5 10) (cx_cfg sample_ctx) =
     [EffDispatch 7 (run_request (observe sample_ctx hourly_spec wl cr fresh_issue) (at_hm 0 5 0)) k]"
proof -
  let ?ob = "observe sample_ctx hourly_spec wl cr fresh_issue"
  have rs: "ob_records ?ob = []" "ob_labels ?ob = []" "ob_created_at ?ob = at_hm 0 0 30"
    "ob_schedule_issue ?ob = 7" "run_mode (ob_spec ?ob) = Cron hourly"
    using sample_no_records by (simp_all add: observe_def sample_ctx_def fresh_issue_def hourly_spec_def)
  have "build_state ?ob = idle_state"
    by (simp add: build_state_def rs idle_state_def open_dispatch_of_def max_opt_def)
  then show ?thesis
    using idle_dispatch [of "run_budget (cx_cfg sample_ctx)"] by (simp add: plan_schedule_def action_effects_def rs)
qed

lemma after_pass_dispatch:
  obtains rq k where "after_pass = dispatch (cx_env sample_ctx) (at_hm 0 5 10) all_ok rq k fresh_issue"
    "rq_slot rq = at_hm 0 5 0"
proof -
  let ?ob = "observe sample_ctx hourly_spec (lit ''work'') (lit ''ann'') fresh_issue"
  obtain k where k: "plan_schedule civil_calendar ?ob (at_hm 0 5 10) (cx_cfg sample_ctx) =
      [EffDispatch 7 (run_request ?ob (at_hm 0 5 0)) k]"
    using sample_plan by blast
  have "after_pass = dispatch (cx_env sample_ctx) (at_hm 0 5 10) all_ok (run_request ?ob (at_hm 0 5 0)) k fresh_issue"
    using k by (simp add: after_pass_def pass_def sample_ctx_def)
  moreover have "rq_slot (run_request ?ob (at_hm 0 5 0)) = at_hm 0 5 0" by (simp add: run_request_def)
  ultimately show thesis by (rule that)
qed

section \<open>Convergence\<close>

definition one_open :: "run_record list \<Rightarrow> bool" where
  "one_open rs \<longleftrightarrow> (\<forall>r r'. open_record rs r \<and> open_record rs r' \<longrightarrow> rr_slot r = rr_slot r')"

lemma terminal_slots_append [simp]: "terminal_slots (rs @ rs') = terminal_slots rs @ terminal_slots rs'"
  by (simp add: terminal_slots_def)

lemma open_record_append_terminal:
  "is_terminal (rr_status x) \<Longrightarrow> open_record (rs @ [x]) r \<longleftrightarrow> open_record rs r \<and> rr_slot r \<noteq> rr_slot x"
  by (auto simp: open_record_def terminal_slots_def is_terminal_def)

lemma open_record_append_dispatched:
  "rr_status x = Dispatched \<Longrightarrow> rr_slot x \<notin> rr_slot ` set rs \<Longrightarrow> open_record (rs @ [x]) x"
  by (auto simp: open_record_def terminal_slots_def is_terminal_def)

lemma labels_all_ok:
  "set (is_labels (set_labels all_ok add remove st)) = (set (is_labels st) \<union> set add) - set remove"
  by (auto simp: set_labels_def all_ok_def Let_def)

lemma execute_all_append:
  "execute_all env now (\<lambda>_. w) (es @ es') st = execute_all env now (\<lambda>_. w) es' (execute_all env now (\<lambda>_. w) es st)"
  by (induction es arbitrary: st) simp_all

definition latched :: "issue_state \<Rightarrow> bool" where
  "latched st \<longleftrightarrow> CRON_RUNNING_LABEL \<in> set (is_labels st)"

definition agrees :: "sched_ctx \<Rightarrow> issue_state \<Rightarrow> bool" where
  "agrees cx st \<longleftrightarrow> (latched st \<longleftrightarrow> (\<exists>r. open_record (records_of cx st) r))"

text \<open>The state before the main effect of a successful pass differs in the invalid latch only.\<close>

lemma pass_split:
  obtains st0 where
    "pass cx spec wl creator now now' (\<lambda>_. all_ok) st =
       execute_all (cx_env cx) now' (\<lambda>_. all_ok)
         (action_effects (observe cx spec wl creator st)
           (decide (cx_cal cx) (run_mode spec) (build_state (observe cx spec wl creator st)) now
             (run_budget (cx_cfg cx)))) st0"
    "is_comments st0 = is_comments st" "is_next st0 = is_next st" "is_runs st0 = is_runs st"
    "latched st0 = latched st"
proof
  let ?c = "if SCHEDULE_INVALID_LABEL \<in> set (is_labels st) then [EffClearInvalid (cx_issue cx)] else []"
  let ?st0 = "execute_all (cx_env cx) now' (\<lambda>_. all_ok) ?c st"
  show "is_comments ?st0 = is_comments st" "is_next ?st0 = is_next st" "is_runs ?st0 = is_runs st"
    "latched ?st0 = latched st"
    by (simp_all add: latched_def labels_all_ok)
  have ob: "ob_labels (observe cx spec wl creator st) = is_labels st"
    "ob_schedule_issue (observe cx spec wl creator st) = cx_issue cx" "ob_spec (observe cx spec wl creator st) = spec"
    by (simp_all add: observe_def)
  show "pass cx spec wl creator now now' (\<lambda>_. all_ok) st =
       execute_all (cx_env cx) now' (\<lambda>_. all_ok)
         (action_effects (observe cx spec wl creator st)
           (decide (cx_cal cx) (run_mode spec) (build_state (observe cx spec wl creator st)) now
             (run_budget (cx_cfg cx)))) ?st0"
    unfolding pass_def plan_schedule_def ob execute_all_append ..
qed

lemma build_state_observe:
  "running_label (build_state (observe cx spec wl creator st)) = latched st"
  "ss_open_dispatch (build_state (observe cx spec wl creator st)) =
     map_option (\<lambda>r. \<lparr>od_slot = rr_slot r, od_started = rr_started r\<rparr>) (open_dispatch_of (records_of cx st))"
  "ob_records (observe cx spec wl creator st) = records_of cx st"
  "ob_created_at (observe cx spec wl creator st) = cx_anchor cx"
  by (simp_all add: build_state_def observe_def latched_def)

lemma dispatch_all_ok:
  assumes "timestamp_codec (env_codec env) valid" "comment_is_from_bot (env_author env) bl"
    "valid (rq_slot rq)" "valid now" "is_next st < 2 ^ 64"
  shows "latched (dispatch env now all_ok rq k st)"
    "trusted_records (env_codec env) bl (is_comments (dispatch env now all_ok rq k st)) =
       trusted_records (env_codec env) bl (is_comments st) @
         [canonical (with_issue (new_record (rq_slot rq) Dispatched now) (is_next st))]"
proof -
  let ?r = "with_issue (new_record (rq_slot rq) Dispatched now) (is_next st)"
  obtain st1 where c: "create_run_issue env all_ok rq st = (Some (is_next st), st1)" "is_comments st1 = is_comments st"
    by (simp add: create_run_issue_def all_ok_def Let_def)
  have wf: "wf_record valid ?r"
    using assms(3-5) by (simp add: wf_record_def with_issue_def new_record_def is_terminal_def)
  show "latched (dispatch env now all_ok rq k st)" using c by (simp add: dispatch_def latched_def labels_all_ok)
  show "trusted_records (env_codec env) bl (is_comments (dispatch env now all_ok rq k st)) =
       trusted_records (env_codec env) bl (is_comments st) @ [canonical ?r]"
    using post_record_history [OF assms(1,2) wf dispatch_human_line [OF assms(1,3), of "is_next st" k],
        where w = all_ok and st = st1] c
    by (simp add: dispatch_def) (simp add: all_ok_def)
qed

lemma latched_post [simp]: "latched (post_record env w r h st) = latched st"
  by (simp add: latched_def)

lemma wf_ctxD:
  assumes "wf_ctx valid cx"
  shows "timestamp_codec (env_codec (cx_env cx)) valid"
    "comment_is_from_bot (env_author (cx_env cx)) (cx_bot cx)"
    "representable (cx_cal cx) u \<Longrightarrow> valid u" "representable (cx_cal cx) (cx_anchor cx)"
  using assms by (auto simp: wf_ctx_def)

lemma agrees_release:
  assumes "\<And>r. \<not> open_record (records_of cx st) r" "CRON_RUNNING_LABEL \<in> set remove"
  shows "agrees cx (set_labels all_ok add remove st)"
  using assms by (simp add: agrees_def latched_def labels_all_ok)

lemma agrees_dispatch:
  assumes cx: "wf_ctx valid cx" and "representable (cx_cal cx) (rq_slot rq)" "representable (cx_cal cx) now"
    "is_next st < 2 ^ 64" "whole_second (rq_slot rq) \<notin> rr_slot ` set (records_of cx st)"
  shows "agrees cx (dispatch (cx_env cx) now all_ok rq k st)"
proof -
  note res = dispatch_all_ok [OF wf_ctxD(1,2) [OF cx] wf_ctxD(3) [OF cx assms(2)] wf_ctxD(3) [OF cx assms(3)] assms(4), of k]
  let ?x = "canonical (with_issue (new_record (rq_slot rq) Dispatched now) (is_next st))"
  have "open_record (records_of cx st @ [?x]) ?x"
    using assms(5) by (intro open_record_append_dispatched) (simp_all add: with_issue_def new_record_def)
  then show ?thesis using res by (auto simp: agrees_def)
qed

lemma agrees_skip:
  assumes cx: "wf_ctx valid cx" and "representable (cx_cal cx) slot" "representable (cx_cal cx) now"
    "whole_second slot \<notin> rr_slot ` set (records_of cx st)" "latched st" "open_record (records_of cx st) r"
  shows "agrees cx (execute_schedule_effect (cx_env cx) now all_ok (EffRecordSkip i slot) st)"
proof -
  let ?x = "with_detail (new_record slot SkippedOverlap now) (lit ''the previous run was still in flight'')"
  have "wf_record valid ?x" using assms(2,3) wf_ctxD(3) [OF cx]
    by (simp add: wf_record_def with_detail_def new_record_def)
  note res = post_record_history [OF wf_ctxD(1,2) [OF cx] this human_lines(1), where w = all_ok and st = st]
  have "rr_slot r \<noteq> whole_second slot" using assms(4,6) by (metis image_eqI open_record_def)
  then have "open_record (records_of cx st @ [canonical ?x]) r"
    using assms(6) by (subst open_record_append_terminal) (auto simp: with_detail_def new_record_def is_terminal_def)
  then show ?thesis using assms(5) res by (auto simp: agrees_def all_ok_def)
qed

lemma expire_history:
  assumes cx: "wf_ctx valid cx" and inv: "sched_inv cx (t, st)" and "representable (cx_cal cx) now"
    "open_record (records_of cx st) r"
  shows "records_of cx (execute_schedule_effect (cx_env cx) now all_ok (EffExpire i (rr_slot r) (rr_started r)) st) =
      records_of cx st @ [canonical (expire_record (rr_slot r) (rr_started r) now)]"
    "whole_second (rr_slot r) = rr_slot r"
proof -
  let ?x = "expire_record (rr_slot r) (rr_started r) now"
  have w: "whole_second (rr_slot r) = rr_slot r" "representable (cx_cal cx) (rr_slot r)"
    "representable (cx_cal cx) (rr_started r)"
    using inv assms(4) by (auto simp: sched_inv_def Let_def open_record_def)
  then have "wf_record valid ?x" using assms(3) wf_ctxD(3) [OF cx]
    by (simp add: wf_record_def expire_record_def with_detail_def new_record_def)
  from post_record_history [OF wf_ctxD(1,2) [OF cx] this human_lines(2), where w = all_ok and st = st]
  show "records_of cx (execute_schedule_effect (cx_env cx) now all_ok (EffExpire i (rr_slot r) (rr_started r)) st) =
      records_of cx st @ [canonical ?x]" by (simp add: all_ok_def)
  show "whole_second (rr_slot r) = rr_slot r" by (rule w(1))
qed

lemma expire_closes:
  fixes i :: int
  assumes "wf_ctx valid cx" "sched_inv cx (t, st)" "representable (cx_cal cx) now" "open_record (records_of cx st) r"
    "one_open (records_of cx st)"
  defines "st' \<equiv> execute_schedule_effect (cx_env cx) now all_ok (EffExpire i (rr_slot r) (rr_started r)) st"
  shows "\<not> open_record (records_of cx st') r'" "\<not> latched st'"
proof -
  note h = expire_history [OF assms(1-4)]
  have t: "is_terminal (rr_status (canonical (expire_record (rr_slot r) (rr_started r) now)))"
    by (simp add: expire_record_def with_detail_def new_record_def is_terminal_def)
  have "rr_slot (canonical (expire_record (rr_slot r) (rr_started r) now)) = rr_slot r"
    using h(2) by (simp add: expire_record_def with_detail_def new_record_def)
  then show "\<not> open_record (records_of cx st') r'"
    unfolding st'_def h(1) open_record_append_terminal [OF t] using assms(4,5)
    unfolding one_open_def by metis
  show "\<not> latched st'" by (simp add: st'_def latched_def labels_all_ok)
qed

lemma pass_agrees:
  assumes cx: "wf_ctx valid cx" and inv: "sched_inv cx (t, st)" and "representable (cx_cal cx) now"
    "representable (cx_cal cx) now'" "is_next st < 2 ^ 64" and one: "one_open (records_of cx st)"
  shows "agrees cx (pass cx spec wl creator now now' (\<lambda>_. all_ok) st)"
proof -
  let ?rs = "records_of cx st" and ?ob = "observe cx spec wl creator st"
  let ?d = "decide (cx_cal cx) (run_mode spec) (build_state ?ob) now (run_budget (cx_cfg cx))"
  obtain st0 where p: "pass cx spec wl creator now now' (\<lambda>_. all_ok) st =
      execute_all (cx_env cx) now' (\<lambda>_. all_ok) (action_effects ?ob ?d) st0"
    and st0: "is_comments st0 = is_comments st" "is_next st0 = is_next st" "is_runs st0 = is_runs st"
      "latched st0 = latched st"
    by (rule pass_split)
  have inv0: "sched_inv cx (t, st0)" using inv st0 by (simp add: sched_inv_def)
  have due: "representable (cx_cal cx) slot \<and> whole_second slot \<notin> rr_slot ` set (records_of cx st0)"
    if "due_slot (cx_cal cx) (run_mode spec) (build_state ?ob) now = Some slot" for slot
    using due_slot_new [OF that assms(3)] wf_ctxD(4) [OF cx] st0
    by (cases "run_mode spec") (auto simp: build_state_observe)
  show ?thesis
  proof (cases ?d)
    case (Dispatch slot k)
    then have "due_slot (cx_cal cx) (run_mode spec) (build_state ?ob) now = Some slot"
      by (simp add: decide_Dispatch_iff)
    moreover have "rq_slot (run_request ?ob slot) = slot" by (simp add: run_request_def)
    ultimately show ?thesis
      unfolding p Dispatch using agrees_dispatch [OF cx, of "run_request ?ob slot" now' st0 k] due assms(4,5) st0(2)
      by (simp add: action_effects_def)
  next
    case (SkipOverlap slot)
    then obtain r where "latched st" "open_record ?rs r"
      "due_slot (cx_cal cx) (run_mode spec) (build_state ?ob) now = Some slot"
      by (auto simp: decide_def build_state_observe split: bool.splits option.splits if_splits dest: open_dispatch_Some)
    then show ?thesis
      unfolding p SkipOverlap using agrees_skip [OF cx, of slot now' st0 r] due assms(4) st0
      by (simp add: action_effects_def)
  next
    case (Expire slot started)
    then obtain r where r: "open_record ?rs r" "slot = rr_slot r" "started = rr_started r"
      by (auto simp: decide_def build_state_observe split: bool.splits option.splits if_splits dest: open_dispatch_Some)
    then show ?thesis
      unfolding p Expire using expire_closes [OF cx inv0 assms(4), of r "cx_issue cx"] one st0
      by (simp add: action_effects_def agrees_def build_state_observe observe_def)
  next
    case (Complete slot status)
    then have "open_dispatch_of ?rs = None"
      by (auto simp: decide_def build_state_observe split: bool.splits option.splits if_splits)
    then show ?thesis
      unfolding p Complete using st0
      by (simp add: action_effects_def complete_labels_def open_dispatch_None agrees_release split: run_status.splits)
  next
    case ReleaseRunning
    then have "open_dispatch_of ?rs = None"
      by (auto simp: decide_def build_state_observe split: bool.splits option.splits if_splits)
    then show ?thesis
      unfolding p ReleaseRunning using st0
      by (simp add: action_effects_def open_dispatch_None agrees_release)
  next
    case (AdoptRunning slot)
    then have "open_dispatch_of ?rs \<noteq> None"
      by (auto simp: decide_def build_state_observe split: bool.splits option.splits if_splits)
    then show ?thesis
      unfolding p AdoptRunning using st0
      by (simp add: action_effects_def open_dispatch_None agrees_def latched_def labels_all_ok)
  next
    case Nothing
    then have "latched st \<longleftrightarrow> open_dispatch_of ?rs \<noteq> None"
      by (auto simp: decide_def build_state_observe split: bool.splits option.splits if_splits)
    then show ?thesis
      unfolding p Nothing using st0 by (simp add: action_effects_def open_dispatch_None agrees_def)
  qed
qed

lemma after_pass_records:
  "records_of sample_ctx after_pass =
     [canonical (with_issue (new_record (at_hm 0 5 0) Dispatched (at_hm 0 5 10)) 8)]"
  "latched after_pass"
proof -
  obtain rq k where ap: "after_pass = dispatch (cx_env sample_ctx) (at_hm 0 5 10) all_ok rq k fresh_issue"
    "rq_slot rq = at_hm 0 5 0" by (rule after_pass_dispatch)
  have v: "utc_valid (at_hm 0 5 0)" "utc_valid (at_hm 0 5 10)" by (simp_all add: utc_valid_def date_naive_at_hm)
  have n: "is_next fresh_issue = 8" by (simp add: fresh_issue_def)
  note res = dispatch_all_ok [OF wf_ctxD(1,2) [OF sample_ctx_wf], of rq "at_hm 0 5 10" fresh_issue k]
  show "records_of sample_ctx after_pass =
     [canonical (with_issue (new_record (at_hm 0 5 0) Dispatched (at_hm 0 5 10)) 8)]"
    using res(2) ap v n sample_no_records by simp
  show "latched after_pass" using res(1) ap v n by simp
qed






section \<open>Where the code departs from its comments\<close>

text \<open>
  What the labels show after a run is the status of the terminal record with the greatest
  slot. When a slot was skipped while the run was in flight, that is the skip, so a run that
  succeeded is shown as failed.
\<close>

theorem success_after_overlap_skip_is_marked_failed:
  assumes "s1 < s2" "ob_labels ob = [CRON_RUNNING_LABEL]" "wr_add w"
    "ob_records ob = [new_record s1 Dispatched t0, new_record s2 SkippedOverlap t1, new_record s1 Ok t2]"
  shows "plan_schedule cal ob now cfg = [EffComplete (ob_schedule_issue ob) s2 SkippedOverlap] \<and>
    CRON_FAILED_LABEL \<in> set (is_labels
      (execute_schedule_effect env now' w (EffComplete (ob_schedule_issue ob) s2 SkippedOverlap) st))"
proof -
  have "running_label (build_state ob)" "ss_open_dispatch (build_state ob) = None"
    "latest_terminal (build_state ob) = Some (s2, SkippedOverlap)"
    using assms(1) by (simp_all add: build_state_def assms(2,4) open_dispatch_of_def terminal_slots_def
        new_record_def is_terminal_def)
  then have "decide cal (run_mode (ob_spec ob)) (build_state ob) now (run_budget cfg) = Complete s2 SkippedOverlap"
    by (simp add: decide_def)
  then show ?thesis
    using assms(3) by (simp add: plan_schedule_def action_effects_def assms(2) complete_labels_def
        set_labels_def Let_def)
qed

theorem success_after_overlap_skip_is_marked_failed_witness:
  "\<exists>ob. ob_records ob = [new_record 0 Dispatched 1, new_record 60 SkippedOverlap 61, new_record 0 Ok 90] \<and>
     plan_schedule civil_calendar ob 100 (cx_cfg sample_ctx) = [EffComplete (ob_schedule_issue ob) 60 SkippedOverlap]"
proof -
  let ?ob = "\<lparr>ob_schedule_issue = 7, ob_labels = [CRON_RUNNING_LABEL], ob_created_at = 0, ob_spec = hourly_spec,
    ob_records = [new_record 0 Dispatched 1, new_record 60 SkippedOverlap 61, new_record 0 Ok 90],
    ob_work_label = [], ob_creator_login = []\<rparr>"
  have "wr_add all_ok" by (simp add: all_ok_def)
  then show ?thesis
    using success_after_overlap_skip_is_marked_failed [of 0 60 ?ob all_ok 1 61 90 civil_calendar 100 "cx_cfg sample_ctx"]
    by (intro exI [of _ ?ob]) simp
qed

text \<open>
  When a dispatch creates its run issue but neither its record nor its latch reaches GitHub,
  the next pass does not adopt the run: it plans the same dispatch again, and the slot gets a
  second run issue.
\<close>

theorem lost_dispatch_record_dispatches_again:
  assumes "plan_schedule (cx_cal cx) (observe cx spec wl creator st) now (cx_cfg cx) = [EffDispatch i rq k]"
    "wr_create w" "wr_run_label w" "\<not> wr_comment w" "\<not> wr_add w"
    "st' = execute_schedule_effect (cx_env cx) now' w (EffDispatch i rq k) st"
  shows "plan_schedule (cx_cal cx) (observe cx spec wl creator st') now (cx_cfg cx) = [EffDispatch i rq k] \<and>
    length (is_runs st') = length (is_runs st) + 1"
proof -
  have "is_comments st' = is_comments st" "is_labels st' = is_labels st" "length (is_runs st') = length (is_runs st) + 1"
    using assms(2-6) by (simp_all add: dispatch_def create_run_issue_def post_record_def
        post_comment_best_effort_def set_labels_def Let_def)
  then show ?thesis using assms(1) by (simp add: observe_def)
qed

theorem lost_dispatch_record_dispatches_again_witness:
  "\<exists>rq k st'. st' = execute_schedule_effect (cx_env sample_ctx) (at_hm 0 5 10)
      (all_ok\<lparr>wr_comment := False, wr_add := False\<rparr>) (EffDispatch 7 rq k) fresh_issue \<and>
     plan_schedule civil_calendar (observe sample_ctx hourly_spec (lit ''work'') (lit ''ann'') st') (at_hm 0 5 10)
       (cx_cfg sample_ctx) = [EffDispatch 7 rq k]"
proof -
  have cal: "cx_cal sample_ctx = civil_calendar" by (simp add: sample_ctx_def)
  obtain rq k where p: "plan_schedule (cx_cal sample_ctx)
      (observe sample_ctx hourly_spec (lit ''work'') (lit ''ann'') fresh_issue) (at_hm 0 5 10) (cx_cfg sample_ctx) =
      [EffDispatch 7 rq k]" using sample_plan cal by metis
  show ?thesis
    using lost_dispatch_record_dispatches_again [OF p, of "all_ok\<lparr>wr_comment := False, wr_add := False\<rparr>" _ "at_hm 0 5 10"]
    unfolding cal by (auto simp: all_ok_def)
qed

text \<open>
  A run started by hand moves the recurrence cursor like a run of the clock: no slot of the
  cadence at or before its record is due afterwards, recorded or not.
\<close>

theorem manual_run_advances_cursor:
  assumes "r \<in> set (ob_records ob)" "rr_manual r" "due_slot cal (Cron e) (build_state ob) now = Some slot"
  shows "rr_slot r < slot"
proof -
  obtain c where c: "max_opt (map rr_slot (ob_records ob)) = Some c"
    using assms(1) by (cases "max_opt (map rr_slot (ob_records ob))") auto
  have "rr_slot r \<le> c" using max_opt_ge [OF c, of "rr_slot r"] assms(1) by simp
  moreover have "c < slot"
    using assms(3) c by (auto simp: due_slot_def floor_of_def build_state_def split: option.splits if_splits)
  ultimately show ?thesis by simp
qed

theorem manual_run_advances_cursor_witness:
  "\<exists>ob r slot. ob_records ob = [r] \<and> rr_manual r \<and>
     due_slot civil_calendar (Cron hourly) (build_state ob) (at_hm 0 5 10) = Some slot \<and> rr_slot r < slot"
proof -
  let ?r = "manual (new_record (at_hm 0 4 30) Dispatched (at_hm 0 4 30))"
  let ?ob = "\<lparr>ob_schedule_issue = 7, ob_labels = [], ob_created_at = at_hm 0 0 30, ob_spec = hourly_spec,
    ob_records = [?r], ob_work_label = [], ob_creator_login = []\<rparr>"
  have "at_hm 0 4 30 < at_hm 0 5 0" by (simp add: at_hm_def NANOS_PER_SEC_def)
  then have d: "due_slot civil_calendar (Cron hourly) (build_state ?ob) (at_hm 0 5 10) = Some (at_hm 0 5 0)"
    by (simp add: due_slot_def hourly_previous floor_of_def build_state_def max_opt_def manual_def new_record_def)
  have m: "?r \<in> set (ob_records ?ob)" "rr_manual ?r" by (simp_all add: manual_def)
  show ?thesis using manual_run_advances_cursor [OF m d] d m(2) by (intro exI [of _ ?ob]) force
qed

end
