(* ===== verification/AccessPolicy.thy ===== *)
theory AccessPolicy
  imports RustStr
begin

text \<open>
  The deployment-wide access policy (\<open>backend/src/access_policy.rs\<close>): parsing it from the
  environment, the model in force, and the admission decision. GitHub's numeric ids (\<open>i64\<close>) are
  integers.
\<close>

section \<open>The policy\<close>

datatype auth_model = All | Allowlist | Denylist

record access_policy =
  ap_entries :: "str list option"
  ap_blocked :: "str list option"
  ap_mode :: "auth_model option"
  ap_global_admins :: "str list"

datatype policy_error = UnknownAuthModel str | AmbiguousLists | NoMatchableBlocked

definition ACCESS_ALLOWED_USERS_VAR :: str where "ACCESS_ALLOWED_USERS_VAR = lit ''FKST_ACCESS_ALLOWED_USERS''"
definition ACCESS_BLOCKED_USERS_VAR :: str where "ACCESS_BLOCKED_USERS_VAR = lit ''FKST_ACCESS_BLOCKED_USERS''"
definition GLOBAL_ADMINS_VAR :: str where "GLOBAL_ADMINS_VAR = lit ''FKST_GLOBAL_ADMINS''"
definition AUTH_MODEL_VAR :: str where "AUTH_MODEL_VAR = lit ''FKST_AUTH_MODEL''"

definition normalized_entry :: "str \<Rightarrow> str" where
  "normalized_entry entry = trim_start_matches (ch (CHR ''@'')) (trim entry)"

definition entry_matches :: "str \<Rightarrow> str \<Rightarrow> str \<Rightarrow> bool" where
  "entry_matches entry requester_id_str requester_login =
     (let normalized = normalized_entry entry
      in if normalized = [] then False
         else if list_all is_ascii_digit normalized then normalized = requester_id_str
         else eq_ignore_ascii_case normalized requester_login)"

text \<open>The first variable of that name, as in the caller's snapshot of the environment.\<close>

definition env_var :: "(str \<times> str) list \<Rightarrow> str \<Rightarrow> str option" where
  "env_var vars key = map_option snd (find (\<lambda>kv. fst kv = key) vars)"

definition list_entries :: "str \<Rightarrow> str list" where
  "list_entries s = filter (\<lambda>e. e \<noteq> []) (map trim (split (ch (CHR '','')) s))"

definition env_list :: "(str \<times> str) list \<Rightarrow> str \<Rightarrow> str list option" where
  "env_list vars key =
     (case env_var vars key of
        None \<Rightarrow> None
      | Some v \<Rightarrow> (if trim v = [] then None else Some (list_entries (trim v))))"

definition parse_auth_model :: "(str \<times> str) list \<Rightarrow> policy_error + auth_model option" where
  "parse_auth_model vars =
     (case env_var vars AUTH_MODEL_VAR of
        None \<Rightarrow> Inr None
      | Some v \<Rightarrow>
          (let s = trim v; m = to_ascii_lowercase s
           in if s = [] then Inr None
              else if m = lit ''all'' then Inr (Some All)
              else if m \<in> {lit ''allowlist'', lit ''allow-list'', lit ''selected''} then Inr (Some Allowlist)
              else if m \<in> {lit ''denylist'', lit ''deny-list'', lit ''blocklist'', lit ''blacklist''}
                then Inr (Some Denylist)
              else Inl (UnknownAuthModel s)))"

definition effective_model :: "access_policy \<Rightarrow> auth_model option" where
  "effective_model p =
     (case ap_mode p of
        Some m \<Rightarrow> Some m
      | None \<Rightarrow>
          (if ap_blocked p \<noteq> None then Some Denylist
           else if ap_entries p \<noteq> None then Some Allowlist else None))"

definition has_matchable_entry :: "str list \<Rightarrow> bool" where
  "has_matchable_entry list \<longleftrightarrow> list_ex (\<lambda>entry. normalized_entry entry \<noteq> []) list"

definition from_vars :: "(str \<times> str) list \<Rightarrow> policy_error + access_policy" where
  "from_vars vars =
     (let entries = env_list vars ACCESS_ALLOWED_USERS_VAR;
          blocked = env_list vars ACCESS_BLOCKED_USERS_VAR;
          global_admins = list_entries (case env_var vars GLOBAL_ADMINS_VAR of Some v \<Rightarrow> v | None \<Rightarrow> [])
      in and_then (parse_auth_model vars) (\<lambda>mode.
           if mode = None \<and> entries \<noteq> None \<and> blocked \<noteq> None then Inl AmbiguousLists
           else
             let policy = \<lparr>ap_entries = entries, ap_blocked = blocked, ap_mode = mode,
                           ap_global_admins = global_admins\<rparr>
             in if effective_model policy = Some Denylist \<and>
                   (case ap_blocked policy of Some b \<Rightarrow> \<not> has_matchable_entry b | None \<Rightarrow> False)
                then Inl NoMatchableBlocked else Inr policy))"

definition enforced :: "access_policy \<Rightarrow> bool" where
  "enforced p \<longleftrightarrow> effective_model p \<noteq> None \<and> effective_model p \<noteq> Some All"

definition entry_count :: "access_policy \<Rightarrow> nat" where
  "entry_count p = (case ap_entries p of Some l \<Rightarrow> length l | None \<Rightarrow> 0)"

definition blocked_entry_count :: "access_policy \<Rightarrow> nat" where
  "blocked_entry_count p = (case ap_blocked p of Some l \<Rightarrow> length l | None \<Rightarrow> 0)"

definition global_admin_count :: "access_policy \<Rightarrow> nat" where
  "global_admin_count p = length (ap_global_admins p)"

definition global_admin_login_entries :: "access_policy \<Rightarrow> str list" where
  "global_admin_login_entries p =
     filter_map (\<lambda>entry. let n = normalized_entry entry
        in if n = [] \<or> list_all is_ascii_digit n then None else Some n) (ap_global_admins p)"

definition is_global_admin :: "access_policy \<Rightarrow> int \<Rightarrow> str \<Rightarrow> bool" where
  "is_global_admin p i login \<longleftrightarrow> list_ex (\<lambda>entry. entry_matches entry (show_int i) login) (ap_global_admins p)"

definition matches_entries :: "access_policy \<Rightarrow> int \<Rightarrow> str \<Rightarrow> bool" where
  "matches_entries p i login \<longleftrightarrow>
     list_ex (\<lambda>entry. entry_matches entry (show_int i) login) (case ap_entries p of Some l \<Rightarrow> l | None \<Rightarrow> [])"

definition matches_blocked :: "access_policy \<Rightarrow> int \<Rightarrow> str \<Rightarrow> bool" where
  "matches_blocked p i login \<longleftrightarrow>
     list_ex (\<lambda>entry. entry_matches entry (show_int i) login) (case ap_blocked p of Some l \<Rightarrow> l | None \<Rightarrow> [])"

definition allows :: "access_policy \<Rightarrow> int \<Rightarrow> str \<Rightarrow> bool" where
  "allows p i login =
     (if is_global_admin p i login then True
      else case effective_model p of
        None \<Rightarrow> True
      | Some All \<Rightarrow> True
      | Some Allowlist \<Rightarrow> matches_entries p i login
      | Some Denylist \<Rightarrow> \<not> matches_blocked p i login)"

section \<open>Entries\<close>

text \<open>Who an entry names: an id, a login, or nobody.\<close>

datatype entry_names = Nobody | NamesId str | NamesLogin str

definition entry_meaning :: "str \<Rightarrow> entry_names" where
  "entry_meaning entry =
     (let n = normalized_entry entry
      in if n = [] then Nobody else if all_digits n then NamesId n else NamesLogin (to_ascii_lowercase n))"

lemma entry_matches_meaning:
  "entry_matches entry ids login \<longleftrightarrow>
     entry_meaning entry = NamesId ids \<or> entry_meaning entry = NamesLogin (to_ascii_lowercase login)"
proof -
  have "list_all is_ascii_digit n \<longleftrightarrow> all_digits n" for n by (simp add: all_digits_code)
  then show ?thesis
    by (auto simp: entry_matches_def entry_meaning_def Let_def eq_ignore_ascii_case_def)
qed

lemma show_int_digits: "0 \<le> i \<Longrightarrow> all_digits (show_int i)"
  by (simp add: show_int_def)

text \<open>
  Ids and logins are separate namespaces: when one entry admits two identities, they have the
  same id or logins equal up to case, so nobody gains another identity's entry by registering a
  numeric login.
\<close>

theorem entry_namespaces_disjoint:
  assumes "entry_matches entry (show_int i) login"
  shows "(all_digits (normalized_entry entry) \<longrightarrow>
      (\<forall>j login'. entry_matches entry (show_int j) login' \<longleftrightarrow> j = i)) \<and>
    (\<not> all_digits (normalized_entry entry) \<longrightarrow>
      (\<forall>j login'. entry_matches entry (show_int j) login' \<longleftrightarrow> eq_ignore_ascii_case login login'))"
  using assms show_int_inj
  by (auto simp: entry_matches_meaning entry_meaning_def Let_def eq_ignore_ascii_case_def split: if_splits)

theorem entry_namespaces_disjoint_witness:
  "\<not> entry_matches (lit ''42'') (show_int 7) (lit ''42'') \<and> entry_matches (lit ''42'') (show_int 42) (lit ''bob'')"
proof -
  have n: "normalized_entry (lit ''42'') = lit ''42''"
    by (simp add: normalized_entry_def trim_def trim_start_def trim_end_def trim_start_matches_def is_whitespace_def str_simps)
  have s: "show_int 42 = lit ''42''" by (simp add: show_int_def show_nat.simps str_simps)
  have m: "entry_matches (lit ''42'') (show_int 42) (lit ''bob'')"
    unfolding s entry_matches_def n by (simp add: is_ascii_digit_def str_simps)
  have d: "all_digits (normalized_entry (lit ''42''))"
    unfolding n by (simp add: all_digits_def is_ascii_digit_def str_simps)
  show ?thesis using entry_namespaces_disjoint [OF m] d m by simp
qed

section \<open>Admission\<close>

text \<open>Who is named by a list of entries.\<close>

definition named_in :: "str list \<Rightarrow> int \<Rightarrow> str \<Rightarrow> bool" where
  "named_in entries i login \<longleftrightarrow> (\<exists>e \<in> set entries. entry_matches e (show_int i) login)"

lemma named_in_iffs:
  "is_global_admin p i login \<longleftrightarrow> named_in (ap_global_admins p) i login"
  "matches_entries p i login \<longleftrightarrow> named_in (case ap_entries p of Some l \<Rightarrow> l | None \<Rightarrow> []) i login"
  "matches_blocked p i login \<longleftrightarrow> named_in (case ap_blocked p of Some l \<Rightarrow> l | None \<Rightarrow> []) i login"
  by (auto simp: named_in_def is_global_admin_def matches_entries_def matches_blocked_def list_ex_iff)



text \<open>
  An entry is normalized by dropping every leading \<open>@\<close>, not only one, so \<open>@@alice\<close> names
  \<open>alice\<close>.
\<close>

theorem entry_drops_every_at_sign:
  "entry_matches (replicate n (ch (CHR ''@'')) @ lit ''alice'') ids (lit ''Alice'')"
proof -
  let ?e = "replicate n (ch (CHR ''@'')) @ lit ''alice''"
  have "hd ?e = 64 \<or> hd ?e = 97" by (cases n) (simp_all add: str_simps)
  then have "trimmed ?e" by (auto simp: trimmed_def is_whitespace_def str_simps)
  then have t: "trim ?e = ?e" by (rule trim_id)
  have "trim_start_matches (ch (CHR ''@'')) ?e = lit ''alice''"
    by (induction n) (simp_all add: trim_start_matches_def str_simps)
  then have "normalized_entry ?e = lit ''alice''" by (simp only: normalized_entry_def t)
  then show ?thesis
    by (simp add: entry_matches_def eq_ignore_ascii_case_def to_ascii_lowercase_def ascii_lower_def
        char_class_defs str_simps)
qed

end
