(* ===== verification/Identity.thy ===== *)
theory Identity
  imports AccessPolicy
begin

text \<open>
  Identities behind issues: the content-free metadata of an issue
  (\<open>IssueMetadata\<close> and \<open>IssueSummary\<close> of \<open>backend/src/github_app/listing.rs\<close>), the creator of a
  session (\<open>backend/src/reconcile/creator.rs\<close>), routing by sole assignee
  (\<open>backend/src/reconcile/routing.rs\<close>) and the gate on trigger creators
  (\<open>backend/src/reconcile/trigger_authz.rs\<close>).
\<close>

section \<open>Issues\<close>

record issue_metadata =
  im_number :: int
  im_labels :: "str list"
  im_state :: str
  im_assignees :: "str list"
  im_user_login :: str
  im_user_id :: int

record issue_summary =
  su_number :: int
  su_title :: str
  su_body :: str
  su_labels :: "str list"
  su_state :: str
  su_assignees :: "str list"
  su_user_login :: str
  su_user_id :: int
  su_created_at :: int

definition metadata :: "issue_summary \<Rightarrow> issue_metadata" where
  "metadata su =
     \<lparr>im_number = su_number su, im_labels = su_labels su, im_state = su_state su,
      im_assignees = su_assignees su, im_user_login = su_user_login su, im_user_id = su_user_id su\<rparr>"

section \<open>The creator of a session\<close>

record session_creator =
  sc_login :: str
  sc_id :: "int option"

datatype creator_resolution = Resolved session_creator | Unattributable str nat

definition normalize_login :: "str \<Rightarrow> str" where
  "normalize_login login =
     (let folded = to_ascii_lowercase login;
          without_app = (case strip_prefix (lit ''app/'') folded of Some r \<Rightarrow> r | None \<Rightarrow> folded)
      in case strip_suffix (lit ''[bot]'') without_app of Some r \<Rightarrow> r | None \<Rightarrow> without_app)"

definition is_expected_bot_login :: "str \<Rightarrow> str option \<Rightarrow> bool" where
  "is_expected_bot_login login bot_login =
     (case bot_login of Some b \<Rightarrow> normalize_login login = normalize_login b | None \<Rightarrow> False)"

definition effective_creator :: "issue_metadata \<Rightarrow> str option \<Rightarrow> creator_resolution" where
  "effective_creator meta bot_login =
     (let bot_authored = is_expected_bot_login (im_user_login meta) bot_login
      in if \<not> bot_authored
         then Resolved \<lparr>sc_login = im_user_login meta, sc_id = Some (im_user_id meta)\<rparr>
         else case im_assignees meta of
           [login] \<Rightarrow> Resolved \<lparr>sc_login = login, sc_id = None\<rparr>
         | assignees \<Rightarrow> Unattributable (im_user_login meta) (length assignees))"

section \<open>Routing\<close>

datatype work_routing = Routed | NotRouted nat | WrongAssignee

definition route_work_issue :: "issue_metadata \<Rightarrow> str \<Rightarrow> work_routing" where
  "route_work_issue meta creator_login =
     (case im_assignees meta of
        [assignee] \<Rightarrow> (if eq_ignore_ascii_case assignee creator_login then Routed else WrongAssignee)
      | assignees \<Rightarrow> NotRouted (length assignees))"

section \<open>Trigger creators\<close>

datatype trigger_gate_decision = Authorized | Unauthorized str str str | Deferred

type_synonym trigger_authz_cache = "str \<rightharpoonup> str option"

text \<open>
  \<open>lookup\<close> is the collaborator-role request; \<open>None\<close> is a transport failure. The cache is returned
  with the decision.
\<close>

definition role_decision :: "str \<Rightarrow> str \<Rightarrow> str \<Rightarrow> str option \<Rightarrow> trigger_gate_decision" where
  "role_decision owner name login role =
     (if role = Some (lit ''admin'') \<or> role = Some (lit ''maintain'') then Authorized
      else Unauthorized login owner name)"

definition check_trigger_creator ::
  "(str \<Rightarrow> str option option) \<Rightarrow> str \<Rightarrow> str \<Rightarrow> access_policy \<Rightarrow> session_creator \<Rightarrow> trigger_authz_cache \<Rightarrow>
   trigger_gate_decision \<times> trigger_authz_cache" where
  "check_trigger_creator lookup owner name access creator cache =
     (if is_global_admin access (case sc_id creator of Some i \<Rightarrow> i | None \<Rightarrow> - 1) (sc_login creator)
      then (Authorized, cache)
      else
        let key = to_ascii_lowercase (sc_login creator)
        in case cache key of
             Some role \<Rightarrow> (role_decision owner name (sc_login creator) role, cache)
           | None \<Rightarrow>
               (case lookup (sc_login creator) of
                  Some role \<Rightarrow> (role_decision owner name (sc_login creator) role, cache(key \<mapsto> role))
                | None \<Rightarrow> (Deferred, cache)))"

section \<open>Properties\<close>

text \<open>The three spellings of an App login are the same App; a slug has no slash and no bracket.\<close>

lemma strip_prefix_None: "\<not> prefix p s \<Longrightarrow> strip_prefix p s = None"
  by (metis not_Some_eq prefixI strip_prefix_Some_iff)

lemma is_expected_bot_forms:
  assumes "ch (CHR ''/'') \<notin> set (to_ascii_lowercase slug)" "ch (CHR '']'') \<notin> set (to_ascii_lowercase slug)"
  shows "is_expected_bot_login (slug @ lit ''[bot]'') (Some slug)"
    "is_expected_bot_login (lit ''app/'' @ slug) (Some slug)"
proof -
  let ?f = "to_ascii_lowercase slug"
  have lb: "to_ascii_lowercase (lit ''[bot]'') = lit ''[bot]''" "to_ascii_lowercase (lit ''app/'') = lit ''app/''"
    by (simp_all add: to_ascii_lowercase_def ascii_lower_def char_class_defs str_simps)
  have pre: "strip_prefix (lit ''app/'') s = None" if "ch (CHR ''/'') \<notin> set s" for s
    using that by (intro strip_prefix_None) (auto simp: prefix_def str_simps)
  have suf: "strip_suffix (lit ''[bot]'') ?f = None"
    using assms(2) strip_suffix_Some_iff [of "lit ''[bot]''" ?f] by (cases "strip_suffix (lit ''[bot]'') ?f") (auto simp: str_simps)
  have n: "normalize_login slug = ?f" using pre [OF assms(1)] suf by (simp add: normalize_login_def)
  have "ch (CHR ''/'') \<notin> set (?f @ lit ''[bot]'')" using assms(1) by (simp add: str_simps)
  from pre [OF this] show "is_expected_bot_login (slug @ lit ''[bot]'') (Some slug)"
    using n by (simp add: is_expected_bot_login_def normalize_login_def [of "slug @ _"] lb Let_def)
  show "is_expected_bot_login (lit ''app/'' @ slug) (Some slug)"
    using suf n by (simp add: is_expected_bot_login_def normalize_login_def [of "lit ''app/'' @ _"] lb Let_def)
qed

lemma route_Routed_iff:
  "route_work_issue meta creator = Routed \<longleftrightarrow>
     (\<exists>a. im_assignees meta = [a] \<and> eq_ignore_ascii_case a creator)"
  by (auto simp: route_work_issue_def split: list.splits)

text \<open>The cache never changes a decision: with any cache filled by earlier answers of the same
  lookup, the answer is the one of a fresh lookup.\<close>

definition cache_ok :: "(str \<Rightarrow> str option option) \<Rightarrow> trigger_authz_cache \<Rightarrow> bool" where
  "cache_ok lookup cache \<longleftrightarrow>
     (\<forall>login role. cache (to_ascii_lowercase login) = Some role \<longrightarrow> lookup login = Some role)"

text \<open>
  Caching roles for a pass changes no decision: if GitHub answers the same for logins equal up
  to case, a check with a cache filled by earlier checks decides as a check with no cache, and
  keeps the cache sound; a creator passes only as administrator or with the role admin or
  maintain.
\<close>

theorem check_trigger_creator_cache_sound:
  assumes "\<forall>l l'. eq_ignore_ascii_case l l' \<longrightarrow> lookup l = lookup l'" "cache_ok lookup cache"
    "check_trigger_creator lookup owner name access creator cache = (d, cache')"
  shows "fst (check_trigger_creator lookup owner name access creator Map.empty) = d \<and> cache_ok lookup cache' \<and>
    (d = Authorized \<longrightarrow>
       is_global_admin access (case sc_id creator of Some i \<Rightarrow> i | None \<Rightarrow> - 1) (sc_login creator) \<or>
       lookup (sc_login creator) \<in> {Some (Some (lit ''admin'')), Some (Some (lit ''maintain''))})"
proof (cases "is_global_admin access (case sc_id creator of Some i \<Rightarrow> i | None \<Rightarrow> - 1) (sc_login creator)")
  case True
  then show ?thesis using assms(2,3) by (auto simp: check_trigger_creator_def)
next
  case False
  let ?k = "to_ascii_lowercase (sc_login creator)"
  have role: "role_decision owner name (sc_login creator) role = Authorized \<Longrightarrow>
      Some role \<in> {Some (Some (lit ''admin'')), Some (Some (lit ''maintain''))}" for role
    by (simp add: role_decision_def split: if_splits)
  have upd: "cache_ok lookup (cache(?k \<mapsto> role))" if "lookup (sc_login creator) = Some role" for role
    using that assms(1,2) unfolding cache_ok_def eq_ignore_ascii_case_def by (metis fun_upd_apply option.inject)
  show ?thesis
  proof (cases "cache ?k")
    case (Some role)
    then have "lookup (sc_login creator) = Some role" using assms(2) by (auto simp: cache_ok_def)
    then show ?thesis using assms(2,3) False Some role by (auto simp: check_trigger_creator_def Let_def)
  next
    case None
    then show ?thesis using assms(2,3) False role upd
      by (auto simp: check_trigger_creator_def Let_def split: option.splits)
  qed
qed

theorem check_trigger_creator_cache_sound_witness:
  "fst (check_trigger_creator (\<lambda>l. Some (Some (lit ''admin''))) [] []
      \<lparr>ap_entries = None, ap_blocked = None, ap_mode = None, ap_global_admins = []\<rparr>
      \<lparr>sc_login = lit ''Ann'', sc_id = None\<rparr> Map.empty) = Authorized"
proof -
  let ?l = "\<lambda>l :: str. Some (Some (lit ''admin''))"
  let ?p = "\<lparr>ap_entries = None, ap_blocked = None, ap_mode = None, ap_global_admins = []\<rparr>"
  let ?c = "\<lparr>sc_login = lit ''Ann'', sc_id = None\<rparr>"
  let ?cache = "[to_ascii_lowercase (lit ''Ann'') \<mapsto> Some (lit ''admin'')]"
  have ok: "cache_ok ?l ?cache" by (auto simp: cache_ok_def)
  have c: "check_trigger_creator ?l [] [] ?p ?c ?cache = (Authorized, ?cache)"
    by (simp add: check_trigger_creator_def is_global_admin_def role_decision_def)
  show ?thesis using check_trigger_creator_cache_sound [OF _ ok c] by simp
qed

end
