(* ===== verification/SessionPolicy.thy ===== *)
theory SessionPolicy
  imports Identity
begin

text \<open>
  The capability-aware session authorization policy (\<open>backend/src/session_access/policy.rs\<close>), the
  facts it decides on (\<open>backend/src/session_access/context.rs\<close>).
\<close>

section \<open>Facts\<close>

record repo_ref =
  rf_owner :: str
  rf_name :: str

record session_authorization_facts =
  sf_creator_id :: "int option"
  sf_creator_login :: str
  sf_collaborators :: "str list"
  sf_log_access :: "str list"

record session_access_context =
  sa_installation_id :: int
  sa_repo :: repo_ref
  sa_trigger_issue :: int
  sa_creator :: session_creator
  sa_collaborators :: "str list"
  sa_log_access :: "str list"

definition facts :: "session_access_context \<Rightarrow> session_authorization_facts" where
  "facts c =
     \<lparr>sf_creator_id = sc_id (sa_creator c), sf_creator_login = sc_login (sa_creator c),
      sf_collaborators = sa_collaborators c, sf_log_access = sa_log_access c\<rparr>"

definition belongs_to :: "session_access_context \<Rightarrow> int \<Rightarrow> repo_ref \<Rightarrow> bool" where
  "belongs_to c installation_id repo \<longleftrightarrow> sa_installation_id c = installation_id \<and> sa_repo c = repo"

definition creator_matches :: "session_authorization_facts \<Rightarrow> int \<Rightarrow> str \<Rightarrow> bool" where
  "creator_matches f caller_id caller_login =
     (case sf_creator_id f of
        Some creator_id \<Rightarrow> caller_id = creator_id
      | None \<Rightarrow> trim (sf_creator_login f) \<noteq> [] \<and> eq_ignore_ascii_case caller_login (sf_creator_login f))"

section \<open>Decisions\<close>

datatype session_capability = OperationsVisibility | LogDownload | Observe | WorkAuthority

datatype access_basis =
    Creator | Collaborator | LogAccess | LegacyLogAdmin | GlobalAdmin | AppSystem | NoBasis

record session_access_decision =
  sd_allowed :: bool
  sd_basis :: access_basis

definition allow :: "access_basis \<Rightarrow> session_access_decision" where
  "allow basis = \<lparr>sd_allowed = True, sd_basis = basis\<rparr>"

definition deny :: session_access_decision where
  "deny = \<lparr>sd_allowed = False, sd_basis = NoBasis\<rparr>"

record verified_caller =
  vc_id :: int
  vc_login :: str

record policy_environment =
  pe_access :: access_policy
  pe_legacy_log_admins :: "str list"
  pe_github_bot_login :: "str option"

record session_access_request =
  sr_capability :: session_capability
  sr_caller :: verified_caller
  sr_facts :: session_authorization_facts
  sr_environment :: policy_environment
  sr_allow_global_admin :: bool

definition new_request ::
  "session_capability \<Rightarrow> verified_caller \<Rightarrow> session_authorization_facts \<Rightarrow> policy_environment \<Rightarrow>
   session_access_request" where
  "new_request capability caller f environment =
     \<lparr>sr_capability = capability, sr_caller = caller, sr_facts = f, sr_environment = environment,
      sr_allow_global_admin = True\<rparr>"

definition without_global_admin :: "session_access_request \<Rightarrow> session_access_request" where
  "without_global_admin rq = rq\<lparr>sr_allow_global_admin := False\<rparr>"

definition matches_any :: "str list \<Rightarrow> str \<Rightarrow> str \<Rightarrow> bool" where
  "matches_any entries caller_id caller_login \<longleftrightarrow>
     list_ex (\<lambda>entry. entry_matches entry caller_id caller_login) entries"

definition operations_visibility :: "session_access_request \<Rightarrow> session_access_decision" where
  "operations_visibility rq =
     (let env = sr_environment rq; caller = sr_caller rq; caller_id = show_int (vc_id caller)
      in if \<not> allows (pe_access env) (vc_id caller) (vc_login caller) then deny
         else if sr_allow_global_admin rq \<and> is_global_admin (pe_access env) (vc_id caller) (vc_login caller)
           then allow GlobalAdmin
         else if creator_matches (sr_facts rq) (vc_id caller) (vc_login caller) then allow Creator
         else if matches_any (sf_collaborators (sr_facts rq)) caller_id (vc_login caller) then allow Collaborator
         else if matches_any (sf_log_access (sr_facts rq)) caller_id (vc_login caller) then allow LogAccess
         else if matches_any (pe_legacy_log_admins env) caller_id (vc_login caller) then allow LegacyLogAdmin
         else deny)"

definition log_download_tier ::
  "session_authorization_facts \<Rightarrow> verified_caller \<Rightarrow> str list \<Rightarrow> session_access_decision" where
  "log_download_tier f caller legacy_log_admins =
     (let caller_id = show_int (vc_id caller)
      in if creator_matches f (vc_id caller) (vc_login caller) then allow Creator
         else if matches_any (sf_log_access f) caller_id (vc_login caller) then allow LogAccess
         else if matches_any legacy_log_admins caller_id (vc_login caller) then allow LegacyLogAdmin
         else deny)"

definition session_observability :: "session_access_request \<Rightarrow> session_access_decision" where
  "session_observability rq =
     (let env = sr_environment rq; caller = sr_caller rq
      in if \<not> allows (pe_access env) (vc_id caller) (vc_login caller) then deny
         else if sr_allow_global_admin rq \<and> is_global_admin (pe_access env) (vc_id caller) (vc_login caller)
           then allow GlobalAdmin
         else log_download_tier (sr_facts rq) caller (pe_legacy_log_admins env))"

definition work_authority :: "session_access_request \<Rightarrow> session_access_decision" where
  "work_authority rq =
     (let env = sr_environment rq; caller = sr_caller rq; caller_id = show_int (vc_id caller)
      in if is_expected_bot_login (vc_login caller) (pe_github_bot_login env) then allow AppSystem
         else if \<not> allows (pe_access env) (vc_id caller) (vc_login caller) then deny
         else if creator_matches (sr_facts rq) (vc_id caller) (vc_login caller) then allow Creator
         else if sr_allow_global_admin rq \<and> is_global_admin (pe_access env) (vc_id caller) (vc_login caller)
           then allow GlobalAdmin
         else if matches_any (sf_collaborators (sr_facts rq)) caller_id (vc_login caller) then allow Collaborator
         else deny)"

definition decide_access :: "session_access_request \<Rightarrow> session_access_decision" where
  "decide_access rq =
     (case sr_capability rq of
        OperationsVisibility \<Rightarrow> operations_visibility rq
      | LogDownload \<Rightarrow> session_observability rq
      | Observe \<Rightarrow> session_observability rq
      | WorkAuthority \<Rightarrow> work_authority rq)"

definition work_authority_tier ::
  "session_authorization_facts \<Rightarrow> verified_caller \<Rightarrow> access_policy \<Rightarrow> str option \<Rightarrow> session_access_decision" where
  "work_authority_tier f caller access github_bot_login =
     work_authority (new_request WorkAuthority caller f
       \<lparr>pe_access = access, pe_legacy_log_admins = [], pe_github_bot_login = github_bot_login\<rparr>)"

section \<open>The table of capabilities\<close>

text \<open>The documented table: which tier grants which capability.\<close>

fun tier_grants :: "session_capability \<Rightarrow> access_basis \<Rightarrow> bool" where
  "tier_grants _ Creator = True"
| "tier_grants c Collaborator = (c \<in> {OperationsVisibility, WorkAuthority})"
| "tier_grants c LogAccess = (c \<in> {OperationsVisibility, LogDownload, Observe})"
| "tier_grants c LegacyLogAdmin = (c \<in> {OperationsVisibility, LogDownload, Observe})"
| "tier_grants _ GlobalAdmin = True"
| "tier_grants c AppSystem = (c = WorkAuthority)"
| "tier_grants _ NoBasis = False"

text \<open>Which tiers a caller belongs to.\<close>

fun belongs_to_tier :: "session_access_request \<Rightarrow> access_basis \<Rightarrow> bool" where
  "belongs_to_tier rq Creator =
     creator_matches (sr_facts rq) (vc_id (sr_caller rq)) (vc_login (sr_caller rq))"
| "belongs_to_tier rq Collaborator =
     matches_any (sf_collaborators (sr_facts rq)) (show_int (vc_id (sr_caller rq))) (vc_login (sr_caller rq))"
| "belongs_to_tier rq LogAccess =
     matches_any (sf_log_access (sr_facts rq)) (show_int (vc_id (sr_caller rq))) (vc_login (sr_caller rq))"
| "belongs_to_tier rq LegacyLogAdmin =
     matches_any (pe_legacy_log_admins (sr_environment rq)) (show_int (vc_id (sr_caller rq))) (vc_login (sr_caller rq))"
| "belongs_to_tier rq GlobalAdmin =
     (sr_allow_global_admin rq \<and>
      is_global_admin (pe_access (sr_environment rq)) (vc_id (sr_caller rq)) (vc_login (sr_caller rq)))"
| "belongs_to_tier rq AppSystem =
     is_expected_bot_login (vc_login (sr_caller rq)) (pe_github_bot_login (sr_environment rq))"
| "belongs_to_tier rq NoBasis = False"

definition admitted :: "session_access_request \<Rightarrow> bool" where
  "admitted rq \<longleftrightarrow> allows (pe_access (sr_environment rq)) (vc_id (sr_caller rq)) (vc_login (sr_caller rq))"

lemmas policy_defs = decide_access_def operations_visibility_def session_observability_def log_download_tier_def
  work_authority_def admitted_def allow_def deny_def Let_def

lemma ex_basis: "(\<exists>b. P b) \<longleftrightarrow> P Creator \<or> P Collaborator \<or> P LogAccess \<or> P LegacyLogAdmin \<or> P GlobalAdmin
    \<or> P AppSystem \<or> P NoBasis"
  by (metis access_basis.exhaust)

text \<open>
  C17: every surface follows the documented table: a capability is granted exactly when some tier
  that grants it holds for the caller and the deployment admits the caller; the App as system
  principal is the one exception to the deployment gate, and a denial never names a tier.
\<close>

theorem decide_access_follows_table:
  "(sd_allowed (decide_access rq) \<longleftrightarrow>
      (\<exists>b. tier_grants (sr_capability rq) b \<and> belongs_to_tier rq b \<and> (b = AppSystem \<or> admitted rq))) \<and>
   (if sd_allowed (decide_access rq)
    then tier_grants (sr_capability rq) (sd_basis (decide_access rq)) \<and> belongs_to_tier rq (sd_basis (decide_access rq))
    else sd_basis (decide_access rq) = NoBasis)"
  unfolding ex_basis by (cases "sr_capability rq") (auto simp: policy_defs)

end
