(* ===== verification/Registration.thy ===== *)
theory Registration
  imports SessionPolicy
begin

text \<open>
  Registrations: the launch inputs and identity of a session (\<open>SessionDef\<close> and \<open>SessionRegistration\<close> of
  \<open>backend/src/reconcile/desired.rs\<close>), package references (\<open>backend/src/goals/trigger_parse.rs\<close>,
  \<open>render_ref\<close> of \<open>backend/src/reconcile/reachability.rs\<close>), the content hashes over launch inputs
  (\<open>backend/src/reconcile/hashing.rs\<close>) and the authority of work authors
  (\<open>backend/src/reconcile/work_authz.rs\<close>).
\<close>

section \<open>Data\<close>

record package_ref =
  pr_owner :: str
  pr_repo :: str
  pr_git_ref :: str
  pr_path :: str

definition render_ref :: "package_ref \<Rightarrow> str" where
  "render_ref r = pr_owner r @ lit ''/'' @ pr_repo r @ lit ''@'' @ pr_git_ref r @ lit '':'' @ pr_path r"

type_synonym package_env = "(str, (str, str) btree_map) btree_map"

record session_def =
  df_name :: str
  df_packages :: "package_ref list"
  df_manifest_refs :: "package_ref list"
  df_work_label :: "str option"
  df_environment :: "str option"
  df_output_lang :: "str option"
  df_engine_config :: "(str, str) btree_map"
  df_source_branch :: "str option"
  df_target_branch :: "str option"
  df_package_env :: package_env

record session_registration =
  rg_installation_id :: int
  rg_repo :: repo_ref
  rg_trigger_issue :: int
  rg_trigger_author_id :: int
  rg_trigger_author_login :: str
  rg_creator_login :: str
  rg_creator_id :: "int option"
  rg_def :: session_def
  rg_effective_packages :: "package_ref list"
  rg_effective_package_env :: package_env
  rg_session_id :: str
  rg_config_hash :: str
  rg_auto_merge :: bool
  rg_log_access :: "str list"
  rg_collaborators :: "str list"

section \<open>Work authors\<close>

definition registration_facts :: "session_registration \<Rightarrow> session_authorization_facts" where
  "registration_facts reg =
     \<lparr>sf_creator_id = rg_creator_id reg, sf_creator_login = rg_creator_login reg,
      sf_collaborators = rg_collaborators reg, sf_log_access = []\<rparr>"

definition is_work_author_allowed :: "session_registration \<Rightarrow> access_policy \<Rightarrow> int \<Rightarrow> str \<Rightarrow> bool" where
  "is_work_author_allowed reg access author_id author_login =
     sd_allowed (work_authority_tier (registration_facts reg) \<lparr>vc_id = author_id, vc_login = author_login\<rparr> access None)"

definition is_work_author_allowed_with_bot ::
  "session_registration \<Rightarrow> access_policy \<Rightarrow> int \<Rightarrow> str \<Rightarrow> str option \<Rightarrow> bool" where
  "is_work_author_allowed_with_bot reg access author_id author_login github_bot_login =
     sd_allowed (work_authority_tier (registration_facts reg) \<lparr>vc_id = author_id, vc_login = author_login\<rparr> access
       github_bot_login)"

lemma work_author_tiers:
  "is_work_author_allowed_with_bot reg access i login bl \<longleftrightarrow>
     is_expected_bot_login login bl \<or>
     allows access i login \<and>
       (creator_matches (registration_facts reg) i login \<or> is_global_admin access i login \<or>
        matches_any (rg_collaborators reg) (show_int i) login)"
  by (auto simp: is_work_author_allowed_with_bot_def work_authority_tier_def new_request_def work_authority_def
      allow_def deny_def Let_def registration_facts_def)

lemma work_author_human:
  "is_work_author_allowed reg access i login = is_work_author_allowed_with_bot reg access i login None"
  by (simp add: is_work_author_allowed_def is_work_author_allowed_with_bot_def)

section \<open>Content hashes\<close>

text \<open>
  A hash is a digest of canonical JSON. The value that is serialized is built here field by field, in
  declaration order and with the fields the source skips when they are unset; the digest (serialization,
  SHA-256, hexadecimal) is a parameter.
\<close>

datatype json = JNull | JBool bool | JStr str | JArr "json list" | JObj "(str \<times> json) list"

definition json_opt :: "str option \<Rightarrow> json" where
  "json_opt v = (case v of Some s \<Rightarrow> JStr s | None \<Rightarrow> JNull)"

definition canon_package :: "package_ref \<Rightarrow> json" where
  "canon_package p =
     JObj [(lit ''owner'', JStr (pr_owner p)), (lit ''repo'', JStr (pr_repo p)),
           (lit ''git_ref'', JStr (pr_git_ref p)), (lit ''path'', JStr (pr_path p))]"

definition canon_packages :: "package_ref list \<Rightarrow> json" where
  "canon_packages ps = JArr (map canon_package ps)"

definition json_map :: "(str, str) btree_map \<Rightarrow> json" where
  "json_map m = JObj (map (\<lambda>(k, v). (k, JStr v)) m)"

definition json_env :: "package_env \<Rightarrow> json" where
  "json_env m = JObj (map (\<lambda>(k, v). (k, json_map v)) m)"

definition field_if :: "string \<Rightarrow> bool \<Rightarrow> json \<Rightarrow> (str \<times> json) list" where
  "field_if name present v = (if present then [(lit name, v)] else [])"

definition field_opt :: "string \<Rightarrow> str option \<Rightarrow> (str \<times> json) list" where
  "field_opt name v = (case v of Some s \<Rightarrow> [(lit name, JStr s)] | None \<Rightarrow> [])"

definition config_canonical ::
  "package_ref list \<Rightarrow> str option \<Rightarrow> str option \<Rightarrow> str option \<Rightarrow> (str, str) btree_map \<Rightarrow> package_ref list \<Rightarrow>
   str option \<Rightarrow> str option \<Rightarrow> package_env \<Rightarrow> (str \<times> json) list" where
  "config_canonical packages work_label environment output_lang engine_config manifest_refs source_branch target_branch
     env =
     [(lit ''packages'', canon_packages packages)] @
     field_opt ''work_label'' work_label @
     [(lit ''environment'', json_opt environment)] @
     field_opt ''output_lang'' output_lang @
     field_if ''engine_config'' (engine_config \<noteq> []) (json_map engine_config) @
     field_if ''manifest_refs'' (manifest_refs \<noteq> []) (canon_packages manifest_refs) @
     field_opt ''source_branch'' source_branch @
     field_opt ''target_branch'' target_branch @
     field_if ''package_env'' (env \<noteq> []) (json_env env)"

definition config_hash ::
  "(json \<Rightarrow> str) \<Rightarrow> package_ref list \<Rightarrow> str option \<Rightarrow> str option \<Rightarrow> str option \<Rightarrow> (str, str) btree_map \<Rightarrow>
   package_ref list \<Rightarrow> str option \<Rightarrow> str option \<Rightarrow> package_env \<Rightarrow> str" where
  "config_hash digest packages work_label environment output_lang engine_config manifest_refs source_branch target_branch
     env =
     digest (JObj (config_canonical packages work_label environment output_lang engine_config manifest_refs source_branch
       target_branch env))"

definition runtime_config_hash :: "(json \<Rightarrow> str) \<Rightarrow> str \<Rightarrow> str option \<Rightarrow> str" where
  "runtime_config_hash digest hash work_label_namespace =
     (case work_label_namespace of
        None \<Rightarrow> hash
      | Some ns \<Rightarrow> digest (JObj [(lit ''config_hash'', JStr hash), (lit ''work_label_namespace'', JStr ns)]))"

definition full_canonical :: "session_registration \<Rightarrow> (str \<times> json) list" where
  "full_canonical reg =
     (let d = rg_def reg
      in [(lit ''packages'', canon_packages (df_packages d))] @
         field_opt ''work_label'' (df_work_label d) @
         [(lit ''environment'', json_opt (df_environment d)), (lit ''name'', JStr (df_name d)),
          (lit ''auto_merge'', JBool (rg_auto_merge reg)), (lit ''log_access'', JArr (map JStr (rg_log_access reg)))] @
         field_opt ''output_lang'' (df_output_lang d) @
         field_if ''engine_config'' (df_engine_config d \<noteq> []) (json_map (df_engine_config d)) @
         field_if ''collaborators'' (rg_collaborators reg \<noteq> []) (JArr (map JStr (rg_collaborators reg))) @
         field_if ''manifest_refs'' (df_manifest_refs d \<noteq> []) (canon_packages (df_manifest_refs d)) @
         field_opt ''source_branch'' (df_source_branch d) @
         field_opt ''target_branch'' (df_target_branch d) @
         field_if ''package_env'' (df_package_env d \<noteq> []) (json_env (df_package_env d)))"

definition full_config_hash :: "(json \<Rightarrow> str) \<Rightarrow> session_registration \<Rightarrow> str" where
  "full_config_hash digest reg = digest (JObj (full_canonical reg))"

section \<open>What the hashes freeze\<close>

lemma lit_inject [simp]: "lit a = lit b \<longleftrightarrow> a = b"
  unfolding lit_def by (rule inj_eq) (simp add: inj_on_def)

lemma canon_package_inj: "canon_package p = canon_package q \<Longrightarrow> p = q"
  by (cases p, cases q) (simp add: canon_package_def)

lemma canon_packages_inj [simp]: "canon_packages ps = canon_packages qs \<longleftrightarrow> ps = qs"
  using canon_package_inj by (auto simp: canon_packages_def dest!: inj_map_eq_map [OF injI, THEN iffD1, rotated])

lemma json_opt_inj [simp]: "json_opt a = json_opt b \<longleftrightarrow> a = b"
  by (auto simp: json_opt_def split: option.splits)

lemma json_map_inj [simp]: "json_map a = json_map b \<longleftrightarrow> a = b"
proof -
  have "inj (\<lambda>(k :: str, v :: str). (k, JStr v))" by (auto simp: inj_def)
  then show ?thesis by (auto simp: json_map_def dest: inj_map_eq_map [THEN iffD1])
qed

lemma json_env_inj [simp]: "json_env a = json_env b \<longleftrightarrow> a = b"
proof -
  have "inj (\<lambda>(k :: str, v :: (str, str) btree_map). (k, json_map v))" by (auto simp: inj_def)
  then show ?thesis by (auto simp: json_env_def dest: inj_map_eq_map [THEN iffD1])
qed

lemma map_JStr_inj [simp]: "map JStr a = map JStr b \<longleftrightarrow> a = b"
  by (rule inj_map_eq_map) (simp add: inj_def)

lemma lookup_fields [simp]:
  "map_of (field_if n p v) x = (if p \<and> x = lit n then Some v else None)"
  "map_of (field_opt n o') x = (if x = lit n then map_option JStr o' else None)"
  by (auto simp: field_if_def field_opt_def split: option.splits)

lemma map_option_JStr_inj [simp]: "map_option JStr a = map_option JStr b \<longleftrightarrow> a = b"
  by (cases a; cases b) auto

text \<open>The launch inputs an author writes: everything \<open>full_config_hash\<close> covers.\<close>

definition authored ::
  "session_registration \<Rightarrow> session_def \<times> bool \<times> str list \<times> str list" where
  "authored reg = (rg_def reg, rg_auto_merge reg, rg_log_access reg, rg_collaborators reg)"

lemma full_canonical_lookup:
  "map_of (full_canonical r) (lit ''packages'') = Some (canon_packages (df_packages (rg_def r)))"
  "map_of (full_canonical r) (lit ''work_label'') = map_option JStr (df_work_label (rg_def r))"
  "map_of (full_canonical r) (lit ''environment'') = Some (json_opt (df_environment (rg_def r)))"
  "map_of (full_canonical r) (lit ''name'') = Some (JStr (df_name (rg_def r)))"
  "map_of (full_canonical r) (lit ''auto_merge'') = Some (JBool (rg_auto_merge r))"
  "map_of (full_canonical r) (lit ''log_access'') = Some (JArr (map JStr (rg_log_access r)))"
  "map_of (full_canonical r) (lit ''output_lang'') = map_option JStr (df_output_lang (rg_def r))"
  "map_of (full_canonical r) (lit ''engine_config'') =
     (if df_engine_config (rg_def r) \<noteq> [] then Some (json_map (df_engine_config (rg_def r))) else None)"
  "map_of (full_canonical r) (lit ''collaborators'') =
     (if rg_collaborators r \<noteq> [] then Some (JArr (map JStr (rg_collaborators r))) else None)"
  "map_of (full_canonical r) (lit ''manifest_refs'') =
     (if df_manifest_refs (rg_def r) \<noteq> [] then Some (canon_packages (df_manifest_refs (rg_def r))) else None)"
  "map_of (full_canonical r) (lit ''source_branch'') = map_option JStr (df_source_branch (rg_def r))"
  "map_of (full_canonical r) (lit ''target_branch'') = map_option JStr (df_target_branch (rg_def r))"
  "map_of (full_canonical r) (lit ''package_env'') =
     (if df_package_env (rg_def r) \<noteq> [] then Some (json_env (df_package_env (rg_def r))) else None)"
  by (simp_all add: full_canonical_def Let_def map_add_def split: option.split)

lemma full_canonical_inj:
  assumes "full_canonical r = full_canonical r'"
  shows "authored r = authored r'"
proof -
  let ?d = "rg_def r" and ?d' = "rg_def r'"
  note l = full_canonical_lookup [of r, unfolded assms full_canonical_lookup]
  have "df_engine_config ?d = df_engine_config ?d'" "df_manifest_refs ?d = df_manifest_refs ?d'"
    "df_package_env ?d = df_package_env ?d'" "rg_collaborators r = rg_collaborators r'"
    using l(8,9,10,13) by (auto split: if_split_asm)
  moreover have "df_packages ?d = df_packages ?d'" "df_work_label ?d = df_work_label ?d'"
    "df_environment ?d = df_environment ?d'" "df_name ?d = df_name ?d'" "rg_auto_merge r = rg_auto_merge r'"
    "rg_log_access r = rg_log_access r'" "df_output_lang ?d = df_output_lang ?d'"
    "df_source_branch ?d = df_source_branch ?d'" "df_target_branch ?d = df_target_branch ?d'"
    using l(1-7,11,12) by simp_all
  ultimately show ?thesis by (simp add: authored_def)
qed

lemma full_hash_iff:
  assumes "inj digest"
  shows "full_config_hash digest r = full_config_hash digest r' \<longleftrightarrow> authored r = authored r'"
proof
  assume "full_config_hash digest r = full_config_hash digest r'"
  then show "authored r = authored r'"
    using assms by (intro full_canonical_inj) (auto simp: full_config_hash_def dest: injD)
next
  assume "authored r = authored r'"
  then show "full_config_hash digest r = full_config_hash digest r'"
    by (simp add: full_config_hash_def full_canonical_def authored_def)
qed

text \<open>
  A canonical text of a JSON value: the tag of its constructor, its length where it has one, its contents.
  It stands for the digest where a concrete one is needed.
\<close>

fun json_text :: "json \<Rightarrow> str" and json_fields_text :: "(str \<times> json) list \<Rightarrow> str" where
  "json_text JNull = [0]"
| "json_text (JBool b) = [1, if b then 1 else 0]"
| "json_text (JStr s) = 2 # length s # s"
| "json_text (JArr xs) = 3 # length xs # concat (map json_text xs)"
| "json_text (JObj fs) = 4 # length fs # json_fields_text fs"
| "json_fields_text [] = []"
| "json_fields_text ((k, v) # fs) = (length k # k) @ json_text v @ json_fields_text fs"

lemma json_text_prefix:
  "json_text a @ r = json_text b @ r' \<Longrightarrow> a = b \<and> r = r'"
  "length fs = length gs \<Longrightarrow> json_fields_text fs @ r = json_fields_text gs @ r' \<Longrightarrow> fs = gs \<and> r = r'"
proof (induction a and fs arbitrary: b r r' and gs r r' rule: json_text_json_fields_text.induct)
  case (4 xs)
  have arr: "length ys = length zs \<Longrightarrow> set ys \<subseteq> set xs \<Longrightarrow>
    concat (map json_text ys) @ r = concat (map json_text zs) @ r' \<Longrightarrow> ys = zs \<and> r = r'" for ys zs
  proof (induction ys arbitrary: zs)
    case (Cons y ys)
    then obtain z zs' where "zs = z # zs'" by (cases zs) auto
    have "y = z \<and> concat (map json_text ys) @ r = concat (map json_text zs') @ r'"
      by (rule 4(1)) (use Cons.prems \<open>zs = z # zs'\<close> in auto)
    with Cons \<open>zs = z # zs'\<close> show ?case by auto
  qed simp
  from 4(2) obtain zs where "b = JArr zs" by (cases b) (auto split: if_splits)
  with 4(2) arr [of xs zs] show ?case by auto
next
  case (5 fs)
  from 5(2) obtain gs where "b = JObj gs" by (cases b) (auto split: if_splits)
  with 5 show ?case by auto
next
  case (7 k v fs)
  from 7(3) obtain k' v' gs' where gs: "gs = (k', v') # gs'" by (cases gs) auto
  with 7(4) have "k = k'" "json_text v @ json_fields_text fs @ r = json_text v' @ json_fields_text gs' @ r'" by auto
  then have v: "v = v'" "json_fields_text fs @ r = json_fields_text gs' @ r'" using 7(1) by blast+
  have "length fs = length gs'" using 7(3) gs by simp
  from 7(2) [OF this v(2)] v(1) \<open>k = k'\<close> gs show ?case by simp
next
  case 1
  then show ?case by (cases b) (auto split: if_splits)
next
  case (2 b')
  then show ?case by (cases b) (auto split: if_splits)
next
  case (3 s)
  then show ?case by (cases b) (auto split: if_splits)
next
  case 6
  then show ?case by simp
qed

lemma inj_json_text: "inj json_text"
  by (rule injI) (use json_text_prefix(1) [of _ "[]" _ "[]"] in simp)

text \<open>
  The hash latched at announcement freezes exactly what an author writes: with a digest free of
  collisions, two registrations have the same full hash if and only if their definition, their merge
  opt-in, their log readers and their collaborators agree, whatever optional sections are absent. Identity
  metadata, expanded packages and the deployment's namespace never enter it.
\<close>

theorem full_config_hash_freezes:
  assumes "inj digest"
  shows "full_config_hash digest r = full_config_hash digest r' \<longleftrightarrow>
    rg_def r = rg_def r' \<and> rg_auto_merge r = rg_auto_merge r' \<and> rg_log_access r = rg_log_access r' \<and>
    rg_collaborators r = rg_collaborators r'"
  using full_hash_iff [OF assms] by (simp add: authored_def)

definition sample_def :: session_def where
  "sample_def =
     \<lparr>df_name = lit ''nightly'',
      df_packages = [\<lparr>pr_owner = lit ''acme'', pr_repo = lit ''pkgs'', pr_git_ref = lit ''dev'', pr_path = lit ''p/a''\<rparr>],
      df_manifest_refs = [], df_work_label = Some (lit ''fkst-dev''), df_environment = None, df_output_lang = None,
      df_engine_config = [], df_source_branch = None, df_target_branch = None, df_package_env = []\<rparr>"

definition sample_reg :: session_registration where
  "sample_reg =
     \<lparr>rg_installation_id = 42, rg_repo = \<lparr>rf_owner = lit ''acme'', rf_name = lit ''site''\<rparr>, rg_trigger_issue = 7,
      rg_trigger_author_id = 9, rg_trigger_author_login = lit ''alice'', rg_creator_login = lit ''alice'',
      rg_creator_id = Some 9, rg_def = sample_def, rg_effective_packages = df_packages sample_def,
      rg_effective_package_env = [], rg_session_id = lit ''s-7'', rg_config_hash = lit ''h'', rg_auto_merge = False,
      rg_log_access = [], rg_collaborators = []\<rparr>"

theorem full_config_hash_freezes_witness:
  "full_config_hash json_text sample_reg \<noteq> full_config_hash json_text (sample_reg\<lparr>rg_collaborators := [lit ''eve'']\<rparr>) \<and>
   full_config_hash json_text sample_reg = full_config_hash json_text (sample_reg\<lparr>rg_creator_login := lit ''bob''\<rparr>)"
  using full_config_hash_freezes [OF inj_json_text] by (simp add: sample_reg_def)

end
