(* ===== verification/PackageRef.thy ===== *)
theory PackageRef
  imports SectionParse Registration
begin

text \<open>
  The grammar of package references \<open>owner/repo@ref:path\<close>, which the repository implements twice: the shared
  parser of the session entrypoint (\<open>backend/src/goals/package_ref.rs\<close>) and the parser of a line of the trigger
  issue (\<open>parse_package_ref\<close> of \<open>backend/src/goals/trigger_parse.rs\<close>). The anchored regular expressions are
  written out as predicates on characters.
\<close>

datatype ref_part = OwnerPart | RepoPart | GitRefPart | PathPart

datatype ref_error =
    MissingAt | MissingColon | MissingSlash | NotOwnerRepo
  | EmptyPart ref_part | BadChars ref_part | Traversal ref_part | AbsolutePath

definition owner_repo_char :: "uchar \<Rightarrow> bool" where
  "owner_repo_char c \<longleftrightarrow>
     is_ascii_alphanumeric c \<or> c = ch (CHR ''_'') \<or> c = ch (CHR ''.'') \<or> c = ch (CHR ''-'')"

definition ref_path_char :: "uchar \<Rightarrow> bool" where
  "ref_path_char c \<longleftrightarrow> owner_repo_char c \<or> c = ch (CHR ''/'')"

definition owner_repo_segment_regex :: "str \<Rightarrow> bool" where
  "owner_repo_segment_regex s \<longleftrightarrow> s \<noteq> [] \<and> list_all owner_repo_char s"

definition ref_or_path_regex :: "str \<Rightarrow> bool" where
  "ref_or_path_regex s \<longleftrightarrow> s \<noteq> [] \<and> list_all ref_path_char s"

definition has_traversal :: "str \<Rightarrow> bool" where
  "has_traversal s \<longleftrightarrow> lit ''..'' \<in> set (split (ch (CHR ''/'')) s)"

section \<open>The shared parser\<close>

definition validate_owner_repo_segment :: "ref_part \<Rightarrow> str \<Rightarrow> ref_error + unit" where
  "validate_owner_repo_segment which segment =
     (if \<not> owner_repo_segment_regex segment then Inl (BadChars which) else Inr ())"

definition validate_git_ref :: "str \<Rightarrow> ref_error + unit" where
  "validate_git_ref git_ref =
     (if \<not> ref_or_path_regex git_ref then Inl (BadChars GitRefPart)
      else if has_traversal git_ref then Inl (Traversal GitRefPart)
      else Inr ())"

definition validate_package_path :: "str \<Rightarrow> ref_error + unit" where
  "validate_package_path path =
     (if starts_with (lit ''/'') path then Inl AbsolutePath
      else if \<not> ref_or_path_regex path then Inl (BadChars PathPart)
      else if has_traversal path then Inl (Traversal PathPart)
      else Inr ())"

definition parse_package_ref :: "str \<Rightarrow> ref_error + package_ref" where
  "parse_package_ref untrimmed =
     (let raw = trim untrimmed
      in and_then (ok_or MissingAt (split_once (ch (CHR ''@'')) raw)) (\<lambda>(owner_repo, ref_path).
         and_then (ok_or MissingColon (split_once (ch (CHR '':'')) ref_path)) (\<lambda>(git_ref, path).
         and_then (ok_or MissingSlash (split_once (ch (CHR ''/'')) owner_repo)) (\<lambda>(owner, repo).
         and_then (validate_owner_repo_segment OwnerPart owner) (\<lambda>_.
         and_then (validate_owner_repo_segment RepoPart repo) (\<lambda>_.
         and_then (validate_git_ref git_ref) (\<lambda>_.
         and_then (validate_package_path path) (\<lambda>_.
           Inr \<lparr>pr_owner = owner, pr_repo = repo, pr_git_ref = git_ref, pr_path = path\<rparr>))))))))"

definition package_name_from_path :: "str \<Rightarrow> str" where
  "package_name_from_path path = last (split (ch (CHR ''/'')) path)"

section \<open>The parser of a trigger line\<close>

definition check_segment :: "ref_part \<Rightarrow> str \<Rightarrow> ref_error + unit" where
  "check_segment which segment =
     (if segment = [] then Inl (EmptyPart which)
      else if \<not> owner_repo_segment_regex segment then Inl (BadChars which)
      else Inr ())"

definition check_git_ref :: "str \<Rightarrow> ref_error + unit" where
  "check_git_ref git_ref =
     (if git_ref = [] then Inl (EmptyPart GitRefPart)
      else if has_traversal git_ref then Inl (Traversal GitRefPart)
      else if \<not> ref_or_path_regex git_ref then Inl (BadChars GitRefPart)
      else Inr ())"

definition check_path :: "str \<Rightarrow> ref_error + unit" where
  "check_path path =
     (if path = [] then Inl (EmptyPart PathPart)
      else if starts_with (lit ''/'') path then Inl AbsolutePath
      else if has_traversal path then Inl (Traversal PathPart)
      else if \<not> ref_or_path_regex path then Inl (BadChars PathPart)
      else Inr ())"

definition parse_package_line :: "str \<Rightarrow> ref_error + package_ref" where
  "parse_package_line v =
     and_then (ok_or MissingAt (split_once (ch (CHR ''@'')) v)) (\<lambda>(owner_repo, ref_path).
     and_then (ok_or MissingColon (split_once (ch (CHR '':'')) ref_path)) (\<lambda>(git_ref, path).
       if count_list owner_repo (ch (CHR ''/'')) \<noteq> 1 then Inl NotOwnerRepo
       else and_then (ok_or NotOwnerRepo (split_once (ch (CHR ''/'')) owner_repo)) (\<lambda>(owner, repo).
         and_then (check_segment OwnerPart owner) (\<lambda>_.
         and_then (check_segment RepoPart repo) (\<lambda>_.
         and_then (check_git_ref git_ref) (\<lambda>_.
         and_then (check_path path) (\<lambda>_.
           Inr \<lparr>pr_owner = owner, pr_repo = repo, pr_git_ref = git_ref, pr_path = path\<rparr>)))))))"

section \<open>The language of both\<close>

definition wf_package_ref :: "package_ref \<Rightarrow> bool" where
  "wf_package_ref r \<longleftrightarrow>
     owner_repo_segment_regex (pr_owner r) \<and> owner_repo_segment_regex (pr_repo r) \<and>
     ref_or_path_regex (pr_git_ref r) \<and> \<not> has_traversal (pr_git_ref r) \<and>
     ref_or_path_regex (pr_path r) \<and> \<not> has_traversal (pr_path r) \<and> \<not> starts_with (lit ''/'') (pr_path r)"

lemmas ref_defs = owner_repo_segment_regex_def ref_or_path_regex_def owner_repo_char_def ref_path_char_def char_class_defs

text \<open>None of the separators belongs to the characters of a part they end.\<close>

lemma segment_free:
  "owner_repo_segment_regex s \<Longrightarrow> 64 \<notin> set s \<and> 47 \<notin> set s"
  by (auto simp: ref_defs list_all_iff)

lemma ref_path_free: "ref_or_path_regex s \<Longrightarrow> 58 \<notin> set s"
  by (auto simp: ref_defs list_all_iff)

lemma render_ref_codes:
  "render_ref r = (pr_owner r @ 47 # pr_repo r) @ 64 # pr_git_ref r @ 58 # pr_path r"
  by (simp add: render_ref_def str_simps)

lemma splits_iff:
  "split_once 64 v = Some (owner_repo, ref_path) \<and> split_once 58 ref_path = Some (git_ref, path) \<and>
   split_once 47 owner_repo = Some (owner, repo) \<longleftrightarrow>
     v = (owner @ 47 # repo) @ 64 # git_ref @ 58 # path \<and> owner_repo = owner @ 47 # repo \<and>
     ref_path = git_ref @ 58 # path \<and> 64 \<notin> set owner \<and> 64 \<notin> set repo \<and> 58 \<notin> set git_ref \<and> 47 \<notin> set owner"
  by (auto simp: split_once_Some_iff)

lemma check_segment_iff: "check_segment which s = Inr () \<longleftrightarrow> owner_repo_segment_regex s"
  by (auto simp: check_segment_def owner_repo_segment_regex_def)

lemma check_git_ref_iff: "check_git_ref s = Inr () \<longleftrightarrow> ref_or_path_regex s \<and> \<not> has_traversal s"
  by (auto simp: check_git_ref_def ref_or_path_regex_def)

lemma check_path_iff:
  "check_path s = Inr () \<longleftrightarrow> ref_or_path_regex s \<and> \<not> has_traversal s \<and> \<not> starts_with (lit ''/'') s"
  by (auto simp: check_path_def ref_or_path_regex_def)

lemma validate_iffs:
  "validate_owner_repo_segment which s = Inr () \<longleftrightarrow> owner_repo_segment_regex s"
  "validate_git_ref s = Inr () \<longleftrightarrow> ref_or_path_regex s \<and> \<not> has_traversal s"
  "validate_package_path s = Inr () \<longleftrightarrow> ref_or_path_regex s \<and> \<not> has_traversal s \<and> \<not> starts_with (lit ''/'') s"
  by (auto simp: validate_owner_repo_segment_def validate_git_ref_def validate_package_path_def)

lemma parse_package_ref_steps:
  "parse_package_ref v = Inr r \<longleftrightarrow>
     (\<exists>owner_repo ref_path. split_once 64 (trim v) = Some (owner_repo, ref_path) \<and>
        split_once 58 ref_path = Some (pr_git_ref r, pr_path r) \<and>
        split_once 47 owner_repo = Some (pr_owner r, pr_repo r)) \<and> wf_package_ref r"
  by (cases r) (auto simp: parse_package_ref_def Let_def res_simps validate_iffs wf_package_ref_def)

lemma parse_package_line_steps:
  "parse_package_line v = Inr r \<longleftrightarrow>
     (\<exists>owner_repo ref_path. split_once 64 v = Some (owner_repo, ref_path) \<and>
        split_once 58 ref_path = Some (pr_git_ref r, pr_path r) \<and>
        split_once 47 owner_repo = Some (pr_owner r, pr_repo r) \<and> count_list owner_repo 47 = 1) \<and> wf_package_ref r"
  by (cases r) (auto simp: parse_package_line_def res_simps check_segment_iff check_git_ref_iff check_path_iff
      wf_package_ref_def split: if_splits)

lemma parse_package_ref_iff: "parse_package_ref v = Inr r \<longleftrightarrow> wf_package_ref r \<and> trim v = render_ref r"
proof -
  have "64 \<notin> set (pr_owner r) \<and> 64 \<notin> set (pr_repo r) \<and> 58 \<notin> set (pr_git_ref r) \<and> 47 \<notin> set (pr_owner r)"
    if "wf_package_ref r" using that segment_free ref_path_free by (simp add: wf_package_ref_def)
  then show ?thesis unfolding parse_package_ref_steps splits_iff render_ref_codes by blast
qed

lemma count_owner_repo: "wf_package_ref r \<Longrightarrow> count_list (pr_owner r @ 47 # pr_repo r) 47 = 1"
  using segment_free by (simp add: wf_package_ref_def)

lemma parse_package_line_iff: "parse_package_line v = Inr r \<longleftrightarrow> wf_package_ref r \<and> v = render_ref r"
proof -
  have "64 \<notin> set (pr_owner r) \<and> 64 \<notin> set (pr_repo r) \<and> 58 \<notin> set (pr_git_ref r) \<and> 47 \<notin> set (pr_owner r)"
    if "wf_package_ref r" using that segment_free ref_path_free by (simp add: wf_package_ref_def)
  moreover have "split_once 64 v = Some (owner_repo, ref_path) \<and> split_once 58 ref_path = Some (pr_git_ref r, pr_path r) \<and>
      split_once 47 owner_repo = Some (pr_owner r, pr_repo r) \<Longrightarrow> owner_repo = pr_owner r @ 47 # pr_repo r" for owner_repo ref_path
    by (simp add: split_once_Some_iff)
  ultimately show ?thesis
    unfolding parse_package_line_steps using count_owner_repo [of r] splits_iff [of v _ _ "pr_git_ref r" "pr_path r" "pr_owner r" "pr_repo r"]
    unfolding render_ref_codes by metis
qed

text \<open>
  Both parsers of package references read the same language, and exactly what \<open>render_ref\<close> writes: a
  trigger line is accepted as \<open>r\<close> iff it is the rendering of the well-formed reference \<open>r\<close>, and the shared
  parser accepts the same text, up to surrounding whitespace.
\<close>

theorem package_ref_grammars_agree:
  "(parse_package_line v = Inr r \<longleftrightarrow> wf_package_ref r \<and> v = render_ref r) \<and>
   (parse_package_ref v = Inr r \<longleftrightarrow> wf_package_ref r \<and> trim v = render_ref r) \<and>
   (parse_package_line v = Inr r \<longrightarrow> parse_package_ref v = Inr r)"
proof -
  have "trim (render_ref r) = render_ref r" if "wf_package_ref r"
  proof (rule trim_id)
    have "render_ref r \<noteq> []" "hd (render_ref r) \<in> set (pr_owner r)" "last (render_ref r) \<in> set (pr_path r)"
      using that by (auto simp: render_ref_codes wf_package_ref_def ref_defs)
    moreover have "\<not> is_whitespace c" if "c \<in> set (pr_owner r) \<union> set (pr_path r)" for c
      using \<open>wf_package_ref r\<close> that by (auto simp: wf_package_ref_def ref_defs list_all_iff is_whitespace_def)
    ultimately show "trimmed (render_ref r)" by (simp add: trimmed_def)
  qed
  then show ?thesis by (auto simp: parse_package_line_iff parse_package_ref_iff)
qed

theorem package_ref_grammars_agree_witness:
  "\<exists>r. parse_package_line (lit ''acme/pkgs@dev:p/a'') = Inr r \<and> parse_package_ref (lit ''acme/pkgs@dev:p/a'') = Inr r"
proof -
  let ?r = "\<lparr>pr_owner = lit ''acme'', pr_repo = lit ''pkgs'', pr_git_ref = lit ''dev'', pr_path = lit ''p/a''\<rparr>"
  have "wf_package_ref ?r"
    by (simp add: wf_package_ref_def ref_defs has_traversal_def split_def starts_with_def str_simps)
  moreover have "lit ''acme/pkgs@dev:p/a'' = render_ref ?r" by (simp add: render_ref_def str_simps)
  ultimately show ?thesis using package_ref_grammars_agree [of "lit ''acme/pkgs@dev:p/a''" ?r] by blast
qed

end
