(* ===== verification/EngineConfig.thy ===== *)
theory EngineConfig
  imports SectionParse
begin

text \<open>
  The \<open>### Engine Config\<close> section of a trigger issue (\<open>backend/src/goals/engine_config.rs\<close>), with
  \<open>normalize_llm_reasoning_effort\<close> of \<open>backend/src/config.rs\<close>: an allowlist of tunables with bounded values.
  A Rust panic is an error value of its own.
\<close>

definition MAX_CODEX_PERMIT_SLOTS :: nat where "MAX_CODEX_PERMIT_SLOTS = 32"
definition MAX_QUEUE_SHAPE :: nat where "MAX_QUEUE_SHAPE = 1024"
definition MAX_RETRY_ATTEMPTS :: nat where "MAX_RETRY_ATTEMPTS = 100"
definition MAX_DURATION_SECS :: nat where "MAX_DURATION_SECS = 604800"
definition RETRY_BASE_DEFAULT_SECS :: nat where "RETRY_BASE_DEFAULT_SECS = 60"
definition RETRY_CAP_DEFAULT_SECS :: nat where "RETRY_CAP_DEFAULT_SECS = 1800"
definition MAX_LLM_MODEL_LEN :: nat where "MAX_LLM_MODEL_LEN = 128"

definition KEY_PERMIT_SLOTS :: str where "KEY_PERMIT_SLOTS = lit ''FKST_CODEX_PERMIT_SLOTS''"
definition KEY_RETRY_BASE :: str where "KEY_RETRY_BASE = lit ''FKST_RETRY_DEFAULT_BASE''"
definition KEY_RETRY_CAP :: str where "KEY_RETRY_CAP = lit ''FKST_RETRY_DEFAULT_CAP''"
definition KEY_RETRY_MAX_ATTEMPTS :: str where "KEY_RETRY_MAX_ATTEMPTS = lit ''FKST_RETRY_DEFAULT_MAX_ATTEMPTS''"
definition RATE_POOL_PREFIX :: str where "RATE_POOL_PREFIX = lit ''FKST_RATE_POOL_''"
definition KEY_LLM_MODEL :: str where "KEY_LLM_MODEL = lit ''FKST_LLM_MODEL''"
definition KEY_LLM_REASONING_EFFORT :: str where "KEY_LLM_REASONING_EFFORT = lit ''FKST_LLM_REASONING_EFFORT''"

definition QUEUE_SHAPE_KEYS :: "str list" where
  "QUEUE_SHAPE_KEYS =
     [lit ''FKST_QUEUE_CAPACITY'', lit ''FKST_MAX_IN_FLIGHT_PER_DEPT'', lit ''FKST_DURABLE_ADMISSION_BURST_PER_DEPT'']"

definition DURATION_KEYS :: "str list" where
  "DURATION_KEYS =
     [KEY_RETRY_BASE, KEY_RETRY_CAP, lit ''FKST_DEPARTMENT_DEFAULT_STALL_WINDOW'',
      lit ''FKST_SUBSCRIBER_ABSENT_DELIVERY_BUDGET'']"

definition LLM_REASONING_EFFORTS :: "str list" where
  "LLM_REASONING_EFFORTS = [lit ''minimal'', lit ''low'', lit ''medium'', lit ''high'', lit ''max'']"

definition normalize_llm_reasoning_effort :: "str \<Rightarrow> str option" where
  "normalize_llm_reasoning_effort v =
     (let normalized = to_ascii_lowercase (trim v)
      in if normalized \<in> set LLM_REASONING_EFFORTS then Some normalized else None)"

datatype engine_config_error =
    EngineMalformedLine str | EngineDuplicateKey str | EngineUnsupportedKey str | EngineOutputLang
  | BadEffort str | EmptyModel | LongModel | ModelChars
  | NotInteger str | IntegerOutOfBounds str
  | NotDuration str | DurationTooLarge str | DurationOutOfBounds str
  | PoolName str | PoolRoot | PoolShape str | PoolPart str
  | CapBelowBase nat nat
  | SplitInsideChar str

section \<open>Values\<close>

definition validate_llm_model :: "str \<Rightarrow> engine_config_error + unit" where
  "validate_llm_model v =
     (if v = [] then Inl EmptyModel
      else if MAX_LLM_MODEL_LEN < byte_len v then Inl LongModel
      else if \<not> list_all (\<lambda>b. is_ascii_alphanumeric b \<or> b \<in> set (lit ''._/:-'')) v then Inl ModelChars
      else Inr ())"

definition validate_u64_in :: "str \<Rightarrow> nat \<Rightarrow> nat \<Rightarrow> engine_config_error + unit" where
  "validate_u64_in v lo hi =
     (case parse_uint 64 v of
        None \<Rightarrow> Inl (NotInteger v)
      | Some n \<Rightarrow> (if n < lo \<or> hi < n then Inl (IntegerOutOfBounds v) else Inr ()))"

text \<open>
  \<open>value.split_at(value.len() - 1)\<close> cuts before the last byte. When the last character takes several bytes, the cut
  is inside it and \<open>split_at\<close> panics.
\<close>

definition split_last_byte :: "str \<Rightarrow> engine_config_error + (str \<times> str)" where
  "split_last_byte v =
     (if v = [] then Inr ([], [])
      else if utf8_width (last v) \<noteq> 1 then Inl (SplitInsideChar v)
      else Inr (butlast v, [last v]))"

definition seconds_per_unit :: "str \<Rightarrow> nat option" where
  "seconds_per_unit u =
     (if u = lit ''s'' then Some 1 else if u = lit ''m'' then Some 60 else if u = lit ''h'' then Some 3600 else None)"

definition parse_duration_secs :: "str \<Rightarrow> engine_config_error + nat" where
  "parse_duration_secs v =
     and_then (split_last_byte v) (\<lambda>(digits, u).
     and_then (ok_or (NotDuration v) (seconds_per_unit u)) (\<lambda>per_unit.
       if digits = [] \<or> \<not> all_digits digits then Inl (NotDuration v)
       else case parse_uint 64 digits of
              None \<Rightarrow> Inl (DurationTooLarge v)
            | Some n \<Rightarrow>
                (if 2 ^ 64 \<le> n * per_unit then Inl (DurationTooLarge v)
                 else if n * per_unit = 0 \<or> MAX_DURATION_SECS < n * per_unit then Inl (DurationOutOfBounds v)
                 else Inr (n * per_unit))))"

definition validate_pool_part :: "str \<Rightarrow> engine_config_error + unit" where
  "validate_pool_part part =
     (case parse_uint 64 (trim part) of
        None \<Rightarrow> Inl (PoolPart part)
      | Some n \<Rightarrow> (if n = 0 then Inl (PoolPart part) else Inr ()))"

definition validate_rate_pool :: "str \<Rightarrow> str \<Rightarrow> engine_config_error + unit" where
  "validate_rate_pool name v =
     (if name = [] \<or> \<not> list_all (\<lambda>b. is_ascii_uppercase b \<or> is_ascii_digit b \<or> b = ch (CHR ''_'')) name
      then Inl (PoolName name)
      else if name = lit ''ROOT'' then Inl PoolRoot
      else and_then (ok_or (PoolShape v) (split_once (ch (CHR '','')) v)) (\<lambda>(burst, refill).
             and_then (validate_pool_part burst) (\<lambda>_. validate_pool_part refill)))"

section \<open>Entries\<close>

definition validate_entry :: "str \<Rightarrow> str \<Rightarrow> engine_config_error + unit" where
  "validate_entry key v =
     (if key = KEY_LLM_MODEL then validate_llm_model v
      else if key = KEY_LLM_REASONING_EFFORT then
        (case normalize_llm_reasoning_effort v of Some _ \<Rightarrow> Inr () | None \<Rightarrow> Inl (BadEffort v))
      else if key = KEY_PERMIT_SLOTS then validate_u64_in v 1 MAX_CODEX_PERMIT_SLOTS
      else if key \<in> set QUEUE_SHAPE_KEYS then validate_u64_in v 1 MAX_QUEUE_SHAPE
      else if key = KEY_RETRY_MAX_ATTEMPTS then validate_u64_in v 1 MAX_RETRY_ATTEMPTS
      else if key \<in> set DURATION_KEYS then and_then (parse_duration_secs v) (\<lambda>_. Inr ())
      else case strip_prefix RATE_POOL_PREFIX key of
             Some name \<Rightarrow> validate_rate_pool name v
           | None \<Rightarrow>
               (if key = lit ''FKST_OUTPUT_LANG'' then Inl EngineOutputLang else Inl (EngineUnsupportedKey key)))"

definition stored_value :: "str \<Rightarrow> str \<Rightarrow> str" where
  "stored_value key v =
     (if key = KEY_LLM_REASONING_EFFORT then the (normalize_llm_reasoning_effort v) else v)"

fun parse_engine_lines ::
  "str list \<Rightarrow> (str, str) btree_map \<Rightarrow> engine_config_error + (str, str) btree_map" where
  "parse_engine_lines [] config = Inr config"
| "parse_engine_lines (line # rest) config =
     and_then (ok_or (EngineMalformedLine line) (split_once (ch (CHR ''='')) line)) (\<lambda>(k, v).
       let key = trim k; val = trim v
       in and_then (validate_entry key val) (\<lambda>_.
            if bt_get config key \<noteq> None then Inl (EngineDuplicateKey key)
            else parse_engine_lines rest (bt_insert key (stored_value key val) config)))"

definition duration_or :: "(str, str) btree_map \<Rightarrow> str \<Rightarrow> nat \<Rightarrow> engine_config_error + nat" where
  "duration_or config key default_secs =
     (case bt_get config key of Some v \<Rightarrow> parse_duration_secs v | None \<Rightarrow> Inr default_secs)"

definition validate_retry_pair :: "(str, str) btree_map \<Rightarrow> engine_config_error + unit" where
  "validate_retry_pair config =
     and_then (duration_or config KEY_RETRY_BASE RETRY_BASE_DEFAULT_SECS) (\<lambda>base.
     and_then (duration_or config KEY_RETRY_CAP RETRY_CAP_DEFAULT_SECS) (\<lambda>cap.
       if cap < base then Inl (CapBelowBase cap base) else Inr ()))"

definition parse_engine_config :: "str \<Rightarrow> engine_config_error + (str, str) btree_map" where
  "parse_engine_config block =
     and_then (parse_engine_lines (non_empty_lines (strip_html_comments block)) []) (\<lambda>config.
     and_then (validate_retry_pair config) (\<lambda>_. Inr config))"

section \<open>What an accepted section guarantees\<close>

text \<open>The tunables a session may set, and the values they may have, as the engine reads them.\<close>

definition bounded_u64 :: "nat \<Rightarrow> str \<Rightarrow> bool" where
  "bounded_u64 hi v \<longleftrightarrow> (\<exists>n. parse_uint 64 v = Some n \<and> 1 \<le> n \<and> n \<le> hi)"

definition duration_value :: "str \<Rightarrow> nat \<Rightarrow> bool" where
  "duration_value v secs \<longleftrightarrow>
     (\<exists>digits u per_unit. v = digits @ u \<and> digits \<noteq> [] \<and> all_digits digits \<and> seconds_per_unit u = Some per_unit \<and>
        secs = dec_value digits * per_unit)"

definition pool_value :: "str \<Rightarrow> bool" where
  "pool_value v \<longleftrightarrow>
     (\<exists>a b m n. v = a @ ch (CHR '','') # b \<and> parse_uint 64 (trim a) = Some m \<and> parse_uint 64 (trim b) = Some n \<and>
        1 \<le> m \<and> 1 \<le> n)"

definition engine_entry_ok :: "str \<Rightarrow> str \<Rightarrow> bool" where
  "engine_entry_ok key v \<longleftrightarrow>
     (key = KEY_LLM_MODEL \<and> v \<noteq> [] \<and> byte_len v \<le> 128 \<and> list_all (\<lambda>b. is_ascii_alphanumeric b \<or> b \<in> set (lit ''._/:-'')) v) \<or>
     (key = KEY_LLM_REASONING_EFFORT \<and> v \<in> set LLM_REASONING_EFFORTS) \<or>
     (key = KEY_PERMIT_SLOTS \<and> bounded_u64 32 v) \<or>
     (key \<in> set QUEUE_SHAPE_KEYS \<and> bounded_u64 1024 v) \<or>
     (key = KEY_RETRY_MAX_ATTEMPTS \<and> bounded_u64 100 v) \<or>
     (key \<in> set DURATION_KEYS \<and> (\<exists>secs. duration_value v secs \<and> 1 \<le> secs \<and> secs \<le> 604800)) \<or>
     (\<exists>name. key = RATE_POOL_PREFIX @ name \<and> name \<noteq> [] \<and> name \<noteq> lit ''ROOT'' \<and> pool_value v)"

lemma parse_uint_digits:
  "all_digits d \<Longrightarrow> d \<noteq> [] \<Longrightarrow> parse_uint w d = Some n \<longleftrightarrow> n = dec_value d \<and> dec_value d < 2 ^ w"
  by (cases d) (auto simp: parse_uint_def Let_def all_digits_def is_ascii_digit_def)

lemma parse_duration_secs_Inr:
  assumes "parse_duration_secs v = Inr secs"
  shows "duration_value v secs" "1 \<le> secs" "secs \<le> MAX_DURATION_SECS"
proof -
  obtain digits u per_unit n where d: "split_last_byte v = Inr (digits, u)" "seconds_per_unit u = Some per_unit"
      "digits \<noteq> []" "all_digits digits" "parse_uint 64 digits = Some n" "secs = n * per_unit"
      "n * per_unit \<noteq> 0" "n * per_unit \<le> MAX_DURATION_SECS"
    using assms by (auto simp: parse_duration_secs_def res_simps split: if_splits option.splits)
  have "v = digits @ u" using d(1) by (auto simp: split_last_byte_def split: if_splits)
  moreover have "n = dec_value digits" using parse_uint_digits [OF d(4,3)] d(5) by simp
  ultimately show "duration_value v secs" using d by (auto simp: duration_value_def)
  show "1 \<le> secs" "secs \<le> MAX_DURATION_SECS" using d by simp_all
qed

lemma validate_u64_in_iff: "validate_u64_in v 1 hi = Inr () \<longleftrightarrow> bounded_u64 hi v"
  by (auto simp: validate_u64_in_def bounded_u64_def split: option.splits)

lemma validate_pool_part_Inr: "validate_pool_part part = Inr u \<Longrightarrow> \<exists>n \<ge> 1. parse_uint 64 (trim part) = Some n"
  by (auto simp: validate_pool_part_def split: option.splits if_splits)

lemma validate_rate_pool_Inr:
  assumes "validate_rate_pool name v = Inr u"
  shows "name \<noteq> [] \<and> name \<noteq> lit ''ROOT'' \<and> pool_value v"
proof -
  obtain a b x where ab: "split_once (ch (CHR '','')) v = Some (a, b)" "validate_pool_part a = Inr x"
      "validate_pool_part b = Inr u" and n: "name \<noteq> []" "name \<noteq> lit ''ROOT''"
    using assms by (auto simp: validate_rate_pool_def res_simps split: if_splits)
  have "v = a @ ch (CHR '','') # b" using ab(1) by (simp only: split_once_Some_iff)
  moreover obtain m where "1 \<le> m" "parse_uint 64 (trim a) = Some m" using validate_pool_part_Inr [OF ab(2)] by blast
  moreover obtain k where "1 \<le> k" "parse_uint 64 (trim b) = Some k" using validate_pool_part_Inr [OF ab(3)] by blast
  ultimately have "pool_value v" unfolding pool_value_def by blast
  then show ?thesis using n by blast
qed

lemma validate_entry_ok:
  assumes "validate_entry key v = Inr u"
  shows "engine_entry_ok key (stored_value key v)"
proof -
  consider (effort) "key = KEY_LLM_REASONING_EFFORT" "key \<noteq> KEY_LLM_MODEL"
    | (model) "key = KEY_LLM_MODEL" "key \<noteq> KEY_LLM_REASONING_EFFORT"
    | (other) "key \<noteq> KEY_LLM_REASONING_EFFORT" "key \<noteq> KEY_LLM_MODEL"
    by (auto simp: KEY_LLM_REASONING_EFFORT_def KEY_LLM_MODEL_def str_simps)
  then show ?thesis
  proof cases
    case effort
    then show ?thesis using assms
      by (auto simp: validate_entry_def stored_value_def engine_entry_ok_def normalize_llm_reasoning_effort_def Let_def
          split: option.splits if_splits)
  next
    case model
    then show ?thesis using assms
      by (auto simp: validate_entry_def stored_value_def engine_entry_ok_def validate_llm_model_def MAX_LLM_MODEL_LEN_def
          split: if_splits)
  next
    case other
    have v: "stored_value key v = v" using other(1) by (simp add: stored_value_def)
    consider "key = KEY_PERMIT_SLOTS" "validate_u64_in v 1 MAX_CODEX_PERMIT_SLOTS = Inr ()"
      | "key \<in> set QUEUE_SHAPE_KEYS" "validate_u64_in v 1 MAX_QUEUE_SHAPE = Inr ()"
      | "key = KEY_RETRY_MAX_ATTEMPTS" "validate_u64_in v 1 MAX_RETRY_ATTEMPTS = Inr ()"
      | secs where "key \<in> set DURATION_KEYS" "parse_duration_secs v = Inr secs"
      | name where "strip_prefix RATE_POOL_PREFIX key = Some name" "validate_rate_pool name v = Inr u"
      using assms other by (auto simp: validate_entry_def res_simps split: if_splits option.splits)
    then show ?thesis
    proof cases
      case (4 secs)
      then show ?thesis unfolding v engine_entry_ok_def
        using parse_duration_secs_Inr [OF 4(2)] by (auto simp: MAX_DURATION_SECS_def)
    next
      case (5 name)
      then show ?thesis unfolding v engine_entry_ok_def
        using validate_rate_pool_Inr [OF 5(2)] by (auto simp: strip_prefix_Some_iff)
    qed (unfold v validate_u64_in_iff MAX_CODEX_PERMIT_SLOTS_def MAX_QUEUE_SHAPE_def MAX_RETRY_ATTEMPTS_def
        engine_entry_ok_def, blast+)
  qed
qed

lemma parse_engine_lines_ok:
  "parse_engine_lines ls config = Inr out \<Longrightarrow> (\<And>k v. bt_get config k = Some v \<Longrightarrow> engine_entry_ok k v) \<Longrightarrow>
   bt_get out k = Some v \<Longrightarrow> engine_entry_ok k v"
proof (induction ls config arbitrary: out rule: parse_engine_lines.induct)
  case (1 config)
  then show ?case by simp
next
  case (2 line rest config)
  from 2(2) obtain kv where kv: "split_once (ch (CHR ''='')) line = Some kv"
    by (cases "split_once (ch (CHR ''='')) line") (auto simp del: split_once_None)
  obtain a b where ab: "kv = (a, b)" by (cases kv)
  obtain u where u: "validate_entry (trim a) (trim b) = Inr u"
      "parse_engine_lines rest (bt_insert (trim a) (stored_value (trim a) (trim b)) config) = Inr out"
    using 2(2) kv ab by (auto simp: Let_def res_simps split: if_splits)
  have n: "bt_get config (trim a) = None" using 2(2) kv ab u(1) by (auto simp: Let_def split: if_splits)
  have "engine_entry_ok k' v'" if "bt_get (bt_insert (trim a) (stored_value (trim a) (trim b)) config) k' = Some v'" for k' v'
    using that validate_entry_ok [OF u(1)] 2(3) by (auto split: if_splits)
  then show ?case
    using 2(1) [OF refl refl _ u(2)] n 2(4) by blast
qed

text \<open>The seconds a key stands for once the engine's defaults are filled in.\<close>

definition effective_secs :: "(str, str) btree_map \<Rightarrow> str \<Rightarrow> nat \<Rightarrow> nat \<Rightarrow> bool" where
  "effective_secs config key default_secs secs \<longleftrightarrow>
     (case bt_get config key of Some v \<Rightarrow> duration_value v secs | None \<Rightarrow> secs = default_secs)"

lemma duration_or_Inr: "duration_or config key default_secs = Inr secs \<Longrightarrow> effective_secs config key default_secs secs"
  using parse_duration_secs_Inr(1) by (auto simp: duration_or_def effective_secs_def split: option.splits)

lemma parse_engine_config_Inr:
  assumes "parse_engine_config block = Inr config"
  shows "bt_get config k = Some v \<Longrightarrow> engine_entry_ok k v"
    "\<exists>base cap. effective_secs config KEY_RETRY_BASE 60 base \<and> effective_secs config KEY_RETRY_CAP 1800 cap \<and> base \<le> cap"
proof -
  obtain u where c: "parse_engine_lines (non_empty_lines (strip_html_comments block)) [] = Inr config"
      "validate_retry_pair config = Inr u"
    using assms by (auto simp: parse_engine_config_def res_simps)
  show "bt_get config k = Some v \<Longrightarrow> engine_entry_ok k v" using parse_engine_lines_ok [OF c(1)] by simp
  obtain base cap where "duration_or config KEY_RETRY_BASE RETRY_BASE_DEFAULT_SECS = Inr base"
      "duration_or config KEY_RETRY_CAP RETRY_CAP_DEFAULT_SECS = Inr cap" "base \<le> cap"
    using c(2) by (auto simp: validate_retry_pair_def res_simps not_less split: if_splits)
  then show "\<exists>base cap. effective_secs config KEY_RETRY_BASE 60 base \<and> effective_secs config KEY_RETRY_CAP 1800 cap \<and> base \<le> cap"
    unfolding RETRY_BASE_DEFAULT_SECS_def RETRY_CAP_DEFAULT_SECS_def using duration_or_Inr by blast
qed

text \<open>
  An accepted \<open>### Engine Config\<close> section sets only allowlisted tunables, each to a value within its bounds, and
  leaves the effective retry cap at or above the effective retry base.
\<close>

theorem engine_config_bounded:
  assumes "parse_engine_config block = Inr config"
  shows "(\<forall>k v. bt_get config k = Some v \<longrightarrow> engine_entry_ok k v) \<and>
    (\<exists>base cap. effective_secs config KEY_RETRY_BASE 60 base \<and> effective_secs config KEY_RETRY_CAP 1800 cap \<and> base \<le> cap)"
  using parse_engine_config_Inr [OF assms] by blast

definition sample_engine_block :: str where
  "sample_engine_block = lit ''FKST_RETRY_DEFAULT_BASE=30m''"

lemma sample_engine_config: "parse_engine_config sample_engine_block = Inr [(KEY_RETRY_BASE, lit ''30m'')]"
proof -
  have "60 \<notin> set sample_engine_block" by (simp add: sample_engine_block_def str_simps)
  then have "\<not> sublist (lit ''<!--'') sample_engine_block" using set_mono_sublist by (fastforce simp: str_simps)
  then have s: "strip_html_comments sample_engine_block = sample_engine_block" by (rule strip_no_comment)
  have "trim sample_engine_block = sample_engine_block" "trim KEY_RETRY_BASE = KEY_RETRY_BASE" "trim (lit ''30m'') = lit ''30m''"
    by (rule trim_id, simp add: trimmed_def is_whitespace_def sample_engine_block_def KEY_RETRY_BASE_def str_simps)+
  note t = this
  have n: "non_empty_lines sample_engine_block = [sample_engine_block]"
    unfolding non_empty_lines_def using lines_single [of sample_engine_block] t(1)
    by (simp add: sample_engine_block_def str_simps)
  have sp: "split_once (ch (CHR ''='')) sample_engine_block = Some (KEY_RETRY_BASE, lit ''30m'')"
    by (simp add: split_once_Some_iff sample_engine_block_def KEY_RETRY_BASE_def str_simps)
  have k: "KEY_RETRY_BASE \<noteq> KEY_LLM_MODEL" "KEY_RETRY_BASE \<noteq> KEY_LLM_REASONING_EFFORT" "KEY_RETRY_BASE \<noteq> KEY_PERMIT_SLOTS"
      "KEY_RETRY_BASE \<notin> set QUEUE_SHAPE_KEYS" "KEY_RETRY_BASE \<noteq> KEY_RETRY_MAX_ATTEMPTS" "KEY_RETRY_BASE \<in> set DURATION_KEYS"
      "KEY_RETRY_CAP \<noteq> KEY_RETRY_BASE"
    by (simp_all add: KEY_RETRY_BASE_def KEY_LLM_MODEL_def KEY_LLM_REASONING_EFFORT_def KEY_PERMIT_SLOTS_def
        QUEUE_SHAPE_KEYS_def KEY_RETRY_MAX_ATTEMPTS_def DURATION_KEYS_def KEY_RETRY_CAP_def str_simps)
  have "parse_uint 64 (lit ''30'') = Some 30"
    by (simp add: parse_uint_def Let_def all_digits_def is_ascii_digit_def dec_value_def str_simps)
  then have d: "parse_duration_secs (lit ''30m'') = Inr 1800"
    by (simp add: parse_duration_secs_def split_last_byte_def utf8_width_def seconds_per_unit_def MAX_DURATION_SECS_def
        all_digits_def is_ascii_digit_def str_simps)
  show ?thesis
    using k by (simp add: parse_engine_config_def s n sp [simplified] t validate_entry_def stored_value_def d
        validate_retry_pair_def duration_or_def RETRY_CAP_DEFAULT_SECS_def bt_get_def)
qed

theorem engine_config_bounded_witness:
  "parse_engine_config sample_engine_block = Inr [(KEY_RETRY_BASE, lit ''30m'')] \<and> engine_entry_ok KEY_RETRY_BASE (lit ''30m'')"
  using engine_config_bounded [OF sample_engine_config] sample_engine_config by (simp add: bt_get_def)

text \<open>
  A duration that ends in a character of several bytes, such as \<open>5\<close> followed by \<open>U+00E9\<close>, is not rejected with a
  message: cutting it before its last byte panics.
\<close>

theorem duration_split_can_panic:
  "utf8_width c \<noteq> 1 \<Longrightarrow> parse_duration_secs (v @ [c]) = Inl (SplitInsideChar (v @ [c])) \<and>
   validate_entry KEY_RETRY_BASE (v @ [c]) = Inl (SplitInsideChar (v @ [c]))"
proof -
  assume "utf8_width c \<noteq> 1"
  then have d: "parse_duration_secs (v @ [c]) = Inl (SplitInsideChar (v @ [c]))"
    by (simp add: parse_duration_secs_def split_last_byte_def)
  moreover have "KEY_RETRY_BASE \<noteq> KEY_LLM_MODEL" "KEY_RETRY_BASE \<noteq> KEY_LLM_REASONING_EFFORT"
      "KEY_RETRY_BASE \<noteq> KEY_PERMIT_SLOTS" "KEY_RETRY_BASE \<notin> set QUEUE_SHAPE_KEYS"
      "KEY_RETRY_BASE \<noteq> KEY_RETRY_MAX_ATTEMPTS" "KEY_RETRY_BASE \<in> set DURATION_KEYS"
    by (simp_all add: KEY_RETRY_BASE_def KEY_LLM_MODEL_def KEY_LLM_REASONING_EFFORT_def KEY_PERMIT_SLOTS_def
        QUEUE_SHAPE_KEYS_def KEY_RETRY_MAX_ATTEMPTS_def DURATION_KEYS_def str_simps)
  ultimately show ?thesis by (simp add: validate_entry_def)
qed

theorem duration_split_can_panic_witness:
  "validate_entry KEY_RETRY_BASE [53, 233] = Inl (SplitInsideChar [53, 233])"
  using duration_split_can_panic [of 233 "[53]"] by (simp add: utf8_width_def)

end
