(* ===== verification/PackageEnv.thy ===== *)
theory PackageEnv
  imports SectionParse Registration
begin

text \<open>
  The \<open>### Package Env\<close> section of a trigger issue (\<open>backend/src/goals/package_env.rs\<close>): settings grouped
  under package names, which a session later receives as one flat environment.
\<close>

definition PLATFORM_OWNED_SESSION_ENV :: "str list" where
  "PLATFORM_OWNED_SESSION_ENV =
     [lit ''FKST_GITHUB_AUTHORIZED_LOGINS'', lit ''FKST_GITHUB_BOT_LOGIN'', lit ''FKST_GITHUB_CLAIM_MODE'',
      lit ''FKST_GITHUB_PROXY_POLL_LABEL_PREFIX'', lit ''FKST_GITHUB_REPO'', lit ''FKST_GITHUB_WRITE'',
      lit ''FKST_SESSION_CREATOR'', lit ''FKST_SESSION_CREDS_DIR'', lit ''FKST_SESSION_DELIVERY_GRANTS'',
      lit ''FKST_SESSION_ID'', lit ''FKST_SESSION_PACKAGE_ENV_JSON'', lit ''FKST_SESSION_PACKAGE_ROOTS'',
      lit ''FKST_SESSION_WORK_LABEL'', lit ''FKST_SESSION_WORK_LABEL_MAP_JSON'', lit ''FKST_TRIGGER_ISSUE'',
      lit ''FKST_WORK_LABEL_NAMESPACE'']"

definition MAX_BLOCKS :: nat where "MAX_BLOCKS = 16"
definition MAX_KEYS_PER_BLOCK :: nat where "MAX_KEYS_PER_BLOCK = 32"
definition MAX_ENTRIES_TOTAL :: nat where "MAX_ENTRIES_TOTAL = 64"
definition MAX_SERIALIZED_BYTES :: nat where "MAX_SERIALIZED_BYTES = 16 * 1024"
definition MAX_KEY_BYTES :: nat where "MAX_KEY_BYTES = 64"
definition MAX_VALUE_BYTES :: nat where "MAX_VALUE_BYTES = 1024"
definition MAX_PACKAGE_NAME_BYTES :: nat where "MAX_PACKAGE_NAME_BYTES = 64"

definition BLOCK_PREFIX :: str where "BLOCK_PREFIX = lit ''#### ''"

datatype package_env_error =
    InvalidBlock str | DuplicateBlock str | TooManyBlocks | SettingBeforeBlock str | SettingMalformed str
  | InvalidSettingKey str | PlatformOwned str | SettingTooLong str nat | SettingControl str | KeyInTwoBlocks str str str
  | TooManyKeys str | SettingTwice str str | TooManyEntries | EnvTooLarge nat

definition is_valid_package_name :: "str \<Rightarrow> bool" where
  "is_valid_package_name name \<longleftrightarrow>
     name \<noteq> [] \<and> byte_len name \<le> MAX_PACKAGE_NAME_BYTES \<and>
     list_all (\<lambda>c. is_ascii_alphanumeric c \<or> c = ch (CHR ''_'') \<or> c = ch (CHR ''.'') \<or> c = ch (CHR ''-'')) name"

definition is_valid_key :: "str \<Rightarrow> bool" where
  "is_valid_key key =
     (if MAX_KEY_BYTES < byte_len key then False
      else case strip_prefix (lit ''FKST_'') key of
             None \<Rightarrow> False
           | Some rest \<Rightarrow>
               (if rest = [] then False
                else list_all (\<lambda>part. part \<noteq> [] \<and> list_all (\<lambda>c. is_ascii_uppercase c \<or> is_ascii_digit c) part)
                       (split (ch (CHR ''_'')) rest)))"

text \<open>One setting under the block of \<open>package\<close>: the new environment and the new owner map.\<close>

definition add_setting ::
  "str \<Rightarrow> str \<Rightarrow> package_env \<Rightarrow> (str \<rightharpoonup> str) \<Rightarrow> package_env_error + (package_env \<times> (str \<rightharpoonup> str))" where
  "add_setting package line env key_owner =
     and_then (ok_or (SettingMalformed line) (split_once (ch (CHR ''='')) line)) (\<lambda>(k, v).
       let key = trim k; val = trim v
       in if \<not> is_valid_key key then Inl (InvalidSettingKey key)
          else if key \<in> set PLATFORM_OWNED_SESSION_ENV then Inl (PlatformOwned key)
          else if MAX_VALUE_BYTES < byte_len val then Inl (SettingTooLong key (byte_len val))
          else if list_ex is_control val then Inl (SettingControl key)
          else if key_owner key \<noteq> None \<and> key_owner key \<noteq> Some package
            then Inl (KeyInTwoBlocks key (the (key_owner key)) package)
          else
            let block = (case bt_get env package of Some b \<Rightarrow> b | None \<Rightarrow> [])
            in if length block = MAX_KEYS_PER_BLOCK \<and> bt_get block key = None then Inl (TooManyKeys package)
               else if bt_get block key \<noteq> None then Inl (SettingTwice package key)
               else Inr (bt_insert package (bt_insert key val block) env, key_owner(key \<mapsto> package)))"

text \<open>The loop: the environment so far, the owner of each key, the current block, the number of entries.\<close>

fun package_env_lines ::
  "str list \<Rightarrow> package_env \<Rightarrow> (str \<rightharpoonup> str) \<Rightarrow> str option \<Rightarrow> nat \<Rightarrow> package_env_error + package_env" where
  "package_env_lines [] env key_owner current total_entries = Inr env"
| "package_env_lines (line # rest) env key_owner current total_entries =
     (case strip_prefix BLOCK_PREFIX line of
        Some n \<Rightarrow>
          (let name = trim n
           in if \<not> is_valid_package_name name then Inl (InvalidBlock name)
              else if bt_get env name \<noteq> None then Inl (DuplicateBlock name)
              else if length env = MAX_BLOCKS then Inl TooManyBlocks
              else package_env_lines rest (bt_insert name [] env) key_owner (Some name) total_entries)
      | None \<Rightarrow>
          (case current of
             None \<Rightarrow> Inl (SettingBeforeBlock line)
           | Some package \<Rightarrow>
               and_then (add_setting package line env key_owner) (\<lambda>(env', key_owner').
                 if MAX_ENTRIES_TOTAL < total_entries + 1 then Inl TooManyEntries
                 else package_env_lines rest env' key_owner' current (total_entries + 1))))"

definition serialized_bytes :: "package_env \<Rightarrow> nat" where
  "serialized_bytes env =
     sum_list (map (\<lambda>(pkg, keys). byte_len pkg + sum_list (map (\<lambda>(k, v). byte_len k + byte_len v + 2) keys)) env)"

definition parse_package_env :: "str \<Rightarrow> package_env_error + package_env" where
  "parse_package_env block =
     and_then (package_env_lines (non_empty_lines (strip_html_comments block)) [] Map.empty None 0) (\<lambda>all.
       let env = filter (\<lambda>(_, keys). keys \<noteq> []) all
       in if MAX_SERIALIZED_BYTES < serialized_bytes env then Inl (EnvTooLarge (serialized_bytes env)) else Inr env)"

section \<open>The loop invariant\<close>

definition setting_ok :: "str \<Rightarrow> str \<Rightarrow> bool" where
  "setting_ok k v \<longleftrightarrow>
     is_valid_key k \<and> k \<notin> set PLATFORM_OWNED_SESSION_ENV \<and> byte_len v \<le> MAX_VALUE_BYTES \<and> \<not> list_ex is_control v"

definition block_ok :: "str \<times> (str, str) btree_map \<Rightarrow> bool" where
  "block_ok b \<longleftrightarrow>
     is_valid_package_name (fst b) \<and> bt_sorted (snd b) \<and> length (snd b) \<le> MAX_KEYS_PER_BLOCK \<and>
     (\<forall>(k, v) \<in> set (snd b). setting_ok k v)"

definition entry_total :: "package_env \<Rightarrow> nat" where
  "entry_total env = sum_list (map (length \<circ> snd) env)"

text \<open>Each key belongs to one block: the flat environment is a function.\<close>

definition keys_disjoint :: "package_env \<Rightarrow> bool" where
  "keys_disjoint env \<longleftrightarrow>
     (\<forall>p q b c k. bt_get env p = Some b \<and> bt_get env q = Some c \<and> bt_get b k \<noteq> None \<and> bt_get c k \<noteq> None \<longrightarrow> p = q)"

definition owners_ok :: "package_env \<Rightarrow> (str \<rightharpoonup> str) \<Rightarrow> bool" where
  "owners_ok env key_owner \<longleftrightarrow> (\<forall>p b k. bt_get env p = Some b \<and> bt_get b k \<noteq> None \<longrightarrow> key_owner k = Some p)"

definition env_inv :: "package_env \<Rightarrow> (str \<rightharpoonup> str) \<Rightarrow> str option \<Rightarrow> nat \<Rightarrow> bool" where
  "env_inv env key_owner current total_entries \<longleftrightarrow>
     bt_sorted env \<and> (\<forall>b \<in> set env. block_ok b) \<and> length env \<le> MAX_BLOCKS \<and> owners_ok env key_owner \<and>
     entry_total env = total_entries \<and> total_entries \<le> MAX_ENTRIES_TOTAL \<and> (\<forall>p. current = Some p \<longrightarrow> bt_get env p \<noteq> None)"

lemma entry_total_insert:
  "bt_sorted env \<Longrightarrow>
   entry_total (bt_insert p b env) + (case bt_get env p of Some old \<Rightarrow> length old | None \<Rightarrow> 0) = entry_total env + length b"
  by (induction p b env rule: bt_insert.induct)
     (auto simp: bt_sorted_def bt_get_def entry_total_def map_of_below split: option.splits)

lemma block_of: "env_inv env ow cur total_entries \<Longrightarrow> bt_get env p = Some b \<Longrightarrow> block_ok (p, b)"
  by (auto simp: env_inv_def dest: bt_get_in)

lemma env_inv_new_block:
  assumes "env_inv env ow cur total_entries" "is_valid_package_name name" "bt_get env name = None" "length env \<noteq> MAX_BLOCKS"
  shows "env_inv (bt_insert name [] env) ow (Some name) total_entries"
proof -
  have "block_ok (name, [])" using assms(2) by (simp add: block_ok_def bt_sorted_def)
  then have "\<forall>b \<in> set (bt_insert name [] env). block_ok b"
    using assms(1) set_bt_insert [of name "[]" env] by (auto simp: env_inv_def)
  moreover have "owners_ok (bt_insert name [] env) ow"
    using assms(1) by (auto simp: env_inv_def owners_ok_def split: if_splits)
  moreover have "length (bt_insert name [] env) \<le> MAX_BLOCKS" "bt_sorted (bt_insert name [] env)"
      "entry_total (bt_insert name [] env) = total_entries"
    using assms length_bt_insert [of env name "[]"] entry_total_insert [of env name "[]"] bt_sorted_insert [of env]
    by (auto simp: env_inv_def)
  ultimately show ?thesis using assms(1) by (simp add: env_inv_def)
qed

lemma add_setting_Inr:
  assumes "add_setting package line env ow = Inr (env', ow')" "bt_get env package = Some block"
  obtains key val where "setting_ok key val" "ow key = None \<or> ow key = Some package"
    "length block \<noteq> MAX_KEYS_PER_BLOCK" "bt_get block key = None"
    "env' = bt_insert package (bt_insert key val block) env" "ow' = ow(key \<mapsto> package)"
  using assms
  by (auto simp: add_setting_def res_simps setting_ok_def not_less Let_def split: if_splits prod.splits)

lemma env_inv_setting:
  assumes "env_inv env ow (Some package) total_entries" "add_setting package line env ow = Inr (env', ow')"
    "\<not> MAX_ENTRIES_TOTAL < total_entries + 1"
  shows "env_inv env' ow' (Some package) (total_entries + 1)"
proof -
  obtain block where b: "bt_get env package = Some block" using assms(1) by (auto simp: env_inv_def)
  obtain key val where kv: "setting_ok key val" "ow key = None \<or> ow key = Some package" "length block \<noteq> MAX_KEYS_PER_BLOCK"
      "bt_get block key = None" "env' = bt_insert package (bt_insert key val block) env" "ow' = ow(key \<mapsto> package)"
    using add_setting_Inr [OF assms(2) b] .
  let ?block = "bt_insert key val block"
  have bo: "block_ok (package, block)" by (rule block_of [OF assms(1) b])
  then have len: "length ?block = Suc (length block)" using length_bt_insert [of block key val] kv(4) by (simp add: block_ok_def)
  have "block_ok (package, ?block)"
    using bo kv(1,3) len bt_sorted_insert [of block] set_bt_insert [of key val block] by (auto simp: block_ok_def)
  then have "\<forall>b \<in> set env'. block_ok b"
    using assms(1) set_bt_insert [of package ?block env] kv(5) by (auto simp: env_inv_def)
  moreover have "owners_ok env' ow'"
    using assms(1) b kv(2) by (auto simp: env_inv_def owners_ok_def kv(5,6) split: if_splits) force+
  moreover have "length env' \<le> MAX_BLOCKS" "bt_sorted env'" "entry_total env' = total_entries + 1"
    using assms(1) b len length_bt_insert [of env package ?block] entry_total_insert [of env package ?block]
      bt_sorted_insert [of env] by (auto simp: env_inv_def kv(5))
  ultimately show ?thesis using assms(3) by (simp add: env_inv_def kv(5))
qed

lemma package_env_lines_inv:
  "package_env_lines ls env ow cur total_entries = Inr out \<Longrightarrow> env_inv env ow cur total_entries \<Longrightarrow>
   \<exists>ow' cur' total_entries'. env_inv out ow' cur' total_entries'"
proof (induction ls arbitrary: env ow cur total_entries)
  case Nil
  then show ?case by auto
next
  case (Cons line rest)
  show ?case
  proof (cases "strip_prefix BLOCK_PREFIX line")
    case (Some n)
    with Cons.prems(1) have ok: "is_valid_package_name (trim n)" "bt_get env (trim n) = None" "length env \<noteq> MAX_BLOCKS"
        "package_env_lines rest (bt_insert (trim n) [] env) ow (Some (trim n)) total_entries = Inr out"
      by (auto simp: Let_def split: if_splits)
    show ?thesis using Cons.IH [OF ok(4) env_inv_new_block [OF Cons.prems(2) ok(1-3)]] .
  next
    case None
    with Cons.prems(1) obtain package where p: "cur = Some package" by (auto split: option.splits)
    with None Cons.prems(1) obtain env' ow' where s: "add_setting package line env ow = Inr (env', ow')"
        "\<not> MAX_ENTRIES_TOTAL < total_entries + 1" "package_env_lines rest env' ow' cur (total_entries + 1) = Inr out"
      by (auto simp: res_simps split: if_splits)
    show ?thesis using Cons.IH [OF s(3)] env_inv_setting [OF _ s(1,2)] Cons.prems(2) p by blast
  qed
qed


section \<open>What an accepted section guarantees\<close>

lemma owners_disjoint: "owners_ok env ow \<Longrightarrow> keys_disjoint env"
  unfolding owners_ok_def keys_disjoint_def by (metis option.inject)

text \<open>Dropping the empty blocks keeps every lookup that yields a setting.\<close>

lemma bt_get_nonempty:
  "bt_sorted env \<Longrightarrow> bt_get (filter (\<lambda>(_, keys). keys \<noteq> []) env) p = Some b \<longleftrightarrow> bt_get env p = Some b \<and> b \<noteq> []"
proof (induction env)
  case Nil
  then show ?case by simp
next
  case (Cons x xs)
  obtain q c where x: "x = (q, c)" by (cases x)
  have "q \<notin> fst ` set xs" using Cons.prems x by (auto simp: bt_sorted_def)
  then have "map_of xs q = None" "map_of (filter (\<lambda>(_, keys). keys \<noteq> []) xs) q = None"
    by (auto simp: map_of_eq_None_iff)
  then show ?case using Cons x by (auto simp: bt_get_def bt_sorted_def)
qed

lemma entry_total_filter: "entry_total (filter P env) \<le> entry_total env"
  by (induction env) (auto simp: entry_total_def)

lemma parse_package_env_ok:
  assumes "parse_package_env block = Inr env"
  shows "(\<forall>b \<in> set env. block_ok b \<and> snd b \<noteq> []) \<and> keys_disjoint env \<and> length env \<le> MAX_BLOCKS \<and>
    entry_total env \<le> MAX_ENTRIES_TOTAL \<and> serialized_bytes env \<le> MAX_SERIALIZED_BYTES"
proof -
  obtain raw where raw: "package_env_lines (non_empty_lines (strip_html_comments block)) [] Map.empty None 0 = Inr raw"
      and env: "env = filter (\<lambda>(_, keys). keys \<noteq> []) raw" "serialized_bytes env \<le> MAX_SERIALIZED_BYTES"
    using assms by (auto simp: parse_package_env_def res_simps Let_def not_less split: if_splits)
  have "env_inv [] Map.empty None 0" by (simp add: env_inv_def bt_sorted_def owners_ok_def entry_total_def)
  then obtain ow cur tot where inv: "env_inv raw ow cur tot" using package_env_lines_inv [OF raw] by blast
  then have "keys_disjoint raw" by (auto simp: env_inv_def intro: owners_disjoint)
  then have "keys_disjoint env"
    using bt_get_nonempty [of raw] inv unfolding env(1) keys_disjoint_def env_inv_def by blast
  moreover have "length env \<le> MAX_BLOCKS" using inv length_filter_le order_trans unfolding env(1) env_inv_def by blast
  moreover have "entry_total env \<le> MAX_ENTRIES_TOTAL"
    using inv entry_total_filter [of _ raw] order_trans unfolding env(1) env_inv_def by blast
  moreover have "\<forall>b \<in> set env. block_ok b \<and> snd b \<noteq> []" using inv by (auto simp: env(1) env_inv_def)
  ultimately show ?thesis using env(2) by blast
qed

text \<open>
  An accepted \<open>### Package Env\<close> section stays within every documented limit, sets no variable of the platform,
  and configures each key under one package only, so its settings form one flat environment.
\<close>

theorem package_env_limits:
  assumes "parse_package_env block = Inr env"
  shows "(\<forall>b \<in> set env. block_ok b \<and> snd b \<noteq> []) \<and> keys_disjoint env \<and> length env \<le> MAX_BLOCKS \<and>
    entry_total env \<le> MAX_ENTRIES_TOTAL \<and> serialized_bytes env \<le> MAX_SERIALIZED_BYTES"
  by (rule parse_package_env_ok [OF assms])

definition sample_env_block :: str where
  "sample_env_block = lit ''#### devloop'' @ [10] @ lit ''FKST_RED_WINDOW=45''"

lemma sample_package_env:
  "parse_package_env sample_env_block = Inr [(lit ''devloop'', [(lit ''FKST_RED_WINDOW'', lit ''45'')])]"
proof -
  have "60 \<notin> set sample_env_block" by (simp add: sample_env_block_def str_simps)
  then have "\<not> sublist (lit ''<!--'') sample_env_block" using set_mono_sublist by (fastforce simp: str_simps)
  then have s: "strip_html_comments sample_env_block = sample_env_block" by (rule strip_no_comment)
  have t: "trim (lit ''#### devloop'') = lit ''#### devloop''" "trim (lit ''FKST_RED_WINDOW=45'') = lit ''FKST_RED_WINDOW=45''"
      "trim (lit ''devloop'') = lit ''devloop''" "trim (lit ''FKST_RED_WINDOW'') = lit ''FKST_RED_WINDOW''"
      "trim (lit ''45'') = lit ''45''"
    by (rule trim_id, simp add: trimmed_def is_whitespace_def str_simps)+
  have "lines sample_env_block = [lit ''#### devloop'', lit ''FKST_RED_WINDOW=45'']"
    unfolding sample_env_block_def
    using lines_append [of "lit ''#### devloop''" "lit ''FKST_RED_WINDOW=45''"] lines_single [of "lit ''FKST_RED_WINDOW=45''"]
      chomp_cr_id [of "lit ''#### devloop''"] by (simp add: str_simps)
  then have n: "non_empty_lines sample_env_block = [lit ''#### devloop'', lit ''FKST_RED_WINDOW=45'']"
    by (simp add: non_empty_lines_def t) (simp add: str_simps)
  have p: "strip_prefix BLOCK_PREFIX (lit ''#### devloop'') = Some (lit ''devloop'')"
      "strip_prefix BLOCK_PREFIX (lit ''FKST_RED_WINDOW=45'') = None"
      "split_once (ch (CHR ''='')) (lit ''FKST_RED_WINDOW=45'') = Some (lit ''FKST_RED_WINDOW'', lit ''45'')"
    by (simp_all add: BLOCK_PREFIX_def split_once_Some_iff str_simps)
  have v: "is_valid_package_name (lit ''devloop'')" "is_valid_key (lit ''FKST_RED_WINDOW'')"
      "lit ''FKST_RED_WINDOW'' \<notin> set PLATFORM_OWNED_SESSION_ENV" "byte_len (lit ''45'') \<le> MAX_VALUE_BYTES"
      "\<not> list_ex is_control (lit ''45'')"
    by (simp_all add: is_valid_package_name_def is_valid_key_def PLATFORM_OWNED_SESSION_ENV_def byte_len_def utf8_width_def
        MAX_PACKAGE_NAME_BYTES_def MAX_KEY_BYTES_def MAX_VALUE_BYTES_def split_def char_class_defs is_control_def str_simps)
  have a: "add_setting (lit ''devloop'') (lit ''FKST_RED_WINDOW=45'') [(lit ''devloop'', [])] Map.empty =
      Inr ([(lit ''devloop'', [(lit ''FKST_RED_WINDOW'', lit ''45'')])], [lit ''FKST_RED_WINDOW'' \<mapsto> lit ''devloop''])"
    using v by (simp add: add_setting_def p [simplified] t bt_get_def MAX_KEYS_PER_BLOCK_def Let_def)
  show ?thesis
    using v by (simp add: parse_package_env_def s n p t a MAX_BLOCKS_def MAX_ENTRIES_TOTAL_def MAX_SERIALIZED_BYTES_def)
      (simp add: serialized_bytes_def byte_len_def utf8_width_def str_simps)
qed

theorem package_env_limits_witness:
  "\<exists>env. parse_package_env sample_env_block = Inr env \<and> env \<noteq> [] \<and> keys_disjoint env \<and> entry_total env \<le> MAX_ENTRIES_TOTAL"
  using package_env_limits [OF sample_package_env] sample_package_env by blast

end
