(* ===== verification/TriggerParse.thy ===== *)
theory TriggerParse
  imports PackageRef EngineConfig PackageEnv Labels
begin

text \<open>
  Trigger issues: the parser of their body (\<open>backend/src/goals/trigger_parse.rs\<close>), the branch names it accepts
  (\<open>backend/src/reconcile/branches.rs\<close>), the registration of a session from a trigger issue
  (\<open>backend/src/reconcile/registry.rs\<close>) and the name of a session (\<open>derive_session_id\<close> of
  \<open>backend/src/session_spec/spec.rs\<close>).

  The digest behind a configuration hash and the name-based UUID are parameters.
\<close>

section \<open>Branch names\<close>

datatype branch_rule =
    BranchEmpty | BranchTooLong | BranchIsAt | BranchStart | BranchEnd | BranchLock | BranchDots | BranchSlashes
  | BranchAtBrace | BranchChars

definition validate_branch_name :: "str \<Rightarrow> branch_rule + unit" where
  "validate_branch_name name =
     (if name = [] then Inl BranchEmpty
      else if 200 < byte_len name then Inl BranchTooLong
      else if name = lit ''@'' then Inl BranchIsAt
      else if starts_with (lit ''-'') name \<or> starts_with (lit ''/'') name \<or> starts_with (lit ''.'') name then Inl BranchStart
      else if ends_with (lit ''/'') name \<or> ends_with (lit ''.'') name then Inl BranchEnd
      else if ends_with (lit ''.lock'') name then Inl BranchLock
      else if contains_str (lit ''..'') name then Inl BranchDots
      else if contains_str (lit ''//'') name then Inl BranchSlashes
      else if contains_str (lit [CHR ''@'', CHR ''{'']) name then Inl BranchAtBrace
      else if \<not> list_all (\<lambda>c. is_ascii_alphanumeric c \<or> c \<in> set (lit ''._/-'')) name then Inl BranchChars
      else Inr ())"

section \<open>Data\<close>

definition HEADING_SESSION_NAME :: str where "HEADING_SESSION_NAME = lit ''### Session Name''"
definition HEADING_PACKAGES :: str where "HEADING_PACKAGES = lit ''### Packages''"
definition HEADING_MANIFEST :: str where "HEADING_MANIFEST = lit ''### Manifest''"
definition HEADING_WORK_LABEL :: str where "HEADING_WORK_LABEL = lit ''### Work Label''"
definition HEADING_ENVIRONMENT :: str where "HEADING_ENVIRONMENT = lit ''### Environment''"
definition HEADING_AUTO_MERGE :: str where "HEADING_AUTO_MERGE = lit ''### Auto-merge''"
definition HEADING_LOG_ACCESS :: str where "HEADING_LOG_ACCESS = lit ''### Log Access Allowlist''"
definition HEADING_FKST_CONTRIBUTORS :: str where "HEADING_FKST_CONTRIBUTORS = lit ''### FKST Contributors''"
definition HEADING_SESSION_COLLABORATORS :: str where "HEADING_SESSION_COLLABORATORS = lit ''### Session Collaborators''"
definition HEADING_OUTPUT_LANGUAGE :: str where "HEADING_OUTPUT_LANGUAGE = lit ''### Output Language''"
definition HEADING_ENGINE_CONFIG :: str where "HEADING_ENGINE_CONFIG = lit ''### Engine Config''"
definition HEADING_SOURCE_BRANCH :: str where "HEADING_SOURCE_BRANCH = lit ''### Source Branch''"
definition HEADING_TARGET_BRANCH :: str where "HEADING_TARGET_BRANCH = lit ''### Target Branch''"
definition HEADING_PACKAGE_ENV :: str where "HEADING_PACKAGE_ENV = lit ''### Package Env''"

lemmas trigger_heading_defs =
  HEADING_SESSION_NAME_def HEADING_PACKAGES_def HEADING_MANIFEST_def HEADING_WORK_LABEL_def HEADING_ENVIRONMENT_def
  HEADING_AUTO_MERGE_def HEADING_LOG_ACCESS_def HEADING_FKST_CONTRIBUTORS_def HEADING_SESSION_COLLABORATORS_def
  HEADING_OUTPUT_LANGUAGE_def HEADING_ENGINE_CONFIG_def HEADING_SOURCE_BRANCH_def HEADING_TARGET_BRANCH_def
  HEADING_PACKAGE_ENV_def

definition MAX_WORK_LABEL_LEN :: nat where "MAX_WORK_LABEL_LEN = 50"

definition DISPOSABLE_ENVIRONMENT_MARKER :: str where
  "DISPOSABLE_ENVIRONMENT_MARKER =
     lit ''Disposable one-time environment. Details are injected privately into the session sandbox and are not stored in this GitHub issue.''"

datatype trigger_error =
    TrSection section_error
  | NoSessionName | SessionNameLines | BadSessionName str
  | TrPackage str ref_error
  | NoPackageSource
  | WorkLabelLines | WorkLabelLong str | WorkLabelComma str | WorkLabelReserved str
  | OutputLangLines | BadOutputLang str
  | TrEngine engine_config_error
  | BranchLines str | BadBranch str str branch_rule
  | TrPackageEnv package_env_error

record trigger_spec =
  ts_name :: str
  ts_packages :: "package_ref list"
  ts_manifest_refs :: "package_ref list"
  ts_work_label :: "str option"
  ts_environment :: "str option"
  ts_auto_merge :: bool
  ts_log_access :: "str list"
  ts_collaborators :: "str list"
  ts_output_lang :: "str option"
  ts_engine_config :: "(str, str) btree_map"
  ts_source_branch :: "str option"
  ts_target_branch :: "str option"
  ts_package_env :: package_env

section \<open>Sections\<close>

definition content_of :: "(str \<times> str) list \<Rightarrow> str \<Rightarrow> str option" where
  "content_of sections heading = map_option snd (find (\<lambda>s. fst s = heading) sections)"

definition visible_lines :: "str \<Rightarrow> str list" where
  "visible_lines content = non_empty_lines (strip_html_comments content)"

definition map_err :: "('e \<Rightarrow> 'f) \<Rightarrow> 'e + 'a \<Rightarrow> 'f + 'a" where
  "map_err f r = (case r of Inl e \<Rightarrow> Inl (f e) | Inr v \<Rightarrow> Inr v)"

lemma map_err_Inr [res_simps]: "map_err f r = Inr v \<longleftrightarrow> r = Inr v"
  by (cases r) (auto simp: map_err_def)

definition parse_session_name :: "(str \<times> str) list \<Rightarrow> trigger_error + str" where
  "parse_session_name sections =
     and_then (ok_or NoSessionName (content_of sections HEADING_SESSION_NAME)) (\<lambda>content.
       case visible_lines content of
         [name] \<Rightarrow> (if is_valid_env_name name then Inr name else Inl (BadSessionName name))
       | _ \<Rightarrow> Inl SessionNameLines)"

fun parse_ref_lines :: "str list \<Rightarrow> trigger_error + package_ref list" where
  "parse_ref_lines [] = Inr []"
| "parse_ref_lines (line # rest) =
     and_then (map_err (TrPackage line) (parse_package_line line)) (\<lambda>r.
     and_then (parse_ref_lines rest) (\<lambda>rs. Inr (r # rs)))"

definition parse_packages :: "(str \<times> str) list \<Rightarrow> trigger_error + package_ref list" where
  "parse_packages sections =
     (case content_of sections HEADING_PACKAGES of None \<Rightarrow> Inr [] | Some content \<Rightarrow> parse_ref_lines (visible_lines content))"

definition parse_manifest_refs :: "(str \<times> str) list \<Rightarrow> trigger_error + package_ref list" where
  "parse_manifest_refs sections =
     (case content_of sections HEADING_MANIFEST of None \<Rightarrow> Inr [] | Some content \<Rightarrow> parse_ref_lines (visible_lines content))"

definition parse_work_label :: "(str \<times> str) list \<Rightarrow> trigger_error + str option" where
  "parse_work_label sections =
     (case content_of sections HEADING_WORK_LABEL of
        None \<Rightarrow> Inr None
      | Some content \<Rightarrow>
          (case visible_lines content of
             [] \<Rightarrow> Inr None
           | [label] \<Rightarrow>
               (if MAX_WORK_LABEL_LEN < length label then Inl (WorkLabelLong label)
                else if ch (CHR '','') \<in> set label then Inl (WorkLabelComma label)
                else if reserved_work_label_rejection label \<noteq> None then Inl (WorkLabelReserved label)
                else Inr (Some label))
           | _ \<Rightarrow> Inl WorkLabelLines))"

definition parse_trigger_environment :: "(str \<times> str) list \<Rightarrow> trigger_error + str option" where
  "parse_trigger_environment sections =
     (case content_of sections HEADING_ENVIRONMENT of
        None \<Rightarrow> Inr None
      | Some content \<Rightarrow>
          (if visible_lines content = [DISPOSABLE_ENVIRONMENT_MARKER] then Inr (Some DISPOSABLE_ENVIRONMENT_MARKER)
           else map_err TrSection (parse_environment_name (strip_html_comments content))))"

definition parse_branch :: "(str \<times> str) list \<Rightarrow> str \<Rightarrow> trigger_error + str option" where
  "parse_branch sections heading =
     (case content_of sections heading of
        None \<Rightarrow> Inr None
      | Some content \<Rightarrow>
          (case visible_lines content of
             [name] \<Rightarrow> and_then (map_err (BadBranch heading name) (validate_branch_name name)) (\<lambda>_. Inr (Some name))
           | _ \<Rightarrow> Inl (BranchLines heading)))"

text \<open>\<open>^[a-z]{2,3}([-_][A-Za-z0-9]{2,8})?$\<close>: the letters end where the separator begins.\<close>

definition output_lang_regex :: "str \<Rightarrow> bool" where
  "output_lang_regex s \<longleftrightarrow>
     (let letters = takeWhile is_ascii_lowercase s
      in 2 \<le> length letters \<and> length letters \<le> 3 \<and>
         (case dropWhile is_ascii_lowercase s of
            [] \<Rightarrow> True
          | c # region \<Rightarrow>
              (c = ch (CHR ''-'') \<or> c = ch (CHR ''_'')) \<and> 2 \<le> length region \<and> length region \<le> 8 \<and>
              list_all is_ascii_alphanumeric region))"

definition parse_output_language :: "(str \<times> str) list \<Rightarrow> trigger_error + str option" where
  "parse_output_language sections =
     (case content_of sections HEADING_OUTPUT_LANGUAGE of
        None \<Rightarrow> Inr None
      | Some content \<Rightarrow>
          (case visible_lines content of
             [] \<Rightarrow> Inr None
           | [lang] \<Rightarrow> (if output_lang_regex lang then Inr (Some lang) else Inl (BadOutputLang lang))
           | _ \<Rightarrow> Inl OutputLangLines))"

definition parse_auto_merge :: "(str \<times> str) list \<Rightarrow> bool" where
  "parse_auto_merge sections =
     (case content_of sections HEADING_AUTO_MERGE of
        None \<Rightarrow> False
      | Some content \<Rightarrow>
          list_ex (\<lambda>v. to_ascii_lowercase v \<in> {lit ''true'', lit ''yes'', lit ''on'', lit ''enabled'', lit ''1''})
            (non_empty_lines content))"

definition login_tokens :: "str \<Rightarrow> str list" where
  "login_tokens content =
     filter (\<lambda>t. t \<noteq> [])
       (map (\<lambda>t. trim_start_matches (ch (CHR ''@'')) (trim t)) (split_pred (\<lambda>c. is_whitespace c \<or> c = ch (CHR '','')) content))"

fun dedup_tokens :: "str list \<Rightarrow> str list \<Rightarrow> str list" where
  "dedup_tokens seen [] = []"
| "dedup_tokens seen (token # rest) =
     (if to_ascii_lowercase token \<in> set seen then dedup_tokens seen rest
      else token # dedup_tokens (seen @ [to_ascii_lowercase token]) rest)"

definition parse_log_access :: "(str \<times> str) list \<Rightarrow> str list" where
  "parse_log_access sections =
     dedup_tokens [] (concat (map (\<lambda>heading. case content_of sections heading of None \<Rightarrow> [] | Some content \<Rightarrow> login_tokens content)
       [HEADING_FKST_CONTRIBUTORS, HEADING_LOG_ACCESS]))"

definition parse_session_collaborators :: "(str \<times> str) list \<Rightarrow> str list" where
  "parse_session_collaborators sections =
     (case content_of sections HEADING_SESSION_COLLABORATORS of
        None \<Rightarrow> []
      | Some content \<Rightarrow> dedup_tokens [] (login_tokens (strip_html_comments content)))"

section \<open>The body\<close>

definition parse_trigger_issue_body :: "str \<Rightarrow> trigger_error + trigger_spec" where
  "parse_trigger_issue_body body =
     and_then (map_err TrSection (split_sections body)) (\<lambda>sections.
     and_then (parse_session_name sections) (\<lambda>name.
     and_then (parse_packages sections) (\<lambda>packages.
     and_then (parse_manifest_refs sections) (\<lambda>manifest_refs.
       if packages = [] \<and> manifest_refs = [] then Inl NoPackageSource
       else
     and_then (parse_work_label sections) (\<lambda>work_label.
     and_then (parse_trigger_environment sections) (\<lambda>environment.
     and_then (parse_output_language sections) (\<lambda>output_lang.
     and_then (case content_of sections HEADING_ENGINE_CONFIG of
                 Some content \<Rightarrow> map_err TrEngine (parse_engine_config content) | None \<Rightarrow> Inr []) (\<lambda>engine_config.
     and_then (parse_branch sections HEADING_SOURCE_BRANCH) (\<lambda>source_branch.
     and_then (parse_branch sections HEADING_TARGET_BRANCH) (\<lambda>target_branch.
     and_then (case content_of sections HEADING_PACKAGE_ENV of
                 Some content \<Rightarrow> map_err TrPackageEnv (parse_package_env content) | None \<Rightarrow> Inr []) (\<lambda>package_env.
       Inr \<lparr>ts_name = name, ts_packages = packages, ts_manifest_refs = manifest_refs, ts_work_label = work_label,
            ts_environment = environment, ts_auto_merge = parse_auto_merge sections,
            ts_log_access = parse_log_access sections, ts_collaborators = parse_session_collaborators sections,
            ts_output_lang = output_lang, ts_engine_config = engine_config, ts_source_branch = source_branch,
            ts_target_branch = target_branch, ts_package_env = package_env\<rparr>)))))))))))"

section \<open>The registration\<close>

definition session_canonical :: "int \<Rightarrow> str \<Rightarrow> str \<Rightarrow> int \<Rightarrow> str" where
  "session_canonical installation_id owner name issue_number =
     show_int installation_id @ lit ''/'' @ owner @ lit ''/'' @ name @ lit ''#'' @ show_int issue_number"

definition derive_session_id :: "(str \<Rightarrow> str) \<Rightarrow> int \<Rightarrow> str \<Rightarrow> str \<Rightarrow> int \<Rightarrow> str" where
  "derive_session_id uuid_v5 installation_id owner name issue_number =
     uuid_v5 (session_canonical installation_id owner name issue_number)"

definition parse_registration ::
  "(json \<Rightarrow> str) \<Rightarrow> (str \<Rightarrow> str) \<Rightarrow> int \<Rightarrow> repo_ref \<Rightarrow> issue_summary \<Rightarrow> session_creator \<Rightarrow>
   (int \<times> trigger_error) + session_registration" where
  "parse_registration digest uuid_v5 installation_id repo issue creator =
     (case parse_trigger_issue_body (su_body issue) of
        Inl e \<Rightarrow> Inl (su_number issue, e)
      | Inr spec \<Rightarrow>
          Inr \<lparr>rg_installation_id = installation_id, rg_repo = repo, rg_trigger_issue = su_number issue,
               rg_trigger_author_id = su_user_id issue, rg_trigger_author_login = su_user_login issue,
               rg_creator_login = sc_login creator, rg_creator_id = sc_id creator,
               rg_def =
                 \<lparr>df_name = ts_name spec, df_packages = ts_packages spec, df_manifest_refs = ts_manifest_refs spec,
                  df_work_label = ts_work_label spec, df_environment = ts_environment spec,
                  df_output_lang = ts_output_lang spec, df_engine_config = ts_engine_config spec,
                  df_source_branch = ts_source_branch spec, df_target_branch = ts_target_branch spec,
                  df_package_env = ts_package_env spec\<rparr>,
               rg_effective_packages = ts_packages spec, rg_effective_package_env = ts_package_env spec,
               rg_session_id = derive_session_id uuid_v5 installation_id (rf_owner repo) (rf_name repo) (su_number issue),
               rg_config_hash =
                 config_hash digest (ts_packages spec) (ts_work_label spec) (ts_environment spec) (ts_output_lang spec)
                   (ts_engine_config spec) (ts_manifest_refs spec) (ts_source_branch spec) (ts_target_branch spec)
                   (ts_package_env spec),
               rg_auto_merge = ts_auto_merge spec, rg_log_access = ts_log_access spec,
               rg_collaborators = ts_collaborators spec\<rparr>)"

section \<open>What an accepted body guarantees\<close>

definition wf_branch :: "str \<Rightarrow> bool" where
  "wf_branch name \<longleftrightarrow>
     name \<noteq> [] \<and> length name \<le> 200 \<and> list_all (\<lambda>c. is_ascii_alphanumeric c \<or> c \<in> set (lit ''._/-'')) name \<and>
     hd name \<notin> set (lit ''-/.'') \<and> last name \<notin> set (lit ''/.'') \<and> \<not> suffix (lit ''.lock'') name \<and>
     \<not> sublist (lit ''..'') name \<and> \<not> sublist (lit ''//'') name"

definition wf_work_label :: "str \<Rightarrow> bool" where
  "wf_work_label label \<longleftrightarrow>
     label \<noteq> [] \<and> trimmed label \<and> length label \<le> 50 \<and> ch (CHR '','') \<notin> set label \<and> \<not> is_reserved_label label"

definition wf_logins :: "str list \<Rightarrow> bool" where
  "wf_logins logins \<longleftrightarrow>
     distinct (map to_ascii_lowercase logins) \<and>
     (\<forall>l \<in> set logins. l \<noteq> [] \<and> hd l \<noteq> ch (CHR ''@'') \<and> (\<forall>c \<in> set l. \<not> is_whitespace c \<and> c \<noteq> ch (CHR '','')))"

definition wf_trigger_spec :: "trigger_spec \<Rightarrow> bool" where
  "wf_trigger_spec ts \<longleftrightarrow>
     is_valid_env_name (ts_name ts) \<and> list_all wf_package_ref (ts_packages ts @ ts_manifest_refs ts) \<and>
     (ts_packages ts \<noteq> [] \<or> ts_manifest_refs ts \<noteq> []) \<and> pred_option wf_work_label (ts_work_label ts) \<and>
     pred_option (\<lambda>e. is_valid_env_name e \<or> e = DISPOSABLE_ENVIRONMENT_MARKER) (ts_environment ts) \<and>
     wf_logins (ts_log_access ts) \<and> wf_logins (ts_collaborators ts) \<and> pred_option output_lang_regex (ts_output_lang ts) \<and>
     (\<forall>k v. bt_get (ts_engine_config ts) k = Some v \<longrightarrow> engine_entry_ok k v) \<and>
     pred_option wf_branch (ts_source_branch ts) \<and> pred_option wf_branch (ts_target_branch ts) \<and>
     keys_disjoint (ts_package_env ts) \<and> (\<forall>b \<in> set (ts_package_env ts). block_ok b)"

lemma ends_with_suffix: "ends_with p s \<longleftrightarrow> suffix p s"
  by (auto simp: ends_with_def suffix_def) (metis not_None_eq strip_suffix_Some_iff)+

lemma validate_branch_name_wf:
  assumes "validate_branch_name name = Inr u"
  shows "wf_branch name"
proof -
  have n: "name \<noteq> []" "byte_len name \<le> 200" "\<not> starts_with (lit ''-'') name" "\<not> starts_with (lit ''/'') name"
      "\<not> starts_with (lit ''.'') name" "\<not> ends_with (lit ''/'') name" "\<not> ends_with (lit ''.'') name"
      "\<not> ends_with (lit ''.lock'') name" "\<not> contains_str (lit ''..'') name" "\<not> contains_str (lit ''//'') name"
      "list_all (\<lambda>c. is_ascii_alphanumeric c \<or> c \<in> set (lit ''._/-'')) name"
    using assms by (simp_all add: validate_branch_name_def split: if_splits)
  obtain c r where "name = c # r" using n(1) by (cases name) auto
  then have "hd name \<notin> set (lit ''-/.'')" using n(3-5) by (auto simp: starts_with_iff_prefix str_simps)
  moreover obtain i c' where "name = i @ [c']" using n(1) by (cases name rule: rev_cases) auto
  then have "last name \<notin> set (lit ''/.'')" using n(6,7) by (auto simp: ends_with_suffix str_simps)
  moreover have "length name \<le> 200" using n(2) length_le_byte_len [of name] by simp
  ultimately show ?thesis using n by (simp add: wf_branch_def contains_str_iff ends_with_suffix)
qed

lemma visible_line: "l \<in> set (visible_lines content) \<Longrightarrow> l \<noteq> [] \<and> trimmed l"
  by (auto simp: visible_lines_def non_empty_lines_def)

lemma parse_ref_lines_wf: "parse_ref_lines ls = Inr rs \<Longrightarrow> list_all wf_package_ref rs"
  by (induction ls arbitrary: rs) (auto simp: res_simps parse_package_line_iff)

lemma dedup_tokens_sound:
  "set (dedup_tokens seen ts) \<subseteq> set ts \<and> distinct (map to_ascii_lowercase (dedup_tokens seen ts)) \<and>
   set (map to_ascii_lowercase (dedup_tokens seen ts)) \<inter> set seen = {}"
  by (induction seen ts rule: dedup_tokens.induct) auto

lemma login_token:
  assumes "t \<in> set (login_tokens content)"
  shows "t \<noteq> []" "hd t \<noteq> ch (CHR ''@'')" "\<And>c. c \<in> set t \<Longrightarrow> \<not> is_whitespace c \<and> c \<noteq> ch (CHR '','')"
proof -
  obtain w where w: "w \<in> set (split_pred (\<lambda>c. is_whitespace c \<or> c = ch (CHR '','')) content)"
      "t = trim_start_matches (ch (CHR ''@'')) (trim w)" "t \<noteq> []"
    using assms by (auto simp: login_tokens_def)
  show "t \<noteq> []" by (rule w(3))
  show "hd t \<noteq> ch (CHR ''@'')" 
    using w(3) hd_dropWhile_not [of "(=) (ch (CHR ''@''))" "trim w"] unfolding w(2) trim_start_matches_def by metis
  have "set t \<subseteq> set w" 
    using set_trim [of w] set_dropWhileD unfolding w(2) trim_start_matches_def by fast
  then show "\<And>c. c \<in> set t \<Longrightarrow> \<not> is_whitespace c \<and> c \<noteq> ch (CHR '','')" using split_pred_piece [OF w(1)] by blast
qed

lemma wf_logins_dedup: "(\<And>t. t \<in> set ts \<Longrightarrow> \<exists>content. t \<in> set (login_tokens content)) \<Longrightarrow> wf_logins (dedup_tokens [] ts)"
  using dedup_tokens_sound [of "[]" ts] login_token unfolding wf_logins_def by blast

lemma wf_log_access: "wf_logins (parse_log_access sections)"
  unfolding parse_log_access_def by (rule wf_logins_dedup) (auto split: option.splits)

lemma wf_collaborators: "wf_logins (parse_session_collaborators sections)"
  unfolding parse_session_collaborators_def
  by (cases "content_of sections HEADING_SESSION_COLLABORATORS") (auto simp: wf_logins_def [of "[]"] intro: wf_logins_dedup)

lemma parse_session_name_wf:
  assumes "parse_session_name sections = Inr name"
  shows "is_valid_env_name name"
proof -
  obtain content where c: "(case visible_lines content of
      [name] \<Rightarrow> (if is_valid_env_name name then Inr name else Inl (BadSessionName name))
    | _ \<Rightarrow> Inl SessionNameLines) = Inr name"
    using assms unfolding parse_session_name_def and_then_Inr_iff by blast
  then show ?thesis by (auto split: list.splits if_splits)
qed

lemma parse_work_label_wf: "parse_work_label sections = Inr label \<Longrightarrow> pred_option wf_work_label label"
  using visible_line
  by (auto simp: parse_work_label_def wf_work_label_def MAX_WORK_LABEL_LEN_def reserved_work_label_rejection_def
      split: option.splits list.splits if_splits) (metis list.set_intros(1))+

lemma parse_trigger_environment_wf:
  "parse_trigger_environment sections = Inr e \<Longrightarrow>
   pred_option (\<lambda>e. is_valid_env_name e \<or> e = DISPOSABLE_ENVIRONMENT_MARKER) e"
  by (auto simp: parse_trigger_environment_def parse_environment_name_def res_simps
      split: option.splits list.splits if_splits)

lemma parse_branch_wf: "parse_branch sections h = Inr b \<Longrightarrow> pred_option wf_branch b"
  by (auto simp: parse_branch_def res_simps validate_branch_name_wf split: option.splits list.splits)

lemma parse_output_language_wf: "parse_output_language sections = Inr l \<Longrightarrow> pred_option output_lang_regex l"
  by (auto simp: parse_output_language_def split: option.splits list.splits if_splits)


text \<open>
  An accepted trigger body describes a session the platform can run: a Kubernetes-safe name, at least one
  package source with path-safe references, a work label that GitHub and the substrate can carry and that no
  platform behaviour owns, bounded engine tunables, safe branch names, disjoint package settings, and login
  lists without duplicates.
\<close>

theorem trigger_body_wf:
  assumes "parse_trigger_issue_body body = Inr ts"
  shows "wf_trigger_spec ts"
proof -
  obtain sections name packages manifests label environment lang engine source target env where s:
      "parse_session_name sections = Inr name" "parse_packages sections = Inr packages"
      "parse_manifest_refs sections = Inr manifests" "packages \<noteq> [] \<or> manifests \<noteq> []"
      "parse_work_label sections = Inr label" "parse_trigger_environment sections = Inr environment"
      "parse_output_language sections = Inr lang"
      "(case content_of sections HEADING_ENGINE_CONFIG of
          Some content \<Rightarrow> map_err TrEngine (parse_engine_config content) | None \<Rightarrow> Inr []) = Inr engine"
      "parse_branch sections HEADING_SOURCE_BRANCH = Inr source" "parse_branch sections HEADING_TARGET_BRANCH = Inr target"
      "(case content_of sections HEADING_PACKAGE_ENV of
          Some content \<Rightarrow> map_err TrPackageEnv (parse_package_env content) | None \<Rightarrow> Inr []) = Inr env"
    and ts: "ts = \<lparr>ts_name = name, ts_packages = packages, ts_manifest_refs = manifests, ts_work_label = label,
            ts_environment = environment, ts_auto_merge = parse_auto_merge sections,
            ts_log_access = parse_log_access sections, ts_collaborators = parse_session_collaborators sections,
            ts_output_lang = lang, ts_engine_config = engine, ts_source_branch = source,
            ts_target_branch = target, ts_package_env = env\<rparr>"
    using assms by (auto simp: parse_trigger_issue_body_def res_simps simp del: not_None_eq split: if_splits)
  have "is_valid_env_name name"
    by (rule parse_session_name_wf [OF s(1)])
  moreover have "list_all wf_package_ref packages" "list_all wf_package_ref manifests"
    using s(2,3) by (auto simp: parse_packages_def parse_manifest_refs_def split: option.splits intro: parse_ref_lines_wf)
  moreover have "bt_get engine k = Some v \<Longrightarrow> engine_entry_ok k v" for k v
    using s(8) parse_engine_config_Inr(1) by (auto simp: res_simps split: option.splits)
  moreover have "keys_disjoint env \<and> (\<forall>b \<in> set env. block_ok b)"
    using s(11) parse_package_env_ok by (auto simp: res_simps keys_disjoint_def split: option.splits)
  ultimately show ?thesis
    using s(4) parse_work_label_wf [OF s(5)] parse_trigger_environment_wf [OF s(6)] parse_output_language_wf [OF s(7)]
      parse_branch_wf [OF s(9)] parse_branch_wf [OF s(10)] wf_log_access wf_collaborators
    by (simp add: wf_trigger_spec_def ts)
qed

section \<open>A sample trigger\<close>

lemma visible_lines_unlines:
  assumes "\<And>l. l \<in> set ls \<Longrightarrow> plain_line l \<and> trimmed l \<and> l \<noteq> [] \<and> 60 \<notin> set l"
  shows "visible_lines (unlines ls) = ls"
proof -
  have "60 \<notin> set (unlines ls)" using assms by (auto simp: unlines_def)
  then have "\<not> sublist (lit ''<!--'') (unlines ls)" using set_mono_sublist by (fastforce simp: str_simps)
  then have "visible_lines (unlines ls) = filter (\<lambda>l. l \<noteq> []) (map trim ls)"
    using assms by (simp add: visible_lines_def non_empty_lines_def strip_no_comment lines_unlines)
  moreover have "map trim ls = ls" using assms by (intro map_idI) (simp add: trim_id)
  ultimately show ?thesis using assms by (simp add: filter_id_conv)
qed

definition sample_trigger_sections :: "(str \<times> str list) list" where
  "sample_trigger_sections =
     [(HEADING_SESSION_NAME, [lit ''nightly'']), (HEADING_PACKAGES, [lit ''acme/pkgs@dev:p/a''])]"

definition sample_trigger_body :: str where
  "sample_trigger_body = unlines ([] @ body_lines sample_trigger_sections)"

lemma sample_trigger_split:
  "split_sections sample_trigger_body =
     Inr [(HEADING_SESSION_NAME, unlines [lit ''nightly'']), (HEADING_PACKAGES, unlines [lit ''acme/pkgs@dev:p/a''])]"
  unfolding sample_trigger_body_def
  by (subst split_unlines) (simp_all add: sample_trigger_sections_def body_lines_def plain_line_def is_heading_def
      starts_with_def trim_end_def is_whitespace_def trigger_heading_defs str_simps)

definition sample_ref :: package_ref where
  "sample_ref = \<lparr>pr_owner = lit ''acme'', pr_repo = lit ''pkgs'', pr_git_ref = lit ''dev'', pr_path = lit ''p/a''\<rparr>"

lemma sample_trigger_parses:
  "\<exists>ts. parse_trigger_issue_body sample_trigger_body = Inr ts \<and> ts_name ts = lit ''nightly'' \<and> ts_packages ts = [sample_ref] \<and>
     ts_manifest_refs ts = [] \<and> ts_work_label ts = None \<and> ts_source_branch ts = None \<and> ts_package_env ts = []"
proof -
  have v: "visible_lines (unlines [lit ''nightly'']) = [lit ''nightly'']"
      "visible_lines (unlines [lit ''acme/pkgs@dev:p/a'']) = [lit ''acme/pkgs@dev:p/a'']"
    by (rule visible_lines_unlines; simp add: plain_line_def trimmed_def is_whitespace_def str_simps)+
  have "wf_package_ref sample_ref"
    by (simp add: sample_ref_def wf_package_ref_def ref_defs has_traversal_def split_def starts_with_def str_simps)
  moreover have "lit ''acme/pkgs@dev:p/a'' = render_ref sample_ref" by (simp add: sample_ref_def render_ref_def str_simps)
  ultimately have r: "parse_package_line (lit ''acme/pkgs@dev:p/a'') = Inr sample_ref" by (simp add: parse_package_line_iff)
  have n: "is_valid_env_name (lit ''nightly'')"
    by (simp add: is_valid_env_name_def env_name_regex_def env_edge_char_def byte_len_def utf8_width_def MAX_ENV_NAME_LEN_def
        char_class_defs str_simps)
  have h: "HEADING_SESSION_NAME \<noteq> HEADING_PACKAGES" "HEADING_PACKAGES \<noteq> HEADING_SESSION_NAME"
    by (simp_all add: trigger_heading_defs str_simps)
  have other: "content_of [(HEADING_SESSION_NAME, a), (HEADING_PACKAGES, b)] h = None"
    if "h \<in> {HEADING_MANIFEST, HEADING_WORK_LABEL, HEADING_ENVIRONMENT, HEADING_OUTPUT_LANGUAGE, HEADING_ENGINE_CONFIG,
      HEADING_SOURCE_BRANCH, HEADING_TARGET_BRANCH, HEADING_PACKAGE_ENV}" for a b h
    using that by (auto simp: content_of_def trigger_heading_defs str_simps)
  have "content_of [(HEADING_SESSION_NAME, a), (HEADING_PACKAGES, b)] HEADING_SESSION_NAME = Some a"
      "content_of [(HEADING_SESSION_NAME, a), (HEADING_PACKAGES, b)] HEADING_PACKAGES = Some b" for a b
    using h by (simp_all add: content_of_def)
  then show ?thesis
    by (simp add: parse_trigger_issue_body_def map_err_def sample_trigger_split parse_session_name_def parse_packages_def
        parse_manifest_refs_def parse_work_label_def parse_trigger_environment_def parse_output_language_def parse_branch_def
        v r n other)
qed

theorem trigger_body_wf_witness:
  "\<exists>ts. parse_trigger_issue_body sample_trigger_body = Inr ts \<and> ts_name ts = lit ''nightly'' \<and> wf_trigger_spec ts"
proof -
  obtain ts where ts: "parse_trigger_issue_body sample_trigger_body = Inr ts" "ts_name ts = lit ''nightly''"
    using sample_trigger_parses by blast
  then show ?thesis using trigger_body_wf [OF ts(1)] by blast
qed

section \<open>The name of a session\<close>

lemma show_int_chars: "c \<in> set (show_int i) \<Longrightarrow> is_ascii_digit c \<or> c = 45"
  by (auto simp: show_int_def dest: show_nat_digits split: if_splits)

lemma split_last_sep:
  assumes "(c :: uchar) \<notin> set b" "c \<notin> set b'" "a @ c # b = a' @ c # b'"
  shows "a = a' \<and> b = b'"
proof -
  have "rev (a @ c # b) = rev (a' @ c # b')" by (simp only: assms(3))
  then have e: "rev b @ c # rev a = rev b' @ c # rev a'" unfolding rev_append rev.simps by simp
  have "Some (rev b, rev a) = split_once c (rev b @ c # rev a)"
    by (rule split_once_append [symmetric]) (simp add: assms(1))
  also have "\<dots> = split_once c (rev b' @ c # rev a')" by (simp only: e)
  also have "\<dots> = Some (rev b', rev a')" by (rule split_once_append) (simp add: assms(2))
  finally show ?thesis by simp
qed

lemma session_canonical_inj:
  assumes "47 \<notin> set owner" "47 \<notin> set owner'"
  shows "session_canonical i owner name n = session_canonical i' owner' name' n' \<longleftrightarrow>
    i = i' \<and> owner = owner' \<and> name = name' \<and> n = n'"
proof
  assume eq: "session_canonical i owner name n = session_canonical i' owner' name' n'"
  have free: "47 \<notin> set (show_int k)" "35 \<notin> set (show_int k)" for k
    using show_int_chars [of 47 k] show_int_chars [of 35 k] by (auto simp: is_ascii_digit_def)
  have "show_int i @ 47 # (owner @ 47 # name @ 35 # show_int n) = show_int i' @ 47 # (owner' @ 47 # name' @ 35 # show_int n')"
    using eq by (simp add: session_canonical_def str_simps)
  then have 1: "show_int i = show_int i'" "owner @ 47 # (name @ 35 # show_int n) = owner' @ 47 # (name' @ 35 # show_int n')"
    using split_once_append [OF free(1)] by (metis option.inject prod.inject)+
  then have 2: "owner = owner'" "name @ 35 # show_int n = name' @ 35 # show_int n'"
    using split_once_append [OF assms(1)] split_once_append [OF assms(2)] by (metis option.inject prod.inject)+
  then show "i = i' \<and> owner = owner' \<and> name = name' \<and> n = n'"
    using split_last_sep [OF free(2) free(2) 2(2)] 1(1) show_int_inj by blast
qed simp

text \<open>
  A session is identified by its installation, repository and trigger issue: two registrations get the same
  session id exactly when these agree, whatever the bodies, authors and creators say, as long as the name-based
  UUIDs of different names differ.
\<close>

theorem registration_identity:
  assumes "parse_registration digest uuid_v5 i repo issue creator = Inr reg"
    "parse_registration digest uuid_v5 i' repo' issue' creator' = Inr reg'"
    "inj uuid_v5" "47 \<notin> set (rf_owner repo)" "47 \<notin> set (rf_owner repo')"
  shows "rg_session_id reg = rg_session_id reg' \<longleftrightarrow> i = i' \<and> repo = repo' \<and> su_number issue = su_number issue'"
proof -
  have "rg_session_id reg = derive_session_id uuid_v5 i (rf_owner repo) (rf_name repo) (su_number issue)"
      "rg_session_id reg' = derive_session_id uuid_v5 i' (rf_owner repo') (rf_name repo') (su_number issue')"
    using assms(1,2) by (auto simp: parse_registration_def split: sum.splits)
  then show ?thesis
    using session_canonical_inj [OF assms(4,5)] inj_eq [OF assms(3)]
    by (auto simp: derive_session_id_def intro: repo_ref.equality)
qed

definition sample_trigger_issue :: issue_summary where
  "sample_trigger_issue =
     \<lparr>su_number = 7, su_title = lit ''Nightly'', su_body = sample_trigger_body, su_labels = [], su_state = lit ''open'',
      su_assignees = [], su_user_login = lit ''alice'', su_user_id = 9, su_created_at = 0\<rparr>"

definition sample_creator :: session_creator where
  "sample_creator = \<lparr>sc_login = lit ''alice'', sc_id = Some 9\<rparr>"

theorem registration_identity_witness:
  "\<exists>reg reg'. parse_registration json_text id 42 \<lparr>rf_owner = lit ''acme'', rf_name = lit ''site''\<rparr> sample_trigger_issue sample_creator = Inr reg \<and>
     parse_registration json_text id 42 \<lparr>rf_owner = lit ''acme'', rf_name = lit ''site''\<rparr> (sample_trigger_issue\<lparr>su_number := 8\<rparr>) sample_creator = Inr reg' \<and>
     rg_session_id reg \<noteq> rg_session_id reg'"
proof -
  obtain ts where ts: "parse_trigger_issue_body sample_trigger_body = Inr ts" using sample_trigger_parses by blast
  let ?p = "\<lambda>issue. parse_registration json_text id 42 \<lparr>rf_owner = lit ''acme'', rf_name = lit ''site''\<rparr> issue sample_creator"
  obtain reg reg' where r: "?p sample_trigger_issue = Inr reg" "?p (sample_trigger_issue\<lparr>su_number := 8\<rparr>) = Inr reg'"
    using ts by (simp add: parse_registration_def sample_trigger_issue_def)
  have "47 \<notin> set (rf_owner \<lparr>rf_owner = lit ''acme'', rf_name = lit ''site''\<rparr>)" by (simp add: str_simps)
  then show ?thesis using registration_identity [OF r inj_on_id] r by (auto simp: sample_trigger_issue_def)
qed

end
