(* ===== verification/SchedulePass.thy ===== *)
theory SchedulePass
  imports ScheduleExec TriggerParse
begin

text \<open>
  The clock's pass over a repository: which issues may be read as definitions
  (\<open>backend/src/reconcile/schedule_authz.rs\<close>), the plan of every definition under the cap per creator
  (\<open>backend/src/reconcile/schedule_pass.rs\<close>), and the gate on pending work
  (\<open>backend/src/reconcile/pending.rs\<close>).

  GitHub's answers are arguments: the listing of issues, the comments of an issue, and the counts of labels,
  each a value or an error.
\<close>

section \<open>Authorization of a definition\<close>

record authorized_schedule_issue =
  as_number :: int
  as_body :: str
  as_title :: str
  as_labels :: "str list"
  as_created_at :: int

definition schedule_owner :: "issue_metadata \<Rightarrow> session_registration list \<Rightarrow> session_registration option" where
  "schedule_owner meta regs =
     min_by_key rg_trigger_issue (filter (\<lambda>reg. route_work_issue meta (rg_creator_login reg) = Routed) regs)"

definition authorize_schedule_issue ::
  "issue_summary \<Rightarrow> session_registration list \<Rightarrow> access_policy \<Rightarrow> str option \<Rightarrow>
   invalid_detail + (authorized_schedule_issue \<times> session_registration)" where
  "authorize_schedule_issue issue regs access bot_login =
     (let meta = metadata issue
      in case im_assignees meta of
           [assignee] \<Rightarrow>
             (case schedule_owner meta regs of
                None \<Rightarrow> Inl (DeniedNoSession assignee)
              | Some owner \<Rightarrow>
                  (if \<not> is_work_author_allowed_with_bot owner access (im_user_id meta) (im_user_login meta) bot_login
                   then Inl (DeniedUnauthorized (rg_trigger_issue owner))
                   else Inr (\<lparr>as_number = su_number issue, as_body = su_body issue, as_title = su_title issue,
                              as_labels = su_labels issue, as_created_at = su_created_at issue\<rparr>, owner)))
         | assignees \<Rightarrow> Inl (DeniedUnrouted (length assignees)))"

section \<open>The plan of one definition\<close>

definition run_issue_work_label :: "(str \<Rightarrow> str) \<Rightarrow> run_mode \<Rightarrow> cron_config \<Rightarrow> invalid_detail + str" where
  "run_issue_work_label lower mode cfg =
     (let logical = (case mode of Once \<Rightarrow> WORKFLOW_RUN_LABEL | Cron _ \<Rightarrow> WORKFLOW_SCHEDULED_RUN_LABEL)
      in case apply_work_label_namespace lower [logical] (cfg_work_label_namespace cfg) of
           Inl e \<Rightarrow> Inl (RunLabelUnusable e)
         | Inr effective \<Rightarrow> ok_or (RunLabelUnresolved logical) (bt_get (ewl_logical_to_effective effective) logical))"

record pass_env =
  ps_calendar :: calendar
  ps_codec :: codec
  ps_lower :: "str \<Rightarrow> str"
  ps_regs :: "session_registration list"
  ps_access :: access_policy
  ps_config :: cron_config

text \<open>
  The counter holds the accepted definitions of each creator, by folded login. The plan of an issue that is
  not accepted flags it; a failed read of the comments is an error.
\<close>

definition plan_one ::
  "pass_env \<Rightarrow> (int \<Rightarrow> 'err + issue_comment list) \<Rightarrow> str \<Rightarrow> instant \<Rightarrow> issue_summary \<Rightarrow> (str \<Rightarrow> nat) \<Rightarrow>
   'err + (schedule_effect list \<times> (str \<Rightarrow> nat))" where
  "plan_one env comments bot_login now issue accepted =
     (let cfg = ps_config env;
          reject = (\<lambda>labels detail. Inr (plan_invalid (su_number issue) labels detail, accepted))
      in case authorize_schedule_issue issue (ps_regs env) (ps_access env) (Some bot_login) of
           Inl denial \<Rightarrow> reject (su_labels issue) denial
         | Inr (authorized, reg) \<Rightarrow>
             (case parse_scheduled_workflow (as_body authorized) of
                Inl e \<Rightarrow> reject (as_labels authorized) (ParseFailed e)
              | Inr spec \<Rightarrow>
                  (case check_min_interval (ps_calendar env) (run_mode spec) cfg of
                     Inl detail \<Rightarrow> reject (as_labels authorized) detail
                   | Inr _ \<Rightarrow>
                       (case run_issue_work_label (ps_lower env) (run_mode spec) cfg of
                          Inl detail \<Rightarrow> reject (as_labels authorized) detail
                        | Inr work_label \<Rightarrow>
                            (let key = to_ascii_lowercase (rg_creator_login reg)
                             in if cron_max_jobs_per_creator cfg \<le> accepted key
                                then reject (as_labels authorized)
                                       (OverCap (rg_creator_login reg) (cron_max_jobs_per_creator cfg))
                                else case comments (su_number issue) of
                                       Inl e \<Rightarrow> Inl e
                                     | Inr history \<Rightarrow>
                                         Inr (plan_schedule (ps_calendar env)
                                                \<lparr>ob_schedule_issue = su_number issue, ob_labels = as_labels authorized,
                                                 ob_created_at = as_created_at authorized, ob_spec = spec,
                                                 ob_records = trusted_records (ps_codec env) bot_login history,
                                                 ob_work_label = work_label, ob_creator_login = rg_creator_login reg\<rparr>
                                                now cfg,
                                              accepted(key := Suc (accepted key))))))))"

fun plan_issues ::
  "pass_env \<Rightarrow> (int \<Rightarrow> 'err + issue_comment list) \<Rightarrow> str \<Rightarrow> instant \<Rightarrow> issue_summary list \<Rightarrow> (str \<Rightarrow> nat) \<Rightarrow>
   'err + schedule_effect list" where
  "plan_issues env comments bot_login now [] accepted = Inr []"
| "plan_issues env comments bot_login now (issue # issues) accepted =
     (case plan_one env comments bot_login now issue accepted of
        Inl e \<Rightarrow> Inl e
      | Inr (planned, accepted') \<Rightarrow>
          (case plan_issues env comments bot_login now issues accepted' of
             Inl e \<Rightarrow> Inl e
           | Inr effects \<Rightarrow> Inr (planned @ effects)))"

definition plan_repo_schedules ::
  "pass_env \<Rightarrow> 'err + issue_summary list \<Rightarrow> (int \<Rightarrow> 'err + issue_comment list) \<Rightarrow> instant \<Rightarrow>
   'err + schedule_effect list" where
  "plan_repo_schedules env listing comments now =
     (case cfg_bot_login (ps_config env) of
        None \<Rightarrow> Inr []
      | Some bot_login \<Rightarrow>
          (case listing of
             Inl e \<Rightarrow> Inl e
           | Inr issues \<Rightarrow>
               (if issues = [] then Inr []
                else plan_issues env comments bot_login now (sort_key su_number issues) (\<lambda>_. 0))))"

section \<open>Manual runs\<close>

datatype manual_run_error = NoActiveSession str | ManualLabel invalid_detail

definition manual_registration ::
  "(json \<Rightarrow> str) \<Rightarrow> (str \<Rightarrow> str) \<Rightarrow> str option \<Rightarrow> repo_ref \<Rightarrow> issue_summary \<Rightarrow> session_registration option" where
  "manual_registration digest uuid_v5 bot_login repo issue =
     (case effective_creator (metadata issue) bot_login of
        Resolved creator \<Rightarrow> ok_opt (parse_registration digest uuid_v5 0 repo issue creator)
      | Unattributable _ _ \<Rightarrow> None)"

definition resolve_manual_run_label ::
  "(json \<Rightarrow> str) \<Rightarrow> (str \<Rightarrow> str) \<Rightarrow> (str \<Rightarrow> str) \<Rightarrow> repo_ref \<Rightarrow> issue_summary list \<Rightarrow> str \<Rightarrow> run_mode \<Rightarrow> cron_config \<Rightarrow>
   manual_run_error + str" where
  "resolve_manual_run_label digest uuid_v5 lower repo triggers creator_login mode cfg =
     (let regs = sort_key rg_trigger_issue
        (filter (\<lambda>reg. eq_ignore_ascii_case (rg_creator_login reg) creator_login)
          (filter_map (manual_registration digest uuid_v5 (cfg_bot_login cfg) repo) triggers))
      in if regs = [] then Inl (NoActiveSession creator_login)
         else map_err ManualLabel (run_issue_work_label lower mode cfg))"

section \<open>Pending work\<close>

definition worked_by :: "session_registration \<Rightarrow> access_policy \<Rightarrow> str option \<Rightarrow> issue_metadata \<Rightarrow> bool" where
  "worked_by reg access bot_login meta \<longleftrightarrow>
     route_work_issue meta (rg_creator_login reg) = Routed \<and>
     is_work_author_allowed_with_bot reg access (im_user_id meta) (im_user_login meta) bot_login"

fun has_pending ::
  "(str \<Rightarrow> 'err + nat) \<Rightarrow> (str \<Rightarrow> 'err + issue_summary list) \<Rightarrow> session_registration \<Rightarrow> access_policy \<Rightarrow> str option \<Rightarrow>
   str list \<Rightarrow> 'err + bool" where
  "has_pending count listing reg access bot_login [] = Inr False"
| "has_pending count listing reg access bot_login (label # labels) =
     (case count label of
        Inl e \<Rightarrow> Inl e
      | Inr n \<Rightarrow>
          (if n = 0 then has_pending count listing reg access bot_login labels
           else case listing label of
                  Inl e \<Rightarrow> Inl e
                | Inr issues \<Rightarrow>
                    (if list_ex (worked_by reg access bot_login) (map metadata issues) then Inr True
                     else has_pending count listing reg access bot_login labels)))"

section \<open>Authorization\<close>

lemma schedule_owner_Some:
  assumes "schedule_owner meta regs = Some reg"
  shows "reg \<in> set regs" "route_work_issue meta (rg_creator_login reg) = Routed"
    "\<And>r. r \<in> set regs \<Longrightarrow> route_work_issue meta (rg_creator_login r) = Routed \<Longrightarrow> rg_trigger_issue reg \<le> rg_trigger_issue r"
  using min_by_key_mem [OF assms [unfolded schedule_owner_def]] min_by_key_le [OF assms [unfolded schedule_owner_def]]
  by auto

lemma routed_iff:
  "route_work_issue meta login = Routed \<longleftrightarrow> (\<exists>a. im_assignees meta = [a] \<and> eq_ignore_ascii_case a login)"
  by (auto simp: route_work_issue_def split: list.splits)

lemma authorize_Inr_iff:
  "authorize_schedule_issue issue regs access bot_login = Inr (a, reg) \<longleftrightarrow>
     schedule_owner (metadata issue) regs = Some reg \<and> worked_by reg access bot_login (metadata issue) \<and>
     a = \<lparr>as_number = su_number issue, as_body = su_body issue, as_title = su_title issue, as_labels = su_labels issue,
          as_created_at = su_created_at issue\<rparr>"
proof -
  have "\<exists>x. im_assignees (metadata issue) = [x]" if "schedule_owner (metadata issue) regs = Some reg"
    using schedule_owner_Some(2) [OF that] by (auto simp: routed_iff)
  then show ?thesis
    using schedule_owner_Some(2) [of "metadata issue" regs reg]
    by (auto simp: authorize_schedule_issue_def worked_by_def Let_def split: list.splits option.splits)
qed

text \<open>What a plan of one issue can be: a flag on it, or the clock's plan of an accepted definition.\<close>

lemma plan_one_cases:
  assumes "plan_one env comments bot_login now issue accepted = Inr (planned, accepted')"
  obtains (rejected) labels detail where
      "planned = plan_invalid (su_number issue) labels detail" "accepted' = accepted"
  | (planned) reg spec work_label history where
      "schedule_owner (metadata issue) (ps_regs env) = Some reg"
      "worked_by reg (ps_access env) (Some bot_login) (metadata issue)"
      "parse_scheduled_workflow (su_body issue) = Inr spec"
      "check_min_interval (ps_calendar env) (run_mode spec) (ps_config env) = Inr ()"
      "run_issue_work_label (ps_lower env) (run_mode spec) (ps_config env) = Inr work_label"
      "accepted (to_ascii_lowercase (rg_creator_login reg)) < cron_max_jobs_per_creator (ps_config env)"
      "comments (su_number issue) = Inr history"
      "planned = plan_schedule (ps_calendar env)
         \<lparr>ob_schedule_issue = su_number issue, ob_labels = su_labels issue, ob_created_at = su_created_at issue,
          ob_spec = spec, ob_records = trusted_records (ps_codec env) bot_login history, ob_work_label = work_label,
          ob_creator_login = rg_creator_login reg\<rparr> now (ps_config env)"
      "accepted' = accepted(to_ascii_lowercase (rg_creator_login reg) :=
         Suc (accepted (to_ascii_lowercase (rg_creator_login reg))))"
proof (cases "authorize_schedule_issue issue (ps_regs env) (ps_access env) (Some bot_login)")
  case (Inl d)
  then show ?thesis using assms rejected by (auto simp: plan_one_def Let_def)
next
  case (Inr p)
  obtain a reg where p: "p = (a, reg)" by (cases p)
  note auth = Inr [unfolded p]
  note facts = auth [unfolded authorize_Inr_iff]
  let ?cfg = "ps_config env" and ?key = "to_ascii_lowercase (rg_creator_login reg)"
  note step = assms [unfolded plan_one_def Let_def, simplified auth, simplified]
  show ?thesis
  proof (cases "parse_scheduled_workflow (su_body issue)")
    case (Inl e)
    then show ?thesis using step facts rejected [of "su_labels issue" "ParseFailed e"] by simp
  next
    case spec: (Inr spec)
    show ?thesis
    proof (cases "check_min_interval (ps_calendar env) (run_mode spec) ?cfg")
      case (Inl e)
      then show ?thesis using step facts spec rejected [of "su_labels issue" e] by simp
    next
      case interval: (Inr u)
      show ?thesis
      proof (cases "run_issue_work_label (ps_lower env) (run_mode spec) ?cfg")
        case (Inl e)
        then show ?thesis using step facts spec interval rejected [of "su_labels issue" e] by simp
      next
        case label: (Inr work_label)
        show ?thesis
        proof (cases "cron_max_jobs_per_creator ?cfg \<le> accepted ?key")
          case True
          then show ?thesis using step facts spec interval label
              rejected [of "su_labels issue" "OverCap (rg_creator_login reg) (cron_max_jobs_per_creator ?cfg)"] by simp
        next
          case False
          with step facts spec interval label obtain history where
              "comments (su_number issue) = Inr history"
            by (auto split: sum.splits)
          then show ?thesis
            using False step facts spec interval label by (intro planned [of reg spec work_label history]) simp_all
        qed
      qed
    qed
  qed
qed

lemma no_dispatch_invalid: "EffDispatch i rq k \<notin> set (plan_invalid n labels d)"
  by (simp add: plan_invalid_def)

lemma plan_issues_split:
  "plan_issues env comments bot_login now (issue # issues) accepted = Inr effects \<longleftrightarrow>
     (\<exists>planned accepted' rest. plan_one env comments bot_login now issue accepted = Inr (planned, accepted') \<and>
        plan_issues env comments bot_login now issues accepted' = Inr rest \<and> effects = planned @ rest)"
  by (auto split: sum.splits prod.splits)

text \<open>What holds of a dispatched run: its definition was read with authority, and the run is the definition's.\<close>

definition run_of_definition :: "pass_env \<Rightarrow> str \<Rightarrow> issue_summary \<Rightarrow> run_issue_request \<Rightarrow> bool" where
  "run_of_definition env bot_login issue rq \<longleftrightarrow>
     (\<exists>reg spec. schedule_owner (metadata issue) (ps_regs env) = Some reg \<and>
        worked_by reg (ps_access env) (Some bot_login) (metadata issue) \<and>
        parse_scheduled_workflow (su_body issue) = Inr spec \<and>
        check_min_interval (ps_calendar env) (run_mode spec) (ps_config env) = Inr () \<and>
        run_issue_work_label (ps_lower env) (run_mode spec) (ps_config env) = Inr (rq_work_label rq) \<and>
        rq_schedule_issue rq = su_number issue \<and> rq_workflow_id rq = workflow_id spec \<and>
        rq_arguments rq = arguments spec \<and> rq_creator_login rq = rg_creator_login reg \<and> \<not> rq_manual rq)"

lemma plan_one_dispatch:
  assumes "plan_one env comments bot_login now issue accepted = Inr (planned, accepted')"
    "EffDispatch i rq k \<in> set planned"
  shows "i = su_number issue \<and> run_of_definition env bot_login issue rq \<and>
    (\<exists>key. key = to_ascii_lowercase (rq_creator_login rq) \<and> accepted key < cron_max_jobs_per_creator (ps_config env) \<and>
       accepted' = accepted(key := Suc (accepted key)))"
  using assms(1)
proof (cases rule: plan_one_cases)
  case (rejected labels detail)
  then show ?thesis using assms(2) no_dispatch_invalid by metis
next
  case (planned reg spec work_label history)
  note d = plan_schedule_Dispatch [OF assms(2) [unfolded planned(8)]]
  then have rq: "rq_creator_login rq = rg_creator_login reg" "rq_schedule_issue rq = su_number issue"
      "rq_workflow_id rq = workflow_id spec" "rq_arguments rq = arguments spec" "rq_work_label rq = work_label"
      "\<not> rq_manual rq" "i = su_number issue"
    by (auto simp: run_request_def dest: arg_cong [where f = rq_creator_login] arg_cong [where f = rq_schedule_issue]
        arg_cong [where f = rq_workflow_id] arg_cong [where f = rq_arguments] arg_cong [where f = rq_work_label]
        arg_cong [where f = rq_manual])
  then show ?thesis using planned(1-6,9) by (auto simp: run_of_definition_def)
qed

lemma plan_issues_dispatch:
  "plan_issues env comments bot_login now issues accepted = Inr effects \<Longrightarrow> EffDispatch i rq k \<in> set effects \<Longrightarrow>
   \<exists>issue \<in> set issues. i = su_number issue \<and> run_of_definition env bot_login issue rq"
proof (induction issues arbitrary: accepted effects)
  case Nil
  then show ?case by simp
next
  case (Cons issue issues)
  from Cons.prems(1) obtain planned accepted' rest where p:
      "plan_one env comments bot_login now issue accepted = Inr (planned, accepted')"
      "plan_issues env comments bot_login now issues accepted' = Inr rest" "effects = planned @ rest"
    unfolding plan_issues_split by blast
  show ?case
  proof (cases "EffDispatch i rq k \<in> set planned")
    case True
    then show ?thesis using plan_one_dispatch [OF p(1)] by auto
  next
    case False
    then have "EffDispatch i rq k \<in> set rest" using Cons.prems(2) p(3) by simp
    then show ?thesis using Cons.IH [OF p(2)] by auto
  qed
qed

section \<open>The cap\<close>

definition dispatched_for :: "str \<Rightarrow> schedule_effect list \<Rightarrow> int set" where
  "dispatched_for key effects =
     {i. \<exists>rq k. EffDispatch i rq k \<in> set effects \<and> to_ascii_lowercase (rq_creator_login rq) = key}"

lemma finite_dispatched: "finite (dispatched_for key effects)"
proof -
  have "dispatched_for key effects \<subseteq> schedule_issue_of ` set effects" by (force simp: dispatched_for_def)
  then show ?thesis by (rule finite_subset) simp
qed

lemma dispatched_append: "dispatched_for key (a @ b) = dispatched_for key a \<union> dispatched_for key b"
  by (auto simp: dispatched_for_def)

lemma plan_one_cap:
  assumes "plan_one env comments bot_login now issue accepted = Inr (planned, accepted')"
  shows "accepted key + card (dispatched_for key planned) \<le> accepted' key"
    "accepted key \<le> cron_max_jobs_per_creator (ps_config env) \<Longrightarrow> accepted' key \<le> cron_max_jobs_per_creator (ps_config env)"
proof -
  have "accepted key \<le> accepted' key"
    using assms by (cases rule: plan_one_cases) auto
  moreover have "accepted key + card (dispatched_for key planned) \<le> accepted' key" if "dispatched_for key planned \<noteq> {}"
  proof -
    obtain i rq k where "EffDispatch i rq k \<in> set planned" "to_ascii_lowercase (rq_creator_login rq) = key"
      using \<open>dispatched_for key planned \<noteq> {}\<close> by (auto simp: dispatched_for_def)
    then have "accepted' key = Suc (accepted key)" using plan_one_dispatch [OF assms] by auto
    moreover have "dispatched_for key planned \<subseteq> {su_number issue}"
      using plan_one_dispatch [OF assms] by (auto simp: dispatched_for_def)
    then have "card (dispatched_for key planned) \<le> 1" using card_mono [of "{su_number issue}"] by simp
    ultimately show ?thesis by simp
  qed
  ultimately show "accepted key + card (dispatched_for key planned) \<le> accepted' key"
    by (cases "dispatched_for key planned = {}") simp_all
  show "accepted' key \<le> cron_max_jobs_per_creator (ps_config env)"
    if "accepted key \<le> cron_max_jobs_per_creator (ps_config env)"
    using assms that by (cases rule: plan_one_cases) (auto simp: Suc_le_eq)
qed

lemma plan_issues_cap:
  "plan_issues env comments bot_login now issues accepted = Inr effects \<Longrightarrow>
   accepted key \<le> cron_max_jobs_per_creator (ps_config env) \<Longrightarrow>
   accepted key + card (dispatched_for key effects) \<le> cron_max_jobs_per_creator (ps_config env)"
proof (induction issues arbitrary: accepted effects)
  case Nil
  then show ?case by (simp add: dispatched_for_def)
next
  case (Cons issue issues)
  from Cons.prems(1) obtain planned accepted' rest where p:
      "plan_one env comments bot_login now issue accepted = Inr (planned, accepted')"
      "plan_issues env comments bot_login now issues accepted' = Inr rest" "effects = planned @ rest"
    unfolding plan_issues_split by blast
  have "accepted' key + card (dispatched_for key rest) \<le> cron_max_jobs_per_creator (ps_config env)"
    using Cons.IH [OF p(2)] plan_one_cap(2) [OF p(1) Cons.prems(2)] .
  moreover have "card (dispatched_for key effects) \<le> card (dispatched_for key planned) + card (dispatched_for key rest)"
    unfolding p(3) dispatched_append by (rule card_Un_le)
  ultimately show ?case using plan_one_cap(1) [OF p(1), of key] by linarith
qed

section \<open>Pending work\<close>

text \<open>What one label holds for a session, when its listing is read.\<close>

definition label_pending :: "(str \<Rightarrow> 'err + issue_summary list) \<Rightarrow> session_registration \<Rightarrow> access_policy \<Rightarrow> str option \<Rightarrow> str \<Rightarrow> bool" where
  "label_pending listing reg access bot_login label \<longleftrightarrow>
     (\<exists>issues. listing label = Inr issues \<and> (\<exists>issue \<in> set issues. worked_by reg access bot_login (metadata issue)))"

lemma has_pending_complete:
  assumes "\<And>l. l \<in> set labels \<Longrightarrow> \<exists>issues. count l = Inr (length issues) \<and> listing l = Inr issues"
  shows "has_pending count listing reg access bot_login labels =
    Inr (\<exists>l \<in> set labels. label_pending listing reg access bot_login l)"
  using assms
proof (induction labels)
  case Nil
  then show ?case by simp
next
  case (Cons l ls)
  obtain issues where i: "count l = Inr (length issues)" "listing l = Inr issues" using Cons.prems by auto
  have "has_pending count listing reg access bot_login ls = Inr (\<exists>l \<in> set ls. label_pending listing reg access bot_login l)"
    using Cons.IH Cons.prems by simp
  then show ?case using i by (auto simp: label_pending_def list_ex_iff)
qed

section \<open>A sample pass\<close>

definition sample_access :: access_policy where
  "sample_access = \<lparr>ap_entries = None, ap_blocked = None, ap_mode = None, ap_global_admins = []\<rparr>"

definition definition_issue :: issue_summary where
  "definition_issue =
     \<lparr>su_number = 12, su_title = lit ''Nightly'', su_body = definition_body sample_spec, su_labels = [SCHEDULED_WORKFLOW_LABEL],
      su_state = lit ''open'', su_assignees = [lit ''Alice''], su_user_login = lit ''alice'', su_user_id = 9, su_created_at = 0\<rparr>"

definition sample_pass :: pass_env where
  "sample_pass =
     \<lparr>ps_calendar = civil_calendar, ps_codec = utc_codec, ps_lower = to_ascii_lowercase, ps_regs = [sample_reg],
      ps_access = sample_access,
      ps_config = \<lparr>cron_min_interval_secs = 300, cron_max_runtime_secs = 3600, cron_max_jobs_per_creator = 1,
        cfg_bot_login = Some (lit ''fkst''), cfg_work_label_namespace = None\<rparr>\<rparr>"

lemma sample_owner: "schedule_owner (metadata definition_issue) [sample_reg] = Some sample_reg"
  by (simp add: schedule_owner_def routed_iff metadata_def definition_issue_def sample_reg_def eq_ignore_ascii_case_def
      to_ascii_lowercase_def ascii_lower_def char_class_defs str_simps)

lemma sample_worked: "worked_by sample_reg sample_access (Some (lit ''fkst'')) (metadata definition_issue)"
proof -
  have "creator_matches (registration_facts sample_reg) 9 (lit ''alice'')"
    by (simp add: creator_matches_def registration_facts_def sample_reg_def)
  moreover have "allows sample_access 9 (lit ''alice'')"
    by (simp add: allows_def sample_access_def effective_model_def is_global_admin_def)
  ultimately show ?thesis
    using sample_owner
    by (auto simp: worked_by_def work_author_tiers definition_issue_def metadata_def dest: schedule_owner_Some(2))
qed

lemma sample_label: "run_issue_work_label to_ascii_lowercase Once (ps_config sample_pass) = Inr WORKFLOW_RUN_LABEL"
proof -
  have "trim (lit ''fkst-workflow-run'') = lit ''fkst-workflow-run''"
    by (rule trim_id) (simp add: trimmed_def is_whitespace_def str_simps)
  then have "validate_effective_label WORKFLOW_RUN_LABEL = Inr ()"
    by (simp add: validate_effective_label_Inr is_control_def GITHUB_LABEL_NAME_MAX_CHARS_def WORKFLOW_RUN_LABEL_def str_simps)
  moreover have "WORKFLOW_RUN_LABEL \<noteq> []" by (simp add: WORKFLOW_RUN_LABEL_def str_simps)
  ultimately show ?thesis
    by (simp add: run_issue_work_label_def sample_pass_def apply_work_label_namespace_def effective_label_def bt_get_def Let_def)
qed

lemma sample_pass_dispatches:
  "\<exists>rq. plan_repo_schedules sample_pass (Inr [definition_issue]) (\<lambda>_. Inr []) 60 = (Inr [EffDispatch 12 rq 0] :: unit + schedule_effect list)"
proof -
  have r: "trusted_records utc_codec bl [] = []" for bl by (simp add: trusted_records_def collect_records_def)
  have a: "authorize_schedule_issue definition_issue [sample_reg] sample_access (Some (lit ''fkst'')) =
      Inr (\<lparr>as_number = 12, as_body = definition_body sample_spec, as_title = lit ''Nightly'',
            as_labels = [SCHEDULED_WORKFLOW_LABEL], as_created_at = 0\<rparr>, sample_reg)"
    using sample_owner sample_worked by (simp add: authorize_Inr_iff definition_issue_def)
  have env: "ps_regs sample_pass = [sample_reg]" "ps_access sample_pass = sample_access"
    "cron_max_jobs_per_creator (ps_config sample_pass) = 1" "ps_lower sample_pass = to_ascii_lowercase"
    "cfg_bot_login (ps_config sample_pass) = Some (lit ''fkst'')" "ps_codec sample_pass = utc_codec"
    by (simp_all add: sample_pass_def)
  have spec: "parse_scheduled_workflow (definition_body sample_spec) = Inr sample_spec" "run_mode sample_spec = Once"
    using parse_definition_body [OF sample_spec_writable] by (simp_all add: sample_spec_def)
  have n: "su_number definition_issue = 12" by (simp add: definition_issue_def)
  have l: "CRON_RUNNING_LABEL \<noteq> SCHEDULED_WORKFLOW_LABEL" "CRON_PAUSED_LABEL \<noteq> SCHEDULED_WORKFLOW_LABEL"
    "SCHEDULE_INVALID_LABEL \<noteq> SCHEDULED_WORKFLOW_LABEL"
    by (simp_all add: reserved_label_defs str_simps)
  show ?thesis
    by (simp add: plan_repo_schedules_def plan_one_def Let_def a env spec sample_label n r check_min_interval_def
        plan_schedule_def action_effects_def build_state_def decide_def due_slot_def open_dispatch_of_def max_opt_def
        count_skipped_def l)
qed

section \<open>What a pass guarantees\<close>

text \<open>
  An issue is read as a definition only when it has exactly one assignee who runs a session on the
  repository, and its author may raise work for the session of the assignee with the lowest trigger issue.
  Title and body have no say: any others are accepted the same way.
\<close>

theorem authorized_definition_is_routed_and_allowed:
  assumes "authorize_schedule_issue issue regs access bot_login = Inr (a, reg)"
  shows "reg \<in> set regs \<and>
    (\<exists>who. su_assignees issue = [who] \<and> eq_ignore_ascii_case who (rg_creator_login reg)) \<and>
    (\<forall>r. r \<in> set regs \<and> eq_ignore_ascii_case (rg_creator_login reg) (rg_creator_login r) \<longrightarrow> rg_trigger_issue reg \<le> rg_trigger_issue r) \<and>
    is_work_author_allowed_with_bot reg access (su_user_id issue) (su_user_login issue) bot_login \<and>
    (\<forall>b t. authorize_schedule_issue (issue\<lparr>su_body := b, su_title := t\<rparr>) regs access bot_login =
       Inr (a\<lparr>as_body := b, as_title := t\<rparr>, reg))"
proof -
  have m: "metadata (issue\<lparr>su_body := b, su_title := t\<rparr>) = metadata issue" for b t by (simp add: metadata_def)
  note facts = assms [unfolded authorize_Inr_iff]
  note owner = schedule_owner_Some [OF conjunct1 [OF facts]]
  obtain who where who: "su_assignees issue = [who]" "eq_ignore_ascii_case who (rg_creator_login reg)"
    using owner(2) by (auto simp: routed_iff metadata_def)
  have "rg_trigger_issue reg \<le> rg_trigger_issue r"
    if r: "r \<in> set regs" "eq_ignore_ascii_case (rg_creator_login reg) (rg_creator_login r)" for r
    using owner(3) [OF r(1)] eq_ignore_ascii_case_trans [OF who(2) r(2)] who(1) by (auto simp: routed_iff metadata_def)
  moreover have "authorize_schedule_issue (issue\<lparr>su_body := b, su_title := t\<rparr>) regs access bot_login =
       Inr (a\<lparr>as_body := b, as_title := t\<rparr>, reg)" for b t
    unfolding authorize_Inr_iff m using facts by simp
  ultimately show ?thesis
    using owner(1) who facts by (auto simp: worked_by_def metadata_def)
qed

theorem authorized_definition_is_routed_and_allowed_witness:
  "\<exists>a. authorize_schedule_issue definition_issue [sample_reg] sample_access (Some (lit ''fkst'')) = Inr (a, sample_reg) \<and>
     authorize_schedule_issue (definition_issue\<lparr>su_body := [], su_title := []\<rparr>) [sample_reg] sample_access (Some (lit ''fkst'')) =
       Inr (a\<lparr>as_body := [], as_title := []\<rparr>, sample_reg)"
proof -
  obtain a where a: "authorize_schedule_issue definition_issue [sample_reg] sample_access (Some (lit ''fkst'')) = Inr (a, sample_reg)"
    using sample_owner sample_worked by (simp add: authorize_Inr_iff)
  then show ?thesis using authorized_definition_is_routed_and_allowed [OF a] by blast
qed

text \<open>
  C16: the clock starts only runs of definitions that were read with authority: the definition is a listed
  issue, its author may raise work for the session that owns it, and the run carries the workflow, arguments,
  creator and label that the body, the session and the run mode give.
\<close>

theorem pass_dispatches_authorized_definitions:
  assumes "plan_repo_schedules env (Inr issues) comments now = Inr effects" "EffDispatch i rq k \<in> set effects"
  shows "\<exists>issue \<in> set issues. \<exists>bot_login. cfg_bot_login (ps_config env) = Some bot_login \<and> i = su_number issue \<and>
    run_of_definition env bot_login issue rq"
proof -
  obtain bot_login where b: "cfg_bot_login (ps_config env) = Some bot_login"
      "plan_issues env comments bot_login now (sort_key su_number issues) (\<lambda>_. 0) = Inr effects"
    using assms by (auto simp: plan_repo_schedules_def split: option.splits if_splits)
  then show ?thesis using plan_issues_dispatch [OF b(2) assms(2)] by auto
qed

theorem pass_dispatches_authorized_definitions_witness:
  "\<exists>rq. plan_repo_schedules sample_pass (Inr [definition_issue]) (\<lambda>_. Inr []) 60 = (Inr [EffDispatch 12 rq 0] :: unit + schedule_effect list) \<and>
     run_of_definition sample_pass (lit ''fkst'') definition_issue rq"
proof -
  obtain rq where rq: "plan_repo_schedules sample_pass (Inr [definition_issue]) (\<lambda>_. Inr []) 60 =
      (Inr [EffDispatch 12 rq 0] :: unit + schedule_effect list)" using sample_pass_dispatches by blast
  have "cfg_bot_login (ps_config sample_pass) = Some (lit ''fkst'')" by (simp add: sample_pass_def)
  then show ?thesis using pass_dispatches_authorized_definitions [OF rq, of 12 rq 0] rq by auto
qed

text \<open>
  In one pass the clock starts runs for at most the configured number of definitions of one creator,
  however their logins are spelled.
\<close>

theorem pass_respects_creator_cap:
  assumes "plan_repo_schedules env listing comments now = Inr effects"
  shows "card (dispatched_for key effects) \<le> cron_max_jobs_per_creator (ps_config env)"
proof -
  have "card (dispatched_for key effects) \<le> cron_max_jobs_per_creator (ps_config env)"
    if "plan_issues env comments bot_login now issues (\<lambda>_. 0) = Inr effects" for bot_login issues
    using plan_issues_cap [OF that, of key] by simp
  moreover have "dispatched_for key [] = {}" by (simp add: dispatched_for_def)
  ultimately show ?thesis
    using assms by (auto simp: plan_repo_schedules_def split: option.splits sum.splits if_splits)
qed

theorem pass_respects_creator_cap_witness:
  "\<exists>rq. plan_repo_schedules sample_pass (Inr [definition_issue]) (\<lambda>_. Inr []) 60 = (Inr [EffDispatch 12 rq 0] :: unit + schedule_effect list) \<and>
     card (dispatched_for (lit ''alice'') [EffDispatch 12 rq 0]) \<le> 1"
proof -
  obtain rq where rq: "plan_repo_schedules sample_pass (Inr [definition_issue]) (\<lambda>_. Inr []) 60 =
      (Inr [EffDispatch 12 rq 0] :: unit + schedule_effect list)" using sample_pass_dispatches by blast
  have "cron_max_jobs_per_creator (ps_config sample_pass) = 1" by (simp add: sample_pass_def)
  then show ?thesis using pass_respects_creator_cap [OF rq, of "lit ''alice''"] rq by auto
qed

text \<open>
  When the counts agree with the listings, a session has pending work exactly when one of its labels
  lists an issue with the session's creator as sole assignee and an author who may raise work for it.
\<close>

theorem has_pending_iff:
  assumes "\<And>l. l \<in> set labels \<Longrightarrow> \<exists>issues. count l = Inr (length issues) \<and> listing l = Inr issues"
  shows "has_pending count listing reg access bot_login labels =
    Inr (\<exists>l \<in> set labels. \<exists>issues. listing l = Inr issues \<and> (\<exists>issue \<in> set issues. worked_by reg access bot_login (metadata issue)))"
  using has_pending_complete [OF assms] by (simp add: label_pending_def)

theorem has_pending_iff_witness:
  "has_pending (\<lambda>_. Inr 1) (\<lambda>_. Inr [definition_issue]) sample_reg sample_access (Some (lit ''fkst'')) [lit ''work''] = (Inr True :: unit + bool)"
  using has_pending_iff [of "[lit ''work'']" "\<lambda>_. Inr 1" "\<lambda>_. Inr [definition_issue] :: unit + issue_summary list" sample_reg
      sample_access "Some (lit ''fkst'')"] sample_worked by simp


lemma sort_key_Nil: "sort_key f xs = [] \<longleftrightarrow> xs = []"
  using length_sort [of f xs] by (simp flip: length_0_conv)

lemma if_bool_swap: "(if \<not> b then x else y) = (if b then y else x)"
  by simp

text \<open>
  A manual run carries the label the clock would give it, and is refused exactly when no trigger issue that
  parses is attributed to its creator.
\<close>

lemma manual_run_label_as_clock:
  "resolve_manual_run_label digest uuid_v5 lower repo triggers creator_login mode cfg =
     (if \<exists>issue \<in> set triggers. \<exists>creator spec. effective_creator (metadata issue) (cfg_bot_login cfg) = Resolved creator \<and>
          parse_trigger_issue_body (su_body issue) = Inr spec \<and> eq_ignore_ascii_case (sc_login creator) creator_login
      then map_err ManualLabel (run_issue_work_label lower mode cfg)
      else Inl (NoActiveSession creator_login))"
proof -
  let ?m = "manual_registration digest uuid_v5 (cfg_bot_login cfg) repo"
  let ?P = "\<lambda>reg. eq_ignore_ascii_case (rg_creator_login reg) creator_login"
  have one: "(\<exists>reg. ?m issue = Some reg \<and> ?P reg) \<longleftrightarrow>
      (\<exists>creator spec. effective_creator (metadata issue) (cfg_bot_login cfg) = Resolved creator \<and>
         parse_trigger_issue_body (su_body issue) = Inr spec \<and> eq_ignore_ascii_case (sc_login creator) creator_login)" for issue
    unfolding manual_registration_def parse_registration_def
    by (cases "effective_creator (metadata issue) (cfg_bot_login cfg)"; cases "parse_trigger_issue_body (su_body issue)") simp_all
  have "sort_key rg_trigger_issue (filter ?P (filter_map ?m triggers)) = [] \<longleftrightarrow> filter ?P (filter_map ?m triggers) = []"
    by (rule sort_key_Nil)
  also have "\<dots> \<longleftrightarrow> \<not> (\<exists>issue \<in> set triggers. \<exists>reg. ?m issue = Some reg \<and> ?P reg)"
    unfolding filter_empty_conv set_filter_map by blast
  finally have "sort_key rg_trigger_issue (filter ?P (filter_map ?m triggers)) = [] \<longleftrightarrow>
      \<not> (\<exists>issue \<in> set triggers. \<exists>creator spec. effective_creator (metadata issue) (cfg_bot_login cfg) = Resolved creator \<and>
         parse_trigger_issue_body (su_body issue) = Inr spec \<and> eq_ignore_ascii_case (sc_login creator) creator_login)"
    unfolding one .
  then show ?thesis unfolding resolve_manual_run_label_def Let_def by (simp only: if_bool_swap)
qed

end
