(* ===== verification/RuntimeIdentity.thy ===== *)
theory RuntimeIdentity
  imports Identity
begin

text \<open>
  Durable attribution of a session runtime (\<open>backend/src/runtime_identity\<close>): the normalized facts and
  what is read back (\<open>mod.rs\<close>), the two key sets with their renderer and reader (\<open>keys.rs\<close>), the backfill
  decision (\<open>merge.rs\<close>), the suppression gate (\<open>gate.rs\<close>), and the Kubernetes patch that carries a decision
  out (\<open>ensure_runtime_identity_impl\<close> of \<open>backend/src/session_backend/k8s/lifecycle.rs\<close>).
\<close>

section \<open>Facts\<close>

datatype runtime_backend_kind = Kubernetes | OpenSandbox

definition backend_kind_as_str :: "runtime_backend_kind \<Rightarrow> str" where
  "backend_kind_as_str k = (case k of Kubernetes \<Rightarrow> lit ''kubernetes'' | OpenSandbox \<Rightarrow> lit ''opensandbox'')"

definition backend_kind_parse :: "str \<Rightarrow> runtime_backend_kind option" where
  "backend_kind_parse value_str = find (\<lambda>k. backend_kind_as_str k = value_str) [Kubernetes, OpenSandbox]"

datatype attribution_source =
    LaunchMetadata | BackfilledCurrentTrigger | PartialMetadata | UnknownLegacy | ConflictSource

definition attribution_source_all :: "attribution_source list" where
  "attribution_source_all = [LaunchMetadata, BackfilledCurrentTrigger, PartialMetadata, UnknownLegacy, ConflictSource]"

definition attribution_source_as_str :: "attribution_source \<Rightarrow> str" where
  "attribution_source_as_str s =
     (case s of
        LaunchMetadata \<Rightarrow> lit ''launch_metadata''
      | BackfilledCurrentTrigger \<Rightarrow> lit ''backfilled_current_trigger''
      | PartialMetadata \<Rightarrow> lit ''partial_metadata''
      | UnknownLegacy \<Rightarrow> lit ''unknown_legacy''
      | ConflictSource \<Rightarrow> lit ''conflict'')"

definition attribution_source_parse :: "str \<Rightarrow> attribution_source option" where
  "attribution_source_parse value_str = find (\<lambda>s. attribution_source_as_str s = value_str) attribution_source_all"

datatype runtime_identity_outcome = Unchanged | Backfilled | OutcomeConflict | OutcomeNotFound

record runtime_identity_metadata =
  rm_creator_id :: "int option"
  rm_creator_login :: str
  rm_trigger_author_id :: int
  rm_trigger_author_login :: str

definition normalize_identity_login :: "str \<Rightarrow> str" where
  "normalize_identity_login login = normalize_login (trim login)"

definition new_identity :: "int option \<Rightarrow> str \<Rightarrow> int \<Rightarrow> str \<Rightarrow> runtime_identity_metadata" where
  "new_identity creator_id creator_login trigger_author_id trigger_author_login =
     \<lparr>rm_creator_id = creator_id, rm_creator_login = normalize_identity_login creator_login,
      rm_trigger_author_id = trigger_author_id,
      rm_trigger_author_login = normalize_identity_login trigger_author_login\<rparr>"

record observed_runtime_identity =
  oi_schema_version :: "str option"
  oi_creator_id :: "int option"
  oi_creator_login :: "str option"
  oi_trigger_author_id :: "int option"
  oi_trigger_author_login :: "str option"
  oi_source :: "str option"
  oi_conflicting :: bool
  oi_malformed :: bool

definition empty_observation :: observed_runtime_identity where
  "empty_observation =
     \<lparr>oi_schema_version = None, oi_creator_id = None, oi_creator_login = None, oi_trigger_author_id = None,
      oi_trigger_author_login = None, oi_source = None, oi_conflicting = False, oi_malformed = False\<rparr>"

definition oi_is_empty :: "observed_runtime_identity \<Rightarrow> bool" where
  "oi_is_empty ob \<longleftrightarrow>
     oi_schema_version ob = None \<and> oi_creator_id ob = None \<and> oi_creator_login ob = None \<and>
     oi_trigger_author_id ob = None \<and> oi_trigger_author_login ob = None"

section \<open>Keys\<close>

definition IDENTITY_SCHEMA_VERSION :: str where "IDENTITY_SCHEMA_VERSION = lit ''1''"
definition SOURCE_LAUNCH_METADATA :: str where "SOURCE_LAUNCH_METADATA = lit ''launch_metadata''"
definition SOURCE_BACKFILLED_CURRENT_TRIGGER :: str where
  "SOURCE_BACKFILLED_CURRENT_TRIGGER = lit ''backfilled_current_trigger''"

definition attribution_source_of :: "observed_runtime_identity \<Rightarrow> attribution_source" where
  "attribution_source_of ob =
     (if oi_conflicting ob then ConflictSource
      else if oi_is_empty ob then UnknownLegacy
      else if \<not> (oi_schema_version ob \<noteq> None \<and> oi_creator_login ob \<noteq> None \<and> oi_trigger_author_id ob \<noteq> None \<and>
                 oi_trigger_author_login ob \<noteq> None \<and> \<not> oi_malformed ob) then PartialMetadata
      else if oi_source ob = Some SOURCE_BACKFILLED_CURRENT_TRIGGER then BackfilledCurrentTrigger
      else LaunchMetadata)"

datatype identity_field = Schema | CreatorId | CreatorLogin | TriggerAuthorId | TriggerAuthorLogin

definition identity_field_as_str :: "identity_field \<Rightarrow> str" where
  "identity_field_as_str f =
     (case f of
        Schema \<Rightarrow> lit ''identity-schema''
      | CreatorId \<Rightarrow> lit ''creator-id''
      | CreatorLogin \<Rightarrow> lit ''creator-login''
      | TriggerAuthorId \<Rightarrow> lit ''trigger-author-id''
      | TriggerAuthorLogin \<Rightarrow> lit ''trigger-author-login'')"

record identity_keys =
  ik_schema :: str
  ik_creator_id :: str
  ik_creator_login :: str
  ik_trigger_author_id :: str
  ik_trigger_author_login :: str
  ik_source :: str
  ik_conflict :: str

definition all_keys :: "identity_keys \<Rightarrow> str list" where
  "all_keys k =
     [ik_schema k, ik_creator_id k, ik_creator_login k, ik_trigger_author_id k, ik_trigger_author_login k,
      ik_source k, ik_conflict k]"

definition K8S_IDENTITY_KEYS :: identity_keys where
  "K8S_IDENTITY_KEYS =
     \<lparr>ik_schema = lit ''fkst.chrono-ai.fun/identity-schema-version'',
      ik_creator_id = lit ''fkst.chrono-ai.fun/creator-id'',
      ik_creator_login = lit ''fkst.chrono-ai.fun/creator-login'',
      ik_trigger_author_id = lit ''fkst.chrono-ai.fun/trigger-author-id'',
      ik_trigger_author_login = lit ''fkst.chrono-ai.fun/trigger-author-login'',
      ik_source = lit ''fkst.chrono-ai.fun/identity-source'',
      ik_conflict = lit ''fkst.chrono-ai.fun/identity-conflict''\<rparr>"

definition OSB_IDENTITY_KEYS :: identity_keys where
  "OSB_IDENTITY_KEYS =
     \<lparr>ik_schema = lit ''fkst-identity-schema'', ik_creator_id = lit ''fkst-creator-id'',
      ik_creator_login = lit ''fkst-creator-login'', ik_trigger_author_id = lit ''fkst-trigger-author-id'',
      ik_trigger_author_login = lit ''fkst-trigger-author-login'', ik_source = lit ''fkst-identity-source'',
      ik_conflict = lit ''fkst-identity-conflict''\<rparr>"

type_synonym runtime_metadata = "(str, str) btree_map"

definition stamp_pairs :: "identity_keys \<Rightarrow> runtime_identity_metadata \<Rightarrow> (str \<times> str) list" where
  "stamp_pairs k identity =
     [(ik_schema k, IDENTITY_SCHEMA_VERSION), (ik_source k, SOURCE_LAUNCH_METADATA)] @
     (case rm_creator_id identity of Some i \<Rightarrow> [(ik_creator_id k, show_int i)] | None \<Rightarrow> []) @
     (if rm_creator_login identity \<noteq> [] then [(ik_creator_login k, rm_creator_login identity)] else []) @
     [(ik_trigger_author_id k, show_int (rm_trigger_author_id identity))] @
     (if rm_trigger_author_login identity \<noteq> [] then [(ik_trigger_author_login k, rm_trigger_author_login identity)]
      else [])"

definition stamped_text :: "str option \<Rightarrow> str option" where
  "stamped_text v = (case v of Some t \<Rightarrow> (if trim t \<noteq> [] then Some (trim t) else None) | None \<Rightarrow> None)"

definition read_id :: "runtime_metadata \<Rightarrow> str \<Rightarrow> int option \<times> bool" where
  "read_id m key =
     (case bt_get m key of
        None \<Rightarrow> (None, False)
      | Some raw \<Rightarrow> (case parse_i64 raw of Some v \<Rightarrow> (Some v, False) | None \<Rightarrow> (None, True)))"

definition read_identity :: "identity_keys \<Rightarrow> runtime_metadata \<Rightarrow> observed_runtime_identity" where
  "read_identity k m =
     (let c = read_id m (ik_creator_id k); a = read_id m (ik_trigger_author_id k)
      in \<lparr>oi_schema_version = bt_get m (ik_schema k), oi_creator_id = fst c,
          oi_creator_login = stamped_text (bt_get m (ik_creator_login k)), oi_trigger_author_id = fst a,
          oi_trigger_author_login = stamped_text (bt_get m (ik_trigger_author_login k)),
          oi_source = stamped_text (bt_get m (ik_source k)),
          oi_conflicting = (stamped_text (bt_get m (ik_conflict k)) \<noteq> None), oi_malformed = (snd c \<or> snd a)\<rparr>)"

section \<open>The backfill decision\<close>

datatype comparison = Exact | CaseInsensitive | Advisory

fun disagrees :: "comparison \<Rightarrow> str \<Rightarrow> str \<Rightarrow> bool" where
  "disagrees Exact existing claimed = (trim existing \<noteq> claimed)"
| "disagrees CaseInsensitive existing claimed = (\<not> eq_ignore_ascii_case (trim existing) claimed)"
| "disagrees Advisory existing claimed = False"

datatype identity_plan =
    Complete
  | Backfill "(str \<times> str) list"
  | Conflict str "(str \<times> str) option"

definition claimed_text :: "str \<Rightarrow> str option" where
  "claimed_text v = (if trim v \<noteq> [] then Some v else None)"

type_synonym identity_claim = "str \<times> identity_field \<times> str option \<times> comparison"

definition identity_claims :: "identity_keys \<Rightarrow> runtime_identity_metadata \<Rightarrow> identity_claim list" where
  "identity_claims k desired =
     [(ik_schema k, Schema, Some IDENTITY_SCHEMA_VERSION, Advisory),
      (ik_creator_id k, CreatorId, map_option show_int (rm_creator_id desired), Exact),
      (ik_creator_login k, CreatorLogin, claimed_text (rm_creator_login desired), CaseInsensitive),
      (ik_trigger_author_id k, TriggerAuthorId, Some (show_int (rm_trigger_author_id desired)), Exact),
      (ik_trigger_author_login k, TriggerAuthorLogin, claimed_text (rm_trigger_author_login desired), CaseInsensitive)]"

text \<open>The loop over the claims: the first disagreement ends it, absent keys collect.\<close>

fun plan_claims ::
  "identity_keys \<Rightarrow> runtime_metadata \<Rightarrow> identity_claim list \<Rightarrow> (str \<times> str) list \<Rightarrow> identity_plan + (str \<times> str) list" where
  "plan_claims k m [] backfill = Inr backfill"
| "plan_claims k m ((key, field, claim, cmp) # claims) backfill =
     (case (bt_get m key, claim) of
        (Some existing, Some claimed) \<Rightarrow>
          (if disagrees cmp existing claimed
           then Inl (Conflict key
             (if bt_get m (ik_conflict k) = None then Some (ik_conflict k, identity_field_as_str field) else None))
           else plan_claims k m claims backfill)
      | (None, Some claimed) \<Rightarrow> plan_claims k m claims (backfill @ [(key, claimed)])
      | (_, None) \<Rightarrow> plan_claims k m claims backfill)"

definition plan_identity :: "identity_keys \<Rightarrow> runtime_metadata \<Rightarrow> runtime_identity_metadata \<Rightarrow> identity_plan" where
  "plan_identity k m desired =
     (case plan_claims k m (identity_claims k desired) [] of
        Inl p \<Rightarrow> p
      | Inr backfill \<Rightarrow>
          (if backfill = [] then Complete
           else Backfill (backfill @
             (if bt_get m (ik_source k) = None then [(ik_source k, SOURCE_BACKFILLED_CURRENT_TRIGGER)] else []))))"

definition login_settled :: "str option \<Rightarrow> str \<Rightarrow> bool" where
  "login_settled observed desired =
     (if trim desired = [] then True
      else case observed of Some t \<Rightarrow> eq_ignore_ascii_case (trim t) desired | None \<Rightarrow> False)"

definition is_settled :: "observed_runtime_identity \<Rightarrow> runtime_identity_metadata \<Rightarrow> bool" where
  "is_settled ob desired =
     (if oi_malformed ob \<or> oi_schema_version ob = None then False
      else if oi_creator_id ob \<noteq> rm_creator_id desired then False
      else login_settled (oi_creator_login ob) (rm_creator_login desired) \<and>
           oi_trigger_author_id ob = Some (rm_trigger_author_id desired) \<and>
           login_settled (oi_trigger_author_login ob) (rm_trigger_author_login desired))"

section \<open>The patch\<close>

text \<open>
  An API call answers, finds nothing (404), or fails. The metadata-only merge patch sets its keys and leaves
  every other key alone.
\<close>

datatype 'a api = ApiOk 'a | ApiNotFound | ApiError

definition merge_patch :: "(str \<times> str) list \<Rightarrow> runtime_metadata \<Rightarrow> runtime_metadata" where
  "merge_patch pairs m = bt.insert_all pairs m"

definition record_identity_conflict :: "unit api \<Rightarrow> str \<times> str \<Rightarrow> runtime_metadata \<Rightarrow> runtime_metadata" where
  "record_identity_conflict patched marker m = (case patched of ApiOk _ \<Rightarrow> merge_patch [marker] m | _ \<Rightarrow> m)"

text \<open>
  The first argument is the answer to the read, the second the answer to the patch. The result is the
  outcome, or \<open>None\<close> for a backend error, and the metadata the runtime has afterwards.
\<close>

definition ensure_runtime_identity ::
  "unit api \<Rightarrow> unit api \<Rightarrow> identity_keys \<Rightarrow> runtime_identity_metadata \<Rightarrow> runtime_metadata \<Rightarrow>
   runtime_identity_outcome option \<times> runtime_metadata" where
  "ensure_runtime_identity got patched k desired m =
     (case got of
        ApiNotFound \<Rightarrow> (Some OutcomeNotFound, m)
      | ApiError \<Rightarrow> (None, m)
      | ApiOk _ \<Rightarrow>
          (case plan_identity k m desired of
             Complete \<Rightarrow> (Some Unchanged, m)
           | Conflict key marker \<Rightarrow>
               (Some OutcomeConflict,
                case marker of Some mk \<Rightarrow> record_identity_conflict patched mk m | None \<Rightarrow> m)
           | Backfill missing \<Rightarrow>
               (case patched of
                  ApiOk _ \<Rightarrow> (Some Backfilled, merge_patch missing m)
                | ApiNotFound \<Rightarrow> (Some OutcomeNotFound, m)
                | ApiError \<Rightarrow> (None, m))))"
section \<open>What a decision writes\<close>

definition wf_keys :: "identity_keys \<Rightarrow> bool" where
  "wf_keys k \<longleftrightarrow> distinct (all_keys k)"

lemma wf_backend_keys: "wf_keys K8S_IDENTITY_KEYS" "wf_keys OSB_IDENTITY_KEYS"
  by (simp_all add: wf_keys_def all_keys_def K8S_IDENTITY_KEYS_def OSB_IDENTITY_KEYS_def str_simps)

lemma bt_get_insert_all:
  "distinct (map fst kvs) \<Longrightarrow>
   bt_get (bt.insert_all kvs m) key = (case map_of kvs key of None \<Rightarrow> bt_get m key | Some v \<Rightarrow> Some v)"
proof (induction kvs arbitrary: m)
  case (Cons p kvs)
  obtain a b where p: "p = (a, b)" by (cases p)
  have "map_of kvs a = None" using Cons.prems p by (auto simp: map_of_eq_None_iff)
  then show ?case using Cons.IH [of "bt_insert a b m"] Cons.prems p
    by (auto simp: bt.insert_all_def split: option.splits)
qed (simp add: bt.insert_all_def)

text \<open>What the loop over the claims fills in, and when it stops at a conflict.\<close>

definition fill_ins :: "runtime_metadata \<Rightarrow> identity_claim list \<Rightarrow> (str \<times> str) list" where
  "fill_ins m cs =
     filter_map (\<lambda>(key, f, claim, cmp). if bt_get m key = None then map_option (Pair key) claim else None) cs"

definition no_disagreement :: "runtime_metadata \<Rightarrow> identity_claim list \<Rightarrow> bool" where
  "no_disagreement m cs \<longleftrightarrow>
     (\<forall>(key, f, claim, cmp) \<in> set cs. \<forall>e c. bt_get m key = Some e \<and> claim = Some c \<longrightarrow> \<not> disagrees cmp e c)"

lemma plan_claims_Inr:
  "plan_claims k m cs acc = Inr out \<longleftrightarrow> no_disagreement m cs \<and> out = acc @ fill_ins m cs"
  by (induction k m cs acc rule: plan_claims.induct)
     (auto simp: no_disagreement_def fill_ins_def split: option.splits)

lemma plan_claims_Inl_conflict:
  "plan_claims k m cs acc = Inl p \<Longrightarrow> \<exists>key f. p = Conflict key
     (if bt_get m (ik_conflict k) = None then Some (ik_conflict k, identity_field_as_str f) else None)"
proof (induction cs arbitrary: acc)
  case (Cons c cs)
  obtain key f claim cmp where c: "c = (key, f, claim, cmp)" by (cases c)
  show ?case
  proof (cases "\<exists>e v. bt_get m key = Some e \<and> claim = Some v \<and> disagrees cmp e v")
    case True
    with Cons.prems c show ?thesis by (intro exI [of _ key] exI [of _ f]) auto
  next
    case False
    with Cons.prems c have "\<exists>acc'. plan_claims k m cs acc' = Inl p" by (auto split: option.splits if_split_asm)
    with Cons.IH show ?thesis by blast
  qed
qed simp

lemma plan_claims_Inl:
  assumes "plan_claims k m cs acc = Inl p"
  shows "\<not> no_disagreement m cs \<and> (\<exists>key f. p = Conflict key
     (if bt_get m (ik_conflict k) = None then Some (ik_conflict k, identity_field_as_str f) else None))"
  using plan_claims_Inl_conflict [OF assms] plan_claims_Inr [of k m cs acc "acc @ fill_ins m cs"] assms by auto

lemma no_disagreement_cong:
  "(\<And>key f c cmp. (key, f, c, cmp) \<in> set cs \<Longrightarrow> bt_get m' key = bt_get m key) \<Longrightarrow>
   no_disagreement m' cs = no_disagreement m cs"
  unfolding no_disagreement_def by (intro ball_cong refl) auto

lemma plan_identity_cases:
  obtains
    (Complete) "plan_identity k m d = Complete" "no_disagreement m (identity_claims k d)"
      "fill_ins m (identity_claims k d) = []"
  | (Backfill) "plan_identity k m d = Backfill (fill_ins m (identity_claims k d) @
        (if bt_get m (ik_source k) = None then [(ik_source k, SOURCE_BACKFILLED_CURRENT_TRIGGER)] else []))"
      "no_disagreement m (identity_claims k d)" "fill_ins m (identity_claims k d) \<noteq> []"
  | (Conflict) key f where "plan_identity k m d = Conflict key
        (if bt_get m (ik_conflict k) = None then Some (ik_conflict k, identity_field_as_str f) else None)"
      "\<not> no_disagreement m (identity_claims k d)"
proof (cases "plan_claims k m (identity_claims k d) []")
  case (Inl p)
  with plan_claims_Inl [OF Inl] that(3) show ?thesis by (auto simp: plan_identity_def)
next
  case (Inr out)
  then have "no_disagreement m (identity_claims k d)" "out = fill_ins m (identity_claims k d)"
    by (simp_all add: plan_claims_Inr)
  with Inr that(1,2) show ?thesis by (cases "out = []") (simp_all add: plan_identity_def)
qed

lemma plan_identity_complete:
  "no_disagreement m (identity_claims k d) \<Longrightarrow> fill_ins m (identity_claims k d) = [] \<Longrightarrow>
   plan_identity k m d = Complete"
  by (cases rule: plan_identity_cases [of k m d]) auto

lemma fill_ins_keys:
  "(key, v) \<in> set (fill_ins m cs) \<longleftrightarrow>
   bt_get m key = None \<and> (\<exists>f cmp. (key, f, Some v, cmp) \<in> set cs)"
  by (induction cs) (auto simp: fill_ins_def split: option.splits if_splits)

lemma claim_keys: "(key, f, c, cmp) \<in> set (identity_claims k d) \<Longrightarrow>
  key \<in> {ik_schema k, ik_creator_id k, ik_creator_login k, ik_trigger_author_id k, ik_trigger_author_login k}"
  by (auto simp: identity_claims_def)

lemma distinct_fill_ins: "wf_keys k \<Longrightarrow> distinct (map fst (fill_ins m (identity_claims k d)))"
  by (auto simp: wf_keys_def all_keys_def fill_ins_def identity_claims_def split: option.splits)

lemma distinct_backfill:
  assumes "wf_keys k"
  shows "distinct (map fst (fill_ins m (identity_claims k d) @ (if b then [(ik_source k, v)] else [])))"
proof -
  have "ik_source k \<notin> fst ` set (fill_ins m (identity_claims k d))"
    using assms by (auto simp: fill_ins_keys wf_keys_def all_keys_def dest!: claim_keys)
  then show ?thesis using distinct_fill_ins [OF assms] by simp
qed

text \<open>A written key was absent before, and is one of the stamp's own keys.\<close>

lemma ensure_writes:
  assumes "wf_keys k" "ensure_runtime_identity got patched k d m = (res, m')"
  obtains kvs where "m' = bt.insert_all kvs m" "distinct (map fst kvs)"
    "\<forall>(key, v) \<in> set kvs. bt_get m key = None \<and> key \<in> set (all_keys k)"
proof (cases rule: plan_identity_cases [of k m d])
  case Complete
  then have "m' = m" using assms(2) by (auto simp: ensure_runtime_identity_def split: api.splits)
  then show ?thesis using that [of "[]"] by (simp add: bt.insert_all_def)
next
  case Backfill
  let ?kvs = "fill_ins m (identity_claims k d) @
        (if bt_get m (ik_source k) = None then [(ik_source k, SOURCE_BACKFILLED_CURRENT_TRIGGER)] else [])"
  have "m' = m \<or> m' = bt.insert_all ?kvs m"
    using assms(2) Backfill by (auto simp: ensure_runtime_identity_def merge_patch_def split: api.splits)
  moreover have "\<forall>(key, v) \<in> set ?kvs. bt_get m key = None \<and> key \<in> set (all_keys k)"
    by (auto simp: fill_ins_keys all_keys_def split: if_splits dest!: claim_keys)
  ultimately show ?thesis using that [of ?kvs] that [of "[]"] distinct_backfill [OF assms(1)]
    by (auto simp: bt.insert_all_def)
next
  case (Conflict key f)
  let ?kvs = "[(ik_conflict k, identity_field_as_str f)]"
  have "m' = m \<or> bt_get m (ik_conflict k) = None \<and> m' = bt.insert_all ?kvs m"
    using assms(2) Conflict
    by (auto simp: ensure_runtime_identity_def record_identity_conflict_def merge_patch_def split: api.splits if_splits)
  then show ?thesis using that [of ?kvs] that [of "[]"] by (auto simp: bt.insert_all_def all_keys_def)
qed

text \<open>
  C11: whatever the backend answers, attribution is never rewritten: every key a runtime carries keeps its
  value, and the only keys ever added are those of the stamp.
\<close>

theorem ensure_never_rewrites:
  assumes "wf_keys k" "ensure_runtime_identity got patched k d m = (res, m')"
  shows "(\<forall>key v. bt_get m key = Some v \<longrightarrow> bt_get m' key = Some v) \<and>
    (\<forall>key. bt_get m' key \<noteq> bt_get m key \<longrightarrow> key \<in> set (all_keys k))"
proof -
  obtain kvs where kvs: "m' = bt.insert_all kvs m" "distinct (map fst kvs)"
    "\<forall>(key, v) \<in> set kvs. bt_get m key = None \<and> key \<in> set (all_keys k)"
    using ensure_writes [OF assms] .
  have "bt_get m' key = (case map_of kvs key of None \<Rightarrow> bt_get m key | Some v \<Rightarrow> Some v)" for key
    unfolding kvs(1) by (rule bt_get_insert_all) (rule kvs(2))
  then show ?thesis using kvs(3) by (auto split: option.splits dest!: map_of_SomeD)
qed

text \<open>The claims of a registration whose logins carry no surrounding blanks agree with themselves.\<close>

definition clean_identity :: "runtime_identity_metadata \<Rightarrow> bool" where
  "clean_identity d \<longleftrightarrow>
     trimmed (rm_creator_login d) \<and> trimmed (rm_trigger_author_login d) \<and>
     i64_range (rm_trigger_author_id d) \<and> (\<forall>i. rm_creator_id d = Some i \<longrightarrow> i64_range i)"

lemma trimmed_show_int: "trimmed (show_int i)"
proof -
  have d: "\<not> is_whitespace c" if "is_ascii_digit c" for c
    using that by (auto simp: is_whitespace_def is_ascii_digit_def)
  have h: "\<not> is_whitespace (hd (show_nat n))" "\<not> is_whitespace (last (show_nat n))" for n
    by (simp_all add: d show_nat_digits [of _ n])
  have "\<not> is_whitespace 45" by (simp add: is_whitespace_def)
  then show ?thesis by (auto simp: trimmed_def show_int_def h)
qed

lemma claims_agree:
  assumes "clean_identity d" "(key, f, Some v, cmp) \<in> set (identity_claims k d)"
  shows "\<not> disagrees cmp v v"
  using assms
  by (auto simp: identity_claims_def clean_identity_def claimed_text_def trim_id trimmed_show_int
      split: if_split_asm dest!: sym [of "Some v"])

lemma claims_distinct:
  assumes "wf_keys k" "(key, f, c, cmp) \<in> set (identity_claims k d)" "(key, f', c', cmp') \<in> set (identity_claims k d)"
  shows "f = f' \<and> c = c' \<and> cmp = cmp'"
  using assms by (auto simp: identity_claims_def wf_keys_def all_keys_def)

lemma map_of_fill_ins:
  assumes "wf_keys k" "(key, f, c, cmp) \<in> set (identity_claims k d)"
  shows "map_of (fill_ins m (identity_claims k d) @ (if b then [(ik_source k, s)] else [])) key =
    (if bt_get m key = None then c else None)"
proof -
  have src: "key \<noteq> ik_source k" using assms by (auto simp: wf_keys_def all_keys_def dest!: claim_keys)
  have iff: "(key, v) \<in> set (fill_ins m (identity_claims k d)) \<longleftrightarrow> bt_get m key = None \<and> c = Some v" for v
    using claims_distinct [OF assms] assms(2) unfolding fill_ins_keys by blast
  have "map_of (fill_ins m (identity_claims k d)) key = (if bt_get m key = None then c else None)"
  proof (cases "bt_get m key = None \<and> c \<noteq> None")
    case True
    then obtain v where "c = Some v" by auto
    with True iff [of v] have "(key, v) \<in> set (fill_ins m (identity_claims k d))" by simp
    with distinct_fill_ins [OF assms(1)] True \<open>c = Some v\<close> show ?thesis by simp
  next
    case False
    then have "key \<notin> fst ` set (fill_ins m (identity_claims k d))" using iff by auto
    then show ?thesis using False by (auto simp: map_of_eq_None_iff)
  qed
  then show ?thesis using src by (simp add: map_add_def split: option.splits)
qed

lemma backfill_completes:
  assumes "wf_keys k" "clean_identity d" "no_disagreement m (identity_claims k d)"
    "m' = bt.insert_all (fill_ins m (identity_claims k d) @ (if b then [(ik_source k, s)] else [])) m"
  shows "plan_identity k m' d = Complete"
proof (rule plan_identity_complete)
  have get: "bt_get m' key = (if bt_get m key = None then c else bt_get m key)"
    if "(key, f, c, cmp) \<in> set (identity_claims k d)" for key f c cmp
    unfolding assms(4) bt_get_insert_all [OF distinct_backfill [OF assms(1)]] map_of_fill_ins [OF assms(1) that]
    by (simp split: option.splits)
  show "no_disagreement m' (identity_claims k d)"
    unfolding no_disagreement_def
  proof (clarify, goal_cases)
    case (1 key f cmp e c)
    then show ?case using get [OF 1(1)] assms(3) claims_agree [OF assms(2) 1(1)]
      by (fastforce simp: no_disagreement_def split: if_split_asm)
  qed
  show "fill_ins m' (identity_claims k d) = []"
  proof (rule ccontr)
    assume "fill_ins m' (identity_claims k d) \<noteq> []"
    then obtain key v where "(key, v) \<in> set (fill_ins m' (identity_claims k d))"
      by (cases "fill_ins m' (identity_claims k d)") auto
    then obtain f cmp where "bt_get m' key = None" "(key, f, Some v, cmp) \<in> set (identity_claims k d)"
      by (auto simp: fill_ins_keys)
    then show False using get by (auto split: if_split_asm)
  qed
qed

text \<open>
  The sweep settles: once a decision was written, deciding again from the same registration writes
  nothing. A backfilled runtime is then complete, a disputed one keeps its first marker.
\<close>

theorem ensure_idempotent:
  assumes "wf_keys k" "clean_identity d" "ensure_runtime_identity (ApiOk ()) (ApiOk ()) k d m = (res, m')"
  shows "snd (ensure_runtime_identity got patched k d m') = m' \<and>
    (res = Some OutcomeConflict \<longrightarrow> oi_conflicting (read_identity k m') \<or> bt_get m (ik_conflict k) \<noteq> None) \<and>
    (res \<noteq> Some OutcomeConflict \<longrightarrow> plan_identity k m' d = Complete)"
proof (cases rule: plan_identity_cases [of k m d])
  case Complete
  then show ?thesis using assms(3)
    by (auto simp: ensure_runtime_identity_def split: api.splits)
next
  case Backfill
  then have "res = Some Backfilled" "plan_identity k m' d = Complete"
    using assms(3) backfill_completes [OF assms(1,2), of m m'] by (auto simp: ensure_runtime_identity_def merge_patch_def)
  then show ?thesis by (auto simp: ensure_runtime_identity_def split: api.splits)
next
  case (Conflict key f)
  have m': "m' = (if bt_get m (ik_conflict k) = None then bt_insert (ik_conflict k) (identity_field_as_str f) m else m)"
    and res: "res = Some OutcomeConflict"
    using Conflict assms(3)
    by (auto simp: ensure_runtime_identity_def record_identity_conflict_def merge_patch_def bt.insert_all_def split: if_split_asm)
  have "key' \<noteq> ik_conflict k" if "(key', f', c, cmp) \<in> set (identity_claims k d)" for key' f' c cmp
    using assms(1) that by (auto simp: wf_keys_def all_keys_def dest!: claim_keys)
  then have "\<not> no_disagreement m' (identity_claims k d)"
    using Conflict(2) no_disagreement_cong [of "identity_claims k d" m' m] m' by (auto split: if_split_asm)
  moreover have "bt_get m' (ik_conflict k) \<noteq> None" by (simp add: m')
  ultimately have "\<exists>key. plan_identity k m' d = Conflict key None"
    by (cases rule: plan_identity_cases [of k m' d]) auto
  moreover have "stamped_text (Some (identity_field_as_str f)) \<noteq> None"
    by (cases f) (simp_all add: stamped_text_def identity_field_as_str_def str_simps trim_def trim_start_def trim_end_def is_whitespace_def)
  ultimately show ?thesis using res
    by (auto simp: ensure_runtime_identity_def read_identity_def Let_def m' split: api.splits)
qed

section \<open>Stamping and reading back\<close>

lemma distinct_stamp: "wf_keys k \<Longrightarrow> distinct (map fst (stamp_pairs k d))"
  by (auto simp: wf_keys_def all_keys_def stamp_pairs_def split: option.splits)

lemma stamp_lookup:
  assumes "wf_keys k"
  shows "map_of (stamp_pairs k d) (ik_schema k) = Some IDENTITY_SCHEMA_VERSION"
    "map_of (stamp_pairs k d) (ik_source k) = Some SOURCE_LAUNCH_METADATA"
    "map_of (stamp_pairs k d) (ik_creator_id k) = map_option show_int (rm_creator_id d)"
    "map_of (stamp_pairs k d) (ik_creator_login k) = (if rm_creator_login d = [] then None else Some (rm_creator_login d))"
    "map_of (stamp_pairs k d) (ik_trigger_author_id k) = Some (show_int (rm_trigger_author_id d))"
    "map_of (stamp_pairs k d) (ik_trigger_author_login k) =
       (if rm_trigger_author_login d = [] then None else Some (rm_trigger_author_login d))"
    "map_of (stamp_pairs k d) (ik_conflict k) = None"
  using assms by (auto simp: wf_keys_def all_keys_def stamp_pairs_def split: option.splits)

lemma read_id_canonical:
  "bt_get m key = map_option show_int i \<Longrightarrow> (\<And>j. i = Some j \<Longrightarrow> i64_range j) \<Longrightarrow> read_id m key = (i, False)"
  by (cases i) (auto simp: read_id_def parse_i64_show_int)

definition some_text :: "str \<Rightarrow> str option" where
  "some_text s = (if s = [] then None else Some s)"

lemma stamped_text_some: "trimmed s \<Longrightarrow> stamped_text (if s = [] then None else Some s) = some_text s"
  by (auto simp: stamped_text_def some_text_def trim_id)

lemma stamped_markers:
  "stamped_text (Some SOURCE_LAUNCH_METADATA) = Some SOURCE_LAUNCH_METADATA" "stamped_text None = None"
  by (simp_all add: stamped_text_def SOURCE_LAUNCH_METADATA_def str_simps trim_def trim_start_def trim_end_def is_whitespace_def)

text \<open>
  Reading inverts stamping: a runtime stamped at launch reads back exactly the facts of its
  registration, on both backends and beside any other metadata; a missing creator id is read as missing
  and never borrowed from the author, and the pass that follows finds the stamp settled.
\<close>

theorem stamp_read_back:
  assumes "wf_keys k" "clean_identity d" "\<forall>key \<in> set (all_keys k). bt_get m key = None"
  shows "read_identity k (bt.insert_all (stamp_pairs k d) m) =
     \<lparr>oi_schema_version = Some IDENTITY_SCHEMA_VERSION, oi_creator_id = rm_creator_id d,
      oi_creator_login = some_text (rm_creator_login d), oi_trigger_author_id = Some (rm_trigger_author_id d),
      oi_trigger_author_login = some_text (rm_trigger_author_login d), oi_source = Some SOURCE_LAUNCH_METADATA,
      oi_conflicting = False, oi_malformed = False\<rparr> \<and>
    is_settled (read_identity k (bt.insert_all (stamp_pairs k d) m)) d"
    (is "?read = ?facts \<and> _")
proof -
  let ?m = "bt.insert_all (stamp_pairs k d) m"
  have abs: "bt_get m (ik_conflict k) = None" "bt_get m (ik_creator_id k) = None" "bt_get m (ik_creator_login k) = None"
    "bt_get m (ik_trigger_author_login k) = None"
    using assms(3) by (simp_all add: all_keys_def)
  note get = bt_get_insert_all [OF distinct_stamp [OF assms(1)]] stamp_lookup [OF assms(1)] abs
  have ids: "read_id ?m (ik_creator_id k) = (rm_creator_id d, False)"
    "read_id ?m (ik_trigger_author_id k) = (Some (rm_trigger_author_id d), False)"
    using assms(2) by (auto simp: get clean_identity_def intro!: read_id_canonical split: option.splits)
  have logins: "stamped_text (bt_get ?m (ik_creator_login k)) = some_text (rm_creator_login d)"
    "stamped_text (bt_get ?m (ik_trigger_author_login k)) = some_text (rm_trigger_author_login d)"
    using assms(2) by (auto simp: get clean_identity_def some_text_def stamped_text_def trim_id)
  have rest: "bt_get ?m (ik_schema k) = Some IDENTITY_SCHEMA_VERSION" "bt_get ?m (ik_source k) = Some SOURCE_LAUNCH_METADATA"
    "bt_get ?m (ik_conflict k) = None"
    by (simp_all add: get)
  have read: "?read = ?facts"
    using ids logins rest stamped_markers by (simp add: read_identity_def Let_def)
  have "login_settled (some_text l) l" if "trimmed l" for l
    using that by (auto simp: login_settled_def some_text_def trim_id)
  then show ?thesis unfolding read using assms(2) by (simp add: is_settled_def clean_identity_def)
qed

definition sample_identity :: runtime_identity_metadata where
  "sample_identity =
     \<lparr>rm_creator_id = None, rm_creator_login = lit ''alice'', rm_trigger_author_id = 7,
      rm_trigger_author_login = lit ''fkst-cloud''\<rparr>"

lemma clean_sample: "clean_identity sample_identity"
  by (simp add: clean_identity_def sample_identity_def trimmed_def is_whitespace_def str_simps i64_range_def)

theorem stamp_read_back_witness:
  "oi_creator_id (read_identity K8S_IDENTITY_KEYS (bt.insert_all (stamp_pairs K8S_IDENTITY_KEYS sample_identity) [])) = None
   \<and> is_settled (read_identity K8S_IDENTITY_KEYS (bt.insert_all (stamp_pairs K8S_IDENTITY_KEYS sample_identity) []))
       sample_identity"
proof -
  let ?m = "[] :: runtime_metadata"
  have e: "\<forall>key \<in> set (all_keys K8S_IDENTITY_KEYS). bt_get ?m key = None" by simp
  note r = stamp_read_back [OF wf_backend_keys(1) clean_sample e]
  have "oi_creator_id (read_identity K8S_IDENTITY_KEYS (bt.insert_all (stamp_pairs K8S_IDENTITY_KEYS sample_identity) ?m)) = None"
    unfolding conjunct1 [OF r] by (simp add: sample_identity_def)
  then show ?thesis using conjunct2 [OF r] by blast
qed

text \<open>A runtime stamped for somebody else, and what the sweep makes of it.\<close>

definition foreign_stamp :: runtime_metadata where
  "foreign_stamp = [(lit ''fkst-creator-login'', lit ''mallory'')]"

lemma foreign_plan:
  "ensure_runtime_identity (ApiOk ()) (ApiOk ()) OSB_IDENTITY_KEYS sample_identity foreign_stamp =
     (Some OutcomeConflict, bt_insert (lit ''fkst-identity-conflict'') (lit ''creator-login'') foreign_stamp)"
  by (simp add: ensure_runtime_identity_def plan_identity_def identity_claims_def OSB_IDENTITY_KEYS_def sample_identity_def
      foreign_stamp_def bt_get_def claimed_text_def trim_def trim_start_def trim_end_def is_whitespace_def str_simps
      eq_ignore_ascii_case_def to_ascii_lowercase_def ascii_lower_def is_ascii_uppercase_def
      record_identity_conflict_def merge_patch_def bt.insert_all_def identity_field_as_str_def)

theorem ensure_never_rewrites_witness:
  "bt_get (snd (ensure_runtime_identity (ApiOk ()) (ApiOk ()) OSB_IDENTITY_KEYS sample_identity foreign_stamp))
     (lit ''fkst-creator-login'') = Some (lit ''mallory'')"
proof -
  have "bt_get foreign_stamp (lit ''fkst-creator-login'') = Some (lit ''mallory'')"
    by (simp add: foreign_stamp_def bt_get_def)
  then show ?thesis using ensure_never_rewrites [OF wf_backend_keys(2) foreign_plan] foreign_plan by simp
qed

theorem ensure_idempotent_witness:
  "snd (ensure_runtime_identity (ApiOk ()) ApiError OSB_IDENTITY_KEYS sample_identity
     (bt_insert (lit ''fkst-identity-conflict'') (lit ''creator-login'') foreign_stamp)) =
   bt_insert (lit ''fkst-identity-conflict'') (lit ''creator-login'') foreign_stamp"
  using ensure_idempotent [OF wf_backend_keys(2) clean_sample foreign_plan] by blast

section \<open>The suppression gate\<close>

text \<open>
  The gate maps parked sessions to the instant they are released. Instants are integers; the largest
  instant the platform represents is a parameter, beyond which an addition falls back to the short cooldown.
\<close>

definition SECOND :: int where "SECOND = 1000000000"
definition PERMANENT_COOLDOWN :: int where "PERMANENT_COOLDOWN = 3600 * SECOND"
definition SETTLE_COOLDOWN :: int where "SETTLE_COOLDOWN = 60 * SECOND"
definition MAX_ENTRIES :: nat where "MAX_ENTRIES = 4096"

type_synonym identity_gate = "(str, int) btree_map"

definition gate_retain :: "int \<Rightarrow> identity_gate \<Rightarrow> identity_gate" where
  "gate_retain now g = filter (\<lambda>(s, until). now < until) g"

definition gate_allow :: "int \<Rightarrow> str \<Rightarrow> identity_gate \<Rightarrow> bool \<times> identity_gate" where
  "gate_allow now session_id g =
     (let g' = gate_retain now g in (bt_get g' session_id = None, g'))"

definition gate_until :: "int \<Rightarrow> int \<Rightarrow> int \<Rightarrow> int" where
  "gate_until lim now cooldown = (if now + cooldown \<le> lim then now + cooldown else now + SETTLE_COOLDOWN)"

definition gate_suppress :: "int \<Rightarrow> int \<Rightarrow> str \<Rightarrow> int \<Rightarrow> identity_gate \<Rightarrow> identity_gate" where
  "gate_suppress lim now session_id cooldown g =
     (let until = gate_until lim now cooldown;
          kept = gate_retain now g;
          room = (if MAX_ENTRIES \<le> length kept \<and> bt_get kept session_id = None then [] else kept)
      in bt_insert session_id
           (case bt_get room session_id of Some existing \<Rightarrow> (if existing < until then until else existing) | None \<Rightarrow> until)
           room)"

definition gate_len :: "int \<Rightarrow> identity_gate \<Rightarrow> nat" where
  "gate_len now g = length (gate_retain now g)"

definition gate_is_empty :: "int \<Rightarrow> identity_gate \<Rightarrow> bool" where
  "gate_is_empty now g \<longleftrightarrow> gate_len now g = 0"

definition wf_gate :: "identity_gate \<Rightarrow> bool" where
  "wf_gate g \<longleftrightarrow> bt_sorted g \<and> length g \<le> MAX_ENTRIES"

lemma bt_sorted_filter: "bt_sorted m \<Longrightarrow> bt_sorted (filter P m)"
  unfolding bt_sorted_def by (induction m) auto

lemma bt_get_filter:
  "bt_sorted m \<Longrightarrow> bt_get (filter (\<lambda>(k, v). Q v) m) k = (case bt_get m k of Some v \<Rightarrow> (if Q v then Some v else None) | None \<Rightarrow> None)"
proof (induction m)
  case (Cons p m)
  obtain a b where p: "p = (a, b)" by (cases p)
  have s: "bt_sorted m" and a: "\<forall>x \<in> fst ` set m. a < x" using Cons.prems p by (auto simp: bt_sorted_def)
  then have "map_of m a = None" "map_of (filter (\<lambda>(k, v). Q v) m) a = None" by (force simp: map_of_eq_None_iff)+
  then show ?case using Cons.IH [OF s] p by (auto simp: bt_get_def split: option.splits)
qed simp

lemma wf_gate_retain: "wf_gate g \<Longrightarrow> wf_gate (gate_retain now g)"
  unfolding wf_gate_def gate_retain_def using bt_sorted_filter length_filter_le order_trans by metis

lemma wf_gate_suppress: "wf_gate g \<Longrightarrow> wf_gate (gate_suppress lim now s c g)"
proof -
  assume "wf_gate g"
  then have w: "wf_gate (gate_retain now g)" by (rule wf_gate_retain)
  let ?kept = "gate_retain now g"
  let ?room = "if MAX_ENTRIES \<le> length ?kept \<and> bt_get ?kept s = None then [] else ?kept"
  have r: "bt_sorted ?room" using w by (simp add: wf_gate_def bt_sorted_def)
  have "length (bt_insert s v ?room) \<le> MAX_ENTRIES" for v
    unfolding length_bt_insert [OF r] using w by (auto simp: wf_gate_def MAX_ENTRIES_def)
  then show ?thesis using r by (simp add: gate_suppress_def wf_gate_def Let_def bt_sorted_insert)
qed

text \<open>
  A parked session stays parked for its whole cooldown, a later shorter cooldown never releases it
  early, and the gate never tracks more than its cap of sessions.
\<close>

theorem gate_parks:
  assumes "wf_gate g" "now + c \<le> lim"
    "g' = gate_suppress lim now s c g" "now \<le> t" "t < now + c"
  shows "wf_gate g' \<and> \<not> fst (gate_allow t s g') \<and>
    (\<forall>c' t'. now \<le> t' \<and> t' \<le> t \<longrightarrow> \<not> fst (gate_allow t s (gate_suppress lim t' s c' g')))"
proof -
  have w: "wf_gate g'" unfolding assms(3) by (rule wf_gate_suppress) (rule assms(1))
  obtain u where u: "bt_get g' s = Some u" "now + c \<le> u"
    using assms(2,3) by (auto simp: gate_suppress_def gate_until_def Let_def split: option.splits)
  have parked: "\<not> fst (gate_allow t s h)" if "wf_gate h" "bt_get h s = Some v" "now + c \<le> v" for h v
    using that assms(5) bt_get_filter [of h "\<lambda>u. t < u" s]
    by (simp add: gate_allow_def gate_retain_def wf_gate_def Let_def)
  have "\<exists>v. bt_get (gate_suppress lim t' s c' g') s = Some v \<and> now + c \<le> v" if "t' \<le> t" for c' t'
  proof -
    have "t' < u" using u assms(5) that by simp
    then have "bt_get (gate_retain t' g') s = Some u"
      using bt_get_filter [of g' "\<lambda>u. t' < u" s] w u by (simp add: gate_retain_def wf_gate_def)
    then show ?thesis using u(2) by (auto simp: gate_suppress_def Let_def)
  qed
  then show ?thesis using w parked u wf_gate_suppress [OF w] by blast
qed

theorem gate_parks_witness:
  "\<not> fst (gate_allow (59 * SECOND) (lit ''s1'')
      (gate_suppress (10 ^ 18) SECOND (lit ''s1'') SETTLE_COOLDOWN (gate_suppress (10 ^ 18) 0 (lit ''s1'') PERMANENT_COOLDOWN [])))"
proof -
  have "wf_gate []" by (simp add: wf_gate_def bt_sorted_def)
  then show ?thesis
    using gate_parks [of "[]" 0 PERMANENT_COOLDOWN "10 ^ 18" "gate_suppress (10 ^ 18) 0 (lit ''s1'') PERMANENT_COOLDOWN []"
        "lit ''s1''" "59 * SECOND"]
    by (simp add: PERMANENT_COOLDOWN_def SECOND_def)
qed

end
