(* ===== verification/Desired.thy ===== *)
theory Desired
  imports Registration RuntimeIdentity Cron Labels
begin

text \<open>
  The planner of the reconciler: observed runtimes, actions and \<open>plan_repo\<close> of
  \<open>backend/src/reconcile/desired.rs\<close>, the audit facts of a deletion
  (\<open>backend/src/reconcile/runtime_audit.rs\<close>) and the demotions that run before it
  (\<open>backend/src/reconcile/collision.rs\<close>).

  A \<open>HashMap\<close> is a map, a \<open>HashSet\<close> the list of its elements in an arbitrary order. The planner sorts
  wherever it iterates over one.
\<close>

section \<open>Observed runtimes\<close>

datatype pod_liveness = Absent | Starting | Live | Terminating | Terminal

record live_pod =
  lp_session_id :: str
  lp_trigger_issue :: int
  lp_liveness :: pod_liveness
  lp_created_at :: instant
  lp_last_pending_at :: "instant option"
  lp_config_hash :: "str option"
  lp_work_labels :: "str list"
  lp_identity :: observed_runtime_identity

datatype kill_reason = Idle | ConfigChanged | TriggerClosed

record runtime_audit =
  ra_created_at :: "instant option"
  ra_installation_id :: "int option"
  ra_trigger_issue :: "int option"
  ra_creator_id :: "int option"
  ra_creator_login :: "str option"
  ra_trigger_author_id :: "int option"
  ra_trigger_author_login :: "str option"

definition non_empty :: "str \<Rightarrow> str option" where
  "non_empty v = (if v \<noteq> [] then Some v else None)"

definition audit_from_registration :: "session_registration \<Rightarrow> live_pod option \<Rightarrow> runtime_audit" where
  "audit_from_registration reg pod =
     (let identity = new_identity (rg_creator_id reg) (rg_creator_login reg) (rg_trigger_author_id reg)
            (rg_trigger_author_login reg)
      in \<lparr>ra_created_at = map_option lp_created_at pod, ra_installation_id = Some (rg_installation_id reg),
          ra_trigger_issue = Some (rg_trigger_issue reg), ra_creator_id = rm_creator_id identity,
          ra_creator_login = non_empty (rm_creator_login identity),
          ra_trigger_author_id = Some (rm_trigger_author_id identity),
          ra_trigger_author_login = non_empty (rm_trigger_author_login identity)\<rparr>)"

definition audit_from_observed :: "live_pod \<Rightarrow> runtime_audit" where
  "audit_from_observed pod =
     \<lparr>ra_created_at = Some (lp_created_at pod), ra_installation_id = None,
      ra_trigger_issue = (if lp_trigger_issue pod \<noteq> 0 then Some (lp_trigger_issue pod) else None),
      ra_creator_id = oi_creator_id (lp_identity pod), ra_creator_login = oi_creator_login (lp_identity pod),
      ra_trigger_author_id = oi_trigger_author_id (lp_identity pod),
      ra_trigger_author_login = oi_trigger_author_login (lp_identity pod)\<rparr>"

section \<open>Actions\<close>

record announcement =
  an_trigger_issue :: int
  an_session_id :: str
  an_session_name :: str
  an_work_label :: "str option"
  an_detected_work_labels :: "str list"
  an_packages :: "str list"
  an_environment :: "str option"
  an_source_branch :: "str option"
  an_target_branch :: str
  an_package_env :: package_env
  an_auto_merge :: bool
  an_creator_login :: str
  an_full_config_hash :: str

datatype reconcile_action =
    Spawn session_registration "str list"
  | TouchPending str
  | RecoverCredentials session_registration "str list"
  | Kill str kill_reason runtime_audit
  | CleanupTerminal str runtime_audit
  | RetireWorkIssues "str list"
  | FlagInvalid int str
  | ClearInvalid int
  | FlagTriggerUnauthorized int str
  | ClearTriggerUnauthorized int
  | AnnounceSession announcement
  | RejectConfigChange int

definition DEFAULT_TARGET_BRANCH :: str where "DEFAULT_TARGET_BRANCH = lit ''fkst-hosted-default''"

section \<open>The planner\<close>

record plan_config =
  session_idle_grace_secs :: nat
  pod_min_lifetime_secs :: nat
  pc_work_label_namespace :: "str option"

definition idle_kill_due :: "live_pod \<Rightarrow> instant \<Rightarrow> plan_config \<Rightarrow> bool" where
  "idle_kill_due pod now cfg =
     (let idle_since = (case lp_last_pending_at pod of Some t \<Rightarrow> t | None \<Rightarrow> lp_created_at pod)
      in int (session_idle_grace_secs cfg) * NANOS_PER_SEC \<le> now - idle_since \<and>
         int (pod_min_lifetime_secs cfg) * NANOS_PER_SEC \<le> now - lp_created_at pod)"

definition config_drifted :: "(json \<Rightarrow> str) \<Rightarrow> live_pod \<Rightarrow> session_registration \<Rightarrow> plan_config \<Rightarrow> bool" where
  "config_drifted digest pod reg cfg =
     (let expected = runtime_config_hash digest (rg_config_hash reg) (pc_work_label_namespace cfg)
      in case lp_config_hash pod of Some h \<Rightarrow> h \<noteq> expected | None \<Rightarrow> False)"

definition config_change_rejected :: "(json \<Rightarrow> str) \<Rightarrow> session_registration \<Rightarrow> (int \<rightharpoonup> str) \<Rightarrow> bool" where
  "config_change_rejected digest reg latched =
     (case latched (rg_trigger_issue reg) of Some original \<Rightarrow> full_config_hash digest reg \<noteq> original | None \<Rightarrow> False)"

text \<open>Everything \<open>plan_repo\<close> reads, as its parameters.\<close>

record plan_input =
  in_regs :: "session_registration list"
  in_work_labels :: "str \<rightharpoonup> str list"
  in_invalid :: "(int \<times> str) list"
  in_live :: "live_pod list"
  in_pending :: "str \<rightharpoonup> bool"
  in_latched_invalid :: "int list"
  in_latched_announced :: "int list"
  in_latched_config_hash :: "int \<rightharpoonup> str"
  in_latched_config_rejected :: "int list"
  in_now :: instant
  in_cfg :: plan_config

text \<open>A map collected from a sequence keeps the last entry of a key.\<close>

definition live_by_session :: "live_pod list \<Rightarrow> str \<Rightarrow> live_pod option" where
  "live_by_session live s = map_of (rev (map (\<lambda>p. (lp_session_id p, p)) live)) s"

definition detected :: "plan_input \<Rightarrow> str \<Rightarrow> str list" where
  "detected inp s = (case in_work_labels inp s of Some ls \<Rightarrow> ls | None \<Rightarrow> [])"

definition registration_actions :: "(json \<Rightarrow> str) \<Rightarrow> plan_input \<Rightarrow> session_registration \<Rightarrow> reconcile_action list" where
  "registration_actions digest inp reg =
     (let s = rg_session_id reg;
          pod = live_by_session (in_live inp) s;
          liveness = (case pod of Some p \<Rightarrow> lp_liveness p | None \<Rightarrow> Absent);
          is_pending = (case in_pending inp s of Some b \<Rightarrow> b | None \<Rightarrow> False);
          rejected = config_change_rejected digest reg (in_latched_config_hash inp)
      in case liveness of
           Absent \<Rightarrow> (if is_pending \<and> \<not> rejected then [Spawn reg (detected inp s)] else [])
         | Terminating \<Rightarrow> []
         | Terminal \<Rightarrow> [CleanupTerminal s (audit_from_registration reg pod)]
         | _ \<Rightarrow>
             (case pod of
                None \<Rightarrow> []
              | Some p \<Rightarrow>
                  if config_drifted digest p reg (in_cfg inp) \<and> \<not> rejected
                  then [Kill s ConfigChanged (audit_from_registration reg (Some p))]
                  else if is_pending
                  then TouchPending s # (if \<not> rejected then [RecoverCredentials reg (detected inp s)] else [])
                  else if idle_kill_due p (in_now inp) (in_cfg inp)
                  then [Kill s Idle (audit_from_registration reg (Some p))]
                  else []))"

definition announce_actions :: "(json \<Rightarrow> str) \<Rightarrow> plan_input \<Rightarrow> session_registration \<Rightarrow> reconcile_action list" where
  "announce_actions digest inp reg =
     (if rg_trigger_issue reg \<in> set (in_latched_announced inp) then []
      else [AnnounceSession
        \<lparr>an_trigger_issue = rg_trigger_issue reg, an_session_id = rg_session_id reg,
         an_session_name = df_name (rg_def reg), an_work_label = df_work_label (rg_def reg),
         an_detected_work_labels = detected inp (rg_session_id reg),
         an_packages = map render_ref (df_packages (rg_def reg)), an_environment = df_environment (rg_def reg),
         an_source_branch = df_source_branch (rg_def reg),
         an_target_branch = (case df_target_branch (rg_def reg) of Some b \<Rightarrow> b | None \<Rightarrow> DEFAULT_TARGET_BRANCH),
         an_package_env = rg_effective_package_env reg, an_auto_merge = rg_auto_merge reg,
         an_creator_login = rg_creator_login reg, an_full_config_hash = full_config_hash digest reg\<rparr>])"

definition reject_actions :: "(json \<Rightarrow> str) \<Rightarrow> plan_input \<Rightarrow> session_registration \<Rightarrow> reconcile_action list" where
  "reject_actions digest inp reg =
     (if config_change_rejected digest reg (in_latched_config_hash inp) \<and>
         rg_trigger_issue reg \<notin> set (in_latched_config_rejected inp)
      then [RejectConfigChange (rg_trigger_issue reg)] else [])"

definition orphan_actions :: "plan_input \<Rightarrow> live_pod \<Rightarrow> reconcile_action list" where
  "orphan_actions inp pod =
     (if lp_session_id pod \<in> set (map rg_session_id (in_regs inp)) then []
      else case lp_liveness pod of
        Starting \<Rightarrow> Kill (lp_session_id pod) TriggerClosed (audit_from_observed pod) #
          (if lp_work_labels pod \<noteq> [] then [RetireWorkIssues (lp_work_labels pod)] else [])
      | Live \<Rightarrow> Kill (lp_session_id pod) TriggerClosed (audit_from_observed pod) #
          (if lp_work_labels pod \<noteq> [] then [RetireWorkIssues (lp_work_labels pod)] else [])
      | Terminal \<Rightarrow> [CleanupTerminal (lp_session_id pod) (audit_from_observed pod)]
      | _ \<Rightarrow> [])"

definition invalid_actions :: "plan_input \<Rightarrow> int \<times> str \<Rightarrow> reconcile_action list" where
  "invalid_actions inp marker =
     (if fst marker \<in> set (in_latched_invalid inp) then [] else [FlagInvalid (fst marker) (snd marker)])"

definition cleared_issues :: "plan_input \<Rightarrow> int list" where
  "cleared_issues inp =
     sort (filter (\<lambda>i. i \<in> set (map rg_trigger_issue (in_regs inp))) (in_latched_invalid inp))"

definition plan_repo :: "(json \<Rightarrow> str) \<Rightarrow> plan_input \<Rightarrow> reconcile_action list" where
  "plan_repo digest inp =
     concat (map (registration_actions digest inp) (in_regs inp)) @
     concat (map (announce_actions digest inp) (in_regs inp)) @
     concat (map (reject_actions digest inp) (in_regs inp)) @
     concat (map (orphan_actions inp) (in_live inp)) @
     concat (map (invalid_actions inp) (in_invalid inp)) @
     map ClearInvalid (cleared_issues inp)"

definition plan_trigger_authorization ::
  "(int \<times> str) list \<Rightarrow> int list \<Rightarrow> int list \<Rightarrow> reconcile_action list" where
  "plan_trigger_authorization unauthorized authorized_issues latched_unauthorized =
     concat (map (\<lambda>(i, detail). if i \<in> set latched_unauthorized then [] else [FlagTriggerUnauthorized i detail])
       unauthorized) @
     map ClearTriggerUnauthorized (sort (filter (\<lambda>i. i \<in> set authorized_issues) latched_unauthorized))"

section \<open>Demotions\<close>

definition MISSING_WORK_LABEL_DETAIL :: str where
  "MISSING_WORK_LABEL_DETAIL =
     lit ''no work label: add a `### Work Label` section or use packages that declare `[github].work_labels`''"

definition detect_missing_work_labels ::
  "session_registration list \<Rightarrow> (str \<rightharpoonup> str list) \<Rightarrow> (int \<times> str) list" where
  "detect_missing_work_labels regs work_labels_by_session =
     sort_key fst (map (\<lambda>reg. (rg_trigger_issue reg, MISSING_WORK_LABEL_DETAIL))
       (filter (\<lambda>reg. case work_labels_by_session (rg_session_id reg) of Some ls \<Rightarrow> ls = [] | None \<Rightarrow> True) regs))"

text \<open>The labels of a registration that count: those of its session, less the reserved ones.\<close>

definition contested_labels :: "(str \<rightharpoonup> str list) \<Rightarrow> session_registration \<Rightarrow> str list" where
  "contested_labels wl reg =
     (case wl (rg_session_id reg) of Some ls \<Rightarrow> filter (\<lambda>l. \<not> is_reserved_label l) ls | None \<Rightarrow> [])"

type_synonym label_owners = "(str \<times> str) \<rightharpoonup> int"

definition claim_label :: "str \<Rightarrow> int \<Rightarrow> str \<Rightarrow> label_owners \<Rightarrow> label_owners" where
  "claim_label creator_key issue label owners =
     owners((creator_key, label) \<mapsto>
       (case owners (creator_key, label) of Some owner \<Rightarrow> min owner issue | None \<Rightarrow> issue))"

definition claim_labels :: "(str \<rightharpoonup> str list) \<Rightarrow> session_registration \<Rightarrow> label_owners \<Rightarrow> label_owners" where
  "claim_labels wl reg owners =
     fold (claim_label (to_ascii_lowercase (rg_creator_login reg)) (rg_trigger_issue reg)) (contested_labels wl reg) owners"

definition owner_by_label :: "session_registration list \<Rightarrow> (str \<rightharpoonup> str list) \<Rightarrow> label_owners" where
  "owner_by_label regs wl = fold (claim_labels wl) regs Map.empty"

definition collision_detail :: "str \<Rightarrow> int \<Rightarrow> str" where
  "collision_detail label owner =
     lit ''work label '' @ [39] @ label @ [39] @ lit '' collides with your active session #'' @ show_int owner"

definition loses_label :: "label_owners \<Rightarrow> session_registration \<Rightarrow> str \<Rightarrow> bool" where
  "loses_label owners reg label =
     (case owners (to_ascii_lowercase (rg_creator_login reg), label) of
        Some owner \<Rightarrow> owner \<noteq> rg_trigger_issue reg | None \<Rightarrow> False)"

text \<open>The lexicographically lowest label somebody else owns.\<close>

definition losing_label :: "label_owners \<Rightarrow> (str \<rightharpoonup> str list) \<Rightarrow> session_registration \<Rightarrow> (str \<times> int) option" where
  "losing_label owners wl reg =
     (case find (loses_label owners reg) (sort (remdups (contested_labels wl reg))) of
        Some label \<Rightarrow> map_option (Pair label) (owners (to_ascii_lowercase (rg_creator_login reg), label))
      | None \<Rightarrow> None)"

definition detect_work_label_collisions ::
  "session_registration list \<Rightarrow> (str \<rightharpoonup> str list) \<Rightarrow> (int \<times> str) list" where
  "detect_work_label_collisions regs wl =
     (let owners = owner_by_label regs wl
      in sort_key fst (filter_map (\<lambda>reg. map_option
           (\<lambda>loss. (rg_trigger_issue reg, collision_detail (fst loss) (snd loss))) (losing_label owners wl reg)) regs))"
section \<open>What a plan does to runtimes\<close>

text \<open>The session whose runtime an action creates or deletes.\<close>

fun lifecycle_target :: "reconcile_action \<Rightarrow> str option" where
  "lifecycle_target (Spawn reg _) = Some (rg_session_id reg)"
| "lifecycle_target (Kill s _ _) = Some s"
| "lifecycle_target (CleanupTerminal s _) = Some s"
| "lifecycle_target _ = None"

definition lifecycle_of :: "str \<Rightarrow> reconcile_action list \<Rightarrow> reconcile_action list" where
  "lifecycle_of s acts = filter (\<lambda>a. lifecycle_target a = Some s) acts"

definition wf_input :: "plan_input \<Rightarrow> bool" where
  "wf_input inp \<longleftrightarrow> distinct (map rg_session_id (in_regs inp)) \<and> distinct (map lp_session_id (in_live inp))"

lemma lifecycle_of_append [simp]: "lifecycle_of s (a @ b) = lifecycle_of s a @ lifecycle_of s b"
  by (simp add: lifecycle_of_def)

lemma lifecycle_of_concat: "lifecycle_of s (concat xss) = concat (map (lifecycle_of s) xss)"
  by (induction xss) (simp_all add: lifecycle_of_def)

lemma live_by_session_unique:
  "distinct (map lp_session_id live) \<Longrightarrow> live_by_session live s = Some p \<longleftrightarrow> p \<in> set live \<and> lp_session_id p = s"
  unfolding live_by_session_def
  by (subst map_of_eq_Some_iff) (auto simp: comp_def simp flip: rev_map)

lemma lifecycle_silent [simp]:
  "lifecycle_of s (announce_actions digest inp reg) = []" "lifecycle_of s (reject_actions digest inp reg) = []"
  "lifecycle_of s (invalid_actions inp mk) = []" "lifecycle_of s (map ClearInvalid is) = []"
  by (simp_all add: lifecycle_of_def announce_actions_def reject_actions_def invalid_actions_def filter_empty_conv)

lemma registration_actions_target:
  "rg_session_id reg \<noteq> s \<Longrightarrow> lifecycle_of s (registration_actions digest inp reg) = []"
  by (auto simp: registration_actions_def lifecycle_of_def Let_def split: pod_liveness.splits option.splits)

lemma orphan_actions_target: "lp_session_id pod \<noteq> s \<Longrightarrow> lifecycle_of s (orphan_actions inp pod) = []"
  by (auto simp: orphan_actions_def lifecycle_of_def split: pod_liveness.splits)

lemma concat_map_single:
  assumes "distinct (map key xs)" "\<And>x. key x \<noteq> s \<Longrightarrow> f x = []" "x \<in> set xs" "key x = s"
  shows "concat (map f xs) = f x"
  using assms
proof (induction xs)
  case (Cons y ys)
  show ?case
  proof (cases "y = x")
    case True
    with Cons.prems(1,4) have "s \<notin> key ` set ys" by auto
    then have "\<forall>z \<in> set ys. key z \<noteq> s" by blast
    then have "concat (map f ys) = []" using Cons.prems(2) by auto
    with True show ?thesis by simp
  next
    case False
    with Cons.prems(1,3,4) have "key y \<noteq> s" "x \<in> set ys" by force+
    with Cons show ?thesis by simp
  qed
qed simp

lemma concat_map_none: "(\<And>x. key x \<noteq> s \<Longrightarrow> f x = []) \<Longrightarrow> \<forall>x \<in> set xs. key x \<noteq> s \<Longrightarrow> concat (map f xs) = []"
  by auto

lemma concat_map_Nil [simp]: "concat (map (\<lambda>x. []) xs) = []"
  by simp

lemma plan_lifecycle:
  "lifecycle_of s (plan_repo digest inp) =
     concat (map (\<lambda>r. lifecycle_of s (registration_actions digest inp r)) (in_regs inp)) @
     concat (map (\<lambda>p. lifecycle_of s (orphan_actions inp p)) (in_live inp))"
  by (simp add: plan_repo_def lifecycle_of_concat comp_def)

text \<open>The runtime effect of a plan on one session, by cases: registered, orphaned or unknown.\<close>

lemma plan_lifecycle_registered:
  assumes "wf_input inp" "reg \<in> set (in_regs inp)"
  shows "lifecycle_of (rg_session_id reg) (plan_repo digest inp) =
    lifecycle_of (rg_session_id reg) (registration_actions digest inp reg)"
proof -
  let ?s = "rg_session_id reg"
  have "concat (map (\<lambda>r. lifecycle_of ?s (registration_actions digest inp r)) (in_regs inp)) =
      lifecycle_of ?s (registration_actions digest inp reg)"
    using assms by (intro concat_map_single [where key = rg_session_id and s = ?s])
      (auto simp: wf_input_def registration_actions_target)
  moreover have "lifecycle_of ?s (orphan_actions inp p) = []" for p
    using assms(2) by (cases "lp_session_id p = ?s") (simp_all add: orphan_actions_target, simp add: orphan_actions_def lifecycle_of_def)
  ultimately show ?thesis by (simp add: plan_lifecycle)
qed

lemma plan_lifecycle_unregistered:
  assumes "wf_input inp" "s \<notin> set (map rg_session_id (in_regs inp))"
  shows "lifecycle_of s (plan_repo digest inp) =
    (case live_by_session (in_live inp) s of Some p \<Rightarrow> lifecycle_of s (orphan_actions inp p) | None \<Rightarrow> [])"
proof -
  have "concat (map (\<lambda>r. lifecycle_of s (registration_actions digest inp r)) (in_regs inp)) = []"
    using assms(2) by (intro concat_map_none [where key = rg_session_id and s = s])
      (auto simp: registration_actions_target)
  moreover have "concat (map (\<lambda>p. lifecycle_of s (orphan_actions inp p)) (in_live inp)) =
    (case live_by_session (in_live inp) s of Some p \<Rightarrow> lifecycle_of s (orphan_actions inp p) | None \<Rightarrow> [])"
  proof (cases "live_by_session (in_live inp) s")
    case None
    then have "\<forall>p \<in> set (in_live inp). lp_session_id p \<noteq> s"
      by (force simp: live_by_session_def map_of_eq_None_iff)
    then show ?thesis using None
      by (auto intro!: concat_map_none [where key = lp_session_id and s = s] simp: orphan_actions_target)
  next
    case (Some p)
    then have "p \<in> set (in_live inp)" "lp_session_id p = s"
      using live_by_session_unique assms(1) by (auto simp: wf_input_def)
    with Some assms(1) show ?thesis
      by (auto intro!: concat_map_single [where key = lp_session_id and s = s] simp: wf_input_def orphan_actions_target)
  qed
  ultimately show ?thesis by (simp only: plan_lifecycle append_Nil)
qed


lemma plan_lifecycle_cases:
  assumes "wf_input inp"
  obtains (registered) reg where "reg \<in> set (in_regs inp)" "rg_session_id reg = s"
      "lifecycle_of s (plan_repo digest inp) = lifecycle_of s (registration_actions digest inp reg)"
  | (orphan) p where "live_by_session (in_live inp) s = Some p" "lp_session_id p = s"
      "lifecycle_of s (plan_repo digest inp) = lifecycle_of s (orphan_actions inp p)"
  | (unknown) "lifecycle_of s (plan_repo digest inp) = []"
proof (cases "s \<in> set (map rg_session_id (in_regs inp))")
  case True
  then obtain reg where "reg \<in> set (in_regs inp)" "rg_session_id reg = s" by auto
  then show ?thesis using that(1) plan_lifecycle_registered [OF assms] by blast
next
  case False
  note l = plan_lifecycle_unregistered [OF assms False, of digest]
  show ?thesis
  proof (cases "live_by_session (in_live inp) s")
    case None
    then show ?thesis using l that(3) by simp
  next
    case (Some p)
    moreover from this have "lp_session_id p = s"
      using assms live_by_session_unique by (auto simp: wf_input_def)
    ultimately show ?thesis using l that(2) by simp
  qed
qed

text \<open>
  C5: a plan changes the existence of a session's runtime at most once, and only where the observation
  allows it: a runtime is created only for a registered session that has work and no runtime, deleted only
  while it runs, collected only after it ended; a runtime that is already going away is left alone.
\<close>

theorem plan_one_runtime_effect_per_session:
  assumes "wf_input inp"
  shows "length (lifecycle_of s (plan_repo digest inp)) \<le> 1 \<and>
    (\<forall>a \<in> set (lifecycle_of s (plan_repo digest inp)). case a of
       Spawn reg _ \<Rightarrow> reg \<in> set (in_regs inp) \<and> in_pending inp s = Some True \<and>
         (\<forall>p. live_by_session (in_live inp) s = Some p \<longrightarrow> lp_liveness p = Absent)
     | Kill _ _ _ \<Rightarrow> \<exists>p. live_by_session (in_live inp) s = Some p \<and> lp_liveness p \<in> {Starting, Live}
     | CleanupTerminal _ _ \<Rightarrow> \<exists>p. live_by_session (in_live inp) s = Some p \<and> lp_liveness p = Terminal
     | _ \<Rightarrow> False)"
  using assms
proof (cases rule: plan_lifecycle_cases [where s = s and digest = digest])
  case (registered reg)
  then show ?thesis
    by (auto simp: registration_actions_def lifecycle_of_def Let_def split: pod_liveness.splits option.splits if_splits)
next
  case (orphan p)
  then show ?thesis
    by (auto simp: orphan_actions_def lifecycle_of_def split: pod_liveness.splits if_splits)
next
  case unknown
  then show ?thesis by simp
qed


section \<open>Collisions\<close>

definition holds :: "(str \<rightharpoonup> str list) \<Rightarrow> str \<times> str \<Rightarrow> session_registration \<Rightarrow> bool" where
  "holds wl key reg \<longleftrightarrow> to_ascii_lowercase (rg_creator_login reg) = fst key \<and> snd key \<in> set (contested_labels wl reg)"

lemma claim_labels_lookup:
  "claim_labels wl reg owners key =
     (if holds wl key reg
      then Some (case owners key of Some m \<Rightarrow> min m (rg_trigger_issue reg) | None \<Rightarrow> rg_trigger_issue reg)
      else owners key)"
proof -
  obtain c l where key: "key = (c, l)" by (cases key)
  have "fold (claim_label k i) ls owners (c, l) =
      (if k = c \<and> l \<in> set ls then Some (case owners (c, l) of Some m \<Rightarrow> min m i | None \<Rightarrow> i) else owners (c, l))"
    for k i ls owners
    by (induction ls arbitrary: owners) (auto simp: claim_label_def split: option.splits)
  then show ?thesis by (simp add: claim_labels_def holds_def key)
qed

lemma owner_by_label_snoc: "owner_by_label (rs @ [r]) wl key = claim_labels wl r (owner_by_label rs wl) key"
  by (simp add: owner_by_label_def)

lemma owner_by_label_None: "owner_by_label regs wl key = None \<longleftrightarrow> (\<forall>r \<in> set regs. \<not> holds wl key r)"
proof (induction regs rule: rev_induct)
  case Nil
  show ?case by (simp add: owner_by_label_def)
next
  case (snoc r rs)
  then show ?case by (auto simp: owner_by_label_snoc claim_labels_lookup)
qed

lemma owner_by_label_Some:
  "owner_by_label regs wl key = Some m \<longleftrightarrow>
     (\<exists>r \<in> set regs. holds wl key r \<and> rg_trigger_issue r = m) \<and> (\<forall>r \<in> set regs. holds wl key r \<longrightarrow> m \<le> rg_trigger_issue r)"
proof (induction regs arbitrary: m rule: rev_induct)
  case Nil
  show ?case by (simp add: owner_by_label_def)
next
  case (snoc r rs)
  show ?case
  proof (cases "owner_by_label rs wl key")
    case None
    then show ?thesis using owner_by_label_None [of rs wl key] by (auto simp: owner_by_label_snoc claim_labels_lookup)
  next
    case (Some m0)
    then show ?thesis using snoc.IH [of m0] snoc.IH [of m]
      by (auto simp: owner_by_label_snoc claim_labels_lookup min_def)
  qed
qed

text \<open>A rival holds one of the labels and has the lower issue.\<close>

definition outranked :: "session_registration list \<Rightarrow> (str \<rightharpoonup> str list) \<Rightarrow> session_registration \<Rightarrow> bool" where
  "outranked regs wl reg \<longleftrightarrow>
     (\<exists>rival \<in> set regs. eq_ignore_ascii_case (rg_creator_login rival) (rg_creator_login reg) \<and>
        rg_trigger_issue rival < rg_trigger_issue reg \<and>
        set (contested_labels wl rival) \<inter> set (contested_labels wl reg) \<noteq> {})"

lemma loses_iff:
  assumes "reg \<in> set regs" "l \<in> set (contested_labels wl reg)"
  shows "loses_label (owner_by_label regs wl) reg l \<longleftrightarrow>
    (\<exists>r \<in> set regs. holds wl (to_ascii_lowercase (rg_creator_login reg), l) r \<and> rg_trigger_issue r < rg_trigger_issue reg)"
    (is "_ \<longleftrightarrow> ?rival")
proof -
  let ?key = "(to_ascii_lowercase (rg_creator_login reg), l)"
  have h: "holds wl ?key reg" using assms(2) by (simp add: holds_def)
  then obtain m where m: "owner_by_label regs wl ?key = Some m"
    using assms(1) owner_by_label_None [of regs wl ?key] by (cases "owner_by_label regs wl ?key") auto
  then have le: "\<forall>r \<in> set regs. holds wl ?key r \<longrightarrow> m \<le> rg_trigger_issue r"
    and ex: "\<exists>r \<in> set regs. holds wl ?key r \<and> rg_trigger_issue r = m"
    by (simp_all add: owner_by_label_Some)
  have "m \<le> rg_trigger_issue reg" using le h assms(1) by blast
  then have "m \<noteq> rg_trigger_issue reg \<longleftrightarrow> m < rg_trigger_issue reg" by linarith
  also have "\<dots> \<longleftrightarrow> ?rival" using le ex by force
  finally show ?thesis using m by (simp add: loses_label_def)
qed

lemma losing_label_None:
  assumes "reg \<in> set regs"
  shows "losing_label (owner_by_label regs wl) wl reg = None \<longleftrightarrow> \<not> outranked regs wl reg"
proof -
  let ?o = "owner_by_label regs wl" and ?ls = "contested_labels wl reg"
  have "?o (to_ascii_lowercase (rg_creator_login reg), l) \<noteq> None" if "find (loses_label ?o reg) (sort (remdups ?ls)) = Some l" for l
    using that by (auto simp: find_Some_iff loses_label_def split: option.splits)
  then have "losing_label ?o wl reg = None \<longleftrightarrow> find (loses_label ?o reg) (sort (remdups ?ls)) = None"
    by (auto simp: losing_label_def split: option.splits)
  also have "\<dots> \<longleftrightarrow> (\<forall>l \<in> set ?ls. \<not> loses_label ?o reg l)" by (auto simp: find_None_iff)
  also have "\<dots> \<longleftrightarrow> \<not> outranked regs wl reg"
    using loses_iff [OF assms, of _ wl]
    by (auto simp: outranked_def holds_def eq_ignore_ascii_case_def)
  finally show ?thesis .
qed

lemma fst_filter_map: "fst ` set (filter_map (\<lambda>x. map_option (\<lambda>p. (g x, h p)) (f x)) xs) = g ` {x \<in> set xs. f x \<noteq> None}"
  by (induction xs) (auto split: option.splits)

text \<open>
  A session is demoted exactly when an open session of the same creator with a lower issue works one of
  its unreserved labels; so the sessions that remain never compete for a queue. The markers come in the
  order of their issues.
\<close>

theorem collisions_demote_outranked:
  assumes "distinct (map rg_trigger_issue regs)"
  shows "set (map fst (detect_work_label_collisions regs wl)) = rg_trigger_issue ` {reg \<in> set regs. outranked regs wl reg} \<and>
    sorted (map fst (detect_work_label_collisions regs wl)) \<and>
    (\<forall>a \<in> set regs. \<forall>b \<in> set regs. a \<noteq> b \<longrightarrow>
       rg_trigger_issue a \<notin> set (map fst (detect_work_label_collisions regs wl)) \<longrightarrow>
       rg_trigger_issue b \<notin> set (map fst (detect_work_label_collisions regs wl)) \<longrightarrow>
       eq_ignore_ascii_case (rg_creator_login a) (rg_creator_login b) \<longrightarrow>
       set (contested_labels wl a) \<inter> set (contested_labels wl b) = {})"
proof -
  let ?l = "detect_work_label_collisions regs wl"
  have s: "set (map fst ?l) = rg_trigger_issue ` {reg \<in> set regs. outranked regs wl reg}"
  proof -
    have eq: "{reg \<in> set regs. losing_label (owner_by_label regs wl) wl reg \<noteq> None} = {reg \<in> set regs. outranked regs wl reg}"
      by (rule Collect_cong) (metis losing_label_None)
    show ?thesis unfolding detect_work_label_collisions_def Let_def
      by (simp only: set_map set_sort fst_filter_map eq)
  qed
  have "set (contested_labels wl a) \<inter> set (contested_labels wl b) = {}"
    if ab: "a \<in> set regs" "b \<in> set regs" "a \<noteq> b" "\<not> outranked regs wl a" "\<not> outranked regs wl b"
      "eq_ignore_ascii_case (rg_creator_login a) (rg_creator_login b)" for a b
  proof -
    have "rg_trigger_issue a \<noteq> rg_trigger_issue b" using assms ab(1-3) by (auto simp: distinct_map inj_on_def)
    then consider "rg_trigger_issue a < rg_trigger_issue b" | "rg_trigger_issue b < rg_trigger_issue a" by linarith
    then show ?thesis
    proof cases
      case 1
      then show ?thesis using ab(1,5,6) unfolding outranked_def by blast
    next
      case 2
      then show ?thesis using ab(2,4) eq_ignore_ascii_case_sym [OF ab(6)] unfolding outranked_def by blast
    qed
  qed
  moreover have "sorted (map fst ?l)" by (simp add: detect_work_label_collisions_def Let_def)
  ultimately show ?thesis unfolding s by blast
qed


section \<open>A sample repository\<close>

definition sample_pod :: live_pod where
  "sample_pod =
     \<lparr>lp_session_id = lit ''s-7'', lp_trigger_issue = 7, lp_liveness = Live, lp_created_at = 0, lp_last_pending_at = None,
      lp_config_hash = Some (lit ''old''), lp_work_labels = [lit ''fkst-dev''], lp_identity = empty_observation\<rparr>"

definition sample_input :: plan_input where
  "sample_input =
     \<lparr>in_regs = [sample_reg], in_work_labels = [lit ''s-7'' \<mapsto> [lit ''fkst-dev'']], in_invalid = [],
      in_live = [sample_pod, sample_pod\<lparr>lp_session_id := lit ''s-8''\<rparr>],
      in_pending = [lit ''s-7'' \<mapsto> True], in_latched_invalid = [], in_latched_announced = [7],
      in_latched_config_hash = [7 \<mapsto> lit ''other''], in_latched_config_rejected = [], in_now = 10,
      in_cfg = \<lparr>session_idle_grace_secs = 0, pod_min_lifetime_secs = 0, pc_work_label_namespace = None\<rparr>\<rparr>"

lemma wf_sample: "wf_input sample_input"
  by (simp add: wf_input_def sample_input_def sample_pod_def)

lemma plan_sample_orphan:
  "lifecycle_of (lit ''s-8'') (plan_repo json_text sample_input) =
     [Kill (lit ''s-8'') TriggerClosed (audit_from_observed (sample_pod\<lparr>lp_session_id := lit ''s-8''\<rparr>))]"
  by (subst plan_lifecycle_unregistered [OF wf_sample])
     (simp_all add: sample_input_def sample_pod_def sample_reg_def live_by_session_def orphan_actions_def lifecycle_of_def)

theorem plan_one_runtime_effect_per_session_witness:
  "length (lifecycle_of (lit ''s-8'') (plan_repo json_text sample_input)) = 1 \<and>
   (\<exists>p. live_by_session (in_live sample_input) (lit ''s-8'') = Some p \<and> lp_liveness p \<in> {Starting, Live})"
  using plan_one_runtime_effect_per_session [OF wf_sample, of "lit ''s-8''" json_text] by (simp add: plan_sample_orphan)


theorem collisions_demote_outranked_witness:
  "set (map fst (detect_work_label_collisions
      [sample_reg\<lparr>rg_trigger_issue := 9, rg_session_id := lit ''s-9'', rg_creator_login := lit ''Alice''\<rparr>, sample_reg]
      (\<lambda>_. Some [lit ''fkst-dev'']))) = {9}"
proof -
  let ?b = "sample_reg\<lparr>rg_trigger_issue := 9, rg_session_id := lit ''s-9'', rg_creator_login := lit ''Alice''\<rparr>"
  let ?wl = "\<lambda>_ :: str. Some [lit ''fkst-dev'']"
  have i: "rg_trigger_issue sample_reg = 7" "rg_trigger_issue ?b = 9" by (simp_all add: sample_reg_def)
  have "\<not> is_reserved_label (lit ''fkst-dev'')"
    by (simp add: is_reserved_label_def RESERVED_LABELS_def str_simps trim_def trim_start_def trim_end_def is_whitespace_def
        SCHEDULED_WORKFLOW_LABEL_def SCHEDULE_INVALID_LABEL_def CRON_RUNNING_LABEL_def CRON_PAUSED_LABEL_def
        CRON_FAILED_LABEL_def CRON_TIMEOUT_LABEL_def WORKFLOW_RUN_LABEL_def WORKFLOW_SCHEDULED_RUN_LABEL_def
        eq_ignore_ascii_case_def to_ascii_lowercase_def ascii_lower_def is_ascii_uppercase_def)
  then have c: "contested_labels ?wl r = [lit ''fkst-dev'']" for r by (simp add: contested_labels_def)
  have e: "eq_ignore_ascii_case (rg_creator_login sample_reg) (rg_creator_login ?b)"
    by (simp add: sample_reg_def eq_ignore_ascii_case_def to_ascii_lowercase_def ascii_lower_def is_ascii_uppercase_def str_simps)
  have "outranked [?b, sample_reg] ?wl ?b" "\<not> outranked [?b, sample_reg] ?wl sample_reg"
    using e i by (simp_all add: outranked_def c)
  then have o: "{reg \<in> set [?b, sample_reg]. outranked [?b, sample_reg] ?wl reg} = {?b}" by auto
  have d: "distinct (map rg_trigger_issue [?b, sample_reg])" using i by simp
  show ?thesis unfolding conjunct1 [OF collisions_demote_outranked [OF d]] o using i by simp
qed

end
