(* ===== verification/LeaderConfig.thy ===== *)
theory LeaderConfig
  imports RustStr
begin

text \<open>
  The configuration of leader election (\<open>backend/src/leader_config.rs\<close>). The decoding of environment
  variables into \<open>LeaderVars\<close> is a library's; the model starts from the decoded variables.
\<close>

definition MAX_LEASE_DURATION_SECS :: nat where "MAX_LEASE_DURATION_SECS = 300"
definition MAX_HOLDER_IDENTITY_BYTES :: nat where "MAX_HOLDER_IDENTITY_BYTES = 128"

record leader_vars =
  lv_election_enabled :: bool
  lv_lease_name :: str
  lv_identity :: "str option"
  lv_lease_duration_secs :: nat
  lv_renew_deadline_secs :: nat
  lv_retry_period_secs :: nat

definition default_vars :: leader_vars where
  "default_vars =
     \<lparr>lv_election_enabled = False, lv_lease_name = lit ''fkst-control-plane-reconciler'', lv_identity = None,
      lv_lease_duration_secs = 30, lv_renew_deadline_secs = 20, lv_retry_period_secs = 5\<rparr>"

record leader_election_config =
  le_enabled :: bool
  le_lease_name :: str
  le_identity :: "str option"
  le_lease_duration_secs :: nat
  le_renew_deadline_secs :: nat
  le_retry_period_secs :: nat

datatype leader_config_error =
    BadLeaseName | MissingIdentity | IdentityTooLong | IdentityNotDns | LeaseDurationRange | RetryZero | RenewZero
  | TimingOrder

definition default_config :: leader_election_config where
  "default_config =
     \<lparr>le_enabled = False, le_lease_name = lv_lease_name default_vars, le_identity = None,
      le_lease_duration_secs = lv_lease_duration_secs default_vars,
      le_renew_deadline_secs = lv_renew_deadline_secs default_vars,
      le_retry_period_secs = lv_retry_period_secs default_vars\<rparr>"

definition is_dns_label :: "str \<Rightarrow> bool" where
  "is_dns_label label \<longleftrightarrow>
     label \<noteq> [] \<and> byte_len label \<le> 63 \<and>
     list_all (\<lambda>b. is_ascii_lowercase b \<or> is_ascii_digit b \<or> b = ch (CHR ''-'')) label \<and>
     is_ascii_alphanumeric (hd label) \<and> is_ascii_alphanumeric (last label)"

definition is_dns_subdomain :: "str \<Rightarrow> bool" where
  "is_dns_subdomain value_str \<longleftrightarrow>
     (if value_str = [] \<or> 253 < byte_len value_str then False else list_all is_dns_label (split (ch (CHR ''.'')) value_str))"

definition leader_from_vars :: "leader_vars \<Rightarrow> leader_config_error + leader_election_config" where
  "leader_from_vars env =
     (let lease_name = trim (lv_lease_name env);
          identity = (case lv_identity env of Some i \<Rightarrow> (if trim i \<noteq> [] then Some (trim i) else None) | None \<Rightarrow> None)
      in if \<not> is_dns_subdomain lease_name then Inl BadLeaseName
         else if lv_election_enabled env \<and> identity = None then Inl MissingIdentity
         else if (case identity of Some i \<Rightarrow> MAX_HOLDER_IDENTITY_BYTES < byte_len i | None \<Rightarrow> False) then Inl IdentityTooLong
         else if (case identity of Some i \<Rightarrow> \<not> is_dns_subdomain i | None \<Rightarrow> False) then Inl IdentityNotDns
         else if \<not> (3 \<le> lv_lease_duration_secs env \<and> lv_lease_duration_secs env \<le> MAX_LEASE_DURATION_SECS)
           then Inl LeaseDurationRange
         else if lv_retry_period_secs env = 0 then Inl RetryZero
         else if lv_renew_deadline_secs env = 0 then Inl RenewZero
         else if lv_renew_deadline_secs env \<le> lv_retry_period_secs env \<or>
                 lv_lease_duration_secs env \<le> lv_renew_deadline_secs env then Inl TimingOrder
         else Inr \<lparr>le_enabled = lv_election_enabled env, le_lease_name = lease_name, le_identity = identity,
                   le_lease_duration_secs = lv_lease_duration_secs env,
                   le_renew_deadline_secs = lv_renew_deadline_secs env,
                   le_retry_period_secs = lv_retry_period_secs env\<rparr>)"

section \<open>What an accepted configuration guarantees\<close>

definition wf_identity :: "str \<Rightarrow> bool" where
  "wf_identity i \<longleftrightarrow> i \<noteq> [] \<and> trimmed i"

definition wf_leader_config :: "leader_election_config \<Rightarrow> bool" where
  "wf_leader_config cfg \<longleftrightarrow>
     0 < le_retry_period_secs cfg \<and> le_retry_period_secs cfg < le_renew_deadline_secs cfg \<and>
     le_renew_deadline_secs cfg < le_lease_duration_secs cfg \<and> le_lease_duration_secs cfg \<le> 300 \<and>
     (case le_identity cfg of Some i \<Rightarrow> wf_identity i | None \<Rightarrow> \<not> le_enabled cfg)"

lemma leader_from_vars_wf: "leader_from_vars env = Inr cfg \<Longrightarrow> wf_leader_config cfg"
  by (auto simp: leader_from_vars_def Let_def wf_leader_config_def wf_identity_def MAX_LEASE_DURATION_SECS_def
      split: if_splits option.splits)

end
