(* ===== verification/LeaderElection.thy ===== *)
theory LeaderElection
  imports LeaderConfig
begin

text \<open>
  Leader election on a Kubernetes Lease (\<open>backend/src/leader_election.rs\<close>): a single claim, the state of a
  contender and the supervision of worker generations.

  Times are integers in microseconds, the resolution of the timestamps of a Lease.
\<close>

section \<open>The Lease\<close>

datatype lease_api_error = NotFound | AlreadyExists | LeaseConflict | Forbidden | Api | Transport | InvalidObject

record lease_spec =
  ls_holder_identity :: "str option"
  ls_lease_duration_seconds :: "int option"
  ls_acquire_time :: "int option"
  ls_renew_time :: "int option"
  ls_lease_transitions :: "int option"

definition empty_spec :: lease_spec where
  "empty_spec =
     \<lparr>ls_holder_identity = None, ls_lease_duration_seconds = None, ls_acquire_time = None, ls_renew_time = None,
      ls_lease_transitions = None\<rparr>"

record lease =
  lo_resource_version :: "nat option"
  lo_spec :: "lease_spec option"

definition secs :: "int \<Rightarrow> int" where "secs n = n * 1000000"

definition lease_transitions_of :: "lease \<Rightarrow> nat" where
  "lease_transitions_of l =
     (case lo_spec l of
        Some spec \<Rightarrow> (case ls_lease_transitions spec of Some v \<Rightarrow> (if 0 \<le> v then nat v else 0) | None \<Rightarrow> 0)
      | None \<Rightarrow> 0)"

definition named_holder :: "lease_spec \<Rightarrow> str option" where
  "named_holder spec =
     (case ls_holder_identity spec of Some h \<Rightarrow> (if trim h \<noteq> [] then Some (trim h) else None) | None \<Rightarrow> None)"

definition lease_expired :: "lease_spec \<Rightarrow> int \<Rightarrow> bool" where
  "lease_expired spec now =
     (case named_holder spec of
        None \<Rightarrow> True
      | Some _ \<Rightarrow>
          (case ls_lease_duration_seconds spec of
             None \<Rightarrow> True
           | Some d \<Rightarrow>
               (if d \<le> 0 then True
                else case (case ls_renew_time spec of Some t \<Rightarrow> Some t | None \<Rightarrow> ls_acquire_time spec) of
                       None \<Rightarrow> True
                     | Some base \<Rightarrow> base + secs d \<le> now)))"

definition i32_saturating_add1 :: "int \<Rightarrow> int" where
  "i32_saturating_add1 v = min (v + 1) (2 ^ 31 - 1)"

text \<open>The cast \<open>lease_duration_secs as i32\<close> keeps the low 32 bits.\<close>

definition as_i32 :: "nat \<Rightarrow> int" where
  "as_i32 n = (let r = int n mod 2 ^ 32 in if r < 2 ^ 31 then r else r - 2 ^ 32)"

definition new_lease :: "leader_election_config \<Rightarrow> str \<Rightarrow> int \<Rightarrow> lease" where
  "new_lease cfg identity now =
     \<lparr>lo_resource_version = None,
      lo_spec = Some
        \<lparr>ls_holder_identity = Some identity, ls_lease_duration_seconds = Some (as_i32 (le_lease_duration_secs cfg)),
         ls_acquire_time = Some now, ls_renew_time = Some now, ls_lease_transitions = Some 0\<rparr>\<rparr>"

section \<open>One claim\<close>

datatype claim_outcome = Holder nat | Follower "str option" nat

text \<open>What a claim does after its read: it ends, or it writes.\<close>

datatype lease_write = CreateLease lease | ReplaceLease lease

definition renewed_spec :: "leader_election_config \<Rightarrow> str \<Rightarrow> int \<Rightarrow> lease_spec \<Rightarrow> lease_spec" where
  "renewed_spec cfg identity now spec =
     (let holder_changed = named_holder spec \<noteq> Some identity;
          timed = (if holder_changed
                   then spec\<lparr>ls_acquire_time := Some now,
                             ls_lease_transitions := Some (i32_saturating_add1
                               (case ls_lease_transitions spec of Some v \<Rightarrow> v | None \<Rightarrow> 0))\<rparr>
                   else if ls_acquire_time spec = None then spec\<lparr>ls_acquire_time := Some now\<rparr> else spec)
      in timed\<lparr>ls_holder_identity := Some identity,
               ls_lease_duration_seconds := Some (as_i32 (le_lease_duration_secs cfg)),
               ls_renew_time := Some now\<rparr>)"

definition claim_after_get ::
  "leader_election_config \<Rightarrow> str \<Rightarrow> int \<Rightarrow> lease_api_error + lease \<Rightarrow> (lease_api_error + claim_outcome) + lease_write" where
  "claim_after_get cfg identity now got =
     (case got of
        Inl e \<Rightarrow> (if e = NotFound then Inr (CreateLease (new_lease cfg identity now)) else Inl (Inl e))
      | Inr l \<Rightarrow>
          (let spec = (case lo_spec l of Some s \<Rightarrow> s | None \<Rightarrow> empty_spec)
           in if named_holder spec \<noteq> Some identity \<and> \<not> lease_expired spec now
              then Inl (Inr (Follower (named_holder spec) (lease_transitions_of l)))
              else if lo_resource_version l = None then Inl (Inl InvalidObject)
              else Inr (ReplaceLease (l\<lparr>lo_spec := Some (renewed_spec cfg identity now spec)\<rparr>))))"

definition claim_after_write :: "str \<Rightarrow> lease_write \<Rightarrow> lease_api_error + lease \<Rightarrow> lease_api_error + claim_outcome" where
  "claim_after_write identity w answer =
     (case w of
        CreateLease _ \<Rightarrow>
          (case answer of
             Inr created \<Rightarrow> Inr (Holder (lease_transitions_of created))
           | Inl e \<Rightarrow> Inl (if e = AlreadyExists \<or> e = LeaseConflict then LeaseConflict else e))
      | ReplaceLease _ \<Rightarrow>
          (case answer of
             Inr replaced \<Rightarrow>
               (if (case lo_spec replaced of Some s \<Rightarrow> ls_holder_identity s | None \<Rightarrow> None) \<noteq> Some identity
                then Inl InvalidObject else Inr (Holder (lease_transitions_of replaced)))
           | Inl e \<Rightarrow> Inl e))"

text \<open>The whole claim, for an API given by its answers.\<close>

definition claim_once ::
  "(lease_api_error + lease) \<Rightarrow> (lease_write \<Rightarrow> lease_api_error + lease) \<Rightarrow> leader_election_config \<Rightarrow> int \<Rightarrow>
   lease_api_error + claim_outcome" where
  "claim_once got write_api cfg now =
     (case le_identity cfg of
        None \<Rightarrow> Inl InvalidObject
      | Some identity \<Rightarrow>
          (case claim_after_get cfg identity now got of
             Inl result \<Rightarrow> result
           | Inr w \<Rightarrow> claim_after_write identity w (write_api w)))"

section \<open>The state of a contender\<close>

record election_state =
  es_leader :: bool
  es_last_successful_renewal :: "int option"
  es_lease_transitions :: nat

definition default_election_state :: election_state where
  "default_election_state = \<lparr>es_leader = False, es_last_successful_renewal = None, es_lease_transitions = 0\<rparr>"

datatype election_event =
    Acquired nat | Renewed nat | Following "str option" nat | Lost "str option" nat
  | EvConflict bool bool | EvFailure lease_api_error bool bool

definition observe_claim ::
  "int \<Rightarrow> int \<Rightarrow> lease_api_error + claim_outcome \<Rightarrow> election_state \<Rightarrow> election_event \<times> election_state" where
  "observe_claim now renew_deadline result es =
     (case result of
        Inr (Holder n) \<Rightarrow>
          (if \<not> es_leader es then Acquired n else Renewed n,
           es\<lparr>es_leader := True, es_last_successful_renewal := Some now, es_lease_transitions := n\<rparr>)
      | Inr (Follower holder n) \<Rightarrow>
          (if es_leader es then Lost holder n else Following holder n,
           es\<lparr>es_leader := False, es_last_successful_renewal := None, es_lease_transitions := n\<rparr>)
      | Inl e \<Rightarrow>
          (let renewal = es_leader es;
               lost = renewal \<and> (case es_last_successful_renewal es of Some renewed \<Rightarrow> renew_deadline \<le> now - renewed | None \<Rightarrow> True)
           in (if e = LeaseConflict then EvConflict renewal lost else EvFailure e renewal lost,
               if lost then es\<lparr>es_leader := False, es_last_successful_renewal := None\<rparr> else es)))"

text \<open>What the loop sends on the leadership channel after an event.\<close>

definition leadership_signal :: "election_event \<Rightarrow> bool option" where
  "leadership_signal ev =
     (case ev of
        Acquired _ \<Rightarrow> Some True
      | Lost _ _ \<Rightarrow> Some False
      | EvConflict _ lost \<Rightarrow> (if lost then Some False else None)
      | EvFailure _ _ lost \<Rightarrow> (if lost then Some False else None)
      | _ \<Rightarrow> None)"

lemma leadership_signal_tracks_state:
  "snd (observe_claim now d r es) = es' \<Longrightarrow>
   es_leader es' = (case leadership_signal (fst (observe_claim now d r es)) of Some b \<Rightarrow> b | None \<Rightarrow> es_leader es)"
  by (auto simp: observe_claim_def leadership_signal_def Let_def split: sum.splits claim_outcome.splits if_splits)

section \<open>Worker generations\<close>

text \<open>
  \<open>supervise_leader_generations\<close> reacts to the observed values of the leadership channel, then to its
  closing. A worker is named by the number of workers started before it.
\<close>

datatype supervisor_event = FollowerHook | Start nat | Cancel nat | Join nat

definition stop_worker :: "nat option \<Rightarrow> supervisor_event list" where
  "stop_worker worker = FollowerHook # (case worker of Some g \<Rightarrow> [Cancel g, Join g] | None \<Rightarrow> [])"

fun supervise :: "nat \<Rightarrow> nat option \<Rightarrow> bool list \<Rightarrow> supervisor_event list" where
  "supervise n worker [] = stop_worker worker"
| "supervise n worker (is_leader # later) =
     (if is_leader \<and> worker = None then Start n # supervise (Suc n) (Some n) later
      else if \<not> is_leader then stop_worker worker @ supervise n None later
      else supervise n worker later)"

text \<open>The worker running after some events: at most one, or none if generations would overlap.\<close>

fun run_events :: "nat option \<Rightarrow> supervisor_event list \<Rightarrow> nat option option" where
  "run_events running [] = Some running"
| "run_events running (FollowerHook # es) = run_events running es"
| "run_events running (Start g # es) = (if running = None then run_events (Some g) es else None)"
| "run_events running (Cancel g # es) = (if running = Some g then run_events running es else None)"
| "run_events running (Join g # es) = (if running = Some g then run_events None es else None)"

lemma run_events_append:
  "run_events r (a @ b) = (case run_events r a of Some r' \<Rightarrow> run_events r' b | None \<Rightarrow> None)"
  by (induction r a rule: run_events.induct) auto

lemma run_stop_worker: "run_events worker (stop_worker worker) = Some None"
  by (auto simp: stop_worker_def split: option.splits)

lemma supervise_runs: "run_events worker (supervise n worker bs) = Some None"
  by (induction n worker bs rule: supervise.induct) (simp_all add: run_stop_worker run_events_append)

text \<open>
  Whatever the leadership channel shows, worker generations never overlap: a worker is started only after the
  previous one was cancelled and joined, and when the channel closes no worker is left running.
\<close>

theorem generations_never_overlap: "run_events None (supervise n None bs) = Some None"
  by (rule supervise_runs)

end
