(* ===== verification/LeaderNetwork.thy ===== *)
theory LeaderNetwork
  imports LeaderElection
begin

text \<open>
  Contenders that compete for one Lease: every process runs \<open>run_election_loop\<close> of
  \<open>backend/src/leader_election.rs\<close>, the API server accepts a replacement only for the version it carries, and
  requests may fail, be lost, or arrive after the caller gave up. Clocks may differ by a constant offset.
\<close>

section \<open>The network\<close>

datatype phase =
    Sleeping int
  | Reading
  | Writing lease_write
  | Reporting "lease_api_error + claim_outcome"

record contender =
  ct_state :: election_state
  ct_phase :: phase
  ct_started :: int

record network =
  nw_time :: int
  nw_lease :: "lease option"
  nw_next_version :: nat
  nw_contenders :: "str \<Rightarrow> contender"
  nw_in_flight :: "(str \<times> lease_write) set"

record election =
  el_cfg :: leader_election_config
  el_contenders :: "str set"
  el_skew :: "str \<Rightarrow> int"

definition retry_period :: "election \<Rightarrow> int" where
  "retry_period el = secs (int (le_retry_period_secs (el_cfg el)))"

definition renew_deadline :: "election \<Rightarrow> int" where
  "renew_deadline el = secs (int (le_renew_deadline_secs (el_cfg el)))"

definition lease_duration :: "election \<Rightarrow> int" where
  "lease_duration el = secs (int (le_lease_duration_secs (el_cfg el)))"

text \<open>
  The API server: a Lease is created once; a replacement must carry the current version, and every accepted
  write gets a new one.
\<close>

definition stored :: "lease \<Rightarrow> network \<Rightarrow> lease" where
  "stored l nw = l\<lparr>lo_resource_version := Some (nw_next_version nw)\<rparr>"

definition store :: "lease \<Rightarrow> network \<Rightarrow> network" where
  "store l nw = nw\<lparr>nw_lease := Some (stored l nw), nw_next_version := Suc (nw_next_version nw)\<rparr>"

definition server_apply :: "lease_write \<Rightarrow> network \<Rightarrow> (lease_api_error + lease) \<times> network" where
  "server_apply w nw =
     (case w of
        CreateLease l \<Rightarrow>
          (case nw_lease nw of None \<Rightarrow> (Inr (stored l nw), store l nw) | Some _ \<Rightarrow> (Inl AlreadyExists, nw))
      | ReplaceLease l \<Rightarrow>
          (case nw_lease nw of
             None \<Rightarrow> (Inl NotFound, nw)
           | Some current \<Rightarrow>
               (if lo_resource_version l = lo_resource_version current then (Inr (stored l nw), store l nw)
                else (Inl LeaseConflict, nw))))"

text \<open>A contender acts on time: a sleeper wakes when its period is over, a request ends within one period.\<close>

definition due :: "election \<Rightarrow> contender \<Rightarrow> int" where
  "due el c = (case ct_phase c of Sleeping wake \<Rightarrow> wake | _ \<Rightarrow> ct_started c + retry_period el)"

definition set_contender :: "str \<Rightarrow> contender \<Rightarrow> network \<Rightarrow> network" where
  "set_contender p c nw = nw\<lparr>nw_contenders := (nw_contenders nw)(p := c)\<rparr>"

abbreviation contender_of :: "network \<Rightarrow> str \<Rightarrow> contender" where
  "contender_of nw p \<equiv> nw_contenders nw p"

definition read_answer :: "network \<Rightarrow> lease_api_error + lease" where
  "read_answer nw = (case nw_lease nw of Some l \<Rightarrow> Inr l | None \<Rightarrow> Inl NotFound)"

definition after_read :: "election \<Rightarrow> str \<Rightarrow> int \<Rightarrow> lease_api_error + lease \<Rightarrow> phase" where
  "after_read el p started got =
     (case claim_after_get (el_cfg el) p (started + el_skew el p) got of
        Inl result \<Rightarrow> Reporting result
      | Inr w \<Rightarrow> Writing w)"

text \<open>The end of an attempt: its result is observed, and the contender sleeps for the rest of the period.\<close>

definition finish_attempt :: "election \<Rightarrow> int \<Rightarrow> lease_api_error + claim_outcome \<Rightarrow> contender \<Rightarrow> contender" where
  "finish_attempt el now result c =
     c\<lparr>ct_state := snd (observe_claim now (renew_deadline el) result (ct_state c)),
       ct_phase := Sleeping (ct_started c + retry_period el)\<rparr>"

definition abandon :: "str \<Rightarrow> network \<Rightarrow> network" where
  "abandon p nw =
     (case ct_phase (contender_of nw p) of
        Writing w \<Rightarrow> nw\<lparr>nw_in_flight := insert (p, w) (nw_in_flight nw)\<rparr>
      | _ \<Rightarrow> nw)"

inductive election_step :: "election \<Rightarrow> network \<Rightarrow> network \<Rightarrow> bool" for el where
  tick: "election_step el nw (nw\<lparr>nw_time := t\<rparr>)"
    if "nw_time nw \<le> t" "\<forall>p \<in> el_contenders el. t \<le> due el (contender_of nw p)"
| claim_start: "election_step el nw (set_contender p ((contender_of nw p)\<lparr>ct_phase := Reading, ct_started := nw_time nw\<rparr>) nw)"
    if "p \<in> el_contenders el" "ct_phase (contender_of nw p) = Sleeping wake" "wake \<le> nw_time nw"
| claim_read: "election_step el nw (set_contender p ((contender_of nw p)\<lparr>ct_phase :=
      after_read el p (ct_started (contender_of nw p)) (read_answer nw)\<rparr>) nw)"
    if "p \<in> el_contenders el" "ct_phase (contender_of nw p) = Reading"
| claim_read_fails: "election_step el nw (set_contender p ((contender_of nw p)\<lparr>ct_phase := Reporting (Inl e)\<rparr>) nw)"
    if "p \<in> el_contenders el" "ct_phase (contender_of nw p) = Reading" "e \<noteq> NotFound"
| claim_write: "election_step el nw (set_contender p ((contender_of nw p)\<lparr>ct_phase :=
      Reporting (claim_after_write p w (fst (server_apply w nw)))\<rparr>) (snd (server_apply w nw)))"
    if "p \<in> el_contenders el" "ct_phase (contender_of nw p) = Writing w"
| claim_write_fails: "election_step el nw (set_contender p ((contender_of nw p)\<lparr>ct_phase :=
      Reporting (claim_after_write p w (Inl e))\<rparr>) (abandon p nw))"
    if "p \<in> el_contenders el" "ct_phase (contender_of nw p) = Writing w"
| late_delivery: "election_step el nw (snd (server_apply w nw))"
    if "(p, w) \<in> nw_in_flight nw"
| claim_report: "election_step el nw (set_contender p (finish_attempt el (nw_time nw) r (contender_of nw p)) nw)"
    if "p \<in> el_contenders el" "ct_phase (contender_of nw p) = Reporting r"
| claim_timeout: "election_step el nw (set_contender p (finish_attempt el (nw_time nw) (Inl Transport) (contender_of nw p)) (abandon p nw))"
    if "p \<in> el_contenders el" "\<forall>wake. ct_phase (contender_of nw p) \<noteq> Sleeping wake"
      "nw_time nw = ct_started (contender_of nw p) + retry_period el"
| restart: "election_step el nw (set_contender p
      \<lparr>ct_state = default_election_state, ct_phase = Sleeping (nw_time nw), ct_started = nw_time nw\<rparr> (abandon p nw))"
    if "p \<in> el_contenders el"

definition initial_network :: network where
  "initial_network =
     \<lparr>nw_time = 0, nw_lease = None, nw_next_version = 0,
      nw_contenders = (\<lambda>_. \<lparr>ct_state = default_election_state, ct_phase = Sleeping 0, ct_started = 0\<rparr>),
      nw_in_flight = {}\<rparr>"

inductive election_reachable :: "election \<Rightarrow> network \<Rightarrow> bool" for el where
  initially: "election_reachable el initial_network"
| stepping: "election_reachable el nw'" if "election_reachable el nw" "election_step el nw nw'"

abbreviation leads :: "network \<Rightarrow> str \<Rightarrow> bool" where
  "leads nw p \<equiv> es_leader (ct_state (contender_of nw p))"

section \<open>The invariant\<close>

text \<open>
  How long after the start of its last successful attempt a contender may still hold itself to be leader:
  whole periods, up to the first attempt that ends after the deadline.
\<close>

definition belief_bound :: "election \<Rightarrow> int" where
  "belief_bound el =
     retry_period el * ((renew_deadline el + retry_period el - 1) div retry_period el + 2)"

definition safe_election :: "election \<Rightarrow> int \<Rightarrow> bool" where
  "safe_election el skew_bound \<longleftrightarrow>
     wf_leader_config (el_cfg el) \<and> (\<forall>p \<in> el_contenders el. wf_identity p \<and> \<bar>el_skew el p\<bar> \<le> skew_bound) \<and>
     belief_bound el + 2 * skew_bound < lease_duration el"

definition held :: "election \<Rightarrow> lease \<Rightarrow> str \<Rightarrow> int \<Rightarrow> bool" where
  "held el l p s \<longleftrightarrow>
     (\<exists>sp. lo_spec l = Some sp \<and> ls_holder_identity sp = Some p \<and> ls_renew_time sp = Some (s + el_skew el p) \<and>
        ls_lease_duration_seconds sp = Some (int (le_lease_duration_secs (el_cfg el))))"

fun written :: "lease_write \<Rightarrow> lease" where
  "written (CreateLease l) = l"
| "written (ReplaceLease l) = l"

text \<open>A replacement under way is either a renewal, or the version it carries had expired when it was read.\<close>

definition justified :: "election \<Rightarrow> network \<Rightarrow> str \<Rightarrow> int \<Rightarrow> lease_write \<Rightarrow> bool" where
  "justified el nw p s w \<longleftrightarrow>
     (case w of
        CreateLease _ \<Rightarrow> True
      | ReplaceLease l \<Rightarrow>
          (\<exists>v. lo_resource_version l = Some v \<and> v < nw_next_version nw \<and>
             (\<forall>current h s'. nw_lease nw = Some current \<and> lo_resource_version current = Some v \<and> held el current h s' \<longrightarrow>
                (h = p \<and> s' \<le> s) \<or> s' + el_skew el h + lease_duration el \<le> s + el_skew el p)))"

definition on_time :: "election \<Rightarrow> network \<Rightarrow> str \<Rightarrow> bool" where
  "on_time el nw p \<longleftrightarrow>
     ct_started (contender_of nw p) \<le> nw_time nw \<and> nw_time nw \<le> due el (contender_of nw p)"

definition writes_ok :: "election \<Rightarrow> network \<Rightarrow> bool" where
  "writes_ok el nw \<longleftrightarrow>
     (\<forall>p w.
        (p \<in> el_contenders el \<and> ct_phase (contender_of nw p) = Writing w \<longrightarrow>
           held el (written w) p (ct_started (contender_of nw p)) \<and>
           justified el nw p (ct_started (contender_of nw p)) w) \<and>
        ((p, w) \<in> nw_in_flight nw \<longrightarrow> p \<in> el_contenders el \<and>
           (\<exists>s \<le> ct_started (contender_of nw p). held el (written w) p s \<and> justified el nw p s w)))"

definition lease_ok :: "election \<Rightarrow> network \<Rightarrow> bool" where
  "lease_ok el nw \<longleftrightarrow>
     (\<forall>l. nw_lease nw = Some l \<longrightarrow>
        (\<exists>v < nw_next_version nw. lo_resource_version l = Some v) \<and>
        (\<exists>h \<in> el_contenders el. \<exists>s \<le> ct_started (contender_of nw h). held el l h s))"

definition entitled :: "election \<Rightarrow> network \<Rightarrow> str \<Rightarrow> int \<Rightarrow> bool" where
  "entitled el nw p a \<longleftrightarrow> (\<exists>l s. nw_lease nw = Some l \<and> held el l p s \<and> a \<le> s)"

text \<open>The start of the current attempt, or of the next one.\<close>

definition attempt_base :: "contender \<Rightarrow> int" where
  "attempt_base c = (case ct_phase c of Sleeping wake \<Rightarrow> wake | _ \<Rightarrow> ct_started c)"

definition believes :: "election \<Rightarrow> network \<Rightarrow> str \<Rightarrow> int \<Rightarrow> bool" where
  "believes el nw p a \<longleftrightarrow>
     (let c = contender_of nw p
      in (\<exists>renewed m. es_last_successful_renewal (ct_state c) = Some renewed \<and> a \<le> renewed \<and> renewed \<le> a + retry_period el \<and>
            attempt_base c = a + m * retry_period el \<and> 0 \<le> m \<and> m * retry_period el < renew_deadline el + 2 * retry_period el))"

definition leaders_ok :: "election \<Rightarrow> network \<Rightarrow> bool" where
  "leaders_ok el nw \<longleftrightarrow>
     (\<forall>p \<in> el_contenders el.
        (leads nw p \<longrightarrow> (\<exists>a. entitled el nw p a \<and> believes el nw p a)) \<and>
        (\<forall>n. ct_phase (contender_of nw p) = Reporting (Inr (Holder n)) \<longrightarrow> entitled el nw p (ct_started (contender_of nw p))))"

definition election_inv :: "election \<Rightarrow> network \<Rightarrow> bool" where
  "election_inv el nw \<longleftrightarrow>
     (\<forall>p \<in> el_contenders el. on_time el nw p) \<and> writes_ok el nw \<and> lease_ok el nw \<and> leaders_ok el nw"


section \<open>Timing\<close>

lemma retry_pos: "wf_leader_config (el_cfg el) \<Longrightarrow> 0 < retry_period el"
  by (simp add: wf_leader_config_def retry_period_def secs_def)

lemma periods_le_bound:
  assumes "0 < retry_period el" "m * retry_period el < renew_deadline el + 2 * retry_period el"
  shows "(m + 1) * retry_period el \<le> belief_bound el"
proof -
  let ?r = "retry_period el" and ?d = "renew_deadline el"
  have "(m - 2) * ?r \<le> ?d - 1" using assms(2) by (simp add: algebra_simps)
  then have "(m - 2) * ?r + ?r \<le> ?d + ?r - 1" by linarith
  then have "(m - 1) * ?r \<le> ?d + ?r - 1" by (simp add: algebra_simps)
  then have "m - 1 \<le> (?d + ?r - 1) div ?r" using zdiv_mono1 [OF _ assms(1)] assms(1) by fastforce
  then have "m + 1 \<le> (?d + ?r - 1) div ?r + 2" by linarith
  then show ?thesis unfolding belief_bound_def using assms(1) by (simp add: mult.commute mult_right_mono)
qed

lemma retry_le_bound:
  assumes "wf_leader_config (el_cfg el)"
  shows "retry_period el \<le> belief_bound el"
  using periods_le_bound [of el 0] retry_pos [OF assms] assms
  by (simp add: wf_leader_config_def renew_deadline_def secs_def)

lemma belief_ends:
  assumes "wf_leader_config (el_cfg el)" "on_time el nw p" "believes el nw p a"
  shows "nw_time nw \<le> a + belief_bound el"
proof -
  let ?r = "retry_period el"
  obtain m where m: "attempt_base (contender_of nw p) = a + m * ?r" "m * ?r < renew_deadline el + 2 * ?r"
    using assms(3) by (auto simp: believes_def Let_def)
  have r: "0 < ?r" by (rule retry_pos) (rule assms(1))
  have "due el (contender_of nw p) \<le> attempt_base (contender_of nw p) + ?r"
    using r by (auto simp: due_def attempt_base_def split: phase.splits)
  then have "nw_time nw \<le> a + (m + 1) * ?r" using assms(2) m(1) by (simp add: on_time_def algebra_simps)
  then show ?thesis using periods_le_bound [OF r m(2)] by linarith
qed

lemma as_i32_small: "n \<le> 300 \<Longrightarrow> as_i32 n = int n"
  by (simp add: as_i32_def)

lemma held_unique: "held el l p s \<Longrightarrow> held el l q s' \<Longrightarrow> p = q \<and> s = s'"
  by (auto simp: held_def)

lemma held_stored [simp]: "held el (stored l nw) p s = held el l p s"
  by (simp add: held_def stored_def)

lemma expired_held:
  assumes "held el l p s" "lo_spec l = Some sp" "wf_identity p" "wf_leader_config (el_cfg el)"
  shows "lease_expired sp now \<longleftrightarrow> s + el_skew el p + lease_duration el \<le> now" "named_holder sp = Some p"
proof -
  have "ls_holder_identity sp = Some p" "ls_renew_time sp = Some (s + el_skew el p)"
    "ls_lease_duration_seconds sp = Some (int (le_lease_duration_secs (el_cfg el)))"
    using assms(1,2) by (auto simp: held_def)
  moreover have "trim p = p" "p \<noteq> []" using assms(3) by (auto simp: wf_identity_def trim_id)
  moreover have "0 < le_lease_duration_secs (el_cfg el)" using assms(4) by (simp add: wf_leader_config_def)
  ultimately show "lease_expired sp now \<longleftrightarrow> s + el_skew el p + lease_duration el \<le> now" "named_holder sp = Some p"
    by (simp_all add: lease_expired_def named_holder_def lease_duration_def)
qed

section \<open>Writes\<close>

lemma held_new_lease:
  "wf_leader_config (el_cfg el) \<Longrightarrow> held el (new_lease (el_cfg el) p (s + el_skew el p)) p s"
  by (simp add: held_def new_lease_def as_i32_small wf_leader_config_def)

lemma held_renewed:
  "wf_leader_config (el_cfg el) \<Longrightarrow>
   held el (l\<lparr>lo_spec := Some (renewed_spec (el_cfg el) p (s + el_skew el p) sp)\<rparr>) p s"
  by (simp add: held_def renewed_spec_def Let_def as_i32_small wf_leader_config_def)

text \<open>What a read prepares is justified by what it read.\<close>

lemma after_read_Writing:
  assumes "safe_election el e" "lease_ok el nw" "p \<in> el_contenders el"
    "after_read el p (ct_started (contender_of nw p)) (read_answer nw) = Writing w"
  shows "held el (written w) p (ct_started (contender_of nw p)) \<and> justified el nw p (ct_started (contender_of nw p)) w"
proof -
  let ?s = "ct_started (contender_of nw p)"
  have cfg: "wf_leader_config (el_cfg el)" using assms(1) by (simp add: safe_election_def)
  have w: "claim_after_get (el_cfg el) p (?s + el_skew el p) (read_answer nw) = Inr w"
    using assms(4) by (auto simp: after_read_def split: sum.splits)
  show ?thesis
  proof (cases "nw_lease nw")
    case None
    with w have "w = CreateLease (new_lease (el_cfg el) p (?s + el_skew el p))"
      by (simp add: claim_after_get_def read_answer_def)
    then show ?thesis using held_new_lease [OF cfg] by (simp add: justified_def)
  next
    case (Some l)
    then obtain v h s' where l: "lo_resource_version l = Some v" "v < nw_next_version nw" "h \<in> el_contenders el"
        "s' \<le> ct_started (contender_of nw h)" "held el l h s'"
      using assms(2) unfolding lease_ok_def by blast
    then obtain sp where sp: "lo_spec l = Some sp" by (auto simp: held_def)
    have "wf_identity h" using l(3) assms(1) by (simp add: safe_election_def)
    note ex = expired_held [OF l(5) sp this cfg]
    have ws: "w = ReplaceLease (l\<lparr>lo_spec := Some (renewed_spec (el_cfg el) p (?s + el_skew el p) sp)\<rparr>)"
      and cond: "h = p \<or> s' + el_skew el h + lease_duration el \<le> ?s + el_skew el p"
      using w Some sp l(1) ex by (auto simp: claim_after_get_def read_answer_def Let_def split: if_splits)
    have "(h' = p \<and> s'' \<le> ?s) \<or> s'' + el_skew el h' + lease_duration el \<le> ?s + el_skew el p"
      if "held el l h' s''" for h' s''
      using held_unique [OF that l(5)] cond l(4) by auto
    then show ?thesis using held_renewed [OF cfg] ws l(1,2) Some by (auto simp: justified_def)
  qed
qed


lemma server_apply_split:
  "(snd (server_apply w nw) = nw \<and> (\<exists>e. fst (server_apply w nw) = Inl e)) \<or>
   (server_apply w nw = (Inr (stored (written w) nw), store (written w) nw) \<and>
      (nw_lease nw = None \<or>
        (\<exists>current. w = ReplaceLease (written w) \<and> nw_lease nw = Some current \<and>
           lo_resource_version (written w) = lo_resource_version current)))"
  by (cases w; cases "nw_lease nw") (auto simp: server_apply_def)

lemma server_apply_cases:
  obtains (ignored) "snd (server_apply w nw) = nw" "\<exists>e. fst (server_apply w nw) = Inl e"
  | (accepted) "server_apply w nw = (Inr (stored (written w) nw), store (written w) nw)"
      "nw_lease nw = None \<or>
        (\<exists>current. w = ReplaceLease (written w) \<and> nw_lease nw = Some current \<and>
           lo_resource_version (written w) = lo_resource_version current)"
  using server_apply_split by metis

lemma store_simps [simp]:
  "nw_time (store l nw) = nw_time nw" "nw_contenders (store l nw) = nw_contenders nw"
  "nw_in_flight (store l nw) = nw_in_flight nw" "nw_lease (store l nw) = Some (stored l nw)"
  "nw_next_version (store l nw) = Suc (nw_next_version nw)"
  by (simp_all add: store_def)

lemma set_contender_simps [simp]:
  "nw_time (set_contender p c nw) = nw_time nw" "nw_lease (set_contender p c nw) = nw_lease nw"
  "nw_next_version (set_contender p c nw) = nw_next_version nw" "nw_in_flight (set_contender p c nw) = nw_in_flight nw"
  "contender_of (set_contender p c nw) q = (if q = p then c else contender_of nw q)"
  by (simp_all add: set_contender_def)

text \<open>A contender that is entitled and within its bound is not displaced by a justified write.\<close>

lemma entitled_kept:
  assumes "safe_election el e" "p \<in> el_contenders el" "q \<in> el_contenders el"
    "entitled el nw p a" "nw_time nw \<le> a + belief_bound el"
    "held el (written w) q s" "s \<le> nw_time nw" "justified el nw q s w"
  shows "entitled el (snd (server_apply w nw)) p a"
proof (cases rule: server_apply_cases [of w nw])
  case ignored
  then show ?thesis using assms(4) by simp
next
  case accepted
  obtain l sp where l: "nw_lease nw = Some l" "held el l p sp" "a \<le> sp"
    using assms(4) by (auto simp: entitled_def)
  with accepted obtain v where "w = ReplaceLease (written w)" "lo_resource_version (written w) = Some v"
      "lo_resource_version l = Some v"
    using assms(8) by (auto simp: justified_def split: lease_write.splits)
  then have "(p = q \<and> sp \<le> s) \<or> sp + el_skew el p + lease_duration el \<le> s + el_skew el q"
    using assms(8) l(1,2) by (auto simp: justified_def split: lease_write.splits)
  moreover have "\<bar>el_skew el p\<bar> \<le> e" "\<bar>el_skew el q\<bar> \<le> e" "belief_bound el + 2 * e < lease_duration el"
    using assms(1-3) by (simp_all add: safe_election_def)
  then have "\<not> sp + el_skew el p + lease_duration el \<le> s + el_skew el q"
    using l(3) assms(5,7) by linarith
  ultimately have "p = q" "a \<le> s" using l(3) by linarith+
  then show ?thesis using accepted assms(6) by (auto simp: entitled_def)
qed

lemma on_time_simps:
  "on_time el (store l nw) p = on_time el nw p"
  by (simp add: on_time_def)

lemma justified_store: "justified el nw p s w \<Longrightarrow> justified el (store l nw) p s w"
  by (auto simp: justified_def stored_def split: lease_write.splits intro: less_SucI)

lemma justified_cong:
  "nw_next_version nw' = nw_next_version nw \<Longrightarrow> nw_lease nw' = nw_lease nw \<Longrightarrow>
   justified el nw' p s w = justified el nw p s w"
  by (simp add: justified_def split: lease_write.split)

lemma entitled_cong: "nw_lease nw' = nw_lease nw \<Longrightarrow> entitled el nw' p a = entitled el nw p a"
  by (simp add: entitled_def)

lemma believes_cong: "nw_contenders nw' p = nw_contenders nw p \<Longrightarrow> believes el nw' p a = believes el nw p a"
  by (simp add: believes_def)

lemma reporting_in_time:
  assumes "wf_leader_config (el_cfg el)" "on_time el nw p" "\<forall>wake. ct_phase (contender_of nw p) \<noteq> Sleeping wake"
  shows "nw_time nw \<le> ct_started (contender_of nw p) + belief_bound el"
proof -
  have "nw_time nw \<le> ct_started (contender_of nw p) + retry_period el"
    using assms(2,3) by (auto simp: on_time_def due_def split: phase.splits)
  then show ?thesis using retry_le_bound [OF assms(1)] by linarith
qed

lemma inv_server_apply:
  assumes "safe_election el e" "election_inv el nw" "q \<in> el_contenders el" "s \<le> ct_started (contender_of nw q)"
    "held el (written w) q s" "justified el nw q s w"
  shows "election_inv el (snd (server_apply w nw))"
proof (cases rule: server_apply_cases [of w nw])
  case ignored
  then show ?thesis using assms(2) by simp
next
  case accepted
  let ?nw = "store (written w) nw"
  have nw': "snd (server_apply w nw) = ?nw" using accepted by simp
  have cfg: "wf_leader_config (el_cfg el)" using assms(1) by (simp add: safe_election_def)
  have time: "\<forall>p \<in> el_contenders el. on_time el nw p" using assms(2) by (simp add: election_inv_def)
  then have "s \<le> nw_time nw" using assms(3,4) by (force simp: on_time_def)
  note kept = entitled_kept [OF assms(1) _ assms(3) _ _ assms(5) this assms(6), unfolded nw']
  have "leaders_ok el ?nw"
    unfolding leaders_ok_def
  proof (intro ballI conjI impI allI)
    fix p assume p: "p \<in> el_contenders el" and "leads ?nw p"
    then obtain a where a: "entitled el nw p a" "believes el nw p a"
      using assms(2) by (auto simp: election_inv_def leaders_ok_def)
    then have "entitled el ?nw p a" using kept [OF p] belief_ends [OF cfg] time p by blast
    then show "\<exists>a. entitled el ?nw p a \<and> believes el ?nw p a" using a believes_cong [of ?nw p nw] by auto
  next
    fix p n assume p: "p \<in> el_contenders el" and r: "ct_phase (contender_of ?nw p) = Reporting (Inr (Holder n))"
    then have "entitled el nw p (ct_started (contender_of nw p))"
      using assms(2) by (auto simp: election_inv_def leaders_ok_def)
    then show "entitled el ?nw p (ct_started (contender_of ?nw p))"
      using kept [OF p] reporting_in_time [OF cfg] time p r by simp
  qed
  moreover have "writes_ok el ?nw"
    using assms(2) justified_store unfolding election_inv_def writes_ok_def by (simp, blast)
  moreover have "lease_ok el ?nw"
    using assms(3-5) by (auto simp: lease_ok_def stored_def held_def)
  ultimately show ?thesis unfolding nw' using time by (simp add: election_inv_def on_time_simps)
qed

lemma inv_abandon:
  assumes "election_inv el nw" "p \<in> el_contenders el"
  shows "election_inv el (abandon p nw)"
proof (cases "ct_phase (contender_of nw p)")
  case (Writing w)
  let ?nw = "nw\<lparr>nw_in_flight := insert (p, w) (nw_in_flight nw)\<rparr>"
  have j: "justified el ?nw q s x = justified el nw q s x" for q s x by (rule justified_cong) simp_all
  have "held el (written w) p (ct_started (contender_of nw p))" "justified el nw p (ct_started (contender_of nw p)) w"
    using assms Writing by (simp_all add: election_inv_def writes_ok_def)
  then have "writes_ok el ?nw" using assms by (auto simp: election_inv_def writes_ok_def j)
  moreover have "abandon p nw = ?nw" using Writing by (simp add: abandon_def)
  ultimately show ?thesis using assms(1)
    by (simp add: election_inv_def on_time_def lease_ok_def leaders_ok_def entitled_cong [of ?nw nw] believes_cong [of ?nw _ nw])
qed (use assms in \<open>simp_all add: abandon_def\<close>)


lemma abandon_simps [simp]:
  "nw_time (abandon p nw) = nw_time nw" "nw_lease (abandon p nw) = nw_lease nw"
  "nw_next_version (abandon p nw) = nw_next_version nw" "nw_contenders (abandon p nw) = nw_contenders nw"
  by (simp_all add: abandon_def split: phase.split)

lemma inv_in_flight:
  "election_inv el nw \<Longrightarrow> (q, w) \<in> nw_in_flight nw \<Longrightarrow> q \<in> el_contenders el \<and>
   (\<exists>s \<le> ct_started (contender_of nw q). held el (written w) q s \<and> justified el nw q s w)"
  by (simp add: election_inv_def writes_ok_def)

lemma inv_lease:
  assumes "election_inv el nw" "nw_lease nw = Some l"
  shows "\<exists>v < nw_next_version nw. lo_resource_version l = Some v"
    "\<exists>h \<in> el_contenders el. \<exists>s \<le> ct_started (contender_of nw h). held el l h s"
  using assms by (simp_all add: election_inv_def lease_ok_def)

text \<open>Moving one contender on keeps the invariant, if the contender itself satisfies it.\<close>

lemma inv_set_contender:
  assumes "election_inv el nw" "p \<in> el_contenders el" "ct_started (contender_of nw p) \<le> ct_started c"
    "ct_started c \<le> nw_time nw" "nw_time nw \<le> due el c"
    "\<And>w. ct_phase c = Writing w \<Longrightarrow> held el (written w) p (ct_started c) \<and> justified el nw p (ct_started c) w"
    "es_leader (ct_state c) \<Longrightarrow> \<exists>a. entitled el nw p a \<and> believes el (set_contender p c nw) p a"
    "\<And>n. ct_phase c = Reporting (Inr (Holder n)) \<Longrightarrow> entitled el nw p (ct_started c)"
  shows "election_inv el (set_contender p c nw)"
proof -
  let ?nw = "set_contender p c nw"
  have j: "justified el ?nw q s x = justified el nw q s x" for q s x by (rule justified_cong) simp_all
  have e: "entitled el ?nw q a = entitled el nw q a" for q a by (rule entitled_cong) simp
  have later: "ct_started (contender_of nw q) \<le> ct_started (contender_of ?nw q)" for q using assms(3) by simp
  have "\<forall>q \<in> el_contenders el. on_time el ?nw q"
    using assms(1,4,5) by (auto simp: election_inv_def on_time_def)
  moreover have "writes_ok el ?nw"
  proof -
    have "\<exists>s \<le> ct_started (contender_of ?nw q). held el (written w) q s \<and> justified el nw q s w"
      if flying: "(q, w) \<in> nw_in_flight nw" for q w
    proof -
      obtain s where "s \<le> ct_started (contender_of nw q)" "held el (written w) q s" "justified el nw q s w"
        using inv_in_flight [OF assms(1) flying] by blast
      then show ?thesis using later [of q] order_trans by blast
    qed
    then show ?thesis using assms(1,6) by (simp add: election_inv_def writes_ok_def j)
  qed
  moreover have "lease_ok el ?nw"
    unfolding lease_ok_def
  proof (intro allI impI)
    fix l assume "nw_lease ?nw = Some l"
    then have l: "nw_lease nw = Some l" by simp
    obtain h s where "h \<in> el_contenders el" "s \<le> ct_started (contender_of nw h)" "held el l h s"
      using inv_lease(2) [OF assms(1) l] by blast
    moreover note inv_lease(1) [OF assms(1) l]
    ultimately show "(\<exists>v < nw_next_version ?nw. lo_resource_version l = Some v) \<and>
        (\<exists>h \<in> el_contenders el. \<exists>s \<le> ct_started (contender_of ?nw h). held el l h s)"
      unfolding set_contender_simps(3) using later [of h] order_trans by blast
  qed
  moreover have "leaders_ok el ?nw"
    using assms(1,7,8) believes_cong [of ?nw _ nw] by (auto simp: election_inv_def leaders_ok_def e)
  ultimately show ?thesis by (simp add: election_inv_def)
qed

section \<open>Every step keeps the invariant\<close>

lemma inv_initial: "wf_leader_config (el_cfg el) \<Longrightarrow> election_inv el initial_network"
  by (auto simp: election_inv_def on_time_def due_def writes_ok_def lease_ok_def leaders_ok_def initial_network_def
      default_election_state_def)

lemma inv_on_time: "election_inv el nw \<Longrightarrow> p \<in> el_contenders el \<Longrightarrow> on_time el nw p"
  by (simp add: election_inv_def)

lemma inv_leads:
  "election_inv el nw \<Longrightarrow> p \<in> el_contenders el \<Longrightarrow> leads nw p \<Longrightarrow> \<exists>a. entitled el nw p a \<and> believes el nw p a"
  by (simp add: election_inv_def leaders_ok_def)

lemma inv_reports:
  "election_inv el nw \<Longrightarrow> p \<in> el_contenders el \<Longrightarrow> ct_phase (contender_of nw p) = Reporting (Inr (Holder n)) \<Longrightarrow>
   entitled el nw p (ct_started (contender_of nw p))"
  by (simp add: election_inv_def leaders_ok_def)

lemma inv_tick:
  assumes "election_inv el nw" "nw_time nw \<le> t" "\<forall>p \<in> el_contenders el. t \<le> due el (contender_of nw p)"
  shows "election_inv el (nw\<lparr>nw_time := t\<rparr>)"
proof -
  let ?nw = "nw\<lparr>nw_time := t\<rparr>"
  have "justified el ?nw q s x = justified el nw q s x" for q s x by (rule justified_cong) simp_all
  then have "writes_ok el ?nw" using assms(1) by (simp add: election_inv_def writes_ok_def)
  moreover have "\<forall>p \<in> el_contenders el. on_time el ?nw p" using assms by (fastforce simp: election_inv_def on_time_def)
  ultimately show ?thesis using assms(1)
    by (simp add: election_inv_def lease_ok_def leaders_ok_def entitled_cong [of ?nw nw] believes_cong [of ?nw _ nw])
qed

text \<open>The belief of a contender depends on its state and on the start of its attempt only.\<close>

lemma believes_moved:
  assumes "believes el nw p a" "ct_state c = ct_state (contender_of nw p)"
    "attempt_base c = attempt_base (contender_of nw p)"
  shows "believes el (set_contender p c nw') p a"
  using assms by (simp add: believes_def Let_def)

lemma inv_started:
  "election_inv el nw \<Longrightarrow> p \<in> el_contenders el \<Longrightarrow>
   ct_started (contender_of nw p) \<le> nw_time nw \<and> nw_time nw \<le> due el (contender_of nw p)"
  using inv_on_time by (auto simp: on_time_def)

text \<open>A step inside an attempt: the phase moves on, state and start stay.\<close>

lemma inv_phase:
  assumes "election_inv el nw" "p \<in> el_contenders el" "\<forall>wake. ct_phase (contender_of nw p) \<noteq> Sleeping wake"
    "\<forall>wake. ph \<noteq> Sleeping wake"
    "\<And>w. ph = Writing w \<Longrightarrow>
       held el (written w) p (ct_started (contender_of nw p)) \<and> justified el nw p (ct_started (contender_of nw p)) w"
    "\<And>n. ph = Reporting (Inr (Holder n)) \<Longrightarrow> entitled el nw p (ct_started (contender_of nw p))"
  shows "election_inv el (set_contender p ((contender_of nw p)\<lparr>ct_phase := ph\<rparr>) nw)"
proof (rule inv_set_contender [OF assms(1,2)])
  let ?c = "contender_of nw p" and ?c' = "(contender_of nw p)\<lparr>ct_phase := ph\<rparr>"
  have same: "due el ?c' = due el ?c" "attempt_base ?c' = attempt_base ?c"
    using assms(3,4) by (cases "ct_phase ?c"; cases ph; simp add: due_def attempt_base_def)+
  show "ct_started ?c \<le> ct_started ?c'" "ct_started ?c' \<le> nw_time nw" "nw_time nw \<le> due el ?c'"
    using inv_started [OF assms(1,2)] same by simp_all
  show "\<exists>a. entitled el nw p a \<and> believes el (set_contender p ?c' nw) p a" if lead: "es_leader (ct_state ?c')"
  proof -
    have "leads nw p" using lead by simp
    then obtain a where "entitled el nw p a" "believes el nw p a" using inv_leads [OF assms(1,2)] by blast
    then show ?thesis using believes_moved [of el nw p a ?c' nw] same(2) by auto
  qed
qed (use assms(5,6) in auto)

lemma inv_claim_start:
  assumes "election_inv el nw" "wf_leader_config (el_cfg el)" "p \<in> el_contenders el"
    "ct_phase (contender_of nw p) = Sleeping wake" "wake \<le> nw_time nw"
  shows "election_inv el (set_contender p ((contender_of nw p)\<lparr>ct_phase := Reading, ct_started := nw_time nw\<rparr>) nw)"
proof (rule inv_set_contender [OF assms(1,3)])
  let ?c = "contender_of nw p" and ?c' = "(contender_of nw p)\<lparr>ct_phase := Reading, ct_started := nw_time nw\<rparr>"
  have "nw_time nw = wake" using inv_started [OF assms(1,3)] assms(4,5) by (simp add: due_def)
  then have same: "attempt_base ?c' = attempt_base ?c" using assms(4) by (simp add: attempt_base_def)
  show "ct_started ?c \<le> ct_started ?c'" using inv_started [OF assms(1,3)] by simp
  show "nw_time nw \<le> due el ?c'" using retry_pos [OF assms(2)] by (simp add: due_def)
  show "\<exists>a. entitled el nw p a \<and> believes el (set_contender p ?c' nw) p a" if lead: "es_leader (ct_state ?c')"
  proof -
    have "leads nw p" using lead by simp
    then obtain a where "entitled el nw p a" "believes el nw p a" using inv_leads [OF assms(1,3)] by blast
    then show ?thesis using believes_moved [of el nw p a ?c' nw] same by auto
  qed
qed simp_all

lemma after_read_no_holder: "after_read el p s got \<noteq> Reporting (Inr (Holder n))" "after_read el p s got \<noteq> Sleeping wake"
  by (auto simp: after_read_def claim_after_get_def Let_def split: sum.splits if_splits)

lemma inv_claim_read:
  assumes "safe_election el e" "election_inv el nw" "p \<in> el_contenders el" "ct_phase (contender_of nw p) = Reading"
  shows "election_inv el (set_contender p ((contender_of nw p)\<lparr>ct_phase :=
      after_read el p (ct_started (contender_of nw p)) (read_answer nw)\<rparr>) nw)"
proof (rule inv_phase [OF assms(2,3)])
  have "lease_ok el nw" using assms(2) by (simp add: election_inv_def)
  then show "held el (written w) p (ct_started (contender_of nw p)) \<and> justified el nw p (ct_started (contender_of nw p)) w"
    if "after_read el p (ct_started (contender_of nw p)) (read_answer nw) = Writing w" for w
    using after_read_Writing [OF assms(1) _ assms(3) that] by simp
qed (use assms(4) after_read_no_holder in \<open>simp_all\<close>)

lemma server_apply_contenders: "nw_contenders (snd (server_apply w nw)) = nw_contenders nw"
  by (cases rule: server_apply_cases [of w nw]) simp_all

lemma inv_claim_write:
  assumes "safe_election el e" "election_inv el nw" "p \<in> el_contenders el" "ct_phase (contender_of nw p) = Writing w"
  shows "election_inv el (set_contender p ((contender_of nw p)\<lparr>ct_phase :=
      Reporting (claim_after_write p w (fst (server_apply w nw)))\<rparr>) (snd (server_apply w nw)))"
proof -
  let ?s = "ct_started (contender_of nw p)" and ?nw = "snd (server_apply w nw)"
  have w: "held el (written w) p ?s" "justified el nw p ?s w"
    using assms(2-4) by (simp_all add: election_inv_def writes_ok_def)
  have inv: "election_inv el ?nw" by (rule inv_server_apply [OF assms(1-3) _ w]) simp
  have same: "contender_of ?nw p = contender_of nw p" by (simp add: server_apply_contenders)
  have "entitled el ?nw p ?s" if "claim_after_write p w (fst (server_apply w nw)) = Inr (Holder n)" for n
  proof (cases rule: server_apply_cases [of w nw])
    case ignored
    then show ?thesis using that by (auto simp: claim_after_write_def split: lease_write.splits)
  next
    case accepted
    then show ?thesis using w(1) by (auto simp: entitled_def)
  qed
  then show ?thesis using inv_phase [OF inv assms(3), unfolded same, of "Reporting (claim_after_write p w (fst (server_apply w nw)))"]
      assms(4) by simp
qed

lemma inv_claim_write_fails:
  assumes "election_inv el nw" "p \<in> el_contenders el" "ct_phase (contender_of nw p) = Writing w"
  shows "election_inv el (set_contender p ((contender_of nw p)\<lparr>ct_phase :=
      Reporting (claim_after_write p w (Inl err))\<rparr>) (abandon p nw))"
proof -
  have "claim_after_write p w (Inl err) \<noteq> Inr (Holder n)" for n
    by (simp add: claim_after_write_def split: lease_write.split)
  then show ?thesis
    using inv_phase [OF inv_abandon [OF assms(1,2)] assms(2), unfolded abandon_simps, of "Reporting (claim_after_write p w (Inl err))"]
      assms(3) by simp
qed

lemma inv_late_delivery:
  assumes "safe_election el e" "election_inv el nw" "(p, w) \<in> nw_in_flight nw"
  shows "election_inv el (snd (server_apply w nw))"
  using inv_in_flight [OF assms(2,3)] inv_server_apply [OF assms(1,2)] by blast

text \<open>The end of an attempt, when a reported holder is entitled since the start of the attempt.\<close>

lemma believes_finished:
  assumes "believes el nw p a" "on_time el nw p" "\<forall>wake. ct_phase (contender_of nw p) \<noteq> Sleeping wake"
    "es_last_successful_renewal (ct_state (contender_of nw p)) = Some renewed" "nw_time nw - renewed < renew_deadline el"
    "ct_state c = ct_state (contender_of nw p)" "attempt_base c = ct_started (contender_of nw p) + retry_period el"
    "0 < retry_period el"
  shows "believes el (set_contender p c nw') p a"
proof -
  let ?c = "contender_of nw p" and ?r = "retry_period el"
  obtain m where m: "a \<le> renewed" "renewed \<le> a + ?r" "attempt_base ?c = a + m * ?r" "0 \<le> m"
    using assms(1,4) by (auto simp: believes_def Let_def)
  have "attempt_base ?c = ct_started ?c" using assms(3) by (cases "ct_phase ?c") (auto simp: attempt_base_def)
  moreover have "ct_started ?c \<le> nw_time nw" using assms(2) by (simp add: on_time_def)
  ultimately have "attempt_base c = a + (m + 1) * ?r" "(m + 1) * ?r < renew_deadline el + 2 * ?r"
    using m assms(5,7,8) by (simp_all add: algebra_simps)
  then show ?thesis
    using m assms(4,6) unfolding believes_def Let_def set_contender_simps
    by (intro exI [of _ renewed] exI [of _ "m + 1"]) simp
qed

lemma believes_renewed:
  assumes "on_time el nw p" "\<forall>wake. ct_phase (contender_of nw p) \<noteq> Sleeping wake"
    "es_last_successful_renewal (ct_state c) = Some (nw_time nw)"
    "attempt_base c = ct_started (contender_of nw p) + retry_period el" "wf_leader_config (el_cfg el)"
  shows "believes el (set_contender p c nw') p (ct_started (contender_of nw p))"
proof -
  have "due el (contender_of nw p) = ct_started (contender_of nw p) + retry_period el"
    using assms(2) by (cases "ct_phase (contender_of nw p)") (auto simp: due_def)
  moreover have "0 < retry_period el" "0 < renew_deadline el"
    using assms(5) by (simp_all add: wf_leader_config_def retry_period_def renew_deadline_def secs_def)
  ultimately show ?thesis using assms(1,3,4) unfolding believes_def Let_def set_contender_simps
    by (intro exI [of _ "nw_time nw"] exI [of _ 1]) (simp add: on_time_def)
qed

lemma observe_leader_cases:
  assumes "es_leader (snd (observe_claim now d result es))"
  obtains (holder) n where "result = Inr (Holder n)"
      "es_last_successful_renewal (snd (observe_claim now d result es)) = Some now"
  | (kept) renewed where "es_leader es" "snd (observe_claim now d result es) = es"
      "es_last_successful_renewal es = Some renewed" "now - renewed < d"
  using assms by (auto simp: observe_claim_def Let_def split: sum.splits claim_outcome.splits if_splits option.splits)

lemma inv_finish_attempt:
  assumes "election_inv el nw" "wf_leader_config (el_cfg el)" "p \<in> el_contenders el"
    "\<forall>wake. ct_phase (contender_of nw p) \<noteq> Sleeping wake"
    "\<And>n. r = Inr (Holder n) \<Longrightarrow> entitled el nw p (ct_started (contender_of nw p))"
  shows "election_inv el (set_contender p (finish_attempt el (nw_time nw) r (contender_of nw p)) nw)"
proof (rule inv_set_contender [OF assms(1,3)])
  let ?c = "contender_of nw p" and ?c' = "finish_attempt el (nw_time nw) r (contender_of nw p)"
  note time = inv_on_time [OF assms(1,3)]
  have base: "attempt_base ?c' = ct_started ?c + retry_period el" by (simp add: finish_attempt_def attempt_base_def)
  have "due el ?c = ct_started ?c + retry_period el" using assms(4) by (cases "ct_phase ?c") (auto simp: due_def)
  then show "ct_started ?c \<le> ct_started ?c'" "ct_started ?c' \<le> nw_time nw" "nw_time nw \<le> due el ?c'"
    using time by (simp_all add: finish_attempt_def on_time_def due_def)
  show "\<exists>a. entitled el nw p a \<and> believes el (set_contender p ?c' nw) p a" if "es_leader (ct_state ?c')"
  proof -
    have "es_leader (snd (observe_claim (nw_time nw) (renew_deadline el) r (ct_state ?c)))"
      using that by (simp add: finish_attempt_def)
    then show ?thesis
    proof (cases rule: observe_leader_cases)
      case (holder n)
      then have "believes el (set_contender p ?c' nw) p (ct_started ?c)"
        using believes_renewed [OF time assms(4) _ base assms(2)] by (simp add: finish_attempt_def)
      then show ?thesis using assms(5) holder(1) by blast
    next
      case (kept renewed)
      obtain a where a: "entitled el nw p a" "believes el nw p a" using inv_leads [OF assms(1,3)] kept(1) by blast
      have "ct_state ?c' = ct_state ?c" using kept(2) by (simp add: finish_attempt_def)
      from believes_finished [OF a(2) time assms(4) kept(3,4) this base retry_pos [OF assms(2)]] a(1)
      show ?thesis by blast
    qed
  qed
qed (simp_all add: finish_attempt_def)

lemma inv_restart:
  assumes "election_inv el nw" "p \<in> el_contenders el"
  shows "election_inv el (set_contender p
      \<lparr>ct_state = default_election_state, ct_phase = Sleeping (nw_time nw), ct_started = nw_time nw\<rparr> nw)"
  using inv_started [OF assms] by (intro inv_set_contender [OF assms]) (simp_all add: due_def default_election_state_def)

lemma inv_step:
  assumes "safe_election el e" "election_step el nw nw'" "election_inv el nw"
  shows "election_inv el nw'"
  using assms(2)
proof cases
  have cfg: "wf_leader_config (el_cfg el)" using assms(1) by (simp add: safe_election_def)
  {
    case (tick t)
    then show ?thesis using inv_tick [OF assms(3)] by simp
  next
    case (claim_start p wake)
    then show ?thesis using inv_claim_start [OF assms(3) cfg] by simp
  next
    case (claim_read p)
    then show ?thesis using inv_claim_read [OF assms(1,3)] by simp
  next
    case (claim_read_fails p err)
    then show ?thesis using inv_phase [OF assms(3), of p "Reporting (Inl err)"] by simp
  next
    case (claim_write p w)
    then show ?thesis using inv_claim_write [OF assms(1,3)] by simp
  next
    case (claim_write_fails p w err)
    then show ?thesis using inv_claim_write_fails [OF assms(3)] by simp
  next
    case (late_delivery p w)
    then show ?thesis using inv_late_delivery [OF assms(1,3)] by simp
  next
    case (claim_report p r)
    then show ?thesis using inv_finish_attempt [OF assms(3) cfg, of p r] inv_reports [OF assms(3)] by auto
  next
    case (claim_timeout p)
    then show ?thesis
      using inv_finish_attempt [OF inv_abandon [OF assms(3)] cfg, of p p "Inl Transport"] by simp
  next
    case (restart p)
    then show ?thesis using inv_restart [OF inv_abandon [OF assms(3)], of p p] by simp
  }
qed

lemma election_inv_reachable:
  assumes "safe_election el e" "election_reachable el nw"
  shows "election_inv el nw"
  using assms(2)
proof induction
  case initially
  then show ?case using inv_initial assms(1) by (simp add: safe_election_def)
next
  case (stepping nw nw')
  then show ?case using inv_step [OF assms(1)] by blast
qed

section \<open>Runs\<close>

text \<open>Steps as commands, to execute a run.\<close>

datatype election_action =
    Tick int | ClaimStart str | ClaimRead str | ClaimWrite str | ClaimReport str | ClaimTimeout str

fun perform :: "election \<Rightarrow> election_action \<Rightarrow> network \<Rightarrow> network option" where
  "perform el (Tick t) nw =
     (if nw_time nw \<le> t \<and> (\<forall>p \<in> el_contenders el. t \<le> due el (contender_of nw p)) then Some (nw\<lparr>nw_time := t\<rparr>) else None)"
| "perform el (ClaimStart p) nw =
     (case ct_phase (contender_of nw p) of
        Sleeping wake \<Rightarrow>
          (if p \<in> el_contenders el \<and> wake \<le> nw_time nw
           then Some (set_contender p ((contender_of nw p)\<lparr>ct_phase := Reading, ct_started := nw_time nw\<rparr>) nw) else None)
      | _ \<Rightarrow> None)"
| "perform el (ClaimRead p) nw =
     (if p \<in> el_contenders el \<and> ct_phase (contender_of nw p) = Reading
      then Some (set_contender p ((contender_of nw p)\<lparr>ct_phase :=
             after_read el p (ct_started (contender_of nw p)) (read_answer nw)\<rparr>) nw) else None)"
| "perform el (ClaimWrite p) nw =
     (case ct_phase (contender_of nw p) of
        Writing w \<Rightarrow>
          (if p \<in> el_contenders el
           then Some (set_contender p ((contender_of nw p)\<lparr>ct_phase :=
                  Reporting (claim_after_write p w (fst (server_apply w nw)))\<rparr>) (snd (server_apply w nw))) else None)
      | _ \<Rightarrow> None)"
| "perform el (ClaimReport p) nw =
     (case ct_phase (contender_of nw p) of
        Reporting r \<Rightarrow>
          (if p \<in> el_contenders el
           then Some (set_contender p (finish_attempt el (nw_time nw) r (contender_of nw p)) nw) else None)
      | _ \<Rightarrow> None)"
| "perform el (ClaimTimeout p) nw =
     (case ct_phase (contender_of nw p) of
        Sleeping _ \<Rightarrow> None
      | _ \<Rightarrow>
          (if p \<in> el_contenders el \<and> nw_time nw = ct_started (contender_of nw p) + retry_period el
           then Some (set_contender p (finish_attempt el (nw_time nw) (Inl Transport) (contender_of nw p)) (abandon p nw))
           else None))"

lemma perform_step: "perform el act nw = Some nw' \<Longrightarrow> election_step el nw nw'"
proof (cases act)
  case (ClaimTimeout p)
  assume "perform el act nw = Some nw'"
  with ClaimTimeout have p: "p \<in> el_contenders el" "\<forall>wake. ct_phase (contender_of nw p) \<noteq> Sleeping wake"
      "nw_time nw = ct_started (contender_of nw p) + retry_period el"
      "nw' = set_contender p (finish_attempt el (nw_time nw) (Inl Transport) (contender_of nw p)) (abandon p nw)"
    by (auto split: phase.splits if_splits)
  then show ?thesis using claim_timeout [OF p(1-3)] by (simp only: p(4))
qed (auto split: phase.splits if_splits intro: election_step.intros)

fun perform_all :: "election \<Rightarrow> election_action list \<Rightarrow> network \<Rightarrow> network option" where
  "perform_all el [] nw = Some nw"
| "perform_all el (act # acts) nw = (case perform el act nw of Some nw' \<Rightarrow> perform_all el acts nw' | None \<Rightarrow> None)"

lemma perform_all_reachable:
  "election_reachable el nw \<Longrightarrow> perform_all el acts nw = Some nw' \<Longrightarrow> election_reachable el nw'"
  by (induction acts arbitrary: nw) (auto split: option.splits dest: perform_step intro: stepping)

definition reaches :: "election \<Rightarrow> election_action list \<Rightarrow> (network \<Rightarrow> bool) \<Rightarrow> bool" where
  "reaches el acts P = (case perform_all el acts initial_network of Some nw \<Rightarrow> P nw | None \<Rightarrow> False)"

lemma reachesD: "reaches el acts P \<Longrightarrow> \<exists>nw. election_reachable el nw \<and> P nw"
  using perform_all_reachable [OF initially] by (auto simp: reaches_def split: option.splits)

definition two_contenders :: "nat \<Rightarrow> nat \<Rightarrow> nat \<Rightarrow> election" where
  "two_contenders lease renew retry =
     \<lparr>el_cfg = \<lparr>le_enabled = True, le_lease_name = lit ''leader'', le_identity = Some (lit ''a''),
        le_lease_duration_secs = lease, le_renew_deadline_secs = renew, le_retry_period_secs = retry\<rparr>,
      el_contenders = {lit ''a'', lit ''b''}, el_skew = (\<lambda>_. 0)\<rparr>"

definition claim_now :: "str \<Rightarrow> election_action list" where
  "claim_now p = [ClaimStart p, ClaimRead p, ClaimWrite p, ClaimReport p]"

definition tight_vars :: leader_vars where
  "tight_vars =
     \<lparr>lv_election_enabled = True, lv_lease_name = lit ''leader'', lv_identity = Some (lit ''a''),
      lv_lease_duration_secs = 21, lv_renew_deadline_secs = 20, lv_retry_period_secs = 19\<rparr>"

definition split_brain_run :: "election_action list" where
  "split_brain_run =
     [ClaimStart (lit ''a''), ClaimStart (lit ''b''), ClaimRead (lit ''a''), ClaimWrite (lit ''a''), Tick (secs 19),
      ClaimReport (lit ''a''), ClaimTimeout (lit ''b''), ClaimStart (lit ''a''), ClaimStart (lit ''b''), Tick (secs 38),
      ClaimTimeout (lit ''a''), ClaimTimeout (lit ''b'')] @ claim_now (lit ''b'')"

lemma safe_two_contenders: "safe_election (two_contenders 30 20 4) 900000"
  by (auto simp: safe_election_def two_contenders_def wf_leader_config_def wf_identity_def belief_bound_def
      retry_period_def renew_deadline_def lease_duration_def secs_def trimmed_def str_simps is_whitespace_def)

lemma a_leads: "reaches (two_contenders 30 20 4) (claim_now (lit ''a'')) (\<lambda>nw. leads nw (lit ''a''))"
  by code_simp

lemmas run_simps =
  reaches_def two_contenders_def initial_network_def due_def retry_period_def renew_deadline_def secs_def claim_now_def
  set_contender_def after_read_def read_answer_def claim_after_get_def claim_after_write_def server_apply_def store_def
  stored_def finish_attempt_def abandon_def observe_claim_def default_election_state_def new_lease_def as_i32_def
  renewed_spec_def lease_expired_def named_holder_def lease_transitions_of_def i32_saturating_add1_def trim_def
  is_whitespace_def str_simps Let_def

lemma split_brain: "reaches (two_contenders 21 20 19) split_brain_run (\<lambda>nw. leads nw (lit ''a'') \<and> leads nw (lit ''b''))"
  by (simp add: split_brain_run_def run_simps)

section \<open>At most one leader\<close>

text \<open>
  C2: With clocks that agree up to a bound, and a Lease that outlives the longest time a contender may still
  believe in its last renewal, no two contenders ever lead at the same time, whatever requests fail, get
  lost or arrive late, and whichever contenders restart.
\<close>

theorem at_most_one_leader:
  assumes "safe_election el skew_bound" "election_reachable el nw"
    "p \<in> el_contenders el" "q \<in> el_contenders el" "leads nw p" "leads nw q"
  shows "p = q"
proof -
  note inv = election_inv_reachable [OF assms(1,2)]
  obtain a b where "entitled el nw p a" "entitled el nw q b"
    using inv_leads [OF inv assms(3,5)] inv_leads [OF inv assms(4,6)] by blast
  then show ?thesis using held_unique by (fastforce simp: entitled_def)
qed

theorem at_most_one_leader_witness:
  "\<exists>nw. election_reachable (two_contenders 30 20 4) nw \<and> leads nw (lit ''a'') \<and> \<not> leads nw (lit ''b'')"
proof -
  obtain nw where nw: "election_reachable (two_contenders 30 20 4) nw" "leads nw (lit ''a'')"
    using reachesD [OF a_leads] by blast
  have "lit ''a'' \<noteq> lit ''b''" by code_simp
  then show ?thesis
    using nw at_most_one_leader [OF safe_two_contenders nw(1), of "lit ''a''" "lit ''b''"]
    by (auto simp: two_contenders_def)
qed

text \<open>
  The validation of the timing does not ensure the margin: with a retry period of 19, a renewal deadline of
  20 and a Lease of 21 seconds, which \<open>leader_from_vars\<close> accepts, two contenders on one clock can lead at the
  same time.
\<close>

theorem accepted_timing_allows_two_leaders:
  "leader_from_vars tight_vars = Inr (el_cfg (two_contenders 21 20 19)) \<and>
   (\<exists>nw. election_reachable (two_contenders 21 20 19) nw \<and> leads nw (lit ''a'') \<and> leads nw (lit ''b''))"
proof
  have names: "trim (lit ''leader'') = lit ''leader''" "trim (lit ''a'') = lit ''a''" "lit ''a'' \<noteq> []"
    "is_dns_subdomain (lit ''leader'')" "is_dns_subdomain (lit ''a'')" "byte_len (lit ''a'') = 1"
    by (simp_all add: trim_def trim_start_def trim_end_def is_whitespace_def is_dns_subdomain_def is_dns_label_def split_def
        is_ascii_lowercase_def is_ascii_alphanumeric_def is_ascii_alphabetic_def is_ascii_digit_def utf8_width_def str_simps)
  show "leader_from_vars tight_vars = Inr (el_cfg (two_contenders 21 20 19))"
    by (simp add: leader_from_vars_def tight_vars_def two_contenders_def names MAX_LEASE_DURATION_SECS_def
        MAX_HOLDER_IDENTITY_BYTES_def)
  show "\<exists>nw. election_reachable (two_contenders 21 20 19) nw \<and> leads nw (lit ''a'') \<and> leads nw (lit ''b'')"
    using reachesD [OF split_brain] .
qed

end
