(* ===== verification/EffectivePackages.thy ===== *)
theory EffectivePackages
  imports TriggerParse
begin

text \<open>
  The packages a session really runs (\<open>backend/src/reconcile/manifest_expand.rs\<close>, \<open>effective_packages.rs\<close>,
  \<open>auth_fallback.rs\<close>): manifests are fetched, validated and merged with the packages of the trigger issue. GitHub's
  contents endpoint is a parameter with a state of type \<open>'w\<close>: it may answer the same request differently each time.
\<close>

section \<open>Fetching and validating a manifest\<close>

definition SUPPORTED_SCHEMA_VERSION :: nat where "SUPPORTED_SCHEMA_VERSION = 1"
definition MAX_PACKAGES :: nat where "MAX_PACKAGES = 64"

text \<open>The fields of the JSON object the expansion reads; \<open>serde_json\<close> is the parameter \<open>from_json\<close>.\<close>

record fkst_manifest =
  mf_schema_version :: nat
  mf_packages :: "str list"
  mf_package_env :: package_env

datatype manifest_error =
    FetchFailed str | ManifestNotFound | ManifestUnparsed | BadSchemaVersion nat | EmptyManifest | TooManyPackages nat
  | BadRef nat ref_error | BadPackageEnv package_env_error

record expanded_manifest =
  em_packages :: "package_ref list"
  em_package_env :: package_env

definition should_retry_without_auth :: "nat \<Rightarrow> bool" where
  "should_retry_without_auth status \<longleftrightarrow> status = 401 \<or> status = 403 \<or> status = 404"

text \<open>An answer of the endpoint: none after a transport error, else the status and the body if it could be read.\<close>

type_synonym 'w contents_endpoint = "bool \<Rightarrow> package_ref \<Rightarrow> 'w \<Rightarrow> (nat \<times> str option) option \<times> 'w"

definition read_manifest :: "nat \<times> str option \<Rightarrow> manifest_error + str" where
  "read_manifest response =
     (let status = fst response
      in if status = 404 then Inl ManifestNotFound
         else if status < 200 \<or> 300 \<le> status then Inl (FetchFailed (lit ''HTTP '' @ show_nat status))
         else ok_or (FetchFailed (lit ''body read error'')) (snd response))"

definition fetch_manifest_json :: "'w contents_endpoint \<Rightarrow> package_ref \<Rightarrow> 'w \<Rightarrow> (manifest_error + str) \<times> 'w" where
  "fetch_manifest_json request r w =
     (case request True r w of
        (None, w) \<Rightarrow> (Inl (FetchFailed (lit ''transport error'')), w)
      | (Some response, w) \<Rightarrow>
          if should_retry_without_auth (fst response)
          then (case request False r w of
                  (None, w) \<Rightarrow> (Inl (FetchFailed (lit ''transport error'')), w)
                | (Some response, w) \<Rightarrow> (read_manifest response, w))
          else (read_manifest response, w))"

fun parse_refs_from :: "nat \<Rightarrow> str list \<Rightarrow> manifest_error + package_ref list" where
  "parse_refs_from index [] = Inr []"
| "parse_refs_from index (entry # entries) =
     (case parse_package_ref entry of
        Inl e \<Rightarrow> Inl (BadRef index e)
      | Inr r \<Rightarrow> and_then (parse_refs_from (index + 1) entries) (\<lambda>rs. Inr (r # rs)))"

definition render_package_env :: "package_env \<Rightarrow> str" where
  "render_package_env given =
     concat (map (\<lambda>(package, keys). lit ''#### '' @ package @ [10] @
       concat (map (\<lambda>(key, val). key @ lit ''='' @ val @ [10]) keys)) given)"

definition validate_package_env :: "package_env \<Rightarrow> manifest_error + package_env" where
  "validate_package_env given =
     (if given = [] then Inr []
      else case parse_package_env (render_package_env given) of Inl e \<Rightarrow> Inl (BadPackageEnv e) | Inr env \<Rightarrow> Inr env)"

definition validate_manifest :: "fkst_manifest \<Rightarrow> manifest_error + expanded_manifest" where
  "validate_manifest m =
     (if mf_schema_version m \<noteq> SUPPORTED_SCHEMA_VERSION then Inl (BadSchemaVersion (mf_schema_version m))
      else if mf_packages m = [] then Inl EmptyManifest
      else if MAX_PACKAGES < length (mf_packages m) then Inl (TooManyPackages (length (mf_packages m)))
      else and_then (parse_refs_from 0 (mf_packages m)) (\<lambda>refs.
           and_then (validate_package_env (mf_package_env m)) (\<lambda>env.
             Inr \<lparr>em_packages = refs, em_package_env = env\<rparr>)))"

definition expand_manifest ::
  "'w contents_endpoint \<Rightarrow> (str \<Rightarrow> fkst_manifest option) \<Rightarrow> package_ref \<Rightarrow> 'w \<Rightarrow> (manifest_error + expanded_manifest) \<times> 'w"
where
  "expand_manifest request from_json r w =
     (let (body, w) = fetch_manifest_json request r w
      in (and_then body (\<lambda>b. and_then (ok_or ManifestUnparsed (from_json b)) validate_manifest), w))"

section \<open>Merging configuration\<close>

definition merge_setting :: "bool \<Rightarrow> str \<times> str \<Rightarrow> (str, str) btree_map \<Rightarrow> (str, str) btree_map" where
  "merge_setting overwrite setting block =
     (case bt_get block (fst setting) of
        None \<Rightarrow> bt_insert (fst setting) (snd setting) block
      | Some _ \<Rightarrow> if overwrite then bt_insert (fst setting) (snd setting) block else block)"

definition merge_block :: "bool \<Rightarrow> str \<times> (str, str) btree_map \<Rightarrow> package_env \<Rightarrow> package_env" where
  "merge_block overwrite b base =
     bt_insert (fst b)
       (fold (merge_setting overwrite) (snd b) (case bt_get base (fst b) of Some block \<Rightarrow> block | None \<Rightarrow> [])) base"

definition merge_package_env :: "package_env \<Rightarrow> package_env \<Rightarrow> bool \<Rightarrow> package_env" where
  "merge_package_env base overlay overwrite = fold (merge_block overwrite) overlay base"

text \<open>The first key that a second package configures, with both packages.\<close>

fun conflict_in :: "str \<Rightarrow> str list \<Rightarrow> (str \<rightharpoonup> str) \<Rightarrow> (str \<times> str \<times> str) + (str \<rightharpoonup> str)" where
  "conflict_in package [] owner = Inr owner"
| "conflict_in package (key # keys) owner =
     (case owner key of
        Some first \<Rightarrow>
          (if first \<noteq> package then Inl (key, first, package) else conflict_in package keys (owner(key \<mapsto> package)))
      | None \<Rightarrow> conflict_in package keys (owner(key \<mapsto> package)))"

fun conflict_from :: "package_env \<Rightarrow> (str \<rightharpoonup> str) \<Rightarrow> (str \<times> str \<times> str) option" where
  "conflict_from [] owner = None"
| "conflict_from ((package, keys) # rest) owner =
     (case conflict_in package (map fst keys) owner of
        Inl conflict \<Rightarrow> Some conflict
      | Inr owner \<Rightarrow> conflict_from rest owner)"

definition conflicting_package_env_key :: "package_env \<Rightarrow> (str \<times> str \<times> str) option" where
  "conflicting_package_env_key env = conflict_from env Map.empty"

section \<open>The effective set of one registration\<close>

datatype ref_key = RefKey str str str str

definition ref_key :: "package_ref \<Rightarrow> ref_key" where
  "ref_key r = RefKey (pr_owner r) (pr_repo r) (pr_git_ref r) (pr_path r)"

definition workspace_key :: "package_ref \<Rightarrow> str \<times> str \<times> str" where
  "workspace_key r = (to_ascii_lowercase (pr_owner r), to_ascii_lowercase (pr_repo r), pr_git_ref r)"

definition workspace_count :: "package_ref list \<Rightarrow> nat" where
  "workspace_count refs = length (remdups (map workspace_key refs))"

definition MAX_EFFECTIVE_PACKAGE_WORKSPACES :: nat where "MAX_EFFECTIVE_PACKAGE_WORKSPACES = 64"

datatype demotion =
    ManifestFailed package_ref manifest_error | NoPackages | TooManyWorkspaces nat | MissingMandatory "str list"
  | EnvKeyConflict str str str

fun dedup_refs :: "ref_key set \<Rightarrow> package_ref list \<Rightarrow> package_ref list" where
  "dedup_refs seen [] = []"
| "dedup_refs seen (r # rs) =
     (if ref_key r \<in> seen then dedup_refs seen rs else r # dedup_refs (insert (ref_key r) seen) rs)"

definition missing_mandatory :: "package_ref list \<Rightarrow> package_ref list \<Rightarrow> str list" where
  "missing_mandatory effective mandatory =
     map render_ref (filter (\<lambda>m. ref_key m \<notin> set (map ref_key effective)) mandatory)"

definition finish_effective ::
  "package_ref list \<Rightarrow> session_def \<Rightarrow> package_ref list \<times> package_env \<Rightarrow> demotion + package_ref list \<times> package_env" where
  "finish_effective mandatory d acc =
     (let deduped = dedup_refs {} (fst acc);
          workspaces = workspace_count deduped;
          missing = missing_mandatory deduped mandatory;
          env = merge_package_env (snd acc) (df_package_env d) True
      in if deduped = [] then Inl NoPackages
         else if MAX_EFFECTIVE_PACKAGE_WORKSPACES < workspaces then Inl (TooManyWorkspaces workspaces)
         else if missing \<noteq> [] then Inl (MissingMandatory missing)
         else case conflicting_package_env_key env of
                Some (key, first, second) \<Rightarrow> Inl (EnvKeyConflict key first second)
              | None \<Rightarrow> Inr (deduped, env))"

section \<open>One pass, with its cache of manifests\<close>

type_synonym manifest_cache = "ref_key \<rightharpoonup> manifest_error + expanded_manifest"

text \<open>The expansion of one manifest is the parameter \<open>expand\<close>, as \<^const>\<open>expand_manifest\<close> gives it.\<close>

type_synonym 'w expander = "package_ref \<Rightarrow> 'w \<Rightarrow> (manifest_error + expanded_manifest) \<times> 'w"

definition resolve_manifest ::
  "'w expander \<Rightarrow> package_ref \<Rightarrow> manifest_cache \<times> 'w \<Rightarrow> (manifest_error + expanded_manifest) \<times> manifest_cache \<times> 'w" where
  "resolve_manifest expand r st =
     (case fst st (ref_key r) of
        Some cached \<Rightarrow> (cached, st)
      | None \<Rightarrow> (let (result, w) = expand r (snd st) in (result, (fst st)(ref_key r \<mapsto> result), w)))"

fun expand_refs ::
  "'w expander \<Rightarrow> package_ref list \<Rightarrow> package_ref list \<times> package_env \<Rightarrow> manifest_cache \<times> 'w \<Rightarrow>
   (demotion + package_ref list \<times> package_env) \<times> manifest_cache \<times> 'w" where
  "expand_refs expand [] acc st = (Inr acc, st)"
| "expand_refs expand (r # rs) acc st =
     (case resolve_manifest expand r st of
        (Inl e, st) \<Rightarrow> (Inl (ManifestFailed r e), st)
      | (Inr x, st) \<Rightarrow>
          expand_refs expand rs (fst acc @ em_packages x, merge_package_env (snd acc) (em_package_env x) False) st)"

definition expand_one ::
  "'w expander \<Rightarrow> package_ref list \<Rightarrow> session_def \<Rightarrow> manifest_cache \<times> 'w \<Rightarrow>
   (demotion + package_ref list \<times> package_env) \<times> manifest_cache \<times> 'w" where
  "expand_one expand mandatory d st =
     (case expand_refs expand (df_manifest_refs d) (df_packages d, []) st of
        (Inl e, st) \<Rightarrow> (Inl e, st)
      | (Inr acc, st) \<Rightarrow> (finish_effective mandatory d acc, st))"

record effective_packages =
  ep_by_session :: "str \<rightharpoonup> package_ref list"
  ep_demotions :: "(int \<times> demotion) list"
  ep_package_env :: "str \<rightharpoonup> package_env"

fun resolve_each ::
  "'w expander \<Rightarrow> package_ref list \<Rightarrow> session_registration list \<Rightarrow> effective_packages \<Rightarrow> manifest_cache \<times> 'w \<Rightarrow>
   effective_packages \<times> manifest_cache \<times> 'w" where
  "resolve_each expand mandatory [] ep st = (ep, st)"
| "resolve_each expand mandatory (reg # regs) ep st =
     (case expand_one expand mandatory (rg_def reg) st of
        (Inr (ps, env), st) \<Rightarrow>
          resolve_each expand mandatory regs
            (ep\<lparr>ep_by_session := (ep_by_session ep)(rg_session_id reg \<mapsto> ps),
                ep_package_env := (ep_package_env ep)(rg_session_id reg \<mapsto> env)\<rparr>) st
      | (Inl d, st) \<Rightarrow>
          resolve_each expand mandatory regs
            (ep\<lparr>ep_demotions := ep_demotions ep @ [(rg_trigger_issue reg, d)]\<rparr>) st)"

definition resolve_effective_packages ::
  "'w expander \<Rightarrow> session_registration list \<Rightarrow> package_ref list \<Rightarrow> 'w \<Rightarrow> effective_packages \<times> 'w" where
  "resolve_effective_packages expand regs mandatory w =
     (let (ep, _, w) =
        resolve_each expand mandatory regs \<lparr>ep_by_session = Map.empty, ep_demotions = [], ep_package_env = Map.empty\<rparr>
          (Map.empty, w)
      in (ep\<lparr>ep_demotions := sort_key fst (ep_demotions ep)\<rparr>, w))"
section \<open>A pass reads each manifest once\<close>

text \<open>The set without a cache, from the answers \<open>ans\<close>.\<close>

fun gather ::
  "(ref_key \<Rightarrow> manifest_error + expanded_manifest) \<Rightarrow> package_ref list \<Rightarrow> package_ref list \<times> package_env \<Rightarrow>
   demotion + package_ref list \<times> package_env" where
  "gather ans [] acc = Inr acc"
| "gather ans (r # rs) acc =
     (case ans (ref_key r) of
        Inl e \<Rightarrow> Inl (ManifestFailed r e)
      | Inr x \<Rightarrow> gather ans rs (fst acc @ em_packages x, merge_package_env (snd acc) (em_package_env x) False))"

definition effective_of ::
  "(ref_key \<Rightarrow> manifest_error + expanded_manifest) \<Rightarrow> package_ref list \<Rightarrow> session_def \<Rightarrow>
   demotion + package_ref list \<times> package_env" where
  "effective_of ans mandatory d =
     and_then (gather ans (df_manifest_refs d) (df_packages d, [])) (finish_effective mandatory d)"

text \<open>Reading a list of manifests one after the other.\<close>

definition read_all :: "'w expander \<Rightarrow> package_ref list \<Rightarrow> manifest_cache \<times> 'w \<Rightarrow> manifest_cache \<times> 'w" where
  "read_all expand =
     fold (\<lambda>r st. let (x, w) = expand r (snd st) in ((fst st)(ref_key r \<mapsto> x), w))"

definition reads :: "'w expander \<Rightarrow> package_ref list \<Rightarrow> manifest_cache \<times> 'w \<Rightarrow> manifest_cache \<times> 'w \<Rightarrow> bool" where
  "reads expand refs st st' \<longleftrightarrow>
     (\<exists>fetched. distinct (map ref_key fetched) \<and> set fetched \<subseteq> set refs \<and> set (map ref_key fetched) \<inter> dom (fst st) = {} \<and>
        st' = read_all expand fetched st)"

lemma read_all_dom: "dom (fst (read_all expand rs st)) = dom (fst st) \<union> ref_key ` set rs"
  by (induction rs arbitrary: st) (auto simp: read_all_def split: prod.splits)

lemma read_all_append: "read_all expand (rs @ ss) st = read_all expand ss (read_all expand rs st)"
  by (simp add: read_all_def)

lemma read_all_keeps: "set (map ref_key rs) \<inter> dom (fst st) = {} \<Longrightarrow> fst st \<subseteq>\<^sub>m fst (read_all expand rs st)" if "distinct (map ref_key rs)"
  using that
proof (induction rs arbitrary: st)
  case (Cons r rs)
  obtain x w where e: "expand r (snd st) = (x, w)" by fastforce
  let ?st = "((fst st)(ref_key r \<mapsto> x), w)"
  have "set (map ref_key rs) \<inter> dom (fst ?st) = {}" using Cons.prems by simp
  moreover have "distinct (map ref_key rs)" using Cons.prems by simp
  ultimately have "fst ?st \<subseteq>\<^sub>m fst (read_all expand rs ?st)" using Cons.IH by blast
  moreover have "read_all expand (r # rs) st = read_all expand rs ?st" by (simp add: read_all_def e)
  moreover have "fst st \<subseteq>\<^sub>m fst ?st" using Cons.prems by (auto simp: map_le_def)
  ultimately show ?case using map_le_trans by metis
qed (simp add: read_all_def)

lemma reads_refl: "reads expand refs st st"
  unfolding reads_def by (rule exI [of _ "[]"]) (simp add: read_all_def)

lemma reads_trans:
  assumes "reads expand refs st st'" "reads expand refs st' st''"
  shows "reads expand refs st st''"
proof -
  obtain f where f: "distinct (map ref_key f)" "set f \<subseteq> set refs" "set (map ref_key f) \<inter> dom (fst st) = {}"
      "st' = read_all expand f st"
    using assms(1) by (auto simp: reads_def)
  obtain g where g: "distinct (map ref_key g)" "set g \<subseteq> set refs" "set (map ref_key g) \<inter> dom (fst st') = {}"
      "st'' = read_all expand g st'"
    using assms(2) by (auto simp: reads_def)
  have "distinct (map ref_key (f @ g))" "set (map ref_key (f @ g)) \<inter> dom (fst st) = {}"
    using f g unfolding f(4) read_all_dom by (auto simp: disjoint_iff)
  then show ?thesis
    unfolding reads_def using f(2,4) g(2,4) by (intro exI [of _ "f @ g"]) (simp add: read_all_append)
qed

lemma reads_keeps: "reads expand refs st st' \<Longrightarrow> fst st \<subseteq>\<^sub>m fst st'"
  unfolding reads_def using read_all_keeps by blast

lemma resolve_manifest_reads:
  assumes "resolve_manifest expand r st = (x, st')" "r \<in> set refs"
  shows "reads expand refs st st'" "fst st' (ref_key r) = Some x"
proof -
  have "reads expand refs st st' \<and> fst st' (ref_key r) = Some x"
  proof (cases "fst st (ref_key r)")
    case None
    then have "st' = read_all expand [r] st" "fst st' (ref_key r) = Some x"
      using assms(1) by (auto simp: resolve_manifest_def read_all_def Let_def split: prod.splits)
    then show ?thesis
      unfolding reads_def using None assms(2) by (intro conjI exI [of _ "[r]"]) (auto simp: domIff)
  next
    case (Some y)
    then have "st' = st" "x = y" using assms(1) by (auto simp: resolve_manifest_def)
    then show ?thesis using Some reads_refl by simp
  qed
  then show "reads expand refs st st'" "fst st' (ref_key r) = Some x" by blast+
qed

definition answers_of :: "manifest_cache \<Rightarrow> ref_key \<Rightarrow> manifest_error + expanded_manifest" where
  "answers_of cache k = (case cache k of Some x \<Rightarrow> x | None \<Rightarrow> Inl ManifestNotFound)"

lemma answers_of_le: "c \<subseteq>\<^sub>m c' \<Longrightarrow> c k = Some x \<Longrightarrow> answers_of c' k = x"
  by (metis answers_of_def domI map_le_def option.simps(5))

lemma expand_refs_reads:
  assumes "expand_refs expand rs acc st = (res, st')" "set rs \<subseteq> set refs"
  shows "reads expand refs st st' \<and> (\<forall>c. fst st' \<subseteq>\<^sub>m c \<longrightarrow> res = gather (answers_of c) rs acc)"
  using assms
proof (induction rs arbitrary: acc st)
  case Nil
  then show ?case by (simp add: reads_refl)
next
  case (Cons r rs)
  obtain x st1 where x: "resolve_manifest expand r st = (x, st1)" by (cases "resolve_manifest expand r st")
  have r: "reads expand refs st st1" "fst st1 (ref_key r) = Some x"
    using resolve_manifest_reads [OF x] Cons.prems(2) by auto
  show ?case
  proof (cases x)
    case (Inl e)
    with Cons.prems x r show ?thesis by (auto dest: answers_of_le)
  next
    case (Inr y)
    with Cons.prems x have y: "expand_refs expand rs (fst acc @ em_packages y, merge_package_env (snd acc) (em_package_env y) False) st1 =
        (res, st')" "set rs \<subseteq> set refs" by auto
    note ih = Cons.IH [OF y]
    have "answers_of c (ref_key r) = Inr y" if "fst st' \<subseteq>\<^sub>m c" for c
      using answers_of_le [OF map_le_trans [OF reads_keeps that] r(2)] ih Inr by blast
    moreover have "reads expand refs st st'" using reads_trans [OF r(1)] ih by blast
    ultimately show ?thesis using ih by simp
  qed
qed

lemma expand_one_reads:
  assumes "expand_one expand mandatory d st = (res, st')" "set (df_manifest_refs d) \<subseteq> set refs"
  shows "reads expand refs st st' \<and> (\<forall>c. fst st' \<subseteq>\<^sub>m c \<longrightarrow> res = effective_of (answers_of c) mandatory d)"
proof -
  obtain r st1 where e: "expand_refs expand (df_manifest_refs d) (df_packages d, []) st = (r, st1)" by (rule prod.exhaust)
  note g = expand_refs_reads [OF e assms(2)]
  have run: "(case r of Inl e \<Rightarrow> (Inl e, st1) | Inr acc \<Rightarrow> (finish_effective mandatory d acc, st1)) = (res, st')"
    using assms(1) unfolding expand_one_def e by (simp only: prod.case)
  have s: "st1 = st'" by (cases r) (use run in simp_all)
  have res: "res = and_then r (finish_effective mandatory d)" by (cases r) (use run in auto)
  have "res = effective_of (answers_of c) mandatory d" if "fst st' \<subseteq>\<^sub>m c" for c
  proof -
    have "r = gather (answers_of c) (df_manifest_refs d) (df_packages d, [])" using g s that by blast
    then show ?thesis unfolding res effective_of_def by (rule arg_cong)
  qed
  then show ?thesis using g s by blast
qed

text \<open>What the pass collects, given the answers.\<close>

definition collect ::
  "(ref_key \<Rightarrow> manifest_error + expanded_manifest) \<Rightarrow> package_ref list \<Rightarrow> session_registration \<Rightarrow> effective_packages \<Rightarrow>
   effective_packages" where
  "collect ans mandatory reg ep =
     (case effective_of ans mandatory (rg_def reg) of
        Inr (ps, env) \<Rightarrow>
          ep\<lparr>ep_by_session := (ep_by_session ep)(rg_session_id reg \<mapsto> ps),
             ep_package_env := (ep_package_env ep)(rg_session_id reg \<mapsto> env)\<rparr>
      | Inl d \<Rightarrow> ep\<lparr>ep_demotions := ep_demotions ep @ [(rg_trigger_issue reg, d)]\<rparr>)"

lemma resolve_each_reads:
  assumes "resolve_each expand mandatory regs ep st = (ep', st')"
    "\<Union> (set ` df_manifest_refs ` rg_def ` set regs) \<subseteq> set refs"
  shows "reads expand refs st st' \<and> (\<forall>c. fst st' \<subseteq>\<^sub>m c \<longrightarrow> ep' = fold (collect (answers_of c) mandatory) regs ep)"
  using assms
proof (induction regs arbitrary: ep st)
  case Nil
  then show ?case by (simp add: reads_refl)
next
  case (Cons reg regs)
  obtain r st1 where e: "expand_one expand mandatory (rg_def reg) st = (r, st1)" by (rule prod.exhaust)
  have o: "reads expand refs st st1 \<and> (\<forall>c. fst st1 \<subseteq>\<^sub>m c \<longrightarrow> r = effective_of (answers_of c) mandatory (rg_def reg))"
    using Cons.prems(2) by (intro expand_one_reads [OF e]) auto
  define ep1 where "ep1 = (case r of
      Inr (ps, env) \<Rightarrow> ep\<lparr>ep_by_session := (ep_by_session ep)(rg_session_id reg \<mapsto> ps),
             ep_package_env := (ep_package_env ep)(rg_session_id reg \<mapsto> env)\<rparr>
      | Inl d \<Rightarrow> ep\<lparr>ep_demotions := ep_demotions ep @ [(rg_trigger_issue reg, d)]\<rparr>)"
  have rest: "resolve_each expand mandatory regs ep1 st1 = (ep', st')"
    using Cons.prems(1) e by (auto simp: ep1_def split: sum.splits)
  have ih: "reads expand refs st1 st' \<and> (\<forall>c. fst st' \<subseteq>\<^sub>m c \<longrightarrow> ep' = fold (collect (answers_of c) mandatory) regs ep1)"
    using Cons.prems(2) by (intro Cons.IH [OF rest]) auto
  have "ep1 = collect (answers_of c) mandatory reg ep" if "fst st' \<subseteq>\<^sub>m c" for c
  proof -
    have "r = effective_of (answers_of c) mandatory (rg_def reg)"
      using o map_le_trans [OF reads_keeps [OF conjunct1 [OF ih]] that] by blast
    then show ?thesis unfolding ep1_def collect_def by (rule arg_cong)
  qed
  moreover have "reads expand refs st st'" using reads_trans [OF conjunct1 [OF o]] ih by blast
  ultimately show ?case using ih by simp
qed

lemma fold_collect_by_session:
  assumes "distinct (map rg_session_id regs)" "reg \<in> set regs"
  shows "ep_by_session (fold (collect ans mandatory) regs ep) (rg_session_id reg) =
      (case effective_of ans mandatory (rg_def reg) of Inr x \<Rightarrow> Some (fst x) | Inl _ \<Rightarrow> ep_by_session ep (rg_session_id reg)) \<and>
    ep_package_env (fold (collect ans mandatory) regs ep) (rg_session_id reg) =
      (case effective_of ans mandatory (rg_def reg) of Inr x \<Rightarrow> Some (snd x) | Inl _ \<Rightarrow> ep_package_env ep (rg_session_id reg))"
proof -
  have other: "ep_by_session (fold (collect ans mandatory) rs ep) s = ep_by_session ep s \<and>
      ep_package_env (fold (collect ans mandatory) rs ep) s = ep_package_env ep s" if "s \<notin> rg_session_id ` set rs" for rs ep s
    using that by (induction rs arbitrary: ep) (auto simp: collect_def split: sum.splits)
  show ?thesis using assms
  proof (induction regs arbitrary: ep)
    case (Cons r rs)
    show ?case
    proof (cases "reg = r")
      case True
      then show ?thesis using Cons.prems(1) by (cases "effective_of ans mandatory (rg_def r)") (simp_all add: collect_def [of ans mandatory r] other split: prod.split)
    next
      case False
      then have "reg \<in> set rs" using Cons.prems by auto
      then have "rg_session_id reg \<noteq> rg_session_id r" using Cons.prems(1) by (metis distinct.simps(2) image_eqI list.simps(9) set_map)
      then show ?thesis using Cons.IH [of "collect ans mandatory r ep"] Cons.prems(1) \<open>reg \<in> set rs\<close>
        by (auto simp: collect_def split: sum.splits)
    qed
  qed simp
qed

lemma fold_collect_demotions:
  "ep_demotions (fold (collect ans mandatory) regs ep) =
     ep_demotions ep @ filter_map (\<lambda>reg. case effective_of ans mandatory (rg_def reg) of
       Inl d \<Rightarrow> Some (rg_trigger_issue reg, d) | Inr _ \<Rightarrow> None) regs"
  by (induction regs arbitrary: ep) (auto simp: collect_def split: sum.splits)

text \<open>
  The cache of a pass is a snapshot. Whatever the endpoint answers and however it changes between requests, a pass
  fetches a list of manifests the registrations name, none of them twice, and every registration gets exactly the set
  and the configuration, or the demotion, that these answers give without a cache: two sessions that name one manifest
  never see two versions of it.
\<close>

theorem effective_packages_snapshot:
  assumes "resolve_effective_packages expand regs mandatory w = (ep, w')" "distinct (map rg_session_id regs)"
  shows "\<exists>fetched cache. distinct (map ref_key fetched) \<and> set fetched \<subseteq> \<Union> (set ` df_manifest_refs ` rg_def ` set regs) \<and>
    read_all expand fetched (Map.empty, w) = (cache, w') \<and>
    (\<forall>reg \<in> set regs.
       case effective_of (answers_of cache) mandatory (rg_def reg) of
         Inr (ps, env) \<Rightarrow> ep_by_session ep (rg_session_id reg) = Some ps \<and> ep_package_env ep (rg_session_id reg) = Some env
       | Inl d \<Rightarrow> ep_by_session ep (rg_session_id reg) = None \<and> (rg_trigger_issue reg, d) \<in> set (ep_demotions ep)) \<and>
    (\<forall>(i, d) \<in> set (ep_demotions ep).
       \<exists>reg \<in> set regs. rg_trigger_issue reg = i \<and> effective_of (answers_of cache) mandatory (rg_def reg) = Inl d)"
proof -
  let ?ep0 = "\<lparr>ep_by_session = Map.empty, ep_demotions = [], ep_package_env = Map.empty\<rparr>"
  obtain ep1 cache where run: "resolve_each expand mandatory regs ?ep0 (Map.empty, w) = (ep1, cache, w')"
      and ep: "ep = ep1\<lparr>ep_demotions := sort_key fst (ep_demotions ep1)\<rparr>"
    using assms(1) by (auto simp: resolve_effective_packages_def split: prod.splits)
  define refs where "refs = concat (map (\<lambda>reg. df_manifest_refs (rg_def reg)) regs)"
  have refs: "set refs = \<Union> (set ` df_manifest_refs ` rg_def ` set regs)" by (simp add: refs_def)
  have r: "reads expand refs (Map.empty, w) (cache, w')" and e: "ep1 = fold (collect (answers_of cache) mandatory) regs ?ep0"
    using resolve_each_reads [OF run, of refs] unfolding refs by auto
  obtain fetched where f: "distinct (map ref_key fetched)" "set fetched \<subseteq> set refs"
      "read_all expand fetched (Map.empty, w) = (cache, w')"
    using r by (auto simp: reads_def)
  have dem: "set (ep_demotions ep) = set (filter_map (\<lambda>reg. case effective_of (answers_of cache) mandatory (rg_def reg) of
       Inl d \<Rightarrow> Some (rg_trigger_issue reg, d) | Inr _ \<Rightarrow> None) regs)"
    by (simp add: ep e fold_collect_demotions)
  have each: "case effective_of (answers_of cache) mandatory (rg_def reg) of
         Inr (ps, env) \<Rightarrow> ep_by_session ep (rg_session_id reg) = Some ps \<and> ep_package_env ep (rg_session_id reg) = Some env
       | Inl d \<Rightarrow> ep_by_session ep (rg_session_id reg) = None \<and> (rg_trigger_issue reg, d) \<in> set (ep_demotions ep)"
    if "reg \<in> set regs" for reg
  proof -
    have "(rg_trigger_issue reg, d) \<in> set (ep_demotions ep)"
      if "effective_of (answers_of cache) mandatory (rg_def reg) = Inl d" for d
      using that \<open>reg \<in> set regs\<close> unfolding dem set_filter_map by force
    then show ?thesis
      using fold_collect_by_session [OF assms(2) that, of "answers_of cache" mandatory ?ep0] unfolding ep e
      by (auto split: sum.split)
  qed
  have "\<exists>reg \<in> set regs. rg_trigger_issue reg = i \<and> effective_of (answers_of cache) mandatory (rg_def reg) = Inl d"
    if mem: "(i, d) \<in> set (ep_demotions ep)" for i d
  proof -
    obtain reg where r: "reg \<in> set regs" "(case effective_of (answers_of cache) mandatory (rg_def reg) of
       Inl d \<Rightarrow> Some (rg_trigger_issue reg, d) | Inr _ \<Rightarrow> None) = Some (i, d)"
      using mem unfolding dem set_filter_map by blast
    show ?thesis using r by (intro bexI [OF _ r(1)]) (auto split: sum.splits)
  qed
  then show ?thesis using each f refs by (intro exI [of _ fetched] exI [of _ cache]) auto
qed
section \<open>Merged configuration\<close>

definition env_setting :: "package_env \<Rightarrow> str \<Rightarrow> str \<Rightarrow> str option" where
  "env_setting env p k = (case bt_get env p of None \<Rightarrow> None | Some block \<Rightarrow> bt_get block k)"

definition wf_env :: "package_env \<Rightarrow> bool" where
  "wf_env env \<longleftrightarrow> distinct (map fst env) \<and> (\<forall>b \<in> set env. distinct (map fst (snd b)))"

definition layered :: "bool \<Rightarrow> 'a option \<Rightarrow> 'a option \<Rightarrow> 'a option" where
  "layered overwrite upper base =
     (if overwrite then (if upper \<noteq> None then upper else base) else (if base \<noteq> None then base else upper))"

lemma fold_merge_setting:
  "distinct (map fst keys) \<Longrightarrow>
   bt_get (fold (merge_setting overwrite) keys block) k = layered overwrite (bt_get keys k) (bt_get block k)"
proof (induction keys arbitrary: block)
  case (Cons x keys)
  have "bt_get keys (fst x) = None" using Cons.prems by (auto simp: bt_get_def map_of_eq_None_iff)
  moreover have "bt_get (merge_setting overwrite x block) k =
      (if k = fst x then layered overwrite (Some (snd x)) (bt_get block k) else bt_get block k)"
    by (simp add: merge_setting_def layered_def split: option.split)
  ultimately show ?case
    using Cons by (cases x) (auto simp: bt_get_def layered_def)
qed (simp add: layered_def)

lemma merge_block_setting:
  assumes "distinct (map fst (snd b))"
  shows "env_setting (merge_block overwrite b base) p k =
    (if p = fst b then layered overwrite (bt_get (snd b) k) (env_setting base p k) else env_setting base p k)"
  using fold_merge_setting [OF assms, of overwrite] by (simp add: env_setting_def merge_block_def split: option.split)

lemma merge_setting_lookup:
  assumes "wf_env overlay"
  shows "env_setting (merge_package_env base overlay overwrite) p k =
    layered overwrite (env_setting overlay p k) (env_setting base p k)"
  using assms
proof (induction overlay arbitrary: base)
  case Nil
  show ?case by (simp add: merge_package_env_def env_setting_def layered_def)
next
  case (Cons b overlay)
  have "bt_get overlay (fst b) = None" and d: "distinct (map fst (snd b))" and w: "wf_env overlay"
    using Cons.prems by (auto simp: wf_env_def bt_get_def map_of_eq_None_iff)
  then have n: "env_setting overlay (fst b) k = None" by (simp add: env_setting_def)
  have "env_setting (b # overlay) p k = (if p = fst b then bt_get (snd b) k else env_setting overlay p k)"
    by (cases b) (auto simp: env_setting_def bt_get_def)
  moreover have "env_setting (merge_package_env base (b # overlay) overwrite) p k =
      layered overwrite (env_setting overlay p k) (env_setting (merge_block overwrite b base) p k)"
    using Cons.IH [OF w] by (simp add: merge_package_env_def)
  ultimately show ?case using n by (simp add: merge_block_setting [OF d]) (auto simp: layered_def)
qed

lemma merge_sorted: "bt_sorted base \<Longrightarrow> bt_sorted (merge_package_env base overlay overwrite)"
  by (induction overlay arbitrary: base) (auto simp: merge_package_env_def merge_block_def bt_sorted_insert)

text \<open>The conflict search finds a key of two packages exactly when there is one.\<close>

lemma conflict_in_Inr:
  "conflict_in package keys owner = Inr owner' \<Longrightarrow>
   (\<forall>k \<in> set keys. owner k = None \<or> owner k = Some package) \<and>
   owner' = (\<lambda>k. if k \<in> set keys then Some package else owner k)"
  by (induction package keys owner rule: conflict_in.induct) (auto split: option.splits if_splits)

lemma conflict_from_owner:
  "conflict_from env owner = None \<Longrightarrow> distinct (map fst env) \<Longrightarrow> (p, keys) \<in> set env \<Longrightarrow> k \<in> fst ` set keys \<Longrightarrow>
   owner k = None \<or> owner k = Some p"
proof (induction env owner rule: conflict_from.induct)
  case (2 package ks rest owner)
  obtain owner' where o: "conflict_in package (map fst ks) owner = Inr owner'" "conflict_from rest owner' = None"
    using 2(2) by (auto split: sum.splits)
  have c: "\<forall>k \<in> fst ` set ks. owner k = None \<or> owner k = Some package"
      "owner' = (\<lambda>k. if k \<in> fst ` set ks then Some package else owner k)"
    using conflict_in_Inr [OF o(1)] by simp_all
  show ?case
  proof (cases "(p, keys) = (package, ks)")
    case False
    then have "owner' k = None \<or> owner' k = Some p" using 2(1) [OF o(1) o(2)] 2(3,4,5) by auto
    moreover have "p \<noteq> package" using 2(3,4) False by force
    ultimately show ?thesis by (auto simp: c(2) split: if_splits)
  qed (use c(1) 2(5) in auto)
qed simp

lemma conflict_from_None:
  "conflict_from env owner = None \<Longrightarrow> distinct (map fst env) \<Longrightarrow> (p, keys) \<in> set env \<Longrightarrow> (q, keys') \<in> set env \<Longrightarrow>
   k \<in> fst ` set keys \<Longrightarrow> k \<in> fst ` set keys' \<Longrightarrow> p = q"
proof (induction env owner rule: conflict_from.induct)
  case (2 package ks rest owner)
  obtain owner' where o: "conflict_in package (map fst ks) owner = Inr owner'" "conflict_from rest owner' = None"
    using 2(2) by (auto split: sum.splits)
  have c: "owner' = (\<lambda>k. if k \<in> fst ` set ks then Some package else owner k)"
    using conflict_in_Inr [OF o(1)] by simp
  have later: False if "(r, ls) \<in> set rest" "k \<in> fst ` set ls" "k \<in> fst ` set ks" for r ls
  proof -
    have "r \<noteq> package" using 2(3) that(1) by force
    then show False using conflict_from_owner [OF o(2) _ that(1,2)] 2(3) that(3) by (simp add: c)
  qed
  show ?case using 2 later o by auto
qed simp

lemma conflict_free:
  assumes "conflicting_package_env_key env = None" "bt_sorted env"
  shows "keys_disjoint env"
  unfolding keys_disjoint_def
proof (intro allI impI)
  fix p q b c k
  assume a: "bt_get env p = Some b \<and> bt_get env q = Some c \<and> bt_get b k \<noteq> None \<and> bt_get c k \<noteq> None"
  then have "(p, b) \<in> set env" "(q, c) \<in> set env" "k \<in> fst ` set b" "k \<in> fst ` set c"
    by (auto simp: bt_get_in bt_get_def map_of_eq_None_iff image_iff dest!: map_of_SomeD)
  moreover have "distinct (map fst env)" using assms(2) by (simp add: bt_sorted_def strict_sorted_iff)
  ultimately show "p = q" using conflict_from_None assms(1) unfolding conflicting_package_env_key_def by blast
qed
section \<open>What an effective set guarantees\<close>

lemma dedup_refs_set: "ref_key ` set (dedup_refs seen rs) = ref_key ` set rs - seen"
  by (induction rs arbitrary: seen) auto

lemma dedup_refs_distinct: "distinct (map ref_key (dedup_refs seen rs))"
proof (induction rs arbitrary: seen)
  case (Cons r rs)
  have "ref_key r \<notin> ref_key ` set (dedup_refs (insert (ref_key r) seen) rs)" unfolding dedup_refs_set by simp
  then show ?case using Cons by simp
qed simp

lemma dedup_refs_append: "dedup_refs seen (rs @ ss) = dedup_refs seen rs @ dedup_refs (seen \<union> ref_key ` set rs) ss"
  by (induction rs arbitrary: seen) (auto simp: insert_absorb)

fun first_some :: "'a option list \<Rightarrow> 'a option" where
  "first_some [] = None"
| "first_some (x # xs) = (if x \<noteq> None then x else first_some xs)"

definition manifests_of :: "(ref_key \<Rightarrow> manifest_error + expanded_manifest) \<Rightarrow> session_def \<Rightarrow> expanded_manifest list" where
  "manifests_of ans d = filter_map (\<lambda>r. ok_opt (ans (ref_key r))) (df_manifest_refs d)"

lemma gather_Inr:
  "gather ans rs (ps, env) = Inr (ps', env') \<Longrightarrow>
   ps' = ps @ concat (map em_packages (filter_map (\<lambda>r. ok_opt (ans (ref_key r))) rs)) \<and>
   env' = fold (\<lambda>x e. merge_package_env e (em_package_env x) False) (filter_map (\<lambda>r. ok_opt (ans (ref_key r))) rs) env"
proof (induction rs arbitrary: ps env)
  case (Cons r rs)
  obtain x where x: "ans (ref_key r) = Inr x"
      "gather ans rs (ps @ em_packages x, merge_package_env env (em_package_env x) False) = Inr (ps', env')"
    using Cons.prems by (auto split: sum.splits)
  show ?case using Cons.IH [OF x(2)] x(1) by simp
qed simp

lemma fold_merge_lookup:
  "\<forall>x \<in> set xs. wf_env (em_package_env x) \<Longrightarrow>
   env_setting (fold (\<lambda>x e. merge_package_env e (em_package_env x) False) xs base) p k =
   first_some (env_setting base p k # map (\<lambda>x. env_setting (em_package_env x) p k) xs)"
  by (induction xs arbitrary: base) (auto simp: merge_setting_lookup layered_def)

lemma fold_merge_sorted:
  "bt_sorted base \<Longrightarrow> bt_sorted (fold (\<lambda>x e. merge_package_env e (em_package_env x) False) xs base)"
  by (induction xs arbitrary: base) (auto simp: merge_sorted)

text \<open>Both sources of configuration go through one parser, whose maps have one entry per name.\<close>

lemma parse_package_env_wf:
  assumes "parse_package_env block = Inr env"
  shows "wf_env env"
proof -
  obtain raw where raw: "package_env_lines (non_empty_lines (strip_html_comments block)) [] Map.empty None 0 = Inr raw"
      "env = filter (\<lambda>(_, keys). keys \<noteq> []) raw"
    using assms by (auto simp: parse_package_env_def res_simps Let_def split: if_splits)
  have "env_inv [] Map.empty None 0" by (simp add: env_inv_def bt_sorted_def owners_ok_def entry_total_def)
  then obtain ow cur tot where "env_inv raw ow cur tot" using package_env_lines_inv [OF raw(1)] by blast
  then have "distinct (map fst raw)" "\<forall>b \<in> set raw. distinct (map fst (snd b))"
    by (auto simp: env_inv_def bt_sorted_def block_ok_def strict_sorted_iff)
  then show ?thesis unfolding raw(2) wf_env_def by (auto simp: distinct_map_filter)
qed

lemma expand_manifest_ok:
  assumes "expand_manifest request from_json r w = (Inr x, w')"
  shows "wf_env (em_package_env x)" "em_packages x \<noteq> []" "length (em_packages x) \<le> MAX_PACKAGES"
proof -
  obtain m where m: "validate_manifest m = Inr x"
    using assms by (auto simp: expand_manifest_def res_simps split: prod.splits)
  have len: "parse_refs_from i es = Inr rs \<Longrightarrow> length rs = length es" for i es rs
    by (induction es arbitrary: i rs) (auto simp: res_simps split: sum.splits)
  from m obtain refs env where r: "parse_refs_from 0 (mf_packages m) = Inr refs"
      "validate_package_env (mf_package_env m) = Inr env" "x = \<lparr>em_packages = refs, em_package_env = env\<rparr>"
      "mf_packages m \<noteq> []" "length (mf_packages m) \<le> MAX_PACKAGES"
    by (auto simp: validate_manifest_def res_simps not_less split: if_splits)
  show "wf_env (em_package_env x)"
    using r(2,3) parse_package_env_wf by (auto simp: validate_package_env_def wf_env_def split: if_splits sum.splits)
  show "em_packages x \<noteq> []" "length (em_packages x) \<le> MAX_PACKAGES" using len [OF r(1)] r by auto
qed

lemma effective_of_Inr:
  assumes "effective_of ans mandatory d = Inr (ps, env)"
  defines "menv \<equiv> fold (\<lambda>x e. merge_package_env e (em_package_env x) False) (manifests_of ans d) []"
  shows "ps = dedup_refs {} (df_packages d @ concat (map em_packages (manifests_of ans d)))" "ps \<noteq> []"
    "workspace_count ps \<le> 64" "missing_mandatory ps mandatory = []"
    "env = merge_package_env menv (df_package_env d) True" "conflicting_package_env_key env = None"
proof -
  obtain acc where g: "gather ans (df_manifest_refs d) (df_packages d, []) = Inr acc"
      and f: "finish_effective mandatory d acc = Inr (ps, env)"
    using assms(1) by (auto simp: effective_of_def res_simps)
  have acc: "acc = (df_packages d @ concat (map em_packages (manifests_of ans d)), menv)"
    using gather_Inr [of ans "df_manifest_refs d" "df_packages d" "[]"] g
    by (cases acc) (auto simp: manifests_of_def menv_def)
  show "ps = dedup_refs {} (df_packages d @ concat (map em_packages (manifests_of ans d)))" "ps \<noteq> []"
    "workspace_count ps \<le> 64" "missing_mandatory ps mandatory = []"
    "env = merge_package_env menv (df_package_env d) True" "conflicting_package_env_key env = None"
    using f unfolding acc
    by (auto simp: finish_effective_def Let_def MAX_EFFECTIVE_PACKAGE_WORKSPACES_def not_less split: if_splits option.splits)
qed


text \<open>A session that names one manifest, read by an endpoint whose every answer differs.\<close>

definition pkgs_ref :: "string \<Rightarrow> package_ref" where
  "pkgs_ref path = \<lparr>pr_owner = lit ''acme'', pr_repo = lit ''pkgs'', pr_git_ref = lit ''dev'', pr_path = lit path\<rparr>"

definition sample_expander :: "nat expander" where
  "sample_expander r w =
     (Inr \<lparr>em_packages = [pkgs_ref ''p/a'', pkgs_ref (replicate w CHR ''b'')],
           em_package_env = [(lit ''a'', [(lit ''FKST_X'', [w])])]\<rparr>, Suc w)"

definition manifest_reg :: "int \<Rightarrow> string \<Rightarrow> session_registration" where
  "manifest_reg issue s = sample_reg\<lparr>rg_trigger_issue := issue, rg_session_id := lit s,
     rg_def := sample_def\<lparr>df_packages := [pkgs_ref ''p/c''], df_manifest_refs := [pkgs_ref ''m.json'']\<rparr>\<rparr>"

theorem effective_packages_snapshot_witness:
  "let (ep, w) = resolve_effective_packages sample_expander [manifest_reg 7 ''s-7'', manifest_reg 8 ''s-8''] [] 3
   in ep_by_session ep (lit ''s-7'') = ep_by_session ep (lit ''s-8'') \<and> w \<le> 4"
proof -
  let ?regs = "[manifest_reg 7 ''s-7'', manifest_reg 8 ''s-8'']"
  obtain ep w where run: "resolve_effective_packages sample_expander ?regs [] 3 = (ep, w)"
    by (cases "resolve_effective_packages sample_expander ?regs [] 3")
  have d: "distinct (map rg_session_id ?regs)" by (simp add: manifest_reg_def str_simps)
  obtain fetched cache where f: "distinct (map ref_key fetched)"
      "set fetched \<subseteq> \<Union> (set ` df_manifest_refs ` rg_def ` set ?regs)"
      "read_all sample_expander fetched (Map.empty, 3) = (cache, w)"
    and each: "\<forall>reg \<in> set ?regs. case effective_of (answers_of cache) [] (rg_def reg) of
         Inr (ps, env) \<Rightarrow> ep_by_session ep (rg_session_id reg) = Some ps \<and> ep_package_env ep (rg_session_id reg) = Some env
       | Inl d \<Rightarrow> ep_by_session ep (rg_session_id reg) = None \<and> (rg_trigger_issue reg, d) \<in> set (ep_demotions ep)"
    using effective_packages_snapshot [OF run d] by blast
  have "set fetched \<subseteq> {pkgs_ref ''m.json''}" using f(2) by (simp add: manifest_reg_def)
  then have "fetched = [] \<or> fetched = [pkgs_ref ''m.json'']"
    using f(1) by (cases fetched; cases "tl fetched") auto
  then have "w \<le> 4" using f(3) by (auto simp: read_all_def sample_expander_def)
  moreover have "ep_by_session ep (lit ''s-7'') = ep_by_session ep (lit ''s-8'')"
    using each by (simp add: manifest_reg_def split: sum.splits prod.splits)
  ultimately show ?thesis by (simp add: run)
qed

end
