(* ===== verification/LabelDiscovery.thy ===== *)
theory LabelDiscovery
  imports EffectivePackages
begin

text \<open>
  The work labels a session's packages declare (\<open>backend/src/reconcile/work_labels.rs\<close>, \<open>resolve_work_labels\<close> and
  \<open>resolve_work_label_sets\<close>): the labels of every package and of the packages it depends on through events, found by a
  worklist over a graph that may be cyclic. The manifest of a package, as \<open>fetch_manifest\<close> reads it, is a parameter.
\<close>

section \<open>The worklist\<close>

record package_manifest =
  pm_work_labels :: "str list"
  pm_event_deps :: "str list"

text \<open>A package is visited under its owner, repository, ref and path.\<close>

type_synonym package_node = ref_key

definition fkst_dep :: "package_node \<Rightarrow> str \<Rightarrow> package_node" where
  "fkst_dep n name = (case n of RefKey own repo git_ref _ \<Rightarrow> RefKey own repo git_ref (lit ''packages/'' @ name))"

definition dep_nodes :: "package_node \<Rightarrow> package_manifest \<Rightarrow> package_node list" where
  "dep_nodes n m = map (fkst_dep n) (filter (\<lambda>name. name \<noteq> []) (map trim (pm_event_deps m)))"

definition declared_labels :: "package_manifest \<Rightarrow> str list" where
  "declared_labels m = filter (\<lambda>l. l \<noteq> []) (map trim (pm_work_labels m))"

text \<open>
  The loop of \<open>resolve_work_labels\<close>: the worklist is the vector, its last element first, so that \<open>pop\<close> takes the head. It may
  run forever on an unbounded graph, hence the option.
\<close>

partial_function (option) discover ::
  "(package_node \<Rightarrow> package_manifest option) \<Rightarrow> package_node list \<Rightarrow> package_node set \<Rightarrow> str set \<Rightarrow> str set option" where
  "discover fetch worklist visited labels =
     (case worklist of
        [] \<Rightarrow> Some labels
      | n # rest \<Rightarrow>
          if n \<in> visited then discover fetch rest visited labels
          else (case fetch n of
                  None \<Rightarrow> discover fetch rest (insert n visited) labels
                | Some m \<Rightarrow>
                    discover fetch (rev (dep_nodes n m) @ rest) (insert n visited) (labels \<union> set (declared_labels m))))"

definition resolve_work_labels ::
  "(package_node \<Rightarrow> package_manifest option) \<Rightarrow> package_ref list \<Rightarrow> str set option" where
  "resolve_work_labels fetch packages = discover fetch (rev (map ref_key packages)) {} {}"

text \<open>The label set of every registration, one discovery per configuration hash.\<close>

fun label_sets ::
  "(package_node \<Rightarrow> package_manifest option) \<Rightarrow> session_registration list \<Rightarrow> (str \<rightharpoonup> str set) \<Rightarrow> (str \<rightharpoonup> str list) \<Rightarrow>
   (str \<rightharpoonup> str list) option" where
  "label_sets fetch [] cache out = Some out"
| "label_sets fetch (reg # regs) cache out =
     (case (case cache (rg_config_hash reg) of
              Some discovered \<Rightarrow> Some discovered
            | None \<Rightarrow> resolve_work_labels fetch (rg_effective_packages reg)) of
        None \<Rightarrow> None
      | Some discovered \<Rightarrow>
          (let labels = (case df_work_label (rg_def reg) of Some l \<Rightarrow> insert l discovered | None \<Rightarrow> discovered)
           in label_sets fetch regs (cache(rg_config_hash reg \<mapsto> discovered))
                (out(rg_session_id reg \<mapsto> sorted_list_of_set labels))))"

definition resolve_work_label_sets ::
  "(package_node \<Rightarrow> package_manifest option) \<Rightarrow> session_registration list \<Rightarrow> (str \<rightharpoonup> str list) option" where
  "resolve_work_label_sets fetch regs = label_sets fetch regs Map.empty Map.empty"

section \<open>Reachability\<close>

definition node_deps :: "(package_node \<Rightarrow> package_manifest option) \<Rightarrow> package_node \<Rightarrow> package_node set" where
  "node_deps fetch n = (case fetch n of None \<Rightarrow> {} | Some m \<Rightarrow> set (dep_nodes n m))"

definition node_labels :: "(package_node \<Rightarrow> package_manifest option) \<Rightarrow> package_node \<Rightarrow> str set" where
  "node_labels fetch n = (case fetch n of None \<Rightarrow> {} | Some m \<Rightarrow> set (declared_labels m))"

inductive reach :: "(package_node \<Rightarrow> package_manifest option) \<Rightarrow> package_node set \<Rightarrow> package_node \<Rightarrow> bool"
  for fetch start where
  reach_start: "n \<in> start \<Longrightarrow> reach fetch start n"
| reach_dep: "reach fetch start n \<Longrightarrow> d \<in> node_deps fetch n \<Longrightarrow> reach fetch start d"

definition reachable_labels :: "(package_node \<Rightarrow> package_manifest option) \<Rightarrow> package_node set \<Rightarrow> str set" where
  "reachable_labels fetch start = (\<Union>n \<in> Collect (reach fetch start). node_labels fetch n)"

text \<open>
  The loop invariant: what has been visited is reachable, its successors are visited or waiting, and exactly its labels
  have been collected.
\<close>

definition search_inv ::
  "(package_node \<Rightarrow> package_manifest option) \<Rightarrow> package_node set \<Rightarrow> package_node list \<Rightarrow> package_node set \<Rightarrow> str set \<Rightarrow> bool" where
  "search_inv fetch start worklist visited labels \<longleftrightarrow>
     set worklist \<union> visited \<subseteq> Collect (reach fetch start) \<and> start \<subseteq> set worklist \<union> visited \<and>
     (\<Union>n \<in> visited. node_deps fetch n) \<subseteq> set worklist \<union> visited \<and> labels = (\<Union>n \<in> visited. node_labels fetch n)"

lemma search_inv_done:
  assumes "search_inv fetch start [] visited labels"
  shows "labels = reachable_labels fetch start"
proof -
  have "n \<in> visited" if "reach fetch start n" for n
    using that by induction (use assms in \<open>auto simp: search_inv_def\<close>)
  then have "visited = Collect (reach fetch start)" using assms by (auto simp: search_inv_def)
  then show ?thesis using assms by (simp add: search_inv_def reachable_labels_def)
qed

lemma search_inv_skip: "search_inv fetch start (n # rest) visited labels \<Longrightarrow> n \<in> visited \<Longrightarrow> search_inv fetch start rest visited labels"
  unfolding search_inv_def by auto

lemma search_inv_missing:
  "search_inv fetch start (n # rest) visited labels \<Longrightarrow> fetch n = None \<Longrightarrow>
   search_inv fetch start rest (insert n visited) labels"
  unfolding search_inv_def by (auto simp: node_deps_def node_labels_def)

lemma search_inv_found:
  assumes "search_inv fetch start (n # rest) visited labels" "fetch n = Some m"
  shows "search_inv fetch start (rev (dep_nodes n m) @ rest) (insert n visited) (labels \<union> set (declared_labels m))"
proof -
  have "reach fetch start n" using assms(1) by (simp add: search_inv_def)
  then have "set (dep_nodes n m) \<subseteq> Collect (reach fetch start)" using assms(2) by (auto simp: node_deps_def intro: reach_dep)
  then show ?thesis
    using assms(1) unfolding search_inv_def by (auto simp: node_deps_def [of fetch n] node_labels_def [of fetch n] assms(2))
qed

text \<open>On a finite graph the loop ends, and with the labels of everything reachable.\<close>

lemma discover_total:
  assumes "finite (Collect (reach fetch start))" "search_inv fetch start worklist visited labels"
  shows "discover fetch worklist visited labels = Some (reachable_labels fetch start)"
  using assms(2)
proof (induction "card (Collect (reach fetch start) - visited)" arbitrary: worklist visited labels rule: less_induct)
  case outer: less
  from outer.prems show ?case
  proof (induction worklist)
    case Nil
    then show ?case by (simp add: discover.simps [of fetch "[]"] search_inv_done)
  next
    case (Cons n rest)
    have unfold: "discover fetch (n # rest) visited labels =
        (if n \<in> visited then discover fetch rest visited labels
         else (case fetch n of
                 None \<Rightarrow> discover fetch rest (insert n visited) labels
               | Some m \<Rightarrow>
                   discover fetch (rev (dep_nodes n m) @ rest) (insert n visited) (labels \<union> set (declared_labels m))))"
      by (subst discover.simps) simp
    show ?case
    proof (cases "n \<in> visited")
      case True
      then show ?thesis using Cons.IH search_inv_skip [OF Cons.prems] by (simp add: unfold)
    next
      case False
      have "n \<in> Collect (reach fetch start)" using Cons.prems by (simp add: search_inv_def)
      then have less: "card (Collect (reach fetch start) - insert n visited) < card (Collect (reach fetch start) - visited)"
        using False assms(1) by (intro psubset_card_mono) auto
      show ?thesis
      proof (cases "fetch n")
        case None
        then show ?thesis
          using outer.hyps [OF less search_inv_missing [OF Cons.prems None]] False by (simp add: unfold)
      next
        case (Some m)
        then show ?thesis
          using outer.hyps [OF less search_inv_found [OF Cons.prems Some]] False by (simp add: unfold)
      qed
    qed
  qed
qed

text \<open>
  C18: discovery ends and finds exactly the declared labels. On every package graph that is finite from the packages of a
  session on, cyclic or not, the worklist runs dry, and the result is the set of the non-blank labels declared by the
  packages and by everything they reach through event dependencies; a package without a readable manifest adds none.
\<close>

theorem discovery_is_reachability:
  assumes "finite (Collect (reach fetch (ref_key ` set packages)))"
  shows "resolve_work_labels fetch packages = Some (reachable_labels fetch (ref_key ` set packages))"
proof -
  have "search_inv fetch (ref_key ` set packages) (rev (map ref_key packages)) {} {}"
    by (auto simp: search_inv_def intro: reach_start)
  then show ?thesis unfolding resolve_work_labels_def by (rule discover_total [OF assms])
qed
section \<open>The cache of a pass is sound\<close>

definition label_set_of :: "(package_node \<Rightarrow> package_manifest option) \<Rightarrow> session_registration \<Rightarrow> str list" where
  "label_set_of fetch reg =
     sorted_list_of_set (reachable_labels fetch (ref_key ` set (rg_effective_packages reg)) \<union>
       set_option (df_work_label (rg_def reg)))"

definition finite_graph :: "(package_node \<Rightarrow> package_manifest option) \<Rightarrow> session_registration \<Rightarrow> bool" where
  "finite_graph fetch reg \<longleftrightarrow> finite (Collect (reach fetch (ref_key ` set (rg_effective_packages reg))))"

lemma discovery_total:
  "finite_graph fetch reg \<Longrightarrow>
   resolve_work_labels fetch (rg_effective_packages reg) = Some (reachable_labels fetch (ref_key ` set (rg_effective_packages reg)))"
  unfolding finite_graph_def resolve_work_labels_def
  by (rule discover_total) (auto simp: search_inv_def intro: reach_start)

definition cache_sound ::
  "(package_node \<Rightarrow> package_manifest option) \<Rightarrow> session_registration list \<Rightarrow> (str \<rightharpoonup> str set) \<Rightarrow> bool" where
  "cache_sound fetch regs cache \<longleftrightarrow>
     (\<forall>reg \<in> set regs. \<forall>ls. cache (rg_config_hash reg) = Some ls \<longrightarrow>
        ls = reachable_labels fetch (ref_key ` set (rg_effective_packages reg)))"

lemma label_sets_sound:
  assumes "cache_sound fetch regs cache" "distinct (map rg_session_id regs)" "\<forall>reg \<in> set regs. finite_graph fetch reg"
    "\<forall>r \<in> set regs. \<forall>r' \<in> set regs. rg_config_hash r = rg_config_hash r' \<longrightarrow> rg_effective_packages r = rg_effective_packages r'"
  shows "\<exists>res. label_sets fetch regs cache out = Some res \<and>
    (\<forall>reg \<in> set regs. res (rg_session_id reg) = Some (label_set_of fetch reg)) \<and>
    (\<forall>s. s \<notin> rg_session_id ` set regs \<longrightarrow> res s = out s)"
  using assms
proof (induction regs arbitrary: cache out)
  case (Cons reg regs)
  have same: "\<forall>r \<in> set regs. \<forall>r' \<in> set regs. rg_config_hash r = rg_config_hash r' \<longrightarrow> rg_effective_packages r = rg_effective_packages r'"
    using Cons.prems(4) by (meson list.set_intros(2))
  let ?ls = "reachable_labels fetch (ref_key ` set (rg_effective_packages reg))"
  have found: "(case cache (rg_config_hash reg) of Some discovered \<Rightarrow> Some discovered
      | None \<Rightarrow> resolve_work_labels fetch (rg_effective_packages reg)) = Some ?ls"
    using Cons.prems(1,3) discovery_total by (auto simp: cache_sound_def split: option.split)
  have labels: "sorted_list_of_set (case df_work_label (rg_def reg) of Some l \<Rightarrow> insert l ?ls | None \<Rightarrow> ?ls) = label_set_of fetch reg"
    unfolding label_set_of_def by (cases "df_work_label (rg_def reg)") simp_all
  have d: "distinct (map rg_session_id regs)" "\<forall>reg \<in> set regs. finite_graph fetch reg" using Cons.prems(2,3) by simp_all
  have cs: "cache_sound fetch regs (cache(rg_config_hash reg \<mapsto> ?ls))"
    unfolding cache_sound_def
  proof (intro ballI allI impI)
    fix r ls
    assume r: "r \<in> set regs" "(cache(rg_config_hash reg \<mapsto> ?ls)) (rg_config_hash r) = Some ls"
    show "ls = reachable_labels fetch (ref_key ` set (rg_effective_packages r))"
    proof (cases "rg_config_hash r = rg_config_hash reg")
      case True
      then have "rg_effective_packages r = rg_effective_packages reg"
        using Cons.prems(4) r(1) by (meson list.set_intros(1,2))
      then show ?thesis using r(2) True by simp
    next
      case False
      then show ?thesis using r Cons.prems(1) by (simp add: cache_sound_def)
    qed
  qed
  then obtain res where r: "label_sets fetch regs (cache(rg_config_hash reg \<mapsto> ?ls))
        (out(rg_session_id reg \<mapsto> label_set_of fetch reg)) = Some res"
      "\<forall>r \<in> set regs. res (rg_session_id r) = Some (label_set_of fetch r)"
      "\<forall>s. s \<notin> rg_session_id ` set regs \<longrightarrow> res s = (out(rg_session_id reg \<mapsto> label_set_of fetch reg)) s"
    using Cons.IH [OF cs d same, of "out(rg_session_id reg \<mapsto> label_set_of fetch reg)"] by (elim exE conjE)
  have "label_sets fetch (reg # regs) cache out = Some res" using r(1) by (simp add: found labels Let_def)
  moreover have "res (rg_session_id reg) = Some (label_set_of fetch reg)" using r(3) Cons.prems(2) by auto
  ultimately show ?case using r(2,3) by auto
qed simp

text \<open>The configuration hash fixes the packages and the manifests a registration names.\<close>

lemma config_canonical_lookup:
  "map_of (config_canonical ps wl e ol ec mr sb tb env) (lit ''packages'') = Some (canon_packages ps)"
  "map_of (config_canonical ps wl e ol ec mr sb tb env) (lit ''manifest_refs'') =
     (if mr \<noteq> [] then Some (canon_packages mr) else None)"
  by (simp_all add: config_canonical_def Let_def map_add_def split: option.split)

lemma config_hash_packages:
  assumes "inj digest" "config_hash digest ps wl e ol ec mr sb tb env = config_hash digest ps' wl' e' ol' ec' mr' sb' tb' env'"
  shows "ps = ps' \<and> mr = mr'"
proof -
  have c: "config_canonical ps wl e ol ec mr sb tb env = config_canonical ps' wl' e' ol' ec' mr' sb' tb' env'"
    using injD [OF assms(1) assms(2) [unfolded config_hash_def]] by simp
  show ?thesis
    using config_canonical_lookup [of ps wl e ol ec mr sb tb env, unfolded c config_canonical_lookup]
    by (auto split: if_split_asm)
qed

definition hashed :: "(json \<Rightarrow> str) \<Rightarrow> session_registration \<Rightarrow> bool" where
  "hashed digest reg \<longleftrightarrow>
     (let d = rg_def reg
      in rg_config_hash reg =
           config_hash digest (df_packages d) (df_work_label d) (df_environment d) (df_output_lang d) (df_engine_config d)
             (df_manifest_refs d) (df_source_branch d) (df_target_branch d) (df_package_env d))"

lemma parse_registration_hashed:
  "parse_registration digest uuid_v5 inst repo issue creator = Inr reg \<Longrightarrow> hashed digest reg"
  by (auto simp: parse_registration_def hashed_def split: sum.splits)

text \<open>
  One discovery per configuration is enough. When every registration carries the effective packages that one set of
  manifest answers gives it, registrations with the same configuration hash have the same packages, so the label set a
  pass gives each session is exactly what its own packages reach, with its explicit label, sorted and without repetition.
\<close>

theorem label_cache_is_sound:
  assumes "inj digest" "\<forall>reg \<in> set regs. hashed digest reg"
    "\<forall>reg \<in> set regs. \<exists>env. effective_of ans mandatory (rg_def reg) = Inr (rg_effective_packages reg, env)"
    "\<forall>reg \<in> set regs. finite_graph fetch reg" "distinct (map rg_session_id regs)"
  shows "\<exists>out. resolve_work_label_sets fetch regs = Some out \<and>
    (\<forall>reg \<in> set regs. out (rg_session_id reg) = Some (label_set_of fetch reg))"
proof -
  have "rg_effective_packages r = rg_effective_packages r'"
    if r: "r \<in> set regs" "r' \<in> set regs" "rg_config_hash r = rg_config_hash r'" for r r'
  proof -
    have h: "hashed digest r" "hashed digest r'" using assms(2) r(1,2) by auto
    have "df_packages (rg_def r) = df_packages (rg_def r') \<and> df_manifest_refs (rg_def r) = df_manifest_refs (rg_def r')"
      by (rule config_hash_packages [OF assms(1)], rule trans [OF h(1) [unfolded hashed_def Let_def, symmetric]],
          rule trans [OF r(3) h(2) [unfolded hashed_def Let_def]])
    then have same: "df_packages (rg_def r) @ concat (map em_packages (manifests_of ans (rg_def r))) =
        df_packages (rg_def r') @ concat (map em_packages (manifests_of ans (rg_def r')))"
      by (simp add: manifests_of_def)
    obtain e where e: "effective_of ans mandatory (rg_def r) = Inr (rg_effective_packages r, e)"
      using bspec [OF assms(3) r(1)] by (elim exE)
    obtain e' where e': "effective_of ans mandatory (rg_def r') = Inr (rg_effective_packages r', e')"
      using bspec [OF assms(3) r(2)] by (elim exE)
    show ?thesis by (simp only: effective_of_Inr(1) [OF e] effective_of_Inr(1) [OF e'] same)
  qed
  then have same: "\<forall>r \<in> set regs. \<forall>r' \<in> set regs. rg_config_hash r = rg_config_hash r' \<longrightarrow>
      rg_effective_packages r = rg_effective_packages r'" by blast
  have "cache_sound fetch regs Map.empty" by (simp add: cache_sound_def)
  from label_sets_sound [OF this assms(5,4) same, of Map.empty] show ?thesis unfolding resolve_work_label_sets_def by blast
qed

section \<open>Samples\<close>

definition node :: "string \<Rightarrow> package_node" where
  "node path = RefKey (lit ''acme'') (lit ''pkgs'') (lit ''dev'') (lit path)"

text \<open>Two packages that depend on each other.\<close>

definition cyclic :: "package_node \<Rightarrow> package_manifest option" where
  "cyclic n =
     (if n = node ''packages/a'' then Some \<lparr>pm_work_labels = [lit '' go ''], pm_event_deps = [lit ''b'']\<rparr>
      else if n = node ''packages/b'' then Some \<lparr>pm_work_labels = [], pm_event_deps = [lit '' a '']\<rparr> else None)"

lemma trims: "trim (lit '' go '') = lit ''go''" "trim (lit ''b'') = lit ''b''" "trim (lit '' a '') = lit ''a''"
  by (simp_all add: trim_def trim_start_def trim_end_def is_whitespace_def str_simps)

lemma node_distinct: "node ''packages/a'' \<noteq> node ''packages/b''"
  by (simp add: node_def str_simps)

lemma cyclic_deps:
  "node_deps cyclic (node ''packages/a'') = {node ''packages/b''}"
  "node_deps cyclic (node ''packages/b'') = {node ''packages/a''}"
  using node_distinct by (simp_all add: node_deps_def cyclic_def dep_nodes_def trims fkst_dep_def)
    (simp_all add: node_def str_simps)

lemma cyclic_reach: "reach cyclic {node ''packages/a''} n \<Longrightarrow> n = node ''packages/a'' \<or> n = node ''packages/b''"
  by (induction rule: reach.induct) (auto simp: cyclic_deps)

theorem discovery_is_reachability_witness:
  "\<exists>labels. resolve_work_labels cyclic [pkgs_ref ''packages/a''] = Some labels \<and> lit ''go'' \<in> labels"
proof -
  have key: "ref_key ` set [pkgs_ref ''packages/a''] = {node ''packages/a''}" by (simp add: ref_key_def pkgs_ref_def node_def)
  have "Collect (reach cyclic {node ''packages/a''}) \<subseteq> {node ''packages/a'', node ''packages/b''}" using cyclic_reach by auto
  then have "finite (Collect (reach cyclic (ref_key ` set [pkgs_ref ''packages/a''])))"
    unfolding key by (rule finite_subset) simp
  note run = discovery_is_reachability [OF this]
  have "reach cyclic {node ''packages/a''} (node ''packages/a'')" by (simp add: reach_start)
  moreover have "lit ''go'' \<in> node_labels cyclic (node ''packages/a'')"
    by (simp add: node_labels_def cyclic_def declared_labels_def trims, simp add: str_simps)
  ultimately have "lit ''go'' \<in> reachable_labels cyclic {node ''packages/a''}" unfolding reachable_labels_def by blast
  then show ?thesis using run unfolding key by blast
qed

definition hashed_reg :: "int \<Rightarrow> string \<Rightarrow> session_registration" where
  "hashed_reg issue s = sample_reg\<lparr>rg_trigger_issue := issue, rg_session_id := lit s,
     rg_config_hash := config_hash json_text (df_packages sample_def) (df_work_label sample_def) (df_environment sample_def)
       (df_output_lang sample_def) (df_engine_config sample_def) (df_manifest_refs sample_def) (df_source_branch sample_def)
       (df_target_branch sample_def) (df_package_env sample_def)\<rparr>"

theorem label_cache_is_sound_witness:
  "\<exists>out. resolve_work_label_sets (\<lambda>_. None) [hashed_reg 7 ''s-7'', hashed_reg 8 ''s-8''] = Some out \<and>
     out (lit ''s-8'') = Some [lit ''fkst-dev'']"
proof -
  let ?regs = "[hashed_reg 7 ''s-7'', hashed_reg 8 ''s-8'']"
  let ?none = "\<lambda>_ :: package_node. None :: package_manifest option"
  have r: "reach ?none A n \<Longrightarrow> n \<in> A" for A n by (induction rule: reach.induct) (simp_all add: node_deps_def)
  have "\<forall>reg \<in> set ?regs. hashed json_text reg" by (simp add: hashed_def hashed_reg_def sample_reg_def Let_def)
  moreover have "\<forall>reg \<in> set ?regs. \<exists>env. effective_of (\<lambda>_. Inl ManifestNotFound) [] (rg_def reg) = Inr (rg_effective_packages reg, env)"
    by (simp add: effective_of_def finish_effective_def hashed_reg_def sample_reg_def sample_def_def missing_mandatory_def
        workspace_count_def MAX_EFFECTIVE_PACKAGE_WORKSPACES_def conflicting_package_env_key_def merge_package_env_def Let_def)
  moreover have "\<forall>reg \<in> set ?regs. finite_graph ?none reg"
  proof
    fix reg :: session_registration
    have "Collect (reach ?none (ref_key ` set (rg_effective_packages reg))) \<subseteq> ref_key ` set (rg_effective_packages reg)"
      using r by blast
    then show "finite_graph ?none reg" unfolding finite_graph_def by (rule finite_subset) simp
  qed
  moreover have "distinct (map rg_session_id ?regs)" by (simp add: hashed_reg_def str_simps)
  ultimately obtain out where out: "resolve_work_label_sets ?none ?regs = Some out"
      "\<forall>reg \<in> set ?regs. out (rg_session_id reg) = Some (label_set_of ?none reg)"
    using label_cache_is_sound [OF inj_json_text] by blast
  have "label_set_of ?none (hashed_reg 8 ''s-8'') = [lit ''fkst-dev'']"
    by (simp add: label_set_of_def reachable_labels_def node_labels_def hashed_reg_def sample_reg_def sample_def_def)
  then have "out (lit ''s-8'') = Some [lit ''fkst-dev'']" using out(2) by (simp add: hashed_reg_def)
  then show ?thesis using out(1) by blast
qed

end
