(* ===== verification/SessionRegistry.thy ===== *)
theory SessionRegistry
  imports Registration
begin

text \<open>
  The in-memory projection of session authorization facts (\<open>backend/src/session_access/registry.rs\<close>) and its
  only writer (\<open>backend/src/reconcile/session_contexts.rs\<close>).

  The registry keeps one flat map from session ids to contexts, a staged map that no reader sees, and a
  readiness state. Its contract is the abstract \<open>projection\<close> below: one published set per repository, and at
  most one generation that is being collected. Every operation of the registry refines the operation of the
  projection, provided a session id determines its repository. Locks are not modelled: every operation runs
  under one write lock, so a history is a list of operations.
\<close>

section \<open>The registry\<close>

type_synonym repo_key = "int \<times> repo_ref"
type_synonym contexts = "str \<rightharpoonup> session_access_context"

datatype registry_state = Cold | Recovering | Ready

fun registry_state_as_str :: "registry_state \<Rightarrow> str" where
  "registry_state_as_str Cold = lit ''cold''"
| "registry_state_as_str Recovering = lit ''recovering''"
| "registry_state_as_str Ready = lit ''ready''"

definition is_ready_state :: "registry_state \<Rightarrow> bool" where
  "is_ready_state st \<longleftrightarrow> st = Ready"

record staging =
  sg_pending :: "repo_key set"
  sg_reported :: "repo_key set"
  sg_contexts :: contexts

record registry =
  rs_contexts :: contexts
  rs_staging :: "staging option"
  rs_state :: registry_state
  rs_generation :: nat

definition U64_MAX :: nat where
  "U64_MAX = 2 ^ 64 - 1"

definition saturating_succ :: "nat \<Rightarrow> nat" where
  "saturating_succ n = min (Suc n) U64_MAX"

definition key_of :: "session_access_context \<Rightarrow> repo_key" where
  "key_of c = (sa_installation_id c, sa_repo c)"

text \<open>\<open>HashMap::retain\<close> and \<open>HashMap::extend\<close>.\<close>

definition retain :: "(session_access_context \<Rightarrow> bool) \<Rightarrow> contexts \<Rightarrow> contexts" where
  "retain P m = (\<lambda>s. case m s of Some c \<Rightarrow> if P c then Some c else None | None \<Rightarrow> None)"

definition extend_map :: "(str \<times> session_access_context) list \<Rightarrow> contexts \<Rightarrow> contexts" where
  "extend_map cs m = fold (\<lambda>(s, c) m. m(s \<mapsto> c)) cs m"

definition degrade_staging :: "registry \<Rightarrow> bool \<times> registry" where
  "degrade_staging r =
     (case rs_staging r of
        None \<Rightarrow> (False, r)
      | Some staged \<Rightarrow>
          (True, r\<lparr>rs_staging := None,
                   rs_contexts := retain (\<lambda>c. key_of c \<notin> sg_reported staged) (rs_contexts r) ++ sg_contexts staged\<rparr>))"

definition new_registry :: "bool \<Rightarrow> registry" where
  "new_registry dispatch_enabled =
     \<lparr>rs_contexts = Map.empty, rs_staging = None, rs_state = (if dispatch_enabled then Cold else Ready),
      rs_generation = 0\<rparr>"

definition begin_generation :: "repo_key set \<Rightarrow> registry \<Rightarrow> registry" where
  "begin_generation expected r =
     (let r = snd (degrade_staging r);
          r = r\<lparr>rs_generation := saturating_succ (rs_generation r)\<rparr>
      in if expected = {} then r\<lparr>rs_contexts := Map.empty, rs_state := Ready\<rparr>
         else r\<lparr>rs_staging := Some \<lparr>sg_pending = expected, sg_reported = {}, sg_contexts = Map.empty\<rparr>,
                rs_state := if is_ready_state (rs_state r) then rs_state r else Recovering\<rparr>)"

definition degrade :: "registry \<Rightarrow> registry" where
  "degrade r =
     (case degrade_staging r of
        (False, r) \<Rightarrow> r
      | (True, r) \<Rightarrow> r\<lparr>rs_state := if is_ready_state (rs_state r) then rs_state r else Cold\<rparr>)"

definition abandon_generation :: "registry \<Rightarrow> registry" where
  "abandon_generation r = degrade r"

definition record_repo_failure :: "int \<Rightarrow> repo_ref \<Rightarrow> registry \<Rightarrow> registry" where
  "record_repo_failure installation_id repo r =
     (let expected = (case rs_staging r of Some staged \<Rightarrow> (installation_id, repo) \<in> sg_pending staged | None \<Rightarrow> False)
      in if \<not> expected then r else degrade r)"

definition replace_repo ::
  "int \<Rightarrow> repo_ref \<Rightarrow> (str \<times> session_access_context) list \<Rightarrow> registry \<Rightarrow> registry" where
  "replace_repo installation_id repo cs r =
     (case rs_staging r of
        Some staged \<Rightarrow>
          (let key = (installation_id, repo);
               staged = \<lparr>sg_pending = sg_pending staged - {key}, sg_reported = insert key (sg_reported staged),
                         sg_contexts = extend_map cs (retain (\<lambda>c. \<not> belongs_to c installation_id repo) (sg_contexts staged))\<rparr>
           in if sg_pending staged = {}
              then r\<lparr>rs_staging := None, rs_contexts := sg_contexts staged, rs_state := Ready\<rparr>
              else r\<lparr>rs_staging := Some staged\<rparr>)
      | None \<Rightarrow>
          r\<lparr>rs_contexts := extend_map cs (retain (\<lambda>c. \<not> belongs_to c installation_id repo) (rs_contexts r))\<rparr>)"

definition registry_get :: "registry \<Rightarrow> str \<Rightarrow> session_access_context option" where
  "registry_get r session_id = rs_contexts r session_id"

datatype context_lookup = Found session_access_context | Unknown | Unavailable

definition lookup :: "registry \<Rightarrow> str \<Rightarrow> context_lookup" where
  "lookup r session_id =
     (if \<not> is_ready_state (rs_state r) then Unavailable
      else case rs_contexts r session_id of Some c \<Rightarrow> Found c | None \<Rightarrow> Unknown)"

record registry_snapshot =
  sn_sessions :: nat
  sn_state :: registry_state
  sn_generation :: nat
  sn_pending_repositories :: nat

definition snapshot :: "registry \<Rightarrow> registry_snapshot" where
  "snapshot r =
     \<lparr>sn_sessions = card (dom (rs_contexts r)), sn_state = rs_state r, sn_generation = rs_generation r,
      sn_pending_repositories = (case rs_staging r of Some staged \<Rightarrow> card (sg_pending staged) | None \<Rightarrow> 0)\<rparr>"

text \<open>The contexts a sweep publishes for its repository.\<close>

definition context_of :: "session_registration \<Rightarrow> session_access_context" where
  "context_of reg =
     \<lparr>sa_installation_id = rg_installation_id reg, sa_repo = rg_repo reg, sa_trigger_issue = rg_trigger_issue reg,
      sa_creator = \<lparr>sc_login = rg_creator_login reg, sc_id = rg_creator_id reg\<rparr>,
      sa_collaborators = rg_collaborators reg, sa_log_access = rg_log_access reg\<rparr>"

definition record_session_contexts ::
  "int \<Rightarrow> repo_ref \<Rightarrow> session_registration list \<Rightarrow> registry \<Rightarrow> registry" where
  "record_session_contexts installation_id repo regs r =
     replace_repo installation_id repo (map (\<lambda>reg. (rg_session_id reg, context_of reg)) regs) r"

section \<open>Histories\<close>

datatype registry_op =
    BeginGeneration "repo_key set"
  | AbandonGeneration
  | RepoFailure repo_key
  | ReplaceRepo repo_key "(str \<times> session_access_context) list"

fun run_op :: "registry_op \<Rightarrow> registry \<Rightarrow> registry" where
  "run_op (BeginGeneration expected) r = begin_generation expected r"
| "run_op AbandonGeneration r = abandon_generation r"
| "run_op (RepoFailure k) r = record_repo_failure (fst k) (snd k) r"
| "run_op (ReplaceRepo k cs) r = replace_repo (fst k) (snd k) cs r"

definition run_ops :: "registry_op list \<Rightarrow> registry \<Rightarrow> registry" where
  "run_ops ops r = fold run_op ops r"

lemma run_ops_simps [simp]:
  "run_ops [] r = r"
  "run_ops (op # ops) r = run_ops ops (run_op op r)"
  "run_ops (ops @ ops') r = run_ops ops' (run_ops ops r)"
  by (simp_all add: run_ops_def)

lemmas registry_defs = begin_generation_def degrade_staging_def degrade_def abandon_generation_def
  record_repo_failure_def replace_repo_def is_ready_state_def

section \<open>The contract: one published set per repository\<close>

record projection =
  pj_shown :: "repo_key \<Rightarrow> contexts"
  pj_collecting :: "(repo_key set \<times> (repo_key \<rightharpoonup> contexts)) option"
  pj_state :: registry_state
  pj_generation :: nat

text \<open>Reports replace what was shown for their repository; a repository that said nothing keeps its set.\<close>

definition overlay :: "(repo_key \<rightharpoonup> contexts) \<Rightarrow> (repo_key \<Rightarrow> contexts) \<Rightarrow> repo_key \<Rightarrow> contexts" where
  "overlay reports shown = (\<lambda>k. case reports k of Some cs \<Rightarrow> cs | None \<Rightarrow> shown k)"

definition pj_new :: "bool \<Rightarrow> projection" where
  "pj_new dispatch_enabled =
     \<lparr>pj_shown = (\<lambda>_. Map.empty), pj_collecting = None, pj_state = (if dispatch_enabled then Cold else Ready),
      pj_generation = 0\<rparr>"

definition pj_settle :: "projection \<Rightarrow> projection" where
  "pj_settle p =
     (case pj_collecting p of
        None \<Rightarrow> p
      | Some (_, reports) \<Rightarrow> p\<lparr>pj_shown := overlay reports (pj_shown p), pj_collecting := None\<rparr>)"

definition pj_begin :: "repo_key set \<Rightarrow> projection \<Rightarrow> projection" where
  "pj_begin expected p =
     (let p = (pj_settle p)\<lparr>pj_generation := saturating_succ (pj_generation p)\<rparr>
      in if expected = {} then p\<lparr>pj_shown := (\<lambda>_. Map.empty), pj_state := Ready\<rparr>
         else p\<lparr>pj_collecting := Some (expected, Map.empty),
                pj_state := if pj_state p = Ready then Ready else Recovering\<rparr>)"

definition pj_abandon :: "projection \<Rightarrow> projection" where
  "pj_abandon p =
     (if pj_collecting p = None then p
      else (pj_settle p)\<lparr>pj_state := if pj_state p = Ready then Ready else Cold\<rparr>)"

definition pj_failure :: "repo_key \<Rightarrow> projection \<Rightarrow> projection" where
  "pj_failure k p =
     (case pj_collecting p of
        Some (expected, _) \<Rightarrow> if k \<in> expected then pj_abandon p else p
      | None \<Rightarrow> p)"

definition pj_report :: "repo_key \<Rightarrow> contexts \<Rightarrow> projection \<Rightarrow> projection" where
  "pj_report k cs p =
     (case pj_collecting p of
        None \<Rightarrow> p\<lparr>pj_shown := (pj_shown p)(k := cs)\<rparr>
      | Some (expected, reports) \<Rightarrow>
          if expected - {k} = {}
          then p\<lparr>pj_shown := overlay (reports(k \<mapsto> cs)) (\<lambda>_. Map.empty), pj_collecting := None, pj_state := Ready\<rparr>
          else p\<lparr>pj_collecting := Some (expected - {k}, reports(k \<mapsto> cs))\<rparr>)"

fun pj_op :: "registry_op \<Rightarrow> projection \<Rightarrow> projection" where
  "pj_op (BeginGeneration expected) p = pj_begin expected p"
| "pj_op AbandonGeneration p = pj_abandon p"
| "pj_op (RepoFailure k) p = pj_failure k p"
| "pj_op (ReplaceRepo k cs) p = pj_report k (extend_map cs Map.empty) p"

text \<open>The abstraction: the part of a flat map that belongs to one repository.\<close>

definition slice :: "contexts \<Rightarrow> repo_key \<Rightarrow> contexts" where
  "slice m k = retain (\<lambda>c. key_of c = k) m"

definition abs_staging :: "staging \<Rightarrow> repo_key set \<times> (repo_key \<rightharpoonup> contexts)" where
  "abs_staging st =
     (sg_pending st, \<lambda>k. if k \<in> sg_reported st then Some (slice (sg_contexts st) k) else None)"

definition abs_registry :: "registry \<Rightarrow> projection" where
  "abs_registry r =
     \<lparr>pj_shown = slice (rs_contexts r), pj_collecting = map_option abs_staging (rs_staging r),
      pj_state = rs_state r, pj_generation = rs_generation r\<rparr>"

text \<open>A session id determines its repository.\<close>

definition placed :: "(str \<Rightarrow> repo_key) \<Rightarrow> contexts \<Rightarrow> bool" where
  "placed home m \<longleftrightarrow> (\<forall>s c. m s = Some c \<longrightarrow> key_of c = home s)"

definition wf_registry :: "(str \<Rightarrow> repo_key) \<Rightarrow> registry \<Rightarrow> bool" where
  "wf_registry home r \<longleftrightarrow>
     placed home (rs_contexts r) \<and>
     (\<forall>st. rs_staging r = Some st \<longrightarrow>
        placed home (sg_contexts st) \<and> (\<forall>s c. sg_contexts st s = Some c \<longrightarrow> key_of c \<in> sg_reported st))"

definition wf_op :: "(str \<Rightarrow> repo_key) \<Rightarrow> registry_op \<Rightarrow> bool" where
  "wf_op home op =
     (case op of ReplaceRepo k cs \<Rightarrow> list_all (\<lambda>(s, c). home s = k \<and> key_of c = k) cs | _ \<Rightarrow> True)"

section \<open>Refinement\<close>

lemma retain_Some: "retain P m s = Some c \<longleftrightarrow> m s = Some c \<and> P c"
  by (auto simp: retain_def split: option.splits)

lemma retain_None: "retain P m s = None \<longleftrightarrow> (\<forall>c. m s = Some c \<longrightarrow> \<not> P c)"
  by (auto simp: retain_def split: option.splits)

lemma slice_Some: "slice m k s = Some c \<longleftrightarrow> m s = Some c \<and> key_of c = k"
  by (simp add: slice_def retain_Some)

lemma belongs_to_key: "belongs_to c (fst k) (snd k) \<longleftrightarrow> key_of c = k"
  by (cases k) (auto simp: belongs_to_def key_of_def)

lemma extend_map_add: "extend_map cs m = m ++ extend_map cs Map.empty"
proof (induction cs rule: rev_induct)
  case (snoc p cs)
  obtain s c where "p = (s, c)" by (cases p)
  then have "extend_map (cs @ [p]) n = (extend_map cs n)(s \<mapsto> c)" for n by (simp add: extend_map_def)
  then show ?case using snoc by (simp add: map_add_def fun_eq_iff)
qed (simp add: extend_map_def)

lemma extend_map_mem: "extend_map cs Map.empty s = Some c \<Longrightarrow> (s, c) \<in> set cs"
proof (induction cs rule: rev_induct)
  case (snoc p cs)
  obtain t d where "p = (t, d)" by (cases p)
  then have "extend_map (cs @ [p]) Map.empty = (extend_map cs Map.empty)(t \<mapsto> d)" by (simp add: extend_map_def)
  then show ?case using snoc \<open>p = (t, d)\<close> by (auto split: if_splits)
qed (simp add: extend_map_def)

text \<open>A placed map is determined by its slices.\<close>

lemma placed_slice: "placed home m \<Longrightarrow> slice m (home s) s = m s"
  by (cases "m s") (auto simp: slice_def retain_def placed_def)

lemma contexts_eqI: "(\<And>s c. m s = Some c \<longleftrightarrow> n s = Some c) \<Longrightarrow> m = n"
  for m n :: contexts
  by (metis map_le_antisym map_le_def domIff not_None_eq)

lemma report_slice:
  assumes "placed home m" "list_all (\<lambda>(s, c). home s = k \<and> key_of c = k) cs"
  shows "slice (extend_map cs (retain (\<lambda>c. \<not> belongs_to c (fst k) (snd k)) m)) =
    (slice m)(k := extend_map cs Map.empty)"
proof (rule ext, rule contexts_eqI)
  fix k' s c
  have e: "extend_map cs Map.empty s = Some d \<Longrightarrow> home s = k \<and> key_of d = k" for d
    using assms(2) extend_map_mem [of cs s d] by (auto simp: list_all_iff)
  show "slice (extend_map cs (retain (\<lambda>c. \<not> belongs_to c (fst k) (snd k)) m)) k' s = Some c \<longleftrightarrow>
      ((slice m)(k := extend_map cs Map.empty)) k' s = Some c"
    unfolding extend_map_add [of cs "retain _ _"] slice_Some belongs_to_key map_add_Some_iff retain_Some fun_upd_apply
    using e assms(1) by (cases "extend_map cs Map.empty s") (auto simp: slice_Some placed_def)
qed

lemma report_placed:
  assumes "placed home m" "list_all (\<lambda>(s, c). home s = k \<and> key_of c = k) cs"
  shows "placed home (extend_map cs (retain P m))"
  using assms extend_map_mem [of cs]
  unfolding placed_def extend_map_add [of cs "retain _ _"] map_add_Some_iff retain_Some
  by (fastforce simp: list_all_iff)

lemma settle_slice:
  assumes "placed home m" "placed home n" "\<And>s c. n s = Some c \<Longrightarrow> key_of c \<in> R"
  shows "slice (retain (\<lambda>c. key_of c \<notin> R) m ++ n) =
    overlay (\<lambda>k. if k \<in> R then Some (slice n k) else None) (slice m)"
proof (rule ext, rule contexts_eqI)
  fix k s c
  show "slice (retain (\<lambda>c. key_of c \<notin> R) m ++ n) k s = Some c \<longleftrightarrow>
      overlay (\<lambda>k. if k \<in> R then Some (slice n k) else None) (slice m) k s = Some c"
    using assms by (cases "n s") (auto simp: slice_Some map_add_Some_iff retain_Some overlay_def placed_def)
qed


lemma slice_empty [simp]: "slice Map.empty = (\<lambda>_. Map.empty)"
  by (rule ext) (simp add: slice_def retain_def)

lemma abs_registry_updates:
  "abs_registry (r\<lparr>rs_generation := n\<rparr>) = (abs_registry r)\<lparr>pj_generation := n\<rparr>"
  "abs_registry (r\<lparr>rs_state := st\<rparr>) = (abs_registry r)\<lparr>pj_state := st\<rparr>"
  "abs_registry (r\<lparr>rs_contexts := m\<rparr>) = (abs_registry r)\<lparr>pj_shown := slice m\<rparr>"
  "abs_registry (r\<lparr>rs_staging := sg\<rparr>) = (abs_registry r)\<lparr>pj_collecting := map_option abs_staging sg\<rparr>"
  "pj_state (abs_registry r) = rs_state r" "pj_generation (abs_registry r) = rs_generation r"
  by (simp_all add: abs_registry_def)

lemma degrade_staging_refines:
  assumes "wf_registry home r"
  shows "abs_registry (snd (degrade_staging r)) = pj_settle (abs_registry r)"
    and "wf_registry home (snd (degrade_staging r))"
    and "fst (degrade_staging r) \<longleftrightarrow> pj_collecting (abs_registry r) \<noteq> None"
    and "rs_staging (snd (degrade_staging r)) = None"
proof -
  show "abs_registry (snd (degrade_staging r)) = pj_settle (abs_registry r)"
  proof (cases "rs_staging r")
    case (Some st)
    then have "slice (retain (\<lambda>c. key_of c \<notin> sg_reported st) (rs_contexts r) ++ sg_contexts st) =
        overlay (snd (abs_staging st)) (slice (rs_contexts r))"
      using assms settle_slice [of home "rs_contexts r" "sg_contexts st" "sg_reported st"]
      by (auto simp: wf_registry_def abs_staging_def)
    with Some show ?thesis
      by (simp add: degrade_staging_def abs_registry_def pj_settle_def abs_staging_def)
  qed (simp add: degrade_staging_def abs_registry_def pj_settle_def)
  show "wf_registry home (snd (degrade_staging r))"
    using assms by (auto simp: wf_registry_def degrade_staging_def placed_def map_add_Some_iff retain_Some split: option.splits)
qed (auto simp: degrade_staging_def abs_registry_def split: option.splits)

lemma degrade_refines:
  assumes "wf_registry home r"
  shows "abs_registry (degrade r) = pj_abandon (abs_registry r)" "wf_registry home (degrade r)"
proof -
  obtain b r' where d: "degrade_staging r = (b, r')" by (cases "degrade_staging r")
  note f = degrade_staging_refines [OF assms, unfolded d, simplified]
  have "rs_state r' = rs_state r" using d by (auto simp: degrade_staging_def split: option.splits)
  show "abs_registry (degrade r) = pj_abandon (abs_registry r)"
  proof (cases b)
    case True
    have "abs_registry (degrade r) = (abs_registry r')\<lparr>pj_state := if pj_state (abs_registry r) = Ready then Ready else Cold\<rparr>"
      using d True \<open>rs_state r' = rs_state r\<close> by (simp add: degrade_def is_ready_state_def abs_registry_def)
    then show ?thesis using f True by (auto simp: pj_abandon_def)
  next
    case False
    then have "degrade r = r" using d by (auto simp: degrade_def degrade_staging_def split: option.splits)
    then show ?thesis using f False by (simp add: pj_abandon_def)
  qed
  show "wf_registry home (degrade r)" using f(2) by (cases b) (auto simp: degrade_def d wf_registry_def)
qed

lemma replace_repo_refines:
  assumes "wf_registry home r" "list_all (\<lambda>(s, c). home s = k \<and> key_of c = k) cs"
  shows "abs_registry (replace_repo (fst k) (snd k) cs r) = pj_report k (extend_map cs Map.empty) (abs_registry r)"
    and "wf_registry home (replace_repo (fst k) (snd k) cs r)"
proof -
  have live: "placed home (rs_contexts r)" using assms(1) by (simp add: wf_registry_def)
  show "abs_registry (replace_repo (fst k) (snd k) cs r) = pj_report k (extend_map cs Map.empty) (abs_registry r)"
  proof (cases "rs_staging r")
    case None
    then show ?thesis
      by (simp add: replace_repo_def abs_registry_def pj_report_def report_slice [OF live assms(2)])
  next
    case (Some st)
    let ?m = "extend_map cs (retain (\<lambda>c. \<not> belongs_to c (fst k) (snd k)) (sg_contexts st))"
    have st: "placed home (sg_contexts st)" "\<And>s c. sg_contexts st s = Some c \<Longrightarrow> key_of c \<in> sg_reported st"
      using assms(1) Some by (auto simp: wf_registry_def)
    note m = report_slice [OF st(1) assms(2)]
    have unreported: "slice (sg_contexts st) k' = Map.empty" if "k' \<notin> sg_reported st" for k'
      using that st(2) by (intro contexts_eqI) (auto simp: slice_Some)
    let ?st = "\<lparr>sg_pending = sg_pending st - {k}, sg_reported = insert k (sg_reported st), sg_contexts = ?m\<rparr>"
    obtain reports where a: "abs_staging st = (sg_pending st, reports)"
      and reports: "reports = (\<lambda>k. if k \<in> sg_reported st then Some (slice (sg_contexts st) k) else None)"
      by (simp add: abs_staging_def)
    have f: "abs_staging ?st = (sg_pending st - {k}, reports(k \<mapsto> extend_map cs Map.empty))"
      by (simp add: abs_staging_def m reports fun_eq_iff)
    have o: "slice ?m = overlay (reports(k \<mapsto> extend_map cs Map.empty)) (\<lambda>_. Map.empty)"
      unfolding m by (rule ext) (simp add: overlay_def reports unreported)
    have "replace_repo (fst k) (snd k) cs r =
        (if sg_pending st - {k} = {} then r\<lparr>rs_staging := None, rs_contexts := ?m, rs_state := Ready\<rparr>
         else r\<lparr>rs_staging := Some ?st\<rparr>)"
      using Some by (simp add: replace_repo_def Let_def)
    then show ?thesis using Some by (simp add: abs_registry_def pj_report_def a f o)
  qed
  show "wf_registry home (replace_repo (fst k) (snd k) cs r)"
  proof (cases "rs_staging r")
    case None
    then show ?thesis
      using report_placed [OF live assms(2)] by (simp add: replace_repo_def wf_registry_def)
  next
    case (Some st)
    let ?m = "extend_map cs (retain (\<lambda>c. \<not> belongs_to c (fst k) (snd k)) (sg_contexts st))"
    have st: "placed home (sg_contexts st)" "\<And>s c. sg_contexts st s = Some c \<Longrightarrow> key_of c \<in> sg_reported st"
      using assms(1) Some by (auto simp: wf_registry_def)
    have "key_of c \<in> insert k (sg_reported st)" if "?m s = Some c" for s c
      using that assms(2) extend_map_mem [of cs s c] st(2) [of s c]
      unfolding extend_map_add [of cs "retain _ _"] map_add_Some_iff retain_Some by (auto simp: list_all_iff)
    then show ?thesis
      using Some report_placed [OF st(1) assms(2)] live
      by (auto simp: replace_repo_def wf_registry_def Let_def)
  qed
qed

lemma run_op_refines:
  assumes "wf_registry home r" "wf_op home op"
  shows "abs_registry (run_op op r) = pj_op op (abs_registry r) \<and> wf_registry home (run_op op r)"
proof (cases op)
  case (BeginGeneration expected)
  obtain b r' where d: "degrade_staging r = (b, r')" by (cases "degrade_staging r")
  note f = degrade_staging_refines [OF assms(1), unfolded d, simplified]
  have g: "rs_generation r' = rs_generation r" "rs_staging r' = None" using d by (auto simp: degrade_staging_def split: option.splits)
  have "abs_registry (begin_generation expected r) = pj_begin expected (abs_registry r)"
    unfolding begin_generation_def pj_begin_def d Let_def f(1) [symmetric]
    by (simp add: abs_registry_updates is_ready_state_def g abs_staging_def)
  moreover have "wf_registry home (begin_generation expected r)"
    using f(2) unfolding begin_generation_def d Let_def by (auto simp: wf_registry_def placed_def)
  ultimately show ?thesis using BeginGeneration by simp
next
  case AbandonGeneration
  then show ?thesis using degrade_refines [OF assms(1)] by (simp add: abandon_generation_def)
next
  case (RepoFailure k)
  then show ?thesis
    using degrade_refines [OF assms(1)] assms(1)
    by (cases "rs_staging r") (auto simp: record_repo_failure_def pj_failure_def abs_registry_def abs_staging_def)
next
  case (ReplaceRepo k cs)
  then show ?thesis using replace_repo_refines [OF assms(1)] assms(2) by (simp add: wf_op_def)
qed

lemma run_ops_refines:
  assumes "wf_registry home r" "list_all (wf_op home) ops"
  shows "abs_registry (run_ops ops r) = fold pj_op ops (abs_registry r) \<and> wf_registry home (run_ops ops r)"
  using assms
proof (induction ops arbitrary: r)
  case (Cons op ops)
  then show ?case using run_op_refines [of home r op] by simp
qed simp


section \<open>Properties\<close>

definition pj_lookup :: "(str \<Rightarrow> repo_key) \<Rightarrow> projection \<Rightarrow> str \<Rightarrow> context_lookup" where
  "pj_lookup home p session_id =
     (if pj_state p \<noteq> Ready then Unavailable
      else case pj_shown p (home session_id) session_id of Some c \<Rightarrow> Found c | None \<Rightarrow> Unknown)"

lemma wf_new_registry [simp]: "wf_registry home (new_registry d)"
  by (simp add: wf_registry_def new_registry_def placed_def)

lemma abs_new_registry [simp]: "abs_registry (new_registry d) = pj_new d"
  by (simp add: abs_registry_def new_registry_def pj_new_def)

text \<open>
  C7: the registry refines the projection. Whatever order resyncs, failures and sweeps take, each operation on
  the flat maps is the operation of the contract on one set per repository, and readers see exactly what the
  contract shows: nothing of a generation that is still being collected, and nothing of another repository.
\<close>

theorem registry_refines_projection:
  assumes "list_all (wf_op home) ops"
  shows "abs_registry (run_ops ops (new_registry d)) = fold pj_op ops (pj_new d) \<and>
    lookup (run_ops ops (new_registry d)) s = pj_lookup home (fold pj_op ops (pj_new d)) s \<and>
    registry_get (run_ops ops (new_registry d)) s = pj_shown (fold pj_op ops (pj_new d)) (home s) s"
proof -
  let ?r = "run_ops ops (new_registry d)"
  have r: "abs_registry ?r = fold pj_op ops (pj_new d)" "wf_registry home ?r"
    using run_ops_refines [OF wf_new_registry assms, of d] by simp_all
  have "pj_shown (abs_registry ?r) (home s) s = rs_contexts ?r s"
    using r(2) placed_slice by (auto simp: abs_registry_def wf_registry_def)
  then show ?thesis
    unfolding r(1) [symmetric]
    by (simp add: lookup_def pj_lookup_def registry_get_def is_ready_state_def abs_registry_updates)
qed

definition sample_repo :: repo_ref where
  "sample_repo = \<lparr>rf_owner = lit ''acme'', rf_name = lit ''site''\<rparr>"

definition sample_context :: session_access_context where
  "sample_context =
     \<lparr>sa_installation_id = 1, sa_repo = sample_repo, sa_trigger_issue = 7,
      sa_creator = \<lparr>sc_login = lit ''alice'', sc_id = Some 9\<rparr>, sa_collaborators = [], sa_log_access = []\<rparr>"

theorem registry_refines_projection_witness:
  "lookup (run_ops [BeginGeneration {(1, sample_repo)}, ReplaceRepo (1, sample_repo) [(lit ''s'', sample_context)]]
       (new_registry True)) (lit ''s'') = Found sample_context"
proof -
  let ?ops = "[BeginGeneration {(1, sample_repo)}, ReplaceRepo (1, sample_repo) [(lit ''s'', sample_context)]]"
  have "list_all (wf_op (\<lambda>_. (1, sample_repo))) ?ops"
    by (simp add: wf_op_def key_of_def sample_context_def)
  from registry_refines_projection [OF this, of True "lit ''s''"] show ?thesis
    by (simp add: pj_lookup_def pj_begin_def pj_new_def pj_settle_def pj_report_def overlay_def extend_map_def)
qed

lemma record_session_contexts_wf:
  assumes "\<And>reg. reg \<in> set regs \<Longrightarrow> rg_installation_id reg = i \<and> rg_repo reg = repo \<and> home (rg_session_id reg) = (i, repo)"
  shows "wf_op home (ReplaceRepo (i, repo) (map (\<lambda>reg. (rg_session_id reg, context_of reg)) regs))"
  using assms by (auto simp: wf_op_def list_all_iff key_of_def context_of_def)

text \<open>What a generation covers, read off a history.\<close>

definition reports_in :: "registry_op list \<Rightarrow> repo_key set" where
  "reports_in ops = {k. \<exists>cs. ReplaceRepo k cs \<in> set ops}"

definition within_generation :: "registry_op list \<Rightarrow> bool" where
  "within_generation ops \<longleftrightarrow> (\<forall>op \<in> set ops. (\<forall>E. op \<noteq> BeginGeneration E) \<and> op \<noteq> AbandonGeneration)"

definition covered :: "registry_op list \<Rightarrow> bool" where
  "covered ops \<longleftrightarrow>
     (\<exists>before E during after. ops = before @ BeginGeneration E # during @ after \<and> within_generation during \<and>
        E \<subseteq> reports_in during)"

lemma reports_in_snoc: "reports_in (ops @ [op]) = reports_in ops \<union> (case op of ReplaceRepo k _ \<Rightarrow> {k} | _ \<Rightarrow> {})"
  by (auto simp: reports_in_def split: registry_op.splits)

lemma covered_snoc: "covered ops \<Longrightarrow> covered (ops @ [op])"
  unfolding covered_def by (metis append_assoc append_Cons)

lemma run_snoc: "run_ops (ops @ [op]) r = run_op op (run_ops ops r)"
  by simp

lemma history_inv:
  defines "r ops \<equiv> run_ops ops (new_registry True)"
  shows "(rs_state (r ops) = Ready \<longrightarrow> covered ops) \<and>
    (\<forall>st. rs_staging (r ops) = Some st \<longrightarrow>
       (\<exists>before E during. ops = before @ BeginGeneration E # during \<and> within_generation during \<and>
          sg_pending st = E - reports_in during))"
proof (induction ops rule: rev_induct)
  case Nil
  show ?case by (simp add: r_def new_registry_def)
next
  case (snoc op ops)
  have step: "r (ops @ [op]) = run_op op (r ops)" by (simp add: r_def)
  show ?case
  proof (cases op)
    case (BeginGeneration E)
    have "covered (ops @ [op])" if "E = {}"
      unfolding covered_def BeginGeneration that by (rule exI [of _ ops]) (auto simp: within_generation_def intro: exI [of _ "[]"])
    moreover have "rs_state (r (ops @ [op])) = Ready \<Longrightarrow> E \<noteq> {} \<Longrightarrow> rs_state (r ops) = Ready"
      by (auto simp: step [unfolded BeginGeneration] BeginGeneration registry_defs Let_def split: option.splits if_splits)
    moreover have "\<exists>before E' during. ops @ [op] = before @ BeginGeneration E' # during \<and> within_generation during \<and>
        sg_pending st = E' - reports_in during" if "rs_staging (r (ops @ [op])) = Some st" for st
      using that by (intro exI [of _ ops] exI [of _ E] exI [of _ "[]"])
        (auto simp: step [unfolded BeginGeneration] BeginGeneration registry_defs Let_def within_generation_def reports_in_def split: option.splits if_splits)
    ultimately show ?thesis using snoc covered_snoc by blast
  next
    case AbandonGeneration
    then show ?thesis
      using snoc covered_snoc by (auto simp: step [unfolded AbandonGeneration] registry_defs split: option.splits if_splits)
  next
    case (RepoFailure k)
    have "rs_state (r (ops @ [op])) = Ready \<Longrightarrow> rs_state (r ops) = Ready"
      and "rs_staging (r (ops @ [op])) = Some st \<Longrightarrow> rs_staging (r ops) = Some st" for st
      by (auto simp: step [unfolded RepoFailure] RepoFailure registry_defs Let_def split: option.splits if_splits)
    moreover have "within_generation (during @ [op])" "reports_in (during @ [op]) = reports_in during"
      if "within_generation during" for during
      using that by (auto simp: within_generation_def RepoFailure reports_in_snoc)
    ultimately show ?thesis using snoc covered_snoc by (metis append_assoc append_Cons)
  next
    case (ReplaceRepo k cs)
    show ?thesis
    proof (cases "rs_staging (r ops)")
      case None
      then show ?thesis using snoc covered_snoc by (auto simp: step [unfolded ReplaceRepo] ReplaceRepo replace_repo_def)
    next
      case (Some st)
      then obtain before E during where h: "ops = before @ BeginGeneration E # during" "within_generation during"
          "sg_pending st = E - reports_in during" using snoc by blast
      then have h': "ops @ [op] = before @ BeginGeneration E # (during @ [op])" "within_generation (during @ [op])"
          "sg_pending st - {k} = E - reports_in (during @ [op])"
        by (auto simp: within_generation_def ReplaceRepo reports_in_snoc)
      have "covered (ops @ [op])" if "sg_pending st - {k} = {}"
        unfolding covered_def using h' that
        by (intro exI [of _ before] exI [of _ E] exI [of _ "during @ [op]"] exI [of _ "[]"]) auto
      moreover have "rs_state (r (ops @ [op])) = Ready \<Longrightarrow> sg_pending st - {k} = {} \<or> rs_state (r ops) = Ready"
        and pend: "rs_staging (r (ops @ [op])) = Some st' \<Longrightarrow> sg_pending st' = sg_pending st - {k}" for st'
        using Some by (auto simp: step [unfolded ReplaceRepo] ReplaceRepo replace_repo_def Let_def split: if_splits)
      moreover have "covered (ops @ [op])" if "rs_state (r ops) = Ready"
        using that snoc by (blast intro: covered_snoc)
      ultimately show ?thesis using h' unfolding h'(1) by (metis pend)
    qed
  qed
qed

text \<open>
  C24: the projection never claims completeness it does not have. With dispatch on, an answer other than
  "unavailable" means that some enumeration was opened and every repository of it has reported since, with no
  discovery abandoned or reopened in between.
\<close>

theorem ready_registry_was_covered:
  assumes "lookup (run_ops ops (new_registry True)) s \<noteq> Unavailable"
  shows "covered ops"
  using history_inv [of ops] assms by (auto simp: lookup_def is_ready_state_def split: if_splits)

theorem ready_registry_was_covered_witness:
  "covered [BeginGeneration {(1, sample_repo)}, ReplaceRepo (1, sample_repo) [(lit ''s'', sample_context)]]"
  by (rule ready_registry_was_covered [of _ "lit ''s''"])
     (simp add: registry_defs new_registry_def lookup_def extend_map_def)

definition touched :: "registry_op list \<Rightarrow> repo_key set" where
  "touched ops = {k. RepoFailure k \<in> set ops} \<union> reports_in ops"

lemma staged_pending:
  assumes "\<And>E. BeginGeneration E \<notin> set ops" "rs_staging (run_ops ops (begin_generation E r)) = Some st"
  shows "sg_pending st \<noteq> {} \<and> sg_pending st \<subseteq> E - touched ops"
  using assms
proof (induction ops arbitrary: st rule: rev_induct)
  case Nil
  then show ?case by (auto simp: registry_defs Let_def touched_def reports_in_def split: option.splits if_splits)
next
  case (snoc op ops)
  let ?r = "run_ops ops (begin_generation E r)"
  have s: "rs_staging (run_op op ?r) = Some st" using snoc.prems(2) by simp
  then obtain st' where st': "rs_staging ?r = Some st'"
    using snoc.prems(1) by (cases op) (auto simp: registry_defs Let_def split: option.splits if_splits)
  note IH = snoc.IH [OF _ st']
  show ?case
  proof (cases op)
    case (RepoFailure k)
    then have "st = st'" "k \<notin> sg_pending st'" using s st' by (auto simp: registry_defs Let_def split: if_splits)
    then show ?thesis using IH snoc.prems(1) RepoFailure by (auto simp: touched_def reports_in_def)
  next
    case (ReplaceRepo k cs)
    then have "sg_pending st = sg_pending st' - {k}" "sg_pending st \<noteq> {}"
      using s st' by (auto simp: registry_defs Let_def split: if_splits)
    then show ?thesis using IH snoc.prems(1) ReplaceRepo by (auto simp: touched_def reports_in_def)
  qed (use s st' snoc.prems(1) in \<open>auto simp: registry_defs\<close>)
qed

text \<open>
  A staged generation always ends. Once every repository of an enumeration has either reported or failed,
  the buffer is gone and writes are visible again, whatever else happened in between.
\<close>

theorem generation_always_ends:
  assumes "\<And>E'. BeginGeneration E' \<notin> set ops" "E \<subseteq> touched ops"
  shows "rs_staging (run_ops ops (begin_generation E r)) = None"
  using staged_pending [OF assms(1)] assms(2) by (cases "rs_staging (run_ops ops (begin_generation E r))") blast+

theorem generation_always_ends_witness:
  "rs_staging (run_ops [RepoFailure (1, sample_repo)] (begin_generation {(1, sample_repo)} (new_registry True))) = None"
  by (rule generation_always_ends) (auto simp: touched_def)

end
