(* ===== verification/ReconcilePass.thy ===== *)
theory ReconcilePass
  imports Desired SchedulePass LabelDiscovery SessionRegistry
begin

text \<open>
  One pass over one repository (\<open>backend/src/reconcile/repo.rs\<close>, the hash marker of \<open>announce.rs\<close>): triggers are classified
  from metadata, parsed, demoted stage by stage, planned and executed. The answers of GitHub and of the session backend
  are fields of \<open>pass_answers\<close>; an answer \<open>None\<close> is a failed call. The result is the sequence of effects of the pass with
  how it ended.
\<close>

section \<open>The frozen configuration hash\<close>

definition is_lower_hex :: "uchar \<Rightarrow> bool" where
  "is_lower_hex c \<longleftrightarrow> is_ascii_digit c \<or> (ch (CHR ''a'') \<le> c \<and> c \<le> ch (CHR ''f''))"

definition HASH_MARKER_PREFIX :: str where "HASH_MARKER_PREFIX = lit ''<!-- fkst-config-hash: ''"
definition HASH_MARKER_SUFFIX :: str where "HASH_MARKER_SUFFIX = lit '' -->''"

definition config_hash_marker :: "str \<Rightarrow> str" where
  "config_hash_marker h = [10, 10] @ HASH_MARKER_PREFIX @ h @ HASH_MARKER_SUFFIX"

text \<open>The leftmost match of the regular expression in one comment.\<close>

definition marker_here :: "str \<Rightarrow> str option" where
  "marker_here s =
     (case strip_prefix HASH_MARKER_PREFIX s of
        None \<Rightarrow> None
      | Some r \<Rightarrow>
          (let hex = takeWhile is_lower_hex r
           in if hex \<noteq> [] \<and> strip_prefix HASH_MARKER_SUFFIX (dropWhile is_lower_hex r) \<noteq> None then Some hex else None))"

fun marker_in :: "str \<Rightarrow> str option" where
  "marker_in [] = marker_here []"
| "marker_in (c # s) = (case marker_here (c # s) of Some h \<Rightarrow> Some h | None \<Rightarrow> marker_in s)"

fun parse_config_hash_marker :: "str list \<Rightarrow> str option" where
  "parse_config_hash_marker [] = None"
| "parse_config_hash_marker (body # comments) =
     (case marker_in body of Some h \<Rightarrow> Some h | None \<Rightarrow> parse_config_hash_marker comments)"

section \<open>Classification\<close>

text \<open>What the feedback of a refused or demoted trigger says; the wording is the parameter \<open>ct_message\<close>.\<close>

datatype pass_message =
    NotAttributable nat | CreatorRefused str str str | TriggerUnparsed trigger_error | PackagesDemoted demotion
  | LabelsInvalid work_label_error | SourceMissing str repo_ref

record pass_context =
  ct_installation_id :: int
  ct_repo :: repo_ref
  ct_access :: access_policy
  ct_bot_login :: "str option"
  ct_mandatory :: "package_ref list"
  ct_namespace :: "str option"
  ct_plan :: plan_config
  ct_digest :: "json \<Rightarrow> str"
  ct_uuid_v5 :: "str \<Rightarrow> str"
  ct_lower :: "str \<Rightarrow> str"
  ct_message :: "pass_message \<Rightarrow> str"

record classified_triggers =
  cl_registrations :: "session_registration list"
  cl_invalid :: "(int \<times> str) list"
  cl_unauthorized :: "(int \<times> str) list"
  cl_authorized_issues :: "int list"

definition no_triggers :: classified_triggers where
  "no_triggers = \<lparr>cl_registrations = [], cl_invalid = [], cl_unauthorized = [], cl_authorized_issues = []\<rparr>"

definition parse_classified_registration ::
  "pass_context \<Rightarrow> issue_summary \<Rightarrow> session_creator \<Rightarrow> classified_triggers \<Rightarrow> classified_triggers" where
  "parse_classified_registration ct issue creator cl =
     (case parse_registration (ct_digest ct) (ct_uuid_v5 ct) (ct_installation_id ct) (ct_repo ct) issue creator of
        Inr registration \<Rightarrow> cl\<lparr>cl_registrations := cl_registrations cl @ [registration]\<rparr>
      | Inl (number, e) \<Rightarrow> cl\<lparr>cl_invalid := cl_invalid cl @ [(number, ct_message ct (TriggerUnparsed e))]\<rparr>)"

definition refuse_trigger :: "pass_context \<Rightarrow> int \<Rightarrow> pass_message \<Rightarrow> classified_triggers \<Rightarrow> classified_triggers" where
  "refuse_trigger ct number m cl = cl\<lparr>cl_unauthorized := cl_unauthorized cl @ [(number, ct_message ct m)]\<rparr>"

definition creator_id_or_none :: "session_creator \<Rightarrow> int" where
  "creator_id_or_none creator = (case sc_id creator of Some i \<Rightarrow> i | None \<Rightarrow> - 1)"

definition classify_trigger ::
  "pass_context \<Rightarrow> (str \<Rightarrow> str option option) \<Rightarrow> int list \<Rightarrow> issue_summary \<Rightarrow> classified_triggers \<times> trigger_authz_cache \<Rightarrow>
   classified_triggers \<times> trigger_authz_cache" where
  "classify_trigger ct role announced issue st =
     (let (cl, cache) = st
      in if \<not> allows (ct_access ct) (su_user_id issue) (su_user_login issue) then st
         else case effective_creator (metadata issue) (ct_bot_login ct) of
                Unattributable _ n \<Rightarrow> (refuse_trigger ct (su_number issue) (NotAttributable n) cl, cache)
              | Resolved creator \<Rightarrow>
                  if \<not> allows (ct_access ct) (creator_id_or_none creator) (sc_login creator) then st
                  else
                    let (decision, cache) =
                      check_trigger_creator role (rf_owner (ct_repo ct)) (rf_name (ct_repo ct)) (ct_access ct) creator cache
                    in (case decision of
                          Authorized \<Rightarrow>
                            parse_classified_registration ct issue creator
                              (cl\<lparr>cl_authorized_issues := cl_authorized_issues cl @ [su_number issue]\<rparr>)
                        | Unauthorized login own nm \<Rightarrow> refuse_trigger ct (su_number issue) (CreatorRefused login own nm) cl
                        | Deferred \<Rightarrow>
                            (if su_number issue \<in> set announced then parse_classified_registration ct issue creator cl else cl),
                        cache))"

definition classify_triggers ::
  "pass_context \<Rightarrow> (str \<Rightarrow> str option option) \<Rightarrow> int list \<Rightarrow> issue_summary list \<Rightarrow> classified_triggers" where
  "classify_triggers ct role announced issues =
     fst (fold (classify_trigger ct role announced) issues (no_triggers, Map.empty))"

section \<open>Demotion\<close>

datatype pass_stage =
    MintToken | ListTriggers | DefaultBranch | BranchHead | ObserveRuntimes | PendingGate

datatype pass_outcome = PassDone | PassFailed pass_stage | PassDiverges

record 'w pass_answers =
  pa_token :: bool
  pa_issues :: "issue_summary list option"
  pa_role :: "str \<Rightarrow> str option option"
  pa_comments :: "int \<Rightarrow> str list option"
  pa_expand :: "'w expander"
  pa_world :: 'w
  pa_manifest :: "package_node \<Rightarrow> package_manifest option"
  pa_default_branch :: "str option"
  pa_branch_head :: "str \<Rightarrow> str option option"
  pa_live :: "live_pod list option"
  pa_count :: "str \<Rightarrow> unit + nat"
  pa_listing :: "str \<Rightarrow> unit + issue_summary list"
  pa_now :: instant

definition retain_regs :: "(int \<times> str) list \<Rightarrow> session_registration list \<Rightarrow> session_registration list" where
  "retain_regs losers regs = filter (\<lambda>reg. rg_trigger_issue reg \<notin> set (map fst losers)) regs"

definition stamp_packages :: "effective_packages \<Rightarrow> session_registration \<Rightarrow> session_registration" where
  "stamp_packages ep reg =
     (let reg = (case ep_by_session ep (rg_session_id reg) of Some ps \<Rightarrow> reg\<lparr>rg_effective_packages := ps\<rparr> | None \<Rightarrow> reg)
      in case ep_package_env ep (rg_session_id reg) of Some env \<Rightarrow> reg\<lparr>rg_effective_package_env := env\<rparr> | None \<Rightarrow> reg)"

text \<open>The namespace stage: the effective labels by session, and the registrations whose labels are unusable.\<close>

fun namespace_labels ::
  "pass_context \<Rightarrow> (str \<rightharpoonup> str list) \<Rightarrow> session_registration list \<Rightarrow> (str \<rightharpoonup> str list) \<times> (int \<times> str) list \<Rightarrow>
   (str \<rightharpoonup> str list) \<times> (int \<times> str) list" where
  "namespace_labels ct logical [] acc = acc"
| "namespace_labels ct logical (reg # regs) acc =
     (let labels = (case logical (rg_session_id reg) of Some ls \<Rightarrow> ls | None \<Rightarrow> [])
      in namespace_labels ct logical regs
           (case apply_work_label_namespace (ct_lower ct) labels (ct_namespace ct) of
              Inr ewl \<Rightarrow> ((fst acc)(rg_session_id reg \<mapsto> ewl_effective ewl), snd acc)
            | Inl e \<Rightarrow> (fst acc, snd acc @ [(rg_trigger_issue reg, ct_message ct (LabelsInvalid e))])))"

text \<open>The source-branch stage; the default branch is read once, when it is first needed.\<close>

fun missing_sources ::
  "pass_context \<Rightarrow> 'w pass_answers \<Rightarrow> session_registration list \<Rightarrow> str option \<Rightarrow> (int \<times> str) list \<Rightarrow>
   pass_stage + (int \<times> str) list" where
  "missing_sources ct pa [] default_branch missing = Inr missing"
| "missing_sources ct pa (reg # regs) default_branch missing =
     (let source = (case df_source_branch (rg_def reg) of
            Some s \<Rightarrow> Some s
          | None \<Rightarrow> (case default_branch of Some s \<Rightarrow> Some s | None \<Rightarrow> pa_default_branch pa));
          default_branch = (if df_source_branch (rg_def reg) = None then source else default_branch)
      in case source of
           None \<Rightarrow> Inl DefaultBranch
         | Some source \<Rightarrow>
             (case pa_branch_head pa source of
                None \<Rightarrow> Inl BranchHead
              | Some head \<Rightarrow>
                  missing_sources ct pa regs default_branch
                    (if head = None
                     then missing @ [(rg_trigger_issue reg, ct_message ct (SourceMissing source (ct_repo ct)))]
                     else missing)))"

record pass_snapshot =
  sn_regs :: "session_registration list"
  sn_invalid :: "(int \<times> str) list"
  sn_logical :: "str \<rightharpoonup> str list"
  sn_effective :: "str \<rightharpoonup> str list"

definition demote_all ::
  "pass_context \<Rightarrow> 'w pass_answers \<Rightarrow> classified_triggers \<Rightarrow> pass_outcome + pass_snapshot" where
  "demote_all ct pa cl =
     (let (ep, _) = resolve_effective_packages (pa_expand pa) (cl_registrations cl) (ct_mandatory ct) (pa_world pa);
          packages = map (\<lambda>(i, d). (i, ct_message ct (PackagesDemoted d))) (ep_demotions ep);
          regs1 = map (stamp_packages ep) (retain_regs packages (cl_registrations cl))
      in case resolve_work_label_sets (pa_manifest pa) regs1 of
           None \<Rightarrow> Inl PassDiverges
         | Some logical \<Rightarrow>
             (let (effective, bad_labels) = namespace_labels ct logical regs1 (Map.empty, []);
                  regs2 = retain_regs bad_labels regs1;
                  unlabelled = detect_missing_work_labels regs2 logical;
                  regs3 = retain_regs unlabelled regs2;
                  collisions = detect_work_label_collisions regs3 effective;
                  regs4 = retain_regs collisions regs3
              in case missing_sources ct pa regs4 None [] of
                   Inl stage \<Rightarrow> Inl (PassFailed stage)
                 | Inr sources \<Rightarrow>
                     Inr \<lparr>sn_regs = retain_regs sources regs4,
                          sn_invalid = cl_invalid cl @ packages @ bad_labels @ unlabelled @ collisions @ sources,
                          sn_logical = logical, sn_effective = effective\<rparr>))"

section \<open>The pass\<close>

datatype pass_effect =
    EnsureTemplates
  | SetActive bool
  | PublishContexts "session_registration list"
  | MergeBotPullRequests bool
  | AckWorkIssues "session_registration list" "str \<rightharpoonup> str list"
  | Execute reconcile_action
  | RunSchedulePass "session_registration list"
  | BackfillIdentities "session_registration list" "live_pod list"

definition latched :: "str \<Rightarrow> issue_summary list \<Rightarrow> int list" where
  "latched label issues = map su_number (filter (\<lambda>issue. label \<in> set (su_labels issue)) issues)"

definition SUBSTRATE_INVALID_LABEL :: str where "SUBSTRATE_INVALID_LABEL = lit ''fkst-substrate-invalid''"
definition SUBSTRATE_ANNOUNCED_LABEL :: str where "SUBSTRATE_ANNOUNCED_LABEL = lit ''fkst-substrate-active''"
definition SUBSTRATE_CONFIG_REJECTED_LABEL :: str where "SUBSTRATE_CONFIG_REJECTED_LABEL = lit ''fkst-config-rejected''"
definition TRIGGER_UNAUTHORIZED_LABEL :: str where "TRIGGER_UNAUTHORIZED_LABEL = lit ''fkst-trigger-unauthorized''"

definition latched_hashes ::
  "'w pass_answers \<Rightarrow> int list \<Rightarrow> session_registration list \<Rightarrow> (int \<rightharpoonup> str)" where
  "latched_hashes pa announced regs =
     fold (\<lambda>reg m.
       if rg_trigger_issue reg \<notin> set announced then m
       else case pa_comments pa (rg_trigger_issue reg) of
              None \<Rightarrow> m
            | Some comments \<Rightarrow>
                (case parse_config_hash_marker comments of Some h \<Rightarrow> m(rg_trigger_issue reg \<mapsto> h) | None \<Rightarrow> m)) regs Map.empty"

fun pending_sessions ::
  "pass_context \<Rightarrow> 'w pass_answers \<Rightarrow> (str \<rightharpoonup> str list) \<Rightarrow> session_registration list \<Rightarrow> (str \<rightharpoonup> bool) \<Rightarrow>
   unit + (str \<rightharpoonup> bool)" where
  "pending_sessions ct pa effective [] pending = Inr pending"
| "pending_sessions ct pa effective (reg # regs) pending =
     (let labels = (case effective (rg_session_id reg) of Some ls \<Rightarrow> ls | None \<Rightarrow> [])
      in case has_pending (pa_count pa) (pa_listing pa) reg (ct_access ct) (ct_bot_login ct) labels of
           Inl e \<Rightarrow> Inl e
         | Inr b \<Rightarrow> pending_sessions ct pa effective regs (pending(rg_session_id reg \<mapsto> b)))"

definition pass_actions ::
  "pass_context \<Rightarrow> 'w pass_answers \<Rightarrow> issue_summary list \<Rightarrow> classified_triggers \<Rightarrow> pass_snapshot \<Rightarrow> live_pod list \<Rightarrow>
   (str \<rightharpoonup> bool) \<Rightarrow> reconcile_action list" where
  "pass_actions ct pa issues cl sn live pending =
     plan_repo (ct_digest ct)
       \<lparr>in_regs = sn_regs sn, in_work_labels = sn_logical sn, in_invalid = sn_invalid sn, in_live = live,
        in_pending = pending, in_latched_invalid = latched SUBSTRATE_INVALID_LABEL issues,
        in_latched_announced = latched SUBSTRATE_ANNOUNCED_LABEL issues,
        in_latched_config_hash =
          latched_hashes pa (latched SUBSTRATE_ANNOUNCED_LABEL issues) (cl_registrations cl),
        in_latched_config_rejected = latched SUBSTRATE_CONFIG_REJECTED_LABEL issues,
        in_now = pa_now pa, in_cfg = ct_plan ct\<rparr> @
     plan_trigger_authorization (cl_unauthorized cl) (cl_authorized_issues cl) (latched TRIGGER_UNAUTHORIZED_LABEL issues)"

definition reconcile_repo :: "pass_context \<Rightarrow> 'w pass_answers \<Rightarrow> pass_effect list \<times> pass_outcome" where
  "reconcile_repo ct pa =
     (if \<not> pa_token pa then ([EnsureTemplates], PassFailed MintToken)
      else case pa_issues pa of
        None \<Rightarrow> ([EnsureTemplates], PassFailed ListTriggers)
      | Some issues \<Rightarrow>
          (let cl = classify_triggers ct (pa_role pa) (latched SUBSTRATE_ANNOUNCED_LABEL issues) issues;
               regs = cl_registrations cl;
               early = [EnsureTemplates, SetActive (regs \<noteq> []), PublishContexts regs]
           in case demote_all ct pa cl of
                Inl outcome \<Rightarrow> (early, outcome)
              | Inr sn \<Rightarrow>
                  (let acked = early @ [MergeBotPullRequests (list_ex rg_auto_merge (sn_regs sn)),
                                        AckWorkIssues (sn_regs sn) (sn_effective sn)]
                   in case pa_live pa of
                        None \<Rightarrow> (acked, PassFailed ObserveRuntimes)
                      | Some live \<Rightarrow>
                          (case pending_sessions ct pa (sn_effective sn) (sn_regs sn) Map.empty of
                             Inl _ \<Rightarrow> (acked, PassFailed PendingGate)
                           | Inr pending \<Rightarrow>
                               (acked @ map Execute (pass_actions ct pa issues cl sn live pending) @
                                [RunSchedulePass (sn_regs sn), BackfillIdentities (sn_regs sn) live], PassDone)))))"

text \<open>The contexts the pass publishes reach the registry in the step of the component that keeps it.\<close>

definition published :: "pass_context \<Rightarrow> pass_effect list \<Rightarrow> registry \<Rightarrow> registry" where
  "published ct effects r =
     fold (\<lambda>e r. case e of
       PublishContexts regs \<Rightarrow> record_session_contexts (ct_installation_id ct) (ct_repo ct) regs r | _ \<Rightarrow> r) effects r"
section \<open>Who is admitted\<close>

lemma parse_registration_number:
  "parse_registration digest uuid_v5 inst repo issue creator = Inl (n, e) \<Longrightarrow> n = su_number issue"
  "parse_registration digest uuid_v5 inst repo issue creator = Inr reg \<Longrightarrow> rg_trigger_issue reg = su_number issue \<and>
     rg_creator_login reg = sc_login creator \<and> rg_creator_id reg = sc_id creator"
  by (auto simp: parse_registration_def split: sum.splits)

text \<open>A creator passes as administrator, with a role, or because GitHub did not answer about an announced trigger.\<close>

definition gate_passed :: "pass_context \<Rightarrow> (str \<Rightarrow> str option option) \<Rightarrow> int list \<Rightarrow> int \<Rightarrow> session_creator \<Rightarrow> bool" where
  "gate_passed ct role announced number creator \<longleftrightarrow>
     is_global_admin (ct_access ct) (creator_id_or_none creator) (sc_login creator) \<or>
     role (sc_login creator) \<in> {Some (Some (lit ''admin'')), Some (Some (lit ''maintain''))} \<or>
     role (sc_login creator) = None \<and> number \<in> set announced"

definition admitted ::
  "pass_context \<Rightarrow> (str \<Rightarrow> str option option) \<Rightarrow> int list \<Rightarrow> issue_summary \<Rightarrow> session_creator \<Rightarrow> bool" where
  "admitted ct role announced issue creator \<longleftrightarrow>
     allows (ct_access ct) (su_user_id issue) (su_user_login issue) \<and>
     effective_creator (metadata issue) (ct_bot_login ct) = Resolved creator \<and>
     allows (ct_access ct) (creator_id_or_none creator) (sc_login creator) \<and>
     gate_passed ct role announced (su_number issue) creator"

definition from_admitted ::
  "pass_context \<Rightarrow> (str \<Rightarrow> str option option) \<Rightarrow> int list \<Rightarrow> issue_summary list \<Rightarrow> session_registration \<Rightarrow> bool" where
  "from_admitted ct role announced issues reg \<longleftrightarrow>
     (\<exists>issue \<in> set issues. \<exists>creator. admitted ct role announced issue creator \<and>
        parse_registration (ct_digest ct) (ct_uuid_v5 ct) (ct_installation_id ct) (ct_repo ct) issue creator = Inr reg)"

definition case_blind :: "(str \<Rightarrow> 'a) \<Rightarrow> bool" where
  "case_blind f \<longleftrightarrow> (\<forall>a b. eq_ignore_ascii_case a b \<longrightarrow> f a = f b)"

lemma check_trigger_outcome:
  assumes "case_blind role" "cache_ok role cache" "check_trigger_creator role own nm access creator cache = (d, cache')"
  shows "cache_ok role cache'"
    "d = Authorized \<Longrightarrow> is_global_admin access (creator_id_or_none creator) (sc_login creator) \<or>
       role (sc_login creator) \<in> {Some (Some (lit ''admin'')), Some (Some (lit ''maintain''))}"
    "d = Deferred \<Longrightarrow> role (sc_login creator) = None"
proof -
  note sound = check_trigger_creator_cache_sound [OF assms(1) [unfolded case_blind_def] assms(2,3)]
  show "cache_ok role cache'" using sound by blast
  show "d = Authorized \<Longrightarrow> is_global_admin access (creator_id_or_none creator) (sc_login creator) \<or>
       role (sc_login creator) \<in> {Some (Some (lit ''admin'')), Some (Some (lit ''maintain''))}"
    using sound unfolding creator_id_or_none_def by blast
  show "d = Deferred \<Longrightarrow> role (sc_login creator) = None"
    using assms(3) by (auto simp: check_trigger_creator_def role_decision_def Let_def split: if_splits option.splits)
qed

text \<open>The classes of the triggers seen so far: disjoint, and only admitted triggers are registered.\<close>

definition class_inv ::
  "pass_context \<Rightarrow> (str \<Rightarrow> str option option) \<Rightarrow> int list \<Rightarrow> issue_summary list \<Rightarrow> classified_triggers \<times> trigger_authz_cache \<Rightarrow> bool"
where
  "class_inv ct role announced issues st \<longleftrightarrow>
     cache_ok role (snd st) \<and> (\<forall>reg \<in> set (cl_registrations (fst st)). from_admitted ct role announced issues reg) \<and>
     distinct (map rg_trigger_issue (cl_registrations (fst st)) @ map fst (cl_invalid (fst st)) @
       map fst (cl_unauthorized (fst st))) \<and>
     rg_trigger_issue ` set (cl_registrations (fst st)) \<union> fst ` set (cl_invalid (fst st)) \<union>
       fst ` set (cl_unauthorized (fst st)) \<union> set (cl_authorized_issues (fst st)) \<subseteq> su_number ` set issues \<and>
     set (cl_authorized_issues (fst st)) \<inter> fst ` set (cl_unauthorized (fst st)) = {}"

lemma from_admitted_mono: "from_admitted ct role announced issues reg \<Longrightarrow> from_admitted ct role announced (issues @ later) reg"
  by (auto simp: from_admitted_def)

lemma class_inv_skip:
  "class_inv ct role announced issues (cl, cache) \<Longrightarrow> cache_ok role cache' \<Longrightarrow>
   class_inv ct role announced (issues @ [issue]) (cl, cache')"
  by (auto simp: class_inv_def intro: from_admitted_mono)

lemma class_inv_refuse:
  assumes "class_inv ct role announced issues (cl, cache)" "cache_ok role cache'" "su_number issue \<notin> su_number ` set issues"
  shows "class_inv ct role announced (issues @ [issue]) (refuse_trigger ct (su_number issue) m cl, cache')"
  using assms by (auto simp: class_inv_def refuse_trigger_def intro: from_admitted_mono)

lemma distinct_parts_snoc:
  "distinct (xs @ ys @ zs) \<Longrightarrow> n \<notin> set xs \<Longrightarrow> n \<notin> set ys \<Longrightarrow> n \<notin> set zs \<Longrightarrow>
   distinct ((xs @ [n]) @ ys @ zs) \<and> distinct (xs @ (ys @ [n]) @ zs)"
  by auto

lemma disjoint_grow: "xs \<subseteq> insert n ys \<Longrightarrow> ys \<inter> zs = {} \<Longrightarrow> n \<notin> zs \<Longrightarrow> xs \<inter> zs = {}"
  by blast

lemma subset_grow: "a' = a \<or> a' = insert n a \<Longrightarrow> a \<subseteq> b \<Longrightarrow> a' \<subseteq> insert n b"
  by blast

lemma class_inv_grow:
  assumes inv: "class_inv ct role announced issues (cl, cache)" and ok: "cache_ok role cache'"
    and new: "su_number issue \<notin> su_number ` set issues"
    and auth: "cl_authorized_issues cl' = cl_authorized_issues cl \<or>
      cl_authorized_issues cl' = cl_authorized_issues cl @ [su_number issue]"
    and same: "cl_unauthorized cl' = cl_unauthorized cl"
    and grown: "(\<exists>m. cl_registrations cl' = cl_registrations cl \<and> cl_invalid cl' = cl_invalid cl @ [(su_number issue, m)]) \<or>
      (\<exists>reg. from_admitted ct role announced (issues @ [issue]) reg \<and> rg_trigger_issue reg = su_number issue \<and>
        cl_invalid cl' = cl_invalid cl \<and> cl_registrations cl' = cl_registrations cl @ [reg])"
  shows "class_inv ct role announced (issues @ [issue]) (cl', cache')"
proof -
  let ?n = "su_number issue"
  note i = inv [unfolded class_inv_def fst_conv snd_conv]
  have fresh: "?n \<notin> rg_trigger_issue ` set (cl_registrations cl)" "?n \<notin> fst ` set (cl_invalid cl)"
    "?n \<notin> fst ` set (cl_unauthorized cl)"
    using i new by blast+
  have dj: "set (cl_authorized_issues cl) \<inter> fst ` set (cl_unauthorized cl) = {}"
    and sub: "set (cl_authorized_issues cl) \<subseteq> su_number ` set issues"
    using i by blast+
  have auth': "set (cl_authorized_issues cl') \<subseteq> insert ?n (set (cl_authorized_issues cl))" using auth by auto
  have a1: "set (cl_authorized_issues cl') \<subseteq> su_number ` set (issues @ [issue])" using auth' sub by simp blast
  have a2: "set (cl_authorized_issues cl') \<inter> fst ` set (cl_unauthorized cl') = {}"
    unfolding same by (rule disjoint_grow [OF auth' dj fresh(3)])
  let ?R = "map rg_trigger_issue (cl_registrations cl)" and ?I = "map fst (cl_invalid cl)"
    and ?U = "map fst (cl_unauthorized cl)"
  have dist: "distinct (?R @ ?I @ ?U)" using i by blast
  have fresh': "?n \<notin> set ?R" "?n \<notin> set ?I" "?n \<notin> set ?U" using fresh by simp_all
  note dd = distinct_parts_snoc [OF dist fresh']
  have parts: "(map rg_trigger_issue (cl_registrations cl') = ?R \<and> map fst (cl_invalid cl') = ?I @ [?n]) \<or>
      (map rg_trigger_issue (cl_registrations cl') = ?R @ [?n] \<and> map fst (cl_invalid cl') = ?I)"
    using grown by (elim disjE exE conjE) simp_all
  have d: "distinct (map rg_trigger_issue (cl_registrations cl') @ map fst (cl_invalid cl') @ map fst (cl_unauthorized cl'))"
    unfolding same using parts dd by (elim disjE conjE) (simp_all only:)
  have below: "rg_trigger_issue ` set (cl_registrations cl) \<subseteq> su_number ` set issues"
    "fst ` set (cl_invalid cl) \<subseteq> su_number ` set issues" "fst ` set (cl_unauthorized cl) \<subseteq> su_number ` set issues"
    using i by blast+
  have imgs: "(rg_trigger_issue ` set (cl_registrations cl') = rg_trigger_issue ` set (cl_registrations cl) \<and>
      fst ` set (cl_invalid cl') = insert ?n (fst ` set (cl_invalid cl))) \<or>
     (rg_trigger_issue ` set (cl_registrations cl') = insert ?n (rg_trigger_issue ` set (cl_registrations cl)) \<and>
      fst ` set (cl_invalid cl') = fst ` set (cl_invalid cl))"
    using grown by (elim disjE exE conjE) simp_all
  have r1: "rg_trigger_issue ` set (cl_registrations cl') \<subseteq> insert ?n (su_number ` set issues)"
    using imgs by (intro subset_grow [OF _ below(1)]) (elim disjE conjE, simp_all only: simp_thms)
  have r2: "fst ` set (cl_invalid cl') \<subseteq> insert ?n (su_number ` set issues)"
    using imgs by (intro subset_grow [OF _ below(2)]) (elim disjE conjE, simp_all only: simp_thms)
  have all: "su_number ` set (issues @ [issue]) = insert ?n (su_number ` set issues)" by simp
  have s: "rg_trigger_issue ` set (cl_registrations cl') \<union> fst ` set (cl_invalid cl') \<union> fst ` set (cl_unauthorized cl')
      \<subseteq> su_number ` set (issues @ [issue])"
    unfolding same all by (intro Un_least r1 r2 subset_insertI2 below(3))
  have old: "\<forall>reg \<in> set (cl_registrations cl). from_admitted ct role announced (issues @ [issue]) reg"
    by (rule ballI, rule from_admitted_mono, rule bspec [OF i [THEN conjunct2, THEN conjunct1]])
  have r: "\<forall>reg \<in> set (cl_registrations cl'). from_admitted ct role announced (issues @ [issue]) reg"
    using grown
  proof (elim disjE exE conjE)
    fix m assume "cl_registrations cl' = cl_registrations cl"
    then show ?thesis using old by simp
  next
    fix reg assume new: "from_admitted ct role announced (issues @ [issue]) reg" "cl_registrations cl' = cl_registrations cl @ [reg]"
    show ?thesis unfolding new(2) using old new(1) by (simp only: set_append list.set ball_Un ball_simps)
  qed
  show ?thesis
    unfolding class_inv_def fst_conv snd_conv by (intro conjI ok r d a2 Un_least [OF s a1])
qed

lemma class_inv_parse:
  assumes inv: "class_inv ct role announced issues (cl, cache)" and ok: "cache_ok role cache'"
    and new: "su_number issue \<notin> su_number ` set issues" and adm: "admitted ct role announced issue creator"
    and auth: "cl_authorized_issues cl' = cl_authorized_issues cl \<or>
      cl_authorized_issues cl' = cl_authorized_issues cl @ [su_number issue]"
    and same: "cl_unauthorized cl' = cl_unauthorized cl" "cl_registrations cl' = cl_registrations cl" "cl_invalid cl' = cl_invalid cl"
  shows "class_inv ct role announced (issues @ [issue]) (parse_classified_registration ct issue creator cl', cache')"
proof (rule class_inv_grow [OF inv ok new])
  let ?p = "parse_registration (ct_digest ct) (ct_uuid_v5 ct) (ct_installation_id ct) (ct_repo ct) issue creator"
  let ?cl = "parse_classified_registration ct issue creator cl'"
  have kept: "cl_authorized_issues ?cl = cl_authorized_issues cl'" "cl_unauthorized ?cl = cl_unauthorized cl'"
    by (auto simp: parse_classified_registration_def split: sum.splits prod.splits)
  show "cl_authorized_issues ?cl = cl_authorized_issues cl \<or> cl_authorized_issues ?cl = cl_authorized_issues cl @ [su_number issue]"
    using kept auth by simp
  show "cl_unauthorized ?cl = cl_unauthorized cl" using kept same by simp
  show "(\<exists>m. cl_registrations ?cl = cl_registrations cl \<and> cl_invalid ?cl = cl_invalid cl @ [(su_number issue, m)]) \<or>
      (\<exists>reg. from_admitted ct role announced (issues @ [issue]) reg \<and> rg_trigger_issue reg = su_number issue \<and>
        cl_invalid ?cl = cl_invalid cl \<and> cl_registrations ?cl = cl_registrations cl @ [reg])"
  proof (cases ?p)
    case (Inl e)
    obtain n e' where e: "e = (n, e')" by (cases e)
    then have "n = su_number issue" using Inl parse_registration_number(1) by blast
    then show ?thesis using Inl e same by (simp add: parse_classified_registration_def)
  next
    case (Inr reg)
    have "from_admitted ct role announced (issues @ [issue]) reg" using adm Inr by (auto simp: from_admitted_def)
    moreover have "rg_trigger_issue reg = su_number issue" using parse_registration_number(2) [OF Inr] by simp
    ultimately show ?thesis using Inr same by (simp add: parse_classified_registration_def)
  qed
qed

lemma classify_trigger_inv:
  assumes "case_blind role" "class_inv ct role announced issues st" "su_number issue \<notin> su_number ` set issues"
  shows "class_inv ct role announced (issues @ [issue]) (classify_trigger ct role announced issue st)"
proof -
  obtain cl cache where st: "st = (cl, cache)" by (cases st)
  have ok: "cache_ok role cache" using assms(2) st by (simp add: class_inv_def)
  note inv = assms(2) [unfolded st]
  have skip: "class_inv ct role announced (issues @ [issue]) (cl, cache)" by (rule class_inv_skip [OF inv ok])
  show ?thesis
  proof (cases "effective_creator (metadata issue) (ct_bot_login ct)")
    case (Unattributable a n)
    then show ?thesis
      using skip class_inv_refuse [OF inv ok assms(3)] by (simp add: st classify_trigger_def)
  next
    case (Resolved creator)
    show ?thesis
    proof (cases "allows (ct_access ct) (su_user_id issue) (su_user_login issue) \<and>
        allows (ct_access ct) (creator_id_or_none creator) (sc_login creator)")
      case True
      obtain d cache' where d: "check_trigger_creator role (rf_owner (ct_repo ct)) (rf_name (ct_repo ct)) (ct_access ct) creator
          cache = (d, cache')" by (rule prod.exhaust)
      note out = check_trigger_outcome [OF assms(1) ok d]
      have adm: "admitted ct role announced issue creator"
        if "d = Authorized \<or> d = Deferred \<and> su_number issue \<in> set announced"
        using that out(2,3) True Resolved by (auto simp: admitted_def gate_passed_def)
      show ?thesis
      proof (cases d)
        case Authorized
        then show ?thesis
          using class_inv_parse [OF inv out(1) assms(3) adm, of "cl\<lparr>cl_authorized_issues := cl_authorized_issues cl @ [su_number issue]\<rparr>"] True Resolved d
          by (simp add: st classify_trigger_def)
      next
        case (Unauthorized l o' n)
        then show ?thesis
          using class_inv_refuse [OF inv out(1) assms(3)] True Resolved d by (simp add: st classify_trigger_def)
      next
        case Deferred
        then show ?thesis
          using class_inv_parse [OF inv out(1) assms(3) adm, of cl] class_inv_skip [OF inv out(1)]
            True Resolved d by (auto simp: st classify_trigger_def)
      qed
    next
      case False
      then show ?thesis using skip Resolved by (auto simp: st classify_trigger_def)
    qed
  qed
qed

lemma classify_triggers_inv:
  assumes "case_blind role" "distinct (map su_number issues)"
  shows "class_inv ct role announced issues (fold (classify_trigger ct role announced) issues (no_triggers, Map.empty))"
  using assms(2)
proof (induction issues rule: rev_induct)
  case Nil
  show ?case by (simp add: class_inv_def no_triggers_def cache_ok_def)
next
  case (snoc issue issues)
  then show ?case using classify_trigger_inv [OF assms(1)] by simp
qed
section \<open>What the stages leave\<close>

lemma retain_regs_retain: "retain_regs a (retain_regs b regs) = retain_regs (a @ b) regs"
  by (auto simp: retain_regs_def intro: filter_cong)

lemma stamp_packages_fields [simp]:
  "rg_trigger_issue (stamp_packages ep reg) = rg_trigger_issue reg" "rg_session_id (stamp_packages ep reg) = rg_session_id reg"
  "rg_creator_login (stamp_packages ep reg) = rg_creator_login reg" "rg_def (stamp_packages ep reg) = rg_def reg"
  by (simp_all add: stamp_packages_def Let_def split: option.split)

definition labels_in :: "(str \<rightharpoonup> str list) \<Rightarrow> session_registration \<Rightarrow> str list" where
  "labels_in m reg = (case m (rg_session_id reg) of Some ls \<Rightarrow> ls | None \<Rightarrow> [])"

text \<open>The stages of a demotion, with what each of them yields.\<close>

record demotion_stages =
  ds_packages :: "(int \<times> str) list"
  ds_bad_labels :: "(int \<times> str) list"
  ds_unlabelled :: "(int \<times> str) list"
  ds_collisions :: "(int \<times> str) list"
  ds_sources :: "(int \<times> str) list"

definition demoted :: "demotion_stages \<Rightarrow> (int \<times> str) list" where
  "demoted ds = ds_packages ds @ ds_bad_labels ds @ ds_unlabelled ds @ ds_collisions ds @ ds_sources ds"

definition staged ::
  "pass_context \<Rightarrow> 'w pass_answers \<Rightarrow> classified_triggers \<Rightarrow> effective_packages \<Rightarrow> demotion_stages \<Rightarrow> pass_snapshot \<Rightarrow> bool" where
  "staged ct pa cl ep ds sn \<longleftrightarrow>
     (let regs1 = map (stamp_packages ep) (retain_regs (ds_packages ds) (cl_registrations cl));
          regs2 = retain_regs (ds_bad_labels ds) regs1;
          regs3 = retain_regs (ds_unlabelled ds) regs2;
          regs4 = retain_regs (ds_collisions ds) regs3
      in (\<exists>w. resolve_effective_packages (pa_expand pa) (cl_registrations cl) (ct_mandatory ct) (pa_world pa) = (ep, w)) \<and>
         ds_packages ds = map (\<lambda>(i, d). (i, ct_message ct (PackagesDemoted d))) (ep_demotions ep) \<and>
         resolve_work_label_sets (pa_manifest pa) regs1 = Some (sn_logical sn) \<and>
         namespace_labels ct (sn_logical sn) regs1 (Map.empty, []) = (sn_effective sn, ds_bad_labels ds) \<and>
         ds_unlabelled ds = detect_missing_work_labels regs2 (sn_logical sn) \<and>
         ds_collisions ds = detect_work_label_collisions regs3 (sn_effective sn) \<and>
         missing_sources ct pa regs4 None [] = Inr (ds_sources ds) \<and>
         sn_regs sn = retain_regs (ds_sources ds) regs4 \<and>
         sn_invalid sn = cl_invalid cl @ demoted ds)"

lemma demote_all_staged:
  assumes "demote_all ct pa cl = Inr sn"
  obtains ep ds where "staged ct pa cl ep ds sn"
proof -
  obtain ep w where ep: "resolve_effective_packages (pa_expand pa) (cl_registrations cl) (ct_mandatory ct) (pa_world pa) = (ep, w)"
    by (rule prod.exhaust)
  let ?packages = "map (\<lambda>(i, d). (i, ct_message ct (PackagesDemoted d))) (ep_demotions ep)"
  let ?regs1 = "map (stamp_packages ep) (retain_regs ?packages (cl_registrations cl))"
  obtain logical where logical: "resolve_work_label_sets (pa_manifest pa) ?regs1 = Some logical"
    using assms unfolding demote_all_def ep Let_def
    by (cases "resolve_work_label_sets (pa_manifest pa) ?regs1") simp_all
  obtain effective bad where bad: "namespace_labels ct logical ?regs1 (Map.empty, []) = (effective, bad)" by (rule prod.exhaust)
  let ?regs2 = "retain_regs bad ?regs1"
  let ?unl = "detect_missing_work_labels ?regs2 logical"
  let ?regs3 = "retain_regs ?unl ?regs2"
  let ?coll = "detect_work_label_collisions ?regs3 effective"
  obtain sources where sources: "missing_sources ct pa (retain_regs ?coll ?regs3) None [] = Inr sources"
    using assms unfolding demote_all_def ep Let_def prod.case logical option.case bad
    by (cases "missing_sources ct pa (retain_regs ?coll ?regs3) None []") simp_all
  let ?ds = "\<lparr>ds_packages = ?packages, ds_bad_labels = bad, ds_unlabelled = ?unl, ds_collisions = ?coll, ds_sources = sources\<rparr>"
  have sn: "sn = \<lparr>sn_regs = retain_regs sources (retain_regs ?coll ?regs3),
      sn_invalid = cl_invalid cl @ ?packages @ bad @ ?unl @ ?coll @ sources, sn_logical = logical, sn_effective = effective\<rparr>"
    using assms unfolding demote_all_def ep Let_def prod.case logical option.case bad sources sum.case by simp
  have "staged ct pa cl ep ?ds sn"
    unfolding staged_def Let_def using ep logical bad sources unfolding sn by (simp add: demoted_def)
  then show thesis by (rule that)
qed

lemma staged_regs:
  assumes "staged ct pa cl ep ds sn"
  shows "sn_regs sn = retain_regs (demoted ds) (map (stamp_packages ep) (cl_registrations cl))"
proof -
  have "map (stamp_packages ep) (retain_regs l regs) = retain_regs l (map (stamp_packages ep) regs)" for l regs
    by (induction regs) (simp_all add: retain_regs_def)
  moreover have "sn_regs sn = retain_regs (ds_sources ds) (retain_regs (ds_collisions ds) (retain_regs (ds_unlabelled ds)
      (retain_regs (ds_bad_labels ds) (map (stamp_packages ep) (retain_regs (ds_packages ds) (cl_registrations cl))))))"
    using assms by (simp add: staged_def Let_def)
  ultimately show ?thesis by (simp add: retain_regs_retain) (auto simp: retain_regs_def demoted_def intro!: filter_cong)
qed

lemma staged_survivor:
  assumes "staged ct pa cl ep ds sn" "reg \<in> set (sn_regs sn)"
  obtains reg0 where "reg0 \<in> set (cl_registrations cl)" "reg = stamp_packages ep reg0"
    "rg_trigger_issue reg0 \<notin> fst ` set (demoted ds)"
  using assms(2) unfolding staged_regs [OF assms(1)] by (auto simp: retain_regs_def)

lemma survivor_stages:
  assumes "staged ct pa cl ep ds sn" "reg \<in> set (sn_regs sn)"
  defines "regs1 \<equiv> map (stamp_packages ep) (retain_regs (ds_packages ds) (cl_registrations cl))"
  shows "reg \<in> set regs1" "reg \<in> set (retain_regs (ds_bad_labels ds) regs1)"
    "reg \<in> set (retain_regs (ds_unlabelled ds) (retain_regs (ds_bad_labels ds) regs1))"
    "reg \<in> set (retain_regs (ds_collisions ds) (retain_regs (ds_unlabelled ds) (retain_regs (ds_bad_labels ds) regs1)))"
    "rg_trigger_issue reg \<notin> fst ` set (demoted ds)"
proof -
  obtain reg0 where r: "reg0 \<in> set (cl_registrations cl)" "reg = stamp_packages ep reg0"
    "rg_trigger_issue reg0 \<notin> fst ` set (demoted ds)" by (rule staged_survivor [OF assms(1,2)])
  show n: "rg_trigger_issue reg \<notin> fst ` set (demoted ds)" using r by simp
  have "reg0 \<in> set (retain_regs (ds_packages ds) (cl_registrations cl))"
    using r(1,3) by (simp add: retain_regs_def demoted_def image_Un)
  then show "reg \<in> set regs1" unfolding regs1_def r(2) by simp
  then show "reg \<in> set (retain_regs (ds_bad_labels ds) regs1)"
    "reg \<in> set (retain_regs (ds_unlabelled ds) (retain_regs (ds_bad_labels ds) regs1))"
    "reg \<in> set (retain_regs (ds_collisions ds) (retain_regs (ds_unlabelled ds) (retain_regs (ds_bad_labels ds) regs1)))"
    using n by (simp_all add: retain_regs_def demoted_def image_Un)
qed

lemma namespace_labels_keeps:
  "namespace_labels ct logical regs acc = (eff, bad) \<Longrightarrow> fst ` set (snd acc) \<subseteq> fst ` set bad"
proof (induction regs arbitrary: acc)
  case (Cons r regs)
  let ?a = "apply_work_label_namespace (ct_lower ct) (labels_in logical r) (ct_namespace ct)"
  show ?case
  proof (cases ?a)
    case (Inl e)
    then have "namespace_labels ct logical regs (fst acc, snd acc @ [(rg_trigger_issue r, ct_message ct (LabelsInvalid e))]) = (eff, bad)"
      using Cons.prems by (simp add: labels_in_def Let_def)
    from Cons.IH [OF this] show ?thesis by simp
  next
    case (Inr ewl)
    then have "namespace_labels ct logical regs ((fst acc)(rg_session_id r \<mapsto> ewl_effective ewl), snd acc) = (eff, bad)"
      using Cons.prems by (simp add: labels_in_def Let_def)
    from Cons.IH [OF this] show ?thesis by simp
  qed
qed simp

lemma namespace_labels_other:
  "namespace_labels ct logical regs acc = (eff, bad) \<Longrightarrow> s \<notin> rg_session_id ` set regs \<Longrightarrow> eff s = fst acc s"
proof (induction regs arbitrary: acc)
  case (Cons r regs)
  let ?a = "apply_work_label_namespace (ct_lower ct) (labels_in logical r) (ct_namespace ct)"
  have s: "s \<notin> rg_session_id ` set regs" "s \<noteq> rg_session_id r" using Cons.prems(2) by simp_all
  show ?case
  proof (cases ?a)
    case (Inl e)
    then have "namespace_labels ct logical regs (fst acc, snd acc @ [(rg_trigger_issue r, ct_message ct (LabelsInvalid e))]) = (eff, bad)"
      using Cons.prems(1) by (simp add: labels_in_def Let_def)
    from Cons.IH [OF this s(1)] show ?thesis by simp
  next
    case (Inr ewl)
    then have "namespace_labels ct logical regs ((fst acc)(rg_session_id r \<mapsto> ewl_effective ewl), snd acc) = (eff, bad)"
      using Cons.prems(1) by (simp add: labels_in_def Let_def)
    from Cons.IH [OF this s(1)] show ?thesis using s(2) by simp
  qed
qed simp

lemma namespace_labels_sound:
  assumes "namespace_labels ct logical regs acc = (eff, bad)" "reg \<in> set regs" "rg_trigger_issue reg \<notin> fst ` set bad"
    "distinct (map rg_session_id regs)"
  shows "\<exists>ewl. apply_work_label_namespace (ct_lower ct) (labels_in logical reg) (ct_namespace ct) = Inr ewl \<and>
    eff (rg_session_id reg) = Some (ewl_effective ewl)"
  using assms
proof (induction regs arbitrary: acc)
  case (Cons r regs)
  let ?a = "apply_work_label_namespace (ct_lower ct) (labels_in logical r) (ct_namespace ct)"
  let ?acc = "case ?a of Inr ewl \<Rightarrow> ((fst acc)(rg_session_id r \<mapsto> ewl_effective ewl), snd acc)
     | Inl e \<Rightarrow> (fst acc, snd acc @ [(rg_trigger_issue r, ct_message ct (LabelsInvalid e))])"
  have rest: "namespace_labels ct logical regs ?acc = (eff, bad)"
    using Cons.prems(1) by (simp add: labels_in_def Let_def)
  show ?case
  proof (cases "reg = r")
    case True
    obtain ewl where a: "?a = Inr ewl"
      using namespace_labels_keeps [OF rest] Cons.prems(3) True by (cases ?a) auto
    have "eff (rg_session_id r) = Some (ewl_effective ewl)"
      using namespace_labels_other [OF rest, of "rg_session_id r"] Cons.prems(4) a by simp
    then show ?thesis using a True by simp
  next
    case False
    then show ?thesis using Cons.IH [OF rest _ Cons.prems(3)] Cons.prems(2,4) by simp
  qed
qed simp

definition reads_source :: "'w pass_answers \<Rightarrow> session_registration \<Rightarrow> bool" where
  "reads_source pa reg \<longleftrightarrow>
     (\<exists>source head. (df_source_branch (rg_def reg) = Some source \<or>
        df_source_branch (rg_def reg) = None \<and> pa_default_branch pa = Some source) \<and> pa_branch_head pa source = Some (Some head))"

lemma missing_sources_sound:
  assumes "missing_sources ct pa regs db missing = Inr out" "\<forall>s. db = Some s \<longrightarrow> pa_default_branch pa = Some s"
  shows "set missing \<subseteq> set out \<and> (\<forall>reg \<in> set regs. rg_trigger_issue reg \<notin> fst ` set out \<longrightarrow> reads_source pa reg)"
  using assms
proof (induction regs arbitrary: db missing)
  case (Cons r regs)
  let ?source = "case df_source_branch (rg_def r) of Some s \<Rightarrow> Some s
      | None \<Rightarrow> (case db of Some s \<Rightarrow> Some s | None \<Rightarrow> pa_default_branch pa)"
  obtain source where source: "?source = Some source" using Cons.prems(1) by (cases ?source) (simp_all add: Let_def)
  obtain head where head: "pa_branch_head pa source = Some head"
    using Cons.prems(1) source by (cases "pa_branch_head pa source") (simp_all add: Let_def)
  let ?db = "if df_source_branch (rg_def r) = None then Some source else db"
  let ?missing = "if head = None then missing @ [(rg_trigger_issue r, ct_message ct (SourceMissing source (ct_repo ct)))] else missing"
  have rest: "missing_sources ct pa regs ?db ?missing = Inr out"
    using Cons.prems(1) source head by (simp add: Let_def)
  have db: "\<forall>s. ?db = Some s \<longrightarrow> pa_default_branch pa = Some s"
    using source Cons.prems(2) by (auto split: option.splits)
  note ih = Cons.IH [OF rest db]
  have "set missing \<subseteq> set out" using ih by (auto split: if_splits)
  moreover have "reads_source pa r" if "rg_trigger_issue r \<notin> fst ` set out"
  proof -
    have "head \<noteq> None" using ih that by (force split: if_splits)
    then show ?thesis unfolding reads_source_def using source head Cons.prems(2)
      by (auto split: option.splits)
  qed
  ultimately show ?case using ih by simp
qed simp

lemma has_pending_True:
  "has_pending count listing reg access robot ls = Inr True \<Longrightarrow>
   \<exists>l \<in> set ls. \<exists>issues. listing l = Inr issues \<and> list_ex (worked_by reg access robot) (map metadata issues)"
proof (induction ls)
  case (Cons l ls)
  let ?go = "\<lambda>issues. list_ex (worked_by reg access robot) (map metadata issues)"
  obtain n where n: "count l = Inr n" using Cons.prems by (cases "count l") simp_all
  show ?case
  proof (cases "n \<noteq> 0 \<and> (\<exists>issues. listing l = Inr issues \<and> ?go issues)")
    case True
    then show ?thesis by simp
  next
    case False
    then have "has_pending count listing reg access robot ls = Inr True"
      using Cons.prems n by (cases "listing l") (auto split: if_splits)
    then show ?thesis using Cons.IH by simp
  qed
qed simp

lemma pending_sessions_other:
  "pending_sessions ct pa effective regs pending = Inr out \<Longrightarrow> s \<notin> rg_session_id ` set regs \<Longrightarrow> out s = pending s"
proof (induction regs arbitrary: pending)
  case (Cons r regs)
  let ?h = "has_pending (pa_count pa) (pa_listing pa) r (ct_access ct) (ct_bot_login ct) (labels_in effective r)"
  obtain b where h: "?h = Inr b" using Cons.prems(1) by (cases ?h) (simp_all add: labels_in_def Let_def)
  have "pending_sessions ct pa effective regs (pending(rg_session_id r \<mapsto> b)) = Inr out"
    using Cons.prems(1) h by (simp add: labels_in_def Let_def)
  from Cons.IH [OF this] show ?case using Cons.prems(2) by simp
qed simp

lemma pending_sessions_sound:
  assumes "pending_sessions ct pa effective regs pending = Inr out" "reg \<in> set regs" "distinct (map rg_session_id regs)"
  shows "\<exists>b. out (rg_session_id reg) = Some b \<and>
    has_pending (pa_count pa) (pa_listing pa) reg (ct_access ct) (ct_bot_login ct) (labels_in effective reg) = Inr b"
  using assms
proof (induction regs arbitrary: pending)
  case (Cons r regs)
  let ?h = "has_pending (pa_count pa) (pa_listing pa) r (ct_access ct) (ct_bot_login ct) (labels_in effective r)"
  obtain b where h: "?h = Inr b" using Cons.prems(1) by (cases ?h) (simp_all add: labels_in_def Let_def)
  have rest: "pending_sessions ct pa effective regs (pending(rg_session_id r \<mapsto> b)) = Inr out"
    using Cons.prems(1) h by (simp add: labels_in_def Let_def)
  show ?case
  proof (cases "reg = r")
    case True
    then show ?thesis using pending_sessions_other [OF rest, of "rg_session_id r"] Cons.prems(3) h by simp
  next
    case False
    then show ?thesis using Cons.IH [OF rest] Cons.prems(2,3) by simp
  qed
qed simp

end
