(* ===== verification/PassSafety.thy ===== *)
theory PassSafety
  imports ReconcilePass
begin

text \<open>
  What a pass over one repository guarantees: the sessions it runs are admitted and complete, its feedback is consistent,
  their queues are disjoint, it returns, and the configuration hash an announcement freezes is read back. The last section
  runs the pass on a sample repository.
\<close>

section \<open>What the actions are about\<close>

fun about :: "plan_input \<Rightarrow> reconcile_action \<Rightarrow> bool" where
  "about inp (Spawn reg ls) \<longleftrightarrow>
     reg \<in> set (in_regs inp) \<and> ls = detected inp (rg_session_id reg) \<and> in_pending inp (rg_session_id reg) = Some True"
| "about inp (RecoverCredentials reg ls) \<longleftrightarrow>
     reg \<in> set (in_regs inp) \<and> ls = detected inp (rg_session_id reg) \<and> in_pending inp (rg_session_id reg) = Some True"
| "about inp (ClearInvalid i) \<longleftrightarrow> i \<in> rg_trigger_issue ` set (in_regs inp)"
| "about inp (FlagInvalid i m) \<longleftrightarrow> (i, m) \<in> set (in_invalid inp)"
| "about inp (AnnounceSession an) \<longleftrightarrow> an_trigger_issue an \<in> rg_trigger_issue ` set (in_regs inp)"
| "about inp (RejectConfigChange i) \<longleftrightarrow> i \<in> rg_trigger_issue ` set (in_regs inp)"
| "about inp (FlagTriggerUnauthorized i m) \<longleftrightarrow> False"
| "about inp (ClearTriggerUnauthorized i) \<longleftrightarrow> False"
| "about inp _ \<longleftrightarrow> True"

lemma registration_actions_about: "reg \<in> set (in_regs inp) \<Longrightarrow> a \<in> set (registration_actions digest inp reg) \<Longrightarrow> about inp a"
  by (auto simp: registration_actions_def Let_def split: pod_liveness.splits option.splits if_splits)

lemma orphan_actions_about: "a \<in> set (orphan_actions inp pod) \<Longrightarrow> about inp a"
  by (auto simp: orphan_actions_def split: pod_liveness.splits if_splits)

lemma plan_repo_about:
  assumes "a \<in> set (plan_repo digest inp)"
  shows "about inp a"
proof -
  have an: "about inp a" if "reg \<in> set (in_regs inp)" "a \<in> set (announce_actions digest inp reg)" for reg
    using that by (auto simp: announce_actions_def split: if_splits)
  have rj: "about inp a" if "reg \<in> set (in_regs inp)" "a \<in> set (reject_actions digest inp reg)" for reg
    using that by (auto simp: reject_actions_def split: if_splits)
  have iv: "about inp a" if "mk \<in> set (in_invalid inp)" "a \<in> set (invalid_actions inp mk)" for mk
    using that by (auto simp: invalid_actions_def split: if_splits)
  have cl: "about inp a" if "a \<in> ClearInvalid ` set (cleared_issues inp)"
    using that by (auto simp: cleared_issues_def)
  show ?thesis
    using assms unfolding plan_repo_def set_append Un_iff set_concat set_map
    using registration_actions_about orphan_actions_about an rj iv cl by blast
qed

lemma pass_actions_cases:
  assumes "a \<in> set (pass_actions ct pa issues cl sn live pending)"
  obtains (planned) inp where "about inp a" "in_regs inp = sn_regs sn" "in_work_labels inp = sn_logical sn"
      "in_invalid inp = sn_invalid sn" "in_pending inp = pending"
    | (flagged) i m where "a = FlagTriggerUnauthorized i m" "(i, m) \<in> set (cl_unauthorized cl)"
    | (cleared) i where "a = ClearTriggerUnauthorized i" "i \<in> set (cl_authorized_issues cl)"
proof -
  let ?inp = "\<lparr>in_regs = sn_regs sn, in_work_labels = sn_logical sn, in_invalid = sn_invalid sn, in_live = live,
        in_pending = pending, in_latched_invalid = latched SUBSTRATE_INVALID_LABEL issues,
        in_latched_announced = latched SUBSTRATE_ANNOUNCED_LABEL issues,
        in_latched_config_hash =
          latched_hashes pa (latched SUBSTRATE_ANNOUNCED_LABEL issues) (cl_registrations cl),
        in_latched_config_rejected = latched SUBSTRATE_CONFIG_REJECTED_LABEL issues,
        in_now = pa_now pa, in_cfg = ct_plan ct\<rparr>"
  consider "a \<in> set (plan_repo (ct_digest ct) ?inp)"
    | "a \<in> set (plan_trigger_authorization (cl_unauthorized cl) (cl_authorized_issues cl) (latched TRIGGER_UNAUTHORIZED_LABEL issues))"
    using assms unfolding pass_actions_def set_append Un_iff by blast
  then show thesis
  proof cases
    case 1
    show thesis by (rule planned [OF plan_repo_about [OF 1]]) simp_all
  next
    case 2
    then show thesis using flagged cleared by (auto simp: plan_trigger_authorization_def split: if_splits)
  qed
qed

lemma reconcile_executes:
  assumes "Execute a \<in> set (fst (reconcile_repo ct pa))" "pa_issues pa = Some issues"
  obtains sn live pending where
    "demote_all ct pa (classify_triggers ct (pa_role pa) (latched SUBSTRATE_ANNOUNCED_LABEL issues) issues) = Inr sn"
    "pa_live pa = Some live"
    "pending_sessions ct pa (sn_effective sn) (sn_regs sn) Map.empty = Inr pending"
    "a \<in> set (pass_actions ct pa issues (classify_triggers ct (pa_role pa) (latched SUBSTRATE_ANNOUNCED_LABEL issues) issues)
       sn live pending)"
proof -
  let ?cl = "classify_triggers ct (pa_role pa) (latched SUBSTRATE_ANNOUNCED_LABEL issues) issues"
  have t: "pa_token pa" using assms(1) by (cases "pa_token pa") (simp_all add: reconcile_repo_def)
  note run = assms(1) [unfolded reconcile_repo_def Let_def assms(2) option.case]
  obtain sn where sn: "demote_all ct pa ?cl = Inr sn" using run t by (cases "demote_all ct pa ?cl") simp_all
  obtain live where live: "pa_live pa = Some live" using run t sn by (cases "pa_live pa") simp_all
  obtain pending where p: "pending_sessions ct pa (sn_effective sn) (sn_regs sn) Map.empty = Inr pending"
    using run t sn live by (cases "pending_sessions ct pa (sn_effective sn) (sn_regs sn) Map.empty") simp_all
  have "a \<in> set (pass_actions ct pa issues ?cl sn live pending)" using run t sn live p by auto
  then show thesis using that sn live p by blast
qed

lemma classified_inv:
  assumes "case_blind role" "distinct (map su_number issues)"
  shows "\<exists>cache. class_inv ct role announced issues (classify_triggers ct role announced issues, cache)"
proof -
  have "fold (classify_trigger ct role announced) issues (no_triggers, Map.empty) =
      (classify_triggers ct role announced issues, snd (fold (classify_trigger ct role announced) issues (no_triggers, Map.empty)))"
    by (simp add: classify_triggers_def)
  then show ?thesis using classify_triggers_inv [OF assms] by metis
qed

lemma parse_registration_session:
  "parse_registration digest uuid_v5 inst repo issue creator = Inr reg \<Longrightarrow>
   rg_session_id reg = derive_session_id uuid_v5 inst (rf_owner repo) (rf_name repo) (rg_trigger_issue reg)"
  by (auto simp: parse_registration_def split: sum.splits)

text \<open>Registrations of one repository have as many session ids as triggers.\<close>

lemma sessions_distinct:
  assumes "\<forall>reg \<in> set regs. from_admitted ct role announced issues reg" "distinct (map rg_trigger_issue regs)"
    "inj (ct_uuid_v5 ct)" "47 \<notin> set (rf_owner (ct_repo ct))"
  shows "distinct (map rg_session_id regs)"
proof -
  have s: "rg_session_id r = derive_session_id (ct_uuid_v5 ct) (ct_installation_id ct) (rf_owner (ct_repo ct)) (rf_name (ct_repo ct))
      (rg_trigger_issue r)" if "r \<in> set regs" for r
    using bspec [OF assms(1) that] parse_registration_session unfolding from_admitted_def by blast
  have "inj_on rg_session_id (set regs)"
  proof (rule inj_onI)
    fix r r' assume r: "r \<in> set regs" "r' \<in> set regs" "rg_session_id r = rg_session_id r'"
    then have "rg_trigger_issue r = rg_trigger_issue r'"
      using session_canonical_inj [OF assms(4,4)] inj_eq [OF assms(3)] by (auto simp: s derive_session_id_def)
    then show "r = r'" using assms(2) r(1,2) by (auto simp: distinct_map inj_on_def)
  qed
  then show ?thesis using assms(2) by (simp add: distinct_map)
qed

lemma stamped_packages:
  assumes "resolve_effective_packages expand regs mandatory w = (ep, w')" "distinct (map rg_session_id regs)" "reg \<in> set regs"
    "rg_trigger_issue reg \<notin> fst ` set (ep_demotions ep)"
  shows "\<exists>ans env. effective_of ans mandatory (rg_def reg) = Inr (rg_effective_packages (stamp_packages ep reg), env) \<and>
    rg_effective_package_env (stamp_packages ep reg) = env"
proof -
  obtain cache where c: "case effective_of (answers_of cache) mandatory (rg_def reg) of
         Inr (ps, env) \<Rightarrow> ep_by_session ep (rg_session_id reg) = Some ps \<and> ep_package_env ep (rg_session_id reg) = Some env
       | Inl d \<Rightarrow> ep_by_session ep (rg_session_id reg) = None \<and> (rg_trigger_issue reg, d) \<in> set (ep_demotions ep)"
    using effective_packages_snapshot [OF assms(1,2)] assms(3) by blast
  show ?thesis
  proof (cases "effective_of (answers_of cache) mandatory (rg_def reg)")
    case (Inl d)
    then show ?thesis using c assms(4) by force
  next
    case (Inr x)
    then show ?thesis using c by (cases x) (auto simp: stamp_packages_def Let_def intro!: exI [of _ "answers_of cache"])
  qed
qed
section \<open>The pass is safe\<close>

text \<open>What holds of every registration a pass keeps.\<close>

lemma survivor_facts:
  assumes "case_blind (pa_role pa)" "inj (ct_uuid_v5 ct)" "47 \<notin> set (rf_owner (ct_repo ct))" "distinct (map su_number issues)"
    "demote_all ct pa (classify_triggers ct (pa_role pa) announced issues) = Inr sn" "reg \<in> set (sn_regs sn)"
  shows "\<exists>reg0. from_admitted ct (pa_role pa) announced issues reg0 \<and>
      reg = reg0\<lparr>rg_effective_packages := rg_effective_packages reg, rg_effective_package_env := rg_effective_package_env reg\<rparr>"
    "\<exists>ans. effective_of ans (ct_mandatory ct) (rg_def reg) = Inr (rg_effective_packages reg, rg_effective_package_env reg)"
    "labels_in (sn_logical sn) reg \<noteq> []"
    "\<exists>ewl. apply_work_label_namespace (ct_lower ct) (labels_in (sn_logical sn) reg) (ct_namespace ct) = Inr ewl \<and>
       labels_in (sn_effective sn) reg = ewl_effective ewl"
    "reads_source pa reg" "distinct (map rg_session_id (sn_regs sn))"
proof -
  let ?cl = "classify_triggers ct (pa_role pa) announced issues"
  obtain cache where inv: "class_inv ct (pa_role pa) announced issues (?cl, cache)"
    using classified_inv [OF assms(1,4)] by blast
  have adm: "\<forall>reg \<in> set (cl_registrations ?cl). from_admitted ct (pa_role pa) announced issues reg"
    and d: "distinct (map rg_trigger_issue (cl_registrations ?cl))"
    using inv by (simp_all add: class_inv_def)
  have sd: "distinct (map rg_session_id (cl_registrations ?cl))" by (rule sessions_distinct [OF adm d assms(2,3)])
  obtain ep ds where st: "staged ct pa ?cl ep ds sn" by (rule demote_all_staged [OF assms(5)])
  let ?regs1 = "map (stamp_packages ep) (retain_regs (ds_packages ds) (cl_registrations ?cl))"
  have sd1: "distinct (map rg_session_id (filter P (map (stamp_packages ep) (cl_registrations ?cl))))" for P
    using distinct_map_filter [of rg_session_id "map (stamp_packages ep) (cl_registrations ?cl)" P] sd by (simp add: comp_def)
  obtain reg0 where r: "reg0 \<in> set (cl_registrations ?cl)" "reg = stamp_packages ep reg0"
    "rg_trigger_issue reg0 \<notin> fst ` set (demoted ds)" by (rule staged_survivor [OF st assms(6)])
  obtain w where w: "resolve_effective_packages (pa_expand pa) (cl_registrations ?cl) (ct_mandatory ct) (pa_world pa) = (ep, w)"
    using st by (auto simp: staged_def Let_def)
  have packs: "ds_packages ds = map (\<lambda>(i, d). (i, ct_message ct (PackagesDemoted d))) (ep_demotions ep)"
    and bad: "namespace_labels ct (sn_logical sn) ?regs1 (Map.empty, []) = (sn_effective sn, ds_bad_labels ds)"
    and unl: "ds_unlabelled ds = detect_missing_work_labels (retain_regs (ds_bad_labels ds) ?regs1) (sn_logical sn)"
    and src: "missing_sources ct pa (retain_regs (ds_collisions ds) (retain_regs (ds_unlabelled ds)
       (retain_regs (ds_bad_labels ds) ?regs1))) None [] = Inr (ds_sources ds)"
    using st unfolding staged_def Let_def by blast+
  note at = survivor_stages [OF st assms(6)]
  have clear: "rg_trigger_issue reg \<notin> fst ` set (ds_bad_labels ds)" "rg_trigger_issue reg \<notin> fst ` set (ds_unlabelled ds)"
    "rg_trigger_issue reg \<notin> fst ` set (ds_sources ds)"
    using at(5) by (simp_all add: demoted_def image_Un)
  show "\<exists>reg0. from_admitted ct (pa_role pa) announced issues reg0 \<and>
      reg = reg0\<lparr>rg_effective_packages := rg_effective_packages reg, rg_effective_package_env := rg_effective_package_env reg\<rparr>"
    using adm r(1,2) by (intro exI [of _ reg0]) (auto simp: stamp_packages_def Let_def split: option.split)
  have "fst ` set (ds_packages ds) = fst ` set (ep_demotions ep)" unfolding packs by force
  then have "rg_trigger_issue reg0 \<notin> fst ` set (ep_demotions ep)" using r(3) by (simp add: demoted_def image_Un)
  from stamped_packages [OF w sd r(1) this]
  show "\<exists>ans. effective_of ans (ct_mandatory ct) (rg_def reg) = Inr (rg_effective_packages reg, rg_effective_package_env reg)"
    unfolding r(2) by auto
  show "labels_in (sn_logical sn) reg \<noteq> []"
  proof
    assume "labels_in (sn_logical sn) reg = []"
    then have "(rg_trigger_issue reg, MISSING_WORK_LABEL_DETAIL) \<in> set (ds_unlabelled ds)"
      unfolding unl detect_missing_work_labels_def using at(2) by (auto simp: labels_in_def split: option.splits)
    then show False using clear(2) by force
  qed
  have "distinct (map rg_session_id ?regs1)"
    using distinct_map_filter [OF sd] by (simp add: comp_def retain_regs_def)
  from namespace_labels_sound [OF bad at(1) clear(1) this]
  show "\<exists>ewl. apply_work_label_namespace (ct_lower ct) (labels_in (sn_logical sn) reg) (ct_namespace ct) = Inr ewl \<and>
       labels_in (sn_effective sn) reg = ewl_effective ewl"
    by (auto simp: labels_in_def)
  show "reads_source pa reg"
    using missing_sources_sound [OF src] at(4) clear(3) by simp
  show "distinct (map rg_session_id (sn_regs sn))"
    unfolding staged_regs [OF st] retain_regs_def by (rule sd1)
qed

lemma survivors_not_invalid:
  assumes "class_inv ct role announced issues (cl, cache)" "staged ct pa cl ep ds sn"
  shows "rg_trigger_issue ` set (sn_regs sn) \<inter> fst ` set (sn_invalid sn) = {}"
    "rg_trigger_issue ` set (sn_regs sn) \<inter> fst ` set (cl_unauthorized cl) = {}"
proof -
  have sub: "rg_trigger_issue ` set (sn_regs sn) \<subseteq> rg_trigger_issue ` set (cl_registrations cl) - fst ` set (demoted ds)"
    unfolding staged_regs [OF assms(2)] by (auto simp: retain_regs_def)
  have inv: "sn_invalid sn = cl_invalid cl @ demoted ds" using assms(2) by (simp add: staged_def Let_def)
  have "distinct (map rg_trigger_issue (cl_registrations cl) @ map fst (cl_invalid cl) @ map fst (cl_unauthorized cl))"
    using assms(1) by (simp add: class_inv_def)
  then have d: "rg_trigger_issue ` set (cl_registrations cl) \<inter> fst ` set (cl_invalid cl) = {}"
    "rg_trigger_issue ` set (cl_registrations cl) \<inter> fst ` set (cl_unauthorized cl) = {}"
    unfolding distinct_append set_append set_map by blast+
  show "rg_trigger_issue ` set (sn_regs sn) \<inter> fst ` set (sn_invalid sn) = {}"
    unfolding inv set_append image_Un using sub d(1) by blast
  show "rg_trigger_issue ` set (sn_regs sn) \<inter> fst ` set (cl_unauthorized cl) = {}" using sub d(2) by blast
qed

text \<open>The issue whose session an action serves or whose complaint it withdraws.\<close>

fun serves :: "reconcile_action \<Rightarrow> int option" where
  "serves (Spawn reg _) = Some (rg_trigger_issue reg)"
| "serves (RecoverCredentials reg _) = Some (rg_trigger_issue reg)"
| "serves (ClearInvalid i) = Some i"
| "serves (AnnounceSession an) = Some (an_trigger_issue an)"
| "serves (RejectConfigChange i) = Some i"
| "serves _ = None"

lemma about_serves: "about inp a \<Longrightarrow> serves a = Some i \<Longrightarrow> i \<in> rg_trigger_issue ` set (in_regs inp)"
  by (cases a) auto

text \<open>
  C14: a pass never contradicts itself about a trigger. A trigger flagged as invalid or as unauthorized is not served in
  the same pass: no runtime is started or re-credentialed for it, it is not announced, no edit of it is rejected and its
  invalid flag is not withdrawn; and one that is flagged as unauthorized does not lose that flag in the same pass.
\<close>

theorem pass_feedback_consistent:
  assumes "case_blind (pa_role pa)" "pa_issues pa = Some issues" "distinct (map su_number issues)"
    "flag = FlagInvalid i m \<or> flag = FlagTriggerUnauthorized i m"
    "Execute flag \<in> set (fst (reconcile_repo ct pa))" "Execute a \<in> set (fst (reconcile_repo ct pa))"
  shows "serves a \<noteq> Some i \<and> (flag = FlagTriggerUnauthorized i m \<longrightarrow> a \<noteq> ClearTriggerUnauthorized i)"
proof -
  let ?announced = "latched SUBSTRATE_ANNOUNCED_LABEL issues"
  let ?cl = "classify_triggers ct (pa_role pa) ?announced issues"
  obtain cache where inv: "class_inv ct (pa_role pa) ?announced issues (?cl, cache)"
    using classified_inv [OF assms(1,3)] by blast
  obtain sn live pending where run: "demote_all ct pa ?cl = Inr sn"
      "flag \<in> set (pass_actions ct pa issues ?cl sn live pending)"
    by (rule reconcile_executes [OF assms(5,2)])
  obtain sn' live' pending' where run': "demote_all ct pa ?cl = Inr sn'"
      "a \<in> set (pass_actions ct pa issues ?cl sn' live' pending')"
    by (rule reconcile_executes [OF assms(6,2)])
  have sn: "sn' = sn" using run(1) run'(1) by simp
  obtain ep ds where st: "staged ct pa ?cl ep ds sn" by (rule demote_all_staged [OF run(1)])
  note apart = survivors_not_invalid [OF inv st]
  have auth: "set (cl_authorized_issues ?cl) \<inter> fst ` set (cl_unauthorized ?cl) = {}" using inv by (simp add: class_inv_def)
  have flagged: "flag = FlagInvalid i m \<and> i \<in> fst ` set (sn_invalid sn) \<or>
      flag = FlagTriggerUnauthorized i m \<and> i \<in> fst ` set (cl_unauthorized ?cl)"
    using run(2)
  proof (cases rule: pass_actions_cases)
    case (planned inp)
    then show ?thesis using assms(4) by force
  qed (use assms(4) in force)+
  show ?thesis using run'(2)
  proof (cases rule: pass_actions_cases)
    case (planned inp)
    have "i \<notin> rg_trigger_issue ` set (sn_regs sn)" using flagged apart by blast
    then have "serves a \<noteq> Some i" using about_serves [OF planned(1), of i] planned(2) sn by auto
    moreover have "a \<noteq> ClearTriggerUnauthorized i" using planned(1) by auto
    ultimately show ?thesis by blast
  next
    case (flagged i' m')
    then show ?thesis by simp
  next
    case (cleared i')
    then have "flag = FlagTriggerUnauthorized i m \<Longrightarrow> i' \<noteq> i" using flagged auth by auto
    then show ?thesis using cleared(1) by auto
  qed
qed

text \<open>
  The sessions a pass serves never compete for a queue. Two registrations of one creator that survive the
  demotions share no unreserved label under which work is looked for.
\<close>

theorem pass_keeps_queues_apart:
  assumes "case_blind (pa_role pa)" "pa_issues pa = Some issues" "distinct (map su_number issues)"
    "AckWorkIssues regs labels \<in> set (fst (reconcile_repo ct pa))" "a \<in> set regs" "b \<in> set regs" "a \<noteq> b"
    "eq_ignore_ascii_case (rg_creator_login a) (rg_creator_login b)"
  shows "set (contested_labels labels a) \<inter> set (contested_labels labels b) = {}"
proof -
  let ?cl = "classify_triggers ct (pa_role pa) (latched SUBSTRATE_ANNOUNCED_LABEL issues) issues"
  obtain cache where inv: "class_inv ct (pa_role pa) (latched SUBSTRATE_ANNOUNCED_LABEL issues) issues (?cl, cache)"
    using classified_inv [OF assms(1,3)] by blast
  have t: "pa_token pa" using assms(4) by (cases "pa_token pa") (simp_all add: reconcile_repo_def)
  obtain sn where sn: "demote_all ct pa ?cl = Inr sn"
    using assms(4) t unfolding reconcile_repo_def Let_def assms(2) option.case by (cases "demote_all ct pa ?cl") simp_all
  have regs: "regs = sn_regs sn" "labels = sn_effective sn"
    using assms(4) t sn unfolding reconcile_repo_def Let_def assms(2) option.case
    by (auto split: option.splits sum.splits)
  obtain ep ds where st: "staged ct pa ?cl ep ds sn" by (rule demote_all_staged [OF sn])
  let ?regs1 = "map (stamp_packages ep) (retain_regs (ds_packages ds) (cl_registrations ?cl))"
  let ?regs3 = "retain_regs (ds_unlabelled ds) (retain_regs (ds_bad_labels ds) ?regs1)"
  have coll: "ds_collisions ds = detect_work_label_collisions ?regs3 (sn_effective sn)"
    using st unfolding staged_def Let_def by blast
  have "distinct (map rg_trigger_issue (cl_registrations ?cl))" using inv by (simp add: class_inv_def)
  then have "distinct (map rg_trigger_issue ?regs1)"
    using distinct_map_filter [of rg_trigger_issue "cl_registrations ?cl"] by (simp add: comp_def retain_regs_def)
  then have d: "distinct (map rg_trigger_issue ?regs3)"
    unfolding retain_regs_def by (intro distinct_map_filter)
  note at = survivor_stages [OF st]
  have "c \<in> set ?regs3 \<and> rg_trigger_issue c \<notin> set (map fst (ds_collisions ds))" if "c \<in> set regs" for c
    using at(3,5) [of c] that unfolding regs(1) by (simp add: demoted_def image_Un)
  then show ?thesis
    using collisions_demote_outranked [OF d, of "sn_effective sn"] assms(5-8) unfolding regs(2) coll by blast
qed

section \<open>A pass returns\<close>

lemma finite_manifests_finite_graph:
  assumes "finite {n. fetch n \<noteq> None}"
  shows "finite_graph fetch reg"
proof -
  let ?start = "ref_key ` set (rg_effective_packages reg)"
  have "n \<in> ?start \<union> (\<Union>n \<in> {n. fetch n \<noteq> None}. node_deps fetch n)" if "reach fetch ?start n" for n
    using that
  proof cases
    case (reach_dep n')
    then have "fetch n' \<noteq> None" by (auto simp: node_deps_def split: option.splits)
    then show ?thesis using reach_dep by blast
  qed blast
  then have sub: "Collect (reach fetch ?start) \<subseteq> ?start \<union> (\<Union>n \<in> {n. fetch n \<noteq> None}. node_deps fetch n)"
    by (intro subsetI) (simp only: mem_Collect_eq)
  have "finite (node_deps fetch n)" for n by (simp add: node_deps_def split: option.split)
  then have "finite (\<Union>n \<in> {n. fetch n \<noteq> None}. node_deps fetch n)" using assms by (intro finite_UN_I)
  then have "finite (?start \<union> (\<Union>n \<in> {n. fetch n \<noteq> None}. node_deps fetch n))" by (intro finite_UnI) simp_all
  from finite_subset [OF sub this] show ?thesis unfolding finite_graph_def .
qed

lemma label_sets_returns:
  assumes "\<forall>reg \<in> set regs. finite_graph fetch reg"
  shows "label_sets fetch regs cache out \<noteq> None"
  using assms
proof (induction regs arbitrary: cache out)
  case (Cons reg regs)
  have "\<exists>d. (case cache (rg_config_hash reg) of Some discovered \<Rightarrow> Some discovered
      | None \<Rightarrow> resolve_work_labels fetch (rg_effective_packages reg)) = Some d"
    using discovery_total [of fetch reg] Cons.prems by (auto split: option.split)
  then show ?case using Cons by (auto simp: Let_def)
qed simp

lemma missing_sources_returns:
  assumes "\<forall>s. pa_branch_head pa s \<noteq> None" "pa_default_branch pa \<noteq> None"
  shows "\<exists>out. missing_sources ct pa regs db missing = Inr out"
proof (induction regs arbitrary: db missing)
  case (Cons r regs)
  have "(case df_source_branch (rg_def r) of Some s \<Rightarrow> Some s
      | None \<Rightarrow> (case db of Some s \<Rightarrow> Some s | None \<Rightarrow> pa_default_branch pa)) \<noteq> None"
    using assms(2) by (simp split: option.split)
  then obtain source where "(case df_source_branch (rg_def r) of Some s \<Rightarrow> Some s
      | None \<Rightarrow> (case db of Some s \<Rightarrow> Some s | None \<Rightarrow> pa_default_branch pa)) = Some source" by blast
  moreover obtain head where "pa_branch_head pa source = Some head" using assms(1) by blast
  ultimately show ?case using Cons.IH by (simp add: Let_def)
qed simp

lemma has_pending_returns:
  assumes "\<forall>l. \<exists>n. count l = Inr n" "\<forall>l. \<exists>work. listing l = Inr work"
  shows "\<exists>b. has_pending count listing reg access robot ls = Inr b"
proof (induction ls)
  case (Cons l ls)
  obtain n work where "count l = Inr n" "listing l = Inr work" using assms by blast
  then show ?case using Cons.IH by (cases "n = 0 \<or> \<not> list_ex (worked_by reg access robot) (map metadata work)") auto
qed auto

lemma pending_sessions_returns:
  assumes "\<forall>l. \<exists>n. pa_count pa l = Inr n" "\<forall>l. \<exists>work. pa_listing pa l = Inr work"
  shows "\<exists>out. pending_sessions ct pa effective regs pending = Inr out"
proof (induction regs arbitrary: pending)
  case (Cons r regs)
  obtain b where "has_pending (pa_count pa) (pa_listing pa) r (ct_access ct) (ct_bot_login ct)
      (case effective (rg_session_id r) of Some ls \<Rightarrow> ls | None \<Rightarrow> []) = Inr b"
    using has_pending_returns [OF assms] by blast
  then show ?case using Cons.IH by (simp add: Let_def)
qed simp

lemma demote_all_returns:
  assumes "finite {n. pa_manifest pa n \<noteq> None}"
  shows "demote_all ct pa cl \<noteq> Inl PassDiverges"
    "\<forall>s. pa_branch_head pa s \<noteq> None \<Longrightarrow> pa_default_branch pa \<noteq> None \<Longrightarrow> \<exists>sn. demote_all ct pa cl = Inr sn"
proof -
  obtain ep w where ep: "resolve_effective_packages (pa_expand pa) (cl_registrations cl) (ct_mandatory ct) (pa_world pa) = (ep, w)"
    by (rule prod.exhaust)
  let ?regs1 = "map (stamp_packages ep)
    (retain_regs (map (\<lambda>(i, d). (i, ct_message ct (PackagesDemoted d))) (ep_demotions ep)) (cl_registrations cl))"
  have "\<forall>reg \<in> set ?regs1. finite_graph (pa_manifest pa) reg" using finite_manifests_finite_graph [OF assms] by blast
  then obtain logical where logical: "resolve_work_label_sets (pa_manifest pa) ?regs1 = Some logical"
    using label_sets_returns unfolding resolve_work_label_sets_def by blast
  obtain effective bad where bad: "namespace_labels ct logical ?regs1 (Map.empty, []) = (effective, bad)" by (rule prod.exhaust)
  note run = demote_all_def [of ct pa cl] ep Let_def prod.case logical option.case bad
  show "demote_all ct pa cl \<noteq> Inl PassDiverges" unfolding run by (simp split: sum.split)
  show "\<exists>sn. demote_all ct pa cl = Inr sn" if heads: "\<forall>s. pa_branch_head pa s \<noteq> None" "pa_default_branch pa \<noteq> None"
  proof -
    let ?regs3 = "retain_regs (detect_missing_work_labels (retain_regs bad ?regs1) logical) (retain_regs bad ?regs1)"
    obtain out where "missing_sources ct pa (retain_regs (detect_work_label_collisions ?regs3 effective) ?regs3) None [] = Inr out"
      using missing_sources_returns [OF heads] by blast
    then show ?thesis unfolding run by simp
  qed
qed

definition all_reads_succeed :: "'w pass_answers \<Rightarrow> bool" where
  "all_reads_succeed pa \<longleftrightarrow>
     pa_token pa \<and> pa_issues pa \<noteq> None \<and> pa_live pa \<noteq> None \<and> pa_default_branch pa \<noteq> None \<and>
     (\<forall>s. pa_branch_head pa s \<noteq> None) \<and> (\<forall>l. \<exists>n. pa_count pa l = Inr n) \<and> (\<forall>l. \<exists>work. pa_listing pa l = Inr work)"

section \<open>The frozen hash is read back\<close>

lemma takeWhile_all_then:
  assumes "list_all P h" "\<not> P c"
  shows "takeWhile P (h @ c # t) = h" "dropWhile P (h @ c # t) = c # t"
  using assms by (induction h) auto

lemma marker_here_hash:
  assumes "h \<noteq> []" "list_all is_lower_hex h"
  shows "marker_here (HASH_MARKER_PREFIX @ h @ HASH_MARKER_SUFFIX) = Some h"
proof -
  obtain t where t: "HASH_MARKER_SUFFIX = 32 # t" by (simp add: HASH_MARKER_SUFFIX_def str_simps)
  have "\<not> is_lower_hex 32" by (simp add: is_lower_hex_def char_class_defs str_simps)
  note w = takeWhile_all_then [OF assms(2) this, of t]
  have "marker_here (HASH_MARKER_PREFIX @ h @ 32 # t) =
      (if h \<noteq> [] \<and> strip_prefix (32 # t) (32 # t) \<noteq> None then Some h else None)"
    unfolding marker_here_def strip_prefix_append option.case Let_def w t ..
  then show ?thesis using assms(1) strip_prefix_append [of "32 # t" "[]"] unfolding t by simp
qed

lemma marker_in_no_angle: "60 \<notin> set s \<Longrightarrow> marker_in (s @ t) = marker_in t"
proof (induction s)
  case (Cons c s)
  have "strip_prefix HASH_MARKER_PREFIX (c # s @ t) = None"
    using Cons.prems strip_prefix_None by (auto simp: HASH_MARKER_PREFIX_def str_simps prefix_def)
  then show ?case using Cons by (simp add: marker_here_def)
qed simp

text \<open>
  The hash an announcement freezes is the hash later passes read, as long as no earlier comment carries a marker. Any
  earlier comment with one, whoever wrote it, replaces it.
\<close>

theorem announced_hash_recovered:
  assumes "h \<noteq> []" "list_all is_lower_hex h" "60 \<notin> set visible" "\<forall>c \<in> set earlier. marker_in c = None"
  shows "parse_config_hash_marker (earlier @ (visible @ config_hash_marker h) # later) = Some h"
proof -
  have "60 \<notin> set (visible @ [10, 10])" using assms(3) by simp
  from marker_in_no_angle [OF this, of "HASH_MARKER_PREFIX @ h @ HASH_MARKER_SUFFIX"]
  have "marker_in (visible @ config_hash_marker h) = marker_in (HASH_MARKER_PREFIX @ h @ HASH_MARKER_SUFFIX)"
    by (simp add: config_hash_marker_def)
  also have "\<dots> = Some h"
    using marker_here_hash [OF assms(1,2)] by (cases "HASH_MARKER_PREFIX @ h @ HASH_MARKER_SUFFIX") simp_all
  finally show ?thesis using assms(4) by (induction earlier) simp_all
qed

lemma earlier_marker_wins:
  assumes "h \<noteq> []" "list_all is_lower_hex h" "h \<noteq> full_config_hash digest reg"
    "frozen (rg_trigger_issue reg) = parse_config_hash_marker (config_hash_marker h # comments)"
  shows "config_change_rejected digest reg frozen"
  using announced_hash_recovered [OF assms(1,2), of "[]" "[]" comments] assms(3,4)
  by (simp add: config_change_rejected_def)
section \<open>A sample pass\<close>

text \<open>Two triggers of one administrator of the repository, the second one blank; one open work issue.\<close>

definition sample_context :: pass_context where
  "sample_context =
     \<lparr>ct_installation_id = 42, ct_repo = \<lparr>rf_owner = lit ''acme'', rf_name = lit ''site''\<rparr>,
      ct_access = \<lparr>ap_entries = None, ap_blocked = None, ap_mode = None, ap_global_admins = []\<rparr>, ct_bot_login = None,
      ct_mandatory = [sample_ref], ct_namespace = None,
      ct_plan = \<lparr>session_idle_grace_secs = 60, pod_min_lifetime_secs = 0, pc_work_label_namespace = None\<rparr>,
      ct_digest = json_text, ct_uuid_v5 = id, ct_lower = to_ascii_lowercase, ct_message = (\<lambda>_. [])\<rparr>"

definition blank_trigger :: issue_summary where
  "blank_trigger = sample_trigger_issue\<lparr>su_number := 8, su_body := []\<rparr>"

definition sample_work :: issue_summary where
  "sample_work = sample_trigger_issue\<lparr>su_number := 21, su_labels := [lit ''fkst-dev''], su_assignees := [lit ''Alice'']\<rparr>"

definition sample_manifest :: "package_node \<Rightarrow> package_manifest option" where
  "sample_manifest n =
     (if n = ref_key sample_ref then Some \<lparr>pm_work_labels = [lit ''fkst-dev''], pm_event_deps = []\<rparr> else None)"

definition sample_answers :: "unit pass_answers" where
  "sample_answers =
     \<lparr>pa_token = True, pa_issues = Some [sample_trigger_issue, blank_trigger], pa_role = (\<lambda>_. Some (Some (lit ''admin''))),
      pa_comments = (\<lambda>_. None), pa_expand = (\<lambda>_ w. (Inl ManifestNotFound, w)), pa_world = (),
      pa_manifest = sample_manifest, pa_default_branch = Some (lit ''main''), pa_branch_head = (\<lambda>_. Some (Some [])),
      pa_live = Some [], pa_count = (\<lambda>_. Inr 1), pa_listing = (\<lambda>_. Inr [sample_work]), pa_now = 0\<rparr>"

lemma sample_classified:
  "\<exists>reg. parse_registration json_text id 42 \<lparr>rf_owner = lit ''acme'', rf_name = lit ''site''\<rparr> sample_trigger_issue sample_creator = Inr reg \<and>
     df_packages (rg_def reg) = [sample_ref] \<and> df_manifest_refs (rg_def reg) = [] \<and> df_work_label (rg_def reg) = None \<and>
     df_source_branch (rg_def reg) = None \<and> df_package_env (rg_def reg) = [] \<and>
     rg_trigger_issue reg = 7 \<and> rg_creator_login reg = lit ''alice'' \<and> rg_creator_id reg = Some 9 \<and>
     rg_effective_packages reg = [sample_ref] \<and> rg_effective_package_env reg = [] \<and>
     classify_triggers sample_context (pa_role sample_answers) [] [sample_trigger_issue, blank_trigger] =
       \<lparr>cl_registrations = [reg], cl_invalid = [(8, [])], cl_unauthorized = [], cl_authorized_issues = [7, 8]\<rparr>"
proof -
  obtain ts where ts: "parse_trigger_issue_body sample_trigger_body = Inr ts" "ts_packages ts = [sample_ref]"
    "ts_manifest_refs ts = []" "ts_work_label ts = None" "ts_source_branch ts = None" "ts_package_env ts = []"
    using sample_trigger_parses by blast
  have blank: "\<exists>e. parse_trigger_issue_body [] = Inl e"
    by (simp add: parse_trigger_issue_body_def split_sections_def map_err_def content_of_def parse_session_name_def)
  have creator: "effective_creator (metadata i) None = Resolved sample_creator"
    if "i = sample_trigger_issue \<or> i = blank_trigger" for i
    using that by (auto simp: effective_creator_def is_expected_bot_login_def metadata_def sample_trigger_issue_def blank_trigger_def
        sample_creator_def)
  have allowed: "allows (ct_access sample_context) i l" for i l
    by (simp add: sample_context_def allows_def effective_model_def)
  have check: "fst (check_trigger_creator (pa_role sample_answers) own nm (ct_access sample_context) c cache) = Authorized"
    if "cache = Map.empty \<or> cache = [to_ascii_lowercase (sc_login c) \<mapsto> Some (lit ''admin'')]" for own nm c cache
    using that by (auto simp: check_trigger_creator_def role_decision_def sample_answers_def Let_def)
  have cache: "snd (check_trigger_creator (pa_role sample_answers) own nm (ct_access sample_context) c Map.empty) =
      [to_ascii_lowercase (sc_login c) \<mapsto> Some (lit ''admin'')]" for own nm c
    by (simp add: check_trigger_creator_def sample_answers_def sample_context_def is_global_admin_def Let_def)
  have nums: "su_number sample_trigger_issue = 7" "su_number blank_trigger = 8" "su_body blank_trigger = []"
    "su_body sample_trigger_issue = sample_trigger_body"
    by (simp_all add: sample_trigger_issue_def blank_trigger_def)
  have ct: "ct_bot_login sample_context = None" "ct_message sample_context m = []" "ct_digest sample_context = json_text"
    "ct_uuid_v5 sample_context = id" "ct_installation_id sample_context = 42"
    "ct_repo sample_context = \<lparr>rf_owner = lit ''acme'', rf_name = lit ''site''\<rparr>" for m
    by (simp_all add: sample_context_def)
  obtain e where e: "parse_trigger_issue_body [] = Inl e" using blank by blast
  have step: "classify_trigger sample_context (pa_role sample_answers) [] i (cl, cache) =
      (parse_classified_registration sample_context i sample_creator
         (cl\<lparr>cl_authorized_issues := cl_authorized_issues cl @ [su_number i]\<rparr>),
       snd (check_trigger_creator (pa_role sample_answers) (lit ''acme'') (lit ''site'') (ct_access sample_context) sample_creator cache))"
    if "i = sample_trigger_issue \<or> i = blank_trigger"
      "cache = Map.empty \<or> cache = [to_ascii_lowercase (sc_login sample_creator) \<mapsto> Some (lit ''admin'')]" for i cl cache
    using check [OF that(2), of "lit ''acme''" "lit ''site''"]
    by (simp add: classify_trigger_def Let_def allowed creator [OF that(1)] ct case_prod_unfold)
  show ?thesis
    using ts e
    by (simp add: classify_triggers_def step cache no_triggers_def nums ct parse_classified_registration_def parse_registration_def
        sample_creator_def)
qed

lemma sample_labels: "resolve_work_labels sample_manifest [sample_ref] = Some {lit ''fkst-dev''}"
proof -
  have "trim (lit ''fkst-dev'') = lit ''fkst-dev''" by (rule trim_id) (simp add: trimmed_def is_whitespace_def str_simps)
  then have d: "declared_labels \<lparr>pm_work_labels = [lit ''fkst-dev''], pm_event_deps = []\<rparr> = [lit ''fkst-dev'']"
    "dep_nodes n \<lparr>pm_work_labels = [lit ''fkst-dev''], pm_event_deps = []\<rparr> = []" for n
    by (simp_all add: declared_labels_def dep_nodes_def str_simps)
  show ?thesis
    unfolding resolve_work_labels_def
    by (subst discover.simps, simp add: sample_manifest_def d, subst discover.simps, simp)
qed

lemma sample_namespaced:
  "\<exists>ewl. apply_work_label_namespace to_ascii_lowercase [lit ''fkst-dev''] None = Inr ewl \<and> ewl_effective ewl = [lit ''fkst-dev'']"
proof -
  have "trim (lit ''fkst-dev'') = lit ''fkst-dev''" by (rule trim_id) (simp add: trimmed_def is_whitespace_def str_simps)
  then have "validate_effective_label (lit ''fkst-dev'') = Inr ()"
    by (simp add: validate_effective_label_Inr is_control_def GITHUB_LABEL_NAME_MAX_CHARS_def str_simps)
  then show ?thesis by (simp add: apply_work_label_namespace_def Let_def res_simps effective_label_def str_simps)
qed

lemma sample_survivor:
  "\<exists>reg. rg_trigger_issue reg = 7 \<and> rg_creator_login reg = lit ''alice'' \<and> rg_creator_id reg = Some 9 \<and>
     classify_triggers sample_context (pa_role sample_answers) [] [sample_trigger_issue, blank_trigger] =
       \<lparr>cl_registrations = [reg], cl_invalid = [(8, [])], cl_unauthorized = [], cl_authorized_issues = [7, 8]\<rparr> \<and>
     demote_all sample_context sample_answers
       \<lparr>cl_registrations = [reg], cl_invalid = [(8, [])], cl_unauthorized = [], cl_authorized_issues = [7, 8]\<rparr> =
     Inr \<lparr>sn_regs = [reg], sn_invalid = [(8, [])], sn_logical = [rg_session_id reg \<mapsto> [lit ''fkst-dev'']],
          sn_effective = [rg_session_id reg \<mapsto> [lit ''fkst-dev'']]\<rparr>"
proof -
  obtain reg where reg: "df_packages (rg_def reg) = [sample_ref]" "df_manifest_refs (rg_def reg) = []"
      "df_work_label (rg_def reg) = None" "df_source_branch (rg_def reg) = None" "df_package_env (rg_def reg) = []"
      "rg_trigger_issue reg = 7" "rg_creator_login reg = lit ''alice''" "rg_creator_id reg = Some 9"
      "rg_effective_packages reg = [sample_ref]" "rg_effective_package_env reg = []"
      "classify_triggers sample_context (pa_role sample_answers) [] [sample_trigger_issue, blank_trigger] =
       \<lparr>cl_registrations = [reg], cl_invalid = [(8, [])], cl_unauthorized = [], cl_authorized_issues = [7, 8]\<rparr>"
    using sample_classified by blast
  obtain ewl where ewl: "apply_work_label_namespace to_ascii_lowercase [lit ''fkst-dev''] None = Inr ewl"
      "ewl_effective ewl = [lit ''fkst-dev'']"
    using sample_namespaced by blast
  have packages: "resolve_effective_packages (pa_expand sample_answers) [reg] (ct_mandatory sample_context) () =
      (\<lparr>ep_by_session = [rg_session_id reg \<mapsto> [sample_ref]], ep_demotions = [],
        ep_package_env = [rg_session_id reg \<mapsto> []]\<rparr>, ())"
    by (simp add: resolve_effective_packages_def expand_one_def reg finish_effective_def Let_def missing_mandatory_def
        sample_context_def workspace_count_def MAX_EFFECTIVE_PACKAGE_WORKSPACES_def merge_package_env_def
        conflicting_package_env_key_def)
  have same: "stamp_packages \<lparr>ep_by_session = [rg_session_id reg \<mapsto> [sample_ref]], ep_demotions = [],
        ep_package_env = [rg_session_id reg \<mapsto> []]\<rparr> reg = reg"
    using reg(9,10) by (cases reg) (simp add: stamp_packages_def)
  have labels: "resolve_work_label_sets (pa_manifest sample_answers) [reg] = Some [rg_session_id reg \<mapsto> [lit ''fkst-dev'']]"
    by (simp add: resolve_work_label_sets_def sample_answers_def reg sample_labels)
  have spaced: "namespace_labels sample_context [rg_session_id reg \<mapsto> [lit ''fkst-dev'']] [reg] (Map.empty, []) =
      ([rg_session_id reg \<mapsto> [lit ''fkst-dev'']], [])"
    by (simp add: sample_context_def ewl Let_def)
  have missing: "detect_missing_work_labels [reg] [rg_session_id reg \<mapsto> [lit ''fkst-dev'']] = []"
    by (simp add: detect_missing_work_labels_def)
  have pa: "pa_world sample_answers = ()" "pa_default_branch sample_answers = Some (lit ''main'')"
    "pa_branch_head sample_answers s = Some (Some [])" for s
    by (simp_all add: sample_answers_def)
  have keep: "retain_regs [] [reg] = [reg]" by (simp add: retain_regs_def)
  have coll: "detect_work_label_collisions [reg] [rg_session_id reg \<mapsto> [lit ''fkst-dev'']] = []"
    by (cases "is_reserved_label (lit ''fkst-dev'')")
      (simp_all add: detect_work_label_collisions_def Let_def losing_label_def contested_labels_def owner_by_label_def
        claim_labels_def claim_label_def loses_label_def)
  have "demote_all sample_context sample_answers
       \<lparr>cl_registrations = [reg], cl_invalid = [(8, [])], cl_unauthorized = [], cl_authorized_issues = [7, 8]\<rparr> =
     Inr \<lparr>sn_regs = [reg], sn_invalid = [(8, [])], sn_logical = [rg_session_id reg \<mapsto> [lit ''fkst-dev'']],
          sn_effective = [rg_session_id reg \<mapsto> [lit ''fkst-dev'']]\<rparr>"
    by (simp add: demote_all_def packages Let_def keep same labels spaced missing coll pa reg(4) del: namespace_labels.simps)
  then show ?thesis using reg(6-8,11) by blast
qed

lemma sample_pass:
  "\<exists>reg. rg_trigger_issue reg = 7 \<and>
     {Execute (Spawn reg [lit ''fkst-dev'']), Execute (FlagInvalid 8 [])} \<subseteq> set (fst (reconcile_repo sample_context sample_answers)) \<and>
     snd (reconcile_repo sample_context sample_answers) = PassDone"
proof -
  obtain reg where reg: "rg_trigger_issue reg = 7" "rg_creator_login reg = lit ''alice''" "rg_creator_id reg = Some 9"
     "classify_triggers sample_context (pa_role sample_answers) [] [sample_trigger_issue, blank_trigger] =
       \<lparr>cl_registrations = [reg], cl_invalid = [(8, [])], cl_unauthorized = [], cl_authorized_issues = [7, 8]\<rparr>"
     "demote_all sample_context sample_answers
       \<lparr>cl_registrations = [reg], cl_invalid = [(8, [])], cl_unauthorized = [], cl_authorized_issues = [7, 8]\<rparr> =
     Inr \<lparr>sn_regs = [reg], sn_invalid = [(8, [])], sn_logical = [rg_session_id reg \<mapsto> [lit ''fkst-dev'']],
          sn_effective = [rg_session_id reg \<mapsto> [lit ''fkst-dev'']]\<rparr>"
    using sample_survivor by blast
  have latches: "latched l [sample_trigger_issue, blank_trigger] = []" for l
    by (simp add: latched_def sample_trigger_issue_def blank_trigger_def)
  have "worked_by reg (ct_access sample_context) (ct_bot_login sample_context) (metadata sample_work)"
    using reg(2,3)
    by (simp add: worked_by_def work_author_tiers route_work_issue_def metadata_def sample_work_def sample_trigger_issue_def
        sample_context_def allows_def effective_model_def creator_matches_def registration_facts_def eq_ignore_ascii_case_def
        str_simps to_ascii_lowercase_def ascii_lower_def is_ascii_uppercase_def)
  then have pend: "pending_sessions sample_context sample_answers [rg_session_id reg \<mapsto> [lit ''fkst-dev'']] [reg] Map.empty =
      Inr [rg_session_id reg \<mapsto> True]"
    by (simp add: sample_answers_def)
  have sa: "pa_token sample_answers" "pa_issues sample_answers = Some [sample_trigger_issue, blank_trigger]"
    "pa_live sample_answers = Some []"
    by (simp_all add: sample_answers_def)
  have hashes: "latched_hashes sample_answers [] [reg] = Map.empty" by (simp add: latched_hashes_def)
  let ?cl = "\<lparr>cl_registrations = [reg], cl_invalid = [(8, [])], cl_unauthorized = [], cl_authorized_issues = [7, 8]\<rparr>"
  let ?sn = "\<lparr>sn_regs = [reg], sn_invalid = [(8, [])], sn_logical = [rg_session_id reg \<mapsto> [lit ''fkst-dev'']],
          sn_effective = [rg_session_id reg \<mapsto> [lit ''fkst-dev'']]\<rparr>"
  have acts: "{Spawn reg [lit ''fkst-dev''], FlagInvalid 8 []} \<subseteq>
      set (pass_actions sample_context sample_answers [sample_trigger_issue, blank_trigger] ?cl ?sn [] [rg_session_id reg \<mapsto> True])"
    by (simp add: pass_actions_def plan_repo_def registration_actions_def Let_def live_by_session_def config_change_rejected_def
        latches hashes detected_def invalid_actions_def)
  have "{Execute (Spawn reg [lit ''fkst-dev'']), Execute (FlagInvalid 8 [])} \<subseteq> set (fst (reconcile_repo sample_context sample_answers))"
    "snd (reconcile_repo sample_context sample_answers) = PassDone"
    using acts by (simp_all add: reconcile_repo_def Let_def sa latches reg(4,5) pend del: pending_sessions.simps)
  then show ?thesis using reg(1) by blast
qed


theorem pass_feedback_consistent_witness:
  "\<exists>reg. {Execute (Spawn reg [lit ''fkst-dev'']), Execute (FlagInvalid 8 [])} \<subseteq> set (fst (reconcile_repo sample_context sample_answers)) \<and>
     serves (Spawn reg [lit ''fkst-dev'']) \<noteq> Some 8"
proof -
  obtain reg where reg: "Execute (Spawn reg [lit ''fkst-dev'']) \<in> set (fst (reconcile_repo sample_context sample_answers))"
      "Execute (FlagInvalid 8 []) \<in> set (fst (reconcile_repo sample_context sample_answers))"
    using sample_pass by blast
  have h: "case_blind (pa_role sample_answers)" "pa_issues sample_answers = Some [sample_trigger_issue, blank_trigger]"
    "distinct (map su_number [sample_trigger_issue, blank_trigger])"
    by (simp_all add: case_blind_def sample_answers_def sample_trigger_issue_def blank_trigger_def)
  show ?thesis
    using pass_feedback_consistent [OF h disjI1 [OF refl] reg(2) reg(1)] reg by blast
qed

section \<open>A demotion takes the runtime away\<close>

text \<open>
  A registration whose packages are demoted is no longer registered when the pass plans, so a runtime that serves it is
  treated as an orphan: it is killed as if its trigger had been closed, and its work issues are told so. One manifest that
  cannot be read in one pass is enough.
\<close>

lemma demoted_session_loses_runtime:
  assumes "case_blind (pa_role pa)" "inj (ct_uuid_v5 ct)" "47 \<notin> set (rf_owner (ct_repo ct))"
    "pa_issues pa = Some issues" "distinct (map su_number issues)"
    "snd (reconcile_repo ct pa) = PassDone" "pa_live pa = Some live" "p \<in> set live" "lp_liveness p = Live"
    "cl = classify_triggers ct (pa_role pa) (latched SUBSTRATE_ANNOUNCED_LABEL issues) issues"
    "reg \<in> set (cl_registrations cl)" "rg_session_id reg = lp_session_id p"
    "resolve_effective_packages (pa_expand pa) (cl_registrations cl) (ct_mandatory ct) (pa_world pa) = (ep, w)"
    "(rg_trigger_issue reg, ManifestFailed r (FetchFailed e)) \<in> set (ep_demotions ep)"
  shows "Execute (Kill (lp_session_id p) TriggerClosed (audit_from_observed p)) \<in> set (fst (reconcile_repo ct pa)) \<and>
    (lp_work_labels p \<noteq> [] \<longrightarrow> Execute (RetireWorkIssues (lp_work_labels p)) \<in> set (fst (reconcile_repo ct pa)))"
proof -
  obtain cache where inv: "class_inv ct (pa_role pa) (latched SUBSTRATE_ANNOUNCED_LABEL issues) issues (cl, cache)"
    using classified_inv [OF assms(1,5)] assms(10) by blast
  have adm: "\<forall>reg \<in> set (cl_registrations cl). from_admitted ct (pa_role pa) (latched SUBSTRATE_ANNOUNCED_LABEL issues) issues reg"
    and d: "distinct (map rg_trigger_issue (cl_registrations cl))"
    using inv by (simp_all add: class_inv_def)
  have sd: "distinct (map rg_session_id (cl_registrations cl))" by (rule sessions_distinct [OF adm d assms(2,3)])
  note run = assms(6) [unfolded reconcile_repo_def Let_def assms(4) option.case, folded assms(10)]
  have t: "pa_token pa" using assms(6) by (cases "pa_token pa") (simp_all add: reconcile_repo_def)
  obtain sn where sn: "demote_all ct pa cl = Inr sn"
  proof (cases "demote_all ct pa cl")
    case (Inl outcome)
    have "demote_all ct pa cl \<noteq> Inl PassDone"
      by (auto simp: demote_all_def Let_def split: prod.splits option.splits sum.splits)
    then show thesis using run t Inl by auto
  qed (use that in blast)
  obtain pending where pend: "pending_sessions ct pa (sn_effective sn) (sn_regs sn) Map.empty = Inr pending"
    using run t sn assms(7) by (cases "pending_sessions ct pa (sn_effective sn) (sn_regs sn) Map.empty") simp_all
  obtain ep' ds where st: "staged ct pa cl ep' ds sn" by (rule demote_all_staged [OF sn])
  have ep: "ep' = ep" and packs: "ds_packages ds = map (\<lambda>(i, d). (i, ct_message ct (PackagesDemoted d))) (ep_demotions ep')"
    using st assms(13) unfolding staged_def Let_def by auto
  have dem: "rg_trigger_issue reg \<in> fst ` set (demoted ds)"
    using assms(14) unfolding demoted_def packs ep by force
  have gone: "lp_session_id p \<notin> rg_session_id ` set (sn_regs sn)"
  proof
    assume "lp_session_id p \<in> rg_session_id ` set (sn_regs sn)"
    then obtain reg' where reg': "reg' \<in> set (sn_regs sn)" "rg_session_id reg' = lp_session_id p" by auto
    obtain reg0 where r0: "reg0 \<in> set (cl_registrations cl)" "reg' = stamp_packages ep' reg0"
      "rg_trigger_issue reg0 \<notin> fst ` set (demoted ds)"
      by (rule staged_survivor [OF st reg'(1)])
    have "rg_session_id reg0 = rg_session_id reg" using reg'(2) r0(2) assms(12) by simp
    then have "reg0 = reg" using sd r0(1) assms(11) by (auto simp: distinct_map inj_on_def)
    then show False using r0(3) dem by simp
  qed
  let ?acts = "pass_actions ct pa issues cl sn live pending"
  have orphan: "Kill (lp_session_id p) TriggerClosed (audit_from_observed p) \<in> set (orphan_actions inp p)"
    "lp_work_labels p \<noteq> [] \<Longrightarrow> RetireWorkIssues (lp_work_labels p) \<in> set (orphan_actions inp p)"
    if "in_regs inp = sn_regs sn" for inp
    using gone assms(9) that by (simp_all add: orphan_actions_def)
  have "Kill (lp_session_id p) TriggerClosed (audit_from_observed p) \<in> set ?acts"
    "lp_work_labels p \<noteq> [] \<Longrightarrow> RetireWorkIssues (lp_work_labels p) \<in> set ?acts"
    using orphan assms(8) by (fastforce simp: pass_actions_def plan_repo_def)+
  moreover have "set (map Execute ?acts) \<subseteq> set (fst (reconcile_repo ct pa))"
    unfolding reconcile_repo_def Let_def assms(4) option.case assms(10) [symmetric] using t sn assms(7) pend by auto
  ultimately show ?thesis by auto
qed
end
