(* ===== verification/WorkFeedback.thy ===== *)
theory WorkFeedback
  imports SchedulePass
begin

text \<open>
  What an author of a work issue is told (\<open>backend/src/reconcile/work_ack.rs\<close>, \<open>retire.rs\<close>, the label set on the wire of
  \<open>k8s/work_label_wire.rs\<close>). A pass decides on one snapshot of the open work issues; each write reaches GitHub, is lost, or
  reaches GitHub while its answer is lost.
\<close>

section \<open>Labels and texts\<close>

definition WORK_PICKED_UP_LABEL :: str where "WORK_PICKED_UP_LABEL = lit ''fkst-picked-up''"
definition WORK_UNAUTHORIZED_LABEL :: str where "WORK_UNAUTHORIZED_LABEL = lit ''fkst-unauthorized''"
definition WORK_UNROUTED_LABEL :: str where "WORK_UNROUTED_LABEL = lit ''fkst-unrouted''"
definition SUBSTRATE_RETIRED_LABEL :: str where "SUBSTRATE_RETIRED_LABEL = lit ''fkst-session-retired''"

lemmas feedback_labels =
  WORK_PICKED_UP_LABEL_def WORK_UNAUTHORIZED_LABEL_def WORK_UNROUTED_LABEL_def SUBSTRATE_RETIRED_LABEL_def

definition join_work_labels :: "str list \<Rightarrow> str" where
  "join_work_labels labels =
     join [ch (CHR '','')]
       (fold (\<lambda>label seen. let t = trim label in if t \<noteq> [] \<and> t \<notin> set seen then seen @ [t] else seen) labels [])"

definition split_work_labels :: "str \<Rightarrow> str list" where
  "split_work_labels s = filter (\<lambda>t. t \<noteq> []) (map trim (split (ch (CHR '','')) s))"

definition work_ack_comment :: "str \<Rightarrow> str \<Rightarrow> str" where
  "work_ack_comment session_name work_label =
     [0x1F440] @ lit '' **Picked up by fkst session `'' @ session_name @ lit ''`.**'' @ [10, 10] @
     lit ''A fkst pod is working this repo'' @ [39] @ lit ''s `'' @ work_label @ lit ''` issues, including this one. '' @
     lit ''The session posts its progress on this issue as it works, and the outcome '' @
     lit ''will be a pull request (or, for issue-producing sessions, linked issues).''"

definition work_unauthorized_comment :: "str \<Rightarrow> str \<Rightarrow> str \<Rightarrow> int \<Rightarrow> str" where
  "work_unauthorized_comment author_login session_name creator_login trigger_issue =
     [0x1F6AB] @ lit '' **@'' @ author_login @ lit '' is not authorized to raise work for fkst session '' @
     lit ''`'' @ session_name @ lit ''`.**'' @ [10, 10] @
     lit ''Only the session'' @ [39] @ lit ''s **creator** (@'' @ creator_login @ lit ''), the logins listed under '' @
     lit ''**Session Collaborators**, and this deployment'' @ [39] @ lit ''s **fkst administrators** may '' @
     lit ''open work issues for it '' @ [0x2014] @ lit '' so this issue will NOT be picked up. See the '' @
     lit ''session'' @ [39] @ lit ''s trigger issue (#'' @ show_int trigger_issue @ lit '').''"

definition work_unrouted_comment :: str where
  "work_unrouted_comment =
     [0x26A0, 0xFE0F] @ lit '' **This issue carries an fkst work label but is not routed to any session.**'' @ [10, 10] @
     lit ''Work issues are picked up only when **exactly one assignee** is set and that '' @
     lit ''assignee is the creator of an active fkst session watching the label. Assign '' @
     lit ''the matching session creator to route it; it will not be worked until then.''"

definition retire_notice_comment :: "str list \<Rightarrow> str" where
  "retire_notice_comment work_labels =
     [0x26A0, 0xFE0F] @ lit '' **Session retired.** The trigger issue for effective work labels '' @
     lit ''`'' @ join_work_labels work_labels @ lit ''` was closed, so this session was retired and its pod cleaned up. '' @
     lit ''This issue is left OPEN but is no longer being worked. To resume, open a new trigger '' @
     lit ''issue (label `fkst-substrate-trigger`) whose effective labels cover this issue, then '' @
     lit ''give this issue exactly one assignee: that new session'' @ [39] @ lit ''s creator.''"

section \<open>Writes\<close>

datatype issue_write = PostComment str | AddLabel str | RemoveLabel str

datatype write_fate = Reached | Lost | AnswerLost

record issue_thread =
  th_labels :: "str set"
  th_comments :: "str list"

text \<open>The issues by number, and how many writes were sent; the fate of the \<open>n\<close>th write is \<open>fate n\<close>.\<close>

record thread_store =
  ts_threads :: "int \<Rightarrow> issue_thread"
  ts_sent :: nat

fun apply_write :: "issue_write \<Rightarrow> issue_thread \<Rightarrow> issue_thread" where
  "apply_write (PostComment c) th = th\<lparr>th_comments := th_comments th @ [c]\<rparr>"
| "apply_write (AddLabel l) th = th\<lparr>th_labels := insert l (th_labels th)\<rparr>"
| "apply_write (RemoveLabel l) th = th\<lparr>th_labels := th_labels th - {l}\<rparr>"

definition send_write :: "(nat \<Rightarrow> write_fate) \<Rightarrow> int \<Rightarrow> issue_write \<Rightarrow> thread_store \<Rightarrow> bool \<times> thread_store" where
  "send_write fate i w s =
     (fate (ts_sent s) = Reached,
      s\<lparr>ts_threads := (if fate (ts_sent s) = Lost then ts_threads s
                      else (ts_threads s)(i := apply_write w (ts_threads s i))),
        ts_sent := Suc (ts_sent s)\<rparr>)"

text \<open>A label first, then the comment if the label is confirmed; or the comment first, whatever becomes of it.\<close>

definition label_then_comment :: "(nat \<Rightarrow> write_fate) \<Rightarrow> int \<Rightarrow> str \<Rightarrow> str \<Rightarrow> thread_store \<Rightarrow> thread_store" where
  "label_then_comment fate i label comment s =
     (let (ok, s) = send_write fate i (AddLabel label) s
      in if \<not> ok then s else snd (send_write fate i (PostComment comment) s))"

section \<open>Acknowledging work\<close>

definition labels_for :: "session_registration \<Rightarrow> (str \<rightharpoonup> str list) \<Rightarrow> str list" where
  "labels_for reg work_labels_by_session =
     (case work_labels_by_session (rg_session_id reg) of Some ls \<Rightarrow> ls | None \<Rightarrow> [])"

definition issue_matches_labels :: "issue_metadata \<Rightarrow> str list \<Rightarrow> bool" where
  "issue_matches_labels issue labels \<longleftrightarrow> list_ex (\<lambda>label. label \<in> set (im_labels issue)) labels"

definition carries_label :: "issue_metadata \<Rightarrow> str \<Rightarrow> bool" where
  "carries_label issue label \<longleftrightarrow> label \<in> set (im_labels issue)"

definition first_matching_label :: "issue_metadata \<Rightarrow> str list \<Rightarrow> str" where
  "first_matching_label issue labels =
     (case find (\<lambda>label. label \<in> set (im_labels issue)) labels of
        Some label \<Rightarrow> label
      | None \<Rightarrow> (case labels of label # _ \<Rightarrow> label | [] \<Rightarrow> []))"

definition reject_issue :: "(nat \<Rightarrow> write_fate) \<Rightarrow> issue_metadata \<Rightarrow> session_registration \<Rightarrow> thread_store \<Rightarrow> thread_store" where
  "reject_issue fate issue reg =
     label_then_comment fate (im_number issue) WORK_UNAUTHORIZED_LABEL
       (work_unauthorized_comment (im_user_login issue) (df_name (rg_def reg)) (rg_creator_login reg) (rg_trigger_issue reg))"

definition clear_unauthorized :: "(nat \<Rightarrow> write_fate) \<Rightarrow> int \<Rightarrow> thread_store \<Rightarrow> thread_store" where
  "clear_unauthorized fate number s = snd (send_write fate number (RemoveLabel WORK_UNAUTHORIZED_LABEL) s)"

definition flag_unrouted :: "(nat \<Rightarrow> write_fate) \<Rightarrow> int \<Rightarrow> thread_store \<Rightarrow> thread_store" where
  "flag_unrouted fate number = label_then_comment fate number WORK_UNROUTED_LABEL work_unrouted_comment"

definition clear_unrouted :: "(nat \<Rightarrow> write_fate) \<Rightarrow> int \<Rightarrow> thread_store \<Rightarrow> thread_store" where
  "clear_unrouted fate number s = snd (send_write fate number (RemoveLabel WORK_UNROUTED_LABEL) s)"

definition ack_issue :: "(nat \<Rightarrow> write_fate) \<Rightarrow> int \<Rightarrow> str \<Rightarrow> str \<Rightarrow> thread_store \<Rightarrow> thread_store" where
  "ack_issue fate number session_name work_label s =
     snd (send_write fate number (AddLabel WORK_PICKED_UP_LABEL)
       (snd (send_write fate number (PostComment (work_ack_comment session_name work_label)) s)))"

fun collect_labels :: "str list \<Rightarrow> str list \<Rightarrow> str list" where
  "collect_labels unique [] = unique"
| "collect_labels unique (label # labels) =
     collect_labels (if label \<in> set unique then unique else unique @ [label]) labels"

fun collect_issues :: "(str \<Rightarrow> issue_summary list option) \<Rightarrow> issue_metadata list \<Rightarrow> str list \<Rightarrow> issue_metadata list" where
  "collect_issues listing issues [] = issues"
| "collect_issues listing issues (label # labels) =
     (case listing label of
        None \<Rightarrow> collect_issues listing issues labels
      | Some found \<Rightarrow>
          collect_issues listing
            (fold (\<lambda>issue acc. if su_number issue \<in> set (map im_number acc) then acc else acc @ [metadata issue]) found issues)
            labels)"

definition routed_issue :: "session_registration list \<Rightarrow> (str \<rightharpoonup> str list) \<Rightarrow> issue_metadata \<Rightarrow> bool" where
  "routed_issue regs labels issue \<longleftrightarrow>
     list_ex (\<lambda>reg. issue_matches_labels issue (labels_for reg labels) \<and> route_work_issue issue (rg_creator_login reg) = Routed) regs"

definition unrouted_feedback ::
  "(nat \<Rightarrow> write_fate) \<Rightarrow> session_registration list \<Rightarrow> (str \<rightharpoonup> str list) \<Rightarrow> issue_metadata \<Rightarrow> thread_store \<Rightarrow> thread_store" where
  "unrouted_feedback fate regs labels issue s =
     (let routed = routed_issue regs labels issue; carries_unrouted = carries_label issue WORK_UNROUTED_LABEL
      in if routed then (if carries_unrouted then clear_unrouted fate (im_number issue) s else s)
         else if \<not> carries_unrouted then flag_unrouted fate (im_number issue) s else s)"

definition session_feedback ::
  "(nat \<Rightarrow> write_fate) \<Rightarrow> access_policy \<Rightarrow> str option \<Rightarrow> session_registration \<Rightarrow> str list \<Rightarrow> issue_metadata \<Rightarrow> thread_store \<Rightarrow>
   thread_store" where
  "session_feedback fate access bot_login reg labels issue s =
     (if \<not> issue_matches_labels issue labels \<or> route_work_issue issue (rg_creator_login reg) \<noteq> Routed then s
      else
        let carries_unauthorized = carries_label issue WORK_UNAUTHORIZED_LABEL
        in if \<not> is_work_author_allowed_with_bot reg access (im_user_id issue) (im_user_login issue) bot_login
           then (if \<not> carries_unauthorized then reject_issue fate issue reg s else s)
           else
             let s = (if carries_unauthorized then clear_unauthorized fate (im_number issue) s else s)
             in if carries_label issue WORK_PICKED_UP_LABEL then s
                else ack_issue fate (im_number issue) (df_name (rg_def reg)) (first_matching_label issue labels) s)"

definition ack_open_work_issues ::
  "(nat \<Rightarrow> write_fate) \<Rightarrow> access_policy \<Rightarrow> str option \<Rightarrow> (str \<Rightarrow> issue_summary list option) \<Rightarrow> session_registration list \<Rightarrow>
   (str \<rightharpoonup> str list) \<Rightarrow> thread_store \<Rightarrow> thread_store" where
  "ack_open_work_issues fate access bot_login listing regs labels s =
     (if regs = [] then s
      else
        let unique = collect_labels [] (concat (map (\<lambda>reg. labels_for reg labels) regs));
            issues = collect_issues listing [] unique;
            s = fold (unrouted_feedback fate regs labels) issues s
        in fold (\<lambda>reg. fold (session_feedback fate access bot_login reg (labels_for reg labels)) issues) regs s)"

section \<open>Retirement\<close>

definition retire_issue :: "(nat \<Rightarrow> write_fate) \<Rightarrow> int \<Rightarrow> str list \<Rightarrow> thread_store \<Rightarrow> thread_store" where
  "retire_issue fate number labels s =
     snd (send_write fate number (RemoveLabel WORK_PICKED_UP_LABEL)
       (snd (send_write fate number (AddLabel SUBSTRATE_RETIRED_LABEL)
         (snd (send_write fate number (PostComment (retire_notice_comment labels)) s)))))"

definition retire_one ::
  "(nat \<Rightarrow> write_fate) \<Rightarrow> str list \<Rightarrow> issue_summary \<Rightarrow> int set \<times> thread_store \<Rightarrow> int set \<times> thread_store" where
  "retire_one fate effective issue st =
     (if su_number issue \<in> fst st \<or> SUBSTRATE_RETIRED_LABEL \<in> set (su_labels issue) then st
      else (insert (su_number issue) (fst st), retire_issue fate (su_number issue) effective (snd st)))"

definition retire_open_work_issues ::
  "(nat \<Rightarrow> write_fate) \<Rightarrow> (thread_store \<Rightarrow> str \<Rightarrow> issue_summary list option) \<Rightarrow> str list \<Rightarrow> str \<Rightarrow> int set \<times> thread_store \<Rightarrow>
   int set \<times> thread_store" where
  "retire_open_work_issues fate listing effective label st =
     (case listing (snd st) label of None \<Rightarrow> st | Some issues \<Rightarrow> fold (retire_one fate effective) issues st)"

definition retire_work_issues ::
  "(nat \<Rightarrow> write_fate) \<Rightarrow> bool \<Rightarrow> (thread_store \<Rightarrow> str \<Rightarrow> issue_summary list option) \<Rightarrow> str list \<Rightarrow> thread_store \<Rightarrow> thread_store" where
  "retire_work_issues fate token listing work_labels s =
     (if \<not> token then s
      else snd (fold (retire_open_work_issues fate listing work_labels) work_labels ({}, s)))"
section \<open>One write at a time\<close>

lemma comments_differ [simp]:
  "work_ack_comment n l \<noteq> work_unrouted_comment" "work_unauthorized_comment a n c t \<noteq> work_unrouted_comment"
  "work_unauthorized_comment a n c t \<noteq> work_ack_comment n' l" "work_ack_comment n' l \<noteq> work_unauthorized_comment a n c t"
  by (simp_all add: work_ack_comment_def work_unrouted_comment_def work_unauthorized_comment_def)

lemma labels_differ [simp]:
  "WORK_PICKED_UP_LABEL \<noteq> WORK_UNAUTHORIZED_LABEL" "WORK_PICKED_UP_LABEL \<noteq> WORK_UNROUTED_LABEL"
  "WORK_UNAUTHORIZED_LABEL \<noteq> WORK_UNROUTED_LABEL" "WORK_UNAUTHORIZED_LABEL \<noteq> WORK_PICKED_UP_LABEL"
  "WORK_UNROUTED_LABEL \<noteq> WORK_PICKED_UP_LABEL" "WORK_UNROUTED_LABEL \<noteq> WORK_UNAUTHORIZED_LABEL"
  "SUBSTRATE_RETIRED_LABEL \<noteq> WORK_PICKED_UP_LABEL" "WORK_PICKED_UP_LABEL \<noteq> SUBSTRATE_RETIRED_LABEL"
  by (simp_all add: feedback_labels str_simps)

lemma send_write_other: "j \<noteq> i \<Longrightarrow> ts_threads (snd (send_write fate i w s)) j = ts_threads s j"
  by (simp add: send_write_def)

lemma label_then_comment_other: "j \<noteq> i \<Longrightarrow> ts_threads (label_then_comment fate i l c s) j = ts_threads s j"
  by (simp add: label_then_comment_def send_write_other split: prod.split) (metis send_write_other snd_conv)

lemmas feedback_defs = reject_issue_def clear_unauthorized_def flag_unrouted_def clear_unrouted_def ack_issue_def

lemma unrouted_feedback_other: "j \<noteq> im_number issue \<Longrightarrow> ts_threads (unrouted_feedback fate regs labels issue s) j = ts_threads s j"
  by (simp add: unrouted_feedback_def feedback_defs send_write_other label_then_comment_other Let_def)

lemma session_feedback_other:
  "j \<noteq> im_number issue \<Longrightarrow> ts_threads (session_feedback fate access bl reg labels issue s) j = ts_threads s j"
  by (simp add: session_feedback_def feedback_defs send_write_other label_then_comment_other Let_def)

text \<open>What an issue shows of its unrouted feedback: the latch, and how often the author was told.\<close>

definition unrouted_view :: "int \<Rightarrow> thread_store \<Rightarrow> bool \<times> nat" where
  "unrouted_view i s =
     (WORK_UNROUTED_LABEL \<in> th_labels (ts_threads s i), count_list (th_comments (ts_threads s i)) work_unrouted_comment)"

lemma send_write_view:
  "w \<noteq> PostComment work_unrouted_comment \<Longrightarrow> w \<noteq> AddLabel WORK_UNROUTED_LABEL \<Longrightarrow> w \<noteq> RemoveLabel WORK_UNROUTED_LABEL \<Longrightarrow>
   unrouted_view i (snd (send_write fate n w s)) = unrouted_view i s"
  by (cases w) (auto simp: unrouted_view_def send_write_def)

lemma session_feedback_view:
  "unrouted_view i (session_feedback fate access bl reg labels issue s) = unrouted_view i s"
proof -
  have "unrouted_view i (label_then_comment fate n WORK_UNAUTHORIZED_LABEL (work_unauthorized_comment a b c t) s) = unrouted_view i s"
    for n a b c t s
    by (simp add: label_then_comment_def Let_def case_prod_unfold send_write_view)
  then show ?thesis by (simp add: session_feedback_def feedback_defs send_write_view Let_def)
qed

lemma unrouted_feedback_view_other:
  "i \<noteq> im_number issue \<Longrightarrow> unrouted_view i (unrouted_feedback fate regs labels issue s) = unrouted_view i s"
  by (simp add: unrouted_view_def unrouted_feedback_other)

lemma unrouted_feedback_view_same:
  assumes "im_number issue = i" "\<not> routed_issue regs labels issue"
  shows "unrouted_view i (unrouted_feedback fate regs labels issue s) \<in>
    (if carries_label issue WORK_UNROUTED_LABEL then {unrouted_view i s}
     else {unrouted_view i s, (True, snd (unrouted_view i s)), (True, Suc (snd (unrouted_view i s)))})"
  using assms
  by (auto simp: unrouted_feedback_def flag_unrouted_def label_then_comment_def unrouted_view_def send_write_def Let_def)

lemma fold_view: "(\<And>x s. x \<in> set xs \<Longrightarrow> view (f x s) = view s) \<Longrightarrow> view (fold f xs s) = view s"
  by (induction xs arbitrary: s) auto

section \<open>The snapshot\<close>

definition listed :: "(str \<Rightarrow> issue_summary list option) \<Rightarrow> session_registration list \<Rightarrow> (str \<rightharpoonup> str list) \<Rightarrow> issue_metadata list" where
  "listed listing regs labels = collect_issues listing [] (collect_labels [] (concat (map (\<lambda>reg. labels_for reg labels) regs)))"

lemma collect_issues_distinct:
  assumes "distinct (map im_number issues)"
  shows "distinct (map im_number (collect_issues listing issues ls))"
proof -
  let ?add = "\<lambda>found acc. fold (\<lambda>issue acc. if su_number issue \<in> set (map im_number acc) then acc else acc @ [metadata issue]) found acc"
  have one: "distinct (map im_number (?add found acc))" if "distinct (map im_number acc)" for found acc
    using that
  proof (induction found arbitrary: acc)
    case (Cons x found)
    have "distinct (map im_number (if su_number x \<in> set (map im_number acc) then acc else acc @ [metadata x]))"
      using Cons.prems by (simp add: metadata_def)
    from Cons.IH [OF this] show ?case by simp
  qed simp
  show ?thesis using assms
  proof (induction ls arbitrary: issues)
    case (Cons l ls)
    show ?case
    proof (cases "listing l")
      case (Some found)
      show ?thesis using Cons.IH [OF one [OF Cons.prems, of found]] Some by simp
    qed (use Cons in simp)
  qed simp
qed

lemma listed_distinct: "distinct (map im_number (listed listing regs labels))"
  by (simp add: listed_def collect_issues_distinct)

lemma ack_pass_eq:
  "ack_open_work_issues fate access bl listing regs labels s =
     fold (\<lambda>reg. fold (session_feedback fate access bl reg (labels_for reg labels)) (listed listing regs labels)) regs
       (fold (unrouted_feedback fate regs labels) (if regs = [] then [] else listed listing regs labels) s)"
  by (simp add: ack_open_work_issues_def listed_def Let_def)

lemma unrouted_pass_view:
  assumes "distinct (map im_number issues)" "\<forall>issue \<in> set issues. im_number issue = i \<longrightarrow>
      \<not> routed_issue regs labels issue \<and> (carries_label issue WORK_UNROUTED_LABEL \<longleftrightarrow> fst (unrouted_view i s))"
  shows "unrouted_view i (fold (unrouted_feedback fate regs labels) issues s) \<in>
    (if fst (unrouted_view i s) then {unrouted_view i s}
     else {unrouted_view i s, (True, snd (unrouted_view i s)), (True, Suc (snd (unrouted_view i s)))})"
  using assms
proof (induction issues arbitrary: s)
  case (Cons m ms)
  show ?case
  proof (cases "im_number m = i")
    case True
    have "\<forall>m' \<in> set ms. im_number m' \<noteq> i"
      using Cons.prems(1) unfolding True [symmetric] by (metis distinct.simps(2) image_eqI list.set_map list.simps(9))
    then have "unrouted_view i (fold (unrouted_feedback fate regs labels) ms (unrouted_feedback fate regs labels m s)) =
        unrouted_view i (unrouted_feedback fate regs labels m s)"
      by (intro fold_view) (metis unrouted_feedback_view_other)
    then show ?thesis using unrouted_feedback_view_same [OF True, of regs labels fate s] Cons.prems(2) True by simp
  next
    case False
    then have v: "unrouted_view i (unrouted_feedback fate regs labels m s) = unrouted_view i s"
      by (intro unrouted_feedback_view_other) simp
    show ?thesis using Cons.IH [of "unrouted_feedback fate regs labels m s"] Cons.prems unfolding v by simp
  qed
qed simp

section \<open>An unrouted issue is told once\<close>

record ack_pass =
  ap_fate :: "nat \<Rightarrow> write_fate"
  ap_policy :: access_policy
  ap_bot :: "str option"
  ap_listing :: "str \<Rightarrow> issue_summary list option"
  ap_regs :: "session_registration list"
  ap_labels :: "str \<rightharpoonup> str list"

definition run_ack :: "ack_pass \<Rightarrow> thread_store \<Rightarrow> thread_store" where
  "run_ack p = ack_open_work_issues (ap_fate p) (ap_policy p) (ap_bot p) (ap_listing p) (ap_regs p) (ap_labels p)"

definition seen_by :: "ack_pass \<Rightarrow> issue_metadata set" where
  "seen_by p = set (listed (ap_listing p) (ap_regs p) (ap_labels p))"

text \<open>Every pass reads the unrouted latch of the issue as it is, and finds the issue routed to nobody.\<close>

fun stays_unrouted :: "int \<Rightarrow> ack_pass list \<Rightarrow> thread_store \<Rightarrow> bool" where
  "stays_unrouted i [] s \<longleftrightarrow> True"
| "stays_unrouted i (p # ps) s \<longleftrightarrow>
     (\<forall>issue \<in> seen_by p. im_number issue = i \<longrightarrow>
        \<not> routed_issue (ap_regs p) (ap_labels p) issue \<and>
        (carries_label issue WORK_UNROUTED_LABEL \<longleftrightarrow> WORK_UNROUTED_LABEL \<in> th_labels (ts_threads s i))) \<and>
     stays_unrouted i ps (run_ack p s)"

lemma run_ack_view:
  assumes "\<forall>issue \<in> seen_by p. im_number issue = i \<longrightarrow>
        \<not> routed_issue (ap_regs p) (ap_labels p) issue \<and>
        (carries_label issue WORK_UNROUTED_LABEL \<longleftrightarrow> WORK_UNROUTED_LABEL \<in> th_labels (ts_threads s i))"
  shows "unrouted_view i (run_ack p s) \<in>
    (if fst (unrouted_view i s) then {unrouted_view i s}
     else {unrouted_view i s, (True, snd (unrouted_view i s)), (True, Suc (snd (unrouted_view i s)))})"
proof -
  let ?issues = "if ap_regs p = [] then [] else listed (ap_listing p) (ap_regs p) (ap_labels p)"
  have "unrouted_view i (fold (\<lambda>reg. fold (session_feedback fate access bl reg (labels_for reg labels)) is) regs s) = unrouted_view i s"
    for fate access bl labels "is" regs s
    by (intro fold_view session_feedback_view)
  then have "unrouted_view i (run_ack p s) =
      unrouted_view i (fold (unrouted_feedback (ap_fate p) (ap_regs p) (ap_labels p)) ?issues s)"
    by (simp add: run_ack_def ack_pass_eq)
  moreover have "distinct (map im_number ?issues)" using listed_distinct by simp
  moreover have "\<forall>issue \<in> set ?issues. im_number issue = i \<longrightarrow> \<not> routed_issue (ap_regs p) (ap_labels p) issue \<and>
      (carries_label issue WORK_UNROUTED_LABEL \<longleftrightarrow> fst (unrouted_view i s))"
    using assms by (auto simp: seen_by_def unrouted_view_def split: if_splits)
  ultimately show ?thesis using unrouted_pass_view by metis
qed

text \<open>
  C8: an author is told at most once that an issue is routed to nobody. However many passes run, whichever of their
  writes are lost or reach GitHub without an answer, and whatever else the passes do to the issue and to others: while it
  stays unrouted and each pass reads its latch, at most one such comment is added; none if the latch was set before.
\<close>

theorem unrouted_told_once:
  assumes "stays_unrouted i passes s"
  shows "count_list (th_comments (ts_threads (fold run_ack passes s) i)) work_unrouted_comment \<le>
    count_list (th_comments (ts_threads s i)) work_unrouted_comment +
    (if WORK_UNROUTED_LABEL \<in> th_labels (ts_threads s i) then 0 else 1)"
proof -
  have "snd (unrouted_view i (fold run_ack passes s)) \<le> snd (unrouted_view i s) + (if fst (unrouted_view i s) then 0 else 1)"
    using assms
  proof (induction passes arbitrary: s)
    case (Cons p ps)
    have v: "unrouted_view i (run_ack p s) \<in>
    (if fst (unrouted_view i s) then {unrouted_view i s}
     else {unrouted_view i s, (True, snd (unrouted_view i s)), (True, Suc (snd (unrouted_view i s)))})"
      using Cons.prems by (intro run_ack_view) simp
    have "snd (unrouted_view i (fold run_ack ps (run_ack p s))) \<le>
        snd (unrouted_view i (run_ack p s)) + (if fst (unrouted_view i (run_ack p s)) then 0 else 1)"
      using Cons.prems by (intro Cons.IH) simp
    then show ?case using v by (auto split: if_splits)
  qed simp
  then show ?thesis by (simp add: unrouted_view_def)
qed
section \<open>Feedback settles\<close>

definition feedback_latches :: "str set" where
  "feedback_latches = {WORK_UNROUTED_LABEL, WORK_UNAUTHORIZED_LABEL, WORK_PICKED_UP_LABEL}"

definition thread_labels :: "thread_store \<Rightarrow> issue_metadata \<Rightarrow> str set" where
  "thread_labels s issue = th_labels (ts_threads s (im_number issue))"

definition served :: "(str \<rightharpoonup> str list) \<Rightarrow> issue_metadata \<Rightarrow> session_registration \<Rightarrow> bool" where
  "served labels issue reg \<longleftrightarrow>
     issue_matches_labels issue (labels_for reg labels) \<and> route_work_issue issue (rg_creator_login reg) = Routed"

definition author_ok :: "access_policy \<Rightarrow> str option \<Rightarrow> issue_metadata \<Rightarrow> session_registration \<Rightarrow> bool" where
  "author_ok access bl issue reg = is_work_author_allowed_with_bot reg access (im_user_id issue) (im_user_login issue) bl"

text \<open>The latches an issue should carry.\<close>

definition settled ::
  "access_policy \<Rightarrow> str option \<Rightarrow> session_registration list \<Rightarrow> (str \<rightharpoonup> str list) \<Rightarrow> issue_metadata \<Rightarrow> str set \<Rightarrow> bool" where
  "settled access bl regs labels issue latches \<longleftrightarrow>
     (WORK_UNROUTED_LABEL \<in> latches \<longleftrightarrow> \<not> (\<exists>reg \<in> set regs. served labels issue reg)) \<and>
     (\<forall>reg \<in> set regs. served labels issue reg \<longrightarrow>
        (if author_ok access bl issue reg then WORK_UNAUTHORIZED_LABEL \<notin> latches \<and> WORK_PICKED_UP_LABEL \<in> latches
         else WORK_UNAUTHORIZED_LABEL \<in> latches))"

lemma routed_issue_served: "routed_issue regs labels issue \<longleftrightarrow> (\<exists>reg \<in> set regs. served labels issue reg)"
  by (auto simp: routed_issue_def served_def list_ex_iff)

lemma settled_is_silent:
  assumes "settled access bl regs labels issue {l \<in> feedback_latches. carries_label issue l}"
  shows "unrouted_feedback fate regs labels issue s = s"
    "reg \<in> set regs \<Longrightarrow> session_feedback fate access bl reg (labels_for reg labels) issue s = s"
  using assms
  by (auto simp: settled_def feedback_latches_def unrouted_feedback_def session_feedback_def routed_issue_served served_def
      author_ok_def Let_def split: if_splits)

lemma settled_pass_is_silent:
  assumes "\<forall>issue \<in> set (listed listing regs labels). settled access bl regs labels issue {l \<in> feedback_latches. carries_label issue l}"
  shows "ack_open_work_issues fate access bl listing regs labels s = s"
proof -
  have a: "fold (unrouted_feedback fate regs labels) ms s = s"
    if "set ms \<subseteq> set (listed listing regs labels)" for ms s
    using that
  proof (induction ms arbitrary: s)
    case (Cons m ms)
    then show ?case using settled_is_silent(1) [OF bspec [OF assms, of m]] by simp
  qed simp
  have b: "fold (session_feedback fate access bl reg (labels_for reg labels)) ms s = s"
    if "set ms \<subseteq> set (listed listing regs labels)" "reg \<in> set regs" for ms s reg
    using that(1)
  proof (induction ms arbitrary: s)
    case (Cons m ms)
    then show ?case using settled_is_silent(2) [OF bspec [OF assms, of m] that(2)] by simp
  qed simp
  have c: "fold (\<lambda>reg. fold (session_feedback fate access bl reg (labels_for reg labels)) (listed listing regs labels)) rs s = s"
    if "set rs \<subseteq> set regs" for rs s
    using that by (induction rs arbitrary: s) (simp_all add: b)
  show ?thesis unfolding ack_pass_eq using a [of "if regs = [] then [] else listed listing regs labels"] c by simp
qed

text \<open>Writes that reach GitHub.\<close>

definition all_reach :: "nat \<Rightarrow> write_fate" where "all_reach n = Reached"

lemma send_write_reach [simp]:
  "send_write all_reach i w s =
     (True, s\<lparr>ts_threads := (ts_threads s)(i := apply_write w (ts_threads s i)), ts_sent := Suc (ts_sent s)\<rparr>)"
  by (simp add: send_write_def all_reach_def)

lemma unrouted_feedback_settles:
  assumes "carries_label issue WORK_UNROUTED_LABEL \<longleftrightarrow> WORK_UNROUTED_LABEL \<in> thread_labels s issue"
  shows "WORK_UNROUTED_LABEL \<in> thread_labels (unrouted_feedback all_reach regs labels issue s) issue \<longleftrightarrow>
      \<not> routed_issue regs labels issue"
    "l \<noteq> WORK_UNROUTED_LABEL \<Longrightarrow>
     l \<in> thread_labels (unrouted_feedback all_reach regs labels issue s) issue \<longleftrightarrow> l \<in> thread_labels s issue"
  using assms
  by (auto simp: unrouted_feedback_def feedback_defs label_then_comment_def thread_labels_def Let_def)

lemma unrouted_stage:
  assumes "distinct (map im_number ms)" "issue \<in> set ms"
    "carries_label issue WORK_UNROUTED_LABEL \<longleftrightarrow> WORK_UNROUTED_LABEL \<in> thread_labels s issue"
  shows "(WORK_UNROUTED_LABEL \<in> thread_labels (fold (unrouted_feedback all_reach regs labels) ms s) issue \<longleftrightarrow>
      \<not> routed_issue regs labels issue) \<and>
    (\<forall>l. l \<noteq> WORK_UNROUTED_LABEL \<longrightarrow>
      (l \<in> thread_labels (fold (unrouted_feedback all_reach regs labels) ms s) issue \<longleftrightarrow> l \<in> thread_labels s issue))"
  using assms
proof (induction ms arbitrary: s)
  case (Cons m ms)
  have other: "thread_labels (fold (unrouted_feedback all_reach regs labels) ns t) issue = thread_labels t issue"
    if "\<forall>n \<in> set ns. im_number n \<noteq> im_number issue" for ns t
    using that by (induction ns arbitrary: t) (auto simp: thread_labels_def unrouted_feedback_other)
  show ?case
  proof (cases "m = issue")
    case True
    have "\<forall>n \<in> set ms. im_number n \<noteq> im_number issue"
      using Cons.prems(1) unfolding True by (metis distinct.simps(2) image_eqI list.set_map list.simps(9))
    then show ?thesis using unrouted_feedback_settles [OF Cons.prems(3)] True by (simp add: other)
  next
    case False
    then have mem: "issue \<in> set ms" using Cons.prems(2) by simp
    then have "im_number m \<noteq> im_number issue"
      using Cons.prems(1) by (metis distinct.simps(2) image_eqI list.set_map list.simps(9))
    then have same: "thread_labels (unrouted_feedback all_reach regs labels m s) issue = thread_labels s issue"
      by (simp add: thread_labels_def unrouted_feedback_other)
    show ?thesis using Cons.IH [of "unrouted_feedback all_reach regs labels m s"] Cons.prems mem unfolding same by simp
  qed
qed simp

text \<open>What holds of an issue while the sessions look at it, and what one session that serves it establishes.\<close>

definition fits :: "bool \<Rightarrow> issue_metadata \<Rightarrow> thread_store \<Rightarrow> bool" where
  "fits ok issue s \<longleftrightarrow>
     (if ok then (WORK_UNAUTHORIZED_LABEL \<in> thread_labels s issue \<longrightarrow> carries_label issue WORK_UNAUTHORIZED_LABEL) \<and>
                 (carries_label issue WORK_PICKED_UP_LABEL \<longrightarrow> WORK_PICKED_UP_LABEL \<in> thread_labels s issue)
      else carries_label issue WORK_UNAUTHORIZED_LABEL \<longrightarrow> WORK_UNAUTHORIZED_LABEL \<in> thread_labels s issue)"

definition fed_back :: "bool \<Rightarrow> issue_metadata \<Rightarrow> thread_store \<Rightarrow> bool" where
  "fed_back ok issue s \<longleftrightarrow>
     (if ok then WORK_UNAUTHORIZED_LABEL \<notin> thread_labels s issue \<and> WORK_PICKED_UP_LABEL \<in> thread_labels s issue
      else WORK_UNAUTHORIZED_LABEL \<in> thread_labels s issue)"

lemma fed_back_fits: "fed_back ok issue s \<Longrightarrow> fits ok issue s"
  by (auto simp: fed_back_def fits_def split: if_splits)

lemma session_feedback_step:
  assumes "served labels issue reg \<longrightarrow> author_ok access bl issue reg = ok"
    and s'_def: "s' = session_feedback all_reach access bl reg (labels_for reg labels) issue s"
  shows "fits ok issue s \<Longrightarrow> fits ok issue s'" "fed_back ok issue s \<Longrightarrow> fed_back ok issue s'"
    "served labels issue reg \<Longrightarrow> fits ok issue s \<Longrightarrow> fed_back ok issue s'"
    "WORK_UNROUTED_LABEL \<in> thread_labels s' issue \<longleftrightarrow> WORK_UNROUTED_LABEL \<in> thread_labels s issue"
  using assms
  by (cases ok; auto simp: session_feedback_def feedback_defs label_then_comment_def fits_def fed_back_def thread_labels_def served_def
      author_ok_def Let_def)+

lemma session_fold:
  assumes "distinct (map im_number ms)" "issue \<in> set ms" "served labels issue reg \<longrightarrow> author_ok access bl issue reg = ok"
    and s'_def: "s' = fold (session_feedback all_reach access bl reg (labels_for reg labels)) ms s"
  shows "fits ok issue s \<Longrightarrow> fits ok issue s'" "fed_back ok issue s \<Longrightarrow> fed_back ok issue s'"
    "served labels issue reg \<Longrightarrow> fits ok issue s \<Longrightarrow> fed_back ok issue s'"
    "WORK_UNROUTED_LABEL \<in> thread_labels s' issue \<longleftrightarrow> WORK_UNROUTED_LABEL \<in> thread_labels s issue"
proof -
  let ?f = "session_feedback all_reach access bl reg (labels_for reg labels)"
  have "ts_threads (fold ?f ms s) (im_number issue) = ts_threads (?f issue s) (im_number issue)"
    using assms(1,2)
  proof (induction ms arbitrary: s)
    case (Cons m ms)
    have other: "ts_threads (fold ?f ns t) (im_number issue) = ts_threads t (im_number issue)"
      if "\<forall>n \<in> set ns. im_number n \<noteq> im_number issue" for ns t
      using that by (induction ns arbitrary: t) (auto simp: session_feedback_other)
    have cong: "ts_threads (?f issue t) (im_number issue) = ts_threads (?f issue t') (im_number issue)"
      if "ts_threads t (im_number issue) = ts_threads t' (im_number issue)" for t t'
      using that by (simp add: session_feedback_def feedback_defs label_then_comment_def Let_def)
    show ?case
    proof (cases "m = issue")
      case True
      have "\<forall>n \<in> set ms. im_number n \<noteq> im_number issue"
        using Cons.prems(1) unfolding True by (metis distinct.simps(2) image_eqI list.set_map list.simps(9))
      then show ?thesis using True by (simp add: other)
    next
      case False
      then have mem: "issue \<in> set ms" using Cons.prems(2) by simp
      then have ne: "im_number m \<noteq> im_number issue"
        using Cons.prems(1) by (metis distinct.simps(2) image_eqI list.set_map list.simps(9))
      have "ts_threads (fold ?f ms (?f m s)) (im_number issue) = ts_threads (?f issue (?f m s)) (im_number issue)"
        using Cons.IH Cons.prems(1) mem by simp
      also have "\<dots> = ts_threads (?f issue s) (im_number issue)" by (rule cong) (simp add: session_feedback_other ne [symmetric])
      finally show ?thesis by simp
    qed
  qed simp
  then have t: "thread_labels s' issue = thread_labels (?f issue s) issue" by (simp add: s'_def thread_labels_def)
  show "fits ok issue s \<Longrightarrow> fits ok issue s'" "fed_back ok issue s \<Longrightarrow> fed_back ok issue s'"
    "served labels issue reg \<Longrightarrow> fits ok issue s \<Longrightarrow> fed_back ok issue s'"
    "WORK_UNROUTED_LABEL \<in> thread_labels s' issue \<longleftrightarrow> WORK_UNROUTED_LABEL \<in> thread_labels s issue"
    using session_feedback_step [OF assms(3) refl, of s] unfolding t fits_def fed_back_def by auto
qed

lemma session_stage:
  assumes "distinct (map im_number ms)" "issue \<in> set ms"
    "\<forall>reg \<in> set regs. served labels issue reg \<longrightarrow> author_ok access bl issue reg = ok" and fits: "fits ok issue s"
    and s'_def: "s' = fold (\<lambda>reg. fold (session_feedback all_reach access bl reg (labels_for reg labels)) ms) regs s"
  shows "(\<exists>reg \<in> set regs. served labels issue reg) \<Longrightarrow> fed_back ok issue s'"
    "WORK_UNROUTED_LABEL \<in> thread_labels s' issue \<longleftrightarrow> WORK_UNROUTED_LABEL \<in> thread_labels s issue"
proof -
  let ?g = "\<lambda>reg. fold (session_feedback all_reach access bl reg (labels_for reg labels)) ms"
  have "((\<exists>reg \<in> set rs. served labels issue reg) \<or> fed_back ok issue t \<longrightarrow> fed_back ok issue (fold ?g rs t)) \<and>
     (WORK_UNROUTED_LABEL \<in> thread_labels (fold ?g rs t) issue \<longleftrightarrow> WORK_UNROUTED_LABEL \<in> thread_labels t issue)"
    if "set rs \<subseteq> set regs" "fits ok issue t" for rs t
    using that
  proof (induction rs arbitrary: t)
    case (Cons r rs)
    have r: "served labels issue r \<longrightarrow> author_ok access bl issue r = ok" using assms(3) Cons.prems(1) by auto
    note step = session_fold [OF assms(1,2) r refl, of t]
    show ?case using Cons.IH [of "?g r t"] Cons.prems step by auto
  qed simp
  from this [OF subset_refl fits]
  show "(\<exists>reg \<in> set regs. served labels issue reg) \<Longrightarrow> fed_back ok issue s'"
    "WORK_UNROUTED_LABEL \<in> thread_labels s' issue \<longleftrightarrow> WORK_UNROUTED_LABEL \<in> thread_labels s issue"
    unfolding s'_def by blast+
qed

text \<open>Every served issue is judged alike by all sessions that serve it.\<close>

definition one_verdict ::
  "access_policy \<Rightarrow> str option \<Rightarrow> session_registration list \<Rightarrow> (str \<rightharpoonup> str list) \<Rightarrow> issue_metadata \<Rightarrow> bool" where
  "one_verdict access bl regs labels issue \<longleftrightarrow>
     (\<forall>r \<in> set regs. \<forall>r' \<in> set regs. served labels issue r \<longrightarrow> served labels issue r' \<longrightarrow>
        author_ok access bl issue r = author_ok access bl issue r')"

text \<open>A later reading of an issue: nothing has changed but its feedback latches, which are those of the thread.\<close>

definition reread :: "thread_store \<Rightarrow> issue_metadata \<Rightarrow> issue_metadata \<Rightarrow> bool" where
  "reread s before after \<longleftrightarrow>
     im_number after = im_number before \<and> im_assignees after = im_assignees before \<and>
     im_user_login after = im_user_login before \<and> im_user_id after = im_user_id before \<and>
     set (im_labels after) - feedback_latches = set (im_labels before) - feedback_latches \<and>
     (\<forall>l \<in> feedback_latches. carries_label after l \<longleftrightarrow> l \<in> thread_labels s before)"

lemma reread_same:
  assumes "reread s before after" "\<forall>reg \<in> set regs. set (labels_for reg labels) \<inter> feedback_latches = {}" "reg \<in> set regs"
  shows "served labels after reg = served labels before reg" "author_ok access bl after reg = author_ok access bl before reg"
proof -
  have "l \<in> set (im_labels after) \<longleftrightarrow> l \<in> set (im_labels before)" if "l \<in> set (labels_for reg labels)" for l
    using assms that unfolding reread_def by blast
  then have "issue_matches_labels after (labels_for reg labels) = issue_matches_labels before (labels_for reg labels)"
    by (auto simp: issue_matches_labels_def list_ex_iff)
  then show "served labels after reg = served labels before reg"
    using assms(1) by (simp add: served_def reread_def route_work_issue_def)
  show "author_ok access bl after reg = author_ok access bl before reg"
    using assms(1) by (simp add: author_ok_def reread_def)
qed


text \<open>
  Two sessions that disagree: the author is rejected, then the rejection is withdrawn, and so on; every second pass posts
  another rejection, although no write fails.
\<close>

lemma split_verdict_flaps:
  assumes "served labels issue r" "served labels issue r'" "\<not> author_ok access bl issue r" "author_ok access bl issue r'"
    "carries_label issue WORK_PICKED_UP_LABEL"
  defines "f \<equiv> \<lambda>s. fold (\<lambda>reg. session_feedback all_reach access bl reg (labels_for reg labels) issue) [r, r'] s"
  shows "carries_label issue WORK_UNAUTHORIZED_LABEL \<Longrightarrow> WORK_UNAUTHORIZED_LABEL \<notin> thread_labels (f s) issue"
    "\<not> carries_label issue WORK_UNAUTHORIZED_LABEL \<Longrightarrow> WORK_UNAUTHORIZED_LABEL \<in> thread_labels (f s) issue \<and>
       th_comments (ts_threads (f s) (im_number issue)) = th_comments (ts_threads s (im_number issue)) @
         [work_unauthorized_comment (im_user_login issue) (df_name (rg_def r)) (rg_creator_login r) (rg_trigger_issue r)]"
  using assms(1-5) unfolding f_def
  by (auto simp: session_feedback_def feedback_defs label_then_comment_def served_def author_ok_def thread_labels_def Let_def)
section \<open>Retirement is announced once\<close>

lemma retire_issue_other: "j \<noteq> i \<Longrightarrow> ts_threads (retire_issue fate i ls s) j = ts_threads s j"
  by (simp add: retire_issue_def send_write_other)

lemma retire_issue_same:
  "th_comments (ts_threads (retire_issue fate i ls s) i) \<in>
     {th_comments (ts_threads s i), th_comments (ts_threads s i) @ [retire_notice_comment ls]}"
  by (auto simp: retire_issue_def send_write_def)

text \<open>The notices so far: an issue in the set has at most one more comment, another one is as it was.\<close>

definition retire_inv :: "str list \<Rightarrow> thread_store \<Rightarrow> int \<Rightarrow> int set \<times> thread_store \<Rightarrow> bool" where
  "retire_inv ls s i st \<longleftrightarrow>
     (if i \<in> fst st then th_comments (ts_threads (snd st) i) \<in>
          {th_comments (ts_threads s i), th_comments (ts_threads s i) @ [retire_notice_comment ls]}
      else ts_threads (snd st) i = ts_threads s i)"

lemma retire_one_inv: "retire_inv ls s i st \<Longrightarrow> retire_inv ls s i (retire_one fate ls issue st)"
proof (cases "su_number issue \<in> fst st \<or> SUBSTRATE_RETIRED_LABEL \<in> set (su_labels issue)")
  case False
  assume inv: "retire_inv ls s i st"
  show ?thesis
  proof (cases "i = su_number issue")
    case True
    then show ?thesis using inv False retire_issue_same [of fate i ls "snd st"] by (simp add: retire_inv_def retire_one_def)
  next
    case other: False
    then show ?thesis using inv False by (auto simp: retire_inv_def retire_one_def retire_issue_other split: if_splits)
  qed
qed (simp add: retire_one_def)

lemma retire_ones_inv: "retire_inv ls s i st \<Longrightarrow> retire_inv ls s i (fold (retire_one fate ls) issues st)"
  by (induction issues arbitrary: st) (simp_all add: retire_one_inv)

lemma retire_open_inv: "retire_inv ls s i st \<Longrightarrow> retire_inv ls s i (retire_open_work_issues fate listing ls l st)"
  by (simp add: retire_open_work_issues_def retire_ones_inv split: option.split)

lemma retire_labels_inv:
  "retire_inv ls s i st \<Longrightarrow> retire_inv ls s i (fold (retire_open_work_issues fate listing ls) labels st)"
  by (induction labels arbitrary: st) (simp_all add: retire_open_inv)

text \<open>What a listing that shows the latch makes of an issue: nothing.\<close>

lemma retired_is_skipped:
  assumes "\<forall>t label issues issue. listing t label = Some issues \<longrightarrow> issue \<in> set issues \<longrightarrow> su_number issue = i \<longrightarrow>
      SUBSTRATE_RETIRED_LABEL \<in> set (su_labels issue)"
  shows "ts_threads (snd (fold (retire_open_work_issues fate listing ls) labels st)) i = ts_threads (snd st) i"
proof -
  have one: "ts_threads (snd (fold (retire_one fate ls) issues st)) i = ts_threads (snd st) i"
    if "\<forall>issue \<in> set issues. su_number issue = i \<longrightarrow> SUBSTRATE_RETIRED_LABEL \<in> set (su_labels issue)" for issues st
    using that
  proof (induction issues arbitrary: st)
    case (Cons x xs)
    have "ts_threads (snd (retire_one fate ls x st)) i = ts_threads (snd st) i"
      using Cons.prems by (cases "su_number x = i") (simp_all add: retire_one_def retire_issue_other)
    then show ?case using Cons by simp
  qed simp
  have "ts_threads (snd (retire_open_work_issues fate listing ls l st)) i = ts_threads (snd st) i" for l st
    using assms one by (auto simp: retire_open_work_issues_def split: option.split)
  then show ?thesis by (induction labels arbitrary: st) simp_all
qed

text \<open>
  A retirement is announced at most once. However many labels of the session an issue carries, in whatever order the
  listings come and whichever writes fail, one retirement adds at most one notice to an issue and touches no other
  comment; an issue that the listings show with the retired latch is left alone.
\<close>

theorem retirement_told_once:
  shows "th_comments (ts_threads (retire_work_issues fate token listing labels s) i) \<in>
      {th_comments (ts_threads s i), th_comments (ts_threads s i) @ [retire_notice_comment labels]} \<and>
    ((\<forall>t label issues issue. listing t label = Some issues \<longrightarrow> issue \<in> set issues \<longrightarrow> su_number issue = i \<longrightarrow>
        SUBSTRATE_RETIRED_LABEL \<in> set (su_labels issue)) \<longrightarrow>
      ts_threads (retire_work_issues fate token listing labels s) i = ts_threads s i)"
proof
  have "retire_inv labels s i ({}, s)" by (simp add: retire_inv_def)
  from retire_labels_inv [OF this, of fate listing labels]
  show "th_comments (ts_threads (retire_work_issues fate token listing labels s) i) \<in>
      {th_comments (ts_threads s i), th_comments (ts_threads s i) @ [retire_notice_comment labels]}"
    by (auto simp: retire_inv_def retire_work_issues_def split: if_splits)
  show "(\<forall>t label issues issue. listing t label = Some issues \<longrightarrow> issue \<in> set issues \<longrightarrow> su_number issue = i \<longrightarrow>
        SUBSTRATE_RETIRED_LABEL \<in> set (su_labels issue)) \<longrightarrow>
      ts_threads (retire_work_issues fate token listing labels s) i = ts_threads s i"
    using retired_is_skipped [of listing i fate labels labels "({}, s)"] by (simp add: retire_work_issues_def)
qed

text \<open>No write of the acknowledgement removes the retired latch, so the next session's retirement is silent.\<close>

lemma ack_keeps_retired_latch:
  assumes "SUBSTRATE_RETIRED_LABEL \<in> th_labels (ts_threads s i)"
  shows "SUBSTRATE_RETIRED_LABEL \<in> th_labels (ts_threads (ack_open_work_issues fate access bl listing regs labels s) i)"
proof -
  have w: "SUBSTRATE_RETIRED_LABEL \<in> th_labels (ts_threads (snd (send_write fate n w t)) i)"
    if "SUBSTRATE_RETIRED_LABEL \<in> th_labels (ts_threads t i)" "w \<noteq> RemoveLabel SUBSTRATE_RETIRED_LABEL" for n w t
    using that by (cases w) (auto simp: send_write_def)
  have lc: "SUBSTRATE_RETIRED_LABEL \<in> th_labels (ts_threads (label_then_comment fate n l c t) i)"
    if "SUBSTRATE_RETIRED_LABEL \<in> th_labels (ts_threads t i)" for n l c t
    using that by (simp add: label_then_comment_def Let_def case_prod_unfold w)
  have ne: "WORK_UNAUTHORIZED_LABEL \<noteq> SUBSTRATE_RETIRED_LABEL" "WORK_UNROUTED_LABEL \<noteq> SUBSTRATE_RETIRED_LABEL"
    by (simp_all add: feedback_labels str_simps)
  have u: "SUBSTRATE_RETIRED_LABEL \<in> th_labels (ts_threads (unrouted_feedback fate regs labels m t) i)"
    if "SUBSTRATE_RETIRED_LABEL \<in> th_labels (ts_threads t i)" for m t
    using that by (simp add: unrouted_feedback_def feedback_defs Let_def w lc ne)
  have v: "SUBSTRATE_RETIRED_LABEL \<in> th_labels (ts_threads (session_feedback fate access bl reg ls m t) i)"
    if "SUBSTRATE_RETIRED_LABEL \<in> th_labels (ts_threads t i)" for m t reg ls
    using that by (simp add: session_feedback_def feedback_defs Let_def w lc ne)
  have fu: "SUBSTRATE_RETIRED_LABEL \<in> th_labels (ts_threads (fold (unrouted_feedback fate regs labels) ms t) i)"
    if "SUBSTRATE_RETIRED_LABEL \<in> th_labels (ts_threads t i)" for ms t
    using that by (induction ms arbitrary: t) (simp_all add: u)
  have fv: "SUBSTRATE_RETIRED_LABEL \<in> th_labels (ts_threads (fold (session_feedback fate access bl reg ls) ms t) i)"
    if "SUBSTRATE_RETIRED_LABEL \<in> th_labels (ts_threads t i)" for ms t reg ls
    using that by (induction ms arbitrary: t) (simp_all add: v)
  have "SUBSTRATE_RETIRED_LABEL \<in> th_labels (ts_threads
      (fold (\<lambda>reg. fold (session_feedback fate access bl reg (labels_for reg labels)) ms) rs t) i)"
    if "SUBSTRATE_RETIRED_LABEL \<in> th_labels (ts_threads t i)" for ms rs t
    using that by (induction rs arbitrary: t) (simp_all add: fv)
  then show ?thesis unfolding ack_pass_eq using fu assms by blast
qed

section \<open>A sample issue\<close>

definition idle_issue :: "str list \<Rightarrow> issue_summary" where
  "idle_issue ls =
     \<lparr>su_number = 5, su_title = [], su_body = [], su_labels = ls, su_state = lit ''open'', su_assignees = [],
      su_user_login = lit ''bob'', su_user_id = 3, su_created_at = 0\<rparr>"

definition blank_threads :: thread_store where
  "blank_threads = \<lparr>ts_threads = (\<lambda>_. \<lparr>th_labels = {}, th_comments = []\<rparr>), ts_sent = 0\<rparr>"

definition idle_pass :: "str list \<Rightarrow> ack_pass" where
  "idle_pass ls =
     \<lparr>ap_fate = all_reach, ap_policy = \<lparr>ap_entries = None, ap_blocked = None, ap_mode = None, ap_global_admins = []\<rparr>, ap_bot = None,
      ap_listing = (\<lambda>_. Some [idle_issue ls]), ap_regs = [sample_reg], ap_labels = [rg_session_id sample_reg \<mapsto> [lit ''dev'']]\<rparr>"

lemma idle_listed: "listed (\<lambda>_. Some [idle_issue ls]) [sample_reg] [rg_session_id sample_reg \<mapsto> [lit ''dev'']] = [metadata (idle_issue ls)]"
  by (simp add: listed_def labels_for_def)

lemma idle_fields [simp]:
  "im_number (metadata (idle_issue ls)) = 5" "im_labels (metadata (idle_issue ls)) = ls"
  "carries_label (metadata (idle_issue ls)) l \<longleftrightarrow> l \<in> set ls"
  by (simp_all add: carries_label_def metadata_def idle_issue_def)

lemma idle_unrouted: "\<not> routed_issue [sample_reg] m (metadata (idle_issue ls))"
  by (simp add: routed_issue_def route_work_issue_def metadata_def idle_issue_def)

lemma idle_session: "session_feedback fate access bl reg labels (metadata (idle_issue ls)) s = s"
  by (simp add: session_feedback_def route_work_issue_def metadata_def idle_issue_def)

lemma run_idle:
  "run_ack (idle_pass ls) s =
     (if WORK_UNROUTED_LABEL \<in> set ls then s else flag_unrouted all_reach 5 s)"
  by (simp add: run_ack_def ack_pass_eq idle_pass_def idle_listed idle_session unrouted_feedback_def idle_unrouted Let_def)

theorem unrouted_told_once_witness:
  "th_comments (ts_threads (fold run_ack [idle_pass [], idle_pass [WORK_UNROUTED_LABEL]] blank_threads) 5) = [work_unrouted_comment]"
proof -
  let ?ps = "[idle_pass [], idle_pass [WORK_UNROUTED_LABEL]]"
  have seen: "seen_by (idle_pass ls) = {metadata (idle_issue ls)}" for ls
    unfolding seen_by_def by (simp add: idle_pass_def idle_listed)
  have regs: "ap_regs (idle_pass ls) = [sample_reg]" for ls by (simp add: idle_pass_def)
  have "stays_unrouted 5 ?ps blank_threads"
    by (simp add: seen regs idle_unrouted run_idle flag_unrouted_def label_then_comment_def blank_threads_def)
  from unrouted_told_once [OF this] show ?thesis
    by (simp add: run_idle flag_unrouted_def label_then_comment_def blank_threads_def)
qed

theorem retirement_told_once_witness:
  "th_comments (ts_threads (retire_work_issues all_reach True (\<lambda>_ _. Some [idle_issue [SUBSTRATE_RETIRED_LABEL]]) [lit ''dev''] blank_threads) 5) = []"
proof -
  have "ts_threads (retire_work_issues all_reach True (\<lambda>_ _. Some [idle_issue [SUBSTRATE_RETIRED_LABEL]]) [lit ''dev''] blank_threads) 5 =
      ts_threads blank_threads 5"
    using retirement_told_once [of all_reach True "\<lambda>_ _. Some [idle_issue [SUBSTRATE_RETIRED_LABEL]]" "[lit ''dev'']" blank_threads 5]
    by (simp add: idle_issue_def)
  then show ?thesis by (simp add: blank_threads_def)
qed

section \<open>The label set on the wire\<close>

text \<open>
  The labels a runtime carries are read back as they were written: trimmed, without blanks and repetitions, in the order
  of their first occurrence, as long as no label has a comma.
\<close>

theorem work_labels_roundtrip:
  assumes "\<forall>l \<in> set labels. ch (CHR '','') \<notin> set l"
  shows "split_work_labels (join_work_labels labels) = rev (remdups (rev (filter (\<lambda>l. l \<noteq> []) (map trim labels))))"
proof -
  let ?step = "\<lambda>label seen. let t = trim label in if t \<noteq> [] \<and> t \<notin> set seen then seen @ [t] else seen"
  let ?out = "fold ?step labels []"
  have out: "fold ?step ls [] = rev (remdups (rev (filter (\<lambda>l. l \<noteq> []) (map trim ls))))" for ls
    by (induction ls rule: rev_induct) (auto simp: Let_def)
  have mem: "\<forall>t \<in> set ?out. t \<noteq> [] \<and> ch (CHR '','') \<notin> set t \<and> trim t = t"
    unfolding out
  proof
    fix t assume "t \<in> set (rev (remdups (rev (filter (\<lambda>l. l \<noteq> []) (map trim labels)))))"
    then obtain l where l: "l \<in> set labels" "t = trim l" "t \<noteq> []" by auto
    then show "t \<noteq> [] \<and> ch (CHR '','') \<notin> set t \<and> trim t = t"
      using assms subsetD [OF set_trim, of _ l] by auto
  qed
  have "split_work_labels (join_work_labels labels) = ?out"
  proof (cases "?out = []")
    case True
    have "filter (\<lambda>t. t \<noteq> []) (map trim (split (ch (CHR '','')) [])) = []" by (simp add: RustStr.split_def)
    then show ?thesis unfolding join_work_labels_def split_work_labels_def True join.simps .
  next
    case False
    have a: "split (ch (CHR '','')) (join [ch (CHR '','')] ?out) = ?out"
      by (rule split_join [OF False]) (use mem in blast)
    have b: "map trim ?out = ?out" by (rule map_idI) (use mem in blast)
    have c: "filter (\<lambda>t. t \<noteq> []) ?out = ?out" unfolding filter_id_conv using mem by blast
    show ?thesis unfolding join_work_labels_def split_work_labels_def a b c ..
  qed
  also have "\<dots> = rev (remdups (rev (filter (\<lambda>l. l \<noteq> []) (map trim labels))))" by (rule out)
  finally show ?thesis .
qed
end
