(* ===== verification/Viewer.thy ===== *)
theory Viewer
  imports SessionRegistry
begin

text \<open>
  The operations viewer: the scope a verified caller may select (\<open>backend/src/session_access/viewer.rs\<close>), the
  gate in front of one session (\<open>backend/src/session_access/gate.rs\<close>) and the row-visibility constraint of an
  activity query (\<open>backend/src/session_access/activity.rs\<close>).

  The constructors of the Rust types are sealed; here the sealed values are reached only through
  \<open>resolve_scope\<close>, \<open>authorize_lifecycle_session\<close> and \<open>for_scope\<close>. Verification of the bearer token is not
  modelled: a viewer is built from a verified identity.
\<close>

section \<open>Scopes\<close>

record authenticated_viewer =
  av_user :: verified_caller
  av_global_admin :: bool

definition new_viewer :: "verified_caller \<Rightarrow> access_policy \<Rightarrow> authenticated_viewer" where
  "new_viewer user access = \<lparr>av_user = user, av_global_admin = is_global_admin access (vc_id user) (vc_login user)\<rparr>"

definition viewer_id :: "authenticated_viewer \<Rightarrow> int" where
  "viewer_id viewer = vc_id (av_user viewer)"

datatype requested_scope = Personal | Global

record scope_request =
  sq_requested :: "requested_scope option"
  sq_cross_actor_filter :: bool

definition new_scope_request :: "requested_scope option \<Rightarrow> scope_request" where
  "new_scope_request requested = \<lparr>sq_requested = requested, sq_cross_actor_filter = False\<rparr>"

definition with_cross_actor_filter :: "scope_request \<Rightarrow> scope_request" where
  "with_cross_actor_filter request = request\<lparr>sq_cross_actor_filter := True\<rparr>"

text \<open>A scope carries the id and the login of the identity behind it.\<close>

datatype viewer_scope = ScopeMine int str | ScopeAll int str

fun scope_as_str :: "viewer_scope \<Rightarrow> str" where
  "scope_as_str (ScopeMine _ _) = lit ''mine''"
| "scope_as_str (ScopeAll _ _) = lit ''all''"

fun is_global :: "viewer_scope \<Rightarrow> bool" where
  "is_global (ScopeMine _ _) = False"
| "is_global (ScopeAll _ _) = True"

fun identity_id :: "viewer_scope \<Rightarrow> int" where
  "identity_id (ScopeMine i _) = i"
| "identity_id (ScopeAll i _) = i"

datatype scope_denial_reason = GlobalScopeForbidden | CrossActorForbidden

definition personal_scope :: "authenticated_viewer \<Rightarrow> viewer_scope" where
  "personal_scope viewer = ScopeMine (vc_id (av_user viewer)) (vc_login (av_user viewer))"

definition global_scope :: "authenticated_viewer \<Rightarrow> viewer_scope" where
  "global_scope viewer = ScopeAll (vc_id (av_user viewer)) (vc_login (av_user viewer))"

definition resolve_scope :: "authenticated_viewer \<Rightarrow> scope_request \<Rightarrow> scope_denial_reason + viewer_scope" where
  "resolve_scope viewer request =
     (if sq_cross_actor_filter request \<and> \<not> av_global_admin viewer then Inl CrossActorForbidden
      else case sq_requested request of
             Some Global \<Rightarrow>
               if \<not> av_global_admin viewer then Inl GlobalScopeForbidden else Inr (global_scope viewer)
           | Some Personal \<Rightarrow> Inr (personal_scope viewer)
           | None \<Rightarrow> if av_global_admin viewer then Inr (global_scope viewer) else Inr (personal_scope viewer))"

text \<open>The classification of one resolution, as \<open>/metrics\<close> counts it.\<close>

datatype scope_outcome = MineDefault | MineExplicit | AllDefault | AllExplicit | AllForbidden | CrossActorRefused

definition scope_outcome_of :: "scope_request \<Rightarrow> scope_denial_reason + viewer_scope \<Rightarrow> scope_outcome" where
  "scope_outcome_of request resolved =
     (case resolved of
        Inl GlobalScopeForbidden \<Rightarrow> AllForbidden
      | Inl CrossActorForbidden \<Rightarrow> CrossActorRefused
      | Inr scope \<Rightarrow>
          (case (is_global scope, sq_requested request) of
             (True, Some Global) \<Rightarrow> AllExplicit
           | (True, _) \<Rightarrow> AllDefault
           | (False, Some Personal) \<Rightarrow> MineExplicit
           | (False, _) \<Rightarrow> MineDefault))"

section \<open>The gate in front of one session\<close>

datatype gate_error = SandboxNotFound | SessionVisibilityUnavailable

definition visibility_request ::
  "authenticated_viewer \<Rightarrow> viewer_scope \<Rightarrow> access_policy \<Rightarrow> str list \<Rightarrow> session_access_context \<Rightarrow> session_access_request" where
  "visibility_request viewer scope access legacy_log_admins c =
     (let request = new_request OperationsVisibility (av_user viewer) (facts c)
            \<lparr>pe_access = access, pe_legacy_log_admins = legacy_log_admins, pe_github_bot_login = None\<rparr>
      in if \<not> is_global scope then without_global_admin request else request)"

definition authorize_session_visibility ::
  "registry \<Rightarrow> authenticated_viewer \<Rightarrow> viewer_scope \<Rightarrow> access_policy \<Rightarrow> str list \<Rightarrow> str \<Rightarrow>
   gate_error + session_access_decision" where
  "authorize_session_visibility r viewer scope access legacy_log_admins session_id =
     (case lookup r session_id of
        Found c \<Rightarrow>
          (let decision = decide_access (visibility_request viewer scope access legacy_log_admins c)
           in if sd_allowed decision then Inr decision else Inl SandboxNotFound)
      | Unknown \<Rightarrow> Inl SandboxNotFound
      | Unavailable \<Rightarrow> Inl SessionVisibilityUnavailable)"

section \<open>Activity constraints\<close>

text \<open>An \<open>AuthorizedSessionId\<close> is the session id an allowing decision was taken for.\<close>

definition authorize_lifecycle_session :: "str \<Rightarrow> session_access_decision \<Rightarrow> str option" where
  "authorize_lifecycle_session session_id decision = (if sd_allowed decision then Some session_id else None)"

datatype activity_constraint = OnlyMine int "str option" | Everything int

fun for_scope :: "viewer_scope \<Rightarrow> str option \<Rightarrow> activity_constraint" where
  "for_scope (ScopeMine i _) lifecycle_session = OnlyMine i lifecycle_session"
| "for_scope (ScopeAll i _) _ = Everything i"

fun constraint_as_str :: "activity_constraint \<Rightarrow> str" where
  "constraint_as_str (OnlyMine _ _) = lit ''mine''"
| "constraint_as_str (Everything _) = lit ''all''"

fun required_actor_id :: "activity_constraint \<Rightarrow> int option" where
  "required_actor_id (OnlyMine i _) = Some i"
| "required_actor_id (Everything _) = None"

section \<open>Properties\<close>

text \<open>Who sees one session: a direct tier, or the administrator who selected the global scope.\<close>

definition sees_session ::
  "authenticated_viewer \<Rightarrow> viewer_scope \<Rightarrow> access_policy \<Rightarrow> str list \<Rightarrow> session_access_context \<Rightarrow> bool" where
  "sees_session viewer scope access legacy_log_admins c \<longleftrightarrow>
     (let i = vc_id (av_user viewer); login = vc_login (av_user viewer)
      in allows access i login \<and>
         (creator_matches (facts c) i login \<or> matches_any (sa_collaborators c) (show_int i) login \<or>
          matches_any (sa_log_access c) (show_int i) login \<or> matches_any legacy_log_admins (show_int i) login \<or>
          is_global scope \<and> is_global_admin access i login))"

lemma visibility_decision:
  "sd_allowed (decide_access (visibility_request viewer scope access admins c)) \<longleftrightarrow> sees_session viewer scope access admins c"
  by (auto simp: visibility_request_def sees_session_def decide_access_def operations_visibility_def new_request_def
      without_global_admin_def facts_def allow_def deny_def Let_def)

text \<open>
  The gate is no oracle. Its answer is one function of three cases: the projection is not ready, the
  session is visible to this viewer, or anything else. Whether a session that the viewer may not see exists
  never changes the answer, and in the personal scope an administrator has no more than their direct tiers.
\<close>

theorem session_gate_answer:
  "authorize_session_visibility r viewer scope access admins s =
     (if rs_state r \<noteq> Ready then Inl SessionVisibilityUnavailable
      else case rs_contexts r s of
             Some c \<Rightarrow>
               if sees_session viewer scope access admins c
               then Inr (decide_access (visibility_request viewer scope access admins c)) else Inl SandboxNotFound
           | None \<Rightarrow> Inl SandboxNotFound)"
  by (simp add: authorize_session_visibility_def lookup_def is_ready_state_def visibility_decision Let_def split: option.split)

lemma resolve_scope_identity:
  "resolve_scope viewer request = Inr scope \<Longrightarrow> identity_id scope = viewer_id viewer \<and> (is_global scope \<longrightarrow> av_global_admin viewer)"
  by (auto simp: resolve_scope_def personal_scope_def global_scope_def viewer_id_def
      split: if_splits option.splits requested_scope.splits)

end
