(* ===== verification/ActivityMerge.thy ===== *)
theory ActivityMerge
  imports Viewer "HOL-Library.Product_Lexorder" "HOL-Library.Multiset"
begin

text \<open>
  One page of historical activity: the records two sources hold (\<open>backend/src/operations/record.rs\<close>), a source's
  answer (\<open>backend/src/operations/source.rs\<close>), the merge of two answers into a page
  (\<open>backend/src/operations/merge.rs\<close>) and the admission of queries (\<open>backend/src/operations/limits.rs\<close>).

  What a source answers with is an argument. The contract of a source, as \<open>source.rs\<close> states it, is the
  predicate \<open>answers\<close>; nothing about visibility rests on it.
\<close>

section \<open>Records\<close>

datatype activity_source_kind = Posthog | Relay

datatype delivery_state = VerifiedInPosthog | AcceptedPendingVerification | Queued | Incomplete | DeadLetter

fun delivery_state_as_str :: "delivery_state \<Rightarrow> str" where
  "delivery_state_as_str VerifiedInPosthog = lit ''verified_in_posthog''"
| "delivery_state_as_str AcceptedPendingVerification = lit ''accepted_pending_verification''"
| "delivery_state_as_str Queued = lit ''queued''"
| "delivery_state_as_str Incomplete = lit ''incomplete''"
| "delivery_state_as_str DeadLetter = lit ''dead_letter''"

text \<open>The derived order: the position of the variant.\<close>

fun severity :: "delivery_state \<Rightarrow> nat" where
  "severity VerifiedInPosthog = 0"
| "severity AcceptedPendingVerification = 1"
| "severity Queued = 2"
| "severity Incomplete = 3"
| "severity DeadLetter = 4"

lemma severity_inj: "severity a = severity b \<Longrightarrow> a = b"
  by (cases a; cases b) auto

instantiation delivery_state :: linorder
begin

definition less_eq_delivery_state :: "delivery_state \<Rightarrow> delivery_state \<Rightarrow> bool" where
  "less_eq_delivery_state a b \<longleftrightarrow> severity a \<le> severity b"

definition less_delivery_state :: "delivery_state \<Rightarrow> delivery_state \<Rightarrow> bool" where
  "less_delivery_state a b \<longleftrightarrow> severity a < severity b"

instance
  by standard (auto simp: less_eq_delivery_state_def less_delivery_state_def intro: severity_inj)

end

text \<open>JSON values, as a record carries them verbatim.\<close>

datatype json_value =
    ValueNull | ValueBool bool | ValueNumber str | ValueString str | ValueArray "json_value list"
  | ValueObject "(str \<times> json_value) list"

record record_actor =
  ra_kind :: "str option"
  ra_id :: "int option"
  ra_login :: "str option"

record record_principal =
  rp_kind :: "str option"
  rp_id :: "str option"

record record_correlation =
  co_session_id :: "str option"
  co_repo_full_name :: "str option"
  co_installation_id :: "int option"
  co_trigger_issue :: "int option"
  co_request_id :: "str option"
  co_webhook_delivery_id :: "str option"

record api_request_record =
  aq_event_id :: str
  aq_request_id :: "str option"
  aq_started_at :: "int option"
  aq_completed_at :: int
  aq_method :: str
  aq_route_template :: str
  aq_operation_id :: str
  aq_actor :: record_actor
  aq_principal :: record_principal
  aq_arguments :: "(str, json_value) btree_map"
  aq_arguments_parse_status :: "str option"
  aq_status_code :: "nat option"
  aq_outcome :: str
  aq_error_code :: "str option"
  aq_duration_ms :: "nat option"
  aq_correlation :: record_correlation

record sandbox_lifecycle_record =
  sl_event_id :: str
  sl_occurred_at :: int
  sl_lifecycle_action :: str
  sl_actor :: record_actor
  sl_principal :: record_principal
  sl_session_id :: str
  sl_backend :: "str option"
  sl_runtime_id :: "str option"
  sl_creator_id :: "int option"
  sl_creator_login :: "str option"
  sl_trigger_author_id :: "int option"
  sl_trigger_author_login :: "str option"
  sl_created_at :: "int option"
  sl_reason_code :: "str option"
  sl_correlation :: record_correlation

datatype activity_record =
    ApiRequest api_request_record delivery_state activity_source_kind
  | SandboxLifecycle sandbox_lifecycle_record delivery_state activity_source_kind

fun event_id :: "activity_record \<Rightarrow> str" where
  "event_id (ApiRequest r _ _) = aq_event_id r"
| "event_id (SandboxLifecycle r _ _) = sl_event_id r"

fun sort_timestamp :: "activity_record \<Rightarrow> int" where
  "sort_timestamp (ApiRequest r _ _) = aq_completed_at r"
| "sort_timestamp (SandboxLifecycle r _ _) = sl_occurred_at r"

fun actor_id :: "activity_record \<Rightarrow> int option" where
  "actor_id (ApiRequest r _ _) = ra_id (aq_actor r)"
| "actor_id (SandboxLifecycle r _ _) = ra_id (sl_actor r)"

fun record_session_id :: "activity_record \<Rightarrow> str option" where
  "record_session_id (ApiRequest r _ _) = co_session_id (aq_correlation r)"
| "record_session_id (SandboxLifecycle r _ _) = Some (sl_session_id r)"

fun is_lifecycle :: "activity_record \<Rightarrow> bool" where
  "is_lifecycle (ApiRequest _ _ _) = False"
| "is_lifecycle (SandboxLifecycle _ _ _) = True"

fun record_source :: "activity_record \<Rightarrow> activity_source_kind" where
  "record_source (ApiRequest _ _ s) = s"
| "record_source (SandboxLifecycle _ _ s) = s"

fun delivery_of :: "activity_record \<Rightarrow> delivery_state" where
  "delivery_of (ApiRequest _ d _) = d"
| "delivery_of (SandboxLifecycle _ d _) = d"

fun with_delivery :: "delivery_state \<Rightarrow> activity_record \<Rightarrow> activity_record" where
  "with_delivery d (ApiRequest r _ s) = ApiRequest r d s"
| "with_delivery d (SandboxLifecycle r _ s) = SandboxLifecycle r d s"

definition merge_delivery :: "delivery_state \<Rightarrow> activity_record \<Rightarrow> activity_record" where
  "merge_delivery other r = (if other \<le> delivery_of r then r else with_delivery other r)"

section \<open>Sources\<close>

datatype source_error = NotConfigured | Upstream str | Transient str

fun is_upstream_fault :: "source_error \<Rightarrow> bool" where
  "is_upstream_fault (Upstream _) = True"
| "is_upstream_fault _ = False"

fun source_error_kind :: "source_error \<Rightarrow> str" where
  "source_error_kind NotConfigured = lit ''not_configured''"
| "source_error_kind (Upstream k) = k"
| "source_error_kind (Transient k) = k"

record source_page =
  pg_records :: "activity_record list"
  pg_raw_rows :: nat
  pg_row_errors :: nat

definition saturated :: "source_page \<Rightarrow> nat \<Rightarrow> bool" where
  "saturated p fetch_limit \<longleftrightarrow> fetch_limit \<le> pg_raw_rows p"

type_synonym source_outcome = "(source_error + source_page) option"

section \<open>The merge\<close>

datatype source_health = HealthNotConfigured | Healthy | Degraded | HealthUnavailable

type_synonym cursor_key = "int \<times> str"

record source_status =
  ss_posthog :: source_health
  ss_relay :: source_health
  ss_partial :: bool
  ss_message_code :: "str option"

record merged_page =
  mp_items :: "activity_record list"
  mp_next_key :: "cursor_key option"
  mp_status :: source_status
  mp_row_errors :: nat
  mp_constraint_violations :: nat
  mp_duplicates :: nat

definition classify :: "source_outcome \<Rightarrow> source_health \<times> source_page option \<times> source_error option" where
  "classify outcome =
     (case outcome of
        None \<Rightarrow> (HealthNotConfigured, None, None)
      | Some (Inr p) \<Rightarrow> (if pg_row_errors p > 0 then Degraded else Healthy, Some p, None)
      | Some (Inl e) \<Rightarrow> (HealthUnavailable, None, Some e))"

text \<open>The assertion on rows that came back; it can only remove rows.\<close>

definition permitted :: "activity_constraint \<Rightarrow> activity_record \<Rightarrow> bool" where
  "permitted c r =
     (case c of
        Everything _ \<Rightarrow> True
      | OnlyMine viewer session \<Rightarrow>
          if is_lifecycle r then session \<noteq> None \<and> record_session_id r = session
          else actor_id r = Some viewer)"

definition enforce_constraint_invariant ::
  "activity_constraint \<Rightarrow> activity_record list \<Rightarrow> nat \<times> activity_record list" where
  "enforce_constraint_invariant c rs =
     (case c of
        Everything _ \<Rightarrow> (0, rs)
      | OnlyMine _ _ \<Rightarrow> (let kept = filter (permitted c) rs in (length rs - length kept, kept)))"

definition combine :: "activity_record \<Rightarrow> activity_record \<Rightarrow> activity_record" where
  "combine existing r =
     (if record_source existing \<noteq> Posthog \<and> record_source r = Posthog
      then merge_delivery (delivery_of existing) r
      else merge_delivery (delivery_of r) existing)"

fun absorb :: "activity_record \<Rightarrow> str list \<times> (str \<rightharpoonup> activity_record) \<Rightarrow> str list \<times> (str \<rightharpoonup> activity_record)" where
  "absorb r (order, kept) =
     (case kept (event_id r) of
        None \<Rightarrow> (order @ [event_id r], kept(event_id r \<mapsto> r))
      | Some existing \<Rightarrow> (order, kept(event_id r \<mapsto> combine existing r)))"

definition deduplicate :: "activity_record list \<Rightarrow> activity_record list" where
  "deduplicate rs = (let (order, kept) = fold absorb rs ([], Map.empty) in filter_map kept order)"

definition sort_pair :: "activity_record \<Rightarrow> cursor_key" where
  "sort_pair r = (sort_timestamp r, event_id r)"

text \<open>A stable sort by a descending key.\<close>

definition sort_newest_first :: "activity_record list \<Rightarrow> activity_record list" where
  "sort_newest_first rs = rev (sort_key sort_pair (rev rs))"

definition opt_list :: "'a option \<Rightarrow> 'a list" where
  "opt_list x = (case x of None \<Rightarrow> [] | Some y \<Rightarrow> [y])"

definition merge_pages ::
  "activity_constraint \<Rightarrow> source_outcome \<Rightarrow> source_outcome \<Rightarrow> nat \<Rightarrow> nat \<Rightarrow> source_error + merged_page" where
  "merge_pages c posthog relay limit fetch_limit =
     (let (posthog_health, posthog_page, posthog_error) = classify posthog;
          (relay_health, relay_page, relay_error) = classify relay
      in if posthog_page = None \<and> relay_page = None
         then Inl (case max_by_key (\<lambda>e. if is_upstream_fault e then 1 else 0 :: nat)
                     (opt_list posthog_error @ opt_list relay_error) of
                     Some e \<Rightarrow> e
                   | None \<Rightarrow> Transient (lit ''no_source''))
         else
           let pages = opt_list posthog_page @ opt_list relay_page;
               row_errors = sum_list (map pg_row_errors pages);
               is_saturated = list_ex (\<lambda>p. saturated p fetch_limit) pages;
               (violations, candidates) = enforce_constraint_invariant c (concat (map pg_records pages));
               deduped = deduplicate candidates;
               sorted_items = sort_newest_first deduped;
               has_more = limit < length sorted_items \<or> is_saturated;
               items = take limit sorted_items;
               partial =
                 posthog_health = HealthUnavailable \<or> relay_health = HealthUnavailable \<or> row_errors > 0
           in Inr \<lparr>mp_items = items,
                   mp_next_key = (if has_more \<and> items \<noteq> [] then Some (sort_pair (last items)) else None),
                   mp_status =
                     \<lparr>ss_posthog = posthog_health, ss_relay = relay_health, ss_partial = partial,
                      ss_message_code =
                        (if posthog_health = HealthUnavailable then Some (lit ''posthog_unavailable'')
                         else if relay_health = HealthUnavailable then Some (lit ''relay_unavailable'')
                         else if row_errors > 0 then Some (lit ''activity_rows_dropped'')
                         else None)\<rparr>,
                   mp_row_errors = row_errors, mp_constraint_violations = violations,
                   mp_duplicates = length candidates - length deduped\<rparr>)"

section \<open>Descending lists\<close>

definition desc :: "'a::linorder set \<Rightarrow> 'a list" where
  "desc S = rev (sorted_list_of_set S)"

lemma desc_facts:
  assumes "finite S"
  shows "set (desc S) = S" "sorted_wrt (>) (desc S)" "distinct (desc S)" "length (desc S) = card S"
  using assms by (auto simp: desc_def sorted_wrt_rev strict_sorted_iff)

lemma desc_eqI:
  assumes "sorted_wrt (>) xs"
  shows "xs = desc (set xs)"
proof -
  have "sorted_wrt (<) (rev xs)" using assms by (simp add: sorted_wrt_rev)
  then have "sorted_list_of_set (set (rev xs)) = rev xs"
    by (intro sorted_list_of_set.idem_if_sorted_distinct) (auto simp: strict_sorted_iff)
  then show ?thesis by (simp add: desc_def)
qed

lemma filter_desc:
  assumes "finite S"
  shows "filter Q (desc S) = desc {x \<in> S. Q x}"
proof -
  have "filter Q (desc S) = desc (set (filter Q (desc S)))"
    using desc_facts [OF assms] by (intro desc_eqI sorted_wrt_filter) simp
  then show ?thesis using desc_facts [OF assms] by simp
qed

text \<open>The first elements of a descending list are those with few elements above them.\<close>

definition above :: "'a::linorder set \<Rightarrow> 'a \<Rightarrow> 'a set" where
  "above S x = {y \<in> S. x < y}"

lemma set_take_desc:
  assumes "sorted_wrt (>) xs"
  shows "set (take n xs) = {x \<in> set xs. card (above (set xs) x) < n}"
proof -
  have d: "distinct xs" using assms by (induction xs) auto
  have idx: "card (above (set xs) (xs ! i)) = i" if i: "i < length xs" for i
  proof -
    have "above (set xs) (xs ! i) = set (take i xs)"
    proof (rule set_eqI)
      fix y
      show "y \<in> above (set xs) (xs ! i) \<longleftrightarrow> y \<in> set (take i xs)"
      proof
        assume "y \<in> above (set xs) (xs ! i)"
        then obtain j where j: "j < length xs" "y = xs ! j" "xs ! i < xs ! j" by (auto simp: above_def in_set_conv_nth)
        then have "j < i" using assms i sorted_wrt_nth_less [OF assms, of i j] by (cases i j rule: linorder_cases) auto
        then show "y \<in> set (take i xs)" using j i by (auto simp: in_set_conv_nth)
      next
        assume "y \<in> set (take i xs)"
        then obtain j where "j < i" "y = xs ! j" using i by (auto simp: in_set_conv_nth)
        then show "y \<in> above (set xs) (xs ! i)"
          using sorted_wrt_nth_less [OF assms, of j i] i by (auto simp: above_def)
      qed
    qed
    then show ?thesis using d i by (simp add: distinct_card)
  qed
  show ?thesis
  proof (rule set_eqI)
    fix x
    show "x \<in> set (take n xs) \<longleftrightarrow> x \<in> {x \<in> set xs. card (above (set xs) x) < n}"
    proof
      assume "x \<in> set (take n xs)"
      then obtain i where "i < n" "i < length xs" "x = xs ! i" by (auto simp: in_set_conv_nth)
      then show "x \<in> {x \<in> set xs. card (above (set xs) x) < n}" using idx by simp
    next
      assume "x \<in> {x \<in> set xs. card (above (set xs) x) < n}"
      then obtain i where "i < length xs" "x = xs ! i" "card (above (set xs) x) < n" by (auto simp: in_set_conv_nth)
      then show "x \<in> set (take n xs)" using idx by (auto simp: in_set_conv_nth)
    qed
  qed
qed

text \<open>Leaving out elements that have at least \<open>n\<close> others above them does not change the first \<open>n\<close>.\<close>

lemma take_desc_subset:
  assumes "finite S" "S' \<subseteq> S" "\<And>x. x \<in> S - S' \<Longrightarrow> n \<le> card (above S' x)"
  shows "take n (desc S) = take n (desc S')"
proof -
  have fin: "finite S'" using assms finite_subset by blast
  have fa: "finite (above T x)" if "finite T" for T x using that by (simp add: above_def)
  have sub: "card (above S' x) \<le> card (above S x)" for x
    using assms(1,2) by (intro card_mono) (auto simp: above_def)
  have mono: "card (above S' y) \<le> card (above S' x)" if "x < y" for x y
    using that fin by (intro card_mono) (auto simp: above_def)
  have below: "card (above S x) < n" if x: "card (above S' x) < n" for x
  proof (rule ccontr)
    assume "\<not> card (above S x) < n"
    then have "\<not> above S x \<subseteq> above S' x" using x fa [OF fin] card_mono [of "above S' x" "above S x"] by fastforce
    then obtain y where "y \<in> S - S'" "x < y" by (auto simp: above_def)
    then show False using assms(3) [of y] mono [of x y] x by simp
  qed
  have "set (take n (desc S)) = {x \<in> S. card (above S x) < n}"
    using set_take_desc [of "desc S" n] desc_facts [OF assms(1)] by simp
  also have "\<dots> = {x \<in> S'. card (above S' x) < n}"
  proof (intro set_eqI iffI)
    fix x
    assume "x \<in> {x \<in> S. card (above S x) < n}"
    then show "x \<in> {x \<in> S'. card (above S' x) < n}" using assms(3) [of x] sub [of x] by fastforce
  next
    fix x
    assume "x \<in> {x \<in> S'. card (above S' x) < n}"
    then show "x \<in> {x \<in> S. card (above S x) < n}" using below assms(2) by auto
  qed
  also have "\<dots> = set (take n (desc S'))"
    using set_take_desc [of "desc S'" n] desc_facts [OF fin] by simp
  finally have "set (take n (desc S)) = set (take n (desc S'))" .
  moreover have "take n (desc T) = desc (set (take n (desc T)))" if "finite T" for T
    using desc_facts [OF that] by (intro desc_eqI sorted_wrt_take) simp
  ultimately show ?thesis using assms(1) fin by metis
qed

lemma take_desc_union:
  fixes xs ys :: "'a::linorder list"
  assumes "sorted_wrt (>) xs" "sorted_wrt (>) ys" "n \<le> m"
  shows "take n (desc (set xs \<union> set ys)) = take n (desc (set (take m xs) \<union> set (take m ys)))"
proof (rule take_desc_subset)
  show "set (take m xs) \<union> set (take m ys) \<subseteq> set xs \<union> set ys" by (auto dest: in_set_takeD)
  fix x :: 'a
  have one: "m \<le> card (above (set (take m zs)) x)" if zs: "sorted_wrt (>) zs" "x \<in> set zs" "x \<notin> set (take m zs)" for zs :: "'a list"
  proof -
    obtain i where i: "i < length zs" "x = zs ! i" using zs(2) by (auto simp: in_set_conv_nth)
    then have "m \<le> i" using zs(3) by (metis in_set_conv_nth length_take min_less_iff_conj nth_take not_le)
    have "set (take m zs) \<subseteq> above (set (take m zs)) x"
      using sorted_wrt_nth_less [OF zs(1)] i \<open>m \<le> i\<close> by (force simp: above_def in_set_conv_nth)
    moreover have "distinct zs" using zs(1) by (induction zs) auto
    then have "card (set (take m zs)) = m" using i \<open>m \<le> i\<close> by (simp add: distinct_card)
    ultimately show ?thesis using card_mono [of "above (set (take m zs)) x"] by (fastforce simp: above_def)
  qed
  assume "x \<in> set xs \<union> set ys - (set (take m xs) \<union> set (take m ys))"
  then consider "x \<in> set xs" "x \<notin> set (take m xs)" | "x \<in> set ys" "x \<notin> set (take m ys)" by blast
  then have "m \<le> card (above (set (take m xs) \<union> set (take m ys)) x)"
  proof cases
    case 1
    have "card (above (set (take m xs)) x) \<le> card (above (set (take m xs) \<union> set (take m ys)) x)"
      by (intro card_mono) (auto simp: above_def)
    then show ?thesis using one [OF assms(1) 1] by simp
  next
    case 2
    have "card (above (set (take m ys)) x) \<le> card (above (set (take m xs) \<union> set (take m ys)) x)"
      by (intro card_mono) (auto simp: above_def)
    then show ?thesis using one [OF assms(2) 2] by simp
  qed
  then show "n \<le> card (above (set (take m xs) \<union> set (take m ys)) x)" using assms(3) by simp
qed simp


section \<open>Deduplication\<close>

lemma event_id_delivery [simp]:
  "event_id (with_delivery d r) = event_id r" "event_id (merge_delivery d r) = event_id r"
  "sort_timestamp (with_delivery d r) = sort_timestamp r" "sort_timestamp (merge_delivery d r) = sort_timestamp r"
  by (cases r; simp add: merge_delivery_def)+

lemma permitted_delivery [simp]: "permitted c (merge_delivery d r) \<longleftrightarrow> permitted c r"
  by (cases r) (auto simp: permitted_def merge_delivery_def split: activity_constraint.splits)

lemma combine_cases: "combine a b = merge_delivery (delivery_of b) a \<or> combine a b = merge_delivery (delivery_of a) b"
  by (simp add: combine_def)

lemma event_id_combine: "event_id a = event_id b \<Longrightarrow> event_id (combine a b) = event_id b"
  by (auto simp: combine_def)

text \<open>The records kept after absorbing a list, by event id.\<close>

definition kept_of :: "activity_record list \<Rightarrow> str \<rightharpoonup> activity_record" where
  "kept_of rs = snd (fold absorb rs ([], Map.empty))"

definition order_of :: "activity_record list \<Rightarrow> str list" where
  "order_of rs = fst (fold absorb rs ([], Map.empty))"

lemma absorb_snoc:
  "kept_of (rs @ [r]) = (kept_of rs)(event_id r \<mapsto>
     (case kept_of rs (event_id r) of None \<Rightarrow> r | Some existing \<Rightarrow> combine existing r))"
  "order_of (rs @ [r]) = (if kept_of rs (event_id r) = None then order_of rs @ [event_id r] else order_of rs)"
  by (cases "fold absorb rs ([], Map.empty)", auto simp: kept_of_def order_of_def split: option.splits)+

lemma kept_Nil [simp]: "kept_of [] = Map.empty" "order_of [] = []"
  by (simp_all add: kept_of_def order_of_def)

lemma kept_dom: "dom (kept_of rs) = event_id ` set rs"
proof (induction rs rule: rev_induct)
  case (snoc x rs)
  have "dom (kept_of (rs @ [x])) = insert (event_id x) (dom (kept_of rs))"
    unfolding absorb_snoc by (auto simp: dom_def)
  then show ?case using snoc by simp
qed simp

lemma kept_event_id: "kept_of rs i = Some r \<Longrightarrow> event_id r = i"
proof (induction rs arbitrary: i r rule: rev_induct)
  case (snoc x rs)
  then show ?case by (cases "kept_of rs (event_id x)") (auto simp: absorb_snoc event_id_combine split: if_splits)
qed simp

lemma order_facts: "distinct (order_of rs) \<and> set (order_of rs) = dom (kept_of rs)"
proof (induction rs rule: rev_induct)
  case (snoc x rs)
  then show ?case by (cases "kept_of rs (event_id x)") (auto simp: absorb_snoc split: if_splits)
qed simp

lemma deduplicate_kept: "deduplicate rs = map (\<lambda>i. the (kept_of rs i)) (order_of rs)"
proof -
  have "deduplicate rs = filter_map (kept_of rs) (order_of rs)"
    by (simp add: deduplicate_def kept_of_def order_of_def split: prod.splits)
  also have "\<dots> = map (\<lambda>i. the (kept_of rs i)) (order_of rs)"
    using order_facts [of rs] by (intro filter_map_all_Some) (auto simp: domIff)
  finally show ?thesis .
qed

text \<open>Every kept record is a record of the list, up to its delivery state.\<close>

lemma kept_origin:
  "kept_of rs i = Some r \<Longrightarrow> \<exists>r' \<in> set rs. event_id r' = i \<and> sort_timestamp r' = sort_timestamp r \<and> (\<forall>c. permitted c r = permitted c r')"
proof (induction rs arbitrary: i r rule: rev_induct)
  case (snoc x rs)
  show ?case
  proof (cases "i = event_id x")
    case False
    with snoc show ?thesis by (fastforce simp: absorb_snoc)
  next
    case True
    show ?thesis
    proof (cases "kept_of rs i")
      case None
      with snoc.prems True have "r = x" by (simp add: absorb_snoc)
      then show ?thesis using True by auto
    next
      case (Some e)
      with snoc.prems True have r: "r = combine e x" by (simp add: absorb_snoc)
      obtain e' where e': "e' \<in> set rs" "event_id e' = i" "sort_timestamp e' = sort_timestamp e" "\<forall>c. permitted c e = permitted c e'"
        using snoc.IH [OF Some] by blast
      from combine_cases [of e x] show ?thesis
      proof
        assume "combine e x = merge_delivery (delivery_of x) e"
        then show ?thesis using e' r by auto
      next
        assume "combine e x = merge_delivery (delivery_of e) x"
        then show ?thesis using r True by auto
      qed
    qed
  qed
qed simp

lemma set_sort_newest [simp]: "set (sort_newest_first rs) = set rs" "length (sort_newest_first rs) = length rs"
  by (simp_all add: sort_newest_first_def)

definition pages_of :: "source_outcome \<Rightarrow> source_outcome \<Rightarrow> source_page list" where
  "pages_of posthog relay = opt_list (fst (snd (classify posthog))) @ opt_list (fst (snd (classify relay)))"

lemma enforce_snd: "snd (enforce_constraint_invariant c rs) = filter (permitted c) rs"
  by (cases c) (simp_all add: enforce_constraint_invariant_def permitted_def Let_def)

lemma merge_pages_Inr:
  assumes "merge_pages c posthog relay limit fetch_limit = Inr page"
  defines "items \<equiv> sort_newest_first (deduplicate (filter (permitted c) (concat (map pg_records (pages_of posthog relay)))))"
  shows "pages_of posthog relay \<noteq> []" "mp_items page = take limit items"
    "mp_next_key page =
       (if (limit < length items \<or> list_ex (\<lambda>p. saturated p fetch_limit) (pages_of posthog relay)) \<and> take limit items \<noteq> []
        then Some (sort_pair (last (take limit items))) else None)"
    "mp_row_errors page = sum_list (map pg_row_errors (pages_of posthog relay))"
proof -
  obtain ph pp pe where p: "classify posthog = (ph, pp, pe)" by (cases "classify posthog")
  obtain rh rp re where q: "classify relay = (rh, rp, re)" by (cases "classify relay")
  let ?e = "enforce_constraint_invariant c (concat (map pg_records (opt_list pp @ opt_list rp)))"
  obtain v cs where e: "?e = (v, cs)" by (cases ?e)
  have cs: "cs = filter (permitted c) (concat (map pg_records (opt_list pp @ opt_list rp)))"
    using enforce_snd [of c "concat (map pg_records (opt_list pp @ opt_list rp))"] e by simp
  have some: "\<not> (pp = None \<and> rp = None)"
    using assms(1) by (auto simp: merge_pages_def p q Let_def split: if_splits)
  note m = assms(1) [unfolded merge_pages_def p q Let_def prod.case if_not_P [OF some] e, THEN sum.inject(2) [THEN iffD1]]
  have pages: "pages_of posthog relay = opt_list pp @ opt_list rp" by (simp add: pages_of_def p q)
  show "pages_of posthog relay \<noteq> []" using some by (auto simp: pages opt_list_def split: option.splits)
  show "mp_items page = take limit items" unfolding m [symmetric] items_def pages by (simp add: cs)
  show "mp_next_key page =
       (if (limit < length items \<or> list_ex (\<lambda>p. saturated p fetch_limit) (pages_of posthog relay)) \<and> take limit items \<noteq> []
        then Some (sort_pair (last (take limit items))) else None)"
    unfolding m [symmetric] items_def pages by (simp add: cs)
  show "mp_row_errors page = sum_list (map pg_row_errors (pages_of posthog relay))"
    unfolding m [symmetric] pages by simp
qed

lemma merge_pages_permitted:
  assumes "merge_pages c posthog relay limit fetch_limit = Inr page" "r \<in> set (mp_items page)"
  shows "permitted c r"
proof -
  obtain candidates where items: "mp_items page = take limit (sort_newest_first (deduplicate candidates))"
    and "\<forall>x \<in> set candidates. permitted c x"
    using merge_pages_Inr(2) [OF assms(1)] by (metis (no_types, lifting) filter_is_subset filter_id_conv filter_filter mem_Collect_eq set_filter)
  then have "r \<in> set (deduplicate candidates)" using assms(2) by (metis in_set_takeD set_sort_newest(1))
  then obtain i where "kept_of candidates i = Some r"
    using order_facts [of candidates] unfolding deduplicate_kept by force
  then obtain r' where r': "r' \<in> set candidates" "permitted c r = permitted c r'" using kept_origin by blast
  then show ?thesis using \<open>\<forall>x \<in> set candidates. permitted c x\<close> by simp
qed

section \<open>The timeline of two sources\<close>

definition timeline :: "activity_record list \<Rightarrow> activity_record list" where
  "timeline rows = sort_newest_first (deduplicate rows)"

text \<open>An event id names one event, so all its copies carry one instant.\<close>

definition consistent_ids :: "activity_record list \<Rightarrow> bool" where
  "consistent_ids rows \<longleftrightarrow>
     (\<forall>a \<in> set rows. \<forall>b \<in> set rows. event_id a = event_id b \<longrightarrow> sort_timestamp a = sort_timestamp b)"

definition chronological :: "activity_record list \<Rightarrow> bool" where
  "chronological rows \<longleftrightarrow> sorted_wrt (>) (map sort_pair rows)"

lemma consistentD:
  "consistent_ids rows \<Longrightarrow> a \<in> set rows \<Longrightarrow> b \<in> set rows \<Longrightarrow> event_id a = event_id b \<Longrightarrow> sort_pair a = sort_pair b"
  unfolding consistent_ids_def sort_pair_def by (intro arg_cong2 [where f = Pair]) blast+

lemma desc_distinct: "sorted_wrt (>) xs \<Longrightarrow> distinct (xs :: 'a::linorder list)"
  by (induction xs) auto

lemma kept_key:
  assumes "consistent_ids rows" "kept_of rows i = Some r" "x \<in> set rows" "event_id x = i"
  shows "sort_pair r = sort_pair x"
  using kept_origin [OF assms(2)] assms kept_event_id [OF assms(2)]
  unfolding consistent_ids_def sort_pair_def by fastforce

lemma dedup_mem: "r \<in> set (deduplicate rows) \<longleftrightarrow> kept_of rows (event_id r) = Some r"
proof -
  have "set (deduplicate rows) = (\<lambda>i. the (kept_of rows i)) ` dom (kept_of rows)"
    using order_facts [of rows] by (simp add: deduplicate_kept)
  then have "r \<in> set (deduplicate rows) \<longleftrightarrow> (\<exists>i. kept_of rows i = Some r)" by (force simp: dom_def image_iff)
  then show ?thesis by (metis kept_event_id)
qed

lemma dedup_ids: "distinct (map event_id (deduplicate rows))"
proof -
  have "map event_id (deduplicate rows) = order_of rows"
    using order_facts [of rows] kept_event_id [of rows] by (auto simp: deduplicate_kept domIff intro!: map_idI)
  then show ?thesis using order_facts [of rows] by simp
qed

lemma dedup_keys:
  assumes "consistent_ids rows"
  shows "sort_pair ` set (deduplicate rows) = sort_pair ` set rows"
proof (intro equalityI subsetI)
  fix k
  assume "k \<in> sort_pair ` set (deduplicate rows)"
  then obtain r where r: "kept_of rows (event_id r) = Some r" "k = sort_pair r" by (auto simp: dedup_mem)
  then show "k \<in> sort_pair ` set rows" using kept_origin [OF r(1)] kept_key [OF assms r(1)] by (metis imageI)
next
  fix k
  assume "k \<in> sort_pair ` set rows"
  then obtain x where x: "x \<in> set rows" "k = sort_pair x" by blast
  then obtain r where r: "kept_of rows (event_id x) = Some r" using kept_dom [of rows] by (metis domD imageI)
  then have "r \<in> set (deduplicate rows)" using kept_event_id [OF r] by (simp add: dedup_mem)
  then show "k \<in> sort_pair ` set (deduplicate rows)" using kept_key [OF assms r x(1) refl] x(2) by (metis imageI)
qed

lemma timeline_form:
  assumes "consistent_ids rows"
  shows "timeline rows = map (\<lambda>k. the (kept_of rows (snd k))) (desc (sort_pair ` set rows))"
proof -
  let ?xs = "timeline rows"
  have m: "mset ?xs = mset (deduplicate rows)" by (simp add: timeline_def sort_newest_first_def)
  then have set: "set ?xs = set (deduplicate rows)" by (metis set_mset_mset)
  have "distinct (map event_id ?xs)" using m dedup_ids by (metis mset_map mset_eq_imp_distinct_iff)
  then have "distinct (map sort_pair ?xs)"
    unfolding distinct_map by (auto simp: sort_pair_def inj_on_def)
  moreover have "sorted (rev (map sort_pair ?xs))"
    by (simp add: timeline_def sort_newest_first_def rev_map)
  ultimately have "sorted_wrt (>) (map sort_pair ?xs)"
    by (metis distinct_rev rev_rev_ident sorted_wrt_rev strict_sorted_iff)
  then have "map sort_pair ?xs = desc (sort_pair ` set rows)"
    using desc_eqI [of "map sort_pair ?xs"] set dedup_keys [OF assms] by simp
  moreover have "?xs = map (\<lambda>k. the (kept_of rows (snd k))) (map sort_pair ?xs)"
    using set by (auto simp: dedup_mem sort_pair_def intro!: map_idI [symmetric])
  ultimately show ?thesis by simp
qed

lemma timeline_sorted:
  assumes "consistent_ids rows"
  shows "map sort_pair (timeline rows) = desc (sort_pair ` set rows)"
proof -
  have "sort_pair (the (kept_of rows (snd k))) = k" if k: "k \<in> sort_pair ` set rows" for k
  proof -
    obtain x where x: "x \<in> set rows" "k = sort_pair x" using k by blast
    then obtain r where r: "kept_of rows (event_id x) = Some r" using kept_dom [of rows] by (metis domD imageI)
    then show ?thesis using kept_key [OF assms r x(1) refl] x(2) by (simp add: sort_pair_def)
  qed
  then show ?thesis
    unfolding timeline_form [OF assms] map_map using desc_facts(1) [of "sort_pair ` set rows"] by (intro map_idI) simp
qed

lemma kept_filter:
  "(\<And>x. x \<in> set rows \<Longrightarrow> event_id x = i \<Longrightarrow> Q x) \<Longrightarrow> kept_of (filter Q rows) i = kept_of rows i"
proof (induction rows rule: rev_induct)
  case (snoc x rows)
  have "kept_of (filter Q rows) i = kept_of rows i" using snoc by simp
  then show ?case using snoc.prems [of x] by (cases "Q x") (auto simp: absorb_snoc)
qed simp

lemma timeline_filter:
  assumes "consistent_ids rows"
  shows "timeline (filter (\<lambda>r. Q (sort_pair r)) rows) = filter (\<lambda>r. Q (sort_pair r)) (timeline rows)"
proof -
  let ?f = "filter (\<lambda>r. Q (sort_pair r)) rows"
  have c: "consistent_ids ?f" using assms by (simp add: consistent_ids_def)
  have keys: "sort_pair ` set ?f = {k \<in> sort_pair ` set rows. Q k}" by auto
  have "timeline ?f = map (\<lambda>k. the (kept_of ?f (snd k))) (filter Q (desc (sort_pair ` set rows)))"
    unfolding timeline_form [OF c] keys by (simp add: filter_desc)
  also have "\<dots> = map (\<lambda>k. the (kept_of rows (snd k))) (filter Q (desc (sort_pair ` set rows)))"
  proof (intro map_cong refl)
    fix k
    assume "k \<in> set (filter Q (desc (sort_pair ` set rows)))"
    then obtain x where x: "x \<in> set rows" "k = sort_pair x" "Q k" using desc_facts(1) [of "sort_pair ` set rows"] by auto
    have "Q (sort_pair y)" if y: "y \<in> set rows" "event_id y = snd k" for y
      using consistentD [OF assms y(1) x(1)] x(2,3) y(2) by (simp add: sort_pair_def)
    then show "the (kept_of ?f (snd k)) = the (kept_of rows (snd k))" using kept_filter [of rows "snd k"] by simp
  qed
  also have "\<dots> = filter (\<lambda>r. Q (sort_pair r)) (timeline rows)"
  proof -
    have "filter (\<lambda>r. Q (sort_pair r)) (timeline rows) =
        map (\<lambda>k. the (kept_of rows (snd k))) (filter (\<lambda>k. Q (sort_pair (the (kept_of rows (snd k))))) (desc (sort_pair ` set rows)))"
      unfolding timeline_form [OF assms] by (simp add: filter_map comp_def)
    moreover have "map (\<lambda>k. sort_pair (the (kept_of rows (snd k)))) (desc (sort_pair ` set rows)) = desc (sort_pair ` set rows)"
      using timeline_sorted [OF assms] timeline_form [OF assms] by (simp add: comp_def)
    then have "sort_pair (the (kept_of rows (snd k))) = k" if "k \<in> set (desc (sort_pair ` set rows))" for k
      using that by (metis (no_types, lifting) list.map_id0 map_eq_conv id_apply)
    ultimately show ?thesis by (simp cong: filter_cong)
  qed
  finally show ?thesis .
qed

section \<open>Truncated sources\<close>

definition look :: "activity_record list \<Rightarrow> str \<rightharpoonup> activity_record" where
  "look rows = map_of (map (\<lambda>r. (event_id r, r)) rows)"

lemma kept_append:
  assumes "distinct (map event_id R)"
  shows "kept_of (P @ R) i =
    (case look R i of
       None \<Rightarrow> kept_of P i
     | Some r \<Rightarrow> Some (case kept_of P i of None \<Rightarrow> r | Some e \<Rightarrow> combine e r))"
  using assms
proof (induction R rule: rev_induct)
  case (snoc x R)
  have look: "look (R @ [x]) j = (case look R j of Some r \<Rightarrow> Some r | None \<Rightarrow> if j = event_id x then Some x else None)" for j
    by (auto simp: look_def map_add_def split: option.splits)
  have "look R (event_id x) = None"
    using snoc.prems by (auto simp: look_def map_of_eq_None_iff comp_def)
  moreover have "kept_of (P @ R @ [x]) = kept_of ((P @ R) @ [x])" by simp
  ultimately show ?case
    using snoc.IH snoc.prems absorb_snoc(1) [of "P @ R" x] unfolding look by (auto split: option.splits)
qed (simp add: look_def)

lemma chronological_ids:
  assumes "chronological P" "consistent_ids P"
  shows "distinct (map event_id P)"
proof -
  have "distinct (map sort_pair P)" using assms(1) desc_distinct unfolding chronological_def by blast
  then show ?thesis
    unfolding distinct_map using consistentD [OF assms(2)] by (meson inj_onD inj_onI)
qed

lemma look_Some: "distinct (map event_id P) \<Longrightarrow> look P i = Some r \<longleftrightarrow> r \<in> set P \<and> event_id r = i"
  unfolding look_def by (subst map_of_eq_Some_iff) (auto simp: comp_def)

lemma look_take:
  assumes P: "chronological P" "consistent_ids P" and top: "card (above (sort_pair ` set P) k) < m"
    and key: "\<And>p. p \<in> set P \<Longrightarrow> event_id p = snd k \<Longrightarrow> sort_pair p = k"
  shows "look (take m P) (snd k) = look P (snd k)"
proof -
  have d: "distinct (map event_id P)" by (rule chronological_ids [OF P])
  have dt: "distinct (map event_id (take m P))" using d by (simp flip: take_map)
  have "p \<in> set (take m P)" if p: "p \<in> set P" "event_id p = snd k" for p
  proof -
    have "k \<in> set (take m (map sort_pair P))"
      using set_take_desc [of "map sort_pair P" m] P(1) top p key [OF p] by (force simp: chronological_def)
    then obtain q where q: "q \<in> set (take m P)" "sort_pair q = k" by (auto simp: take_map)
    then have "event_id q = event_id p" using p by (auto simp: sort_pair_def)
    moreover have "q \<in> set P" using q(1) by (rule in_set_takeD)
    ultimately have "q = p" using d p(1) unfolding distinct_map inj_on_def by blast
    then show ?thesis using q(1) by simp
  qed
  then have "look (take m P) (snd k) = Some r \<longleftrightarrow> look P (snd k) = Some r" for r
    using look_Some [OF d] look_Some [OF dt] by (auto dest: in_set_takeD)
  then show ?thesis by (metis option.exhaust)
qed

lemma timeline_take:
  assumes "chronological P" "chronological R" "consistent_ids (P @ R)" "n \<le> m"
  shows "take n (timeline (take m P @ take m R)) = take n (timeline (P @ R))"
proof -
  let ?K = "sort_pair ` set (P @ R)" and ?K' = "sort_pair ` set (take m P @ take m R)"
  have c: "consistent_ids (take m P @ take m R)" "consistent_ids P" "consistent_ids R"
    using assms(3) by (auto simp: consistent_ids_def dest!: in_set_takeD)
  have keys: "take n (desc ?K') = take n (desc ?K)"
    using take_desc_union [of "map sort_pair P" "map sort_pair R" n m] assms(1,2,4)
    by (simp add: chronological_def take_map image_Un)
  have "the (kept_of (take m P @ take m R) (snd k)) = the (kept_of (P @ R) (snd k))" if k: "k \<in> set (take n (desc ?K))" for k
  proof -
    have top: "k \<in> ?K" "card (above ?K k) < n"
      using k set_take_desc [of "desc ?K" n] desc_facts [of ?K] by auto
    obtain x where x: "x \<in> set (P @ R)" "k = sort_pair x" using top(1) by blast
    have key: "sort_pair p = k" if p: "p \<in> set (P @ R)" "event_id p = snd k" for p
      using consistentD [OF assms(3) p(1) x(1)] x(2) p(2) by (simp add: sort_pair_def)
    have sub: "card (above (sort_pair ` set Q) k) < m" if "set Q \<subseteq> set (P @ R)" for Q
    proof -
      have "card (above (sort_pair ` set Q) k) \<le> card (above ?K k)"
        using that by (intro card_mono) (auto simp: above_def)
      then show ?thesis using top(2) assms(4) by simp
    qed
    have "look (take m P) (snd k) = look P (snd k)" "look (take m R) (snd k) = look R (snd k)"
      using look_take [OF assms(1) c(2) sub] look_take [OF assms(2) c(3) sub] key by auto
    moreover have d: "distinct (map event_id P)" "distinct (map event_id R)"
      using chronological_ids assms(1,2) c by auto
    then have "distinct (map event_id (take m P))" "distinct (map event_id (take m R))" by (simp_all flip: take_map)
    ultimately show ?thesis
      using d kept_append [of "take m R" "take m P" "snd k"] kept_append [of R P "snd k"]
        kept_append [of "take m P" "[]" "snd k"] kept_append [of P "[]" "snd k"] by (simp split: option.splits)
  qed
  then have "map (\<lambda>k. the (kept_of (take m P @ take m R) (snd k))) (take n (desc ?K')) =
      map (\<lambda>k. the (kept_of (P @ R) (snd k))) (take n (desc ?K))"
    unfolding keys by simp
  then show ?thesis by (simp add: timeline_form c(1) assms(3) take_map)
qed


section \<open>Pages\<close>

text \<open>What a source that keeps its contract answers: the first rows past the cursor, newest first.\<close>

definition past :: "cursor_key option \<Rightarrow> activity_record \<Rightarrow> bool" where
  "past cursor r = (case cursor of None \<Rightarrow> True | Some k \<Rightarrow> sort_pair r < k)"

definition source_answer :: "activity_record list \<Rightarrow> cursor_key option \<Rightarrow> nat \<Rightarrow> source_page" where
  "source_answer rows cursor fetch_limit =
     (let found = take fetch_limit (filter (past cursor) rows)
      in \<lparr>pg_records = found, pg_raw_rows = length found, pg_row_errors = 0\<rparr>)"

definition answers :: "activity_record list \<Rightarrow> cursor_key option \<Rightarrow> nat \<Rightarrow> source_outcome \<Rightarrow> bool" where
  "answers rows cursor fetch_limit outcome \<longleftrightarrow>
     outcome = Some (Inr (source_answer rows cursor fetch_limit)) \<or> outcome = None \<and> rows = []"

text \<open>Two sources that a query may read: the rows the caller may see, in order, under consistent ids.\<close>

definition two_sources :: "activity_constraint \<Rightarrow> activity_record list \<Rightarrow> activity_record list \<Rightarrow> bool" where
  "two_sources c P R \<longleftrightarrow>
     chronological P \<and> chronological R \<and> consistent_ids (P @ R) \<and> list_all (permitted c) (P @ R)"

lemma past_key: "past cursor = (\<lambda>r. case cursor of None \<Rightarrow> True | Some k \<Rightarrow> sort_pair r < k)"
  by (rule ext) (simp add: past_def)

lemma timeline_past:
  "consistent_ids rows \<Longrightarrow> timeline (filter (past cursor) rows) = filter (past cursor) (timeline rows)"
  unfolding past_key by (rule timeline_filter)

lemma answers_pages:
  assumes "answers P cursor m posthog" "answers R cursor m relay" "posthog \<noteq> None \<or> relay \<noteq> None"
  shows "concat (map pg_records (pages_of posthog relay)) = take m (filter (past cursor) P) @ take m (filter (past cursor) R)"
    "list_ex (\<lambda>p. saturated p m) (pages_of posthog relay) \<longleftrightarrow>
       m \<le> length (filter (past cursor) P) \<or> m \<le> length (filter (past cursor) R) \<or> m = 0"
    "sum_list (map pg_row_errors (pages_of posthog relay)) = 0"
  using assms by (auto simp: answers_def pages_of_def classify_def opt_list_def source_answer_def saturated_def Let_def)

lemma answers_merge:
  assumes "answers P cursor m posthog" "answers R cursor m relay" "posthog \<noteq> None \<or> relay \<noteq> None"
  shows "\<exists>page. merge_pages c posthog relay limit m = Inr page \<and> \<not> ss_partial (mp_status page)"
  using assms
  by (auto simp: merge_pages_def answers_def classify_def opt_list_def source_answer_def Let_def split: prod.splits)

lemma timeline_length: "consistent_ids rows \<Longrightarrow> length (timeline rows) = card (sort_pair ` set rows)"
  using timeline_sorted [of rows] desc_facts(4) [of "sort_pair ` set rows"] by (metis length_map finite_imageI List.finite_set)

lemma timeline_longer:
  assumes "chronological P" "chronological R" "consistent_ids (P @ R)"
  shows "n < length (timeline (take (Suc n) P @ take (Suc n) R)) \<or> Suc n \<le> length P \<or> Suc n \<le> length R \<longleftrightarrow>
    n < length (timeline (P @ R))"
proof -
  have c: "consistent_ids (take m P @ take m R)" for m using assms(3) by (auto simp: consistent_ids_def dest!: in_set_takeD)
  have len: "length Q \<le> card (sort_pair ` set (P @ R))" if Q: "chronological Q" "set Q \<subseteq> set (P @ R)" for Q
  proof -
    have "distinct (map sort_pair Q)" using Q(1) desc_distinct unfolding chronological_def by blast
    then have "length Q = card (sort_pair ` set Q)" by (metis distinct_card length_map set_map)
    also have "\<dots> \<le> card (sort_pair ` set (P @ R))" using Q(2) by (intro card_mono image_mono) auto
    finally show ?thesis .
  qed
  have "card (sort_pair ` set (take (Suc n) P @ take (Suc n) R)) \<le> card (sort_pair ` set (P @ R))"
    by (intro card_mono image_mono) (auto dest: in_set_takeD)
  moreover have "Suc n \<le> length P \<or> Suc n \<le> length R \<or> take (Suc n) P @ take (Suc n) R = P @ R"
    by (cases "length P \<le> n"; cases "length R \<le> n") auto
  ultimately show ?thesis
    using len [OF assms(1)] len [OF assms(2)] timeline_length [OF c, of "Suc n"] timeline_length [OF assms(3)] by fastforce
qed

lemma merged_page_cut:
  assumes "two_sources c P R" "answers P cursor (Suc limit) posthog" "answers R cursor (Suc limit) relay"
    "posthog \<noteq> None \<or> relay \<noteq> None" "0 < limit"
  defines "rest \<equiv> filter (past cursor) (timeline (P @ R))"
  shows "\<exists>page. merge_pages c posthog relay limit (Suc limit) = Inr page \<and> mp_items page = take limit rest \<and>
    mp_next_key page = (if limit < length rest then Some (sort_pair (last (take limit rest))) else None) \<and>
    \<not> ss_partial (mp_status page)"
proof -
  let ?P = "filter (past cursor) P" and ?R = "filter (past cursor) R"
  let ?items = "timeline (take (Suc limit) ?P @ take (Suc limit) ?R)"
  have t: "chronological ?P" "chronological ?R" "consistent_ids (?P @ ?R)"
    using assms(1) by (auto simp: two_sources_def chronological_def consistent_ids_def sorted_wrt_filter sorted_wrt_map)
  have rest: "rest = timeline (?P @ ?R)"
    using timeline_past [of "P @ R" cursor] assms(1) by (simp add: rest_def two_sources_def)
  obtain page where page: "merge_pages c posthog relay limit (Suc limit) = Inr page" "\<not> ss_partial (mp_status page)"
    using answers_merge [OF assms(2-4)] by blast
  note m = merge_pages_Inr [OF page(1)] and a = answers_pages [OF assms(2-4)]
  have "filter (permitted c) (take (Suc limit) ?P @ take (Suc limit) ?R) = take (Suc limit) ?P @ take (Suc limit) ?R"
    using assms(1) by (intro filter_True) (auto simp: two_sources_def list_all_iff dest!: in_set_takeD)
  then have items: "sort_newest_first (deduplicate (filter (permitted c) (concat (map pg_records (pages_of posthog relay))))) = ?items"
    unfolding a(1) by (simp add: timeline_def)
  have cut: "take limit ?items = take limit rest" unfolding rest by (rule timeline_take [OF t]) simp
  have more: "limit < length ?items \<or> list_ex (\<lambda>p. saturated p (Suc limit)) (pages_of posthog relay) \<longleftrightarrow> limit < length rest"
    using timeline_longer [OF t, of limit] unfolding a(2) rest by auto
  have "mp_items page = take limit rest" using m(2) unfolding items cut .
  moreover have "mp_next_key page = (if limit < length rest then Some (sort_pair (last (take limit rest))) else None)"
    using m(3) assms(5) unfolding items cut more by auto
  ultimately show ?thesis using page by blast
qed


definition sample_row :: "activity_source_kind \<Rightarrow> str \<Rightarrow> int \<Rightarrow> delivery_state \<Rightarrow> activity_record" where
  "sample_row src i t d =
     ApiRequest \<lparr>aq_event_id = i, aq_request_id = None, aq_started_at = None, aq_completed_at = t, aq_method = lit ''GET'',
       aq_route_template = lit ''/x'', aq_operation_id = lit ''x'',
       aq_actor = \<lparr>ra_kind = None, ra_id = Some 9, ra_login = None\<rparr>, aq_principal = \<lparr>rp_kind = None, rp_id = None\<rparr>,
       aq_arguments = [], aq_arguments_parse_status = None, aq_status_code = Some 200, aq_outcome = lit ''success'',
       aq_error_code = None, aq_duration_ms = None,
       aq_correlation = \<lparr>co_session_id = None, co_repo_full_name = None, co_installation_id = None,
         co_trigger_issue = None, co_request_id = None, co_webhook_delivery_id = None\<rparr>\<rparr> d src"

definition posthog_rows :: "activity_record list" where
  "posthog_rows = [sample_row Posthog (lit ''b'') 20 VerifiedInPosthog, sample_row Posthog (lit ''a'') 10 VerifiedInPosthog]"

definition relay_rows :: "activity_record list" where
  "relay_rows = [sample_row Relay (lit ''c'') 30 Queued, sample_row Relay (lit ''b'') 20 DeadLetter]"

lemmas sample_rows = posthog_rows_def relay_rows_def sample_row_def sort_pair_def str_simps

lemma sample_sources: "two_sources (OnlyMine 9 None) posthog_rows relay_rows"
  by (simp add: two_sources_def chronological_def consistent_ids_def permitted_def sample_rows)

lemma sample_timeline:
  "timeline (posthog_rows @ relay_rows) =
     [sample_row Relay (lit ''c'') 30 Queued, sample_row Posthog (lit ''b'') 20 DeadLetter,
      sample_row Posthog (lit ''a'') 10 VerifiedInPosthog]"
  by (simp add: timeline_def deduplicate_def sort_newest_first_def sample_rows combine_def merge_delivery_def
      less_eq_delivery_state_def)

text \<open>
  C13: one merged page is exactly a cut of the timeline. With sources that keep their contract, the page holds the
  newest events past the cursor, each once, in order, whatever overlap the sources have; and a next key is
  issued exactly when more events remain.
\<close>

theorem merged_page_is_newest:
  assumes "two_sources c P R" "answers P cursor (Suc limit) posthog" "answers R cursor (Suc limit) relay"
    "posthog \<noteq> None \<or> relay \<noteq> None" "0 < limit" "rest = filter (past cursor) (timeline (P @ R))"
  shows "\<exists>page. merge_pages c posthog relay limit (Suc limit) = Inr page \<and> mp_items page = take limit rest \<and>
    mp_next_key page = (if limit < length rest then Some (sort_pair (last (take limit rest))) else None) \<and>
    \<not> ss_partial (mp_status page)"
  unfolding assms(6) by (rule merged_page_cut [OF assms(1-5)])

theorem merged_page_is_newest_witness:
  "\<exists>page. merge_pages (OnlyMine 9 None) (Some (Inr (source_answer posthog_rows None 2)))
       (Some (Inr (source_answer relay_rows None 2))) 1 2 = Inr page \<and>
     mp_items page = [sample_row Relay (lit ''c'') 30 Queued] \<and> mp_next_key page = Some (30, lit ''c'')"
proof -
  have key: "sort_pair (sample_row src i t d) = (t, i)" for src i t d by (simp add: sample_row_def sort_pair_def)
  show ?thesis
    using merged_page_is_newest [OF sample_sources, of None 1 "Some (Inr (source_answer posthog_rows None 2))"
      "Some (Inr (source_answer relay_rows None 2))" "timeline (posthog_rows @ relay_rows)"]
    by (auto simp: answers_def past_def sample_timeline numeral_2_eq_2 key)
qed

text \<open>A reader that follows next keys; \<open>ask\<close> is what the two sources answer at a cursor.\<close>

fun read_pages ::
  "activity_constraint \<Rightarrow> (cursor_key option \<Rightarrow> source_outcome \<times> source_outcome) \<Rightarrow> nat \<Rightarrow> nat \<Rightarrow> cursor_key option \<Rightarrow>
   activity_record list option" where
  "read_pages c ask limit 0 cursor = None"
| "read_pages c ask limit (Suc fuel) cursor =
     (case merge_pages c (fst (ask cursor)) (snd (ask cursor)) limit (Suc limit) of
        Inl _ \<Rightarrow> None
      | Inr page \<Rightarrow>
          (case mp_next_key page of
             None \<Rightarrow> Some (mp_items page)
           | Some k \<Rightarrow> map_option (\<lambda>later. mp_items page @ later) (read_pages c ask limit fuel (Some k))))"

lemma next_rest:
  assumes "consistent_ids rows" "0 < limit" "limit < length (filter (past cursor) (timeline rows))"
  defines "rest \<equiv> filter (past cursor) (timeline rows)"
  shows "filter (past (Some (sort_pair (last (take limit rest))))) (timeline rows) = drop limit rest"
proof -
  let ?k = "sort_pair (last (take limit rest))"
  have s: "sorted_wrt (\<lambda>a b. sort_pair b < sort_pair a) rest"
  proof -
    have "sorted_wrt (>) (map sort_pair (timeline rows))"
      using desc_facts(2) [of "sort_pair ` set rows"] timeline_sorted [OF assms(1)] by simp
    then show ?thesis unfolding rest_def by (simp add: sorted_wrt_map sorted_wrt_filter)
  qed
  have len: "limit < length rest" using assms(3) by (simp add: rest_def)
  have last: "last (take limit rest) = rest ! (limit - 1)"
    using len assms(2) by (subst last_conv_nth) auto
  have tk: "\<not> sort_pair r < ?k" if r: "r \<in> set (take limit rest)" for r
  proof -
    obtain i where i: "i < limit" "r = rest ! i" using r len by (auto simp: in_set_conv_nth)
    show ?thesis
    proof (cases "i = limit - 1")
      case True
      then show ?thesis using i last by simp
    next
      case False
      then have "i < limit - 1" using i(1) by simp
      then have "?k < sort_pair r" using sorted_wrt_nth_less [OF s, of i "limit - 1"] i last len by simp
      then show ?thesis by (rule less_not_sym)
    qed
  qed
  have dr: "sort_pair r < ?k" if r: "r \<in> set (drop limit rest)" for r
  proof -
    obtain j where "j < length rest - limit" "r = rest ! (limit + j)" using r len by (auto simp: in_set_conv_nth)
    then show ?thesis using sorted_wrt_nth_less [OF s, of "limit - 1" "limit + j"] last len assms(2) by simp
  qed
  have "?k < k" if "cursor = Some k" for k
  proof -
    have "rest ! (limit - 1) \<in> set rest" using len by auto
    then show ?thesis using that last by (auto simp: rest_def past_def)
  qed
  then have "filter (past (Some ?k)) (timeline rows) = filter (past (Some ?k)) rest"
    unfolding rest_def filter_filter by (intro filter_cong refl) (auto simp: past_def split: option.splits)
  also have "\<dots> = filter (past (Some ?k)) (take limit rest) @ filter (past (Some ?k)) (drop limit rest)"
    by (metis append_take_drop_id filter_append)
  also have "\<dots> = drop limit rest" using tk dr by (simp add: past_def filter_empty_conv filter_id_conv)
  finally show ?thesis .
qed




text \<open>
  Nothing outside the constraint reaches a page. Whatever the sources return, every API row of a personal page
  carries the viewer's own id and every lifecycle row belongs to the one authorized session.
\<close>

theorem page_respects_constraint:
  assumes "merge_pages c posthog relay limit fetch_limit = Inr page"
  shows "(\<forall>r \<in> set (mp_items page). permitted c r) \<and> length (mp_items page) \<le> limit"
proof (intro conjI ballI)
  show "permitted c r" if "r \<in> set (mp_items page)" for r by (rule merge_pages_permitted [OF assms that])
  show "length (mp_items page) \<le> limit" unfolding merge_pages_Inr(2) [OF assms] by simp
qed

theorem page_respects_constraint_witness:
  "\<exists>page. merge_pages (OnlyMine 9 None) (Some (Inr (source_answer posthog_rows None 2))) None 1 2 = Inr page \<and>
     mp_items page \<noteq> [] \<and> (\<forall>r \<in> set (mp_items page). permitted (OnlyMine 9 None) r)"
proof -
  let ?a = "Some (Inr (source_answer posthog_rows None 2)) :: source_outcome"
  have "two_sources (OnlyMine 9 None) posthog_rows []"
    by (simp add: two_sources_def chronological_def consistent_ids_def permitted_def sample_rows)
  then obtain page where p: "merge_pages (OnlyMine 9 None) ?a None 1 2 = Inr page"
      "mp_items page = take 1 (filter (past None) (timeline (posthog_rows @ [])))"
    using merged_page_cut [of "OnlyMine 9 None" posthog_rows "[]" None 1 ?a None] by (auto simp: answers_def numeral_2_eq_2)
  have "set posthog_rows \<noteq> {}" by (simp add: sample_rows)
  then have "0 < card (sort_pair ` set posthog_rows)" by (simp add: card_gt_0_iff)
  moreover have "length (timeline posthog_rows) = card (sort_pair ` set posthog_rows)"
    by (rule timeline_length) (simp add: consistent_ids_def sample_rows)
  ultimately have "timeline posthog_rows \<noteq> []" by (metis length_greater_0_conv)
  then have "mp_items page \<noteq> []" using p(2) by (simp add: past_def)
  then show ?thesis using p page_respects_constraint [OF p(1)] by blast
qed

section \<open>Admission\<close>

record activity_counters =
  ac_global :: nat
  ac_per_principal :: "int \<rightharpoonup> nat"

record activity_concurrency =
  cc_global_limit :: nat
  cc_per_principal_limit :: nat

definition DEFAULT_GLOBAL_LIMIT :: nat where "DEFAULT_GLOBAL_LIMIT = 8"
definition DEFAULT_PER_PRINCIPAL_LIMIT :: nat where "DEFAULT_PER_PRINCIPAL_LIMIT = 2"
definition RETRY_AFTER_SECS :: nat where "RETRY_AFTER_SECS = 2"

datatype admission_denial = DeniedGlobal | DeniedPerPrincipal

definition no_permits :: activity_counters where
  "no_permits = \<lparr>ac_global = 0, ac_per_principal = Map.empty\<rparr>"

definition try_acquire ::
  "activity_concurrency \<Rightarrow> int \<Rightarrow> activity_counters \<Rightarrow> admission_denial + activity_counters" where
  "try_acquire lim who ct =
     (let held = (case ac_per_principal ct who of Some n \<Rightarrow> n | None \<Rightarrow> 0)
      in if cc_per_principal_limit lim \<le> held then Inl DeniedPerPrincipal
         else if cc_global_limit lim \<le> ac_global ct then Inl DeniedGlobal
         else Inr (ct\<lparr>ac_global := ac_global ct + 1, ac_per_principal := (ac_per_principal ct)(who \<mapsto> held + 1)\<rparr>))"

text \<open>Dropping a permit; the subtraction saturates.\<close>

definition release :: "int \<Rightarrow> activity_counters \<Rightarrow> activity_counters" where
  "release who ct =
     (let ct = ct\<lparr>ac_global := ac_global ct - 1\<rparr>
      in case ac_per_principal ct who of
           Some held \<Rightarrow>
             if held > 1 then ct\<lparr>ac_per_principal := (ac_per_principal ct)(who \<mapsto> held - 1)\<rparr>
             else ct\<lparr>ac_per_principal := (ac_per_principal ct)(who := None)\<rparr>
         | None \<Rightarrow> ct\<lparr>ac_per_principal := (ac_per_principal ct)(who := None)\<rparr>)"

text \<open>
  Queries come and go in any order. A permit is a value that is dropped once, so a release belongs to a permit
  that is held; \<open>held\<close> collects them.
\<close>

inductive admission_reachable :: "activity_concurrency \<Rightarrow> activity_counters \<Rightarrow> int multiset \<Rightarrow> bool"
  for lim where
  adm_init: "admission_reachable lim no_permits {#}"
| adm_acquire: "admission_reachable lim ct held \<Longrightarrow> try_acquire lim p ct = Inr ct' \<Longrightarrow>
    admission_reachable lim ct' (add_mset p held)"
| adm_refuse: "admission_reachable lim ct held \<Longrightarrow> try_acquire lim p ct = Inl d \<Longrightarrow> admission_reachable lim ct held"
| adm_release: "admission_reachable lim ct held \<Longrightarrow> p \<in># held \<Longrightarrow>
    admission_reachable lim (release p ct) (held - {#p#})"

lemma admission_inv:
  "admission_reachable lim ct held \<Longrightarrow>
   ac_global ct = size held \<and> ac_per_principal ct = (\<lambda>p. if p \<in># held then Some (count held p) else None) \<and>
   ac_global ct \<le> cc_global_limit lim \<and> (\<forall>p. count held p \<le> cc_per_principal_limit lim)"
proof (induction rule: admission_reachable.induct)
  case adm_init
  show ?case by (simp add: no_permits_def)
next
  case (adm_acquire ct held p ct')
  have h: "(case ac_per_principal ct p of Some n \<Rightarrow> n | None \<Rightarrow> 0) = count held p"
    using adm_acquire.IH by (auto simp: not_in_iff)
  have l: "count held p < cc_per_principal_limit lim" "size held < cc_global_limit lim"
      "ct' = ct\<lparr>ac_global := size held + 1, ac_per_principal := (ac_per_principal ct)(p \<mapsto> count held p + 1)\<rparr>"
    using adm_acquire.hyps(2) adm_acquire.IH unfolding try_acquire_def h Let_def by (auto split: if_splits)
  then show ?case using adm_acquire.IH by (auto simp: fun_eq_iff)
next
  case (adm_release ct held p)
  have p: "ac_per_principal ct p = Some (count held p)" "ac_global ct = size held" using adm_release by simp_all
  have c: "0 < count held p" "0 < size held" using adm_release.hyps(2) by (simp, cases held, simp_all)
  have per: "ac_per_principal (release p ct) = (\<lambda>q. if q \<in># held - {#p#} then Some (count (held - {#p#}) q) else None)"
  proof (rule ext)
    fix q
    show "ac_per_principal (release p ct) q = (if q \<in># held - {#p#} then Some (count (held - {#p#}) q) else None)"
      using adm_release.IH p c by (cases "q = p") (auto simp: release_def Let_def in_diff_count split: if_splits)
  qed
  have "ac_global (release p ct) = size held - 1" using p by (simp add: release_def Let_def split: option.splits)
  moreover have "size (held - {#p#}) = size held - 1" using adm_release.hyps by (simp add: size_Diff_singleton)
  moreover have "count (held - {#p#}) q \<le> count held q" for q by simp
  ultimately show ?case
    using per adm_release.IH by (metis (no_types, lifting) diff_le_self order_trans)
qed

text \<open>
  Admission keeps its books. In every history of queries that come and go, the counters are exactly the permits
  in flight, no budget is exceeded, and the table holds no entry for a caller without a query.
\<close>

theorem admission_within_budget:
  assumes "admission_reachable lim ct held"
  shows "ac_global ct = size held \<and> size held \<le> cc_global_limit lim \<and> count held p \<le> cc_per_principal_limit lim \<and>
    ac_per_principal ct p = (if count held p = 0 then None else Some (count held p))"
  using admission_inv [OF assms] by (auto simp: not_in_iff)

theorem admission_within_budget_witness:
  "\<exists>ct. admission_reachable \<lparr>cc_global_limit = 8, cc_per_principal_limit = 2\<rparr> ct {#9#} \<and> ac_per_principal ct 9 = Some 1"
proof -
  let ?lim = "\<lparr>cc_global_limit = 8, cc_per_principal_limit = 2\<rparr>"
  obtain ct where "try_acquire ?lim 9 no_permits = Inr ct" by (simp add: try_acquire_def no_permits_def)
  then have r: "admission_reachable ?lim ct {#9#}" using adm_acquire [OF adm_init] by simp
  then show ?thesis using admission_within_budget [OF r, of 9] by auto
qed

section \<open>Running one query\<close>

datatype activity_error = AuditQueryNotConfigured | RateLimited nat | UpstreamRejected | SourcesUnavailable

record activity_sources =
  as_posthog :: "(cursor_key option \<Rightarrow> nat \<Rightarrow> source_error + source_page) option"
  as_relay :: "(cursor_key option \<Rightarrow> nat \<Rightarrow> source_error + source_page) option"

definition fetch_source ::
  "(cursor_key option \<Rightarrow> nat \<Rightarrow> source_error + source_page) option \<Rightarrow> cursor_key option \<Rightarrow> nat \<Rightarrow> source_outcome" where
  "fetch_source source cursor fetch_limit = map_option (\<lambda>f. f cursor fetch_limit) source"

definition refuse_for_source :: "source_error \<Rightarrow> activity_error" where
  "refuse_for_source e = (if is_upstream_fault e then UpstreamRejected else SourcesUnavailable)"

text \<open>The query parameters other than the cursor are fixed in the sources; \<open>limit\<close> is a \<open>u32\<close>.\<close>

definition run_query ::
  "activity_concurrency \<Rightarrow> activity_counters \<Rightarrow> activity_sources \<Rightarrow> int \<Rightarrow> activity_constraint \<Rightarrow> cursor_key option \<Rightarrow> nat \<Rightarrow>
   activity_error + merged_page" where
  "run_query lim ct sources who c cursor limit =
     (if as_posthog sources = None \<and> as_relay sources = None then Inl AuditQueryNotConfigured
      else case try_acquire lim who ct of
             Inl _ \<Rightarrow> Inl (RateLimited RETRY_AFTER_SECS)
           | Inr _ \<Rightarrow>
               let fetch_limit = min (Suc limit) (2 ^ 32 - 1)
               in case merge_pages c (fetch_source (as_posthog sources) cursor fetch_limit)
                         (fetch_source (as_relay sources) cursor fetch_limit) limit fetch_limit of
                    Inr page \<Rightarrow> Inr page
                  | Inl e \<Rightarrow> Inl (refuse_for_source e))"

lemma run_query_permitted:
  "run_query lim ct sources who c cursor limit = Inr page \<Longrightarrow> r \<in> set (mp_items page) \<Longrightarrow> permitted c r"
  using merge_pages_permitted by (auto simp: run_query_def Let_def split: if_splits sum.splits)

text \<open>An outage is never an empty page: an answer has a page behind it.\<close>

lemma outage_is_an_error:
  "merge_pages c posthog relay limit m = Inr page \<Longrightarrow>
   (\<exists>p. posthog = Some (Inr p)) \<or> (\<exists>p. relay = Some (Inr p))"
  using merge_pages_Inr(1) [of c posthog relay limit m page]
  by (auto simp: pages_of_def classify_def opt_list_def split: option.splits sum.splits)

end
