(* ===== verification/AuditEvent.thy ===== *)
theory AuditEvent
  imports RustStr Cron
begin

text \<open>
  The audit event contract: the closed vocabularies and the completed record of \<open>audit/event.rs\<close>, the
  fail-closed validation of \<open>audit/validate.rs\<close>, the terminal classification of \<open>audit/request/outcome.rs\<close>,
  request ids (\<open>audit/request/id.rs\<close>), the verified identities of \<open>audit/identity.rs\<close> and the bounded
  safe-argument validators of \<open>audit/arguments/bounds.rs\<close>.

  Instants are nanoseconds since the epoch. UUIDs are their canonical text and the version 5 derivation is a
  parameter. A JSON value of the arguments bag is its text; an error of the validator is the field it names.
\<close>

section \<open>Closed vocabularies\<close>

datatype actor_kind = GithubUser | GithubWebhookSender | AnonymousActor | ServiceActor | SystemActor

datatype authentication_method = Bearer | Oauth | WebhookHmac | Internal | NoAuthentication

datatype principal_kind =
    GithubUserToken | OauthSession | GithubAppInstallation | WebhookPrincipal | Reconciler | AnonymousPrincipal
  | NoPrincipal

datatype audit_outcome =
    OutcomeSuccess | OutcomeRedirect | OutcomeClientError | OutcomeServerError | OutcomeTimeout | OutcomeRejected
  | OutcomeIncomplete

datatype arguments_parse_status = Parsed | InvalidArguments | NotApplicable | UnavailableArguments

fun actor_kind_as_str :: "actor_kind \<Rightarrow> str" where
  "actor_kind_as_str GithubUser = lit ''github_user''"
| "actor_kind_as_str GithubWebhookSender = lit ''github_webhook_sender''"
| "actor_kind_as_str AnonymousActor = lit ''anonymous''"
| "actor_kind_as_str ServiceActor = lit ''service''"
| "actor_kind_as_str SystemActor = lit ''system''"

fun authentication_as_str :: "authentication_method \<Rightarrow> str" where
  "authentication_as_str Bearer = lit ''bearer''"
| "authentication_as_str Oauth = lit ''oauth''"
| "authentication_as_str WebhookHmac = lit ''webhook_hmac''"
| "authentication_as_str Internal = lit ''internal''"
| "authentication_as_str NoAuthentication = lit ''none''"

fun principal_kind_as_str :: "principal_kind \<Rightarrow> str" where
  "principal_kind_as_str GithubUserToken = lit ''github_user_token''"
| "principal_kind_as_str OauthSession = lit ''oauth_session''"
| "principal_kind_as_str GithubAppInstallation = lit ''github_app_installation''"
| "principal_kind_as_str WebhookPrincipal = lit ''webhook_hmac''"
| "principal_kind_as_str Reconciler = lit ''reconciler''"
| "principal_kind_as_str AnonymousPrincipal = lit ''anonymous''"
| "principal_kind_as_str NoPrincipal = lit ''none''"

fun outcome_as_str :: "audit_outcome \<Rightarrow> str" where
  "outcome_as_str OutcomeSuccess = lit ''success''"
| "outcome_as_str OutcomeRedirect = lit ''redirect''"
| "outcome_as_str OutcomeClientError = lit ''client_error''"
| "outcome_as_str OutcomeServerError = lit ''server_error''"
| "outcome_as_str OutcomeTimeout = lit ''timeout''"
| "outcome_as_str OutcomeRejected = lit ''rejected''"
| "outcome_as_str OutcomeIncomplete = lit ''incomplete''"

fun parse_status_as_str :: "arguments_parse_status \<Rightarrow> str" where
  "parse_status_as_str Parsed = lit ''parsed''"
| "parse_status_as_str InvalidArguments = lit ''invalid''"
| "parse_status_as_str NotApplicable = lit ''not_applicable''"
| "parse_status_as_str UnavailableArguments = lit ''unavailable''"

text \<open>The parser of each vocabulary (\<open>as_str_impl!\<close>): the variant whose wire string this is.\<close>

definition parse_vocabulary :: "('a \<Rightarrow> str) \<Rightarrow> 'a list \<Rightarrow> str \<Rightarrow> 'a option" where
  "parse_vocabulary as_str variants s = find (\<lambda>v. as_str v = s) variants"

definition actor_kinds :: "actor_kind list" where
  "actor_kinds = [GithubUser, GithubWebhookSender, AnonymousActor, ServiceActor, SystemActor]"

definition authentication_methods :: "authentication_method list" where
  "authentication_methods = [Bearer, Oauth, WebhookHmac, Internal, NoAuthentication]"

definition principal_kinds :: "principal_kind list" where
  "principal_kinds =
     [GithubUserToken, OauthSession, GithubAppInstallation, WebhookPrincipal, Reconciler, AnonymousPrincipal, NoPrincipal]"

definition audit_outcomes :: "audit_outcome list" where
  "audit_outcomes =
     [OutcomeSuccess, OutcomeRedirect, OutcomeClientError, OutcomeServerError, OutcomeTimeout, OutcomeRejected,
      OutcomeIncomplete]"

definition parse_statuses :: "arguments_parse_status list" where
  "parse_statuses = [Parsed, InvalidArguments, NotApplicable, UnavailableArguments]"

definition parse_actor_kind :: "str \<Rightarrow> actor_kind option" where
  "parse_actor_kind = parse_vocabulary actor_kind_as_str actor_kinds"

definition parse_authentication :: "str \<Rightarrow> authentication_method option" where
  "parse_authentication = parse_vocabulary authentication_as_str authentication_methods"

definition parse_principal_kind :: "str \<Rightarrow> principal_kind option" where
  "parse_principal_kind = parse_vocabulary principal_kind_as_str principal_kinds"

definition parse_audit_outcome :: "str \<Rightarrow> audit_outcome option" where
  "parse_audit_outcome = parse_vocabulary outcome_as_str audit_outcomes"

definition parse_parse_status :: "str \<Rightarrow> arguments_parse_status option" where
  "parse_parse_status = parse_vocabulary parse_status_as_str parse_statuses"

definition is_human :: "actor_kind \<Rightarrow> bool" where
  "is_human k \<longleftrightarrow> k = GithubUser \<or> k = GithubWebhookSender"

section \<open>The completed record\<close>

record actor =
  ac_kind :: actor_kind
  ac_id :: "int option"
  ac_login :: "str option"
  ac_authentication :: authentication_method

definition anonymous_actor :: actor where
  "anonymous_actor = \<lparr>ac_kind = AnonymousActor, ac_id = None, ac_login = None, ac_authentication = NoAuthentication\<rparr>"

definition github_user_actor :: "int \<Rightarrow> str \<Rightarrow> authentication_method \<Rightarrow> actor" where
  "github_user_actor i login m =
     \<lparr>ac_kind = GithubUser, ac_id = Some i, ac_login = Some login, ac_authentication = m\<rparr>"

definition system_actor :: actor where
  "system_actor = \<lparr>ac_kind = SystemActor, ac_id = None, ac_login = None, ac_authentication = Internal\<rparr>"

record audit_principal =
  ap_kind :: principal_kind
  ap_id :: "str option"

record audit_correlation =
  co_session_id :: "str option"
  co_repo_full_name :: "str option"
  co_installation_id :: "int option"
  co_trigger_issue :: "int option"
  co_webhook_delivery_id :: "str option"

definition no_correlation :: audit_correlation where
  "no_correlation = \<lparr>co_session_id = None, co_repo_full_name = None, co_installation_id = None, co_trigger_issue = None,
     co_webhook_delivery_id = None\<rparr>"

record service_identity =
  sv_version :: str
  sv_environment :: str

record request_identity =
  ri_request_id :: str
  ri_method :: str
  ri_route_template :: str
  ri_operation_id :: str

record request_timing =
  ti_started_at :: instant
  ti_completed_at :: instant

record request_result =
  rq_status_code :: "nat option"
  rq_outcome :: audit_outcome
  rq_error_code :: "str option"

type_synonym arguments = "(str, str) btree_map"

record api_request_completed =
  ev_schema_version :: nat
  ev_event_id :: str
  ev_request_id :: str
  ev_started_at :: instant
  ev_completed_at :: instant
  ev_method :: str
  ev_route_template :: str
  ev_operation_id :: str
  ev_arguments :: arguments
  ev_arguments_parse_status :: arguments_parse_status
  ev_actor_id :: "int option"
  ev_actor :: actor
  ev_principal :: audit_principal
  ev_status_code :: "nat option"
  ev_outcome :: audit_outcome
  ev_error_code :: "str option"
  ev_duration_ms :: nat
  ev_session_id :: "str option"
  ev_correlation :: audit_correlation
  ev_service :: service_identity

definition SCHEMA_VERSION :: nat where "SCHEMA_VERSION = 1"

definition UNMATCHED_OPERATION_ID :: str where "UNMATCHED_OPERATION_ID = lit ''<unmatched>''"
definition UNMATCHED_ROUTE_TEMPLATE :: str where "UNMATCHED_ROUTE_TEMPLATE = lit ''<unmatched>''"

definition NANOS_PER_MILLI :: int where "NANOS_PER_MILLI = 1000000"

text \<open>\<open>TimeDelta::num_milliseconds\<close>, which truncates towards zero.\<close>

definition num_milliseconds :: "int \<Rightarrow> int" where
  "num_milliseconds dur = sgn dur * (\<bar>dur\<bar> div NANOS_PER_MILLI)"

text \<open>\<open>uuid_v5\<close> is the version 5 UUID of a key in the fixed namespace, \<open>nanos\<close> the RFC 3339 text with nanoseconds.\<close>

definition derive_event_id :: "(str \<Rightarrow> str) \<Rightarrow> (instant \<Rightarrow> str) \<Rightarrow> request_identity \<Rightarrow> instant \<Rightarrow> str" where
  "derive_event_id uuid_v5 nanos i started_at =
     uuid_v5 (join (lit ''|'') [show_nat SCHEMA_VERSION, ri_request_id i, nanos started_at, ri_method i,
       ri_route_template i, ri_operation_id i])"

definition new_event ::
  "(str \<Rightarrow> str) \<Rightarrow> (instant \<Rightarrow> str) \<Rightarrow> request_identity \<Rightarrow> request_timing \<Rightarrow> actor \<Rightarrow> audit_principal \<Rightarrow> request_result \<Rightarrow>
   service_identity \<Rightarrow> api_request_completed" where
  "new_event uuid_v5 nanos i timing a p res service =
     \<lparr>ev_schema_version = SCHEMA_VERSION,
      ev_event_id = derive_event_id uuid_v5 nanos i (ti_started_at timing),
      ev_request_id = ri_request_id i,
      ev_started_at = ti_started_at timing,
      ev_completed_at = ti_completed_at timing,
      ev_method = ri_method i,
      ev_route_template = ri_route_template i,
      ev_operation_id = ri_operation_id i,
      ev_arguments = [],
      ev_arguments_parse_status = NotApplicable,
      ev_actor_id = (if is_human (ac_kind a) then ac_id a else None),
      ev_actor = a,
      ev_principal = p,
      ev_status_code = rq_status_code res,
      ev_outcome = rq_outcome res,
      ev_error_code = rq_error_code res,
      ev_duration_ms = nat (max 0 (num_milliseconds (ti_completed_at timing - ti_started_at timing))),
      ev_session_id = None,
      ev_correlation = no_correlation,
      ev_service = service\<rparr>"

definition with_arguments :: "arguments \<Rightarrow> arguments_parse_status \<Rightarrow> api_request_completed \<Rightarrow> api_request_completed" where
  "with_arguments values status e = e\<lparr>ev_arguments := values, ev_arguments_parse_status := status\<rparr>"

definition with_correlation :: "audit_correlation \<Rightarrow> api_request_completed \<Rightarrow> api_request_completed" where
  "with_correlation c e = e\<lparr>ev_session_id := co_session_id c, ev_correlation := c\<rparr>"

section \<open>Verified identities\<close>

record audit_identity =
  ai_actor :: actor
  ai_principal :: audit_principal

definition anonymous_identity :: audit_identity where
  "anonymous_identity = \<lparr>ai_actor = anonymous_actor, ai_principal = \<lparr>ap_kind = AnonymousPrincipal, ap_id = None\<rparr>\<rparr>"

definition github_bearer :: "int \<Rightarrow> str \<Rightarrow> audit_identity" where
  "github_bearer i login =
     \<lparr>ai_actor = github_user_actor i login Bearer, ai_principal = \<lparr>ap_kind = GithubUserToken, ap_id = None\<rparr>\<rparr>"

definition github_oauth :: "int \<Rightarrow> str \<Rightarrow> audit_identity" where
  "github_oauth i login =
     \<lparr>ai_actor = github_user_actor i login Oauth, ai_principal = \<lparr>ap_kind = OauthSession, ap_id = None\<rparr>\<rparr>"

definition webhook_sender :: "int option \<Rightarrow> str option \<Rightarrow> int option \<Rightarrow> audit_identity" where
  "webhook_sender i login installation_id =
     \<lparr>ai_actor = \<lparr>ac_kind = GithubWebhookSender, ac_id = i, ac_login = login, ac_authentication = WebhookHmac\<rparr>,
      ai_principal = \<lparr>ap_kind = WebhookPrincipal, ap_id = map_option show_int installation_id\<rparr>\<rparr>"

definition reconciler_identity :: "int option \<Rightarrow> audit_identity" where
  "reconciler_identity installation_id =
     \<lparr>ai_actor = system_actor,
      ai_principal = \<lparr>ap_kind = (case installation_id of Some _ \<Rightarrow> GithubAppInstallation | None \<Rightarrow> Reconciler),
        ap_id = map_option show_int installation_id\<rparr>\<rparr>"

definition identity_actor_id :: "audit_identity \<Rightarrow> int option" where
  "identity_actor_id i = (if is_human (ac_kind (ai_actor i)) then ac_id (ai_actor i) else None)"

section \<open>Validation\<close>

datatype event_error = InvalidField str | TooLarge nat nat | Unserializable

definition bounded :: "str \<Rightarrow> str \<Rightarrow> nat \<Rightarrow> bool \<Rightarrow> event_error + unit" where
  "bounded field v m required =
     (if required \<and> trim v = [] then Inl (InvalidField field)
      else if m < RustStr.byte_len v then Inl (InvalidField field)
      else if list_ex is_control v then Inl (InvalidField field)
      else Inr ())"

definition bounded_opt :: "str \<Rightarrow> str option \<Rightarrow> nat \<Rightarrow> event_error + unit" where
  "bounded_opt field v m = (case v of Some s \<Rightarrow> bounded field s m True | None \<Rightarrow> Inr ())"

definition validate_method :: "str \<Rightarrow> event_error + unit" where
  "validate_method m =
     and_then (bounded (lit ''method'') m 16 True) (\<lambda>_.
       if list_all (\<lambda>c. is_ascii_uppercase c \<or> c = ch (CHR ''-'') \<or> c = ch (CHR ''_'')) m then Inr ()
       else Inl (InvalidField (lit ''method'')))"

definition validate_route_template :: "str \<Rightarrow> event_error + unit" where
  "validate_route_template route =
     and_then (bounded (lit ''route_template'') route 256 True) (\<lambda>_.
       if ch (CHR ''?'') \<in> set route \<or> ch (CHR ''#'') \<in> set route then Inl (InvalidField (lit ''route_template''))
       else if route \<noteq> UNMATCHED_ROUTE_TEMPLATE \<and> \<not> starts_with (lit ''/'') route
       then Inl (InvalidField (lit ''route_template''))
       else Inr ())"

definition validate_request_identity :: "str \<Rightarrow> str \<Rightarrow> str \<Rightarrow> str \<Rightarrow> event_error + unit" where
  "validate_request_identity request_id m route operation_id =
     and_then (bounded (lit ''request_id'') request_id 128 True) (\<lambda>_.
     and_then (validate_method m) (\<lambda>_.
     and_then (validate_route_template route) (\<lambda>_.
       bounded (lit ''operation_id'') operation_id 128 True)))"

definition validate_service_identity :: "str \<Rightarrow> str \<Rightarrow> event_error + unit" where
  "validate_service_identity version environment =
     and_then (bounded (lit ''service.version'') version 64 True) (\<lambda>_.
       bounded (lit ''service.environment'') environment 64 False)"

definition validate_timestamps :: "api_request_completed \<Rightarrow> event_error + unit" where
  "validate_timestamps e =
     (if ev_completed_at e < ev_started_at e then Inl (InvalidField (lit ''completed_at''))
      else if nat (max 0 (num_milliseconds (ev_completed_at e - ev_started_at e))) \<noteq> ev_duration_ms e
      then Inl (InvalidField (lit ''duration_ms''))
      else Inr ())"

definition class_ok :: "audit_outcome \<Rightarrow> nat \<Rightarrow> bool" where
  "class_ok outcome status =
     (case outcome of
        OutcomeSuccess \<Rightarrow> 200 \<le> status \<and> status < 300
      | OutcomeRedirect \<Rightarrow> 300 \<le> status \<and> status < 400
      | OutcomeClientError \<Rightarrow> 400 \<le> status \<and> status < 500
      | OutcomeServerError \<Rightarrow> 500 \<le> status \<and> status < 600
      | OutcomeTimeout \<Rightarrow> status = 408 \<or> status = 504
      | OutcomeRejected \<Rightarrow> 400 \<le> status \<and> status < 500 \<or> status = 503
      | OutcomeIncomplete \<Rightarrow> False)"

definition validate_status_and_outcome :: "nat option \<Rightarrow> audit_outcome \<Rightarrow> event_error + unit" where
  "validate_status_and_outcome status_code outcome =
     (case status_code of
        None \<Rightarrow> if outcome = OutcomeIncomplete then Inr () else Inl (InvalidField (lit ''status_code''))
      | Some status \<Rightarrow>
          if \<not> (100 \<le> status \<and> status \<le> 599) then Inl (InvalidField (lit ''status_code''))
          else if \<not> class_ok outcome status then Inl (InvalidField (lit ''outcome''))
          else Inr ())"

definition stable_code :: "str \<Rightarrow> bool" where
  "stable_code code = list_all (\<lambda>c. is_ascii_lowercase c \<or> is_ascii_digit c \<or> c = ch (CHR ''_'')) code"

definition validate_error_code :: "str option \<Rightarrow> event_error + unit" where
  "validate_error_code error_code =
     (case error_code of
        None \<Rightarrow> Inr ()
      | Some code \<Rightarrow>
          and_then (bounded (lit ''error_code'') code 64 True) (\<lambda>_.
            if stable_code code then Inr () else Inl (InvalidField (lit ''error_code''))))"

definition validate_actor :: "api_request_completed \<Rightarrow> event_error + unit" where
  "validate_actor e =
     (let a = ev_actor e
      in and_then (bounded_opt (lit ''actor.login'') (ac_login a) 64) (\<lambda>_.
           if is_human (ac_kind a) then
             if ev_actor_id e \<noteq> ac_id a then Inl (InvalidField (lit ''actor_id''))
             else (case ac_id a of
                     None \<Rightarrow> if ac_kind a = GithubUser then Inl (InvalidField (lit ''actor.id'')) else Inr ()
                   | Some i \<Rightarrow> if i \<le> 0 then Inl (InvalidField (lit ''actor.id'')) else Inr ())
           else if ev_actor_id e \<noteq> None \<or> ac_id a \<noteq> None then Inl (InvalidField (lit ''actor_id''))
           else if ac_kind a = AnonymousActor \<and> ac_login a \<noteq> None then Inl (InvalidField (lit ''actor.login''))
           else Inr ()))"

definition validate_principal :: "api_request_completed \<Rightarrow> event_error + unit" where
  "validate_principal e = bounded_opt (lit ''principal.id'') (ap_id (ev_principal e)) 128"

definition validate_repo :: "str \<Rightarrow> event_error + unit" where
  "validate_repo repo =
     and_then (bounded (lit ''correlation.repo_full_name'') repo 256 True) (\<lambda>_.
       case split (ch (CHR ''/'')) repo of
         [owner, name] \<Rightarrow> if owner = [] \<or> name = [] then Inl (InvalidField (lit ''correlation.repo_full_name'')) else Inr ()
       | _ \<Rightarrow> Inl (InvalidField (lit ''correlation.repo_full_name'')))"

definition validate_correlation :: "api_request_completed \<Rightarrow> event_error + unit" where
  "validate_correlation e =
     (if ev_session_id e \<noteq> co_session_id (ev_correlation e) then Inl (InvalidField (lit ''session_id''))
      else and_then (bounded_opt (lit ''session_id'') (ev_session_id e) 128) (\<lambda>_.
           and_then (case co_repo_full_name (ev_correlation e) of Some repo \<Rightarrow> validate_repo repo | None \<Rightarrow> Inr ()) (\<lambda>_.
             bounded_opt (lit ''correlation.webhook_delivery_id'') (co_webhook_delivery_id (ev_correlation e)) 64)))"

definition validate :: "api_request_completed \<Rightarrow> event_error + unit" where
  "validate e =
     (if ev_schema_version e \<noteq> SCHEMA_VERSION then Inl (InvalidField (lit ''schema_version''))
      else and_then (validate_request_identity (ev_request_id e) (ev_method e) (ev_route_template e) (ev_operation_id e)) (\<lambda>_.
           and_then (validate_timestamps e) (\<lambda>_.
           and_then (validate_status_and_outcome (ev_status_code e) (ev_outcome e)) (\<lambda>_.
           and_then (validate_error_code (ev_error_code e)) (\<lambda>_.
           and_then (validate_actor e) (\<lambda>_.
           and_then (validate_principal e) (\<lambda>_.
           and_then (validate_correlation e) (\<lambda>_.
             validate_service_identity (sv_version (ev_service e)) (sv_environment (ev_service e))))))))))"

section \<open>Terminal classification\<close>

definition derive_outcome :: "nat \<Rightarrow> bool \<Rightarrow> bool \<Rightarrow> audit_outcome" where
  "derive_outcome code rejected timed_out =
     (if timed_out \<or> code = 408 then OutcomeTimeout
      else if rejected \<and> (400 \<le> code \<and> code < 500 \<or> code = 503) then OutcomeRejected
      else if 200 \<le> code \<and> code \<le> 299 then OutcomeSuccess
      else if 300 \<le> code \<and> code \<le> 399 then OutcomeRedirect
      else if 400 \<le> code \<and> code \<le> 499 then OutcomeClientError
      else OutcomeServerError)"

definition framework_error_code :: "nat \<Rightarrow> bool \<Rightarrow> str option" where
  "framework_error_code status matched_route =
     (if status = 408 then Some (lit ''request_timeout'')
      else if status = 404 \<and> \<not> matched_route then Some (lit ''route_not_found'')
      else if status = 405 then Some (lit ''method_not_allowed'')
      else None)"

text \<open>The bounded code of a hand-built browser page.\<close>

definition for_browser_status :: "nat \<Rightarrow> str" where
  "for_browser_status status =
     (if status = 401 then lit ''oauth_unauthorized''
      else if status = 403 then lit ''oauth_forbidden''
      else if status = 404 then lit ''oauth_not_found''
      else if status = 503 then lit ''oauth_unavailable''
      else if status = 502 then lit ''oauth_upstream''
      else lit ''oauth_invalid_request'')"

section \<open>Request ids\<close>

definition is_safe_char :: "uchar \<Rightarrow> bool" where
  "is_safe_char c \<longleftrightarrow> is_ascii_alphanumeric c \<or> c \<in> {ch (CHR ''-''), ch (CHR ''_''), ch (CHR ''.''), ch (CHR '':'')}"

definition is_acceptable :: "str \<Rightarrow> bool" where
  "is_acceptable v \<longleftrightarrow> v \<noteq> [] \<and> RustStr.byte_len v \<le> 128 \<and> list_all is_safe_char v"

record normalized_request_id =
  nr_value :: str
  nr_generated :: bool

definition normalize_request_id :: "str \<Rightarrow> str option \<Rightarrow> normalized_request_id" where
  "normalize_request_id fresh raw =
     (case raw of
        Some v \<Rightarrow> if is_acceptable v then \<lparr>nr_value = v, nr_generated = False\<rparr> else \<lparr>nr_value = fresh, nr_generated = True\<rparr>
      | None \<Rightarrow> \<lparr>nr_value = fresh, nr_generated = True\<rparr>)"

section \<open>Bounded safe arguments\<close>

definition ascii_token :: "str \<Rightarrow> nat \<Rightarrow> uchar list \<Rightarrow> str option" where
  "ascii_token v m extra =
     (let v = trim v
      in if v = [] \<or> m < RustStr.byte_len v then None
         else if list_all (\<lambda>c. is_ascii_alphanumeric c \<or> c \<in> set extra) v then Some v else None)"

definition name_extra :: "uchar list" where "name_extra = [ch (CHR ''.''), ch (CHR ''_''), ch (CHR ''-'')]"

definition safe_owner :: "str \<Rightarrow> str option" where "safe_owner v = ascii_token v 64 name_extra"
definition safe_repo :: "str \<Rightarrow> str option" where "safe_repo v = ascii_token v 100 name_extra"
definition safe_session_id :: "str \<Rightarrow> str option" where "safe_session_id v = ascii_token v 128 name_extra"

definition safe_repo_full_name :: "str \<Rightarrow> str \<Rightarrow> str option" where
  "safe_repo_full_name owner name =
     (case (safe_owner owner, safe_repo name) of (Some a, Some b) \<Rightarrow> Some (a @ lit ''/'' @ b) | _ \<Rightarrow> None)"

definition safe_run_id :: "str option \<Rightarrow> str option" where
  "safe_run_id v =
     (case map_option trim v of
        None \<Rightarrow> Some (lit ''latest'')
      | Some run \<Rightarrow> if run = [] \<or> run = lit ''latest'' then Some (lit ''latest'') else ascii_token run 64 name_extra)"

definition is_ascii_hexdigit :: "uchar \<Rightarrow> bool" where
  "is_ascii_hexdigit c \<longleftrightarrow> is_ascii_digit c \<or> 65 \<le> c \<and> c \<le> 70 \<or> 97 \<le> c \<and> c \<le> 102"

definition safe_blob_sha :: "str \<Rightarrow> str option" where
  "safe_blob_sha v =
     (let v = trim v in if v \<noteq> [] \<and> RustStr.byte_len v \<le> 64 \<and> list_all is_ascii_hexdigit v then Some v else None)"

definition safe_work_label :: "str \<Rightarrow> str option" where
  "safe_work_label v =
     (let v = trim v
      in if v = [] \<or> 50 < RustStr.byte_len v then None
         else if list_ex (\<lambda>c. is_control c \<or> c = ch (CHR '','') \<or> c = 34) v then None else Some v)"

definition safe_output_lang :: "str \<Rightarrow> str option" where
  "safe_output_lang v = ascii_token v 16 [ch (CHR ''-''), ch (CHR ''_'')]"

definition safe_content_type :: "str \<Rightarrow> str option" where
  "safe_content_type v =
     (let media = trim (hd (split (ch (CHR '';'')) v))
      in if media = [] \<or> 128 < RustStr.byte_len media then None
         else if list_ex (\<lambda>c. is_control c \<or> is_whitespace c \<or> c = 34) media then None
         else Some (to_ascii_lowercase media))"

record bounded_list =
  bl_items :: "str list"
  bl_count :: nat
  bl_truncated :: bool

fun bounded_items :: "(str \<Rightarrow> str option) \<Rightarrow> nat \<Rightarrow> str list \<Rightarrow> str list \<Rightarrow> str list" where
  "bounded_items accept limit items [] = items"
| "bounded_items accept limit items (v # vs) =
     (if length items < limit
      then (case accept v of Some a \<Rightarrow> bounded_items accept limit (items @ [a]) vs | None \<Rightarrow> bounded_items accept limit items vs)
      else bounded_items accept limit items vs)"

definition bounded_list_of :: "str list \<Rightarrow> nat \<Rightarrow> (str \<Rightarrow> str option) \<Rightarrow> bounded_list" where
  "bounded_list_of vs limit accept =
     (let items = bounded_items accept limit [] vs
      in \<lparr>bl_items = items, bl_count = length vs, bl_truncated = length items < length vs\<rparr>)"

section \<open>Properties of the vocabulary and the bounds\<close>

lemmas as_str_simps =
  actor_kind_as_str.simps authentication_as_str.simps principal_kind_as_str.simps outcome_as_str.simps
  parse_status_as_str.simps

lemmas vocabulary_defs =
  parse_vocabulary_def actor_kinds_def authentication_methods_def principal_kinds_def audit_outcomes_def
  parse_statuses_def parse_actor_kind_def parse_authentication_def parse_principal_kind_def parse_audit_outcome_def
  parse_parse_status_def

lemma vocabulary_roundtrip [simp]:
  "parse_actor_kind (actor_kind_as_str k) = Some k"
  "parse_authentication (authentication_as_str m) = Some m"
  "parse_principal_kind (principal_kind_as_str p) = Some p"
  "parse_audit_outcome (outcome_as_str out) = Some out"
  "parse_parse_status (parse_status_as_str ps) = Some ps"
proof -
  show "parse_actor_kind (actor_kind_as_str k) = Some k" by (cases k) (simp_all add: vocabulary_defs str_simps)
  show "parse_authentication (authentication_as_str m) = Some m" by (cases m) (simp_all add: vocabulary_defs str_simps)
  show "parse_principal_kind (principal_kind_as_str p) = Some p" by (cases p) (simp_all add: vocabulary_defs str_simps)
  show "parse_audit_outcome (outcome_as_str out) = Some out" by (cases out) (simp_all add: vocabulary_defs str_simps)
  show "parse_parse_status (parse_status_as_str ps) = Some ps" by (cases ps) (simp_all add: vocabulary_defs str_simps)
qed

lemma parse_vocabulary_Some: "parse_vocabulary as_str variants s = Some v \<Longrightarrow> as_str v = s"
  by (auto simp: parse_vocabulary_def find_Some_iff)

lemma bounded_items_take:
  "bounded_items accept limit items vs = items @ take (limit - length items) (filter_map accept vs)"
proof (induction vs arbitrary: items)
  case (Cons v vs)
  show ?case
  proof (cases "limit - length items")
    case (Suc n)
    then have "limit - Suc (length items) = n" "length items < limit" by simp_all
    then show ?thesis using Cons.IH Suc by (simp split: option.split)
  qed (use Cons.IH in simp)
qed simp

text \<open>The projection keeps the first accepted entries, counts every entry and says when the two differ.\<close>

lemma bounded_list_spec:
  "bl_items (bounded_list_of vs limit accept) = take limit (filter_map accept vs)"
  "bl_count (bounded_list_of vs limit accept) = length vs"
  "bl_truncated (bounded_list_of vs limit accept) \<longleftrightarrow> length (bl_items (bounded_list_of vs limit accept)) \<noteq> length vs"
proof -
  have "length (filter_map accept vs) \<le> length vs" by (induction vs) (auto split: option.splits)
  then show "bl_truncated (bounded_list_of vs limit accept) \<longleftrightarrow>
      length (bl_items (bounded_list_of vs limit accept)) \<noteq> length vs"
    by (auto simp: bounded_list_of_def bounded_items_take Let_def)
qed (simp_all add: bounded_list_of_def bounded_items_take Let_def)

lemma ascii_token_Some:
  assumes "ascii_token v m extra = Some t"
  shows "t = trim v" "t \<noteq> []" "RustStr.byte_len t \<le> m" "\<forall>c \<in> set t. is_ascii_alphanumeric c \<or> c \<in> set extra"
  using assms by (auto simp: ascii_token_def Let_def list_all_iff split: if_splits)

lemma plain_char:
  assumes "is_ascii_alphanumeric c \<or> c \<in> {45, 46, 58, 95}"
  shows "\<not> is_control c" "\<not> is_whitespace c" "c < 128"
  using assms by (auto simp: char_class_defs)

lemma trim_plain:
  assumes "\<forall>c \<in> set s. \<not> is_whitespace c"
  shows "trim s = s"
  by (rule trim_id) (use assms in \<open>auto simp: trimmed_def\<close>)

lemma acceptable_bounded:
  assumes "is_acceptable v"
  shows "bounded f v 128 True = Inr ()"
proof -
  have c: "\<forall>c \<in> set v. \<not> is_control c \<and> \<not> is_whitespace c"
  proof
    fix c assume "c \<in> set v"
    then have "is_ascii_alphanumeric c \<or> c \<in> {45, 46, 58, 95}"
      using assms by (auto simp: is_acceptable_def is_safe_char_def list_all_iff)
    then show "\<not> is_control c \<and> \<not> is_whitespace c" using plain_char(1,2) by blast
  qed
  then have "trim v = v" by (intro trim_plain) auto
  then show ?thesis unfolding bounded_def using assms c by (simp add: is_acceptable_def list_ex_iff)
qed

section \<open>What the validator guarantees\<close>

text \<open>The outcome the middleware derives agrees with the matrix the validator enforces.\<close>

lemma derive_outcome_class_ok:
  assumes "200 \<le> code" "code \<le> 599" "timed_out \<longrightarrow> code = 408 \<or> code = 504"
  shows "class_ok (derive_outcome code rejected timed_out) code"
  using assms by (auto simp: class_ok_def derive_outcome_def)

lemma validate_Inr_iff:
  "validate e = Inr () \<longleftrightarrow>
     ev_schema_version e = SCHEMA_VERSION \<and>
     validate_request_identity (ev_request_id e) (ev_method e) (ev_route_template e) (ev_operation_id e) = Inr () \<and>
     validate_timestamps e = Inr () \<and> validate_status_and_outcome (ev_status_code e) (ev_outcome e) = Inr () \<and>
     validate_error_code (ev_error_code e) = Inr () \<and> validate_actor e = Inr () \<and> validate_principal e = Inr () \<and>
     validate_correlation e = Inr () \<and>
     validate_service_identity (sv_version (ev_service e)) (sv_environment (ev_service e)) = Inr ()"
  by (simp add: validate_def and_then_Inr_iff)

text \<open>
  C31: a record that passes validation can be attributed. Its canonical actor id is the nested one, it is the
  positive id of a human actor or absent, a verified GitHub user always has one, the status is absent exactly for
  an incomplete record, the route is a template without a query and the canonical session id is the correlation's.
\<close>

theorem validated_record_attribution:
  assumes "validate e = Inr ()"
  shows "ev_actor_id e = ac_id (ev_actor e) \<and>
    (\<forall>i. ev_actor_id e = Some i \<longrightarrow> 0 < i \<and> is_human (ac_kind (ev_actor e))) \<and>
    (ac_kind (ev_actor e) = GithubUser \<longrightarrow> ev_actor_id e \<noteq> None) \<and>
    (ev_status_code e = None \<longleftrightarrow> ev_outcome e = OutcomeIncomplete) \<and>
    ch (CHR ''?'') \<notin> set (ev_route_template e) \<and> ch (CHR ''#'') \<notin> set (ev_route_template e) \<and>
    ev_session_id e = co_session_id (ev_correlation e)"
proof -
  note v = assms [unfolded validate_Inr_iff]
  have actor: "ev_actor_id e = ac_id (ev_actor e)" "\<And>i. ev_actor_id e = Some i \<Longrightarrow> 0 < i \<and> is_human (ac_kind (ev_actor e))"
      "ac_kind (ev_actor e) = GithubUser \<Longrightarrow> ev_actor_id e \<noteq> None"
    using v by (auto simp: validate_actor_def and_then_Inr_iff is_human_def Let_def split: if_splits option.splits)
  have "ev_status_code e = None \<longleftrightarrow> ev_outcome e = OutcomeIncomplete"
    using v by (auto simp: validate_status_and_outcome_def class_ok_def split: option.splits if_splits audit_outcome.splits)
  moreover have "validate_route_template (ev_route_template e) = Inr ()"
    using v by (simp add: validate_request_identity_def and_then_Inr_iff)
  moreover have "ev_session_id e = co_session_id (ev_correlation e)"
    using v by (simp add: validate_correlation_def split: if_splits)
  ultimately show ?thesis
    using actor by (auto simp: validate_route_template_def and_then_Inr_iff split: if_splits)
qed

definition sample_event :: api_request_completed where
  "sample_event = with_correlation (no_correlation\<lparr>co_session_id := Some (lit ''s1'')\<rparr>)
     (new_event (\<lambda>k. k) (\<lambda>t. show_int t)
       \<lparr>ri_request_id = lit ''r1'', ri_method = lit ''GET'', ri_route_template = lit ''/api'', ri_operation_id = lit ''health''\<rparr>
       \<lparr>ti_started_at = 500, ti_completed_at = 7000500\<rparr> (github_user_actor 9 (lit ''a'') Bearer)
       \<lparr>ap_kind = GithubUserToken, ap_id = None\<rparr>
       \<lparr>rq_status_code = Some 200, rq_outcome = OutcomeSuccess, rq_error_code = None\<rparr>
       \<lparr>sv_version = lit ''1'', sv_environment = []\<rparr>)"

lemmas validate_defs =
  validate_def validate_request_identity_def validate_method_def validate_route_template_def bounded_def bounded_opt_def
  validate_timestamps_def validate_status_and_outcome_def validate_error_code_def validate_actor_def
  validate_principal_def validate_correlation_def validate_service_identity_def class_ok_def

lemma sample_event_valid: "validate sample_event = Inr ()"
  by (simp add: sample_event_def new_event_def with_correlation_def no_correlation_def github_user_actor_def validate_defs
      num_milliseconds_def NANOS_PER_MILLI_def is_human_def SCHEMA_VERSION_def str_simps UNMATCHED_ROUTE_TEMPLATE_def
      trim_id trimmed_def char_class_defs starts_with_def utf8_width_def RustStr.byte_len_def)

theorem validated_record_attribution_witness:
  "ev_actor_id sample_event = Some 9 \<and> is_human (ac_kind (ev_actor sample_event))"
proof -
  have "ev_actor_id sample_event = Some 9"
    by (simp add: sample_event_def new_event_def with_correlation_def github_user_actor_def is_human_def)
  then show ?thesis using validated_record_attribution [OF sample_event_valid] by blast
qed

end
