(* ===== verification/AuditCatalog.thy ===== *)
theory AuditCatalog
  imports AuditEvent
begin

text \<open>
  Which requests are recorded and what a record may carry: the safe-argument allowlists
  (\<open>audit/arguments/catalog.rs\<close>), the policy of every operation (\<open>audit/request/policy.rs\<close>), and the catalog
  built from the served OpenAPI document with its routing decision (\<open>audit/request/catalog.rs\<close>).

  The document is the list of its paths, each with the eight method slots of a path item; an operation is its
  optional \<open>operationId\<close>. A matched route has an ASCII leading character in every segment.
\<close>

section \<open>Safe-argument allowlists\<close>

definition INVALID_INPUT_FIELDS :: "str list" where
  "INVALID_INPUT_FIELDS = map lit [''content_type'', ''content_length_declared'', ''body_bytes_observed'']"

definition GITHUB_LOGIN_FIELDS :: "str list" where
  "GITHUB_LOGIN_FIELDS = map lit [''flow'']"

definition GITHUB_LOGIN_CALLBACK_FIELDS :: "str list" where
  "GITHUB_LOGIN_CALLBACK_FIELDS = map lit [''flow'', ''result'']"

definition GITHUB_REFRESH_TOKEN_FIELDS :: "str list" where
  "GITHUB_REFRESH_TOKEN_FIELDS = map lit [''flow'', ''result'']"

definition GITHUB_BROADER_CONNECT_FIELDS :: "str list" where
  "GITHUB_BROADER_CONNECT_FIELDS = map lit [''flow'']"

definition GITHUB_BROADER_CALLBACK_FIELDS :: "str list" where
  "GITHUB_BROADER_CALLBACK_FIELDS = map lit [''flow'', ''result'']"

definition SESSION_LOGS_OAUTH_CALLBACK_FIELDS :: "str list" where
  "SESSION_LOGS_OAUTH_CALLBACK_FIELDS = map lit [''flow'', ''session_id'', ''result'']"

definition CREATE_REPO_FIELDS :: "str list" where
  "CREATE_REPO_FIELDS = map lit [''owner'', ''name'', ''private'', ''description_present'', ''description_bytes'']"

definition UNINSTALL_ACCOUNT_FIELDS :: "str list" where
  "UNINSTALL_ACCOUNT_FIELDS = map lit [''owner'']"

definition CANVAS_OVERVIEW_FIELDS :: "str list" where
  "CANVAS_OVERVIEW_FIELDS = map lit [''broader_visibility_requested'']"

definition CANVAS_REPO_SESSIONS_FIELDS :: "str list" where
  "CANVAS_REPO_SESSIONS_FIELDS = map lit [''owner'', ''repo'']"

definition CANVAS_CREATE_SESSION_FIELDS :: "str list" where
  "CANVAS_CREATE_SESSION_FIELDS = map lit
    [''owner'', ''repo'', ''package_refs'', ''package_count'', ''package_refs_truncated'',
     ''manifest_refs'', ''manifest_count'', ''manifest_refs_truncated'', ''work_label'',
     ''environment_name'', ''disposable_environment_present'', ''disposable_variable_count'',
     ''disposable_secret_count'', ''source_branch'', ''target_branch'', ''auto_merge'',
     ''log_access_count'', ''collaborator_count'', ''output_language'']"

definition CANVAS_STOP_SESSION_FIELDS :: "str list" where
  "CANVAS_STOP_SESSION_FIELDS = map lit [''owner'', ''repo'', ''trigger_issue'']"

definition CANVAS_REPO_SCHEDULES_FIELDS :: "str list" where
  "CANVAS_REPO_SCHEDULES_FIELDS = map lit [''owner'', ''repo'']"

definition CANVAS_SCHEDULE_DETAIL_FIELDS :: "str list" where
  "CANVAS_SCHEDULE_DETAIL_FIELDS = map lit [''owner'', ''repo'', ''schedule_issue'']"

definition CANVAS_SCHEDULE_RUN_FIELDS :: "str list" where
  "CANVAS_SCHEDULE_RUN_FIELDS = map lit [''owner'', ''repo'', ''schedule_issue'', ''slot'']"

definition CANVAS_PAUSE_SCHEDULE_FIELDS :: "str list" where
  "CANVAS_PAUSE_SCHEDULE_FIELDS = map lit [''owner'', ''repo'', ''schedule_issue'']"

definition CANVAS_RESUME_SCHEDULE_FIELDS :: "str list" where
  "CANVAS_RESUME_SCHEDULE_FIELDS = map lit [''owner'', ''repo'', ''schedule_issue'']"

definition CANVAS_RUN_SCHEDULE_NOW_FIELDS :: "str list" where
  "CANVAS_RUN_SCHEDULE_NOW_FIELDS = map lit [''owner'', ''repo'', ''schedule_issue'']"

definition CANVAS_CREATE_WORK_ITEM_FIELDS :: "str list" where
  "CANVAS_CREATE_WORK_ITEM_FIELDS = map lit
    [''owner'', ''repo'', ''trigger_issue'', ''selected_label'', ''title_bytes'', ''body_present'',
     ''body_bytes'']"

definition CANVAS_SESSION_OUTCOMES_FIELDS :: "str list" where
  "CANVAS_SESSION_OUTCOMES_FIELDS = map lit [''owner'', ''repo'', ''trigger_issue'']"

definition CANVAS_OUTCOME_BLOB_FIELDS :: "str list" where
  "CANVAS_OUTCOME_BLOB_FIELDS = map lit [''owner'', ''repo'', ''blob_sha'', ''download'']"

definition PUT_USER_ENVIRONMENT_PROFILE_FIELDS :: "str list" where
  "PUT_USER_ENVIRONMENT_PROFILE_FIELDS = map lit [''environment_name'', ''install_command_count'', ''variable_count'', ''secret_count'']"

definition GET_USER_ENVIRONMENT_PROFILE_FIELDS :: "str list" where
  "GET_USER_ENVIRONMENT_PROFILE_FIELDS = map lit [''environment_name'']"

definition DELETE_USER_ENVIRONMENT_PROFILE_FIELDS :: "str list" where
  "DELETE_USER_ENVIRONMENT_PROFILE_FIELDS = map lit [''environment_name'']"

definition DOWNLOAD_SESSION_LOGS_FIELDS :: "str list" where
  "DOWNLOAD_SESSION_LOGS_FIELDS = map lit [''session_id'', ''run_id_or_latest'', ''mode'']"

definition LIST_SESSION_RUNS_FIELDS :: "str list" where
  "LIST_SESSION_RUNS_FIELDS = map lit [''session_id'']"

definition SESSION_HEALTH_FIELDS :: "str list" where
  "SESSION_HEALTH_FIELDS = map lit [''session_id'']"

definition SESSION_HEALTH_REPORT_FIELDS :: "str list" where
  "SESSION_HEALTH_REPORT_FIELDS = map lit [''session_id'', ''report_id'']"

definition SESSION_LOG_MANIFEST_FIELDS :: "str list" where
  "SESSION_LOG_MANIFEST_FIELDS = map lit [''session_id'', ''run_id_or_latest'']"

definition SESSION_LOG_FILE_FIELDS :: "str list" where
  "SESSION_LOG_FILE_FIELDS = map lit [''session_id'', ''run_id_or_latest'', ''file_class'', ''tail_bytes'']"

definition OBSERVE_SESSION_FIELDS :: "str list" where
  "OBSERVE_SESSION_FIELDS = map lit [''session_id'', ''effective_limit'']"

definition GITHUB_APP_WEBHOOK_FIELDS :: "str list" where
  "GITHUB_APP_WEBHOOK_FIELDS = map lit
    [''signature_valid'', ''event_type'', ''action'', ''installation_id'', ''repo_full_name'',
     ''trigger_issue'', ''delivery_id'', ''handling'']"

definition CHAT_TURN_FIELDS :: "str list" where
  "CHAT_TURN_FIELDS = map lit
    [''message_count'', ''user_message_count'', ''assistant_message_count'',
     ''total_content_bytes'', ''last_message_bytes'', ''broader_visibility_requested'']"

definition OPERATIONS_LIST_ACTIVITY_FIELDS :: "str list" where
  "OPERATIONS_LIST_ACTIVITY_FIELDS = map lit
    [''scope'', ''requested_scope'', ''record_kind'', ''from'', ''to'', ''limit'',
     ''cursor_present'', ''actor_filter_present'', ''session_id'', ''repo_full_name'',
     ''trigger_issue'', ''request_id'', ''method'', ''operation_id'', ''status'', ''status_class'',
     ''outcome'']"

definition OPERATIONS_LIST_SANDBOXES_FIELDS :: "str list" where
  "OPERATIONS_LIST_SANDBOXES_FIELDS = map lit
    [''scope'', ''requested_scope'', ''session_id'', ''repo_full_name'', ''trigger_issue'',
     ''status'', ''backend'', ''creator_id'', ''creator_login'', ''attribution_source'']"

section \<open>Operation policies\<close>

datatype exclusion_reason = Probe | Scrape | ContractDocument | CorsPreflight

fun exclusion_as_str :: "exclusion_reason \<Rightarrow> str" where
  "exclusion_as_str Probe = lit ''probe''"
| "exclusion_as_str Scrape = lit ''scrape''"
| "exclusion_as_str ContractDocument = lit ''contract''"
| "exclusion_as_str CorsPreflight = lit ''cors_preflight''"

datatype operation_policy = Audited | Excluded exclusion_reason

datatype arguments_policy = NotRecorded | NoArguments | SafeArguments str "str list"

record audit_operation =
  op_operation_id :: str
  op_policy :: operation_policy
  op_arguments :: arguments_policy

definition is_audited :: "operation_policy \<Rightarrow> bool" where
  "is_audited p \<longleftrightarrow> p = Audited"

definition default_status :: "arguments_policy \<Rightarrow> arguments_parse_status" where
  "default_status p = (case p of SafeArguments _ _ \<Rightarrow> UnavailableArguments | _ \<Rightarrow> NotApplicable)"

definition audited_op :: "str \<Rightarrow> str \<Rightarrow> str list \<Rightarrow> audit_operation" where
  "audited_op i dto fs = \<lparr>op_operation_id = i, op_policy = Audited, op_arguments = SafeArguments dto fs\<rparr>"

definition audited_without_arguments :: "str \<Rightarrow> audit_operation" where
  "audited_without_arguments i = \<lparr>op_operation_id = i, op_policy = Audited, op_arguments = NoArguments\<rparr>"

definition excluded_op :: "str \<Rightarrow> exclusion_reason \<Rightarrow> audit_operation" where
  "excluded_op i reason = \<lparr>op_operation_id = i, op_policy = Excluded reason, op_arguments = NotRecorded\<rparr>"

definition OPERATION_POLICIES :: "audit_operation list" where
  "OPERATION_POLICIES =
    [excluded_op (lit ''health'') Probe,
     excluded_op (lit ''readiness'') Probe,
     excluded_op (lit ''metrics'') Scrape,
     audited_op (lit ''github_app_webhook'') (lit ''SafeGithubAppWebhook'') GITHUB_APP_WEBHOOK_FIELDS,
     audited_op (lit ''chat_turn'') (lit ''SafeChatTurn'') CHAT_TURN_FIELDS,
     audited_without_arguments (lit ''list_user_environment_profiles''),
     audited_op (lit ''put_user_environment_profile'') (lit ''SafePutEnvironmentProfile'') PUT_USER_ENVIRONMENT_PROFILE_FIELDS,
     audited_op (lit ''get_user_environment_profile'') (lit ''SafeGetEnvironmentProfile'') GET_USER_ENVIRONMENT_PROFILE_FIELDS,
     audited_op (lit ''delete_user_environment_profile'') (lit ''SafeDeleteEnvironmentProfile'') DELETE_USER_ENVIRONMENT_PROFILE_FIELDS,
     audited_op (lit ''download_session_logs'') (lit ''SafeDownloadSessionLogs'') DOWNLOAD_SESSION_LOGS_FIELDS,
     audited_op (lit ''session_logs_oauth_callback'') (lit ''SafeSessionLogsOauthCallback'') SESSION_LOGS_OAUTH_CALLBACK_FIELDS,
     audited_op (lit ''session_log_manifest'') (lit ''SafeSessionLogManifest'') SESSION_LOG_MANIFEST_FIELDS,
     audited_op (lit ''session_log_file'') (lit ''SafeSessionLogFile'') SESSION_LOG_FILE_FIELDS,
     audited_op (lit ''list_session_runs'') (lit ''SafeListSessionRuns'') LIST_SESSION_RUNS_FIELDS,
     audited_op (lit ''session_health'') (lit ''SafeSessionHealth'') SESSION_HEALTH_FIELDS,
     audited_op (lit ''session_health_report'') (lit ''SafeSessionHealthReport'') SESSION_HEALTH_REPORT_FIELDS,
     audited_op (lit ''github_login'') (lit ''SafeGithubLogin'') GITHUB_LOGIN_FIELDS,
     audited_op (lit ''github_login_callback'') (lit ''SafeGithubLoginCallback'') GITHUB_LOGIN_CALLBACK_FIELDS,
     audited_op (lit ''github_refresh_token'') (lit ''SafeGithubRefreshToken'') GITHUB_REFRESH_TOKEN_FIELDS,
     audited_op (lit ''github_broader_connect'') (lit ''SafeGithubBroaderConnect'') GITHUB_BROADER_CONNECT_FIELDS,
     audited_op (lit ''github_broader_callback'') (lit ''SafeGithubBroaderCallback'') GITHUB_BROADER_CALLBACK_FIELDS,
     audited_op (lit ''create_repo'') (lit ''SafeCreateRepo'') CREATE_REPO_FIELDS,
     audited_op (lit ''uninstall_account'') (lit ''SafeUninstallAccount'') UNINSTALL_ACCOUNT_FIELDS,
     audited_op (lit ''canvas_overview'') (lit ''SafeCanvasOverview'') CANVAS_OVERVIEW_FIELDS,
     audited_op (lit ''canvas_repo_sessions'') (lit ''SafeCanvasRepoSessions'') CANVAS_REPO_SESSIONS_FIELDS,
     audited_op (lit ''canvas_create_session'') (lit ''SafeCanvasCreateSession'') CANVAS_CREATE_SESSION_FIELDS,
     audited_op (lit ''canvas_stop_session'') (lit ''SafeCanvasStopSession'') CANVAS_STOP_SESSION_FIELDS,
     audited_op (lit ''canvas_create_work_item'') (lit ''SafeCanvasCreateWorkItem'') CANVAS_CREATE_WORK_ITEM_FIELDS,
     audited_op (lit ''canvas_repo_schedules'') (lit ''SafeCanvasRepoSchedules'') CANVAS_REPO_SCHEDULES_FIELDS,
     audited_op (lit ''canvas_schedule_detail'') (lit ''SafeCanvasScheduleDetail'') CANVAS_SCHEDULE_DETAIL_FIELDS,
     audited_op (lit ''canvas_schedule_run'') (lit ''SafeCanvasScheduleRun'') CANVAS_SCHEDULE_RUN_FIELDS,
     audited_op (lit ''canvas_pause_schedule'') (lit ''SafeCanvasPauseSchedule'') CANVAS_PAUSE_SCHEDULE_FIELDS,
     audited_op (lit ''canvas_resume_schedule'') (lit ''SafeCanvasResumeSchedule'') CANVAS_RESUME_SCHEDULE_FIELDS,
     audited_op (lit ''canvas_run_schedule_now'') (lit ''SafeCanvasRunScheduleNow'') CANVAS_RUN_SCHEDULE_NOW_FIELDS,
     audited_op (lit ''canvas_session_outcomes'') (lit ''SafeCanvasSessionOutcomes'') CANVAS_SESSION_OUTCOMES_FIELDS,
     audited_op (lit ''canvas_outcome_blob'') (lit ''SafeCanvasOutcomeBlob'') CANVAS_OUTCOME_BLOB_FIELDS,
     audited_op (lit ''observe_session'') (lit ''SafeObserveSession'') OBSERVE_SESSION_FIELDS,
     audited_op (lit ''operations_list_activity'') (lit ''SafeOperationsListActivity'') OPERATIONS_LIST_ACTIVITY_FIELDS,
     audited_op (lit ''operations_list_sandboxes'') (lit ''SafeOperationsListSandboxes'') OPERATIONS_LIST_SANDBOXES_FIELDS]"

definition UNDOCUMENTED_ROUTE_POLICIES :: "(str \<times> str \<times> operation_policy) list" where
  "UNDOCUMENTED_ROUTE_POLICIES = [(lit ''GET'', lit ''/openapi.json'', Excluded ContractDocument)]"

definition operation_in :: "audit_operation list \<Rightarrow> str \<Rightarrow> audit_operation option" where
  "operation_in table i = find (\<lambda>op. op_operation_id op = i) table"

definition operation_for :: "str \<Rightarrow> audit_operation option" where
  "operation_for i = operation_in OPERATION_POLICIES i"

definition policy_for :: "str \<Rightarrow> operation_policy option" where
  "policy_for i = map_option op_policy (operation_for i)"

definition arguments_policy_for :: "str \<Rightarrow> arguments_policy option" where
  "arguments_policy_for i = map_option op_arguments (operation_for i)"

definition default_arguments_status :: "str \<Rightarrow> arguments_parse_status" where
  "default_arguments_status i = (case arguments_policy_for i of Some p \<Rightarrow> default_status p | None \<Rightarrow> NotApplicable)"

definition undocumented_route_policy :: "str \<Rightarrow> str \<Rightarrow> operation_policy option" where
  "undocumented_route_policy m template =
     map_option (\<lambda>(_, _, p). p) (find (\<lambda>(m', t, _). m' = m \<and> t = template) UNDOCUMENTED_ROUTE_POLICIES)"

definition declared_operation_ids :: "str list" where
  "declared_operation_ids = map op_operation_id OPERATION_POLICIES"

section \<open>The catalog\<close>

datatype catalog_error =
    MissingOperationId str str | DuplicateOperationId str | DuplicateRoute str str | UnpolicedOperation str
  | MissingArgumentPolicy str

record catalog_entry =
  en_operation_id :: str
  en_policy :: operation_policy

datatype route_decision = RecordRoute str str | SkipRoute exclusion_reason

type_synonym catalog = "str \<times> str \<rightharpoonup> catalog_entry"

text \<open>A path item: the operation of each method slot; an operation has an id or none.\<close>

record path_item =
  pi_get :: "str option option"
  pi_put :: "str option option"
  pi_post :: "str option option"
  pi_delete :: "str option option"
  pi_options :: "str option option"
  pi_head :: "str option option"
  pi_patch :: "str option option"
  pi_trace :: "str option option"

definition operations :: "path_item \<Rightarrow> (str \<times> str option option) list" where
  "operations item =
     [(lit ''GET'', pi_get item), (lit ''PUT'', pi_put item), (lit ''POST'', pi_post item), (lit ''DELETE'', pi_delete item),
      (lit ''OPTIONS'', pi_options item), (lit ''HEAD'', pi_head item), (lit ''PATCH'', pi_patch item),
      (lit ''TRACE'', pi_trace item)]"

text \<open>The operations in the order the two loops meet them.\<close>

definition documented :: "(str \<times> path_item) list \<Rightarrow> (str \<times> str \<times> str option) list" where
  "documented doc =
     concat (map (\<lambda>(path, item). filter_map (\<lambda>(m, slot). map_option (\<lambda>i. (m, path, i)) slot) (operations item)) doc)"

fun build_catalog ::
  "audit_operation list \<Rightarrow> (str \<times> str \<times> str option) list \<Rightarrow> str set \<Rightarrow> catalog \<Rightarrow> catalog_error + catalog" where
  "build_catalog policies [] seen entries = Inr entries"
| "build_catalog policies ((m, path, i) # rest) seen entries =
     (case i of
        None \<Rightarrow> Inl (MissingOperationId m path)
      | Some i \<Rightarrow>
          if i \<in> seen then Inl (DuplicateOperationId i)
          else case operation_in policies i of
                 None \<Rightarrow> Inl (UnpolicedOperation i)
               | Some declared \<Rightarrow>
                   if is_audited (op_policy declared) \<and> op_arguments declared = NotRecorded
                   then Inl (MissingArgumentPolicy i)
                   else if entries (m, path) \<noteq> None then Inl (DuplicateRoute m path)
                   else build_catalog policies rest (insert i seen)
                          (entries((m, path) \<mapsto> \<lparr>en_operation_id = i, en_policy = op_policy declared\<rparr>)))"

definition from_openapi_with :: "audit_operation list \<Rightarrow> (str \<times> path_item) list \<Rightarrow> catalog_error + catalog" where
  "from_openapi_with policies doc = build_catalog policies (documented doc) {} Map.empty"

definition from_openapi :: "(str \<times> path_item) list \<Rightarrow> catalog_error + catalog" where
  "from_openapi doc = from_openapi_with OPERATION_POLICIES doc"

definition static_method :: "str \<Rightarrow> str option" where
  "static_method m =
     (if m \<in> {lit ''GET'', lit ''PUT'', lit ''POST'', lit ''DELETE'', lit ''OPTIONS'', lit ''HEAD'', lit ''PATCH'', lit ''TRACE''}
      then Some m else None)"

definition catalog_lookup :: "catalog \<Rightarrow> str \<Rightarrow> str \<Rightarrow> catalog_entry option" where
  "catalog_lookup c m template = (case static_method m of Some m' \<Rightarrow> c (m', template) | None \<Rightarrow> None)"

definition normalize_matched_path :: "str \<Rightarrow> str" where
  "normalize_matched_path matched =
     (if ch (CHR '':'') \<notin> set matched \<and> ch (CHR ''*'') \<notin> set matched then matched
      else join (lit ''/'') (map (\<lambda>seg.
             case seg of
               [] \<Rightarrow> seg
             | c # cs \<Rightarrow> if c = ch (CHR '':'') \<or> c = ch (CHR ''*'') then lit ''{'' @ cs @ lit ''}'' else seg)
           (split (ch (CHR ''/'')) matched)))"

definition declared_decision :: "catalog \<Rightarrow> str \<Rightarrow> str \<Rightarrow> route_decision option" where
  "declared_decision c m template =
     (case catalog_lookup c m template of
        Some entry \<Rightarrow>
          Some (case en_policy entry of Audited \<Rightarrow> RecordRoute (en_operation_id entry) template | Excluded r \<Rightarrow> SkipRoute r)
      | None \<Rightarrow>
          (case undocumented_route_policy m template of
             None \<Rightarrow> None
           | Some (Excluded r) \<Rightarrow> Some (SkipRoute r)
           | Some Audited \<Rightarrow> Some (RecordRoute UNMATCHED_OPERATION_ID template)))"

definition resolve :: "catalog \<Rightarrow> str \<Rightarrow> str option \<Rightarrow> route_decision" where
  "resolve c m matched =
     (if m = lit ''OPTIONS'' then SkipRoute CorsPreflight
      else case matched of
             None \<Rightarrow> RecordRoute UNMATCHED_OPERATION_ID UNMATCHED_ROUTE_TEMPLATE
           | Some matched \<Rightarrow>
               (let template = normalize_matched_path matched
                in case declared_decision c m template of
                     Some decision \<Rightarrow> decision
                   | None \<Rightarrow>
                       (case (if m = lit ''HEAD'' then declared_decision c (lit ''GET'') template else None) of
                          Some decision \<Rightarrow> decision
                        | None \<Rightarrow> RecordRoute UNMATCHED_OPERATION_ID template)))"

section \<open>Properties\<close>

lemma build_catalog_facts:
  assumes "build_catalog policies ops seen entries = Inr c"
  shows "entries k = Some e \<Longrightarrow> c k = Some e"
    "(m, path, i) \<in> set ops \<Longrightarrow> \<exists>j d. i = Some j \<and> operation_in policies j = Some d \<and>
       c (m, path) = Some \<lparr>en_operation_id = j, en_policy = op_policy d\<rparr> \<and>
       (is_audited (op_policy d) \<longrightarrow> op_arguments d \<noteq> NotRecorded)"
    "c k = Some e \<Longrightarrow> entries k = Some e \<or> (fst k, snd k, Some (en_operation_id e)) \<in> set ops \<and>
       (\<exists>d. operation_in policies (en_operation_id e) = Some d \<and> en_policy e = op_policy d)"
proof -
  have "(\<forall>k e. entries k = Some e \<longrightarrow> c k = Some e) \<and>
    (\<forall>m path i. (m, path, i) \<in> set ops \<longrightarrow> (\<exists>j d. i = Some j \<and> operation_in policies j = Some d \<and>
       c (m, path) = Some \<lparr>en_operation_id = j, en_policy = op_policy d\<rparr> \<and>
       (is_audited (op_policy d) \<longrightarrow> op_arguments d \<noteq> NotRecorded))) \<and>
    (\<forall>k e. c k = Some e \<longrightarrow> entries k = Some e \<or> (fst k, snd k, Some (en_operation_id e)) \<in> set ops \<and>
       (\<exists>d. operation_in policies (en_operation_id e) = Some d \<and> en_policy e = op_policy d))"
    using assms
  proof (induction policies ops seen entries rule: build_catalog.induct)
    case (2 policies m path i rest seen entries)
    then obtain j d where j: "i = Some j" "j \<notin> seen" "operation_in policies j = Some d"
        "\<not> (is_audited (op_policy d) \<and> op_arguments d = NotRecorded)" "entries (m, path) = None"
      by (auto split: option.splits if_splits)
    let ?entry = "\<lparr>en_operation_id = j, en_policy = op_policy d\<rparr>"
    have rest: "build_catalog policies rest (insert j seen) (entries((m, path) \<mapsto> ?entry)) = Inr c"
      using "2.prems" j by simp
    note IH = "2.IH" [OF j(1,2,3,4) _ rest]
    have keep: "\<And>k e. (entries((m, path) \<mapsto> ?entry)) k = Some e \<Longrightarrow> c k = Some e" using IH j(5) by blast
    have here: "c (m, path) = Some ?entry" by (rule keep) simp
    show ?case
    proof (intro conjI allI impI)
      show "c k = Some e" if "entries k = Some e" for k e
        using that j(5) by (intro keep) auto
      show "\<exists>j d. i' = Some j \<and> operation_in policies j = Some d \<and>
          c (m', path') = Some \<lparr>en_operation_id = j, en_policy = op_policy d\<rparr> \<and>
          (is_audited (op_policy d) \<longrightarrow> op_arguments d \<noteq> NotRecorded)" if "(m', path', i') \<in> set ((m, path, i) # rest)" for m' path' i'
        using that IH j here by auto
      show "entries k = Some e \<or> (fst k, snd k, Some (en_operation_id e)) \<in> set ((m, path, i) # rest) \<and>
          (\<exists>d. operation_in policies (en_operation_id e) = Some d \<and> en_policy e = op_policy d)" if "c k = Some e" for k e
      proof -
        have "(entries((m, path) \<mapsto> ?entry)) k = Some e \<or> (fst k, snd k, Some (en_operation_id e)) \<in> set rest \<and>
            (\<exists>d. operation_in policies (en_operation_id e) = Some d \<and> en_policy e = op_policy d)" using IH j(5) that by blast
        then show ?thesis using j(1,3) by (cases "k = (m, path)") auto
      qed
    qed
  qed simp
  then show "entries k = Some e \<Longrightarrow> c k = Some e"
    "(m, path, i) \<in> set ops \<Longrightarrow> \<exists>j d. i = Some j \<and> operation_in policies j = Some d \<and>
       c (m, path) = Some \<lparr>en_operation_id = j, en_policy = op_policy d\<rparr> \<and>
       (is_audited (op_policy d) \<longrightarrow> op_arguments d \<noteq> NotRecorded)"
    "c k = Some e \<Longrightarrow> entries k = Some e \<or> (fst k, snd k, Some (en_operation_id e)) \<in> set ops \<and>
       (\<exists>d. operation_in policies (en_operation_id e) = Some d \<and> en_policy e = op_policy d)"
    by blast+
qed

definition excluded_operations :: "str list" where
  "excluded_operations = [lit ''health'', lit ''readiness'', lit ''metrics'']"

lemma operation_in_excluded:
  assumes "operation_in OPERATION_POLICIES i = Some d" "op_policy d = Excluded r"
  shows "i \<in> set excluded_operations"
proof -
  have "list_all (\<lambda>op. op_policy op = Audited \<or> op_operation_id op \<in> set excluded_operations) OPERATION_POLICIES"
    by (simp add: OPERATION_POLICIES_def audited_op_def audited_without_arguments_def excluded_op_def excluded_operations_def)
  moreover have "d \<in> set OPERATION_POLICIES" "op_operation_id d = i"
    using assms(1) by (auto simp: operation_in_def find_Some_iff)
  ultimately show ?thesis using assms(2) by (auto simp: list_all_iff)
qed

lemma declared_skip:
  assumes "from_openapi doc = Inr c" "declared_decision c m template = Some (SkipRoute r)"
  shows "(\<exists>i \<in> set excluded_operations. (m, template, Some i) \<in> set (documented doc)) \<or>
    m = lit ''GET'' \<and> template = lit ''/openapi.json''"
proof (cases "catalog_lookup c m template")
  case None
  then show ?thesis
    using assms(2) by (auto simp: declared_decision_def undocumented_route_policy_def UNDOCUMENTED_ROUTE_POLICIES_def
        split: option.splits if_splits)
next
  case (Some e)
  then have e: "en_policy e = Excluded r" "c (m, template) = Some e"
    using assms(2) by (auto simp: declared_decision_def catalog_lookup_def static_method_def
        split: operation_policy.splits option.splits if_splits)
  note f = build_catalog_facts(3) [OF assms(1) [unfolded from_openapi_def from_openapi_with_def] e(2)]
  then obtain d where "operation_in OPERATION_POLICIES (en_operation_id e) = Some d" "op_policy d = Excluded r"
    using e(1) by auto
  then have "en_operation_id e \<in> set excluded_operations" by (rule operation_in_excluded)
  then show ?thesis using f by auto
qed

text \<open>
  Nothing escapes the audit trail silently. For every document whose catalog builds, a request is left out only
  when it is a preflight, when it addresses one of the three probe operations where the document puts them, or when
  it reads the contract document; every other documented operation is recorded under its own id and template.
\<close>

theorem audit_routing:
  assumes "from_openapi doc = Inr c"
  shows "(\<forall>m matched r. resolve c m matched = SkipRoute r \<longrightarrow>
      m = lit ''OPTIONS'' \<or>
      (\<exists>path m'. matched = Some path \<and> (m' = m \<or> m = lit ''HEAD'' \<and> m' = lit ''GET'') \<and>
         ((\<exists>i \<in> set excluded_operations. (m', normalize_matched_path path, Some i) \<in> set (documented doc)) \<or>
          m' = lit ''GET'' \<and> normalize_matched_path path = lit ''/openapi.json''))) \<and>
    (\<forall>m path i. (m, normalize_matched_path path, Some i) \<in> set (documented doc) \<longrightarrow> i \<notin> set excluded_operations \<longrightarrow>
      m \<noteq> lit ''OPTIONS'' \<longrightarrow> static_method m = Some m \<longrightarrow>
      resolve c m (Some path) = RecordRoute i (normalize_matched_path path))"
proof (intro conjI allI impI)
  fix m matched r
  assume r: "resolve c m matched = SkipRoute r"
  show "m = lit ''OPTIONS'' \<or>
      (\<exists>path m'. matched = Some path \<and> (m' = m \<or> m = lit ''HEAD'' \<and> m' = lit ''GET'') \<and>
         ((\<exists>i \<in> set excluded_operations. (m', normalize_matched_path path, Some i) \<in> set (documented doc)) \<or>
          m' = lit ''GET'' \<and> normalize_matched_path path = lit ''/openapi.json''))"
  proof (cases "m = lit ''OPTIONS''")
    case False
    then obtain path m' where p: "matched = Some path" "m' = m \<or> m = lit ''HEAD'' \<and> m' = lit ''GET''"
        "declared_decision c m' (normalize_matched_path path) = Some (SkipRoute r)"
      using r by (cases matched) (auto simp: resolve_def Let_def split: option.splits if_splits)
    then show ?thesis using declared_skip [OF assms p(3)] by blast
  qed simp
next
  fix m path i
  assume d: "(m, normalize_matched_path path, Some i) \<in> set (documented doc)" "i \<notin> set excluded_operations"
    "m \<noteq> lit ''OPTIONS''" "static_method m = Some m"
  obtain dc where dc: "operation_in OPERATION_POLICIES i = Some dc"
      "c (m, normalize_matched_path path) = Some \<lparr>en_operation_id = i, en_policy = op_policy dc\<rparr>"
    using build_catalog_facts(2) [OF assms [unfolded from_openapi_def from_openapi_with_def] d(1)] by auto
  then have "op_policy dc = Audited" using operation_in_excluded d(2) by (cases "op_policy dc") auto
  then show "resolve c m (Some path) = RecordRoute i (normalize_matched_path path)"
    using dc d by (simp add: resolve_def declared_decision_def catalog_lookup_def Let_def)
qed

definition sample_doc :: "(str \<times> path_item) list" where
  "sample_doc =
     [(lit ''/health'', \<lparr>pi_get = Some (Some (lit ''health'')), pi_put = None, pi_post = None, pi_delete = None,
        pi_options = None, pi_head = None, pi_patch = None, pi_trace = None\<rparr>)]"

theorem audit_routing_witness:
  "\<exists>c. from_openapi sample_doc = Inr c \<and> resolve c (lit ''GET'') (Some (lit ''/health'')) = SkipRoute Probe \<and>
     (\<forall>path. (lit ''POST'', normalize_matched_path path, Some (lit ''create_repo'')) \<in> set (documented sample_doc) \<longrightarrow>
        resolve c (lit ''POST'') (Some path) = RecordRoute (lit ''create_repo'') (normalize_matched_path path))"
proof -
  have d: "documented sample_doc = [(lit ''GET'', lit ''/health'', Some (lit ''health''))]"
    by (simp add: documented_def sample_doc_def operations_def)
  have "operation_in OPERATION_POLICIES (lit ''health'') = Some (excluded_op (lit ''health'') Probe)"
    by (simp add: operation_in_def OPERATION_POLICIES_def excluded_op_def)
  then obtain c where c: "from_openapi sample_doc = Inr c"
      "c (lit ''GET'', lit ''/health'') = Some \<lparr>en_operation_id = lit ''health'', en_policy = Excluded Probe\<rparr>"
    by (simp add: from_openapi_def from_openapi_with_def d is_audited_def excluded_op_def)
  then have "resolve c (lit ''GET'') (Some (lit ''/health'')) = SkipRoute Probe"
    by (simp add: resolve_def declared_decision_def catalog_lookup_def static_method_def normalize_matched_path_def Let_def
        str_simps)
  then show ?thesis
    using c audit_routing [OF c(1)] by (auto simp: excluded_operations_def static_method_def str_simps)
qed

end
