(* ===== verification/AuditProtocol.thy ===== *)
theory AuditProtocol
  imports AuditEvent Rfc3339 RuntimeIdentity
begin

text \<open>
  What the control plane and the durable relay exchange (\<open>audit_relay/protocol.rs\<close>): request starts, completions
  and lifecycle events with their projections to and from the domain records, the lifecycle contract
  (\<open>audit/lifecycle.rs\<close>, \<open>audit/lifecycle_validate.rs\<close>) and the records the reconciler builds
  (\<open>reconcile/lifecycle_audit.rs\<close>).

  RFC 3339 rendering with milliseconds and UUID parsing are library code: a \<open>codec\<close> and a parser are parameters,
  with what the code relies on in the locale \<open>millis_codec\<close>. A JSON body is the value it encodes.
\<close>

section \<open>Timestamps on the wire\<close>

definition whole_milli :: "instant \<Rightarrow> instant" where
  "whole_milli t = t div NANOS_PER_MILLI * NANOS_PER_MILLI"

lemma whole_milli_idem [simp]: "whole_milli (whole_milli t) = whole_milli t"
  by (simp add: whole_milli_def NANOS_PER_MILLI_def)

lemma whole_milli_mono: "s \<le> t \<Longrightarrow> whole_milli s \<le> whole_milli t"
  by (simp add: whole_milli_def NANOS_PER_MILLI_def zdiv_mono1)

lemma whole_milli_shift: "whole_milli (t + k * NANOS_PER_MILLI) = whole_milli t + k * NANOS_PER_MILLI"
  by (simp add: whole_milli_def NANOS_PER_MILLI_def distrib_right)

text \<open>What the protocol relies on of rendering and parsing: milliseconds survive, and the text has no blanks.\<close>

locale millis_codec =
  fixes cod :: codec
    and valid :: "instant \<Rightarrow> bool"
  assumes parse_render: "valid t \<Longrightarrow> from_rfc3339 cod (to_rfc3339 cod t) = Some (whole_milli t)"
    and no_blank: "valid t \<Longrightarrow> c \<in> set (to_rfc3339 cod t) \<Longrightarrow> \<not> is_whitespace c"
begin

lemma parse_trimmed: "valid t \<Longrightarrow> from_rfc3339 cod (trim (to_rfc3339 cod t)) = Some (whole_milli t)"
  using no_blank by (subst trim_plain) (auto simp: parse_render)

lemma render_inj: "valid s \<Longrightarrow> valid t \<Longrightarrow> to_rfc3339 cod s = to_rfc3339 cod t \<Longrightarrow> whole_milli s = whole_milli t"
  using parse_render by (metis option.inject)

end

definition millis_part :: "instant \<Rightarrow> nat" where
  "millis_part t = nat (t mod NANOS_PER_SEC div NANOS_PER_MILLI)"

definition millis_render :: "instant \<Rightarrow> str" where
  "millis_render t = butlast (utc_render t) @ [46, 48 + millis_part t div 100] @ dec2 (millis_part t mod 100) @ [ch (CHR ''Z'')]"

definition millis_parse :: "str \<Rightarrow> instant option" where
  "millis_parse x =
     (case drop 19 x of
        [dot, a, b, c, z] \<Rightarrow>
          if dot = 46 \<and> z = ch (CHR ''Z'') \<and> list_all is_ascii_digit [a, b, c]
          then map_option (\<lambda>s. s + int (100 * (a - 48) + undec2 b c) * NANOS_PER_MILLI) (utc_parse (take 19 x @ [ch (CHR ''Z'')]))
          else None
      | _ \<Rightarrow> None)"

definition millis_utc :: codec where
  "millis_utc = \<lparr>to_rfc3339 = millis_render, from_rfc3339 = millis_parse\<rparr>"

lemma milli_split:
  "t div NANOS_PER_SEC = t div NANOS_PER_MILLI div 1000"
  "t mod NANOS_PER_SEC div NANOS_PER_MILLI = t div NANOS_PER_MILLI mod 1000"
proof -
  show "t div NANOS_PER_SEC = t div NANOS_PER_MILLI div 1000"
    using zdiv_zmult2_eq [of 1000 t 1000000] by (simp add: NANOS_PER_SEC_def NANOS_PER_MILLI_def)
  have "t mod NANOS_PER_SEC = NANOS_PER_MILLI * (t div NANOS_PER_MILLI mod 1000) + t mod NANOS_PER_MILLI"
    using zmod_zmult2_eq [of 1000 t 1000000] by (simp add: NANOS_PER_SEC_def NANOS_PER_MILLI_def)
  then show "t mod NANOS_PER_SEC div NANOS_PER_MILLI = t div NANOS_PER_MILLI mod 1000"
    by (simp add: NANOS_PER_MILLI_def)
qed

lemma millis_part_less: "millis_part t < 1000"
  by (simp add: millis_part_def milli_split nat_less_iff)

lemma whole_second_millis: "whole_second t + int (millis_part t) * NANOS_PER_MILLI = whole_milli t"
proof -
  have "t div NANOS_PER_SEC * 1000 + int (millis_part t) = t div NANOS_PER_MILLI"
    by (simp add: millis_part_def milli_split)
  then have "(t div NANOS_PER_SEC * 1000 + int (millis_part t)) * NANOS_PER_MILLI = whole_milli t"
    by (simp add: whole_milli_def)
  then show ?thesis by (simp add: whole_second_def NANOS_PER_SEC_def NANOS_PER_MILLI_def distrib_right)
qed

lemma utc_render_shape: "length (utc_render t) = 20" "last (utc_render t) = ch (CHR ''Z'')"
  by (auto simp: utc_render_def dec2_def Let_def split: prod.splits)

lemma millis_parse_render:
  assumes "utc_valid t"
  shows "millis_parse (millis_render t) = Some (whole_milli t)"
proof -
  let ?m = "millis_part t"
  have len: "length (butlast (utc_render t)) = 19" by (simp add: utc_render_shape)
  have z: "butlast (utc_render t) @ [90] = utc_render t"
    using append_butlast_last_id [of "utc_render t"] utc_render_shape [of t] by force
  have m: "?m div 100 < 10" "?m mod 100 < 100" using millis_part_less [of t] by (simp_all add: div_less_iff_less_mult)
  have d: "is_ascii_digit (48 + ?m div 100)" using m(1) by (simp add: is_ascii_digit_def)
  have "100 * (?m div 100) + ?m mod 100 = ?m" by simp
  then have v: "int (100 * (48 + ?m div 100 - 48) + undec2 (48 + ?m mod 100 div 10) (48 + ?m mod 100 mod 10)) = int ?m"
    unfolding undec2_dec2 [OF m(2)] by simp
  show ?thesis
    unfolding millis_parse_def millis_render_def
    using len d digit_dec2 [of "?m mod 100"] m(2) v utc_parse_render [OF assms]
    by (simp add: dec2_def z whole_second_millis)
qed

interpretation ums: millis_codec millis_utc utc_valid
proof
  show "utc_valid t \<Longrightarrow> from_rfc3339 millis_utc (to_rfc3339 millis_utc t) = Some (whole_milli t)" for t
    by (simp add: millis_utc_def millis_parse_render)
  show "utc_valid t \<Longrightarrow> c \<in> set (to_rfc3339 millis_utc t) \<Longrightarrow> \<not> is_whitespace c" for t c
  proof -
    assume v: "utc_valid t" and c: "c \<in> set (to_rfc3339 millis_utc t)"
    have m: "millis_part t div 100 < 10" "millis_part t mod 100 < 100"
      using millis_part_less [of t] by (simp_all add: div_less_iff_less_mult)
    have "c \<in> set (utc_render t) \<or> c = 46 \<or> 48 \<le> c \<and> c \<le> 57 \<or> c = 90"
      using c m digit_dec2 [of "millis_part t mod 100"]
      by (auto simp: millis_utc_def millis_render_def dec2_def is_ascii_digit_def dest: in_set_butlastD)
    then have "32 < c \<and> c < 127" using utc_plain [OF v, of c] by auto
    then show ?thesis by (simp add: is_whitespace_def)
  qed
qed

section \<open>Request starts\<close>

definition PROTOCOL_SCHEMA_VERSION :: nat where "PROTOCOL_SCHEMA_VERSION = 1"

datatype protocol_error = ProtocolInvalid str | UnsupportedSchema nat

definition parse_instant :: "codec \<Rightarrow> str \<Rightarrow> str \<Rightarrow> protocol_error + instant" where
  "parse_instant cod field raw = ok_or (ProtocolInvalid field) (from_rfc3339 cod (trim raw))"

definition parse_uuid_field :: "(str \<Rightarrow> str option) \<Rightarrow> str \<Rightarrow> str \<Rightarrow> protocol_error + str" where
  "parse_uuid_field uuid field raw = ok_or (ProtocolInvalid field) (uuid (trim raw))"

definition parse_enum :: "str \<Rightarrow> str \<Rightarrow> (str \<Rightarrow> 'a option) \<Rightarrow> protocol_error + 'a" where
  "parse_enum field raw parse = ok_or (ProtocolInvalid field) (parse raw)"

record request_start =
  st_schema_version :: nat
  st_event_id :: str
  st_request_id :: str
  st_started_at :: str
  st_method :: str
  st_route_template :: str
  st_operation_id :: str
  st_service_version :: str
  st_deployment_environment :: str
  st_completion_deadline_at :: str

record start_identity =
  si_event_id :: str
  si_request_id :: str
  si_started_at :: instant
  si_method :: str
  si_route_template :: str
  si_operation_id :: str
  si_completion_deadline_at :: instant

definition to_identity :: "codec \<Rightarrow> (str \<Rightarrow> str option) \<Rightarrow> request_start \<Rightarrow> protocol_error + start_identity" where
  "to_identity cod uuid s =
     (if st_schema_version s \<noteq> PROTOCOL_SCHEMA_VERSION then Inl (UnsupportedSchema (st_schema_version s))
      else and_then (parse_uuid_field uuid (lit ''event_id'') (st_event_id s)) (\<lambda>event_id.
           and_then (parse_instant cod (lit ''started_at'') (st_started_at s)) (\<lambda>started_at.
           and_then (parse_instant cod (lit ''completion_deadline_at'') (st_completion_deadline_at s)) (\<lambda>dl.
             if dl < started_at then Inl (ProtocolInvalid (lit ''completion_deadline_at''))
             else Inr \<lparr>si_event_id = event_id, si_request_id = st_request_id s, si_started_at = started_at,
                   si_method = st_method s, si_route_template = st_route_template s,
                   si_operation_id = st_operation_id s, si_completion_deadline_at = dl\<rparr>))))"

definition start_deadline :: "codec \<Rightarrow> request_start \<Rightarrow> protocol_error + instant" where
  "start_deadline cod s = parse_instant cod (lit ''completion_deadline_at'') (st_completion_deadline_at s)"

section \<open>Completions\<close>

record actor_v1 =
  av1_kind :: str
  av1_id :: "int option"
  av1_login :: "str option"
  av1_authentication :: str

record principal_v1 =
  pv1_kind :: str
  pv1_id :: "str option"

record correlation_v1 =
  cv1_session_id :: "str option"
  cv1_repo_full_name :: "str option"
  cv1_installation_id :: "int option"
  cv1_trigger_issue :: "int option"
  cv1_webhook_delivery_id :: "str option"
  cv1_request_id :: "str option"

record request_completion =
  cm_schema_version :: nat
  cm_event_id :: str
  cm_request_id :: str
  cm_started_at :: str
  cm_completed_at :: str
  cm_method :: str
  cm_route_template :: str
  cm_operation_id :: str
  cm_arguments :: arguments
  cm_arguments_parse_status :: str
  cm_actor_id :: "int option"
  cm_actor :: actor_v1
  cm_principal :: principal_v1
  cm_status_code :: "nat option"
  cm_outcome :: str
  cm_error_code :: "str option"
  cm_duration_ms :: nat
  cm_session_id :: "str option"
  cm_correlation :: correlation_v1
  cm_service_version :: str
  cm_deployment_environment :: str

definition wire_actor :: "actor \<Rightarrow> actor_v1" where
  "wire_actor a = \<lparr>av1_kind = actor_kind_as_str (ac_kind a), av1_id = ac_id a, av1_login = ac_login a,
     av1_authentication = authentication_as_str (ac_authentication a)\<rparr>"

definition wire_principal :: "audit_principal \<Rightarrow> principal_v1" where
  "wire_principal p = \<lparr>pv1_kind = principal_kind_as_str (ap_kind p), pv1_id = ap_id p\<rparr>"

definition domain_actor :: "actor_v1 \<Rightarrow> protocol_error + actor" where
  "domain_actor a =
     and_then (parse_enum (lit ''actor.kind'') (av1_kind a) parse_actor_kind) (\<lambda>kind.
     and_then (parse_enum (lit ''actor.authentication'') (av1_authentication a) parse_authentication) (\<lambda>m.
       Inr \<lparr>ac_kind = kind, ac_id = av1_id a, ac_login = av1_login a, ac_authentication = m\<rparr>))"

definition domain_principal :: "principal_v1 \<Rightarrow> protocol_error + audit_principal" where
  "domain_principal p =
     and_then (parse_enum (lit ''principal.kind'') (pv1_kind p) parse_principal_kind) (\<lambda>kind.
       Inr \<lparr>ap_kind = kind, ap_id = pv1_id p\<rparr>)"

definition from_domain :: "codec \<Rightarrow> api_request_completed \<Rightarrow> request_completion" where
  "from_domain cod e =
     \<lparr>cm_schema_version = PROTOCOL_SCHEMA_VERSION,
      cm_event_id = ev_event_id e,
      cm_request_id = ev_request_id e,
      cm_started_at = to_rfc3339 cod (ev_started_at e),
      cm_completed_at = to_rfc3339 cod (ev_completed_at e),
      cm_method = ev_method e,
      cm_route_template = ev_route_template e,
      cm_operation_id = ev_operation_id e,
      cm_arguments = ev_arguments e,
      cm_arguments_parse_status = parse_status_as_str (ev_arguments_parse_status e),
      cm_actor_id = ev_actor_id e,
      cm_actor = wire_actor (ev_actor e),
      cm_principal = wire_principal (ev_principal e),
      cm_status_code = ev_status_code e,
      cm_outcome = outcome_as_str (ev_outcome e),
      cm_error_code = ev_error_code e,
      cm_duration_ms = ev_duration_ms e,
      cm_session_id = ev_session_id e,
      cm_correlation =
        \<lparr>cv1_session_id = co_session_id (ev_correlation e), cv1_repo_full_name = co_repo_full_name (ev_correlation e),
         cv1_installation_id = co_installation_id (ev_correlation e), cv1_trigger_issue = co_trigger_issue (ev_correlation e),
         cv1_webhook_delivery_id = co_webhook_delivery_id (ev_correlation e), cv1_request_id = None\<rparr>,
      cm_service_version = sv_version (ev_service e),
      cm_deployment_environment = sv_environment (ev_service e)\<rparr>"

definition to_domain :: "codec \<Rightarrow> (str \<Rightarrow> str option) \<Rightarrow> request_completion \<Rightarrow> protocol_error + api_request_completed" where
  "to_domain cod uuid w =
     (if cm_schema_version w \<noteq> PROTOCOL_SCHEMA_VERSION then Inl (UnsupportedSchema (cm_schema_version w))
      else and_then (parse_uuid_field uuid (lit ''event_id'') (cm_event_id w)) (\<lambda>event_id.
           and_then (parse_instant cod (lit ''started_at'') (cm_started_at w)) (\<lambda>started_at.
           and_then (parse_instant cod (lit ''completed_at'') (cm_completed_at w)) (\<lambda>completed_at.
           and_then (parse_enum (lit ''arguments_parse_status'') (cm_arguments_parse_status w) parse_parse_status) (\<lambda>status.
           and_then (domain_actor (cm_actor w)) (\<lambda>a.
           and_then (domain_principal (cm_principal w)) (\<lambda>p.
           and_then (parse_enum (lit ''outcome'') (cm_outcome w) parse_audit_outcome) (\<lambda>outcome.
             Inr \<lparr>ev_schema_version = SCHEMA_VERSION,
                  ev_event_id = event_id,
                  ev_request_id = cm_request_id w,
                  ev_started_at = started_at,
                  ev_completed_at = completed_at,
                  ev_method = cm_method w,
                  ev_route_template = cm_route_template w,
                  ev_operation_id = cm_operation_id w,
                  ev_arguments = cm_arguments w,
                  ev_arguments_parse_status = status,
                  ev_actor_id = cm_actor_id w,
                  ev_actor = a,
                  ev_principal = p,
                  ev_status_code = cm_status_code w,
                  ev_outcome = outcome,
                  ev_error_code = cm_error_code w,
                  ev_duration_ms = cm_duration_ms w,
                  ev_session_id = cm_session_id w,
                  ev_correlation =
                    \<lparr>co_session_id = cv1_session_id (cm_correlation w),
                     co_repo_full_name = cv1_repo_full_name (cm_correlation w),
                     co_installation_id = cv1_installation_id (cm_correlation w),
                     co_trigger_issue = cv1_trigger_issue (cm_correlation w),
                     co_webhook_delivery_id = cv1_webhook_delivery_id (cm_correlation w)\<rparr>,
                  ev_service = \<lparr>sv_version = cm_service_version w, sv_environment = cm_deployment_environment w\<rparr>\<rparr>))))))))"

section \<open>Lifecycle records\<close>

datatype lifecycle_action =
    CreateRequested | Created | CreateFailed | DeleteRequested | Deleted | DeleteFailed | IdentityBackfilled
  | IdentityConflict

definition lifecycle_actions :: "lifecycle_action list" where
  "lifecycle_actions =
     [CreateRequested, Created, CreateFailed, DeleteRequested, Deleted, DeleteFailed, IdentityBackfilled, IdentityConflict]"

fun lifecycle_action_as_str :: "lifecycle_action \<Rightarrow> str" where
  "lifecycle_action_as_str CreateRequested = lit ''create_requested''"
| "lifecycle_action_as_str Created = lit ''created''"
| "lifecycle_action_as_str CreateFailed = lit ''create_failed''"
| "lifecycle_action_as_str DeleteRequested = lit ''delete_requested''"
| "lifecycle_action_as_str Deleted = lit ''deleted''"
| "lifecycle_action_as_str DeleteFailed = lit ''delete_failed''"
| "lifecycle_action_as_str IdentityBackfilled = lit ''identity_backfilled''"
| "lifecycle_action_as_str IdentityConflict = lit ''identity_conflict''"

definition parse_lifecycle_action :: "str \<Rightarrow> lifecycle_action option" where
  "parse_lifecycle_action = parse_vocabulary lifecycle_action_as_str lifecycle_actions"

datatype lifecycle_reason =
    ReasonIdle | ReasonConfigChanged | ReasonTriggerClosed | TerminalCleanup | RuntimeNotFound | BackendUnavailable
  | InvalidMetadata | AttributionConflict

definition lifecycle_reasons :: "lifecycle_reason list" where
  "lifecycle_reasons =
     [ReasonIdle, ReasonConfigChanged, ReasonTriggerClosed, TerminalCleanup, RuntimeNotFound, BackendUnavailable,
      InvalidMetadata, AttributionConflict]"

fun lifecycle_reason_as_str :: "lifecycle_reason \<Rightarrow> str" where
  "lifecycle_reason_as_str ReasonIdle = lit ''idle''"
| "lifecycle_reason_as_str ReasonConfigChanged = lit ''config_changed''"
| "lifecycle_reason_as_str ReasonTriggerClosed = lit ''trigger_closed''"
| "lifecycle_reason_as_str TerminalCleanup = lit ''terminal_cleanup''"
| "lifecycle_reason_as_str RuntimeNotFound = lit ''runtime_not_found''"
| "lifecycle_reason_as_str BackendUnavailable = lit ''backend_unavailable''"
| "lifecycle_reason_as_str InvalidMetadata = lit ''invalid_metadata''"
| "lifecycle_reason_as_str AttributionConflict = lit ''attribution_conflict''"

definition parse_lifecycle_reason :: "str \<Rightarrow> lifecycle_reason option" where
  "parse_lifecycle_reason = parse_vocabulary lifecycle_reason_as_str lifecycle_reasons"

record lifecycle_attribution =
  la_creator_id :: "int option"
  la_creator_login :: "str option"
  la_trigger_author_id :: "int option"
  la_trigger_author_login :: "str option"

record lifecycle_correlation =
  lc_repo_full_name :: "str option"
  lc_installation_id :: "int option"
  lc_trigger_issue :: "int option"
  lc_request_id :: "str option"

record lifecycle_runtime =
  lr_runtime_id :: "str option"
  lr_created_at :: "instant option"
  lr_incarnation_hint :: "str option"

record sandbox_lifecycle =
  sl_schema_version :: nat
  sl_event_id :: str
  sl_occurred_at :: instant
  sl_action :: lifecycle_action
  sl_actor :: actor
  sl_principal :: audit_principal
  sl_session_id :: str
  sl_backend :: runtime_backend_kind
  sl_runtime :: lifecycle_runtime
  sl_attribution :: lifecycle_attribution
  sl_correlation :: lifecycle_correlation
  sl_reason_code :: "lifecycle_reason option"
  sl_service :: service_identity

definition LIFECYCLE_SCHEMA_VERSION :: nat where "LIFECYCLE_SCHEMA_VERSION = 1"

definition derive_lifecycle_event_id ::
  "(str \<Rightarrow> str) \<Rightarrow> codec \<Rightarrow> lifecycle_action \<Rightarrow> runtime_backend_kind \<Rightarrow> str \<Rightarrow> lifecycle_runtime \<Rightarrow> str" where
  "derive_lifecycle_event_id uuid_v5 cod action backend session_id rt =
     (let handle = (case (lr_runtime_id rt, lr_incarnation_hint rt) of
                      (Some i, _) \<Rightarrow> i | (None, Some h) \<Rightarrow> h | (None, None) \<Rightarrow> lit ''pending'');
          incarnation = (case lr_created_at rt of
                           Some at \<Rightarrow> handle @ [ch (CHR ''@'')] @ to_rfc3339 cod at | None \<Rightarrow> handle)
      in uuid_v5 (join (lit ''|'') [show_nat LIFECYCLE_SCHEMA_VERSION, lifecycle_action_as_str action,
           backend_kind_as_str backend, session_id, incarnation]))"

text \<open>The whole builder chain of one effect: \<open>new\<close>, \<open>with_runtime\<close>, \<open>with_attribution\<close>, \<open>with_correlation\<close>, \<open>with_reason\<close>.\<close>

definition new_lifecycle ::
  "(str \<Rightarrow> str) \<Rightarrow> codec \<Rightarrow> instant \<Rightarrow> lifecycle_action \<Rightarrow> runtime_backend_kind \<Rightarrow> str \<Rightarrow> audit_identity \<Rightarrow> service_identity \<Rightarrow>
   sandbox_lifecycle" where
  "new_lifecycle uuid_v5 cod now action backend session_id i service =
     (let rt = \<lparr>lr_runtime_id = None, lr_created_at = None, lr_incarnation_hint = None\<rparr>
      in \<lparr>sl_schema_version = LIFECYCLE_SCHEMA_VERSION,
          sl_event_id = derive_lifecycle_event_id uuid_v5 cod action backend session_id rt,
          sl_occurred_at = now, sl_action = action, sl_actor = ai_actor i, sl_principal = ai_principal i,
          sl_session_id = session_id, sl_backend = backend, sl_runtime = rt,
          sl_attribution = \<lparr>la_creator_id = None, la_creator_login = None, la_trigger_author_id = None,
            la_trigger_author_login = None\<rparr>,
          sl_correlation = \<lparr>lc_repo_full_name = None, lc_installation_id = None, lc_trigger_issue = None,
            lc_request_id = None\<rparr>,
          sl_reason_code = None, sl_service = service\<rparr>)"

definition with_runtime :: "(str \<Rightarrow> str) \<Rightarrow> codec \<Rightarrow> lifecycle_runtime \<Rightarrow> sandbox_lifecycle \<Rightarrow> sandbox_lifecycle" where
  "with_runtime uuid_v5 cod rt e =
     e\<lparr>sl_event_id := derive_lifecycle_event_id uuid_v5 cod (sl_action e) (sl_backend e) (sl_session_id e) rt,
       sl_runtime := rt\<rparr>"

definition lifecycle_bounded :: "str \<Rightarrow> str option \<Rightarrow> nat \<Rightarrow> event_error + unit" where
  "lifecycle_bounded field v limit =
     (case v of
        None \<Rightarrow> Inr ()
      | Some s \<Rightarrow> if s = [] then Inl (InvalidField field)
                  else if limit < RustStr.byte_len s then Inl (InvalidField field) else Inr ())"

definition validate_session_id :: "str \<Rightarrow> event_error + unit" where
  "validate_session_id s =
     (let alnum = (\<lambda>b. is_ascii_lowercase b \<or> is_ascii_digit b)
      in if s = [] then Inl (InvalidField (lit ''session_id''))
         else if 128 < RustStr.byte_len s then Inl (InvalidField (lit ''session_id''))
         else if \<not> alnum (hd s) \<or> \<not> alnum (last s) then Inl (InvalidField (lit ''session_id''))
         else if \<not> list_all (\<lambda>b. alnum b \<or> b = ch (CHR ''-'')) s then Inl (InvalidField (lit ''session_id''))
         else Inr ())"

definition validate_lifecycle :: "sandbox_lifecycle \<Rightarrow> event_error + unit" where
  "validate_lifecycle e =
     (if sl_schema_version e \<noteq> LIFECYCLE_SCHEMA_VERSION then Inl (InvalidField (lit ''schema_version''))
      else and_then (validate_session_id (sl_session_id e)) (\<lambda>_.
           and_then (lifecycle_bounded (lit ''runtime_id'') (lr_runtime_id (sl_runtime e)) 128) (\<lambda>_.
           and_then (lifecycle_bounded (lit ''incarnation_hint'') (lr_incarnation_hint (sl_runtime e)) 128) (\<lambda>_.
           and_then (lifecycle_bounded (lit ''creator_login'') (la_creator_login (sl_attribution e)) 64) (\<lambda>_.
           and_then (lifecycle_bounded (lit ''trigger_author_login'') (la_trigger_author_login (sl_attribution e)) 64) (\<lambda>_.
           and_then (lifecycle_bounded (lit ''actor_login'') (ac_login (sl_actor e)) 64) (\<lambda>_.
           and_then (lifecycle_bounded (lit ''principal_id'') (ap_id (sl_principal e)) 128) (\<lambda>_.
           and_then (lifecycle_bounded (lit ''repo_full_name'') (lc_repo_full_name (sl_correlation e)) 256) (\<lambda>_.
           and_then (lifecycle_bounded (lit ''request_id'') (lc_request_id (sl_correlation e)) 128) (\<lambda>_.
           and_then (lifecycle_bounded (lit ''service_version'') (Some (sv_version (sl_service e))) 64) (\<lambda>_.
             lifecycle_bounded (lit ''service_environment'') (Some (sv_environment (sl_service e))) 64)))))))))))"

record lifecycle_event =
  le_schema_version :: nat
  le_event_id :: str
  le_occurred_at :: str
  le_lifecycle_action :: str
  le_actor :: actor_v1
  le_principal :: principal_v1
  le_session_id :: str
  le_backend :: str
  le_runtime_id :: "str option"
  le_runtime_created_at :: "str option"
  le_incarnation_hint :: "str option"
  le_creator_id :: "int option"
  le_creator_login :: "str option"
  le_trigger_author_id :: "int option"
  le_trigger_author_login :: "str option"
  le_correlation :: correlation_v1
  le_reason_code :: "str option"
  le_service_version :: str
  le_deployment_environment :: str

definition lifecycle_from_domain :: "codec \<Rightarrow> sandbox_lifecycle \<Rightarrow> lifecycle_event" where
  "lifecycle_from_domain cod e =
     \<lparr>le_schema_version = PROTOCOL_SCHEMA_VERSION,
      le_event_id = sl_event_id e,
      le_occurred_at = to_rfc3339 cod (sl_occurred_at e),
      le_lifecycle_action = lifecycle_action_as_str (sl_action e),
      le_actor = wire_actor (sl_actor e),
      le_principal = wire_principal (sl_principal e),
      le_session_id = sl_session_id e,
      le_backend = backend_kind_as_str (sl_backend e),
      le_runtime_id = lr_runtime_id (sl_runtime e),
      le_runtime_created_at = map_option (to_rfc3339 cod) (lr_created_at (sl_runtime e)),
      le_incarnation_hint = lr_incarnation_hint (sl_runtime e),
      le_creator_id = la_creator_id (sl_attribution e),
      le_creator_login = la_creator_login (sl_attribution e),
      le_trigger_author_id = la_trigger_author_id (sl_attribution e),
      le_trigger_author_login = la_trigger_author_login (sl_attribution e),
      le_correlation =
        \<lparr>cv1_session_id = Some (sl_session_id e), cv1_repo_full_name = lc_repo_full_name (sl_correlation e),
         cv1_installation_id = lc_installation_id (sl_correlation e), cv1_trigger_issue = lc_trigger_issue (sl_correlation e),
         cv1_webhook_delivery_id = None, cv1_request_id = lc_request_id (sl_correlation e)\<rparr>,
      le_reason_code = map_option lifecycle_reason_as_str (sl_reason_code e),
      le_service_version = sv_version (sl_service e),
      le_deployment_environment = sv_environment (sl_service e)\<rparr>"

definition lifecycle_to_domain :: "codec \<Rightarrow> (str \<Rightarrow> str option) \<Rightarrow> lifecycle_event \<Rightarrow> protocol_error + sandbox_lifecycle" where
  "lifecycle_to_domain cod uuid w =
     (if le_schema_version w \<noteq> PROTOCOL_SCHEMA_VERSION then Inl (UnsupportedSchema (le_schema_version w))
      else
        and_then (transpose_opt (map_option (\<lambda>raw. parse_enum (lit ''reason_code'') raw parse_lifecycle_reason) (le_reason_code w))) (\<lambda>reason.
        and_then (transpose_opt (map_option (parse_instant cod (lit ''runtime_created_at'')) (le_runtime_created_at w))) (\<lambda>created_at.
        and_then (parse_uuid_field uuid (lit ''event_id'') (le_event_id w)) (\<lambda>event_id.
        and_then (parse_instant cod (lit ''occurred_at'') (le_occurred_at w)) (\<lambda>occurred_at.
        and_then (parse_enum (lit ''lifecycle_action'') (le_lifecycle_action w) parse_lifecycle_action) (\<lambda>action.
        and_then (domain_actor (le_actor w)) (\<lambda>a.
        and_then (domain_principal (le_principal w)) (\<lambda>p.
        and_then (parse_enum (lit ''backend'') (le_backend w) backend_kind_parse) (\<lambda>backend.
          Inr \<lparr>sl_schema_version = LIFECYCLE_SCHEMA_VERSION,
               sl_event_id = event_id,
               sl_occurred_at = occurred_at,
               sl_action = action,
               sl_actor = a,
               sl_principal = p,
               sl_session_id = le_session_id w,
               sl_backend = backend,
               sl_runtime = \<lparr>lr_runtime_id = le_runtime_id w, lr_created_at = created_at,
                 lr_incarnation_hint = le_incarnation_hint w\<rparr>,
               sl_attribution = \<lparr>la_creator_id = le_creator_id w, la_creator_login = le_creator_login w,
                 la_trigger_author_id = le_trigger_author_id w, la_trigger_author_login = le_trigger_author_login w\<rparr>,
               sl_correlation = \<lparr>lc_repo_full_name = cv1_repo_full_name (le_correlation w),
                 lc_installation_id = cv1_installation_id (le_correlation w),
                 lc_trigger_issue = cv1_trigger_issue (le_correlation w),
                 lc_request_id = cv1_request_id (le_correlation w)\<rparr>,
               sl_reason_code = reason,
               sl_service = \<lparr>sv_version = le_service_version w, sv_environment = le_deployment_environment w\<rparr>\<rparr>)))))))))"

section \<open>Round trips\<close>

lemma lifecycle_vocabulary_roundtrip [simp]:
  "parse_lifecycle_action (lifecycle_action_as_str act) = Some act"
  "parse_lifecycle_reason (lifecycle_reason_as_str rsn) = Some rsn"
  "backend_kind_parse (backend_kind_as_str k) = Some k"
proof -
  show "parse_lifecycle_action (lifecycle_action_as_str act) = Some act"
    by (cases act) (simp_all add: parse_lifecycle_action_def parse_vocabulary_def lifecycle_actions_def str_simps)
  show "parse_lifecycle_reason (lifecycle_reason_as_str rsn) = Some rsn"
    by (cases rsn) (simp_all add: parse_lifecycle_reason_def parse_vocabulary_def lifecycle_reasons_def str_simps)
  show "backend_kind_parse (backend_kind_as_str k) = Some k"
    by (cases k) (simp_all add: backend_kind_parse_def backend_kind_as_str_def str_simps)
qed

lemma domain_wire [simp]:
  "domain_actor (wire_actor a) = Inr a"
  "domain_principal (wire_principal p) = Inr p"
  by (simp_all add: domain_actor_def wire_actor_def domain_principal_def wire_principal_def parse_enum_def)

context millis_codec
begin

lemma parse_instant_render [simp]:
  "valid t \<Longrightarrow> parse_instant cod field (to_rfc3339 cod t) = Inr (whole_milli t)"
  by (simp add: parse_instant_def parse_trimmed)

lemma to_from_domain:
  assumes "uuid (trim (ev_event_id e)) = Some (ev_event_id e)" "valid (ev_started_at e)" "valid (ev_completed_at e)"
    "ev_schema_version e = SCHEMA_VERSION"
  shows "to_domain cod uuid (from_domain cod e) =
    Inr (e\<lparr>ev_started_at := whole_milli (ev_started_at e), ev_completed_at := whole_milli (ev_completed_at e)\<rparr>)"
  using assms by (simp add: to_domain_def from_domain_def parse_uuid_field_def parse_enum_def)

lemma lifecycle_to_from_domain:
  assumes "uuid (trim (sl_event_id e)) = Some (sl_event_id e)" "valid (sl_occurred_at e)"
    "\<And>t. lr_created_at (sl_runtime e) = Some t \<Longrightarrow> valid t" "sl_schema_version e = LIFECYCLE_SCHEMA_VERSION"
  shows "lifecycle_to_domain cod uuid (lifecycle_from_domain cod e) =
    Inr (e\<lparr>sl_occurred_at := whole_milli (sl_occurred_at e),
           sl_runtime := (sl_runtime e)\<lparr>lr_created_at := map_option whole_milli (lr_created_at (sl_runtime e))\<rparr>\<rparr>)"
  using assms
  by (cases "lr_created_at (sl_runtime e)"; cases "sl_reason_code e")
     (simp_all add: lifecycle_to_domain_def lifecycle_from_domain_def parse_uuid_field_def parse_enum_def)

end

lemma num_milliseconds_nonneg: "0 \<le> d \<Longrightarrow> num_milliseconds d = d div NANOS_PER_MILLI"
  by (cases "d = 0") (simp_all add: num_milliseconds_def)

lemma validate_wire_instants:
  assumes "validate e = Inr ()" "ev_completed_at e = ev_started_at e + k * NANOS_PER_MILLI"
  shows "validate (e\<lparr>ev_started_at := whole_milli (ev_started_at e), ev_completed_at := whole_milli (ev_completed_at e)\<rparr>) = Inr ()"
proof -
  let ?e = "e\<lparr>ev_started_at := whole_milli (ev_started_at e), ev_completed_at := whole_milli (ev_completed_at e)\<rparr>"
  have "whole_milli (ev_completed_at e) - whole_milli (ev_started_at e) = ev_completed_at e - ev_started_at e"
    by (simp add: assms(2) whole_milli_shift)
  then have "validate_timestamps ?e = validate_timestamps e" by (simp add: validate_timestamps_def)
  moreover have "validate_actor ?e = validate_actor e" "validate_principal ?e = validate_principal e"
      "validate_correlation ?e = validate_correlation e"
    by (simp_all add: validate_actor_def validate_principal_def validate_correlation_def Let_def)
  ultimately show ?thesis using assms(1) by (simp add: validate_Inr_iff)
qed



text \<open>
  A deployment that sets no environment name has an empty one. Request records may carry it; every lifecycle
  record of that deployment is refused.
\<close>

lemma lifecycle_without_environment_refused:
  "sv_environment (sl_service e) = [] \<Longrightarrow> validate_lifecycle e \<noteq> Inr ()"
  "bounded (lit ''service.version'') (sv_version s) 64 True = Inr () \<Longrightarrow> validate_service_identity (sv_version s) [] = Inr ()"
  by (simp_all add: validate_lifecycle_def and_then_Inr_iff lifecycle_bounded_def validate_service_identity_def bounded_def)

end
