(* ===== verification/ActivityQuery.thy ===== *)
theory ActivityQuery
  imports ActivityMerge AuditCatalog AuditProtocol
begin

text \<open>
  The scoped query of historical activity: the filter vocabulary and the time window (\<open>operations/filters.rs\<close>), the
  parameters and their normalization (\<open>routes/operations/query.rs\<close>), the cursor that binds a page to its query
  (\<open>operations/cursor.rs\<close>) and the handler with its gates (\<open>routes/operations/activity.rs\<close>).

  SHA-256 and the base64 and JSON encoding of the cursor payload are parameters, as are the sources of rows.
  Timestamps use a \<open>codec\<close>. Metrics are not modelled.
\<close>

section \<open>Filters\<close>

definition ALLOWED_METHODS :: "str list" where
  "ALLOWED_METHODS = [lit ''GET'', lit ''POST'', lit ''PUT'', lit ''PATCH'', lit ''DELETE'']"

datatype activity_http_error =
    BadParameter str | OperationsScopeForbidden scope_denial_reason | ActivitySessionNotFound
  | VisibilityUnavailable | InvalidActivityCursor | QueryRefused activity_error

datatype record_kind = KindApiRequest | KindSandboxLifecycle | KindAll

fun record_kind_as_str :: "record_kind \<Rightarrow> str" where
  "record_kind_as_str KindApiRequest = lit ''api_request''"
| "record_kind_as_str KindSandboxLifecycle = lit ''sandbox_lifecycle''"
| "record_kind_as_str KindAll = lit ''all''"

definition parse_record_kind :: "str \<Rightarrow> activity_http_error + record_kind" where
  "parse_record_kind v =
     (if trim v = lit ''api_request'' then Inr KindApiRequest
      else if trim v = lit ''sandbox_lifecycle'' then Inr KindSandboxLifecycle
      else if trim v = lit ''all'' then Inr KindAll
      else Inl (BadParameter (lit ''record_kind'')))"

definition includes_lifecycle :: "record_kind \<Rightarrow> bool" where
  "includes_lifecycle k \<longleftrightarrow> k = KindSandboxLifecycle \<or> k = KindAll"

definition includes_api_requests :: "record_kind \<Rightarrow> bool" where
  "includes_api_requests k \<longleftrightarrow> k = KindApiRequest \<or> k = KindAll"

datatype status_class = ClassSuccess | ClassRedirect | ClassClientError | ClassServerError

fun status_class_as_str :: "status_class \<Rightarrow> str" where
  "status_class_as_str ClassSuccess = lit ''2xx''"
| "status_class_as_str ClassRedirect = lit ''3xx''"
| "status_class_as_str ClassClientError = lit ''4xx''"
| "status_class_as_str ClassServerError = lit ''5xx''"

definition parse_status_class :: "str \<Rightarrow> activity_http_error + status_class" where
  "parse_status_class v =
     (if trim v = lit ''2xx'' then Inr ClassSuccess
      else if trim v = lit ''3xx'' then Inr ClassRedirect
      else if trim v = lit ''4xx'' then Inr ClassClientError
      else if trim v = lit ''5xx'' then Inr ClassServerError
      else Inl (BadParameter (lit ''status_class'')))"

fun status_class_bounds :: "status_class \<Rightarrow> nat \<times> nat" where
  "status_class_bounds ClassSuccess = (200, 300)"
| "status_class_bounds ClassRedirect = (300, 400)"
| "status_class_bounds ClassClientError = (400, 500)"
| "status_class_bounds ClassServerError = (500, 600)"

definition parse_outcome :: "str \<Rightarrow> activity_http_error + audit_outcome" where
  "parse_outcome v =
     ok_or (BadParameter (lit ''outcome''))
       (find (\<lambda>out. outcome_as_str out = trim v)
         [OutcomeSuccess, OutcomeRedirect, OutcomeClientError, OutcomeServerError, OutcomeTimeout, OutcomeRejected,
          OutcomeIncomplete])"

definition RESERVED_ARGUMENT_POLICIES :: "audit_operation list" where
  "RESERVED_ARGUMENT_POLICIES = []"

definition parse_operation_id :: "str \<Rightarrow> activity_http_error + str" where
  "parse_operation_id v =
     (if trim v = UNMATCHED_OPERATION_ID \<or> trim v \<in> set declared_operation_ids \<or>
         list_ex (\<lambda>op. op_operation_id op = trim v) RESERVED_ARGUMENT_POLICIES
      then Inr (trim v) else Inl (BadParameter (lit ''operation_id'')))"

record activity_filters =
  af_actor_id :: "int option"
  af_actor_login :: "str option"
  af_operation_id :: "str option"
  af_method :: "str option"
  af_status_code :: "nat option"
  af_status_class :: "status_class option"
  af_outcome :: "audit_outcome option"
  af_session_id :: "str option"
  af_repo_full_name :: "str option"
  af_trigger_issue :: "int option"
  af_request_id :: "str option"

text \<open>The \<open>field=value\<close> pairs, in a fixed order with absent fields left out.\<close>

definition binding_pairs :: "activity_filters \<Rightarrow> (str \<times> str) list" where
  "binding_pairs f =
     (let push = (\<lambda>key x. map (Pair key) (opt_list x))
      in push (lit ''actor_id'') (map_option show_int (af_actor_id f)) @
         push (lit ''actor_login'') (af_actor_login f) @
         push (lit ''operation_id'') (af_operation_id f) @
         push (lit ''method'') (af_method f) @
         push (lit ''status_code'') (map_option show_nat (af_status_code f)) @
         push (lit ''status_class'') (map_option status_class_as_str (af_status_class f)) @
         push (lit ''outcome'') (map_option outcome_as_str (af_outcome f)) @
         push (lit ''session_id'') (af_session_id f) @
         push (lit ''repo_full_name'') (af_repo_full_name f) @
         push (lit ''trigger_issue'') (map_option show_int (af_trigger_issue f)) @
         push (lit ''request_id'') (af_request_id f))"

definition key_value :: "str \<times> str \<Rightarrow> str" where
  "key_value kv = fst kv @ lit ''='' @ snd kv"

definition binding_fields :: "activity_filters \<Rightarrow> str list" where
  "binding_fields f = map key_value (binding_pairs f)"

definition ascii_upper :: "uchar \<Rightarrow> uchar" where
  "ascii_upper c = (if is_ascii_lowercase c then c - 32 else c)"

definition parse_method :: "str \<Rightarrow> activity_http_error + str" where
  "parse_method v =
     (let upper = map ascii_upper (trim v)
      in if upper \<in> set ALLOWED_METHODS then Inr upper else Inl (BadParameter (lit ''method'')))"

definition parse_status_code :: "nat \<Rightarrow> activity_http_error + nat" where
  "parse_status_code v = (if 100 \<le> v \<and> v \<le> 599 then Inr v else Inl (BadParameter (lit ''status_code'')))"

definition parse_repo_full_name :: "str \<Rightarrow> activity_http_error + str" where
  "parse_repo_full_name v =
     (let invalid = BadParameter (lit ''repo_full_name'')
      in and_then (ok_or invalid (split_once (ch (CHR ''/'')) (trim v))) (\<lambda>(owner, name).
         and_then (ok_or invalid (safe_owner owner)) (\<lambda>owner.
         and_then (ok_or invalid (safe_repo name)) (\<lambda>name.
           Inr (owner @ lit ''/'' @ name)))))"

definition parse_session_id :: "str \<Rightarrow> activity_http_error + str" where
  "parse_session_id v = ok_or (BadParameter (lit ''session_id'')) (safe_session_id v)"

definition parse_trigger_issue :: "int \<Rightarrow> activity_http_error + int" where
  "parse_trigger_issue v = (if 0 < v then Inr v else Inl (BadParameter (lit ''trigger_issue'')))"

definition parse_request_id :: "str \<Rightarrow> activity_http_error + str" where
  "parse_request_id v = (if is_acceptable (trim v) then Inr (trim v) else Inl (BadParameter (lit ''request_id'')))"

section \<open>The time window\<close>

record time_range =
  tr_from :: instant
  tr_to :: instant

definition DEFAULT_RANGE_HOURS :: int where "DEFAULT_RANGE_HOURS = 24"

definition check_range :: "time_range \<Rightarrow> instant \<Rightarrow> nat \<Rightarrow> activity_http_error + unit" where
  "check_range r now max_range_days =
     (if tr_to r \<le> tr_from r then Inl (BadParameter (lit ''from''))
      else if int max_range_days * NANOS_PER_DAY < tr_to r - tr_from r then Inl (BadParameter (lit ''range''))
      else if now < tr_from r then Inl (BadParameter (lit ''from''))
      else Inr ())"

definition parse_bound :: "codec \<Rightarrow> str \<Rightarrow> str \<Rightarrow> activity_http_error + instant" where
  "parse_bound cod field raw = ok_or (BadParameter field) (from_rfc3339 cod (trim raw))"

definition resolve_range ::
  "codec \<Rightarrow> str option \<Rightarrow> str option \<Rightarrow> instant \<Rightarrow> nat \<Rightarrow> activity_http_error + time_range" where
  "resolve_range cod from_bound to_bound now max_range_days =
     and_then (case to_bound of Some raw \<Rightarrow> parse_bound cod (lit ''to'') raw | None \<Rightarrow> Inr now) (\<lambda>t.
     and_then (case from_bound of Some raw \<Rightarrow> parse_bound cod (lit ''from'') raw
                                | None \<Rightarrow> Inr (t - DEFAULT_RANGE_HOURS * 3600 * NANOS_PER_SEC)) (\<lambda>f.
     and_then (check_range \<lparr>tr_from = f, tr_to = t\<rparr> now max_range_days) (\<lambda>_.
       Inr \<lparr>tr_from = f, tr_to = t\<rparr>)))"

section \<open>Parameters\<close>

record activity_params =
  qp_from :: "str option"
  qp_to :: "str option"
  qp_record_kind :: "str option"
  qp_actor_id :: "int option"
  qp_actor_login :: "str option"
  qp_operation_id :: "str option"
  qp_method :: "str option"
  qp_status_code :: "nat option"
  qp_status_class :: "str option"
  qp_outcome :: "str option"
  qp_session_id :: "str option"
  qp_repo_full_name :: "str option"
  qp_trigger_issue :: "int option"
  qp_request_id :: "str option"
  qp_cursor :: "str option"
  qp_limit :: "nat option"
  qp_scope :: "str option"

record normalized_request =
  nq_requested_scope :: "requested_scope option"
  nq_cross_actor_filter :: bool
  nq_record_kind :: record_kind
  nq_range :: time_range
  nq_range_explicit :: bool
  nq_limit :: nat
  nq_filters :: activity_filters
  nq_cursor :: "str option"

definition parse_scope :: "str \<Rightarrow> activity_http_error + requested_scope" where
  "parse_scope v =
     (if trim v = lit ''mine'' then Inr Personal else if trim v = lit ''all'' then Inr Global
      else Inl (BadParameter (lit ''scope'')))"

definition parse_actor_login :: "str \<Rightarrow> activity_http_error + str" where
  "parse_actor_login v =
     (let v = trim_start_matches (ch (CHR ''@'')) (trim v)
      in if v \<noteq> [] \<and> RustStr.byte_len v \<le> 39 \<and>
            list_all (\<lambda>c. is_ascii_alphanumeric c \<or> c = ch (CHR ''-'') \<or> c = ch (CHR ''_'')) v
         then Inr v else Inl (BadParameter (lit ''actor_login'')))"

text \<open>\<open>Option<Result>::transpose\<close> of an optional parameter and its parser.\<close>

definition transpose_opt :: "('a \<Rightarrow> 'e + 'b) \<Rightarrow> 'a option \<Rightarrow> 'e + 'b option" where
  "transpose_opt f x = (case x of None \<Rightarrow> Inr None | Some a \<Rightarrow> and_then (f a) (\<lambda>b. Inr (Some b)))"

definition normalize_params ::
  "codec \<Rightarrow> activity_params \<Rightarrow> instant \<Rightarrow> nat \<Rightarrow> nat \<Rightarrow> nat \<Rightarrow> activity_http_error + normalized_request" where
  "normalize_params cod ps now default_limit max_limit max_range_days =
     and_then (transpose_opt parse_scope (qp_scope ps)) (\<lambda>requested_scope.
     and_then (transpose_opt parse_record_kind (qp_record_kind ps)) (\<lambda>kind.
     and_then (resolve_range cod (qp_from ps) (qp_to ps) now max_range_days) (\<lambda>rng.
     and_then (case qp_limit ps of None \<Rightarrow> Inr default_limit
               | Some n \<Rightarrow> if 1 \<le> n \<and> n \<le> max_limit then Inr n else Inl (BadParameter (lit ''limit''))) (\<lambda>limit.
     and_then (transpose_opt parse_actor_login (qp_actor_login ps)) (\<lambda>login.
     and_then (transpose_opt parse_operation_id (qp_operation_id ps)) (\<lambda>operation_id.
     and_then (transpose_opt parse_method (qp_method ps)) (\<lambda>method.
     and_then (transpose_opt parse_status_code (qp_status_code ps)) (\<lambda>status_code.
     and_then (transpose_opt parse_status_class (qp_status_class ps)) (\<lambda>status_class.
     and_then (transpose_opt parse_outcome (qp_outcome ps)) (\<lambda>outcome.
     and_then (transpose_opt parse_session_id (qp_session_id ps)) (\<lambda>session_id.
     and_then (transpose_opt parse_repo_full_name (qp_repo_full_name ps)) (\<lambda>repo.
     and_then (transpose_opt parse_trigger_issue (qp_trigger_issue ps)) (\<lambda>issue.
     and_then (transpose_opt parse_request_id (qp_request_id ps)) (\<lambda>request_id.
       Inr \<lparr>nq_requested_scope = requested_scope,
            nq_cross_actor_filter = (qp_actor_id ps \<noteq> None \<or> qp_actor_login ps \<noteq> None),
            nq_record_kind = (case kind of Some k \<Rightarrow> k | None \<Rightarrow> KindApiRequest),
            nq_range = rng,
            nq_range_explicit = (qp_from ps \<noteq> None \<or> qp_to ps \<noteq> None),
            nq_limit = limit,
            nq_filters =
              \<lparr>af_actor_id = qp_actor_id ps, af_actor_login = login, af_operation_id = operation_id, af_method = method,
               af_status_code = status_code, af_status_class = status_class, af_outcome = outcome,
               af_session_id = session_id, af_repo_full_name = repo, af_trigger_issue = issue, af_request_id = request_id\<rparr>,
            nq_cursor = qp_cursor ps\<rparr>))))))))))))))"

section \<open>Cursors\<close>

definition CURSOR_VERSION :: nat where "CURSOR_VERSION = 1"
definition MAX_CURSOR_LEN :: nat where "MAX_CURSOR_LEN = 512"
definition DIGEST_HEX_LEN :: nat where "DIGEST_HEX_LEN = 32"
definition MAX_EVENT_ID_LEN :: nat where "MAX_EVENT_ID_LEN = 64"

record cursor_binding =
  cb_scope :: str
  cb_viewer_id :: "int option"
  cb_session_id :: "str option"
  cb_record_kind :: record_kind
  cb_range :: time_range
  cb_filters :: activity_filters

definition canonical_parts :: "codec \<Rightarrow> cursor_binding \<Rightarrow> str list" where
  "canonical_parts cod b =
     [lit ''v='' @ show_nat CURSOR_VERSION,
      lit ''scope='' @ cb_scope b,
      lit ''viewer='' @ (case cb_viewer_id b of Some i \<Rightarrow> show_int i | None \<Rightarrow> lit ''-''),
      lit ''session='' @ (case cb_session_id b of Some s \<Rightarrow> s | None \<Rightarrow> lit ''-''),
      lit ''kind='' @ record_kind_as_str (cb_record_kind b),
      lit ''from='' @ to_rfc3339 cod (tr_from (cb_range b)),
      lit ''to='' @ to_rfc3339 cod (tr_to (cb_range b))] @ binding_fields (cb_filters b)"

definition canonical :: "codec \<Rightarrow> cursor_binding \<Rightarrow> str" where
  "canonical cod b = join [31] (canonical_parts cod b)"

definition hex2 :: "nat \<Rightarrow> str" where
  "hex2 byte = (let digit = (\<lambda>d. if d < 10 then 48 + d else 87 + d) in [digit (byte div 16), digit (byte mod 16)])"

definition binding_digest :: "(str \<Rightarrow> nat list) \<Rightarrow> codec \<Rightarrow> cursor_binding \<Rightarrow> str" where
  "binding_digest sha256 cod b = concat (map hex2 (take (DIGEST_HEX_LEN div 2) (sha256 (canonical cod b))))"

record cursor_payload =
  cp_v :: nat
  cp_ts :: str
  cp_id :: str
  cp_f :: str
  cp_t :: str
  cp_d :: str

text \<open>The libraries behind a cursor: SHA-256, and base64 over JSON in both directions.\<close>

record cursor_library =
  cl_sha256 :: "str \<Rightarrow> nat list"
  cl_encode :: "cursor_payload \<Rightarrow> str"
  cl_decode :: "str \<Rightarrow> cursor_payload option"

definition encode_cursor :: "cursor_library \<Rightarrow> codec \<Rightarrow> cursor_key \<Rightarrow> cursor_binding \<Rightarrow> str" where
  "encode_cursor L cod key b =
     cl_encode L \<lparr>cp_v = CURSOR_VERSION, cp_ts = to_rfc3339 cod (fst key), cp_id = snd key,
       cp_f = to_rfc3339 cod (tr_from (cb_range b)), cp_t = to_rfc3339 cod (tr_to (cb_range b)),
       cp_d = binding_digest (cl_sha256 L) cod b\<rparr>"

definition cursor_id_ok :: "str \<Rightarrow> bool" where
  "cursor_id_ok i \<longleftrightarrow> i \<noteq> [] \<and> RustStr.byte_len i \<le> MAX_EVENT_ID_LEN \<and>
     list_all (\<lambda>c. is_ascii_alphanumeric c \<or> c = ch (CHR ''-'') \<or> c = ch (CHR ''_'')) i"

definition parse_payload :: "cursor_library \<Rightarrow> str \<Rightarrow> activity_http_error + cursor_payload" where
  "parse_payload L raw =
     (if raw = [] \<or> MAX_CURSOR_LEN < RustStr.byte_len raw then Inl InvalidActivityCursor
      else case cl_decode L raw of
             None \<Rightarrow> Inl InvalidActivityCursor
           | Some p \<Rightarrow>
               if cp_v p \<noteq> CURSOR_VERSION \<or> \<not> cursor_id_ok (cp_id p) then Inl InvalidActivityCursor else Inr p)"

definition parse_cursor_instant :: "codec \<Rightarrow> str \<Rightarrow> activity_http_error + instant" where
  "parse_cursor_instant cod raw = ok_or InvalidActivityCursor (from_rfc3339 cod raw)"

definition peek_range :: "cursor_library \<Rightarrow> codec \<Rightarrow> str \<Rightarrow> activity_http_error + time_range" where
  "peek_range L cod raw =
     and_then (parse_payload L raw) (\<lambda>p.
     and_then (parse_cursor_instant cod (cp_f p)) (\<lambda>f.
     and_then (parse_cursor_instant cod (cp_t p)) (\<lambda>t.
       if t \<le> f then Inl InvalidActivityCursor else Inr \<lparr>tr_from = f, tr_to = t\<rparr>)))"

definition decode_cursor_key :: "cursor_library \<Rightarrow> codec \<Rightarrow> str \<Rightarrow> cursor_binding \<Rightarrow> activity_http_error + cursor_key" where
  "decode_cursor_key L cod raw b =
     and_then (parse_payload L raw) (\<lambda>p.
     and_then (parse_cursor_instant cod (cp_ts p)) (\<lambda>ts.
       if cp_d p \<noteq> binding_digest (cl_sha256 L) cod b then Inl InvalidActivityCursor else Inr (ts, cp_id p)))"

section \<open>The handler\<close>

record activity_config =
  xc_default_limit :: nat
  xc_max_limit :: nat
  xc_max_range_days :: nat
  xc_access :: access_policy
  xc_log_admins :: "str list"

definition lifecycle_session ::
  "registry \<Rightarrow> activity_config \<Rightarrow> authenticated_viewer \<Rightarrow> viewer_scope \<Rightarrow> normalized_request \<Rightarrow> activity_http_error + str option" where
  "lifecycle_session reg cfg viewer scope req =
     (if is_global scope \<or> \<not> includes_lifecycle (nq_record_kind req) then Inr None
      else case af_session_id (nq_filters req) of
             None \<Rightarrow> Inl ActivitySessionNotFound
           | Some sid \<Rightarrow>
               (case authorize_session_visibility reg viewer scope (xc_access cfg) (xc_log_admins cfg) sid of
                  Inl SandboxNotFound \<Rightarrow> Inl ActivitySessionNotFound
                | Inl SessionVisibilityUnavailable \<Rightarrow> Inl VisibilityUnavailable
                | Inr decision \<Rightarrow>
                    (case authorize_lifecycle_session sid decision of
                       Some s \<Rightarrow> Inr (Some s)
                     | None \<Rightarrow> Inl ActivitySessionNotFound)))"

definition resumed_range ::
  "cursor_library \<Rightarrow> codec \<Rightarrow> normalized_request \<Rightarrow> instant \<Rightarrow> nat \<Rightarrow> activity_http_error + time_range" where
  "resumed_range L cod req now max_range_days =
     (case nq_cursor req of
        None \<Rightarrow> Inr (nq_range req)
      | Some raw \<Rightarrow>
          and_then (peek_range L cod raw) (\<lambda>rng.
            case check_range rng now max_range_days of
              Inl _ \<Rightarrow> Inl InvalidActivityCursor
            | Inr _ \<Rightarrow>
                if nq_range_explicit req \<and> rng \<noteq> nq_range req then Inl InvalidActivityCursor else Inr rng))"

definition decode_cursor ::
  "cursor_library \<Rightarrow> codec \<Rightarrow> normalized_request \<Rightarrow> cursor_binding \<Rightarrow> activity_http_error + cursor_key option" where
  "decode_cursor L cod req b =
     (case nq_cursor req of None \<Rightarrow> Inr None | Some raw \<Rightarrow> and_then (decode_cursor_key L cod raw b) (\<lambda>k. Inr (Some k)))"

definition scope_request_of :: "normalized_request \<Rightarrow> scope_request" where
  "scope_request_of req =
     (let base = new_scope_request (nq_requested_scope req)
      in if nq_cross_actor_filter req then with_cross_actor_filter base else base)"

definition activity_binding ::
  "authenticated_viewer \<Rightarrow> viewer_scope \<Rightarrow> str option \<Rightarrow> normalized_request \<Rightarrow> time_range \<Rightarrow> cursor_binding" where
  "activity_binding viewer scope session req rng =
     \<lparr>cb_scope = scope_as_str scope, cb_viewer_id = (if is_global scope then None else Some (viewer_id viewer)),
      cb_session_id = session, cb_record_kind = nq_record_kind req, cb_range = rng, cb_filters = nq_filters req\<rparr>"

text \<open>What a source is asked; it answers for a cursor and a fetch limit.\<close>

record source_query =
  sy_constraint :: activity_constraint
  sy_record_kind :: record_kind
  sy_range :: time_range
  sy_filters :: activity_filters

record activity_page =
  ap_items :: "activity_record list"
  ap_range :: time_range
  ap_next_cursor :: "str option"

definition operations_list_activity ::
  "cursor_library \<Rightarrow> codec \<Rightarrow> registry \<Rightarrow> activity_config \<Rightarrow> activity_concurrency \<Rightarrow> activity_counters \<Rightarrow>
   (source_query \<Rightarrow> activity_sources) \<Rightarrow> authenticated_viewer \<Rightarrow> instant \<Rightarrow> activity_params \<Rightarrow> activity_http_error + activity_page" where
  "operations_list_activity L cod reg cfg lim ct sources viewer now ps =
     and_then (normalize_params cod ps now (xc_default_limit cfg) (xc_max_limit cfg) (xc_max_range_days cfg)) (\<lambda>req.
     and_then (case resolve_scope viewer (scope_request_of req) of Inl d \<Rightarrow> Inl (OperationsScopeForbidden d) | Inr s \<Rightarrow> Inr s) (\<lambda>scope.
     and_then (lifecycle_session reg cfg viewer scope req) (\<lambda>session.
     and_then (resumed_range L cod req now (xc_max_range_days cfg)) (\<lambda>rng.
       (let b = activity_binding viewer scope session req rng;
            c = for_scope scope session
        in and_then (decode_cursor L cod req b) (\<lambda>cursor.
             case run_query lim ct (sources \<lparr>sy_constraint = c, sy_record_kind = nq_record_kind req, sy_range = rng,
                      sy_filters = nq_filters req\<rparr>) (viewer_id viewer) c cursor (nq_limit req) of
               Inl e \<Rightarrow> Inl (QueryRefused e)
             | Inr page \<Rightarrow>
                 Inr \<lparr>ap_items = mp_items page, ap_range = rng,
                      ap_next_cursor = map_option (\<lambda>k. encode_cursor L cod k b) (mp_next_key page)\<rparr>))))))"

section \<open>The canonical text identifies the query\<close>

text \<open>What the cursor needs of timestamps beyond the wire: no separator, and only milliseconds are rendered.\<close>

locale cursor_codec = millis_codec +
  assumes no_separator: "valid t \<Longrightarrow> 31 \<notin> set (to_rfc3339 cod t)"
    and render_milli: "valid t \<Longrightarrow> to_rfc3339 cod (whole_milli t) = to_rfc3339 cod t"
begin

lemma render_eq_iff: "valid s \<Longrightarrow> valid t \<Longrightarrow> to_rfc3339 cod s = to_rfc3339 cod t \<longleftrightarrow> whole_milli s = whole_milli t"
  using render_inj [of s t] render_milli [of s] render_milli [of t] by auto

end

lemma millis_render_plain: "utc_valid t \<Longrightarrow> c \<in> set (to_rfc3339 millis_utc t) \<Longrightarrow> 32 < c \<and> c < 127"
proof -
  assume v: "utc_valid t" and c: "c \<in> set (to_rfc3339 millis_utc t)"
  have m: "millis_part t div 100 < 10" "millis_part t mod 100 < 100"
    using millis_part_less [of t] by (simp_all add: div_less_iff_less_mult)
  have "c \<in> set (utc_render t) \<or> c = 46 \<or> 48 \<le> c \<and> c \<le> 57 \<or> c = 90"
    using c m digit_dec2 [of "millis_part t mod 100"]
    by (auto simp: millis_utc_def millis_render_def dec2_def is_ascii_digit_def dest: in_set_butlastD)
  then show "32 < c \<and> c < 127" using utc_plain [OF v, of c] by auto
qed

lemma milli_div [simp]:
  "whole_milli t div NANOS_PER_SEC = t div NANOS_PER_SEC" "whole_milli t div NANOS_PER_DAY = t div NANOS_PER_DAY"
  "whole_milli t mod NANOS_PER_SEC div NANOS_PER_MILLI = t mod NANOS_PER_SEC div NANOS_PER_MILLI"
proof -
  have w: "whole_milli t div NANOS_PER_MILLI = t div NANOS_PER_MILLI" by (simp add: whole_milli_def NANOS_PER_MILLI_def)
  then show s: "whole_milli t div NANOS_PER_SEC = t div NANOS_PER_SEC"
    "whole_milli t mod NANOS_PER_SEC div NANOS_PER_MILLI = t mod NANOS_PER_SEC div NANOS_PER_MILLI"
    by (simp_all add: milli_split)
  have "x div NANOS_PER_DAY = x div NANOS_PER_SEC div 86400" for x
    using zdiv_zmult2_eq [of 86400 x NANOS_PER_SEC] by (simp add: NANOS_PER_SEC_def NANOS_PER_DAY_def)
  then show "whole_milli t div NANOS_PER_DAY = t div NANOS_PER_DAY" using s(1) by simp
qed

interpretation cms: cursor_codec millis_utc utc_valid
proof
  show "utc_valid t \<Longrightarrow> 31 \<notin> set (to_rfc3339 millis_utc t)" for t using millis_render_plain [of t 31] by auto
  show "utc_valid t \<Longrightarrow> to_rfc3339 millis_utc (whole_milli t) = to_rfc3339 millis_utc t" for t
    by (simp add: millis_utc_def millis_render_def utc_render_def date_naive_def millis_part_def milli_div)
qed

lemma lookup_pushed:
  "map_of (map (Pair k) (opt_list x) @ rest) q =
     (if q = k then (case x of Some v \<Rightarrow> Some v | None \<Rightarrow> map_of rest q) else map_of rest q)"
  by (simp add: opt_list_def split: option.split)

lemma binding_lookup:
  "map_of (binding_pairs f) (lit ''actor_id'') = map_option show_int (af_actor_id f)"
  "map_of (binding_pairs f) (lit ''actor_login'') = af_actor_login f"
  "map_of (binding_pairs f) (lit ''operation_id'') = af_operation_id f"
  "map_of (binding_pairs f) (lit ''method'') = af_method f"
  "map_of (binding_pairs f) (lit ''status_code'') = map_option show_nat (af_status_code f)"
  "map_of (binding_pairs f) (lit ''status_class'') = map_option status_class_as_str (af_status_class f)"
  "map_of (binding_pairs f) (lit ''outcome'') = map_option outcome_as_str (af_outcome f)"
  "map_of (binding_pairs f) (lit ''session_id'') = af_session_id f"
  "map_of (binding_pairs f) (lit ''repo_full_name'') = af_repo_full_name f"
  "map_of (binding_pairs f) (lit ''trigger_issue'') = map_option show_int (af_trigger_issue f)"
  "map_of (binding_pairs f) (lit ''request_id'') = af_request_id f"
  unfolding binding_pairs_def Let_def lookup_pushed
  by (simp_all add: opt_list_def str_simps split: option.split)

lemma status_class_inj: "status_class_as_str a = status_class_as_str b \<longleftrightarrow> a = b"
  by (cases a; cases b; simp add: str_simps)

lemma outcome_inj: "outcome_as_str a = outcome_as_str b \<longleftrightarrow> a = b"
  by (metis vocabulary_roundtrip(4) option.inject)

lemma record_kind_inj: "record_kind_as_str a = record_kind_as_str b \<longleftrightarrow> a = b"
  by (cases a; cases b; simp add: str_simps)

lemma binding_pairs_inj:
  assumes "binding_pairs f = binding_pairs g"
  shows "f = g"
proof -
  note eq = arg_cong [OF assms, of "\<lambda>ps. map_of ps k" for k]
  have inj: "inj show_int" "inj show_nat" "inj status_class_as_str" "inj outcome_as_str"
    by (auto intro!: injI dest: show_int_inj show_nat_inj simp: status_class_inj outcome_inj)
  have "af_actor_id f = af_actor_id g" "af_status_code f = af_status_code g" "af_status_class f = af_status_class g"
      "af_outcome f = af_outcome g" "af_trigger_issue f = af_trigger_issue g"
    using eq [of "lit ''actor_id''"] eq [of "lit ''status_code''"] eq [of "lit ''status_class''"] eq [of "lit ''outcome''"]
      eq [of "lit ''trigger_issue''"] inj
    unfolding binding_lookup by (metis option.inj_map_strong injD)+
  moreover have "af_actor_login f = af_actor_login g" "af_operation_id f = af_operation_id g" "af_method f = af_method g"
      "af_session_id f = af_session_id g" "af_repo_full_name f = af_repo_full_name g" "af_request_id f = af_request_id g"
    using eq [of "lit ''actor_login''"] eq [of "lit ''operation_id''"] eq [of "lit ''method''"] eq [of "lit ''session_id''"]
      eq [of "lit ''repo_full_name''"] eq [of "lit ''request_id''"] unfolding binding_lookup by blast+
  ultimately show ?thesis by (intro activity_filters.equality) simp_all
qed

definition plain_keys :: "(str \<times> str) list \<Rightarrow> bool" where
  "plain_keys ps \<longleftrightarrow> (\<forall>kv \<in> set ps. 61 \<notin> set (fst kv) \<and> 31 \<notin> set (fst kv))"

lemma plain_keys_push:
  "61 \<notin> set k \<Longrightarrow> 31 \<notin> set k \<Longrightarrow> plain_keys rest \<Longrightarrow> plain_keys (map (Pair k) (opt_list x) @ rest)"
  "61 \<notin> set k \<Longrightarrow> 31 \<notin> set k \<Longrightarrow> plain_keys (map (Pair k) (opt_list x))"
  by (auto simp: plain_keys_def)

lemma binding_keys_plain: "plain_keys (binding_pairs f)"
  unfolding binding_pairs_def Let_def by (intro plain_keys_push) (simp_all add: str_simps)

lemma key_value_inj:
  assumes "61 \<notin> set (fst kv)" "61 \<notin> set (fst kv')" "key_value kv = key_value kv'"
  shows "kv = kv'"
proof -
  have "split_once 61 (key_value kv) = Some kv" "split_once 61 (key_value kv') = Some kv'"
    using assms(1,2) by (simp_all add: key_value_def str_simps)
  then show ?thesis unfolding assms(3) by (metis option.inject)
qed

lemma binding_fields_inj:
  assumes "binding_fields f = binding_fields g"
  shows "f = g"
proof (rule binding_pairs_inj)
  have "inj_on key_value (set (binding_pairs f) \<union> set (binding_pairs g))"
    using binding_keys_plain [of f] binding_keys_plain [of g] by (intro inj_onI key_value_inj) (auto simp: plain_keys_def)
  then show "binding_pairs f = binding_pairs g"
    using assms inj_on_map_eq_map unfolding binding_fields_def by blast
qed


definition plain_opt :: "str option \<Rightarrow> bool" where
  "plain_opt x \<longleftrightarrow> (\<forall>v. x = Some v \<longrightarrow> 31 \<notin> set v)"

definition wf_filters :: "activity_filters \<Rightarrow> bool" where
  "wf_filters f \<longleftrightarrow>
     plain_opt (af_actor_login f) \<and> plain_opt (af_operation_id f) \<and> plain_opt (af_method f) \<and>
     plain_opt (af_session_id f) \<and> plain_opt (af_repo_full_name f) \<and> plain_opt (af_request_id f)"

text \<open>A binding as the handler builds it.\<close>

definition wf_binding :: "(instant \<Rightarrow> bool) \<Rightarrow> cursor_binding \<Rightarrow> bool" where
  "wf_binding ok b \<longleftrightarrow>
     cb_scope b \<in> {lit ''mine'', lit ''all''} \<and>
     (cb_viewer_id b = None \<longleftrightarrow> cb_scope b = lit ''all'') \<and>
     (cb_session_id b = None \<longleftrightarrow> \<not> (cb_scope b = lit ''mine'' \<and> includes_lifecycle (cb_record_kind b))) \<and>
     plain_opt (cb_session_id b) \<and> wf_filters (cb_filters b) \<and> ok (tr_from (cb_range b)) \<and> ok (tr_to (cb_range b))"

lemma show_plain: "31 \<notin> set (show_nat n)" "31 \<notin> set (show_int i)"
  using show_nat_digits [of 31] by (auto simp: show_int_def is_ascii_digit_def)

lemma vocabulary_plain:
  "31 \<notin> set (status_class_as_str c)" "31 \<notin> set (outcome_as_str out)" "31 \<notin> set (record_kind_as_str k)"
  by (cases c, simp_all add: str_simps) (cases out; cases k; simp add: str_simps)+

lemma pair_values_plain:
  "plain_opt x \<Longrightarrow> (\<forall>kv \<in> set rest. 31 \<notin> set (snd kv)) \<Longrightarrow> (\<forall>kv \<in> set (map (Pair k) (opt_list x) @ rest). 31 \<notin> set (snd kv))"
  "plain_opt x \<Longrightarrow> (\<forall>kv \<in> set (map (Pair k) (opt_list x)). 31 \<notin> set (snd kv))"
  by (auto simp: plain_opt_def opt_list_def split: option.splits)

lemma binding_values_plain:
  assumes "wf_filters f"
  shows "\<forall>kv \<in> set (binding_pairs f). 31 \<notin> set (snd kv)"
  unfolding binding_pairs_def Let_def
  using assms by (intro pair_values_plain) (auto simp: wf_filters_def plain_opt_def show_plain vocabulary_plain)

lemma binding_fields_plain:
  assumes "wf_filters f" "x \<in> set (binding_fields f)"
  shows "31 \<notin> set x"
proof -
  obtain kv where "kv \<in> set (binding_pairs f)" "x = key_value kv" using assms(2) by (auto simp: binding_fields_def)
  then show ?thesis
    using binding_values_plain [OF assms(1)] binding_keys_plain [of f] by (auto simp: key_value_def plain_keys_def str_simps)
qed


context cursor_codec
begin

lemma canonical_parts_plain:
  assumes "wf_binding valid b" "x \<in> set (canonical_parts cod b)"
  shows "31 \<notin> set x"
proof -
  have w: "31 \<notin> set (cb_scope b)" "plain_opt (cb_session_id b)" "wf_filters (cb_filters b)"
      "31 \<notin> set (to_rfc3339 cod (tr_from (cb_range b)))" "31 \<notin> set (to_rfc3339 cod (tr_to (cb_range b)))"
    using assms(1) no_separator by (auto simp: wf_binding_def str_simps)
  from assms(2) consider "x \<in> set (binding_fields (cb_filters b))"
    | "x \<in> {lit ''v='' @ show_nat CURSOR_VERSION, lit ''scope='' @ cb_scope b,
        lit ''viewer='' @ (case cb_viewer_id b of Some i \<Rightarrow> show_int i | None \<Rightarrow> lit ''-''),
        lit ''session='' @ (case cb_session_id b of Some s \<Rightarrow> s | None \<Rightarrow> lit ''-''),
        lit ''kind='' @ record_kind_as_str (cb_record_kind b), lit ''from='' @ to_rfc3339 cod (tr_from (cb_range b)),
        lit ''to='' @ to_rfc3339 cod (tr_to (cb_range b))}"
    unfolding canonical_parts_def by auto
  then show ?thesis
  proof cases
    case 1
    then show ?thesis by (rule binding_fields_plain [OF w(3)])
  next
    case 2
    then show ?thesis using w show_plain vocabulary_plain(3)
      by (auto simp: str_simps plain_opt_def split: option.splits)
  qed
qed

lemma canonical_inj:
  assumes "wf_binding valid b" "wf_binding valid b'" "canonical cod b = canonical cod b'"
  shows "cb_scope b = cb_scope b' \<and> cb_viewer_id b = cb_viewer_id b' \<and> cb_session_id b = cb_session_id b' \<and>
    cb_record_kind b = cb_record_kind b' \<and> cb_filters b = cb_filters b' \<and>
    whole_milli (tr_from (cb_range b)) = whole_milli (tr_from (cb_range b')) \<and>
    whole_milli (tr_to (cb_range b)) = whole_milli (tr_to (cb_range b'))"
proof -
  have ne: "canonical_parts cod x \<noteq> []" for x by (simp add: canonical_parts_def)
  have "split 31 (canonical cod b) = canonical_parts cod b" "split 31 (canonical cod b') = canonical_parts cod b'"
    unfolding canonical_def by (intro split_join ne canonical_parts_plain [OF assms(1)] canonical_parts_plain [OF assms(2)]; assumption)+
  then have parts: "canonical_parts cod b = canonical_parts cod b'" using assms(3) by metis
  then have eq: "cb_scope b = cb_scope b'" "cb_record_kind b = cb_record_kind b'"
      "(case cb_viewer_id b of Some i \<Rightarrow> show_int i | None \<Rightarrow> lit ''-'') = (case cb_viewer_id b' of Some i \<Rightarrow> show_int i | None \<Rightarrow> lit ''-'')"
      "(case cb_session_id b of Some s \<Rightarrow> s | None \<Rightarrow> lit ''-'') = (case cb_session_id b' of Some s \<Rightarrow> s | None \<Rightarrow> lit ''-'')"
      "to_rfc3339 cod (tr_from (cb_range b)) = to_rfc3339 cod (tr_from (cb_range b'))"
      "to_rfc3339 cod (tr_to (cb_range b)) = to_rfc3339 cod (tr_to (cb_range b'))"
      "binding_fields (cb_filters b) = binding_fields (cb_filters b')"
    unfolding canonical_parts_def by (simp_all add: record_kind_inj)
  have "cb_viewer_id b = None \<longleftrightarrow> cb_viewer_id b' = None" "cb_session_id b = None \<longleftrightarrow> cb_session_id b' = None"
    using assms(1,2) eq(1,2) by (simp_all add: wf_binding_def)
  then have "cb_viewer_id b = cb_viewer_id b'" "cb_session_id b = cb_session_id b'"
    using eq(3,4) by (auto dest: show_int_inj split: option.splits)
  moreover have "cb_filters b = cb_filters b'" by (rule binding_fields_inj [OF eq(7)])
  ultimately show ?thesis
    using eq(1,2,5,6) assms(1,2) render_eq_iff by (simp add: wf_binding_def)
qed

end

section \<open>What the handler answers\<close>

lemma transpose_opt_Inr:
  "transpose_opt f x = Inr y \<longleftrightarrow> (case x of None \<Rightarrow> y = None | Some a \<Rightarrow> (\<exists>b. f a = Inr b \<and> y = Some b))"
  by (auto simp: transpose_opt_def and_then_Inr_iff split: option.split)

lemma plain_transposed:
  "transpose_opt f x = Inr y \<Longrightarrow> (\<And>a b. f a = Inr b \<Longrightarrow> 31 \<notin> set b) \<Longrightarrow> plain_opt y"
  by (auto simp: transpose_opt_Inr plain_opt_def split: option.splits)

lemma declared_plain: "list_all (\<lambda>i. 31 \<notin> set i) declared_operation_ids"
  by (simp add: declared_operation_ids_def OPERATION_POLICIES_def excluded_op_def audited_op_def audited_without_arguments_def str_simps)

lemma ascii_token_plain: "ascii_token v m name_extra = Some t \<Longrightarrow> 31 \<notin> set t"
  by (auto simp: ascii_token_def Let_def list_all_iff char_class_defs name_extra_def str_simps split: if_splits)

lemma parsed_plain:
  "parse_actor_login v = Inr x \<Longrightarrow> 31 \<notin> set x"
  "parse_operation_id v = Inr x \<Longrightarrow> 31 \<notin> set x"
  "parse_method v = Inr x \<Longrightarrow> 31 \<notin> set x"
  "parse_session_id v = Inr x \<Longrightarrow> 31 \<notin> set x"
  "parse_repo_full_name v = Inr x \<Longrightarrow> 31 \<notin> set x"
  "parse_request_id v = Inr x \<Longrightarrow> 31 \<notin> set x"
proof -
  show "parse_actor_login v = Inr x \<Longrightarrow> 31 \<notin> set x"
    by (auto simp: parse_actor_login_def Let_def list_all_iff char_class_defs str_simps split: if_splits)
  show "parse_operation_id v = Inr x \<Longrightarrow> 31 \<notin> set x"
    using declared_plain
    by (auto simp: parse_operation_id_def UNMATCHED_OPERATION_ID_def RESERVED_ARGUMENT_POLICIES_def list_all_iff str_simps split: if_splits)
  show "parse_method v = Inr x \<Longrightarrow> 31 \<notin> set x"
    by (auto simp: parse_method_def ALLOWED_METHODS_def Let_def str_simps split: if_splits)
  show "parse_session_id v = Inr x \<Longrightarrow> 31 \<notin> set x"
    using ascii_token_plain by (auto simp: parse_session_id_def safe_session_id_def ok_or_def split: option.splits)
  show "parse_repo_full_name v = Inr x \<Longrightarrow> 31 \<notin> set x"
    using ascii_token_plain
    by (auto simp: parse_repo_full_name_def safe_owner_def safe_repo_def ok_or_def and_then_Inr_iff Let_def str_simps split: option.splits prod.splits)
  show "parse_request_id v = Inr x \<Longrightarrow> 31 \<notin> set x"
    by (auto simp: parse_request_id_def is_acceptable_def is_safe_char_def list_all_iff char_class_defs str_simps split: if_splits)
qed

lemma normalize_wf: "normalize_params cod ps now dl ml days = Inr req \<Longrightarrow> wf_filters (nq_filters req)"
  using parsed_plain
  by (auto simp: normalize_params_def and_then_Inr_iff wf_filters_def elim!: plain_transposed)

lemma normalize_range: "normalize_params cod ps now dl ml days = Inr req \<Longrightarrow> check_range (nq_range req) now days = Inr ()"
  by (auto simp: normalize_params_def resolve_range_def and_then_Inr_iff)

lemma check_range_Inr:
  "check_range r now days = Inr () \<longleftrightarrow>
     tr_from r < tr_to r \<and> tr_to r - tr_from r \<le> int days * NANOS_PER_DAY \<and> tr_from r \<le> now"
  by (auto simp: check_range_def)

lemma case_sum_Inr:
  "(case x of Inl d \<Rightarrow> Inl (f d) | Inr v \<Rightarrow> Inr (g v)) = Inr y \<longleftrightarrow> (\<exists>v. x = Inr v \<and> y = g v)"
  by (auto split: sum.split)

lemma handler_Inr:
  assumes "operations_list_activity L cod reg cfg lim ct sources viewer now ps = Inr page"
  obtains req scope session rng cursor mp where
    "normalize_params cod ps now (xc_default_limit cfg) (xc_max_limit cfg) (xc_max_range_days cfg) = Inr req"
    "resolve_scope viewer (scope_request_of req) = Inr scope"
    "lifecycle_session reg cfg viewer scope req = Inr session"
    "resumed_range L cod req now (xc_max_range_days cfg) = Inr rng"
    "decode_cursor L cod req (activity_binding viewer scope session req rng) = Inr cursor"
    "run_query lim ct (sources \<lparr>sy_constraint = for_scope scope session, sy_record_kind = nq_record_kind req, sy_range = rng,
        sy_filters = nq_filters req\<rparr>) (viewer_id viewer) (for_scope scope session) cursor (nq_limit req) = Inr mp"
    "page = \<lparr>ap_items = mp_items mp, ap_range = rng,
        ap_next_cursor = map_option (\<lambda>k. encode_cursor L cod k (activity_binding viewer scope session req rng)) (mp_next_key mp)\<rparr>"
  using assms unfolding operations_list_activity_def Let_def
  by (auto simp: and_then_Inr_iff case_sum_Inr)

lemma handler_facts:
  assumes "operations_list_activity L cod reg cfg lim ct sources viewer now ps = Inr page"
  shows "\<exists>req scope session.
    normalize_params cod ps now (xc_default_limit cfg) (xc_max_limit cfg) (xc_max_range_days cfg) = Inr req \<and>
    resolve_scope viewer (scope_request_of req) = Inr scope \<and> lifecycle_session reg cfg viewer scope req = Inr session \<and>
    resumed_range L cod req now (xc_max_range_days cfg) = Inr (ap_range page) \<and>
    (\<exists>cursor. decode_cursor L cod req (activity_binding viewer scope session req (ap_range page)) = Inr cursor) \<and>
    (\<forall>raw. ap_next_cursor page = Some raw \<longrightarrow>
       (\<exists>key. raw = encode_cursor L cod key (activity_binding viewer scope session req (ap_range page))))"
proof (rule handler_Inr [OF assms], goal_cases)
  case (1 req scope session rng cursor mp)
  then have "ap_range page = rng"
    "\<forall>raw. ap_next_cursor page = Some raw \<longrightarrow> (\<exists>key. raw = encode_cursor L cod key (activity_binding viewer scope session req rng))"
    by auto
  then show ?case using 1(1-5) by blast
qed

lemma resumed_range_Some:
  assumes "nq_cursor req = Some raw" "resumed_range L cod req now days = Inr rng"
  shows "peek_range L cod raw = Inr rng \<and> check_range rng now days = Inr () \<and> (nq_range_explicit req \<longrightarrow> rng = nq_range req)"
proof -
  obtain r where r: "peek_range L cod raw = Inr r" "(case check_range r now days of Inl _ \<Rightarrow> Inl InvalidActivityCursor
      | Inr _ \<Rightarrow> if nq_range_explicit req \<and> r \<noteq> nq_range req then Inl InvalidActivityCursor else Inr r) = Inr rng"
    using assms by (auto simp: resumed_range_def and_then_Inr_iff)
  then show ?thesis by (cases "check_range r now days") (auto split: if_splits)
qed

lemma resumed_range_checked:
  assumes "normalize_params cod ps now dl ml days = Inr req" "resumed_range L cod req now days = Inr rng"
  shows "check_range rng now days = Inr ()"
proof (cases "nq_cursor req")
  case None
  then show ?thesis using assms(2) normalize_range [OF assms(1)] by (simp add: resumed_range_def)
next
  case (Some raw)
  then show ?thesis using resumed_range_Some [OF Some assms(2)] by simp
qed

text \<open>
  C36: a window is always bounded. Whatever the caller sends, a forged cursor included, a page is only ever read over a
  window that is not empty, spans no more than the configured number of days and does not start in the future.
\<close>

theorem activity_window_bounded:
  assumes "operations_list_activity L cod reg cfg lim ct sources viewer now ps = Inr page"
  shows "tr_from (ap_range page) < tr_to (ap_range page) \<and> tr_from (ap_range page) \<le> now \<and>
    tr_to (ap_range page) - tr_from (ap_range page) \<le> int (xc_max_range_days cfg) * NANOS_PER_DAY"
proof (rule handler_Inr [OF assms])
  fix req scope session rng cursor mp
  assume "normalize_params cod ps now (xc_default_limit cfg) (xc_max_limit cfg) (xc_max_range_days cfg) = Inr req"
    "resumed_range L cod req now (xc_max_range_days cfg) = Inr rng"
    and page: "page = \<lparr>ap_items = mp_items mp, ap_range = rng,
        ap_next_cursor = map_option (\<lambda>k. encode_cursor L cod k (activity_binding viewer scope session req rng)) (mp_next_key mp)\<rparr>"
  from resumed_range_checked [OF this(1,2)] show ?thesis by (simp add: page check_range_Inr)
qed


lemma lifecycle_session_Inr:
  assumes "lifecycle_session reg cfg viewer scope req = Inr session"
  shows "(session = None \<longleftrightarrow> is_global scope \<or> \<not> includes_lifecycle (nq_record_kind req)) \<and>
    (\<forall>sid. session = Some sid \<longrightarrow> af_session_id (nq_filters req) = Some sid \<and> rs_state reg = Ready \<and>
       (\<exists>c. rs_contexts reg sid = Some c \<and> sees_session viewer scope (xc_access cfg) (xc_log_admins cfg) c))"
proof (cases "is_global scope \<or> \<not> includes_lifecycle (nq_record_kind req)")
  case True
  then show ?thesis using assms by (auto simp: lifecycle_session_def)
next
  case False
  then obtain sid where sid: "af_session_id (nq_filters req) = Some sid"
    using assms by (auto simp: lifecycle_session_def split: option.splits)
  obtain c where "session = Some sid" "rs_state reg = Ready" "rs_contexts reg sid = Some c"
      "sees_session viewer scope (xc_access cfg) (xc_log_admins cfg) c"
    using assms False sid
    by (auto simp: lifecycle_session_def authorize_session_visibility_def lookup_def is_ready_state_def Let_def visibility_decision
        authorize_lifecycle_session_def split: option.splits if_splits)
  then show ?thesis using False sid by auto
qed

lemma personal_scope_of_viewer:
  "resolve_scope viewer r = Inr scope \<Longrightarrow> \<not> av_global_admin viewer \<Longrightarrow> scope = personal_scope viewer \<and> \<not> sq_cross_actor_filter r"
  by (auto simp: resolve_scope_def split: if_splits option.splits requested_scope.splits)

text \<open>
  C9: nobody reads another person's activity. Whatever a caller who is not an administrator asks for and whatever the
  sources return, every API row of the answer carries the caller's own id, every lifecycle row belongs to a session
  that the ready projection holds and whose access policy admits the caller through a direct tier, and a request with
  a filter on actors is never answered.
\<close>

theorem activity_page_visibility:
  assumes "operations_list_activity L cod reg cfg lim ct sources viewer now ps = Inr page" "\<not> av_global_admin viewer"
  shows "qp_actor_id ps = None \<and> qp_actor_login ps = None \<and>
    (\<forall>r \<in> set (ap_items page).
       if is_lifecycle r
       then rs_state reg = Ready \<and> (\<exists>sid c. record_session_id r = Some sid \<and> rs_contexts reg sid = Some c \<and>
              sees_session viewer (personal_scope viewer) (xc_access cfg) (xc_log_admins cfg) c)
       else actor_id r = Some (viewer_id viewer))"
proof (rule handler_Inr [OF assms(1)])
  fix req scope session rng cursor mp
  assume n: "normalize_params cod ps now (xc_default_limit cfg) (xc_max_limit cfg) (xc_max_range_days cfg) = Inr req"
    and sc: "resolve_scope viewer (scope_request_of req) = Inr scope"
    and ls: "lifecycle_session reg cfg viewer scope req = Inr session"
    and run: "run_query lim ct (sources \<lparr>sy_constraint = for_scope scope session, sy_record_kind = nq_record_kind req, sy_range = rng,
        sy_filters = nq_filters req\<rparr>) (viewer_id viewer) (for_scope scope session) cursor (nq_limit req) = Inr mp"
    and page: "page = \<lparr>ap_items = mp_items mp, ap_range = rng,
        ap_next_cursor = map_option (\<lambda>k. encode_cursor L cod k (activity_binding viewer scope session req rng)) (mp_next_key mp)\<rparr>"
  have scope: "scope = personal_scope viewer" "\<not> sq_cross_actor_filter (scope_request_of req)"
    using personal_scope_of_viewer [OF sc assms(2)] by simp_all
  then have c: "for_scope scope session = OnlyMine (viewer_id viewer) session" by (simp add: personal_scope_def viewer_id_def)
  have "qp_actor_id ps = None" "qp_actor_login ps = None"
    using n scope(2)
    by (auto simp: normalize_params_def and_then_Inr_iff scope_request_of_def with_cross_actor_filter_def Let_def split: if_splits)
  moreover have "if is_lifecycle r
       then rs_state reg = Ready \<and> (\<exists>sid c. record_session_id r = Some sid \<and> rs_contexts reg sid = Some c \<and>
              sees_session viewer (personal_scope viewer) (xc_access cfg) (xc_log_admins cfg) c)
       else actor_id r = Some (viewer_id viewer)" if "r \<in> set (mp_items mp)" for r
    using run_query_permitted [OF run that, unfolded c] lifecycle_session_Inr [OF ls, unfolded scope(1)]
    by (auto simp: permitted_def split: if_splits)
  ultimately show ?thesis unfolding page activity_page.simps by blast
qed

section \<open>Resuming a page\<close>

lemma cursor_round:
  assumes "cursor_codec cod ok" "cl_decode L (encode_cursor L cod key b) = Some
      \<lparr>cp_v = CURSOR_VERSION, cp_ts = to_rfc3339 cod (fst key), cp_id = snd key,
       cp_f = to_rfc3339 cod (tr_from (cb_range b)), cp_t = to_rfc3339 cod (tr_to (cb_range b)),
       cp_d = binding_digest (cl_sha256 L) cod b\<rparr>"
    "encode_cursor L cod key b \<noteq> []" "RustStr.byte_len (encode_cursor L cod key b) \<le> MAX_CURSOR_LEN"
    "cursor_id_ok (snd key)" "ok (fst key)" "ok (tr_from (cb_range b))" "ok (tr_to (cb_range b))"
    "whole_milli (tr_from (cb_range b)) < whole_milli (tr_to (cb_range b))"
  shows "peek_range L cod (encode_cursor L cod key b) =
      Inr \<lparr>tr_from = whole_milli (tr_from (cb_range b)), tr_to = whole_milli (tr_to (cb_range b))\<rparr> \<and>
    binding_digest (cl_sha256 L) cod
      (b\<lparr>cb_range := \<lparr>tr_from = whole_milli (tr_from (cb_range b)), tr_to = whole_milli (tr_to (cb_range b))\<rparr>\<rparr>) =
      binding_digest (cl_sha256 L) cod b \<and>
    decode_cursor_key L cod (encode_cursor L cod key b) b' =
      (if binding_digest (cl_sha256 L) cod b' = binding_digest (cl_sha256 L) cod b
       then Inr (whole_milli (fst key), snd key) else Inl InvalidActivityCursor)"
proof -
  note codec = cursor_codec.axioms(1) [OF assms(1)]
  have parse: "from_rfc3339 cod (to_rfc3339 cod t) = Some (whole_milli t)" if "ok t" for t
    by (rule millis_codec.parse_render [OF codec that])
  have "parse_payload L (encode_cursor L cod key b) = Inr
      \<lparr>cp_v = CURSOR_VERSION, cp_ts = to_rfc3339 cod (fst key), cp_id = snd key,
       cp_f = to_rfc3339 cod (tr_from (cb_range b)), cp_t = to_rfc3339 cod (tr_to (cb_range b)),
       cp_d = binding_digest (cl_sha256 L) cod b\<rparr>"
    using assms(2-5) by (simp add: parse_payload_def)
  moreover have "canonical cod (b\<lparr>cb_range := \<lparr>tr_from = whole_milli (tr_from (cb_range b)), tr_to = whole_milli (tr_to (cb_range b))\<rparr>\<rparr>) =
      canonical cod b"
    using cursor_codec.render_milli [OF assms(1)] assms(7,8) by (simp add: canonical_def canonical_parts_def)
  ultimately show ?thesis
    using assms(6-9) by (simp add: peek_range_def decode_cursor_key_def parse_cursor_instant_def parse ok_or_def binding_digest_def)
qed


text \<open>A concrete reader: a library that writes lengths before texts, one caller and two sources.\<close>

definition put_text :: "str \<Rightarrow> str" where
  "put_text x = length x # x"

definition get_text :: "str \<Rightarrow> (str \<times> str) option" where
  "get_text x = (case x of [] \<Rightarrow> None | n # rest \<Rightarrow> Some (take n rest, drop n rest))"

definition plain_library :: cursor_library where
  "plain_library =
     \<lparr>cl_sha256 = (\<lambda>x. x),
      cl_encode = (\<lambda>p. cp_v p # put_text (cp_ts p) @ put_text (cp_id p) @ put_text (cp_f p) @ put_text (cp_t p) @ put_text (cp_d p)),
      cl_decode = (\<lambda>x. case x of [] \<Rightarrow> None | v # x1 \<Rightarrow>
        Option.bind (get_text x1) (\<lambda>(ts, x2). Option.bind (get_text x2) (\<lambda>(i, x3). Option.bind (get_text x3) (\<lambda>(f, x4).
        Option.bind (get_text x4) (\<lambda>(t, x5). Option.bind (get_text x5) (\<lambda>(d, _).
          Some \<lparr>cp_v = v, cp_ts = ts, cp_id = i, cp_f = f, cp_t = t, cp_d = d\<rparr>))))))\<rparr>"

lemma get_put_text [simp]: "get_text (put_text x @ rest) = Some (x, rest)" "get_text (put_text x) = Some (x, [])"
  by (simp_all add: get_text_def put_text_def)

lemma plain_library_round: "cl_decode plain_library (cl_encode plain_library p) = Some p"
  by (simp add: plain_library_def)

lemma millis_render_length: "length (to_rfc3339 millis_utc t) = 24"
  by (simp add: millis_utc_def millis_render_def utc_render_shape dec2_def)

lemma digest_length: "length (binding_digest sha cod b) \<le> 32"
proof -
  have "length (concat (map hex2 xs)) = 2 * length xs" for xs by (induction xs) (simp_all add: hex2_def Let_def)
  then show ?thesis by (simp add: binding_digest_def DIGEST_HEX_LEN_def)
qed

lemma byte_len_le: "RustStr.byte_len x \<le> 4 * length x"
  by (induction x) (auto simp: utf8_width_def)

lemma plain_cursor_short:
  assumes "length (snd key) \<le> 8"
  shows "RustStr.byte_len (encode_cursor plain_library millis_utc key b) \<le> MAX_CURSOR_LEN" "encode_cursor plain_library millis_utc key b \<noteq> []"
proof -
  have "length (encode_cursor plain_library millis_utc key b) \<le> 118"
    using assms digest_length [of "cl_sha256 plain_library" millis_utc b]
    by (simp add: encode_cursor_def plain_library_def put_text_def millis_render_length)
  then show "RustStr.byte_len (encode_cursor plain_library millis_utc key b) \<le> MAX_CURSOR_LEN"
    using byte_len_le [of "encode_cursor plain_library millis_utc key b"] by (simp add: MAX_CURSOR_LEN_def)
  show "encode_cursor plain_library millis_utc key b \<noteq> []" by (simp add: encode_cursor_def plain_library_def)
qed

definition reader :: authenticated_viewer where
  "reader = \<lparr>av_user = \<lparr>vc_id = 9, vc_login = lit ''a''\<rparr>, av_global_admin = False\<rparr>"

definition reader_config :: activity_config where
  "reader_config =
     \<lparr>xc_default_limit = 1, xc_max_limit = 200, xc_max_range_days = 30,
      xc_access = \<lparr>ap_entries = None, ap_blocked = None, ap_mode = None, ap_global_admins = []\<rparr>, xc_log_admins = []\<rparr>"

definition reader_sources :: "source_query \<Rightarrow> activity_sources" where
  "reader_sources = (\<lambda>_. \<lparr>as_posthog = Some (\<lambda>k n. Inr (source_answer posthog_rows k n)), as_relay = Some (\<lambda>k n. Inr (source_answer relay_rows k n))\<rparr>)"

definition reader_params :: "str option \<Rightarrow> activity_params" where
  "reader_params cursor =
     \<lparr>qp_from = None, qp_to = None, qp_record_kind = None, qp_actor_id = None, qp_actor_login = None, qp_operation_id = None,
      qp_method = None, qp_status_code = None, qp_status_class = None, qp_outcome = None, qp_session_id = None,
      qp_repo_full_name = None, qp_trigger_issue = None, qp_request_id = None, qp_cursor = cursor, qp_limit = None, qp_scope = None\<rparr>"

definition reader_request :: "str option \<Rightarrow> normalized_request" where
  "reader_request cursor =
     \<lparr>nq_requested_scope = None, nq_cross_actor_filter = False, nq_record_kind = KindApiRequest,
      nq_range = \<lparr>tr_from = 2 * NANOS_PER_DAY, tr_to = 3 * NANOS_PER_DAY\<rparr>, nq_range_explicit = False, nq_limit = 1,
      nq_filters = \<lparr>af_actor_id = None, af_actor_login = None, af_operation_id = None, af_method = None, af_status_code = None,
        af_status_class = None, af_outcome = None, af_session_id = None, af_repo_full_name = None, af_trigger_issue = None,
        af_request_id = None\<rparr>,
      nq_cursor = cursor\<rparr>"

abbreviation read_activity :: "str option \<Rightarrow> activity_http_error + activity_page" where
  "read_activity cursor \<equiv>
     operations_list_activity plain_library millis_utc (new_registry False) reader_config
       \<lparr>cc_global_limit = 8, cc_per_principal_limit = 2\<rparr> no_permits reader_sources reader (3 * NANOS_PER_DAY) (reader_params cursor)"

lemma reader_normalized:
  "normalize_params millis_utc (reader_params cursor) (3 * NANOS_PER_DAY) (xc_default_limit reader_config) (xc_max_limit reader_config)
     (xc_max_range_days reader_config) = Inr (reader_request cursor)"
  by (simp add: normalize_params_def reader_params_def reader_request_def reader_config_def transpose_opt_def resolve_range_def
      check_range_def DEFAULT_RANGE_HOURS_def NANOS_PER_SEC_def NANOS_PER_DAY_def)

lemma reader_run:
  "\<exists>mp. run_query \<lparr>cc_global_limit = 8, cc_per_principal_limit = 2\<rparr> no_permits (reader_sources q) 9 (OnlyMine 9 None) cursor 1 = Inr mp \<and>
     (cursor = None \<longrightarrow> mp_next_key mp = Some (30, lit ''c''))"
proof -
  have key: "sort_pair (sample_row src i t d) = (t, i)" for src i t d by (simp add: sample_row_def sort_pair_def)
  obtain mp where "merge_pages (OnlyMine 9 None) (Some (Inr (source_answer posthog_rows cursor (Suc 1))))
       (Some (Inr (source_answer relay_rows cursor (Suc 1)))) 1 (Suc 1) = Inr mp"
      "cursor = None \<longrightarrow> mp_next_key mp = Some (30, lit ''c'')"
    using merged_page_cut [OF sample_sources, of cursor 1 "Some (Inr (source_answer posthog_rows cursor (Suc 1)))"
      "Some (Inr (source_answer relay_rows cursor (Suc 1)))"]
    by (auto simp: answers_def past_def sample_timeline key)
  moreover have "min (Suc 1) (2 ^ 32 - 1) = Suc 1" by simp
  ultimately show ?thesis
    by (simp add: run_query_def reader_sources_def try_acquire_def no_permits_def fetch_source_def Let_def)
qed

definition reader_binding :: cursor_binding where
  "reader_binding = activity_binding reader (personal_scope reader) None (reader_request None) \<lparr>tr_from = 2 * NANOS_PER_DAY, tr_to = 3 * NANOS_PER_DAY\<rparr>"

definition reader_cursor :: str where
  "reader_cursor = encode_cursor plain_library millis_utc (30, lit ''c'') reader_binding"

lemma reader_first_page:
  "\<exists>page. read_activity None = Inr page \<and> ap_next_cursor page = Some reader_cursor \<and>
     ap_range page = \<lparr>tr_from = 2 * NANOS_PER_DAY, tr_to = 3 * NANOS_PER_DAY\<rparr>"
proof -
  obtain mp where "run_query \<lparr>cc_global_limit = 8, cc_per_principal_limit = 2\<rparr> no_permits (reader_sources q) 9 (OnlyMine 9 None) None 1 = Inr mp"
      "mp_next_key mp = Some (30, lit ''c'')" for q
    using reader_run [of _ None] by (metis reader_sources_def)
  then show ?thesis
    unfolding operations_list_activity_def reader_normalized
    by (simp add: reader_request_def scope_request_of_def new_scope_request_def resolve_scope_def reader_def personal_scope_def
        lifecycle_session_def includes_lifecycle_def resumed_range_def decode_cursor_def viewer_id_def Let_def
        reader_cursor_def reader_binding_def)
qed

lemmas reader_facts = reader_binding_def activity_binding_def utc_valid_def date_naive_def whole_milli_def NANOS_PER_DAY_def
  NANOS_PER_MILLI_def NANOS_PER_SEC_def str_simps

lemma reader_round:
  "peek_range plain_library millis_utc reader_cursor = Inr \<lparr>tr_from = 2 * NANOS_PER_DAY, tr_to = 3 * NANOS_PER_DAY\<rparr> \<and>
   decode_cursor_key plain_library millis_utc reader_cursor reader_binding = Inr (0, lit ''c'')"
proof -
  have "cursor_id_ok (lit ''c'')"
    by (simp add: cursor_id_ok_def MAX_EVENT_ID_LEN_def utf8_width_def char_class_defs str_simps)
  note cursor_round [OF cms.cursor_codec_axioms, of plain_library "(30, lit ''c'')" reader_binding reader_binding]
  with this plain_cursor_short [of "(30, lit ''c'')" reader_binding] \<open>cursor_id_ok (lit ''c'')\<close> show ?thesis
    unfolding reader_cursor_def encode_cursor_def plain_library_round
    by (simp add: reader_facts)
qed



lemma activity_binding_wf:
  assumes "normalize_params cod ps now dl ml days = Inr req" "lifecycle_session reg cfg viewer scope req = Inr session"
    "ok (tr_from rng)" "ok (tr_to rng)"
  shows "wf_binding ok (activity_binding viewer scope session req rng)"
proof -
  have f: "wf_filters (nq_filters req)" by (rule normalize_wf [OF assms(1)])
  have s: "(session = None) = (is_global scope \<or> \<not> includes_lifecycle (nq_record_kind req))" "session = None \<or> session = af_session_id (nq_filters req)"
    using lifecycle_session_Inr [OF assms(2)] by (cases session; auto)+
  then have "plain_opt session" using f by (auto simp: wf_filters_def plain_opt_def)
  moreover have "scope_as_str scope = (if is_global scope then lit ''all'' else lit ''mine'')" by (cases scope) simp_all
  ultimately show ?thesis using f s(1) assms(3,4) by (simp add: wf_binding_def activity_binding_def str_simps)
qed



lemma reader_second_page:
  "\<exists>page. read_activity (Some reader_cursor) = Inr page \<and>
     ap_range page = \<lparr>tr_from = 2 * NANOS_PER_DAY, tr_to = 3 * NANOS_PER_DAY\<rparr>"
proof -
  obtain mp where run: "run_query \<lparr>cc_global_limit = 8, cc_per_principal_limit = 2\<rparr> no_permits (reader_sources q) 9 (OnlyMine 9 None)
      (Some (0, lit ''c'')) 1 = Inr mp" for q
    using reader_run [of _ "Some (0, lit ''c'')"] by (metis reader_sources_def)
  have b: "activity_binding reader (personal_scope reader) None (reader_request (Some reader_cursor))
      \<lparr>tr_from = 2 * NANOS_PER_DAY, tr_to = 3 * NANOS_PER_DAY\<rparr> = reader_binding"
    by (simp add: reader_binding_def activity_binding_def reader_request_def)
  have r: "resumed_range plain_library millis_utc (reader_request (Some reader_cursor)) (3 * NANOS_PER_DAY) (xc_max_range_days reader_config) =
      Inr \<lparr>tr_from = 2 * NANOS_PER_DAY, tr_to = 3 * NANOS_PER_DAY\<rparr>"
    using reader_round by (simp add: resumed_range_def reader_request_def check_range_def reader_config_def NANOS_PER_DAY_def NANOS_PER_SEC_def)
  have d: "decode_cursor plain_library millis_utc (reader_request (Some reader_cursor)) reader_binding = Inr (Some (0, lit ''c''))"
    using reader_round by (simp add: decode_cursor_def reader_request_def)
  have s: "resolve_scope reader (scope_request_of (reader_request (Some reader_cursor))) = Inr (personal_scope reader)"
    by (simp add: reader_request_def scope_request_of_def new_scope_request_def resolve_scope_def reader_def Let_def)
  have l: "lifecycle_session (new_registry False) reader_config reader (personal_scope reader) (reader_request (Some reader_cursor)) = Inr None"
    by (simp add: lifecycle_session_def includes_lifecycle_def reader_request_def)
  have v: "viewer_id reader = 9" "for_scope (personal_scope reader) None = OnlyMine 9 None" "nq_limit (reader_request (Some reader_cursor)) = 1"
    by (simp_all add: reader_def viewer_id_def personal_scope_def reader_request_def)
  show ?thesis
    unfolding operations_list_activity_def reader_normalized by (simp add: s l r b d v run Let_def del: One_nat_def)
qed


theorem activity_window_bounded_witness:
  "\<exists>page. read_activity (Some reader_cursor) = Inr page \<and> tr_from (ap_range page) < tr_to (ap_range page)"
proof -
  obtain page where "read_activity (Some reader_cursor) = Inr page" using reader_second_page by blast
  then show ?thesis using activity_window_bounded [of plain_library] by blast
qed

theorem activity_page_visibility_witness:
  "\<exists>page. read_activity None = Inr page \<and> (\<forall>r \<in> set (ap_items page). \<not> is_lifecycle r \<longrightarrow> actor_id r = Some 9)"
proof -
  obtain page where p: "read_activity None = Inr page" using reader_first_page by blast
  have "\<not> av_global_admin reader" "viewer_id reader = 9" by (simp_all add: reader_def viewer_id_def)
  then show ?thesis using activity_page_visibility [OF p] p by (metis (full_types))
qed

text \<open>
  A resumed request that states only its lower bound is refused even when that bound is the cursor's own: the upper
  bound it did not state is taken to be the present moment, which no issued cursor carries.
\<close>

lemma resume_with_from_refused:
  assumes "normalize_params cod ps now dl ml days = Inr req" "qp_from ps = Some f" "qp_to ps = None" "qp_cursor ps = Some raw"
    "peek_range L cod raw = Inr rng" "tr_to rng \<noteq> now"
  shows "\<exists>e. resumed_range L cod req now days = Inl e"
proof -
  have "nq_range_explicit req" "nq_cursor req = Some raw" "tr_to (nq_range req) = now"
    using assms(1-4) by (auto simp: normalize_params_def resolve_range_def and_then_Inr_iff)
  then have "rng \<noteq> nq_range req" using assms(6) by auto
  then show ?thesis
    using assms(5) \<open>nq_range_explicit req\<close> \<open>nq_cursor req = Some raw\<close>
    by (cases "check_range rng now days") (simp_all add: resumed_range_def)
qed

end
