(* ===== verification/AuditRequest.thy ===== *)
theory AuditRequest
  imports AuditCatalog AuditProtocol
begin

text \<open>
  One audited request: the write-once context (\<open>audit/request/context.rs\<close>, \<open>AuditIdentitySlot\<close> of
  \<open>audit/identity.rs\<close>), the recording of safe arguments (\<open>audit/arguments/mod.rs\<close>), the delivery policy of the
  three modes (\<open>audit/relay/mod.rs\<close>), the retry budget of the relay client (\<open>audit/relay/client.rs\<close>) and the
  outer middleware (\<open>audit/request/middleware.rs\<close>, \<open>audit/request/required.rs\<close>).

  The world \<open>'w\<close> is whatever the relay, the handler and the local sink change; each is a function on it. A response
  body is its text.
\<close>

section \<open>The request context\<close>

record 'a slot =
  so_value :: "'a option"
  so_conflicts :: nat

definition empty_slot :: "'a slot" where
  "empty_slot = \<lparr>so_value = None, so_conflicts = 0\<rparr>"

text \<open>The conflict counters are \<open>u32\<close> atomics, whose addition wraps.\<close>

definition slot_conflict :: "'a slot \<Rightarrow> 'a slot" where
  "slot_conflict s = s\<lparr>so_conflicts := (so_conflicts s + 1) mod 2 ^ 32\<rparr>"

definition slot_record :: "'a \<Rightarrow> 'a slot \<Rightarrow> 'a slot" where
  "slot_record v s =
     (case so_value s of None \<Rightarrow> s\<lparr>so_value := Some v\<rparr> | Some x \<Rightarrow> if x = v then s else slot_conflict s)"

definition slot_refine :: "('a \<Rightarrow> 'a \<Rightarrow> bool) \<Rightarrow> 'a \<Rightarrow> 'a slot \<Rightarrow> 'a slot" where
  "slot_refine extends v s =
     (case so_value s of
        None \<Rightarrow> s\<lparr>so_value := Some v\<rparr>
      | Some x \<Rightarrow> if extends x v then s\<lparr>so_value := Some v\<rparr> else slot_conflict s)"

type_synonym audit_arguments = "arguments \<times> arguments_parse_status"

record request_context =
  cx_identity :: "audit_identity slot"
  cx_arguments :: "audit_arguments slot"
  cx_error_code :: "str slot"
  cx_session_id :: "str slot"
  cx_repo_full_name :: "str slot"
  cx_installation_id :: "int slot"
  cx_trigger_issue :: "int slot"
  cx_webhook_delivery_id :: "str slot"

definition new_context :: request_context where
  "new_context = \<lparr>cx_identity = empty_slot, cx_arguments = empty_slot, cx_error_code = empty_slot,
     cx_session_id = empty_slot, cx_repo_full_name = empty_slot, cx_installation_id = empty_slot,
     cx_trigger_issue = empty_slot, cx_webhook_delivery_id = empty_slot\<rparr>"

definition refines_arguments :: "audit_arguments \<Rightarrow> audit_arguments \<Rightarrow> bool" where
  "refines_arguments earlier later \<longleftrightarrow>
     snd earlier = snd later \<and> list_all (\<lambda>(k, v). bt_get (fst later) k = Some v) (fst earlier)"

text \<open>The recording methods, as one datatype of writes; a handler makes any sequence of them.\<close>

datatype context_write =
    RecordIdentity audit_identity | RecordArguments arguments arguments_parse_status
  | RefineArguments arguments arguments_parse_status | RecordErrorCode str | RecordSessionId str
  | RecordRepoFullName str | RecordInstallationId int | RecordTriggerIssue int | RecordWebhookDeliveryId str

fun write_context :: "context_write \<Rightarrow> request_context \<Rightarrow> request_context" where
  "write_context (RecordIdentity i) cx = cx\<lparr>cx_identity := slot_record i (cx_identity cx)\<rparr>"
| "write_context (RecordArguments vs st) cx = cx\<lparr>cx_arguments := slot_record (vs, st) (cx_arguments cx)\<rparr>"
| "write_context (RefineArguments vs st) cx =
     cx\<lparr>cx_arguments := slot_refine refines_arguments (vs, st) (cx_arguments cx)\<rparr>"
| "write_context (RecordErrorCode c) cx = cx\<lparr>cx_error_code := slot_record c (cx_error_code cx)\<rparr>"
| "write_context (RecordSessionId s) cx = cx\<lparr>cx_session_id := slot_record s (cx_session_id cx)\<rparr>"
| "write_context (RecordRepoFullName r) cx = cx\<lparr>cx_repo_full_name := slot_record r (cx_repo_full_name cx)\<rparr>"
| "write_context (RecordInstallationId i) cx = cx\<lparr>cx_installation_id := slot_record i (cx_installation_id cx)\<rparr>"
| "write_context (RecordTriggerIssue i) cx = cx\<lparr>cx_trigger_issue := slot_record i (cx_trigger_issue cx)\<rparr>"
| "write_context (RecordWebhookDeliveryId d) cx =
     cx\<lparr>cx_webhook_delivery_id := slot_record d (cx_webhook_delivery_id cx)\<rparr>"

definition write_all :: "context_write list \<Rightarrow> request_context \<Rightarrow> request_context" where
  "write_all ws cx = fold write_context ws cx"

definition u32_saturating_add :: "nat \<Rightarrow> nat \<Rightarrow> nat" where
  "u32_saturating_add a b = min (a + b) (2 ^ 32 - 1)"

definition context_conflicts :: "request_context \<Rightarrow> nat" where
  "context_conflicts cx =
     fold (\<lambda>b a. u32_saturating_add a b)
       [so_conflicts (cx_arguments cx), so_conflicts (cx_error_code cx), so_conflicts (cx_session_id cx),
        so_conflicts (cx_repo_full_name cx), so_conflicts (cx_installation_id cx), so_conflicts (cx_trigger_issue cx),
        so_conflicts (cx_webhook_delivery_id cx)]
       (so_conflicts (cx_identity cx))"

record frozen_context =
  fz_identity :: audit_identity
  fz_arguments :: arguments
  fz_arguments_parse_status :: arguments_parse_status
  fz_error_code :: "str option"
  fz_correlation :: audit_correlation
  fz_conflicts :: nat

definition freeze_with_default :: "arguments_parse_status \<Rightarrow> request_context \<Rightarrow> frozen_context" where
  "freeze_with_default dflt cx =
     (let args = (case so_value (cx_arguments cx) of Some a \<Rightarrow> a | None \<Rightarrow> ([], dflt))
      in \<lparr>fz_identity = (case so_value (cx_identity cx) of Some i \<Rightarrow> i | None \<Rightarrow> anonymous_identity),
          fz_arguments = fst args,
          fz_arguments_parse_status = snd args,
          fz_error_code = so_value (cx_error_code cx),
          fz_correlation =
            \<lparr>co_session_id = so_value (cx_session_id cx), co_repo_full_name = so_value (cx_repo_full_name cx),
             co_installation_id = so_value (cx_installation_id cx), co_trigger_issue = so_value (cx_trigger_issue cx),
             co_webhook_delivery_id = so_value (cx_webhook_delivery_id cx)\<rparr>,
          fz_conflicts = context_conflicts cx\<rparr>)"

section \<open>Recording safe arguments\<close>

definition filter_arguments :: "str list \<Rightarrow> arguments \<Rightarrow> arguments" where
  "filter_arguments allowed vs = fold (\<lambda>(k, v) kept. if k \<in> set allowed then bt_insert k v kept else kept) vs []"

definition record_safe :: "str list \<Rightarrow> arguments \<Rightarrow> arguments_parse_status \<Rightarrow> context_write" where
  "record_safe allowed vs st = RecordArguments (filter_arguments allowed vs) st"

definition refine_safe :: "str list \<Rightarrow> arguments \<Rightarrow> arguments_parse_status \<Rightarrow> context_write" where
  "refine_safe allowed vs st = RefineArguments (filter_arguments allowed vs) st"

definition record_invalid :: "arguments \<Rightarrow> context_write" where
  "record_invalid vs = RecordArguments (filter_arguments INVALID_INPUT_FIELDS vs) InvalidArguments"

definition record_not_applicable :: context_write where
  "record_not_applicable = RecordArguments [] NotApplicable"

section \<open>Calling the relay\<close>

datatype relay_client_error = RelayUnavailable str | RelayRejected str | RelayConflict

definition is_retryable :: "relay_client_error \<Rightarrow> bool" where
  "is_retryable e \<longleftrightarrow> (case e of RelayUnavailable _ \<Rightarrow> True | _ \<Rightarrow> False)"

text \<open>The answer to one HTTP attempt, by its status; \<open>decoded\<close> is the body of a success and \<open>conflict\<close> the conflict code of an error body.\<close>

definition decode_response :: "nat \<Rightarrow> 'a option \<Rightarrow> bool \<Rightarrow> relay_client_error + 'a" where
  "decode_response status decoded conflict =
     (if 200 \<le> status \<and> status < 300 then ok_or (RelayRejected (lit ''malformed_response'')) decoded
      else if status = 409 \<and> conflict then Inl RelayConflict
      else if status = 409 then Inl (RelayRejected (lit ''no_start''))
      else if status = 400 \<or> status = 413 \<or> status = 422 then Inl (RelayRejected (lit ''invalid''))
      else if status = 401 \<or> status = 403 then Inl (RelayRejected (lit ''auth''))
      else if status = 429 then Inl (RelayUnavailable (lit ''busy''))
      else if 500 \<le> status \<and> status < 600 then Inl (RelayUnavailable (lit ''upstream''))
      else Inl (RelayRejected (lit ''unexpected'')))"

definition retry_pause_ms :: "nat \<Rightarrow> nat" where
  "retry_pause_ms attempt = min (25 * attempt) (2 ^ 64 - 1)"

text \<open>
  The retry loop. \<open>send attempt remaining\<close> is one HTTP attempt under the remaining budget, with the time it took;
  \<open>over attempt\<close> is by how much the sleep before the next one overshoots. Times are milliseconds. The result comes
  with the number of attempts made and the time spent.
\<close>

function send_with_budget ::
  "(nat \<Rightarrow> nat \<Rightarrow> (relay_client_error + 'a) \<times> nat) \<Rightarrow> (nat \<Rightarrow> nat) \<Rightarrow> nat \<Rightarrow> nat \<Rightarrow> nat \<Rightarrow>
   (relay_client_error + 'a) \<times> nat \<times> nat" where
  "send_with_budget send over budget attempt elapsed =
     (if budget \<le> elapsed then (Inl (RelayUnavailable (lit ''budget'')), attempt, elapsed)
      else case send attempt (budget - elapsed) of
             (Inr ack, took) \<Rightarrow> (Inr ack, Suc attempt, elapsed + took)
           | (Inl e, took) \<Rightarrow>
               if is_retryable e then
                 (let attempt' = Suc attempt; pause = retry_pause_ms attempt'
                  in if budget \<le> elapsed + took + pause then (Inl e, attempt', elapsed + took)
                     else send_with_budget send over budget attempt' (elapsed + took + pause + over attempt'))
               else (Inl e, Suc attempt, elapsed + took))"
  by pat_completeness auto
termination
  by (relation "measure (\<lambda>(send, over, budget, attempt, elapsed). budget - elapsed)")
     (auto simp: retry_pause_ms_def)

section \<open>Delivery modes\<close>

datatype delivery_mode = DeliveryDisabled | BestEffort | RequiredDelivery

record 'w relay_client =
  rc_register :: "request_start \<Rightarrow> 'w \<Rightarrow> (relay_client_error + unit) \<times> 'w"
  rc_complete :: "request_completion \<Rightarrow> 'w \<Rightarrow> (relay_client_error + unit) \<times> 'w"

record 'w audit_delivery =
  dl_mode :: delivery_mode
  dl_client :: "'w relay_client option"
  dl_grace_secs :: nat

definition use_local_sink :: "'w audit_delivery \<Rightarrow> bool" where
  "use_local_sink d \<longleftrightarrow> dl_mode d \<noteq> RequiredDelivery"

definition on_failure :: "'w audit_delivery \<Rightarrow> relay_client_error \<Rightarrow> relay_client_error + unit" where
  "on_failure d e = (if dl_mode d = RequiredDelivery then Inl e else Inr ())"

definition build_start ::
  "codec \<Rightarrow> 'w audit_delivery \<Rightarrow> request_identity \<Rightarrow> str \<Rightarrow> instant \<Rightarrow> service_identity \<Rightarrow> request_start" where
  "build_start cod d i event_id started_at service =
     \<lparr>st_schema_version = PROTOCOL_SCHEMA_VERSION,
      st_event_id = event_id,
      st_request_id = ri_request_id i,
      st_started_at = to_rfc3339 cod started_at,
      st_method = ri_method i,
      st_route_template = ri_route_template i,
      st_operation_id = ri_operation_id i,
      st_service_version = sv_version service,
      st_deployment_environment = sv_environment service,
      st_completion_deadline_at = to_rfc3339 cod (started_at + int (dl_grace_secs d) * NANOS_PER_SEC)\<rparr>"

definition delivery_call ::
  "'w audit_delivery \<Rightarrow> ('w relay_client \<Rightarrow> 'w \<Rightarrow> (relay_client_error + unit) \<times> 'w) \<Rightarrow> 'w \<Rightarrow>
   (relay_client_error + unit) \<times> 'w" where
  "delivery_call d call w =
     (case dl_client d of
        None \<Rightarrow> (Inr (), w)
      | Some client \<Rightarrow>
          (case call client w of (Inr _, w') \<Rightarrow> (Inr (), w') | (Inl e, w') \<Rightarrow> (on_failure d e, w')))"

definition register_start ::
  "codec \<Rightarrow> 'w audit_delivery \<Rightarrow> request_identity \<Rightarrow> str \<Rightarrow> instant \<Rightarrow> service_identity \<Rightarrow> 'w \<Rightarrow>
   (relay_client_error + unit) \<times> 'w" where
  "register_start cod d i event_id started_at service =
     delivery_call d (\<lambda>client. rc_register client (build_start cod d i event_id started_at service))"

definition complete_delivery ::
  "codec \<Rightarrow> 'w audit_delivery \<Rightarrow> api_request_completed \<Rightarrow> 'w \<Rightarrow> (relay_client_error + unit) \<times> 'w" where
  "complete_delivery cod d e = delivery_call d (\<lambda>client. rc_complete client (from_domain cod e))"

section \<open>The middleware\<close>

record http_response =
  re_status :: nat
  re_error_code :: "str option"
  re_rejected :: bool
  re_request_id :: "str option"
  re_body :: str

record http_request =
  hq_request_id :: "str option"
  hq_method :: str
  hq_matched :: "str option"

record 'w audit_middleware =
  mw_catalog :: catalog
  mw_service :: service_identity
  mw_delivery :: "'w audit_delivery"
  mw_submit :: "api_request_completed \<Rightarrow> 'w \<Rightarrow> 'w"

text \<open>What the runtime supplies: the wall clock at entry, the monotonic milliseconds until the response, a fresh id, and the library functions.\<close>

record request_env =
  env_started_at :: instant
  env_elapsed_ms :: nat
  env_fresh_id :: str
  env_uuid_v5 :: "str \<Rightarrow> str"
  env_nanos :: "instant \<Rightarrow> str"
  env_codec :: codec

definition ingress_unavailable :: http_response where
  "ingress_unavailable =
     \<lparr>re_status = 503, re_error_code = Some (lit ''audit_ingress_unavailable''), re_rejected = True, re_request_id = None,
      re_body = lit ''this request was not started because it could not be durably recorded''\<rparr>"

definition completion_unconfirmed :: http_response where
  "completion_unconfirmed =
     \<lparr>re_status = 503, re_error_code = Some (lit ''audit_completion_unconfirmed''), re_rejected = False, re_request_id = None,
      re_body = lit ''the operation was performed but its outcome could not be durably recorded; treat the result as unknown and reconcile before retrying''\<rparr>"

definition or_else :: "'a option \<Rightarrow> 'a option \<Rightarrow> 'a option" where
  "or_else a b = (case a of Some x \<Rightarrow> Some x | None \<Rightarrow> b)"

definition terminal_event ::
  "'w audit_middleware \<Rightarrow> request_env \<Rightarrow> request_identity \<Rightarrow> bool \<Rightarrow> context_write list \<Rightarrow> http_response \<Rightarrow> api_request_completed" where
  "terminal_event mw env i matched writes response =
     (let frozen = freeze_with_default (default_arguments_status (ri_operation_id i)) (write_all writes new_context);
          explicit_code = re_error_code response;
          outcome = derive_outcome (re_status response) (re_rejected response) (explicit_code = Some (lit ''request_timeout''));
          error_code = or_else explicit_code (or_else (fz_error_code frozen) (framework_error_code (re_status response) matched));
          completed_at = env_started_at env + int (env_elapsed_ms env) * NANOS_PER_MILLI
      in with_correlation (fz_correlation frozen)
           (with_arguments (fz_arguments frozen) (fz_arguments_parse_status frozen)
             (new_event (env_uuid_v5 env) (env_nanos env) i
               \<lparr>ti_started_at = env_started_at env, ti_completed_at = completed_at\<rparr>
               (ai_actor (fz_identity frozen)) (ai_principal (fz_identity frozen))
               \<lparr>rq_status_code = Some (re_status response), rq_outcome = outcome, rq_error_code = error_code\<rparr>
               (mw_service mw))))"

definition audit_requests ::
  "'w audit_middleware \<Rightarrow> request_env \<Rightarrow> ('w \<Rightarrow> context_write list \<times> http_response \<times> 'w) \<Rightarrow> http_request \<Rightarrow> 'w \<Rightarrow>
   http_response \<times> 'w" where
  "audit_requests mw env handler req w =
     (let request_id = nr_value (normalize_request_id (env_fresh_id env) (hq_request_id req));
          tag = (\<lambda>response. response\<lparr>re_request_id := Some request_id\<rparr>);
          d = mw_delivery mw
      in case resolve (mw_catalog mw) (hq_method req) (hq_matched req) of
           SkipRoute _ \<Rightarrow> (case handler w of (_, response, w') \<Rightarrow> (tag response, w'))
         | RecordRoute operation_id template \<Rightarrow>
             (let i = \<lparr>ri_request_id = request_id, ri_method = hq_method req, ri_route_template = template,
                       ri_operation_id = operation_id\<rparr>;
                  event_id = derive_event_id (env_uuid_v5 env) (env_nanos env) i (env_started_at env)
              in case register_start (env_codec env) d i event_id (env_started_at env) (mw_service mw) w of
                   (Inl _, w1) \<Rightarrow> (tag ingress_unavailable, w1)
                 | (Inr _, w1) \<Rightarrow>
                     (case handler w1 of
                        (writes, response, w2) \<Rightarrow>
                          (let e = terminal_event mw env i (hq_matched req \<noteq> None) writes response
                           in case complete_delivery (env_codec env) d e w2 of
                                (committed, w3) \<Rightarrow>
                                  (let w4 = if use_local_sink d then mw_submit mw e w3 else w3
                                   in case committed of
                                        Inl _ \<Rightarrow> (tag completion_unconfirmed, w4)
                                      | Inr _ \<Rightarrow> (tag response, w4))))))"

section \<open>The context keeps the first write\<close>

lemma slot_record_value: "so_value (slot_record v s) = (case so_value s of None \<Rightarrow> Some v | Some x \<Rightarrow> Some x)"
  by (simp add: slot_record_def slot_conflict_def split: option.split)

definition identities :: "context_write list \<Rightarrow> audit_identity list" where
  "identities ws = filter_map (\<lambda>w. case w of RecordIdentity i \<Rightarrow> Some i | _ \<Rightarrow> None) ws"

definition argument_writes :: "context_write list \<Rightarrow> audit_arguments list" where
  "argument_writes ws =
     filter_map (\<lambda>w. case w of RecordArguments vs st \<Rightarrow> Some (vs, st) | RefineArguments vs st \<Rightarrow> Some (vs, st) | _ \<Rightarrow> None) ws"

lemma write_identity:
  "so_value (cx_identity (write_all ws cx)) =
     (case so_value (cx_identity cx) of Some i \<Rightarrow> Some i | None \<Rightarrow> (case identities ws of [] \<Rightarrow> None | i # _ \<Rightarrow> Some i))"
proof (induction ws arbitrary: cx)
  case (Cons w ws)
  have "so_value (cx_identity (write_context w cx)) =
      (case w of RecordIdentity i \<Rightarrow> (case so_value (cx_identity cx) of None \<Rightarrow> Some i | Some x \<Rightarrow> Some x)
       | _ \<Rightarrow> so_value (cx_identity cx))"
    by (cases w) (simp_all add: slot_record_value)
  then show ?case
    using Cons.IH [of "write_context w cx"]
    by (cases w) (auto simp: write_all_def identities_def split: option.splits)
qed (simp add: write_all_def identities_def split: option.split)

text \<open>Later arguments may only add: every earlier property survives with its value.\<close>

definition keeps_arguments :: "audit_arguments \<Rightarrow> audit_arguments option \<Rightarrow> bool" where
  "keeps_arguments a b \<longleftrightarrow> (\<exists>vs. b = Some (vs, snd a) \<and> (\<forall>k v. bt_get (fst a) k = Some v \<longrightarrow> bt_get vs k = Some v))"

lemma keeps_refl: "keeps_arguments a (Some a)"
  by (cases a) (simp add: keeps_arguments_def)

lemma keeps_refined:
  assumes "keeps_arguments a (Some b)" "refines_arguments b c"
  shows "keeps_arguments a (Some c)"
proof -
  obtain vs where vs: "b = (vs, snd a)" "\<And>k v. bt_get (fst a) k = Some v \<Longrightarrow> bt_get vs k = Some v"
    using assms(1) by (auto simp: keeps_arguments_def)
  have c: "c = (fst c, snd a)" using assms(2) vs(1) by (cases c) (simp add: refines_arguments_def)
  have "bt_get (fst c) k = Some v" if "bt_get (fst a) k = Some v" for k v
    using bt_get_in [OF vs(2) [OF that]] assms(2) vs(1) by (auto simp: refines_arguments_def list_all_iff)
  then show ?thesis unfolding keeps_arguments_def using c by (intro exI [of _ "fst c"]) simp
qed

lemma write_keeps_arguments:
  assumes "keeps_arguments a (so_value (cx_arguments cx))"
  shows "keeps_arguments a (so_value (cx_arguments (write_all ws cx)))"
  using assms
proof (induction ws arbitrary: cx)
  case (Cons w ws)
  obtain b where b: "so_value (cx_arguments cx) = Some b" using Cons.prems by (auto simp: keeps_arguments_def)
  have "keeps_arguments a (so_value (cx_arguments (write_context w cx)))"
  proof (cases w)
    case (RefineArguments vs st)
    then show ?thesis using Cons.prems b keeps_refined [of a b "(vs, st)"]
      by (simp add: slot_refine_def slot_conflict_def)
  qed (use Cons.prems b in \<open>simp_all add: slot_record_value\<close>)
  then show ?case using Cons.IH by (simp add: write_all_def)
qed (simp add: write_all_def)

lemma write_first_arguments:
  "so_value (cx_arguments cx) = None \<Longrightarrow> argument_writes ws = a # rest \<Longrightarrow>
   keeps_arguments a (so_value (cx_arguments (write_all ws cx)))"
proof (induction ws arbitrary: cx)
  case (Cons w ws)
  show ?case
  proof (cases "\<exists>vs st. w = RecordArguments vs st \<or> w = RefineArguments vs st")
    case True
    then have "so_value (cx_arguments (write_context w cx)) = Some a"
      using Cons.prems by (auto simp: argument_writes_def slot_record_value slot_refine_def)
    then have "keeps_arguments a (so_value (cx_arguments (write_all ws (write_context w cx))))"
      by (intro write_keeps_arguments) (simp add: keeps_refl)
    then show ?thesis by (simp add: write_all_def)
  next
    case False
    then have "so_value (cx_arguments (write_context w cx)) = None" "argument_writes ws = a # rest"
      using Cons.prems by (cases w; simp add: argument_writes_def)+
    then show ?thesis using Cons.IH by (simp add: write_all_def)
  qed
qed (simp add: argument_writes_def)

text \<open>
  C34: a verified identity cannot be overwritten. Whatever a handler writes later, the frozen identity is the first
  one recorded, or the anonymous one, and the frozen arguments keep every property and the status of the first write.
\<close>

theorem first_verified_write_wins:
  "fz_identity (freeze_with_default dflt (write_all ws new_context)) =
     (case identities ws of [] \<Rightarrow> anonymous_identity | i # _ \<Rightarrow> i) \<and>
   (case argument_writes ws of
      [] \<Rightarrow> True
    | a # _ \<Rightarrow> fz_arguments_parse_status (freeze_with_default dflt (write_all ws new_context)) = snd a \<and>
        (\<forall>k. bt_get (fst a) k \<noteq> None \<longrightarrow>
           bt_get (fz_arguments (freeze_with_default dflt (write_all ws new_context))) k = bt_get (fst a) k))"
proof -
  let ?cx = "write_all ws new_context"
  have "so_value (cx_identity ?cx) = (case identities ws of [] \<Rightarrow> None | i # _ \<Rightarrow> Some i)"
    by (simp add: write_identity new_context_def empty_slot_def)
  moreover have "keeps_arguments a (so_value (cx_arguments ?cx))" if "argument_writes ws = a # rest" for a rest
    using that by (intro write_first_arguments) (simp_all add: new_context_def empty_slot_def)
  ultimately show ?thesis
    by (fastforce simp: freeze_with_default_def keeps_arguments_def Let_def split: list.splits)
qed

theorem first_verified_write_wins_witness:
  "let frozen = freeze_with_default UnavailableArguments (write_all
     [RecordIdentity (github_bearer 7 (lit ''ann'')), RecordArguments [([], lit ''5'')] Parsed,
      RecordIdentity (github_bearer 8 (lit ''bob'')), RefineArguments [([], lit ''6'')] InvalidArguments] new_context)
   in fz_identity frozen = github_bearer 7 (lit ''ann'') \<and> fz_arguments_parse_status frozen = Parsed \<and>
      bt_get (fz_arguments frozen) [] = Some (lit ''5'')"
proof -
  let ?ws = "[RecordIdentity (github_bearer 7 (lit ''ann'')), RecordArguments [([], lit ''5'')] Parsed,
      RecordIdentity (github_bearer 8 (lit ''bob'')), RefineArguments [([], lit ''6'')] InvalidArguments]"
  have "identities ?ws = [github_bearer 7 (lit ''ann''), github_bearer 8 (lit ''bob'')]"
    "argument_writes ?ws = [([([], lit ''5'')], Parsed), ([([], lit ''6'')], InvalidArguments)]"
    by (simp_all add: identities_def argument_writes_def)
  then have w: "fz_identity (freeze_with_default UnavailableArguments (write_all ?ws new_context)) = github_bearer 7 (lit ''ann'')"
    "fz_arguments_parse_status (freeze_with_default UnavailableArguments (write_all ?ws new_context)) = Parsed"
    "\<forall>k. bt_get [([], lit ''5'')] k \<noteq> None \<longrightarrow>
       bt_get (fz_arguments (freeze_with_default UnavailableArguments (write_all ?ws new_context))) k = bt_get [([], lit ''5'')] k"
    using first_verified_write_wins [of UnavailableArguments ?ws] by simp_all
  from spec [OF w(3), of "[]"] show ?thesis by (simp add: Let_def w(1,2) bt_get_def)
qed

text \<open>Only allowlisted properties are recorded.\<close>

lemma filter_arguments_get:
  "bt_get (filter_arguments allowed vs) k = Some v \<Longrightarrow> k \<in> set allowed"
proof -
  have keep: "bt_get (fold (\<lambda>(k, v) kept. if k \<in> set allowed then bt_insert k v kept else kept) vs kept) k = Some v \<Longrightarrow>
      k \<in> set allowed \<or> bt_get kept k = Some v" for kept
  proof (induction vs arbitrary: kept)
    case (Cons x vs)
    obtain k' v' where x: "x = (k', v')" by (cases x)
    from Cons.prems Cons.IH [of "if k' \<in> set allowed then bt_insert k' v' kept else kept"] show ?case
      by (auto simp: x split: if_splits)
  qed simp
  show "bt_get (filter_arguments allowed vs) k = Some v \<Longrightarrow> k \<in> set allowed"
    using keep [of "[]"] by (simp add: filter_arguments_def)
qed

section \<open>The retry budget\<close>

lemma send_with_budget_facts:
  assumes "send_with_budget send over budget attempt elapsed = (r, n, t)" "budget < 2 ^ 64"
    "25 * (attempt * (attempt + 1)) \<le> 2 * budget" "25 * (attempt * (attempt + 1)) \<le> 2 * elapsed"
  shows "25 * (n * (n - 1)) \<le> 2 * budget \<and> attempt \<le> n"
  using assms
proof (induction send over budget attempt elapsed rule: send_with_budget.induct)
  case (1 send over budget attempt elapsed)
  have here: "25 * (Suc attempt * (Suc attempt - 1)) \<le> 2 * budget" using "1.prems"(3) by (simp add: algebra_simps)
  have low: "25 * (attempt * (attempt - 1)) \<le> 2 * budget"
    using "1.prems"(3) by (metis diff_le_self le_add1 le_trans mult_le_mono2)
  obtain res took where s: "send attempt (budget - elapsed) = (res, took)" by (cases "send attempt (budget - elapsed)")
  show ?case
  proof (cases "budget \<le> elapsed \<or> (\<exists>ack. res = Inr ack) \<or> (\<exists>e. res = Inl e \<and>
      (\<not> is_retryable e \<or> budget \<le> elapsed + took + retry_pause_ms (Suc attempt)))")
    case True
    then have "n = attempt \<or> n = Suc attempt" using "1.prems"(1) s by (auto split: if_splits)
    then show ?thesis using here low by auto
  next
    case False
    then obtain e where e: "res = Inl e" "is_retryable e" "elapsed + took + retry_pause_ms (Suc attempt) < budget" "elapsed < budget"
      by (cases res) auto
    then have pause: "retry_pause_ms (Suc attempt) = 25 * Suc attempt"
      using "1.prems"(2) by (auto simp: retry_pause_ms_def min_def split: if_splits)
    let ?elapsed = "elapsed + took + retry_pause_ms (Suc attempt) + over (Suc attempt)"
    have rec: "send_with_budget send over budget (Suc attempt) ?elapsed = (r, n, t)"
      using "1.prems"(1) s e by (simp add: Let_def)
    have sq: "25 * (Suc attempt * (Suc attempt + 1)) = 25 * (attempt * (attempt + 1)) + 2 * (25 * Suc attempt)"
      by (simp add: algebra_simps)
    have "25 * (Suc attempt * (Suc attempt + 1)) \<le> 2 * (elapsed + retry_pause_ms (Suc attempt))"
      unfolding sq pause using "1.prems"(4) by simp
    moreover have "2 * (elapsed + retry_pause_ms (Suc attempt)) \<le> 2 * budget"
        "2 * (elapsed + retry_pause_ms (Suc attempt)) \<le> 2 * ?elapsed" using e(3) by simp_all
    ultimately have "25 * (Suc attempt * (Suc attempt + 1)) \<le> 2 * budget" "25 * (Suc attempt * (Suc attempt + 1)) \<le> 2 * ?elapsed"
      using order_trans by blast+
    then have "25 * (n * (n - 1)) \<le> 2 * budget \<and> Suc attempt \<le> n"
      using "1.IH" [OF _ s [symmetric] e(1,2) refl refl _ rec "1.prems"(2)] e(3,4) by simp
    then show ?thesis by simp
  qed
qed

lemma send_with_budget_time:
  assumes "send_with_budget send over budget attempt elapsed = (r, n, t)" "elapsed \<le> budget"
    "\<And>a left. snd (send a left) \<le> left" "\<And>a. over a = 0"
  shows "t \<le> budget"
  using assms
proof (induction send over budget attempt elapsed rule: send_with_budget.induct)
  case (1 send over budget attempt elapsed)
  obtain res took where s: "send attempt (budget - elapsed) = (res, took)" by (cases "send attempt (budget - elapsed)")
  have took: "elapsed + took \<le> budget" using "1.prems"(2) "1.prems"(3) [of attempt "budget - elapsed"] s by simp
  show ?case
  proof (cases "budget \<le> elapsed \<or> (\<exists>ack. res = Inr ack) \<or> (\<exists>e. res = Inl e \<and>
      (\<not> is_retryable e \<or> budget \<le> elapsed + took + retry_pause_ms (Suc attempt)))")
    case True
    then have "t = elapsed \<or> t = elapsed + took" using "1.prems"(1) s by (auto split: if_splits)
    then show ?thesis using took "1.prems"(2) by auto
  next
    case False
    then obtain e where e: "res = Inl e" "is_retryable e" "elapsed + took + retry_pause_ms (Suc attempt) < budget" "elapsed < budget"
      by (cases res) auto
    let ?elapsed = "elapsed + took + retry_pause_ms (Suc attempt) + over (Suc attempt)"
    have rec: "send_with_budget send over budget (Suc attempt) ?elapsed = (r, n, t)"
      using "1.prems"(1) s e by (simp add: Let_def)
    show ?thesis
      using "1.IH" [OF _ s [symmetric] e(1,2) refl refl _ rec _ "1.prems"(3,4)] e(3,4) "1.prems"(4) [of "Suc attempt"] by simp
  qed
qed

text \<open>
  C35: a relay call always ends within its budget. However the relay answers, the loop makes at most about
  \<open>sqrt (2 * budget / 25)\<close> attempts; when the HTTP client keeps its timeout and sleeps are exact, the response
  is held no longer than the budget.
\<close>

theorem relay_call_ends:
  assumes "budget < 2 ^ 64"
  shows "\<exists>r n t. send_with_budget send over budget 0 0 = (r, n, t) \<and> 25 * (n * (n - 1)) \<le> 2 * budget \<and>
    ((\<forall>a left. snd (send a left) \<le> left) \<longrightarrow> (\<forall>a. over a = 0) \<longrightarrow> t \<le> budget)"
proof -
  obtain r n t where s: "send_with_budget send over budget 0 0 = (r, n, t)" by (cases "send_with_budget send over budget 0 0")
  then show ?thesis
    using send_with_budget_facts [OF s assms] send_with_budget_time [OF s] by auto
qed

theorem relay_call_ends_witness:
  "\<exists>r n t. send_with_budget (\<lambda>_ _. (Inl (RelayUnavailable (lit ''busy'')) :: relay_client_error + unit, 0)) (\<lambda>_. 0) 500 0 0
     = (r, n, t) \<and> 25 * (n * (n - 1)) \<le> 1000 \<and> t \<le> 500"
  using relay_call_ends [of 500 "\<lambda>_ _. (Inl (RelayUnavailable (lit ''busy'')) :: relay_client_error + unit, 0)" "\<lambda>_. 0"]
  by auto

section \<open>What required mode releases\<close>

lemma required_mode_cases:
  assumes "dl_mode (mw_delivery mw) = RequiredDelivery" "dl_client (mw_delivery mw) = Some client"
    "resolve (mw_catalog mw) (hq_method req) (hq_matched req) = RecordRoute operation_id template"
    "audit_requests mw env handler req w = (response, w')"
    "request_id = nr_value (normalize_request_id (env_fresh_id env) (hq_request_id req))"
    "i = \<lparr>ri_request_id = request_id, ri_method = hq_method req, ri_route_template = template,
      ri_operation_id = operation_id\<rparr>"
    "start = build_start (env_codec env) (mw_delivery mw) i
      (derive_event_id (env_uuid_v5 env) (env_nanos env) i (env_started_at env)) (env_started_at env) (mw_service mw)"
  shows "(\<exists>e. rc_register client start w = (Inl e, w') \<and> response = ingress_unavailable\<lparr>re_request_id := Some request_id\<rparr>) \<or>
    (\<exists>w1 writes r w2 committed. rc_register client start w = (Inr (), w1) \<and> handler w1 = (writes, r, w2) \<and>
       rc_complete client (from_domain (env_codec env) (terminal_event mw env i (hq_matched req \<noteq> None) writes r)) w2 = (committed, w') \<and>
       response = (if committed = Inr () then r else completion_unconfirmed)\<lparr>re_request_id := Some request_id\<rparr>)"
proof -
  obtain reg w1 where reg: "rc_register client start w = (reg, w1)" by (cases "rc_register client start w")
  have s: "register_start (env_codec env) (mw_delivery mw) i
      (derive_event_id (env_uuid_v5 env) (env_nanos env) i (env_started_at env)) (env_started_at env) (mw_service mw) w =
      (case reg of Inr _ \<Rightarrow> Inr () | Inl e \<Rightarrow> Inl e, w1)"
    using reg assms(1,2) by (simp add: register_start_def delivery_call_def on_failure_def assms(7) split: sum.split)
  note run = assms(4) [unfolded audit_requests_def Let_def assms(3) route_decision.case, folded assms(5), folded assms(6), unfolded s]
  show ?thesis
  proof (cases reg)
    case (Inl e)
    then show ?thesis using run reg by simp
  next
    case (Inr u)
    obtain writes r w2 where h: "handler w1 = (writes, r, w2)" by (cases "handler w1")
    let ?e = "terminal_event mw env i (hq_matched req \<noteq> None) writes r"
    obtain committed w3 where c: "rc_complete client (from_domain (env_codec env) ?e) w2 = (committed, w3)"
      by (cases "rc_complete client (from_domain (env_codec env) ?e) w2")
    have d: "complete_delivery (env_codec env) (mw_delivery mw) ?e w2 = (case committed of Inr _ \<Rightarrow> Inr () | Inl e \<Rightarrow> Inl e, w3)"
      using c assms(1,2) by (simp add: complete_delivery_def delivery_call_def on_failure_def split: sum.split)
    have "use_local_sink (mw_delivery mw) = False" using assms(1) by (simp add: use_local_sink_def)
    then have "w' = w3 \<and> response = (if committed = Inr () then r else completion_unconfirmed)\<lparr>re_request_id := Some request_id\<rparr>"
      using run h d Inr by (cases committed) auto
    then show ?thesis using reg Inr h c by auto
  qed
qed


definition accepting_relay :: "unit relay_client" where
  "accepting_relay = \<lparr>rc_register = (\<lambda>_ w. (Inr (), w)), rc_complete = (\<lambda>_ w. (Inl RelayConflict, w))\<rparr>"

definition sample_middleware :: "unit audit_middleware" where
  "sample_middleware =
     \<lparr>mw_catalog = Map.empty, mw_service = \<lparr>sv_version = lit ''1'', sv_environment = []\<rparr>,
      mw_delivery = \<lparr>dl_mode = RequiredDelivery, dl_client = Some accepting_relay, dl_grace_secs = 60\<rparr>,
      mw_submit = (\<lambda>_ w. w)\<rparr>"

definition sample_env :: request_env where
  "sample_env = \<lparr>env_started_at = 500, env_elapsed_ms = 7, env_fresh_id = lit ''f'', env_uuid_v5 = (\<lambda>k. k),
     env_nanos = show_int, env_codec = millis_utc\<rparr>"


section \<open>Every record the middleware builds is valid\<close>

text \<open>What holds of an identity that an extractor proved, of a stable code and of the correlation keys handlers record.\<close>

definition wf_identity :: "audit_identity \<Rightarrow> bool" where
  "wf_identity i \<longleftrightarrow>
     (let a = ai_actor i
      in bounded_opt (lit ''actor.login'') (ac_login a) 64 = Inr () \<and>
         bounded_opt (lit ''principal.id'') (ap_id (ai_principal i)) 128 = Inr () \<and>
         (if is_human (ac_kind a) then (case ac_id a of Some n \<Rightarrow> 0 < n | None \<Rightarrow> ac_kind a \<noteq> GithubUser)
          else ac_id a = None \<and> (ac_kind a = AnonymousActor \<longrightarrow> ac_login a = None)))"

definition wf_write :: "context_write \<Rightarrow> bool" where
  "wf_write w \<longleftrightarrow>
     (case w of
        RecordIdentity i \<Rightarrow> wf_identity i
      | RecordErrorCode c \<Rightarrow> validate_error_code (Some c) = Inr ()
      | RecordSessionId s \<Rightarrow> bounded (lit ''session_id'') s 128 True = Inr ()
      | RecordRepoFullName r \<Rightarrow> validate_repo r = Inr ()
      | RecordWebhookDeliveryId d \<Rightarrow> bounded (lit ''correlation.webhook_delivery_id'') d 64 True = Inr ()
      | _ \<Rightarrow> True)"

lemma wf_anonymous: "wf_identity anonymous_identity"
  by (simp add: wf_identity_def anonymous_identity_def anonymous_actor_def is_human_def bounded_opt_def)

lemma wf_github_bearer:
  "0 < n \<Longrightarrow> bounded (lit ''actor.login'') login 64 True = Inr () \<Longrightarrow> wf_identity (github_bearer n login)"
  by (simp add: wf_identity_def github_bearer_def github_user_actor_def is_human_def bounded_opt_def)

lemma write_value:
  "so_value (cx_error_code (write_context w cx)) = Some v \<Longrightarrow> so_value (cx_error_code cx) = Some v \<or> w = RecordErrorCode v"
  "so_value (cx_session_id (write_context w cx)) = Some v \<Longrightarrow> so_value (cx_session_id cx) = Some v \<or> w = RecordSessionId v"
  "so_value (cx_repo_full_name (write_context w cx)) = Some v \<Longrightarrow>
     so_value (cx_repo_full_name cx) = Some v \<or> w = RecordRepoFullName v"
  "so_value (cx_webhook_delivery_id (write_context w cx)) = Some v \<Longrightarrow>
     so_value (cx_webhook_delivery_id cx) = Some v \<or> w = RecordWebhookDeliveryId v"
  by (cases w; simp add: slot_record_value split: option.splits)+

lemma write_all_value:
  "so_value (cx_error_code (write_all ws cx)) = Some v \<Longrightarrow> so_value (cx_error_code cx) = Some v \<or> RecordErrorCode v \<in> set ws"
  "so_value (cx_session_id (write_all ws cx)) = Some v \<Longrightarrow> so_value (cx_session_id cx) = Some v \<or> RecordSessionId v \<in> set ws"
  "so_value (cx_repo_full_name (write_all ws cx)) = Some v \<Longrightarrow>
     so_value (cx_repo_full_name cx) = Some v \<or> RecordRepoFullName v \<in> set ws"
  "so_value (cx_webhook_delivery_id (write_all ws cx)) = Some v \<Longrightarrow>
     so_value (cx_webhook_delivery_id cx) = Some v \<or> RecordWebhookDeliveryId v \<in> set ws"
  by (induction ws arbitrary: cx; auto simp: write_all_def dest: write_value)+

lemma identities_mem: "i \<in> set (identities ws) \<Longrightarrow> RecordIdentity i \<in> set ws"
proof (induction ws)
  case (Cons w ws)
  then show ?case by (cases w) (auto simp: identities_def)
qed (simp add: identities_def)

lemma wf_context:
  assumes "list_all wf_write ws"
  shows "so_value (cx_error_code (write_all ws new_context)) = Some c \<Longrightarrow> validate_error_code (Some c) = Inr ()"
    "so_value (cx_session_id (write_all ws new_context)) = Some s \<Longrightarrow> bounded (lit ''session_id'') s 128 True = Inr ()"
    "so_value (cx_repo_full_name (write_all ws new_context)) = Some r \<Longrightarrow> validate_repo r = Inr ()"
    "so_value (cx_webhook_delivery_id (write_all ws new_context)) = Some d \<Longrightarrow>
       bounded (lit ''correlation.webhook_delivery_id'') d 64 True = Inr ()"
proof -
  have wf: "wf_write w" if "w \<in> set ws" for w using assms that by (simp add: list_all_iff)
  have fresh: "so_value (cx_error_code new_context) = None" "so_value (cx_session_id new_context) = None"
      "so_value (cx_repo_full_name new_context) = None" "so_value (cx_webhook_delivery_id new_context) = None"
    by (simp_all add: new_context_def empty_slot_def)
  show "so_value (cx_error_code (write_all ws new_context)) = Some c \<Longrightarrow> validate_error_code (Some c) = Inr ()"
    using write_all_value(1) [of ws new_context c] wf [of "RecordErrorCode c"] fresh by (simp add: wf_write_def)
  show "so_value (cx_session_id (write_all ws new_context)) = Some s \<Longrightarrow> bounded (lit ''session_id'') s 128 True = Inr ()"
    using write_all_value(2) [of ws new_context s] wf [of "RecordSessionId s"] fresh by (simp add: wf_write_def)
  show "so_value (cx_repo_full_name (write_all ws new_context)) = Some r \<Longrightarrow> validate_repo r = Inr ()"
    using write_all_value(3) [of ws new_context r] wf [of "RecordRepoFullName r"] fresh by (simp add: wf_write_def)
  show "so_value (cx_webhook_delivery_id (write_all ws new_context)) = Some d \<Longrightarrow>
      bounded (lit ''correlation.webhook_delivery_id'') d 64 True = Inr ()"
    using write_all_value(4) [of ws new_context d] wf [of "RecordWebhookDeliveryId d"] fresh by (simp add: wf_write_def)
qed

lemma wf_identity_actor:
  assumes "wf_identity i" "ev_actor e = ai_actor i" "ev_actor_id e = (if is_human (ac_kind (ai_actor i)) then ac_id (ai_actor i) else None)"
    "ev_principal e = ai_principal i"
  shows "validate_actor e = Inr ()" "validate_principal e = Inr ()"
  using assms
  by (auto simp: wf_identity_def validate_actor_def validate_principal_def Let_def and_then_Inr_iff split: option.splits if_splits)

lemma framework_code_valid: "framework_error_code status matched = Some c \<Longrightarrow> validate_error_code (Some c) = Inr ()"
  by (auto simp: framework_error_code_def validate_error_code_def bounded_def stable_code_def str_simps trim_id trimmed_def
      char_class_defs RustStr.byte_len_def utf8_width_def split: if_splits)

lemma terminal_event_valid:
  assumes "validate_request_identity (ri_request_id i) (ri_method i) (ri_route_template i) (ri_operation_id i) = Inr ()"
    "validate_service_identity (sv_version (mw_service mw)) (sv_environment (mw_service mw)) = Inr ()"
    "200 \<le> re_status response" "re_status response \<le> 599"
    "re_error_code response = Some (lit ''request_timeout'') \<longrightarrow> re_status response \<in> {408, 504}"
    "validate_error_code (re_error_code response) = Inr ()" "list_all wf_write writes"
  shows "validate (terminal_event mw env i matched writes response) = Inr ()"
proof -
  let ?cx = "write_all writes new_context"
  let ?e = "terminal_event mw env i matched writes response"
  let ?identity = "case so_value (cx_identity ?cx) of Some i \<Rightarrow> i | None \<Rightarrow> anonymous_identity"
  have "wf_identity ?identity"
  proof (cases "identities writes")
    case (Cons j js)
    then have "wf_write (RecordIdentity j)" using assms(7) identities_mem [of j writes] by (simp add: list_all_iff)
    then show ?thesis using Cons by (simp add: write_identity new_context_def empty_slot_def wf_write_def)
  qed (simp add: write_identity new_context_def empty_slot_def wf_anonymous)
  then have actor: "validate_actor ?e = Inr ()" "validate_principal ?e = Inr ()"
    by (rule wf_identity_actor; simp add: terminal_event_def with_correlation_def with_arguments_def new_event_def
        freeze_with_default_def Let_def)+
  have times: "validate_timestamps ?e = Inr ()"
    by (simp add: validate_timestamps_def terminal_event_def with_correlation_def with_arguments_def new_event_def
        NANOS_PER_MILLI_def Let_def)
  have status: "validate_status_and_outcome (ev_status_code ?e) (ev_outcome ?e) = Inr ()"
    using derive_outcome_class_ok [OF assms(3,4), of "re_error_code response = Some (lit ''request_timeout'')" "re_rejected response"]
      assms(3-5)
    by (auto simp: validate_status_and_outcome_def terminal_event_def with_correlation_def with_arguments_def new_event_def Let_def)
  have code: "validate_error_code (ev_error_code ?e) = Inr ()"
  proof (cases "ev_error_code ?e")
    case (Some c)
    then have "re_error_code response = Some c \<or> so_value (cx_error_code ?cx) = Some c \<or>
        framework_error_code (re_status response) matched = Some c"
      by (auto simp: terminal_event_def with_correlation_def with_arguments_def new_event_def freeze_with_default_def
          or_else_def Let_def split: option.splits)
    then show ?thesis
      using Some assms(6) wf_context(1) [OF assms(7), of c] framework_code_valid [of "re_status response" matched c] by auto
  qed (simp add: validate_error_code_def)
  have corr: "validate_correlation ?e = Inr ()"
    using wf_context(2-4) [OF assms(7)]
    by (auto simp: validate_correlation_def terminal_event_def with_correlation_def with_arguments_def new_event_def
        freeze_with_default_def Let_def and_then_Inr_iff bounded_opt_def split: option.splits)
  have "ev_schema_version ?e = SCHEMA_VERSION" "ev_service ?e = mw_service mw" "ev_request_id ?e = ri_request_id i"
      "ev_method ?e = ri_method i" "ev_route_template ?e = ri_route_template i" "ev_operation_id ?e = ri_operation_id i"
    by (simp_all add: terminal_event_def with_correlation_def with_arguments_def new_event_def Let_def)
  then show ?thesis using actor times status code corr assms(1,2) by (simp add: validate_Inr_iff)
qed



end
