(* ===== verification/AuditRelay.thy ===== *)
theory AuditRelay
  imports AuditProtocol "HOL-Library.Option_ord"
begin

text \<open>
  The durable audit relay: the record vocabulary (\<open>audit_relay/record.rs\<close>), idempotent ingress (\<open>db/ingest.rs\<close>),
  the delivery transactions (\<open>db/delivery.rs\<close>), the write endpoints (\<open>http/write.rs\<close>, \<open>http/error.rs\<close>, \<open>auth.rs\<close>)
  and the background sweep: closing overdue starts (\<open>closer.rs\<close>, \<open>incomplete.rs\<close>), capture (\<open>capture.rs\<close>,
  \<open>projection.rs\<close>), verification (\<open>verify.rs\<close>), retention and the capacity flag (\<open>worker.rs\<close>).

  The table is the map from event id to row, ordered by event id. A JSON column is the body it encodes; a timestamp
  column is the instant cut to milliseconds, since the canonical text of fixed width orders as the instants do.
  PostHog is a parameter: an answer to each capture request and to the verification query.
\<close>

section \<open>Records\<close>

datatype relay_record_kind = RelayApiRequest | RelaySandboxLifecycle

datatype record_state = Started | Completed | ClosedIncomplete | PosthogAccepted | PosthogVerified | RelayDeadLetter

fun record_state_as_str :: "record_state \<Rightarrow> str" where
  "record_state_as_str Started = lit ''started''"
| "record_state_as_str Completed = lit ''complete''"
| "record_state_as_str ClosedIncomplete = lit ''incomplete''"
| "record_state_as_str PosthogAccepted = lit ''posthog_accepted''"
| "record_state_as_str PosthogVerified = lit ''posthog_verified''"
| "record_state_as_str RelayDeadLetter = lit ''dead_letter''"

definition has_terminal :: "record_state \<Rightarrow> bool" where
  "has_terminal s \<longleftrightarrow> s \<noteq> Started"

definition awaits_capture :: "record_state \<Rightarrow> bool" where
  "awaits_capture s \<longleftrightarrow> s = Completed \<or> s = ClosedIncomplete"

fun relay_delivery_state :: "record_state \<Rightarrow> str" where
  "relay_delivery_state Started = lit ''queued''"
| "relay_delivery_state Completed = lit ''queued''"
| "relay_delivery_state ClosedIncomplete = lit ''incomplete''"
| "relay_delivery_state PosthogAccepted = lit ''accepted_pending_verification''"
| "relay_delivery_state PosthogVerified = lit ''verified_in_posthog''"
| "relay_delivery_state RelayDeadLetter = lit ''dead_letter''"

datatype wire_body = StartBody request_start | CompletionBody request_completion | LifecycleBody lifecycle_event

record relay_row =
  rw_kind :: relay_record_kind
  rw_request_id :: "str option"
  rw_operation_id :: "str option"
  rw_actor_id :: "int option"
  rw_session_id :: "str option"
  rw_started_at :: instant
  rw_terminal_at :: "instant option"
  rw_deadline :: "instant option"
  rw_state :: record_state
  rw_start_json :: wire_body
  rw_terminal_json :: "wire_body option"
  rw_attempts :: nat
  rw_next_attempt :: "instant option"
  rw_accepted_at :: "instant option"
  rw_verified_at :: "instant option"
  rw_delivery_code :: "str option"
  rw_created_at :: instant
  rw_updated_at :: instant

type_synonym relay_db = "(str, relay_row) btree_map"

section \<open>Ingress\<close>

datatype db_error = DbConflict | DbNoStart | DbCapacity | DbUnavailable | DbBusy | DbInternal

datatype ingested = IngestCreated record_state | IngestReplayed record_state

definition db_register_start ::
  "request_start \<Rightarrow> start_identity \<Rightarrow> instant \<Rightarrow> relay_db \<Rightarrow> db_error + ingested \<times> relay_db" where
  "db_register_start s i now db =
     (case bt_get db (si_event_id i) of
        Some r \<Rightarrow> if rw_start_json r \<noteq> StartBody s then Inl DbConflict else Inr (IngestReplayed (rw_state r), db)
      | None \<Rightarrow>
          Inr (IngestCreated Started,
            bt_insert (si_event_id i)
              \<lparr>rw_kind = RelayApiRequest, rw_request_id = Some (si_request_id i), rw_operation_id = Some (si_operation_id i),
               rw_actor_id = None, rw_session_id = None, rw_started_at = whole_milli (si_started_at i),
               rw_terminal_at = None, rw_deadline = Some (whole_milli (si_completion_deadline_at i)), rw_state = Started,
               rw_start_json = StartBody s, rw_terminal_json = None, rw_attempts = 0, rw_next_attempt = None,
               rw_accepted_at = None, rw_verified_at = None, rw_delivery_code = None,
               rw_created_at = whole_milli now, rw_updated_at = whole_milli now\<rparr> db))"

definition start_matches :: "request_start \<Rightarrow> request_completion \<Rightarrow> bool" where
  "start_matches s c \<longleftrightarrow>
     st_event_id s = cm_event_id c \<and> st_request_id s = cm_request_id c \<and> st_started_at s = cm_started_at c \<and>
     st_method s = cm_method c \<and> st_route_template s = cm_route_template c \<and> st_operation_id s = cm_operation_id c"

definition db_commit_completion ::
  "request_completion \<Rightarrow> instant \<Rightarrow> instant \<Rightarrow> relay_db \<Rightarrow> db_error + ingested \<times> relay_db" where
  "db_commit_completion c terminal_at now db =
     (case bt_get db (cm_event_id c) of
        None \<Rightarrow> Inl DbNoStart
      | Some r \<Rightarrow>
          (case rw_start_json r of
             StartBody s \<Rightarrow>
               if \<not> start_matches s c then Inl DbConflict
               else (case rw_terminal_json r of
                       Some stored \<Rightarrow>
                         if stored = CompletionBody c then Inr (IngestReplayed (rw_state r), db) else Inl DbConflict
                     | None \<Rightarrow>
                         Inr (IngestCreated Completed,
                           bt_insert (cm_event_id c)
                             (r\<lparr>rw_state := Completed, rw_terminal_json := Some (CompletionBody c),
                                rw_terminal_at := Some (whole_milli terminal_at), rw_actor_id := cm_actor_id c,
                                rw_session_id := cm_session_id c, rw_next_attempt := Some (whole_milli now),
                                rw_updated_at := whole_milli now\<rparr>) db))
           | _ \<Rightarrow> Inl DbInternal))"

definition db_commit_lifecycle ::
  "lifecycle_event \<Rightarrow> instant \<Rightarrow> instant \<Rightarrow> relay_db \<Rightarrow> db_error + ingested \<times> relay_db" where
  "db_commit_lifecycle e occurred_at now db =
     (case bt_get db (le_event_id e) of
        Some r \<Rightarrow>
          if rw_terminal_json r = Some (LifecycleBody e) then Inr (IngestReplayed (rw_state r), db) else Inl DbConflict
      | None \<Rightarrow>
          Inr (IngestCreated Completed,
            bt_insert (le_event_id e)
              \<lparr>rw_kind = RelaySandboxLifecycle, rw_request_id = cv1_request_id (le_correlation e), rw_operation_id = None,
               rw_actor_id = None, rw_session_id = Some (le_session_id e), rw_started_at = whole_milli occurred_at,
               rw_terminal_at = Some (whole_milli occurred_at), rw_deadline = None, rw_state = Completed,
               rw_start_json = LifecycleBody e, rw_terminal_json = Some (LifecycleBody e), rw_attempts = 0,
               rw_next_attempt = Some (whole_milli now), rw_accepted_at = None, rw_verified_at = None,
               rw_delivery_code = None, rw_created_at = whole_milli now, rw_updated_at = whole_milli now\<rparr> db))"

section \<open>Delivery transactions\<close>

text \<open>\<open>UPDATE ... WHERE event_id = ? AND <guard>\<close>, and \<open>SELECT ... ORDER BY key, event_id LIMIT n\<close>.\<close>

definition update_row :: "str \<Rightarrow> (relay_row \<Rightarrow> bool) \<Rightarrow> (relay_row \<Rightarrow> relay_row) \<Rightarrow> relay_db \<Rightarrow> relay_db" where
  "update_row i guard f db = (case bt_get db i of Some r \<Rightarrow> if guard r then bt_insert i (f r) db else db | None \<Rightarrow> db)"

definition select_rows :: "(relay_row \<Rightarrow> bool) \<Rightarrow> (relay_row \<Rightarrow> 'k::linorder) \<Rightarrow> nat \<Rightarrow> relay_db \<Rightarrow> (str \<times> relay_row) list" where
  "select_rows guard key n db = take n (sort_key (\<lambda>(_, r). key r) (filter (\<lambda>(_, r). guard r) db))"

definition claim_due :: "instant \<Rightarrow> nat \<Rightarrow> relay_db \<Rightarrow> (str \<times> relay_row) list" where
  "claim_due now limit =
     select_rows (\<lambda>r. awaits_capture (rw_state r) \<and>
         (case rw_next_attempt r of None \<Rightarrow> True | Some t \<Rightarrow> t \<le> whole_milli now)) rw_terminal_at limit"

definition claim_unverified :: "instant \<Rightarrow> nat \<Rightarrow> relay_db \<Rightarrow> (str \<times> relay_row) list" where
  "claim_unverified accepted_before limit =
     select_rows (\<lambda>r. rw_state r = PosthogAccepted \<and>
         (case rw_accepted_at r of None \<Rightarrow> False | Some t \<Rightarrow> t \<le> whole_milli accepted_before)) rw_accepted_at limit"

definition claim_overdue_starts :: "instant \<Rightarrow> nat \<Rightarrow> nat \<Rightarrow> relay_db \<Rightarrow> (str \<times> relay_row) list" where
  "claim_overdue_starts now grace_secs limit =
     (let cutoff = now - int grace_secs * NANOS_PER_SEC
      in select_rows (\<lambda>r. rw_state r = Started \<and>
           (case rw_deadline r of None \<Rightarrow> False | Some t \<Rightarrow> t \<le> whole_milli cutoff)) rw_deadline limit)"

definition synthesize_incomplete :: "str \<Rightarrow> wire_body \<Rightarrow> instant \<Rightarrow> instant \<Rightarrow> relay_db \<Rightarrow> relay_db" where
  "synthesize_incomplete i terminal terminal_at now =
     update_row i (\<lambda>r. rw_state r = Started)
       (\<lambda>r. r\<lparr>rw_state := ClosedIncomplete, rw_terminal_json := Some terminal,
              rw_terminal_at := Some (whole_milli terminal_at), rw_next_attempt := Some (whole_milli now),
              rw_updated_at := whole_milli now\<rparr>)"

definition mark_accepted :: "str list \<Rightarrow> instant \<Rightarrow> relay_db \<Rightarrow> relay_db" where
  "mark_accepted ids now =
     fold (\<lambda>i. update_row i (\<lambda>r. awaits_capture (rw_state r))
       (\<lambda>r. r\<lparr>rw_state := PosthogAccepted, rw_accepted_at := Some (whole_milli now), rw_next_attempt := None,
              rw_delivery_code := None, rw_updated_at := whole_milli now\<rparr>)) ids"

definition mark_retry :: "str \<Rightarrow> instant \<Rightarrow> str \<Rightarrow> instant \<Rightarrow> relay_db \<Rightarrow> relay_db" where
  "mark_retry i next_attempt code now =
     update_row i (\<lambda>_. True)
       (\<lambda>r. r\<lparr>rw_attempts := rw_attempts r + 1, rw_next_attempt := Some (whole_milli next_attempt),
              rw_delivery_code := Some code, rw_updated_at := whole_milli now\<rparr>)"

definition mark_dead_letter :: "str \<Rightarrow> str \<Rightarrow> instant \<Rightarrow> relay_db \<Rightarrow> relay_db" where
  "mark_dead_letter i code now =
     update_row i (\<lambda>_. True)
       (\<lambda>r. r\<lparr>rw_state := RelayDeadLetter, rw_attempts := rw_attempts r + 1, rw_next_attempt := None,
              rw_delivery_code := Some code, rw_updated_at := whole_milli now\<rparr>)"

definition mark_verified :: "str list \<Rightarrow> instant \<Rightarrow> relay_db \<Rightarrow> relay_db" where
  "mark_verified ids now =
     fold (\<lambda>i. update_row i (\<lambda>r. rw_state r = PosthogAccepted)
       (\<lambda>r. r\<lparr>rw_state := PosthogVerified, rw_verified_at := Some (whole_milli now), rw_updated_at := whole_milli now\<rparr>)) ids"

definition requeue_for_recapture :: "str \<Rightarrow> record_state \<Rightarrow> instant \<Rightarrow> relay_db \<Rightarrow> relay_db" where
  "requeue_for_recapture i restore now =
     update_row i (\<lambda>r. rw_state r = PosthogAccepted)
       (\<lambda>r. r\<lparr>rw_state := restore, rw_accepted_at := None, rw_next_attempt := Some (whole_milli now),
              rw_delivery_code := Some (lit ''verification_absent''), rw_updated_at := whole_milli now\<rparr>)"

definition purge_verified :: "instant \<Rightarrow> relay_db \<Rightarrow> relay_db" where
  "purge_verified verified_before db =
     filter (\<lambda>(_, r). \<not> (rw_state r = PosthogVerified \<and>
       (case rw_verified_at r of None \<Rightarrow> False | Some t \<Rightarrow> t < whole_milli verified_before))) db"

section \<open>Write endpoints\<close>

datatype relay_error = RelayUnauthorized | RelayInvalid | RelayConflicting | RelayNoStart | RelayAtCapacity | RelayStorage

definition relay_error_of :: "db_error \<Rightarrow> relay_error" where
  "relay_error_of e =
     (case e of DbConflict \<Rightarrow> RelayConflicting | DbNoStart \<Rightarrow> RelayNoStart | DbCapacity \<Rightarrow> RelayAtCapacity | _ \<Rightarrow> RelayStorage)"

definition relay_error_status :: "relay_error \<Rightarrow> nat" where
  "relay_error_status e =
     (case e of RelayUnauthorized \<Rightarrow> 401 | RelayInvalid \<Rightarrow> 400 | RelayConflicting \<Rightarrow> 409 | RelayNoStart \<Rightarrow> 409
      | RelayAtCapacity \<Rightarrow> 503 | RelayStorage \<Rightarrow> 503)"

definition relay_error_code :: "relay_error \<Rightarrow> str" where
  "relay_error_code e =
     (case e of RelayUnauthorized \<Rightarrow> lit ''unauthorized'' | RelayInvalid \<Rightarrow> lit ''invalid_request''
      | RelayConflicting \<Rightarrow> lit ''event_id_conflict'' | RelayNoStart \<Rightarrow> lit ''no_registered_start''
      | RelayAtCapacity \<Rightarrow> lit ''relay_at_capacity'' | RelayStorage \<Rightarrow> lit ''relay_unavailable'')"

text \<open>The bearer credential of an \<open>Authorization\<close> header; the comparison is by value, in constant time.\<close>

definition bearer :: "str option \<Rightarrow> str option" where
  "bearer header =
     Option.bind header (\<lambda>v. Option.bind (split_once 32 v) (\<lambda>(scheme, token).
       if \<not> eq_ignore_ascii_case scheme (lit ''bearer'') then None
       else if trim token = [] then None else Some (trim token)))"

definition relay_authorize :: "str \<Rightarrow> str option \<Rightarrow> bool" where
  "relay_authorize expected header = (bearer header = Some expected)"

text \<open>\<open>rl_fault\<close> is the failure SQLite answers a transaction with, if any; a failed transaction changes nothing.\<close>

record relay_state =
  rl_db :: relay_db
  rl_at_capacity :: bool
  rl_fault :: "db_error option"

record durable_ack =
  da_event_id :: str
  da_durable_at :: instant
  da_state :: record_state

definition ingested_state :: "ingested \<Rightarrow> record_state" where
  "ingested_state x = (case x of IngestCreated s \<Rightarrow> s | IngestReplayed s \<Rightarrow> s)"

definition ingest_status :: "ingested \<Rightarrow> nat" where
  "ingest_status x = (case x of IngestCreated _ \<Rightarrow> 201 | IngestReplayed _ \<Rightarrow> 200)"

definition relay_write ::
  "(relay_db \<Rightarrow> db_error + ingested \<times> relay_db) \<Rightarrow> relay_state \<Rightarrow> (relay_error + ingested) \<times> relay_state" where
  "relay_write f st =
     (case rl_fault st of
        Some e \<Rightarrow> (Inl (relay_error_of e), st)
      | None \<Rightarrow>
          (case f (rl_db st) of Inl e \<Rightarrow> (Inl (relay_error_of e), st) | Inr (x, db) \<Rightarrow> (Inr x, st\<lparr>rl_db := db\<rparr>)))"

definition commit_start ::
  "codec \<Rightarrow> (str \<Rightarrow> str option) \<Rightarrow> bool \<Rightarrow> instant \<Rightarrow> request_start \<Rightarrow> relay_state \<Rightarrow>
   (relay_error + nat \<times> durable_ack) \<times> relay_state" where
  "commit_start cod uuid authorized now body st =
     (if \<not> authorized then (Inl RelayUnauthorized, st)
      else case to_identity cod uuid body of
             Inl _ \<Rightarrow> (Inl RelayInvalid, st)
           | Inr i \<Rightarrow>
               (case and_then (validate_request_identity (st_request_id body) (st_method body) (st_route_template body)
                        (st_operation_id body)) (\<lambda>_. validate_service_identity (st_service_version body)
                        (st_deployment_environment body)) of
                  Inl _ \<Rightarrow> (Inl RelayInvalid, st)
                | Inr _ \<Rightarrow>
                    if rl_at_capacity st then (Inl RelayAtCapacity, st)
                    else (case relay_write (db_register_start body i now) st of
                            (Inl e, st') \<Rightarrow> (Inl e, st')
                          | (Inr x, st') \<Rightarrow>
                              (Inr (ingest_status x, \<lparr>da_event_id = si_event_id i, da_durable_at = whole_milli now,
                                 da_state = ingested_state x\<rparr>), st'))))"

definition commit_completion ::
  "codec \<Rightarrow> (str \<Rightarrow> str option) \<Rightarrow> bool \<Rightarrow> instant \<Rightarrow> str \<Rightarrow> request_completion \<Rightarrow> relay_state \<Rightarrow>
   (relay_error + nat \<times> durable_ack) \<times> relay_state" where
  "commit_completion cod uuid authorized now event_id body st =
     (if \<not> authorized then (Inl RelayUnauthorized, st)
      else if event_id \<noteq> cm_event_id body then (Inl RelayInvalid, st)
      else case to_domain cod uuid body of
             Inl _ \<Rightarrow> (Inl RelayInvalid, st)
           | Inr d \<Rightarrow>
               (case validate d of
                  Inl _ \<Rightarrow> (Inl RelayInvalid, st)
                | Inr _ \<Rightarrow>
                    (case relay_write (db_commit_completion body (ev_completed_at d) now) st of
                       (Inl e, st') \<Rightarrow> (Inl e, st')
                     | (Inr x, st') \<Rightarrow>
                         (Inr (200, \<lparr>da_event_id = ev_event_id d, da_durable_at = whole_milli now,
                            da_state = ingested_state x\<rparr>), st'))))"

definition commit_event ::
  "codec \<Rightarrow> (str \<Rightarrow> str option) \<Rightarrow> bool \<Rightarrow> instant \<Rightarrow> lifecycle_event \<Rightarrow> relay_state \<Rightarrow>
   (relay_error + nat \<times> durable_ack) \<times> relay_state" where
  "commit_event cod uuid authorized now body st =
     (if \<not> authorized then (Inl RelayUnauthorized, st)
      else case lifecycle_to_domain cod uuid body of
             Inl _ \<Rightarrow> (Inl RelayInvalid, st)
           | Inr d \<Rightarrow>
               (case validate_lifecycle d of
                  Inl _ \<Rightarrow> (Inl RelayInvalid, st)
                | Inr _ \<Rightarrow>
                    if rl_at_capacity st then (Inl RelayAtCapacity, st)
                    else (case relay_write (db_commit_lifecycle body (sl_occurred_at d) now) st of
                            (Inl e, st') \<Rightarrow> (Inl e, st')
                          | (Inr x, st') \<Rightarrow>
                              (Inr (ingest_status x, \<lparr>da_event_id = sl_event_id d, da_durable_at = whole_milli now,
                                 da_state = ingested_state x\<rparr>), st'))))"

section \<open>The sweep\<close>

record relay_config =
  rg_incomplete_grace_secs :: nat
  rg_capture_batch_size :: nat
  rg_max_capture_attempts :: nat
  rg_retry_initial_secs :: nat
  rg_retry_max_secs :: nat
  rg_verification_delay_secs :: nat
  rg_verification_batch_size :: nat
  rg_verification_max_age_secs :: nat
  rg_verified_retention_days :: nat
  rg_max_records :: nat

text \<open>The terminal projection of a request that never finished.\<close>

definition synthesize :: "codec \<Rightarrow> (str \<Rightarrow> str option) \<Rightarrow> request_start \<Rightarrow> protocol_error + request_completion \<times> instant" where
  "synthesize cod uuid s =
     and_then (to_identity cod uuid s) (\<lambda>i.
     and_then (start_deadline cod s) (\<lambda>dl.
       Inr (\<lparr>cm_schema_version = PROTOCOL_SCHEMA_VERSION,
             cm_event_id = st_event_id s,
             cm_request_id = st_request_id s,
             cm_started_at = st_started_at s,
             cm_completed_at = st_completion_deadline_at s,
             cm_method = st_method s,
             cm_route_template = st_route_template s,
             cm_operation_id = st_operation_id s,
             cm_arguments = [],
             cm_arguments_parse_status = parse_status_as_str UnavailableArguments,
             cm_actor_id = None,
             cm_actor = \<lparr>av1_kind = actor_kind_as_str AnonymousActor, av1_id = None, av1_login = None,
               av1_authentication = authentication_as_str NoAuthentication\<rparr>,
             cm_principal = \<lparr>pv1_kind = principal_kind_as_str NoPrincipal, pv1_id = None\<rparr>,
             cm_status_code = None,
             cm_outcome = outcome_as_str OutcomeIncomplete,
             cm_error_code = Some (lit ''request_incomplete''),
             cm_duration_ms = nat (max 0 (num_milliseconds (dl - si_started_at i))),
             cm_session_id = None,
             cm_correlation = \<lparr>cv1_session_id = None, cv1_repo_full_name = None, cv1_installation_id = None,
               cv1_trigger_issue = None, cv1_webhook_delivery_id = None, cv1_request_id = None\<rparr>,
             cm_service_version = st_service_version s,
             cm_deployment_environment = st_deployment_environment s\<rparr>, dl)))"

definition close_start :: "codec \<Rightarrow> (str \<Rightarrow> str option) \<Rightarrow> instant \<Rightarrow> str \<times> relay_row \<Rightarrow> relay_db \<Rightarrow> relay_db" where
  "close_start cod uuid now claimed db =
     (case rw_start_json (snd claimed) of
        StartBody s \<Rightarrow>
          (case synthesize cod uuid s of
             Inr (terminal, terminal_at) \<Rightarrow> synthesize_incomplete (fst claimed) (CompletionBody terminal) terminal_at now db
           | Inl _ \<Rightarrow> db)
      | _ \<Rightarrow> db)"

definition close_overdue_starts :: "codec \<Rightarrow> (str \<Rightarrow> str option) \<Rightarrow> relay_config \<Rightarrow> instant \<Rightarrow> relay_db \<Rightarrow> relay_db" where
  "close_overdue_starts cod uuid cfg now db =
     fold (close_start cod uuid now)
       (claim_overdue_starts now (rg_incomplete_grace_secs cfg) (rg_capture_batch_size cfg) db) db"

text \<open>
  A stored row on the capture wire: the event name, the id and the instant, with the body for the properties. The
  serialized size \<open>len\<close> is a parameter.
\<close>

datatype projection_error = NoTerminal | Undecodable | ContractViolation

record capture_event =
  ce_event :: str
  ce_uuid :: str
  ce_timestamp :: str
  ce_body :: wire_body

definition project_row ::
  "codec \<Rightarrow> (str \<Rightarrow> str option) \<Rightarrow> (capture_event \<Rightarrow> nat) \<Rightarrow> nat \<Rightarrow> relay_row \<Rightarrow> projection_error + capture_event" where
  "project_row cod uuid len max_bytes r =
     (let bounded_event = (\<lambda>e. if max_bytes < len e then Inl ContractViolation else Inr e)
      in case rw_terminal_json r of
           None \<Rightarrow> Inl NoTerminal
         | Some body \<Rightarrow>
             (case (rw_kind r, body) of
                (RelayApiRequest, CompletionBody w) \<Rightarrow>
                  (case to_domain cod uuid w of
                     Inl _ \<Rightarrow> Inl Undecodable
                   | Inr d \<Rightarrow>
                       (case validate d of
                          Inl _ \<Rightarrow> Inl ContractViolation
                        | Inr _ \<Rightarrow>
                            and_then (bounded_event \<lparr>ce_event = lit ''fkst api request completed'', ce_uuid = ev_event_id d,
                                ce_timestamp = to_rfc3339 cod (ev_completed_at d), ce_body = body\<rparr>)
                              (\<lambda>e. Inr (if ev_outcome d = OutcomeIncomplete
                                 then e\<lparr>ce_event := lit ''fkst api request incomplete''\<rparr> else e))))
              | (RelaySandboxLifecycle, LifecycleBody w) \<Rightarrow>
                  (case lifecycle_to_domain cod uuid w of
                     Inl _ \<Rightarrow> Inl Undecodable
                   | Inr d \<Rightarrow>
                       (case validate_lifecycle d of
                          Inl _ \<Rightarrow> Inl ContractViolation
                        | Inr _ \<Rightarrow>
                            bounded_event \<lparr>ce_event = lit ''fkst sandbox lifecycle'', ce_uuid = sl_event_id d,
                              ce_timestamp = to_rfc3339 cod (sl_occurred_at d), ce_body = body\<rparr>))
              | _ \<Rightarrow> Inl Undecodable))"

datatype capture_answer = CaptureOk | CaptureRetryable | CapturePermanent

definition projection_code :: "projection_error \<Rightarrow> str" where
  "projection_code e =
     (case e of NoTerminal \<Rightarrow> lit ''no_terminal'' | Undecodable \<Rightarrow> lit ''undecodable'' | ContractViolation \<Rightarrow> lit ''contract'')"

definition backoff_secs :: "relay_config \<Rightarrow> nat \<Rightarrow> nat" where
  "backoff_secs cfg attempts =
     min (min (rg_retry_initial_secs cfg * 2 ^ min attempts 20) (2 ^ 64 - 1)) (rg_retry_max_secs cfg)"

definition reschedule :: "relay_config \<Rightarrow> instant \<Rightarrow> str \<times> relay_row \<Rightarrow> relay_db \<Rightarrow> relay_db" where
  "reschedule cfg now claimed db =
     (if rg_max_capture_attempts cfg \<le> rw_attempts (snd claimed) + 1
      then mark_dead_letter (fst claimed) (lit ''retryable'') now db
      else mark_retry (fst claimed) (now + int (backoff_secs cfg (rw_attempts (snd claimed))) * NANOS_PER_SEC)
             (lit ''retryable'') now db)"

definition isolate_one ::
  "relay_config \<Rightarrow> (capture_event list \<Rightarrow> capture_answer) \<Rightarrow> instant \<Rightarrow> (str \<times> relay_row) \<times> capture_event \<Rightarrow> relay_db \<Rightarrow> relay_db" where
  "isolate_one cfg capture now claimed db =
     (case capture [snd claimed] of
        CaptureOk \<Rightarrow> mark_accepted [fst (fst claimed)] now db
      | CaptureRetryable \<Rightarrow> reschedule cfg now (fst claimed) db
      | CapturePermanent \<Rightarrow> mark_dead_letter (fst (fst claimed)) (lit ''permanent'') now db)"

fun project_batch ::
  "codec \<Rightarrow> (str \<Rightarrow> str option) \<Rightarrow> (capture_event \<Rightarrow> nat) \<Rightarrow> nat \<Rightarrow> instant \<Rightarrow> (str \<times> relay_row) list \<Rightarrow> relay_db \<Rightarrow>
   ((str \<times> relay_row) \<times> capture_event) list \<times> relay_db" where
  "project_batch cod uuid len max_bytes now [] db = ([], db)"
| "project_batch cod uuid len max_bytes now (claimed # rest) db =
     (case project_row cod uuid len max_bytes (snd claimed) of
        Inl e \<Rightarrow> project_batch cod uuid len max_bytes now rest (mark_dead_letter (fst claimed) (projection_code e) now db)
      | Inr event \<Rightarrow>
          (case project_batch cod uuid len max_bytes now rest db of (batch, db') \<Rightarrow> ((claimed, event) # batch, db')))"

text \<open>\<open>capture = None\<close> is a relay without capture credentials.\<close>

definition capture_due ::
  "codec \<Rightarrow> (str \<Rightarrow> str option) \<Rightarrow> (capture_event \<Rightarrow> nat) \<Rightarrow> nat \<Rightarrow> relay_config \<Rightarrow>
   (capture_event list \<Rightarrow> capture_answer) option \<Rightarrow> instant \<Rightarrow> relay_db \<Rightarrow> relay_db" where
  "capture_due cod uuid len max_bytes cfg client now db =
     (case client of
        None \<Rightarrow> db
      | Some capture \<Rightarrow>
          (case project_batch cod uuid len max_bytes now (claim_due now (rg_capture_batch_size cfg) db) db of
             (batch, db1) \<Rightarrow>
               if batch = [] then db1
               else (case capture (map snd batch) of
                       CaptureOk \<Rightarrow> mark_accepted (map (fst \<circ> fst) batch) now db1
                     | CaptureRetryable \<Rightarrow> fold (reschedule cfg now) (map fst batch) db1
                     | CapturePermanent \<Rightarrow>
                         if length batch = 1 then mark_dead_letter (fst (fst (hd batch))) (lit ''permanent'') now db1
                         else fold (isolate_one cfg capture now) batch db1)))"

definition restore_state :: "relay_row \<Rightarrow> record_state" where
  "restore_state r =
     (case rw_terminal_json r of
        Some (CompletionBody c) \<Rightarrow> if cm_outcome c = outcome_as_str OutcomeIncomplete then ClosedIncomplete else Completed
      | _ \<Rightarrow> Completed)"

definition recapture_one :: "relay_config \<Rightarrow> instant \<Rightarrow> str \<times> relay_row \<Rightarrow> relay_db \<Rightarrow> relay_db" where
  "recapture_one cfg now claimed db =
     (case rw_accepted_at (snd claimed) of
        Some t \<Rightarrow>
          if t \<le> now - int (rg_verification_max_age_secs cfg) * NANOS_PER_SEC
          then requeue_for_recapture (fst claimed) (restore_state (snd claimed)) now db else db
      | None \<Rightarrow> db)"

text \<open>The verification query answers with the ids it saw, or fails (\<open>None\<close>); \<open>verifier = None\<close> is a relay without it.\<close>

definition verify_accepted ::
  "relay_config \<Rightarrow> (str list \<Rightarrow> str set option) option \<Rightarrow> instant \<Rightarrow> relay_db \<Rightarrow> relay_db" where
  "verify_accepted cfg verifier now db =
     (case verifier of
        None \<Rightarrow> db
      | Some query \<Rightarrow>
          (let batch = claim_unverified (now - int (rg_verification_delay_secs cfg) * NANOS_PER_SEC)
                 (rg_verification_batch_size cfg) db
           in if batch = [] then db
              else case query (map fst batch) of
                     None \<Rightarrow> db
                   | Some visible \<Rightarrow>
                       fold (recapture_one cfg now) (filter (\<lambda>(i, _). i \<notin> visible) batch)
                         (mark_verified (filter (\<lambda>i. i \<in> visible) (map fst batch)) now db)))"

definition purge_expired :: "relay_config \<Rightarrow> instant \<Rightarrow> relay_db \<Rightarrow> relay_db" where
  "purge_expired cfg now = purge_verified (now - int (rg_verified_retention_days cfg) * NANOS_PER_DAY)"

definition sweep ::
  "codec \<Rightarrow> (str \<Rightarrow> str option) \<Rightarrow> (capture_event \<Rightarrow> nat) \<Rightarrow> nat \<Rightarrow> relay_config \<Rightarrow>
   (capture_event list \<Rightarrow> capture_answer) option \<Rightarrow> (str list \<Rightarrow> str set option) option \<Rightarrow> instant \<Rightarrow> relay_state \<Rightarrow> relay_state" where
  "sweep cod uuid len max_bytes cfg client verifier now st =
     (if rl_fault st \<noteq> None then st
      else let db = purge_expired cfg now
                      (verify_accepted cfg verifier now
                        (capture_due cod uuid len max_bytes cfg client now
                          (close_overdue_starts cod uuid cfg now (rl_db st))))
           in st\<lparr>rl_db := db, rl_at_capacity := rg_max_records cfg \<le> length db\<rparr>)"

end
