(* ===== verification/AuditLedger.thy ===== *)
theory AuditLedger
  imports AuditRelay
begin

text \<open>
  What the audit relay promises: a ledger of entries that open, close once, are proven and only then forgotten, and
  that the relay's endpoints and sweep refine it; that an acknowledged completion is kept and its retry harmless; and
  that an abandoned request is closed.
\<close>

section \<open>Rows and their history\<close>

lemma update_row_get:
  "bt_get (update_row i guard f db) j =
     (if j = i then map_option (\<lambda>r. if guard r then f r else r) (bt_get db i) else bt_get db j)"
  by (simp add: update_row_def split: option.split)

lemma update_row_sorted: "bt_sorted db \<Longrightarrow> bt_sorted (update_row i guard f db)"
  by (simp add: update_row_def bt_sorted_insert split: option.split)

lemma bt_get_mem: "bt_sorted db \<Longrightarrow> (i, r) \<in> set db \<Longrightarrow> bt_get db i = Some r"
  unfolding bt_get_def by (intro map_of_is_SomeI bt.entries_distinct)

lemma select_rows_facts:
  assumes "bt_sorted db"
  shows "(i, r) \<in> set (select_rows guard key n db) \<Longrightarrow> bt_get db i = Some r \<and> guard r"
    "distinct (map fst (select_rows guard key n db))"
proof -
  let ?s = "sort_key (\<lambda>(_, r). key r) (filter (\<lambda>(_, r). guard r) db)"
  show "(i, r) \<in> set (select_rows guard key n db) \<Longrightarrow> bt_get db i = Some r \<and> guard r"
    using bt_get_mem [OF assms, of i r] by (auto simp: select_rows_def dest!: in_set_takeD)
  have "distinct (map fst db)" using bt.entries_distinct [OF assms] by simp
  then have "inj_on fst (set db)" "distinct db" by (simp_all add: distinct_map)
  then have "distinct ?s" "inj_on fst (set ?s)" by (auto simp: distinct_filter intro: inj_on_subset)
  then have "distinct (map fst ?s)" by (simp add: distinct_map)
  then show "distinct (map fst (select_rows guard key n db))"
    unfolding select_rows_def take_map [symmetric] by (rule distinct_take)
qed

datatype ledger_entry = EntryAbsent | EntryOpen wire_body | EntryClosed wire_body wire_body | EntryProven wire_body wire_body

text \<open>
  The ledger the relay promises: an entry opens or arrives closed, closes once and for all with one terminal body,
  is proven visible, and only a proven entry may be forgotten.
\<close>

inductive ledger_advance :: "ledger_entry \<Rightarrow> ledger_entry \<Rightarrow> bool" where
  ledger_close: "ledger_advance (EntryOpen s) (EntryClosed s t)"
| ledger_prove: "ledger_advance (EntryClosed s t) (EntryProven s t)"

inductive ledger_move :: "ledger_entry \<Rightarrow> ledger_entry \<Rightarrow> bool" where
  ledger_open: "ledger_move EntryAbsent (EntryOpen s)"
| ledger_arrive: "ledger_move EntryAbsent (EntryClosed b b)"
| ledger_progress: "ledger_advance\<^sup>*\<^sup>* a b \<Longrightarrow> ledger_move a b"
| ledger_forget: "ledger_move (EntryProven s t) EntryAbsent"

inductive_cases ledger_advanceE: "ledger_advance a b"
inductive_cases ledger_moveE: "ledger_move a b"

definition row_entry :: "relay_row \<Rightarrow> ledger_entry" where
  "row_entry r =
     (case rw_terminal_json r of
        None \<Rightarrow> EntryOpen (rw_start_json r)
      | Some t \<Rightarrow> if rw_state r = PosthogVerified then EntryProven (rw_start_json r) t else EntryClosed (rw_start_json r) t)"

definition ledger :: "relay_db \<Rightarrow> str \<Rightarrow> ledger_entry" where
  "ledger db i = (case bt_get db i of None \<Rightarrow> EntryAbsent | Some r \<Rightarrow> row_entry r)"

definition wf_row :: "relay_row \<Rightarrow> bool" where
  "wf_row r \<longleftrightarrow>
     (rw_terminal_json r = None \<longleftrightarrow> rw_state r = Started) \<and>
     (rw_terminal_at r = None \<longleftrightarrow> rw_state r = Started) \<and>
     (rw_state r = PosthogAccepted \<longrightarrow> rw_accepted_at r \<noteq> None) \<and>
     (rw_verified_at r \<noteq> None \<longleftrightarrow> rw_state r = PosthogVerified)"

definition wf_db :: "relay_db \<Rightarrow> bool" where
  "wf_db db \<longleftrightarrow> bt_sorted db \<and> (\<forall>i r. bt_get db i = Some r \<longrightarrow> wf_row r)"

text \<open>One background step of a row at \<open>now\<close>: the entry only advances, and a fresh proof is dated \<open>now\<close>.\<close>

definition row_step :: "instant \<Rightarrow> relay_row \<Rightarrow> relay_row \<Rightarrow> bool" where
  "row_step now r r' \<longleftrightarrow>
     wf_row r' \<and> ledger_advance\<^sup>*\<^sup>* (row_entry r) (row_entry r') \<and>
     (rw_verified_at r' = rw_verified_at r \<or> rw_verified_at r' = Some (whole_milli now))"

lemma row_step_refl: "wf_row r \<Longrightarrow> row_step now r r"
  by (simp add: row_step_def)

lemma row_step_trans: "row_step now a b \<Longrightarrow> row_step now b c \<Longrightarrow> row_step now a c"
  unfolding row_step_def by (auto intro: rtranclp_trans)

lemma row_step_transp: "transp (row_step now)"
  by (rule transpI) (rule row_step_trans)

lemma row_step_same:
  "wf_row r' \<Longrightarrow> rw_start_json r' = rw_start_json r \<Longrightarrow> rw_terminal_json r' = rw_terminal_json r \<Longrightarrow>
   rw_state r \<noteq> PosthogVerified \<Longrightarrow>
   rw_verified_at r' = rw_verified_at r \<or> rw_verified_at r' = Some (whole_milli now) \<Longrightarrow> row_step now r r'"
  by (auto simp: row_step_def row_entry_def split: option.splits intro: ledger_prove)

text \<open>What one background pass does to the table: no row comes or goes, and each takes legal steps.\<close>

definition evolves :: "instant \<Rightarrow> relay_db \<Rightarrow> relay_db \<Rightarrow> bool" where
  "evolves now db db' \<longleftrightarrow> wf_db db' \<and> (\<forall>i. rel_option (row_step now) (bt_get db i) (bt_get db' i))"

lemma evolves_refl: "wf_db db \<Longrightarrow> evolves now db db"
  by (auto simp: evolves_def wf_db_def intro!: option.rel_refl_strong row_step_refl)

lemma evolves_trans: "evolves now a b \<Longrightarrow> evolves now b c \<Longrightarrow> evolves now a c"
  unfolding evolves_def by (metis option.rel_transp row_step_transp transpD)

lemma evolves_wf: "evolves now db db' \<Longrightarrow> wf_db db'"
  by (simp add: evolves_def)

lemma evolves_update:
  assumes wf: "wf_db db" and step: "\<And>r. bt_get db i = Some r \<Longrightarrow> guard r \<Longrightarrow> wf_row r \<Longrightarrow> row_step now r (f r)"
  shows "evolves now db (update_row i guard f db)"
proof -
  have rows: "row_step now r (if guard r then f r else r)" if "bt_get db i = Some r" for r
    using that step [of r] wf by (simp add: wf_db_def row_step_refl)
  have "rel_option (row_step now) (bt_get db j) (bt_get (update_row i guard f db) j)" for j
    using rows wf by (cases "bt_get db j") (auto simp: update_row_get wf_db_def intro: row_step_refl)
  moreover have "wf_row r" if "bt_get (update_row i guard f db) j = Some r" for j r
    using that rows wf by (auto simp: update_row_get wf_db_def row_step_def split: if_splits)
  ultimately show ?thesis using wf by (simp add: evolves_def wf_db_def update_row_sorted)
qed

lemma evolves_fold:
  assumes "wf_db db" "\<And>x db. x \<in> set xs \<Longrightarrow> wf_db db \<Longrightarrow> evolves now db (f x db)"
  shows "evolves now db (fold f xs db)"
  using assms
proof (induction xs arbitrary: db)
  case (Cons x xs)
  have "evolves now db (f x db)" by (rule Cons.prems(2)) (simp_all add: Cons.prems(1))
  moreover from this have "evolves now (f x db) (fold f xs (f x db))"
    by (intro Cons.IH Cons.prems(2)) (simp_all add: evolves_def)
  ultimately show ?case by (simp add: evolves_trans)
qed (simp add: evolves_refl)

text \<open>
  The unguarded updates are safe on claimed rows: the ids of a claim are distinct, so when one is processed its row
  is still the claimed one.
\<close>

lemma evolves_fold_claimed:
  assumes "wf_db db" "distinct (map key xs)" "\<And>x. x \<in> set xs \<Longrightarrow> bt_get db (key x) = Some (row_of x)"
    "\<And>x db. x \<in> set xs \<Longrightarrow> wf_db db \<Longrightarrow> bt_get db (key x) = Some (row_of x) \<Longrightarrow> evolves now db (f x db)"
    "\<And>x db j. j \<noteq> key x \<Longrightarrow> bt_get (f x db) j = bt_get db j"
  shows "evolves now db (fold f xs db)"
  using assms(1-4)
proof (induction xs arbitrary: db)
  case (Cons x xs)
  have e: "evolves now db (f x db)" by (rule Cons.prems(4)) (simp_all add: Cons.prems(1,3))
  have "evolves now (f x db) (fold f xs (f x db))"
  proof (rule Cons.IH)
    show "bt_get (f x db) (key y) = Some (row_of y)" if "y \<in> set xs" for y
    proof -
      have "key y \<in> key ` set xs" "key x \<notin> key ` set xs" using that Cons.prems(2) by simp_all
      then have "key y \<noteq> key x" by metis
      then show ?thesis using that assms(5) Cons.prems(3) [of y] by simp
    qed
    show "evolves now db (f y db)" if "y \<in> set xs" "wf_db db" "bt_get db (key y) = Some (row_of y)" for y db
      using that Cons.prems(4) [of y db] by simp
  qed (use e Cons.prems(2) in \<open>simp_all add: evolves_def\<close>)
  then show ?case using evolves_trans [OF e] by simp
qed (simp add: evolves_refl)

section \<open>Every operation takes legal steps\<close>

lemma mark_accepted_evolves: "wf_db db \<Longrightarrow> evolves now db (mark_accepted ids now db)"
  unfolding mark_accepted_def
  by (intro evolves_fold evolves_update row_step_same) (auto simp: wf_row_def awaits_capture_def)

lemma mark_verified_evolves: "wf_db db \<Longrightarrow> evolves now db (mark_verified ids now db)"
  unfolding mark_verified_def
  by (intro evolves_fold evolves_update row_step_same) (auto simp: wf_row_def)

lemma requeue_evolves:
  "wf_db db \<Longrightarrow> awaits_capture restore \<Longrightarrow> evolves now db (requeue_for_recapture i restore now db)"
  unfolding requeue_for_recapture_def
  by (intro evolves_update row_step_same) (auto simp: wf_row_def awaits_capture_def)

lemma synthesize_evolves: "wf_db db \<Longrightarrow> evolves now db (synthesize_incomplete i t at now db)"
  unfolding synthesize_incomplete_def
  by (intro evolves_update) (auto simp: wf_row_def row_step_def row_entry_def intro: ledger_close)

lemma mark_retry_evolves:
  assumes "wf_db db" "bt_get db i = Some r" "awaits_capture (rw_state r)"
  shows "evolves now db (mark_retry i next_attempt code now db)"
  unfolding mark_retry_def using assms
  by (intro evolves_update row_step_same) (auto simp: wf_row_def awaits_capture_def)

lemma mark_dead_letter_evolves:
  assumes "wf_db db" "bt_get db i = Some r" "awaits_capture (rw_state r)"
  shows "evolves now db (mark_dead_letter i code now db)"
  unfolding mark_dead_letter_def using assms
  by (intro evolves_update row_step_same) (auto simp: wf_row_def awaits_capture_def)

lemma close_overdue_evolves: "wf_db db \<Longrightarrow> evolves now db (close_overdue_starts cod uuid cfg now db)"
  unfolding close_overdue_starts_def
  by (rule evolves_fold)
     (auto simp: close_start_def synthesize_evolves evolves_refl split: wire_body.split sum.split prod.split)

lemma verify_evolves:
  assumes "wf_db db"
  shows "evolves now db (verify_accepted cfg verifier now db)"
proof -
  have restore: "awaits_capture (restore_state r)" for r
    by (auto simp: restore_state_def awaits_capture_def split: option.split wire_body.split)
  have step: "wf_db db' \<Longrightarrow> evolves now db' (recapture_one cfg now x db')" for x db'
    by (auto simp: recapture_one_def requeue_evolves [OF _ restore] evolves_refl split: option.split)
  have "evolves now db (fold (recapture_one cfg now) xs (mark_verified ids now db))" for xs ids
  proof (rule evolves_trans)
    show m: "evolves now db (mark_verified ids now db)" by (rule mark_verified_evolves [OF assms])
    show "evolves now (mark_verified ids now db) (fold (recapture_one cfg now) xs (mark_verified ids now db))"
      by (intro evolves_fold evolves_wf [OF m] step)
  qed
  then show ?thesis
    by (auto simp: verify_accepted_def Let_def evolves_refl [OF assms] split: option.split)
qed

definition awaiting :: "relay_db \<Rightarrow> (str \<times> relay_row) list \<Rightarrow> bool" where
  "awaiting db xs \<longleftrightarrow>
     distinct (map fst xs) \<and> (\<forall>(i, r) \<in> set xs. bt_get db i = Some r \<and> awaits_capture (rw_state r))"

lemma awaiting_claim_due: "wf_db db \<Longrightarrow> awaiting db (claim_due now limit db)"
  unfolding awaiting_def claim_due_def wf_db_def using select_rows_facts by blast

lemma reschedule_local:
  "j \<noteq> fst x \<Longrightarrow> bt_get (reschedule cfg now x db) j = bt_get db j"
  "j \<noteq> fst (fst y) \<Longrightarrow> bt_get (isolate_one cfg capture now y db) j = bt_get db j"
  by (simp_all add: reschedule_def isolate_one_def mark_dead_letter_def mark_retry_def mark_accepted_def update_row_get
      split: capture_answer.split)

lemma reschedule_evolves:
  assumes "wf_db db" "bt_get db (fst x) = Some (snd x)" "awaits_capture (rw_state (snd x))"
  shows "evolves now db (reschedule cfg now x db)"
proof (cases "rg_max_capture_attempts cfg \<le> rw_attempts (snd x) + 1")
  case True
  then show ?thesis unfolding reschedule_def by (simp only: if_True) (rule mark_dead_letter_evolves [OF assms])
next
  case False
  then show ?thesis unfolding reschedule_def by (simp only: if_False) (rule mark_retry_evolves [OF assms])
qed

lemma isolate_evolves:
  assumes "wf_db db" "bt_get db (fst (fst x)) = Some (snd (fst x))" "awaits_capture (rw_state (snd (fst x)))"
  shows "evolves now db (isolate_one cfg capture now x db)"
  unfolding isolate_one_def
  by (cases "capture [snd x]")
     (simp_all only: capture_answer.case mark_accepted_evolves [OF assms(1)] reschedule_evolves [OF assms]
       mark_dead_letter_evolves [OF assms])

lemma project_batch_facts:
  assumes "project_batch cod uuid len max_bytes now xs db = (batch, db')" "wf_db db" "awaiting db xs"
  shows "evolves now db db' \<and> awaiting db' (map fst batch) \<and> fst ` fst ` set batch \<subseteq> fst ` set xs \<and>
    (\<forall>j. j \<notin> fst ` set xs \<longrightarrow> bt_get db' j = bt_get db j)"
  using assms
proof (induction xs arbitrary: db batch db')
  case Nil
  then show ?case by (simp add: evolves_refl awaiting_def)
next
  case (Cons x xs)
  obtain i r where x: "x = (i, r)" by (cases x)
  have here: "bt_get db i = Some r" "awaits_capture (rw_state r)" "i \<notin> fst ` set xs" "awaiting db xs"
    using Cons.prems(3) by (auto simp: awaiting_def x)
  show ?case
  proof (cases "project_row cod uuid len max_bytes r")
    case (Inl e)
    let ?d = "mark_dead_letter i (projection_code e) now db"
    have e: "evolves now db ?d" by (rule mark_dead_letter_evolves [OF Cons.prems(2) here(1,2)])
    have other: "j \<noteq> i \<Longrightarrow> bt_get ?d j = bt_get db j" for j by (simp add: mark_dead_letter_def update_row_get)
    have "awaiting ?d xs" unfolding awaiting_def
    proof (intro conjI ballI, simp add: here(4) [unfolded awaiting_def])
      fix y assume y: "y \<in> set xs"
      then have "fst y \<noteq> i" using here(3) by (auto simp: image_iff)
      then show "case y of (j, q) \<Rightarrow> bt_get ?d j = Some q \<and> awaits_capture (rw_state q)"
        using other [of "fst y"] bspec [OF conjunct2 [OF here(4) [unfolded awaiting_def]] y] by (simp add: case_prod_beta)
    qed
    then have "evolves now ?d db' \<and> awaiting db' (map fst batch) \<and> fst ` fst ` set batch \<subseteq> fst ` set xs \<and>
        (\<forall>j. j \<notin> fst ` set xs \<longrightarrow> bt_get db' j = bt_get ?d j)"
      using Cons.IH [of ?d batch db'] Cons.prems(1) e Inl by (simp add: x evolves_def)
    then show ?thesis using evolves_trans [OF e] other by (simp add: x subset_insertI2)
  next
    case (Inr event)
    then obtain rest where rest: "project_batch cod uuid len max_bytes now xs db = (rest, db')" "batch = (x, event) # rest"
      using Cons.prems(1) by (auto simp: x split: prod.splits)
    note IH = Cons.IH [OF rest(1) Cons.prems(2) here(4)]
    then have "bt_get db' i = Some r" using here(1,3) by simp
    moreover have "i \<notin> fst ` fst ` set rest" using IH here(3) by blast
    ultimately have "awaiting db' (map fst batch)" using IH here(2) by (simp add: rest(2) x awaiting_def image_image)
    moreover have "fst ` fst ` set batch \<subseteq> fst ` set (x # xs)" using IH by (auto simp: rest(2))
    ultimately show ?thesis using IH by simp
  qed
qed

lemma capture_evolves:
  assumes "wf_db db"
  shows "evolves now db (capture_due cod uuid len max_bytes cfg client now db)"
proof (cases client)
  case (Some capture)
  obtain batch db1 where b: "project_batch cod uuid len max_bytes now (claim_due now (rg_capture_batch_size cfg) db) db = (batch, db1)"
    by (cases "project_batch cod uuid len max_bytes now (claim_due now (rg_capture_batch_size cfg) db) db")
  note facts = project_batch_facts [OF b assms awaiting_claim_due [OF assms]]
  have wf1: "wf_db db1" using facts by (simp add: evolves_def)
  have mem: "bt_get db1 (fst (fst x)) = Some (snd (fst x)) \<and> awaits_capture (rw_state (snd (fst x)))" if "x \<in> set batch" for x
    using facts that by (cases x) (auto simp: awaiting_def)
  have dist: "distinct (map (fst \<circ> fst) batch)" using facts by (simp add: awaiting_def)
  have retry: "evolves now db1 (fold (reschedule cfg now) (map fst batch) db1)"
  proof (rule evolves_fold_claimed [where key = fst and row_of = snd])
    show "evolves now db (reschedule cfg now x db)" if "x \<in> set (map fst batch)" "wf_db db" "bt_get db (fst x) = Some (snd x)" for x db
      using that mem by (intro reschedule_evolves) auto
  qed (use wf1 dist mem reschedule_local in auto)
  have isolate: "evolves now db1 (fold (isolate_one cfg capture now) batch db1)"
  proof (rule evolves_fold_claimed [where key = "fst \<circ> fst" and row_of = "snd \<circ> fst"])
    show "evolves now db (isolate_one cfg capture now x db)" if "x \<in> set batch" "wf_db db" "bt_get db ((fst \<circ> fst) x) = Some ((snd \<circ> fst) x)" for x db
      using that mem by (intro isolate_evolves) auto
  qed (use wf1 dist mem reschedule_local in auto)
  have dead: "batch \<noteq> [] \<Longrightarrow> evolves now db1 (mark_dead_letter (fst (fst (hd batch))) code now db1)" for code
    using mem [of "hd batch"] by (intro mark_dead_letter_evolves [OF wf1]) auto
  have "evolves now db1 (if batch = [] then db1
      else (case capture (map snd batch) of
              CaptureOk \<Rightarrow> mark_accepted (map (fst \<circ> fst) batch) now db1
            | CaptureRetryable \<Rightarrow> fold (reschedule cfg now) (map fst batch) db1
            | CapturePermanent \<Rightarrow>
                if length batch = 1 then mark_dead_letter (fst (fst (hd batch))) (lit ''permanent'') now db1
                else fold (isolate_one cfg capture now) batch db1))"
    using retry isolate dead mark_accepted_evolves [OF wf1] evolves_refl [OF wf1] by (simp split: capture_answer.split)
  then show ?thesis
    using evolves_trans [OF conjunct1 [OF facts]] by (simp only: capture_due_def Some option.case b prod.case)
qed (use evolves_refl [OF assms] in \<open>simp add: capture_due_def\<close>)

lemma background_evolves:
  assumes "wf_db db"
  shows "evolves now db
    (verify_accepted cfg verifier now (capture_due cod uuid len max_bytes cfg client now (close_overdue_starts cod uuid cfg now db)))"
proof -
  let ?a = "close_overdue_starts cod uuid cfg now db"
  let ?b = "capture_due cod uuid len max_bytes cfg client now ?a"
  have a: "evolves now db ?a" by (rule close_overdue_evolves [OF assms])
  then have b: "evolves now ?a ?b" by (intro capture_evolves evolves_wf)
  then have "evolves now ?b (verify_accepted cfg verifier now ?b)" by (intro verify_evolves evolves_wf)
  with a b show ?thesis using evolves_trans by blast
qed

lemma purge_verified_get:
  assumes "bt_sorted db"
  shows "bt_sorted (purge_verified before db)"
    "bt_get (purge_verified before db) i =
       (case bt_get db i of
          Some r \<Rightarrow> if rw_state r = PosthogVerified \<and> (case rw_verified_at r of None \<Rightarrow> False | Some t \<Rightarrow> t < whole_milli before)
                    then None else Some r
        | None \<Rightarrow> None)"
proof -
  show sorted: "bt_sorted (purge_verified before db)"
    using assms by (simp add: purge_verified_def bt_sorted_def sorted_wrt_map sorted_wrt_filter)
  show "bt_get (purge_verified before db) i =
       (case bt_get db i of
          Some r \<Rightarrow> if rw_state r = PosthogVerified \<and> (case rw_verified_at r of None \<Rightarrow> False | Some t \<Rightarrow> t < whole_milli before)
                    then None else Some r
        | None \<Rightarrow> None)"
  proof (cases "bt_get (purge_verified before db) i")
    case None
    have "(i, r) \<notin> set (purge_verified before db)" for r using bt_get_mem [OF sorted, of i r] None by auto
    then show ?thesis using None bt_get_in [of db i] by (auto simp: purge_verified_def split: option.split)
  next
    case (Some r)
    then have "(i, r) \<in> set (purge_verified before db)" by (rule bt_get_in)
    then show ?thesis using Some bt_get_mem [OF assms, of i r] by (auto simp: purge_verified_def)
  qed
qed

section \<open>The relay refines the ledger\<close>

lemma ledger_stay: "ledger_move a a"
  by (rule ledger_progress) simp

lemma ledger_absent_or_same: "ledger_advance\<^sup>*\<^sup>* EntryAbsent b \<Longrightarrow> b = EntryAbsent"
  by (induction rule: rtranclp_induct) (auto elim: ledger_advanceE)

lemma sweep_moves:
  assumes "wf_db (rl_db st)"
  shows "wf_db (rl_db (sweep cod uuid len max_bytes cfg client verifier now st)) \<and>
    (\<forall>i. ledger_move (ledger (rl_db st) i) (ledger (rl_db (sweep cod uuid len max_bytes cfg client verifier now st)) i))"
proof (cases "rl_fault st = None")
  case True
  define v where "v = verify_accepted cfg verifier now
    (capture_due cod uuid len max_bytes cfg client now (close_overdue_starts cod uuid cfg now (rl_db st)))"
  define cut where "cut = now - int (rg_verified_retention_days cfg) * NANOS_PER_DAY"
  have "cut \<le> now" by (simp add: cut_def NANOS_PER_DAY_def NANOS_PER_SEC_def)
  then have cut: "whole_milli cut \<le> whole_milli now" by (rule whole_milli_mono)
  have ev: "evolves now (rl_db st) v" unfolding v_def by (rule background_evolves [OF assms])
  then have sorted: "bt_sorted v" and wf: "bt_get v i = Some r \<Longrightarrow> wf_row r" for i r
    by (simp_all add: evolves_def wf_db_def)
  have db: "rl_db (sweep cod uuid len max_bytes cfg client verifier now st) = purge_verified cut v"
    by (simp add: sweep_def True Let_def purge_expired_def v_def cut_def)
  have "ledger_move (ledger (rl_db st) i) (ledger (purge_verified cut v) i)" for i
  proof (cases "bt_get (rl_db st) i")
    case None
    then have "bt_get v i = None" using ev by (simp add: evolves_def) (metis option.rel_sel option.disc_eq_case)
    then show ?thesis using None by (simp add: ledger_def purge_verified_get [OF sorted] ledger_stay)
  next
    case (Some r)
    then obtain r' where r': "bt_get v i = Some r'" "row_step now r r'"
      using ev unfolding evolves_def by (metis option_rel_Some1)
    show ?thesis
    proof (cases "bt_get (purge_verified cut v) i")
      case None
      then have "rw_verified_at r' \<noteq> Some (whole_milli now)" "rw_state r' = PosthogVerified"
        using r'(1) cut by (auto simp: purge_verified_get [OF sorted] split: if_splits)
      then have "rw_verified_at r \<noteq> None"
        using r'(2) wf [OF r'(1)] by (auto simp: row_step_def wf_row_def)
      then have "rw_state r = PosthogVerified" "rw_terminal_json r \<noteq> None"
        using assms Some by (auto simp: wf_db_def wf_row_def)
      then show ?thesis using Some None by (auto simp: ledger_def row_entry_def intro: ledger_forget)
    next
      case (Some r2)
      then have "r2 = r'" using r'(1) by (simp add: purge_verified_get [OF sorted] split: if_splits)
      then show ?thesis
        using Some \<open>bt_get (rl_db st) i = Some r\<close> r'(2) by (simp add: ledger_def row_step_def ledger_progress)
    qed
  qed
  moreover have "wf_db (purge_verified cut v)"
    using wf sorted by (auto simp: wf_db_def purge_verified_get [OF sorted] split: option.splits if_splits)
  ultimately show ?thesis by (simp add: db)
next
  case False
  then show ?thesis using assms by (auto simp: sweep_def ledger_stay)
qed

text \<open>A transaction of the ingress changes at most the entry it names, and by one move.\<close>

definition ingress_ok :: "(relay_db \<Rightarrow> db_error + ingested \<times> relay_db) \<Rightarrow> bool" where
  "ingress_ok f \<longleftrightarrow>
     (\<forall>db x db'. wf_db db \<longrightarrow> f db = Inr (x, db') \<longrightarrow>
        db' = db \<or> (\<exists>i r. db' = bt_insert i r db \<and> wf_row r \<and> ledger_move (ledger db i) (row_entry r)))"

lemma ingress_fresh:
  "bt_get db i = None \<Longrightarrow> wf_row r \<Longrightarrow> ledger_move EntryAbsent (row_entry r) \<Longrightarrow>
   \<exists>i' r'. bt_insert i r db = bt_insert i' r' db \<and> wf_row r' \<and> ledger_move (ledger db i') (row_entry r')"
  by (intro exI conjI) (auto simp: ledger_def)

lemma register_start_ok: "ingress_ok (db_register_start s i now)"
  by (auto simp: ingress_ok_def db_register_start_def intro!: ingress_fresh split: option.splits if_splits)
     (simp_all add: wf_row_def row_entry_def ledger_open)

lemma commit_lifecycle_ok: "ingress_ok (db_commit_lifecycle e at now)"
  by (auto simp: ingress_ok_def db_commit_lifecycle_def intro!: ingress_fresh split: option.splits if_splits)
     (simp_all add: wf_row_def row_entry_def ledger_arrive)

lemma commit_completion_ok: "ingress_ok (db_commit_completion c at now)"
  unfolding ingress_ok_def
proof (intro allI impI)
  fix db x db' assume wf: "wf_db db" and c: "db_commit_completion c at now db = Inr (x, db')"
  then obtain r s where r: "bt_get db (cm_event_id c) = Some r" "rw_start_json r = StartBody s"
    by (auto simp: db_commit_completion_def split: option.splits wire_body.splits)
  show "db' = db \<or> (\<exists>i r. db' = bt_insert i r db \<and> wf_row r \<and> ledger_move (ledger db i) (row_entry r))"
  proof (cases "rw_terminal_json r")
    case None
    let ?r = "r\<lparr>rw_state := Completed, rw_terminal_json := Some (CompletionBody c),
        rw_terminal_at := Some (whole_milli at), rw_actor_id := cm_actor_id c,
        rw_session_id := cm_session_id c, rw_next_attempt := Some (whole_milli now),
        rw_updated_at := whole_milli now\<rparr>"
    have "wf_row r" using wf r(1) by (simp add: wf_db_def)
    then have "wf_row ?r" using None by (auto simp: wf_row_def)
    moreover have "ledger_move (ledger db (cm_event_id c)) (row_entry ?r)"
      using r None by (auto simp: ledger_def row_entry_def intro!: ledger_progress ledger_close)
    moreover have "db' = bt_insert (cm_event_id c) ?r db"
      using c r None by (simp add: db_commit_completion_def split: if_splits)
    ultimately show ?thesis by blast
  qed (use c r in \<open>simp add: db_commit_completion_def split: if_splits\<close>)
qed

lemma relay_write_moves:
  assumes "wf_db (rl_db st)" "ingress_ok f" "relay_write f st = (res, st')"
  shows "wf_db (rl_db st') \<and> (\<forall>i. ledger_move (ledger (rl_db st) i) (ledger (rl_db st') i))"
proof (cases "\<exists>x db'. rl_fault st = None \<and> f (rl_db st) = Inr (x, db')")
  case True
  then obtain x db' where x: "rl_fault st = None" "f (rl_db st) = Inr (x, db')" by blast
  then have st': "rl_db st' = db'" using assms(3) by (auto simp: relay_write_def)
  from assms(1,2) x consider "db' = rl_db st"
    | i r where "db' = bt_insert i r (rl_db st)" "wf_row r" "ledger_move (ledger (rl_db st) i) (row_entry r)"
    unfolding ingress_ok_def by blast
  then show ?thesis
  proof cases
    case 2
    then show ?thesis using assms(1)
      by (auto simp: st' wf_db_def bt_sorted_insert ledger_def intro: ledger_stay)
  qed (use assms(1) in \<open>simp add: st' ledger_stay\<close>)
next
  case False
  then have "st' = st" using assms(3) by (auto simp: relay_write_def split: option.splits sum.splits)
  then show ?thesis using assms(1) by (simp add: ledger_stay)
qed


datatype relay_op =
  PostStart bool instant request_start
| PostCompletion bool instant str request_completion
| PostEvent bool instant lifecycle_event
| StorageFault "db_error option"
| RelayRestart
| Sweep "(capture_event list \<Rightarrow> capture_answer) option" "(str list \<Rightarrow> str set option) option" instant

text \<open>What the relay is built with: the timestamp and uuid codecs, the capture bound and size, the configuration.\<close>

record relay_env =
  re_codec :: codec
  re_uuid :: "str \<Rightarrow> str option"
  re_len :: "capture_event \<Rightarrow> nat"
  re_max_bytes :: nat
  re_config :: relay_config

definition relay_apply :: "relay_env \<Rightarrow> relay_op \<Rightarrow> relay_state \<Rightarrow> relay_state" where
  "relay_apply E op st =
     (case op of
        PostStart auth now body \<Rightarrow> snd (commit_start (re_codec E) (re_uuid E) auth now body st)
      | PostCompletion auth now i body \<Rightarrow> snd (commit_completion (re_codec E) (re_uuid E) auth now i body st)
      | PostEvent auth now body \<Rightarrow> snd (commit_event (re_codec E) (re_uuid E) auth now body st)
      | StorageFault f \<Rightarrow> st\<lparr>rl_fault := f\<rparr>
      | RelayRestart \<Rightarrow> st\<lparr>rl_at_capacity := False\<rparr>
      | Sweep client verifier now \<Rightarrow>
          sweep (re_codec E) (re_uuid E) (re_len E) (re_max_bytes E) (re_config E) client verifier now st)"

definition relay_run :: "relay_env \<Rightarrow> relay_op list \<Rightarrow> relay_state \<Rightarrow> relay_state" where
  "relay_run E ops st = fold (relay_apply E) ops st"

definition relay_init :: relay_state where
  "relay_init = \<lparr>rl_db = [], rl_at_capacity = False, rl_fault = None\<rparr>"

lemma relay_init_wf: "wf_db (rl_db relay_init)"
  by (simp add: relay_init_def wf_db_def bt_sorted_def)

lemma snd_answer:
  "snd (case p of (Inl e, st') \<Rightarrow> (Inl e, st') | (Inr x, st') \<Rightarrow> (Inr (g x), st')) = snd p"
  by (simp split: prod.split sum.split)

lemma commit_cases:
  "snd (commit_start cod uuid auth now s st) = st \<or>
     (\<exists>i. snd (commit_start cod uuid auth now s st) = snd (relay_write (db_register_start s i now) st))"
  "snd (commit_completion cod uuid auth now e c st) = st \<or>
     (\<exists>at. snd (commit_completion cod uuid auth now e c st) = snd (relay_write (db_commit_completion c at now) st))"
  "snd (commit_event cod uuid auth now l st) = st \<or>
     (\<exists>at. snd (commit_event cod uuid auth now l st) = snd (relay_write (db_commit_lifecycle l at now) st))"
  unfolding commit_start_def commit_completion_def commit_event_def
  by (auto simp: snd_answer split: sum.split)

lemma relay_apply_moves:
  assumes "wf_db (rl_db st)"
  shows "wf_db (rl_db (relay_apply E op st)) \<and>
    (\<forall>i. ledger_move (ledger (rl_db st) i) (ledger (rl_db (relay_apply E op st)) i))"
proof -
  have wr: "wf_db (rl_db (snd (relay_write f st))) \<and>
      (\<forall>i. ledger_move (ledger (rl_db st) i) (ledger (rl_db (snd (relay_write f st))) i))" if "ingress_ok f" for f
    by (rule relay_write_moves [OF assms that]) (rule prod.collapse [symmetric])
  have stay: "wf_db (rl_db st) \<and> (\<forall>i. ledger_move (ledger (rl_db st) i) (ledger (rl_db st) i))"
    using assms ledger_stay by blast
  show ?thesis
  proof (cases op)
    case (PostStart auth now s)
    then show ?thesis
      using commit_cases(1) [of "re_codec E" "re_uuid E" auth now s st] wr [OF register_start_ok] stay
      by (auto simp: relay_apply_def)
  next
    case (PostCompletion auth now e c)
    then show ?thesis
      using commit_cases(2) [of "re_codec E" "re_uuid E" auth now e c st] wr [OF commit_completion_ok] stay
      by (auto simp: relay_apply_def)
  next
    case (PostEvent auth now l)
    then show ?thesis
      using commit_cases(3) [of "re_codec E" "re_uuid E" auth now l st] wr [OF commit_lifecycle_ok] stay
      by (auto simp: relay_apply_def)
  next
    case (Sweep client verifier now)
    then show ?thesis using sweep_moves [OF assms] by (simp add: relay_apply_def)
  qed (use stay in \<open>simp_all add: relay_apply_def\<close>)
qed

lemma relay_run_wf: "wf_db (rl_db st) \<Longrightarrow> wf_db (rl_db (relay_run E ops st))"
  by (induction ops arbitrary: st) (simp_all add: relay_run_def relay_apply_moves)

lemma relay_run_append: "relay_run E (xs @ ys) st = relay_run E ys (relay_run E xs st)"
  by (simp add: relay_run_def)

text \<open>
  C4: the relay refines its ledger. Whatever requests, sweeps, PostHog answers, storage failures and restarts it has
  seen, the next operation moves every entry by at most one move of the ledger: a start opens an absent entry, a
  lifecycle record arrives closed, an open entry is closed with a terminal body and a closed one proven, both keeping
  the bodies they hold, and only a proven entry is forgotten. In particular no terminal body is ever replaced, no open
  or undelivered record is ever dropped, and nothing is forgotten in the sweep that proves it.
\<close>

theorem relay_refines_ledger:
  "ledger_move (ledger (rl_db (relay_run E ops relay_init)) i) (ledger (rl_db (relay_run E (ops @ [op]) relay_init)) i)"
  using relay_apply_moves [OF relay_run_wf [OF relay_init_wf]] by (simp add: relay_run_append) (simp add: relay_run_def)

text \<open>A body that closed an entry stays until the entry has been proven.\<close>

lemma ledger_closed_stays:
  assumes "ledger_move (EntryClosed s t) e"
  shows "e = EntryClosed s t \<or> e = EntryProven s t"
proof -
  have "e = EntryClosed s t \<or> e = EntryProven s t" if "ledger_advance\<^sup>*\<^sup>* (EntryClosed s t) e"
    using that by (induction rule: rtranclp_induct) (auto elim: ledger_advanceE)
  then show ?thesis using assms by (auto elim: ledger_moveE)
qed

lemma closed_until_proven:
  assumes "wf_db (rl_db st)" "ledger (rl_db st) i = EntryClosed s t"
  shows "ledger (rl_db (relay_run E ops st)) i = EntryClosed s t \<or>
    (\<exists>k \<le> length ops. ledger (rl_db (relay_run E (take k ops) st)) i = EntryProven s t)"
proof (induction ops rule: rev_induct)
  case Nil
  then show ?case using assms(2) by (simp add: relay_run_def)
next
  case (snoc op ops)
  let ?now = "relay_run E ops st"
  from snoc show ?case
  proof
    assume "ledger (rl_db ?now) i = EntryClosed s t"
    then have "ledger_move (EntryClosed s t) (ledger (rl_db (relay_run E (ops @ [op]) st)) i)"
      using relay_apply_moves [OF relay_run_wf [OF assms(1)], of E op E ops]
      by (metis relay_run_append relay_run_def fold_simps)
    then show ?case using ledger_closed_stays by (metis le_refl take_all_iff)
  next
    assume "\<exists>k \<le> length ops. ledger (rl_db (relay_run E (take k ops) st)) i = EntryProven s t"
    then obtain k where "k \<le> length ops" "ledger (rl_db (relay_run E (take k ops) st)) i = EntryProven s t" by blast
    then show ?case by (intro disjI2 exI [of _ k]) simp
  qed
qed


lemma ledger_proven_stays:
  assumes "ledger_move (EntryProven s t) e" "e \<noteq> EntryAbsent"
  shows "e = EntryProven s t"
proof -
  have "e = EntryProven s t" if "ledger_advance\<^sup>*\<^sup>* (EntryProven s t) e"
    using that by (induction rule: rtranclp_induct) (auto elim: ledger_advanceE)
  then show ?thesis using assms by (auto elim: ledger_moveE)
qed

lemma relay_run_moves:
  "wf_db (rl_db st) \<Longrightarrow> ledger_move (ledger (rl_db (relay_run E ops st)) i) (ledger (rl_db (relay_run E (ops @ [op]) st)) i)"
  using relay_apply_moves [OF relay_run_wf, of st E op E ops] by (simp add: relay_run_def)

lemma retained_entry:
  assumes "wf_db (rl_db st)" "ledger (rl_db st) i \<in> {EntryClosed s t, EntryProven s t}"
    "\<forall>k \<le> length ops. ledger (rl_db (relay_run E (take k ops) st)) i \<noteq> EntryAbsent"
  shows "ledger (rl_db (relay_run E ops st)) i \<in> {EntryClosed s t, EntryProven s t}"
  using assms(3)
proof (induction ops rule: rev_induct)
  case Nil
  then show ?case using assms(2) by (simp add: relay_run_def)
next
  case (snoc op ops)
  have "\<forall>k \<le> length ops. ledger (rl_db (relay_run E (take k ops) st)) i \<noteq> EntryAbsent"
  proof (intro allI impI)
    fix k assume "k \<le> length ops"
    then show "ledger (rl_db (relay_run E (take k ops) st)) i \<noteq> EntryAbsent" using snoc.prems [rule_format, of k] by simp
  qed
  then have "ledger (rl_db (relay_run E ops st)) i \<in> {EntryClosed s t, EntryProven s t}" by (rule snoc.IH)
  moreover have "ledger (rl_db (relay_run E (ops @ [op]) st)) i \<noteq> EntryAbsent"
    using snoc.prems [rule_format, of "length (ops @ [op])"] by simp
  ultimately show ?case
    using relay_run_moves [OF assms(1), of E ops i op] ledger_closed_stays ledger_proven_stays by (metis insert_iff singletonD)
qed

lemma row_entry_held:
  "row_entry r \<in> {EntryClosed s t, EntryProven s t} \<longleftrightarrow> rw_start_json r = s \<and> rw_terminal_json r = Some t"
  by (auto simp: row_entry_def split: option.split)

lemma ledger_held:
  "ledger db i \<in> {EntryClosed s t, EntryProven s t} \<longleftrightarrow>
     (\<exists>r. bt_get db i = Some r \<and> rw_start_json r = s \<and> rw_terminal_json r = Some t)"
  using row_entry_held by (auto simp: ledger_def split: option.split)

lemma db_commit_completion_held:
  assumes "db_commit_completion c at now db = Inr (x, db')"
  shows "\<exists>s. start_matches s c \<and> ledger db' (cm_event_id c) \<in> {EntryClosed (StartBody s) (CompletionBody c), EntryProven (StartBody s) (CompletionBody c)}"
  unfolding ledger_held using assms
  by (auto simp: db_commit_completion_def split: option.splits wire_body.splits if_splits)

lemma commit_completion_accepted:
  assumes "commit_completion cod uuid auth now i c st = (Inr ack, st')"
  obtains d s where "i = cm_event_id c" "to_domain cod uuid c = Inr d" "validate d = Inr ()" "start_matches s c"
    "ledger (rl_db st') i \<in> {EntryClosed (StartBody s) (CompletionBody c), EntryProven (StartBody s) (CompletionBody c)}"
proof -
  from assms obtain d x where d: "i = cm_event_id c" "to_domain cod uuid c = Inr d" "validate d = Inr ()"
      "relay_write (db_commit_completion c (ev_completed_at d) now) st = (Inr x, st')"
    by (auto simp: commit_completion_def split: if_splits sum.splits prod.splits)
  from d(4) obtain db' where "db_commit_completion c (ev_completed_at d) now (rl_db st) = Inr (x, db')" "rl_db st' = db'"
    by (auto simp: relay_write_def split: option.splits sum.splits)
  then show thesis using db_commit_completion_held that d(1-3) by blast
qed

lemma commit_completion_wf:
  assumes "wf_db (rl_db st)" "commit_completion cod uuid auth now i c st = (res, st')"
  shows "wf_db (rl_db st')"
proof -
  obtain at where "st' = st \<or> st' = snd (relay_write (db_commit_completion c at now) st)"
    using commit_cases(2) [of cod uuid auth now i c st] assms(2) by auto
  then show ?thesis
    using relay_write_moves [OF assms(1) commit_completion_ok, of c at now] assms(1) by (metis prod.collapse)
qed

text \<open>A concrete relay: it registers the start of a request and is sent its completion.\<close>

definition sample_uuid :: "str \<Rightarrow> str option" where
  "sample_uuid s = Some (ev_event_id sample_event)"

definition sample_relay :: relay_env where
  "sample_relay =
     \<lparr>re_codec = millis_utc, re_uuid = sample_uuid, re_len = (\<lambda>_. 1), re_max_bytes = 10,
      re_config = \<lparr>rg_incomplete_grace_secs = 30, rg_capture_batch_size = 10, rg_max_capture_attempts = 3,
        rg_retry_initial_secs = 1, rg_retry_max_secs = 60, rg_verification_delay_secs = 30,
        rg_verification_batch_size = 10, rg_verification_max_age_secs = 600, rg_verified_retention_days = 7,
        rg_max_records = 100\<rparr>\<rparr>"

definition sample_start :: request_start where
  "sample_start =
     \<lparr>st_schema_version = PROTOCOL_SCHEMA_VERSION, st_event_id = ev_event_id sample_event,
      st_request_id = ev_request_id sample_event, st_started_at = to_rfc3339 millis_utc (ev_started_at sample_event),
      st_method = ev_method sample_event, st_route_template = ev_route_template sample_event,
      st_operation_id = ev_operation_id sample_event, st_service_version = sv_version (ev_service sample_event),
      st_deployment_environment = sv_environment (ev_service sample_event),
      st_completion_deadline_at = to_rfc3339 millis_utc (ev_started_at sample_event)\<rparr>"

lemma sample_instants:
  "utc_valid (ev_started_at sample_event)" "utc_valid (ev_completed_at sample_event)"
  "ev_completed_at sample_event = ev_started_at sample_event + 7 * NANOS_PER_MILLI"
  by (simp_all add: sample_event_def new_event_def with_correlation_def utc_valid_def date_naive_def NANOS_PER_DAY_def
      NANOS_PER_SEC_def NANOS_PER_MILLI_def)

lemma sample_identity:
  "to_identity millis_utc sample_uuid sample_start =
     Inr \<lparr>si_event_id = ev_event_id sample_event, si_request_id = ev_request_id sample_event,
          si_started_at = whole_milli (ev_started_at sample_event), si_method = ev_method sample_event,
          si_route_template = ev_route_template sample_event, si_operation_id = ev_operation_id sample_event,
          si_completion_deadline_at = whole_milli (ev_started_at sample_event)\<rparr>"
  using ums.parse_instant_render [OF sample_instants(1)]
  by (simp add: to_identity_def sample_start_def parse_uuid_field_def sample_uuid_def)

lemma sample_start_accepted:
  "\<exists>ack r. commit_start millis_utc sample_uuid True now sample_start relay_init =
     (Inr (201, ack), relay_init\<lparr>rl_db := bt_insert (ev_event_id sample_event) r []\<rparr>) \<and>
     rw_state r = Started \<and> rw_start_json r = StartBody sample_start \<and> rw_terminal_json r = None \<and>
     rw_deadline r = Some (whole_milli (ev_started_at sample_event))"
proof -
  have "validate_request_identity (st_request_id sample_start) (st_method sample_start) (st_route_template sample_start)
      (st_operation_id sample_start) = Inr ()"
    "validate_service_identity (st_service_version sample_start) (st_deployment_environment sample_start) = Inr ()"
    using sample_event_valid by (simp_all add: validate_Inr_iff sample_start_def)
  then show ?thesis
    by (simp add: commit_start_def sample_identity relay_init_def relay_write_def db_register_start_def ingest_status_def)
qed

lemma sample_completion_accepted:
  "\<exists>ack st'. commit_completion millis_utc sample_uuid True now' (ev_event_id sample_event) (from_domain millis_utc sample_event)
       (relay_run sample_relay [PostStart True now sample_start] relay_init) = (Inr ack, st') \<and> rl_fault st' = None \<and>
     ledger (rl_db st') (ev_event_id sample_event) \<noteq> EntryAbsent"
proof -
  obtain ack r where r: "commit_start millis_utc sample_uuid True now sample_start relay_init =
      (Inr (201, ack), relay_init\<lparr>rl_db := bt_insert (ev_event_id sample_event) r []\<rparr>)"
    "rw_start_json r = StartBody sample_start" "rw_terminal_json r = None"
    using sample_start_accepted by metis
  have run: "relay_run sample_relay [PostStart True now sample_start] relay_init =
      relay_init\<lparr>rl_db := bt_insert (ev_event_id sample_event) r []\<rparr>"
    by (simp add: relay_run_def relay_apply_def sample_relay_def r(1))
  let ?d = "sample_event\<lparr>ev_started_at := whole_milli (ev_started_at sample_event),
    ev_completed_at := whole_milli (ev_completed_at sample_event)\<rparr>"
  have "ev_schema_version sample_event = SCHEMA_VERSION" using sample_event_valid by (simp add: validate_Inr_iff)
  then have "to_domain millis_utc sample_uuid (from_domain millis_utc sample_event) = Inr ?d"
    using ums.to_from_domain [of sample_uuid sample_event] sample_instants by (simp add: sample_uuid_def)
  moreover have "validate ?d = Inr ()" by (rule validate_wire_instants [OF sample_event_valid sample_instants(3)])
  moreover have "start_matches sample_start (from_domain millis_utc sample_event)"
    "cm_event_id (from_domain millis_utc sample_event) = ev_event_id sample_event"
    by (simp_all add: start_matches_def sample_start_def from_domain_def)
  ultimately show ?thesis
    unfolding run using r(2,3) by (simp add: commit_completion_def relay_write_def db_commit_completion_def relay_init_def ledger_def row_entry_def bt_get_def)
qed

text \<open>
  C12: an acknowledged completion is safe. Once the relay has acknowledged a completion, then after any further
  requests, sweeps, PostHog answers, storage failures and restarts the record still holds exactly that terminal body
  beside the start it was registered with, unless at some point since it was proven visible in PostHog.
\<close>

theorem acknowledged_until_proven:
  assumes "commit_completion cod uuid auth now i c (relay_run E pre relay_init) = (Inr ack, st')"
  shows "\<exists>s. start_matches s c \<and>
    (ledger (rl_db (relay_run E ops st')) i = EntryClosed (StartBody s) (CompletionBody c) \<or>
     (\<exists>k \<le> length ops. ledger (rl_db (relay_run E (take k ops) st')) i = EntryProven (StartBody s) (CompletionBody c)))"
proof -
  obtain s where s: "start_matches s c"
      "ledger (rl_db st') i \<in> {EntryClosed (StartBody s) (CompletionBody c), EntryProven (StartBody s) (CompletionBody c)}"
    using commit_completion_accepted [OF assms] by metis
  have wf: "wf_db (rl_db st')" by (rule commit_completion_wf [OF relay_run_wf [OF relay_init_wf] assms])
  from s(2) consider (closed) "ledger (rl_db st') i = EntryClosed (StartBody s) (CompletionBody c)"
    | (proven) "ledger (rl_db st') i = EntryProven (StartBody s) (CompletionBody c)" by blast
  then show ?thesis
  proof cases
    case closed
    then show ?thesis using closed_until_proven [OF wf] s(1) by blast
  next
    case proven
    then show ?thesis using s(1) by (intro exI [of _ s] conjI disjI2 exI [of _ 0]) (simp_all add: relay_run_def)
  qed
qed

theorem acknowledged_until_proven_witness:
  "\<exists>st' s. start_matches s (from_domain millis_utc sample_event) \<and>
    (ledger (rl_db (relay_run sample_relay [RelayRestart] st')) (ev_event_id sample_event) =
       EntryClosed (StartBody s) (CompletionBody (from_domain millis_utc sample_event)) \<or>
     (\<exists>k \<le> length [RelayRestart]. ledger (rl_db (relay_run sample_relay (take k [RelayRestart]) st')) (ev_event_id sample_event) =
       EntryProven (StartBody s) (CompletionBody (from_domain millis_utc sample_event))))"
proof -
  obtain ack st' where "commit_completion millis_utc sample_uuid True 0 (ev_event_id sample_event) (from_domain millis_utc sample_event)
      (relay_run sample_relay [PostStart True 0 sample_start] relay_init) = (Inr ack, st')"
    using sample_completion_accepted by metis
  from acknowledged_until_proven [OF this, of "[RelayRestart]"] show ?thesis by blast
qed

text \<open>
  Ingress is idempotent. While the relay retains an acknowledged completion, a retry of it is acknowledged again
  and changes nothing, and a different completion for the same event is refused and changes nothing, whatever else
  the relay did in between.
\<close>

theorem completion_replay:
  assumes "commit_completion cod uuid auth now i c (relay_run E pre relay_init) = (Inr ack, st')"
    "\<forall>k \<le> length ops. ledger (rl_db (relay_run E (take k ops) st')) i \<noteq> EntryAbsent"
    "rl_fault (relay_run E ops st') = None"
  shows "(\<exists>ack'. commit_completion cod uuid True now' i c (relay_run E ops st') = (Inr (200, ack'), relay_run E ops st')) \<and>
    (c' \<noteq> c \<longrightarrow> (\<exists>e. commit_completion cod uuid auth' now' i c' (relay_run E ops st') = (Inl e, relay_run E ops st')))"
proof -
  let ?st = "relay_run E ops st'"
  obtain d s where d: "i = cm_event_id c" "to_domain cod uuid c = Inr d" "validate d = Inr ()" "start_matches s c"
      "ledger (rl_db st') i \<in> {EntryClosed (StartBody s) (CompletionBody c), EntryProven (StartBody s) (CompletionBody c)}"
    using commit_completion_accepted [OF assms(1)] .
  have wf: "wf_db (rl_db st')" by (rule commit_completion_wf [OF relay_run_wf [OF relay_init_wf] assms(1)])
  obtain r where r: "bt_get (rl_db ?st) i = Some r" "rw_start_json r = StartBody s" "rw_terminal_json r = Some (CompletionBody c)"
    using retained_entry [OF wf d(5) assms(2)] unfolding ledger_held by blast
  have "db_commit_completion c at now' (rl_db ?st) = Inr (IngestReplayed (rw_state r), rl_db ?st)" for at
    using r d(1,4) by (simp add: db_commit_completion_def)
  then have "\<exists>ack'. commit_completion cod uuid True now' i c ?st = (Inr (200, ack'), ?st)"
    using d(1-3) assms(3) by (simp add: commit_completion_def relay_write_def)
  moreover have "\<exists>e. commit_completion cod uuid auth' now' i c' ?st = (Inl e, ?st)" if "c' \<noteq> c"
  proof (cases "i = cm_event_id c'")
    case True
    then have "\<exists>e. db_commit_completion c' at now' (rl_db ?st) = Inl e" for at
      using r that by (simp add: db_commit_completion_def)
    then have "\<exists>e. relay_write (db_commit_completion c' at now') ?st = (Inl e, ?st)" for at
      using assms(3) by (metis relay_write_def option.case(1) sum.case(1))
    then show ?thesis
      by (auto simp: commit_completion_def split: sum.split prod.split) (metis Pair_inject sum.simps(4))+
  qed (simp add: commit_completion_def)
  ultimately show ?thesis by blast
qed


theorem completion_replay_witness:
  "\<exists>st' ack'. commit_completion millis_utc sample_uuid True 5 (ev_event_id sample_event) (from_domain millis_utc sample_event) st' =
     (Inr (200, ack'), st')"
proof -
  obtain ack st' where st': "commit_completion millis_utc sample_uuid True 0 (ev_event_id sample_event) (from_domain millis_utc sample_event)
      (relay_run sample_relay [PostStart True 0 sample_start] relay_init) = (Inr ack, st')"
      "rl_fault st' = None" "ledger (rl_db st') (ev_event_id sample_event) \<noteq> EntryAbsent"
    using sample_completion_accepted by metis
  from completion_replay [OF st'(1), of "[]" 5 "from_domain millis_utc sample_event" True] st'(2,3) show ?thesis by (auto simp: relay_run_def)
qed

section \<open>Abandoned requests\<close>

definition startable :: "relay_env \<Rightarrow> relay_db \<Rightarrow> bool" where
  "startable E db \<longleftrightarrow>
     (\<forall>i b. ledger db i = EntryOpen b \<longrightarrow> (\<exists>s d. b = StartBody s \<and> to_identity (re_codec E) (re_uuid E) s = Inr d))"

lemma sweep_creates_nothing:
  assumes "wf_db (rl_db st)" "bt_get (rl_db st) i = None"
  shows "bt_get (rl_db (sweep cod uuid len max_bytes cfg client verifier now st)) i = None"
proof -
  define v where "v = verify_accepted cfg verifier now
    (capture_due cod uuid len max_bytes cfg client now (close_overdue_starts cod uuid cfg now (rl_db st)))"
  have ev: "evolves now (rl_db st) v" unfolding v_def by (rule background_evolves [OF assms(1)])
  then have "bt_get v i = None" "bt_sorted v" using assms(2) by (simp_all add: evolves_def wf_db_def) (metis option.rel_distinct(1) option.exhaust)
  then show ?thesis
    using assms(2) by (simp add: sweep_def Let_def purge_expired_def v_def [symmetric] purge_verified_get(2))
qed

lemma ledger_open_from:
  assumes "ledger_move e (EntryOpen b)"
  shows "e = EntryOpen b \<or> e = EntryAbsent"
proof -
  have "e = EntryOpen b" if "ledger_advance\<^sup>*\<^sup>* e (EntryOpen b)"
    using that by (cases rule: rtranclp.cases) (auto elim: ledger_advanceE)
  then show ?thesis using assms by (auto elim: ledger_moveE)
qed

lemma ledger_open_not_forgotten: "\<not> ledger_move (EntryOpen b) EntryAbsent"
proof
  assume m: "ledger_move (EntryOpen b) EntryAbsent"
  have "e \<noteq> EntryAbsent" if "ledger_advance\<^sup>*\<^sup>* (EntryOpen b) e" for e
    using that by (cases rule: rtranclp.cases) (auto elim: ledger_advanceE)
  with m show False by (auto elim: ledger_moveE)
qed

lemma row_entry_not_absent [simp]: "row_entry r \<noteq> EntryAbsent" "EntryAbsent \<noteq> row_entry r"
  by (simp_all add: row_entry_def split: option.split)

lemma ledger_absent_iff: "ledger db i = EntryAbsent \<longleftrightarrow> bt_get db i = None"
  by (simp add: ledger_def split: option.split)


lemma startable_step:
  assumes "wf_db (rl_db st)" "startable E (rl_db st)"
  shows "startable E (rl_db (relay_apply E op st))"
  unfolding startable_def
proof (intro allI impI)
  fix i b assume after: "ledger (rl_db (relay_apply E op st)) i = EntryOpen b"
  have "ledger_move (ledger (rl_db st) i) (EntryOpen b)" using relay_apply_moves [OF assms(1), of E op] after by metis
  then consider "ledger (rl_db st) i = EntryOpen b" | (absent) "bt_get (rl_db st) i = None"
    using ledger_open_from ledger_absent_iff by metis
  then show "\<exists>s d. b = StartBody s \<and> to_identity (re_codec E) (re_uuid E) s = Inr d"
  proof cases
    case absent
    show ?thesis
    proof (cases op)
      case (PostStart auth now s)
      then show ?thesis using after absent
        by (auto simp: relay_apply_def commit_start_def relay_write_def db_register_start_def ledger_def row_entry_def
            split: if_splits sum.splits option.splits)
    next
      case (PostCompletion auth now e c)
      then show ?thesis using after absent
        by (auto simp: relay_apply_def commit_completion_def relay_write_def db_commit_completion_def ledger_def row_entry_def
            split: if_splits sum.splits option.splits wire_body.splits)
    next
      case (PostEvent auth now l)
      then show ?thesis using after absent
        by (auto simp: relay_apply_def commit_event_def relay_write_def db_commit_lifecycle_def ledger_def row_entry_def
            split: if_splits sum.splits option.splits)
    next
      case (Sweep client verifier now)
      then show ?thesis
        using after sweep_creates_nothing [OF assms(1) absent] by (simp add: relay_apply_def ledger_def)
    qed (use after absent in \<open>simp_all add: relay_apply_def ledger_def\<close>)
  qed (use assms(2) in \<open>simp add: startable_def\<close>)
qed

lemma startable_run: "startable E (rl_db (relay_run E ops relay_init))"
proof (induction ops rule: rev_induct)
  case (snoc op ops)
  then show ?case
    using startable_step [OF relay_run_wf [OF relay_init_wf]] by (simp add: relay_run_append) (simp add: relay_run_def)
qed (simp add: relay_run_def relay_init_def startable_def ledger_def)

lemma close_start_local: "j \<noteq> fst x \<Longrightarrow> bt_get (close_start cod uuid now x db) j = bt_get db j"
  by (simp add: close_start_def synthesize_incomplete_def update_row_get split: wire_body.split sum.split prod.split)

lemma close_fold_other: "j \<notin> fst ` set xs \<Longrightarrow> bt_get (fold (close_start cod uuid now) xs db) j = bt_get db j"
  by (induction xs arbitrary: db) (simp_all add: close_start_local)

lemma close_fold_get:
  assumes "x \<in> set xs" "distinct (map fst xs)"
  shows "bt_get (fold (close_start cod uuid now) xs db) (fst x) = bt_get (close_start cod uuid now x db) (fst x)"
  using assms
proof (induction xs arbitrary: db)
  case (Cons y ys)
  show ?case
  proof (cases "y = x")
    case True
    then show ?thesis using Cons.prems(2) by (simp add: close_fold_other)
  next
    case False
    then have "x \<in> set ys" "fst y \<noteq> fst x" using Cons.prems by (auto simp: image_iff)
    then have "bt_get (fold (close_start cod uuid now) (y # ys) db) (fst x) =
        bt_get (close_start cod uuid now x (close_start cod uuid now y db)) (fst x)"
      using Cons.IH Cons.prems(2) by simp
    also have "\<dots> = bt_get (close_start cod uuid now x db) (fst x)"
      using close_start_local [of "fst x" y cod uuid now db] \<open>fst y \<noteq> fst x\<close>
      by (simp add: close_start_def synthesize_incomplete_def update_row_get split: wire_body.split sum.split prod.split)
    finally show ?thesis .
  qed
qed simp


lemma synthesize_facts:
  assumes "to_identity cod uuid s = Inr d"
  obtains c at where "synthesize cod uuid s = Inr (c, at)" "start_matches s c" "cm_status_code c = None"
    "cm_outcome c = outcome_as_str OutcomeIncomplete" "cm_actor_id c = None" "cm_arguments c = []"
proof -
  obtain at where "start_deadline cod s = Inr at"
    using assms by (auto simp: to_identity_def start_deadline_def and_then_Inr_iff split: if_splits)
  with assms obtain c at' where c: "synthesize cod uuid s = Inr (c, at')" by (auto simp: synthesize_def)
  then show thesis by (auto simp: synthesize_def and_then_Inr_iff start_matches_def intro!: that [OF c])
qed

lemma overdue_claimed:
  assumes "bt_get db i = Some r" "rw_state r = Started" "rw_deadline r = Some dl"
    "dl \<le> whole_milli (now - int grace * NANOS_PER_SEC)" "length (filter (\<lambda>(_, q). rw_state q = Started) db) \<le> n"
  shows "(i, r) \<in> set (claim_overdue_starts now grace n db)"
proof -
  let ?guard = "\<lambda>q. rw_state q = Started \<and>
    (case rw_deadline q of None \<Rightarrow> False | Some t \<Rightarrow> t \<le> whole_milli (now - int grace * NANOS_PER_SEC))"
  have "length (filter (\<lambda>(_, q). ?guard q) db) \<le> length (filter (\<lambda>(_, q). rw_state q = Started) db)"
    by (induction db) auto
  then have "set (claim_overdue_starts now grace n db) = set (filter (\<lambda>(_, q). ?guard q) db)"
    using assms(5) by (simp add: claim_overdue_starts_def select_rows_def Let_def)
  then show ?thesis using bt_get_in [OF assms(1)] assms(2-4) by auto
qed

lemma sweep_keeps_closed:
  assumes "wf_db (rl_db st)" "rl_fault st = None" "ledger (rl_db st) i = EntryOpen s"
    "ledger (close_overdue_starts cod uuid cfg now (rl_db st)) i = EntryClosed s t"
  shows "ledger (rl_db (sweep cod uuid len max_bytes cfg client verifier now st)) i \<in> {EntryClosed s t, EntryProven s t}"
proof -
  let ?a = "close_overdue_starts cod uuid cfg now (rl_db st)"
  let ?b = "capture_due cod uuid len max_bytes cfg client now ?a"
  let ?v = "verify_accepted cfg verifier now ?b"
  let ?st = "sweep cod uuid len max_bytes cfg client verifier now st"
  have b: "evolves now ?a ?b" by (rule capture_evolves [OF evolves_wf [OF close_overdue_evolves [OF assms(1)]]])
  have v: "evolves now ?a ?v" using b verify_evolves [OF evolves_wf [OF b]] by (rule evolves_trans)
  then have sorted: "bt_sorted ?v" by (simp add: evolves_def wf_db_def)
  obtain q where q: "bt_get ?a i = Some q" using assms(4) by (auto simp: ledger_def split: option.splits)
  then obtain q' where q': "bt_get ?v i = Some q'" "row_step now q q'" using v unfolding evolves_def by (metis option_rel_Some1)
  have "ledger_move (EntryClosed s t) (row_entry q')"
    using q' q assms(4) by (simp add: row_step_def ledger_def ledger_progress)
  then have held: "row_entry q' \<in> {EntryClosed s t, EntryProven s t}" using ledger_closed_stays by blast
  have "ledger (rl_db ?st) i \<noteq> EntryAbsent"
    using sweep_moves [OF assms(1)] assms(3) ledger_open_not_forgotten by metis
  moreover have "rl_db ?st = purge_expired cfg now ?v" using assms(2) by (simp add: sweep_def Let_def)
  ultimately have "ledger (rl_db ?st) i = row_entry q'"
    by (auto simp: purge_expired_def ledger_def purge_verified_get(2) [OF sorted] q'(1) split: if_splits)
  then show ?thesis using held by simp
qed

text \<open>
  C25: an abandoned request is closed. When a registered start is still open at its deadline plus the grace, and no
  more starts are open than a batch holds, the next sweep that can reach the storage closes it with a synthesized
  completion: no status, the outcome incomplete, an anonymous actor and no arguments.
\<close>

theorem overdue_start_is_closed:
  assumes "rl_fault (relay_run E ops relay_init) = None" "bt_get (rl_db (relay_run E ops relay_init)) i = Some r"
    "rw_state r = Started" "rw_deadline r = Some dl"
    "dl \<le> whole_milli (now - int (rg_incomplete_grace_secs (re_config E)) * NANOS_PER_SEC)"
    "length (filter (\<lambda>(_, q). rw_state q = Started) (rl_db (relay_run E ops relay_init))) \<le> rg_capture_batch_size (re_config E)"
  shows "\<exists>s c. ledger (rl_db (relay_run E (ops @ [Sweep client verifier now]) relay_init)) i
        \<in> {EntryClosed (StartBody s) (CompletionBody c), EntryProven (StartBody s) (CompletionBody c)} \<and>
      rw_start_json r = StartBody s \<and> start_matches s c \<and> cm_status_code c = None \<and>
      cm_outcome c = outcome_as_str OutcomeIncomplete \<and> cm_actor_id c = None \<and> cm_arguments c = []"
proof -
  let ?st = "relay_run E ops relay_init" and ?cfg = "re_config E"
  have wf: "wf_db (rl_db ?st)" by (rule relay_run_wf [OF relay_init_wf])
  then have "wf_row r" using assms(2) by (simp add: wf_db_def)
  then have opn: "ledger (rl_db ?st) i = EntryOpen (rw_start_json r)"
    using assms(2,3) by (simp add: ledger_def row_entry_def wf_row_def)
  then obtain s d where s: "rw_start_json r = StartBody s" "to_identity (re_codec E) (re_uuid E) s = Inr d"
    using startable_run [of E ops] unfolding startable_def by blast
  obtain c at where c: "synthesize (re_codec E) (re_uuid E) s = Inr (c, at)" "start_matches s c" "cm_status_code c = None"
      "cm_outcome c = outcome_as_str OutcomeIncomplete" "cm_actor_id c = None" "cm_arguments c = []"
    by (rule synthesize_facts [OF s(2)])
  note mem = overdue_claimed [OF assms(2-6)]
  have "distinct (map fst (claim_overdue_starts now (rg_incomplete_grace_secs ?cfg) (rg_capture_batch_size ?cfg) (rl_db ?st)))"
    unfolding claim_overdue_starts_def Let_def using wf by (intro select_rows_facts(2)) (simp add: wf_db_def)
  from close_fold_get [OF mem this]
  have "ledger (close_overdue_starts (re_codec E) (re_uuid E) ?cfg now (rl_db ?st)) i = EntryClosed (StartBody s) (CompletionBody c)"
    using assms(2,3) s(1) c(1)
    by (simp add: close_overdue_starts_def ledger_def row_entry_def close_start_def synthesize_incomplete_def update_row_get)
  note sweep_keeps_closed [OF wf assms(1) opn [unfolded s(1)] this, of "re_len E" "re_max_bytes E" client verifier]
  moreover have "relay_run E (ops @ [Sweep client verifier now]) relay_init =
      sweep (re_codec E) (re_uuid E) (re_len E) (re_max_bytes E) ?cfg client verifier now ?st"
    by (simp add: relay_run_def relay_apply_def)
  ultimately show ?thesis using c(2-6) s(1) by (intro exI [of _ s] exI [of _ c]) simp
qed

theorem overdue_start_is_closed_witness:
  "\<exists>s c. ledger (rl_db (relay_run sample_relay ([PostStart True 0 sample_start] @
       [Sweep None None (whole_milli (ev_started_at sample_event) + 60 * NANOS_PER_SEC)]) relay_init)) (ev_event_id sample_event)
     \<in> {EntryClosed (StartBody s) (CompletionBody c), EntryProven (StartBody s) (CompletionBody c)} \<and> cm_status_code c = None"
proof -
  obtain ack r where r: "commit_start millis_utc sample_uuid True 0 sample_start relay_init =
      (Inr (201, ack), relay_init\<lparr>rl_db := bt_insert (ev_event_id sample_event) r []\<rparr>)"
    "rw_state r = Started" "rw_deadline r = Some (whole_milli (ev_started_at sample_event))"
    using sample_start_accepted by metis
  have run: "relay_run sample_relay [PostStart True 0 sample_start] relay_init =
      relay_init\<lparr>rl_db := [(ev_event_id sample_event, r)]\<rparr>"
    by (simp add: relay_run_def relay_apply_def sample_relay_def r(1))
  have "whole_milli (ev_started_at sample_event) \<le>
      whole_milli (whole_milli (ev_started_at sample_event) + 60 * NANOS_PER_SEC - int (rg_incomplete_grace_secs (re_config sample_relay)) * NANOS_PER_SEC)"
    by (subst whole_milli_idem [symmetric]) (rule whole_milli_mono, simp add: sample_relay_def NANOS_PER_SEC_def)
  moreover have "rl_fault (relay_run sample_relay [PostStart True 0 sample_start] relay_init) = None"
      "bt_get (rl_db (relay_run sample_relay [PostStart True 0 sample_start] relay_init)) (ev_event_id sample_event) = Some r"
      "length (filter (\<lambda>(_, q). rw_state q = Started) (rl_db (relay_run sample_relay [PostStart True 0 sample_start] relay_init)))
        \<le> rg_capture_batch_size (re_config sample_relay)"
    unfolding run by (simp_all add: relay_init_def bt_get_def sample_relay_def)
  ultimately show ?thesis using overdue_start_is_closed [OF _ _ r(2,3)] by blast
qed

end
