(* ===== verification/AuditEndToEnd.thy ===== *)
theory AuditEndToEnd
  imports AuditRequest AuditLedger
begin

text \<open>
  The request middleware and the relay together. The client's calls reach the relay's own endpoints over a link that
  may lose a request or its answer; each is retried while the answer is retryable. \<open>relay_link\<close> is the contract of
  such a link; the link below satisfies it.
\<close>

section \<open>The contract of the link\<close>

locale relay_link =
  fixes E :: relay_env and client :: "'w relay_client" and relay :: "'w \<Rightarrow> relay_state"
  assumes acknowledged: "rc_complete client c w = (Inr (), w') \<Longrightarrow>
    \<exists>pre auth now i ack st'. commit_completion (re_codec E) (re_uuid E) auth now i c (relay_run E pre relay_init) = (Inr ack, st') \<and>
      relay w' = st'"
begin

lemma released_is_held:
  assumes "dl_mode (mw_delivery mw) = RequiredDelivery" "dl_client (mw_delivery mw) = Some client"
    "resolve (mw_catalog mw) (hq_method req) (hq_matched req) = RecordRoute operation_id template"
    "audit_requests mw env handler req w = (response, w')"
    "\<And>q. response \<noteq> ingress_unavailable\<lparr>re_request_id := q\<rparr>" "\<And>q. response \<noteq> completion_unconfirmed\<lparr>re_request_id := q\<rparr>"
  shows "\<exists>i writes r w1 w2 e s. handler w1 = (writes, r, w2) \<and> response = r\<lparr>re_request_id := Some (ri_request_id i)\<rparr> \<and>
    e = terminal_event mw env i (hq_matched req \<noteq> None) writes r \<and>
    start_matches s (from_domain (env_codec env) e) \<and>
    ledger (rl_db (relay w')) (ev_event_id e) \<in> {EntryClosed (StartBody s) (CompletionBody (from_domain (env_codec env) e)),
      EntryProven (StartBody s) (CompletionBody (from_domain (env_codec env) e))}"
proof -
  let ?id = "nr_value (normalize_request_id (env_fresh_id env) (hq_request_id req))"
  let ?i = "\<lparr>ri_request_id = ?id, ri_method = hq_method req, ri_route_template = template, ri_operation_id = operation_id\<rparr>"
  from required_mode_cases [OF assms(1-4) refl refl refl] assms(5)
  obtain w1 writes r w2 committed where run: "handler w1 = (writes, r, w2)"
      "rc_complete client (from_domain (env_codec env) (terminal_event mw env ?i (hq_matched req \<noteq> None) writes r)) w2 = (committed, w')"
      "response = (if committed = Inr () then r else completion_unconfirmed)\<lparr>re_request_id := Some ?id\<rparr>"
    by blast
  have ok: "committed = Inr ()" using run(3) assms(6) by (cases "committed = Inr ()") auto
  let ?e = "terminal_event mw env ?i (hq_matched req \<noteq> None) writes r"
  obtain pre auth now j ack st' where st': "commit_completion (re_codec E) (re_uuid E) auth now j (from_domain (env_codec env) ?e)
      (relay_run E pre relay_init) = (Inr ack, st')" "relay w' = st'"
    using acknowledged [OF run(2) [unfolded ok]] by blast
  obtain s where "j = cm_event_id (from_domain (env_codec env) ?e)" "start_matches s (from_domain (env_codec env) ?e)"
      "ledger (rl_db st') j \<in> {EntryClosed (StartBody s) (CompletionBody (from_domain (env_codec env) ?e)),
        EntryProven (StartBody s) (CompletionBody (from_domain (env_codec env) ?e))}"
    using commit_completion_accepted [OF st'(1)] by metis
  moreover have "cm_event_id (from_domain (env_codec env) ?e) = ev_event_id ?e" by (simp add: from_domain_def)
  ultimately show ?thesis
    using run(1,3) ok st'(2) by (intro exI [of _ ?i] exI [of _ writes] exI [of _ r] exI [of _ w1] exI [of _ w2] exI [of _ ?e] exI [of _ s]) simp
qed

end

section \<open>A link that loses messages\<close>

datatype fate = RequestLost | AnswerLost | Delivered

text \<open>The relay's history, the fate of the exchanges to come and the relay's clock; the rest of the world is the handler's.\<close>

record 'h link_world =
  lw_ops :: "relay_op list"
  lw_fates :: "fate list"
  lw_now :: instant
  lw_handler :: 'h

definition link_relay :: "relay_env \<Rightarrow> 'h link_world \<Rightarrow> relay_state" where
  "link_relay E w = relay_run E (lw_ops w) relay_init"

definition decode_answer :: "(relay_error + nat \<times> durable_ack) \<Rightarrow> relay_client_error + durable_ack" where
  "decode_answer res =
     (case res of
        Inr (status, ack) \<Rightarrow> decode_response status (Some ack) False
      | Inl e \<Rightarrow> decode_response (relay_error_status e) None (relay_error_code e = lit ''event_id_conflict''))"

text \<open>One call: attempts until an answer that is not retryable arrives, or the budget is spent with the last attempt.\<close>

fun link_call ::
  "(instant \<Rightarrow> relay_state \<Rightarrow> relay_error + nat \<times> durable_ack) \<Rightarrow> (instant \<Rightarrow> relay_op) \<Rightarrow> relay_env \<Rightarrow> fate list \<Rightarrow> 'h link_world \<Rightarrow>
   (relay_client_error + unit) \<times> 'h link_world" where
  "link_call answer op E [] w = (Inl (RelayUnavailable (lit ''budget'')), w)"
| "link_call answer op E (RequestLost # fates) w = link_call answer op E fates w"
| "link_call answer op E (AnswerLost # fates) w = link_call answer op E fates (w\<lparr>lw_ops := lw_ops w @ [op (lw_now w)]\<rparr>)"
| "link_call answer op E (Delivered # fates) w =
     (let w' = w\<lparr>lw_ops := lw_ops w @ [op (lw_now w)]\<rparr>
      in case decode_answer (answer (lw_now w) (link_relay E w)) of
           Inr _ \<Rightarrow> (Inr (), w')
         | Inl e \<Rightarrow> if is_retryable e then link_call answer op E fates w' else (Inl e, w'))"

definition link_client :: "relay_env \<Rightarrow> 'h link_world relay_client" where
  "link_client E =
     \<lparr>rc_register = (\<lambda>s w. link_call (\<lambda>now st. fst (commit_start (re_codec E) (re_uuid E) True now s st))
          (\<lambda>now. PostStart True now s) E (lw_fates w) w),
      rc_complete = (\<lambda>c w. link_call (\<lambda>now st. fst (commit_completion (re_codec E) (re_uuid E) True now (cm_event_id c) c st))
          (\<lambda>now. PostCompletion True now (cm_event_id c) c) E (lw_fates w) w)\<rparr>"

lemma decode_answer_ok: "decode_answer res = Inr ack \<Longrightarrow> \<exists>status. res = Inr (status, ack)"
  by (auto simp: decode_answer_def decode_response_def ok_or_def relay_error_status_def
      split: sum.splits prod.splits if_splits relay_error.splits)

lemma link_call_ok:
  assumes "link_call answer op E fates w = (Inr (), w')"
  shows "\<exists>pre now x. answer now (relay_run E pre relay_init) = Inr x \<and> lw_ops w' = pre @ [op now]"
  using assms
proof (induction answer op E fates w rule: link_call.induct)
  case (4 answer op E fates w)
  show ?case
  proof (cases "decode_answer (answer (lw_now w) (link_relay E w))")
    case (Inr ack)
    then have "lw_ops w' = lw_ops w @ [op (lw_now w)]" using "4.prems" by (auto simp: Let_def)
    then show ?thesis using decode_answer_ok [OF Inr] unfolding link_relay_def by blast
  next
    case (Inl e)
    then show ?thesis using "4.IH" [OF refl Inl] "4.prems" by (auto simp: Let_def split: if_splits)
  qed
qed simp_all

interpretation lossy: relay_link E "link_client E" "link_relay E"
proof
  fix c and w w' :: "'h link_world"
  assume "rc_complete (link_client E) c w = (Inr (), w')"
  then obtain pre now x where pre:
      "fst (commit_completion (re_codec E) (re_uuid E) True now (cm_event_id c) c (relay_run E pre relay_init)) = Inr x"
      "lw_ops w' = pre @ [PostCompletion True now (cm_event_id c) c]"
    using link_call_ok unfolding link_client_def by force
  obtain st' where "commit_completion (re_codec E) (re_uuid E) True now (cm_event_id c) c (relay_run E pre relay_init) = (Inr x, st')"
    using pre(1) by (metis prod.collapse)
  moreover from this have "link_relay E w' = st'"
    by (simp add: link_relay_def pre(2) relay_run_append) (simp add: relay_run_def relay_apply_def)
  ultimately show "\<exists>pre auth now i ack st'. commit_completion (re_codec E) (re_uuid E) auth now i c (relay_run E pre relay_init) = (Inr ack, st') \<and>
      link_relay E w' = st'"
    by blast
qed


section \<open>A request whose record the relay accepts\<close>

lemma link_register:
  "lw_fates w = Delivered # fates \<Longrightarrow>
   fst (commit_start (re_codec E) (re_uuid E) True (lw_now w) s (link_relay E w)) = Inr (201, ack) \<Longrightarrow>
   rc_register (link_client E) s w = (Inr (), w\<lparr>lw_ops := lw_ops w @ [PostStart True (lw_now w) s]\<rparr>)"
  by (simp add: link_client_def decode_answer_def decode_response_def ok_or_def)

lemma link_complete:
  "lw_fates w = Delivered # fates \<Longrightarrow>
   fst (commit_completion (re_codec E) (re_uuid E) True (lw_now w) (cm_event_id c) c (link_relay E w)) = Inr (200, ack) \<Longrightarrow>
   rc_complete (link_client E) c w = (Inr (), w\<lparr>lw_ops := lw_ops w @ [PostCompletion True (lw_now w) (cm_event_id c) c]\<rparr>)"
  by (simp add: link_client_def decode_answer_def decode_response_def ok_or_def)

lemma link_relay_step:
  "link_relay E (w\<lparr>lw_ops := lw_ops w @ [op]\<rparr>) = relay_apply E op (link_relay E w)"
  "link_relay E (w\<lparr>lw_handler := h\<rparr>) = link_relay E w"
  by (simp_all add: link_relay_def relay_run_def)

lemma fresh_start_accepted:
  assumes "to_identity cod uuid s = Inr d" "si_event_id d = st_event_id s" "rl_fault st = None" "\<not> rl_at_capacity st"
    "bt_get (rl_db st) (st_event_id s) = None"
    "validate_request_identity (st_request_id s) (st_method s) (st_route_template s) (st_operation_id s) = Inr ()"
    "validate_service_identity (st_service_version s) (st_deployment_environment s) = Inr ()"
  shows "\<exists>ack r. commit_start cod uuid True now s st = (Inr (201, ack), st\<lparr>rl_db := bt_insert (st_event_id s) r (rl_db st)\<rparr>) \<and>
    rw_start_json r = StartBody s \<and> rw_terminal_json r = None"
  using assms by (simp add: commit_start_def relay_write_def db_register_start_def ingest_status_def) (rule exI, rule conjI, rule refl, simp)

lemma first_completion_accepted:
  assumes "to_domain cod uuid c = Inr d" "validate d = Inr ()" "rl_fault st = None"
    "bt_get (rl_db st) (cm_event_id c) = Some r" "rw_start_json r = StartBody s" "rw_terminal_json r = None" "start_matches s c"
  shows "\<exists>ack. fst (commit_completion cod uuid True now (cm_event_id c) c st) = Inr (200, ack)"
  using assms by (simp add: commit_completion_def relay_write_def db_commit_completion_def)


lemma middleware_success:
  assumes "dl_client (mw_delivery mw) = Some client"
    "resolve (mw_catalog mw) (hq_method req) (hq_matched req) = RecordRoute operation_id template"
    "dl_mode (mw_delivery mw) = RequiredDelivery"
    "i = \<lparr>ri_request_id = nr_value (normalize_request_id (env_fresh_id env) (hq_request_id req)), ri_method = hq_method req,
       ri_route_template = template, ri_operation_id = operation_id\<rparr>"
    "rc_register client (build_start (env_codec env) (mw_delivery mw) i
       (derive_event_id (env_uuid_v5 env) (env_nanos env) i (env_started_at env)) (env_started_at env) (mw_service mw)) w = (Inr (), w1)"
    "handler w1 = (writes, r, w2)"
    "rc_complete client (from_domain (env_codec env) (terminal_event mw env i (hq_matched req \<noteq> None) writes r)) w2 = (Inr (), w3)"
  shows "audit_requests mw env handler req w = (r\<lparr>re_request_id := Some (ri_request_id i)\<rparr>, w3)"
  using assms by (simp add: audit_requests_def register_start_def complete_delivery_def delivery_call_def use_local_sink_def Let_def)

lemma terminal_event_facts:
  "ev_event_id (terminal_event mw env i m writes r) = derive_event_id (env_uuid_v5 env) (env_nanos env) i (env_started_at env)"
  "ev_started_at (terminal_event mw env i m writes r) = env_started_at env"
  "ev_completed_at (terminal_event mw env i m writes r) = env_started_at env + int (env_elapsed_ms env) * NANOS_PER_MILLI"
  "start_matches (build_start cod d i (ev_event_id (terminal_event mw env i m writes r)) (env_started_at env) v)
     (from_domain cod (terminal_event mw env i m writes r))"
  by (simp_all add: terminal_event_def with_correlation_def with_arguments_def new_event_def Let_def start_matches_def
      build_start_def from_domain_def)

lemma build_start_identity:
  assumes "millis_codec cod ok" "ok at" "ok (at + int (dl_grace_secs d) * NANOS_PER_SEC)" "uuid (trim event_id) = Some event_id"
  shows "to_identity cod uuid (build_start cod d i event_id at v) =
    Inr \<lparr>si_event_id = event_id, si_request_id = ri_request_id i, si_started_at = whole_milli at, si_method = ri_method i,
         si_route_template = ri_route_template i, si_operation_id = ri_operation_id i,
         si_completion_deadline_at = whole_milli (at + int (dl_grace_secs d) * NANOS_PER_SEC)\<rparr>"
proof -
  have "whole_milli at \<le> whole_milli (at + int (dl_grace_secs d) * NANOS_PER_SEC)"
    by (rule whole_milli_mono) (simp add: NANOS_PER_SEC_def)
  then show ?thesis
    using assms(4) millis_codec.parse_instant_render [OF assms(1,2)] millis_codec.parse_instant_render [OF assms(1,3)]
    by (simp add: to_identity_def build_start_def parse_uuid_field_def)
qed

lemma healthy_request_run:
  assumes mode: "dl_mode (mw_delivery mw) = RequiredDelivery" "dl_client (mw_delivery mw) = Some (link_client E)"
    and route: "resolve (mw_catalog mw) (hq_method req) (hq_matched req) = RecordRoute operation_id template"
    and i: "i = \<lparr>ri_request_id = nr_value (normalize_request_id (env_fresh_id env) (hq_request_id req)), ri_method = hq_method req,
       ri_route_template = template, ri_operation_id = operation_id\<rparr>"
    and id: "event_id = derive_event_id (env_uuid_v5 env) (env_nanos env) i (env_started_at env)"
      "re_uuid E (trim event_id) = Some event_id"
    and codec: "millis_codec (re_codec E) ok" "env_codec env = re_codec E" "ok (env_started_at env)"
      "ok (env_started_at env + int (env_elapsed_ms env) * NANOS_PER_MILLI)"
      "ok (env_started_at env + int (dl_grace_secs (mw_delivery mw)) * NANOS_PER_SEC)"
    and relay: "rl_fault (link_relay E w) = None" "\<not> rl_at_capacity (link_relay E w)"
      "bt_get (rl_db (link_relay E w)) event_id = None" "lw_fates w = Delivered # fates"
    and handler: "\<And>w1. handler w1 = (writes, r, w1\<lparr>lw_handler := f (lw_handler w1)\<rparr>)"
    and valid: "validate_request_identity (ri_request_id i) (ri_method i) (ri_route_template i) (ri_operation_id i) = Inr ()"
      "validate_service_identity (sv_version (mw_service mw)) (sv_environment (mw_service mw)) = Inr ()"
      "200 \<le> re_status r" "re_status r \<le> 599"
      "re_error_code r = Some (lit ''request_timeout'') \<longrightarrow> re_status r \<in> {408, 504}"
      "validate_error_code (re_error_code r) = Inr ()" "list_all wf_write writes"
  shows "\<exists>w'. audit_requests mw env handler req w = (r\<lparr>re_request_id := Some (ri_request_id i)\<rparr>, w')"
proof -
  let ?cod = "re_codec E" and ?st = "link_relay E w"
  let ?s = "build_start ?cod (mw_delivery mw) i event_id (env_started_at env) (mw_service mw)"
  let ?e = "terminal_event mw env i (hq_matched req \<noteq> None) writes r"
  let ?c = "from_domain ?cod ?e"
  note build_start_identity [of ?cod ok "env_started_at env" "mw_delivery mw" "re_uuid E" event_id i "mw_service mw", OF codec(1,3,5) id(2)]
  from fresh_start_accepted [OF this _ relay(1,2), of "lw_now w"]
  obtain ack row where start: "commit_start ?cod (re_uuid E) True (lw_now w) ?s ?st =
        (Inr (201, ack), ?st\<lparr>rl_db := bt_insert event_id row (rl_db ?st)\<rparr>)"
      "rw_start_json row = StartBody ?s" "rw_terminal_json row = None"
    using relay(3) valid(1,2) by (auto simp: build_start_def)
  let ?w1 = "w\<lparr>lw_ops := lw_ops w @ [PostStart True (lw_now w) ?s]\<rparr>"
  have reg: "rc_register (link_client E) ?s w = (Inr (), ?w1)"
    by (rule link_register [OF relay(4), of E ?s ack]) (simp add: start(1))
  let ?w2 = "?w1\<lparr>lw_handler := f (lw_handler ?w1)\<rparr>"
  have st2: "link_relay E ?w2 = ?st\<lparr>rl_db := bt_insert event_id row (rl_db ?st)\<rparr>"
    unfolding link_relay_step by (simp add: relay_apply_def start(1))
  have ev: "validate ?e = Inr ()" by (rule terminal_event_valid [OF valid])
  then have schema: "ev_schema_version ?e = SCHEMA_VERSION" by (simp add: validate_Inr_iff)
  let ?d = "?e\<lparr>ev_started_at := whole_milli (ev_started_at ?e), ev_completed_at := whole_milli (ev_completed_at ?e)\<rparr>"
  have dom: "to_domain ?cod (re_uuid E) ?c = Inr ?d"
    using codec(3,4) id by (intro millis_codec.to_from_domain [OF codec(1)] schema) (simp_all add: terminal_event_facts)
  have vd: "validate ?d = Inr ()"
    by (rule validate_wire_instants [OF ev, of "int (env_elapsed_ms env)"]) (simp add: terminal_event_facts)
  have cid: "cm_event_id ?c = event_id" by (simp add: from_domain_def terminal_event_facts id(1))
  have sm: "start_matches ?s ?c" unfolding id(1) terminal_event_facts(1) [of mw env i "hq_matched req \<noteq> None" writes r, symmetric]
    by (rule terminal_event_facts(4))
  have "rl_fault (link_relay E ?w2) = None" "bt_get (rl_db (link_relay E ?w2)) (cm_event_id ?c) = Some row"
    unfolding st2 cid using relay(1) by simp_all
  from first_completion_accepted [OF dom vd this start(2,3) sm]
  obtain ack2 where "fst (commit_completion ?cod (re_uuid E) True (lw_now ?w2) (cm_event_id ?c) ?c (link_relay E ?w2)) = Inr (200, ack2)"
    by blast
  from link_complete [OF _ this] have "\<exists>w3. rc_complete (link_client E) ?c ?w2 = (Inr (), w3)" using relay(4) by auto
  then show ?thesis
    using middleware_success [OF mode(2) route mode(1) i, of w ?w1 handler writes r ?w2] reg handler [of ?w1]
    by (auto simp: codec(2) id(1))
qed


definition link_env :: relay_env where
  "link_env = sample_relay\<lparr>re_uuid := (\<lambda>_. Some (lit ''e''))\<rparr>"

definition link_middleware :: "unit link_world audit_middleware" where
  "link_middleware =
     \<lparr>mw_catalog = Map.empty, mw_service = \<lparr>sv_version = lit ''1'', sv_environment = []\<rparr>,
      mw_delivery = \<lparr>dl_mode = RequiredDelivery, dl_client = Some (link_client link_env), dl_grace_secs = 60\<rparr>,
      mw_submit = (\<lambda>_ w. w)\<rparr>"

definition link_request :: http_request where
  "link_request = \<lparr>hq_request_id = None, hq_method = lit ''GET'', hq_matched = None\<rparr>"

definition link_response :: http_response where
  "link_response = \<lparr>re_status = 404, re_error_code = None, re_rejected = False, re_request_id = None, re_body = []\<rparr>"

definition link_start :: "unit link_world" where
  "link_start = \<lparr>lw_ops = [], lw_fates = [Delivered], lw_now = 0, lw_handler = ()\<rparr>"

lemma link_route:
  "resolve (mw_catalog link_middleware) (hq_method link_request) (hq_matched link_request) =
     RecordRoute UNMATCHED_OPERATION_ID UNMATCHED_ROUTE_TEMPLATE"
  by (simp add: resolve_def link_request_def str_simps)

abbreviation link_request_env :: request_env where
  "link_request_env \<equiv> sample_env\<lparr>env_uuid_v5 := (\<lambda>_. lit ''e'')\<rparr>"

abbreviation link_handler :: "unit link_world \<Rightarrow> context_write list \<times> http_response \<times> unit link_world" where
  "link_handler \<equiv> \<lambda>w. ([], link_response, w\<lparr>lw_handler := id (lw_handler w)\<rparr>)"

abbreviation link_identity :: request_identity where
  "link_identity \<equiv>
     \<lparr>ri_request_id = nr_value (normalize_request_id (env_fresh_id link_request_env) (hq_request_id link_request)),
      ri_method = hq_method link_request, ri_route_template = UNMATCHED_ROUTE_TEMPLATE, ri_operation_id = UNMATCHED_OPERATION_ID\<rparr>"

lemma link_request_id: "nr_value (normalize_request_id (env_fresh_id link_request_env) (hq_request_id link_request)) = lit ''f''"
  by (simp add: normalize_request_id_def link_request_def sample_env_def)

lemma link_valid:
  "validate_request_identity (ri_request_id link_identity) (ri_method link_identity) (ri_route_template link_identity)
     (ri_operation_id link_identity) = Inr ()"
  "validate_service_identity (sv_version (mw_service link_middleware)) (sv_environment (mw_service link_middleware)) = Inr ()"
  unfolding link_request_id
  by (simp_all add: validate_defs link_request_def link_middleware_def str_simps trim_id trimmed_def char_class_defs
      RustStr.byte_len_def utf8_width_def starts_with_def UNMATCHED_ROUTE_TEMPLATE_def UNMATCHED_OPERATION_ID_def)

lemma link_codec: "millis_codec (re_codec link_env) utc_valid"
  using ums.millis_codec_axioms by (simp add: link_env_def sample_relay_def)

lemmas link_defs = link_middleware_def link_env_def sample_relay_def sample_env_def link_relay_def relay_run_def relay_init_def
  link_start_def link_response_def derive_event_id_def utc_valid_def date_naive_def NANOS_PER_DAY_def NANOS_PER_SEC_def
  NANOS_PER_MILLI_def validate_error_code_def

lemma link_released:
  "\<exists>w'. audit_requests link_middleware link_request_env link_handler link_request link_start =
     (link_response\<lparr>re_request_id := Some (ri_request_id link_identity)\<rparr>, w')"
  by (rule healthy_request_run [where E = link_env and ok = utc_valid and event_id = "lit ''e''" and fates = "[]" and writes = "[]",
        OF _ _ link_route refl _ _ link_codec _ _ _ _ _ _ _ _ refl link_valid])
     (simp_all add: link_defs)






end
