(* ===== verification/Spec2Isabelle.thy ===== *)
theory Spec2Isabelle
  imports ScheduleRuns SchedulePass Desired RuntimeIdentity LeaderNetwork PassSafety WorkFeedback ActivityQuery AuditEndToEnd
begin

text \<open>
  A verification development of the control plane of \<open>fkst-hosted\<close> (Rust, under \<open>src/backend/src\<close>), which turns
  GitHub issues into coding sessions. GitHub issues, labels and comments are the durable state; a reconciler on the
  elected leader reads them, plans, and applies effects. The development models the decisions of that reconciler:
  what it parses, whom it trusts, what it plans, what it writes, and who may run it; and the audit trail beside it: what
  every request leaves on record, how the relay keeps it, and who may read it back.

  \<^bold>\<open>Conventions.\<close> A Rust \<open>String\<close> is a list of Unicode scalar values (\<open>Prelude\<close>, \<open>RustStr\<close>); \<open>Result\<close> is a sum
  with the error on the left and an error datatype per module whose constructors carry what the message shows; a
  \<open>BTreeMap\<close> is a sorted association list behind the locale \<open>ordered_map\<close>; \<open>struct\<close>s are records and \<open>enum\<close>s are
  datatypes. Instants are integers (nanoseconds for \<open>chrono\<close>, microseconds for a Lease). Clock readings, GitHub's and
  Kubernetes' answers are arguments, so a theorem holds for every answer. Code outside the repository is a parameter
  with its documented behaviour as a hypothesis or a locale: the calendar (\<open>calendar\<close>, instantiated by the proleptic
  Gregorian calendar of \<open>Gregorian\<close>), the timestamp codec (\<open>codec\<close>, instantiated by RFC 3339 in \<open>Rfc3339\<close>), Unicode
  case folding, the digest behind content hashes and name-based UUIDs. A Rust panic is an error value.

  \<^bold>\<open>The clock.\<close> \<open>CronField\<close>, \<open>Cron\<close>, \<open>Gregorian\<close>: the grammar of cron expressions and the search for firings
  (\<open>schedule/cron_field.rs\<close>, \<open>schedule/cron.rs\<close>); both searches are correct and complete for every instant, and the
  horizon of \<open>MAX_SEARCH_DAYS\<close> days is long enough for every satisfiable expression, so the recursion over days needs
  no other bound. \<open>RunMarker\<close>, \<open>Rfc3339\<close>: run records as comment markers (\<open>schedule/marker.rs\<close>), with the round trip of
  rendering and parsing. \<open>SectionParse\<close>, \<open>ScheduledWorkflow\<close>: the grammar of definition issues
  (\<open>goals/section_parse.rs\<close>, \<open>goals/scheduled_workflow_parse.rs\<close>). \<open>Decision\<close>: the decision table
  (\<open>schedule/decision.rs\<close>); due slots are exactly the firings since the cursor. \<open>Labels\<close>, \<open>RunIssue\<close>, \<open>SchedulePlan\<close>,
  \<open>ScheduleExec\<close>: labels, run issues, the plan and its execution with every write failing or not
  (\<open>reconcile/reserved_labels.rs\<close>, \<open>work_labels.rs\<close>, \<open>schedule_run_issue.rs\<close>, \<open>schedule_plan.rs\<close>,
  \<open>schedule_execute.rs\<close>). \<open>ScheduleRuns\<close> composes them into the step relation \<open>sched_step\<close> of one definition under
  passes, manual runs, session records, foreign comments and label edits: no slot is dispatched twice, every dispatch
  record names its run issue, the watchdog releases hung runs, and a successful pass repairs an interrupted one.
  \<open>SchedulePass\<close>: the pass over a repository (\<open>reconcile/schedule_authz.rs\<close>, \<open>schedule_pass.rs\<close>, \<open>pending.rs\<close>): only
  definitions read with authority are dispatched, under the cap per creator.

  \<^bold>\<open>Trust.\<close> \<open>AccessPolicy\<close> (\<open>access_policy.rs\<close>), \<open>Identity\<close> (\<open>reconcile/creator.rs\<close>, \<open>routing.rs\<close>,
  \<open>trigger_authz.rs\<close>, the issue records of \<open>github_app/listing.rs\<close>), \<open>SessionPolicy\<close> (\<open>session_access/policy.rs\<close>,
  \<open>context.rs\<close>): who may trigger, schedule, observe and download; the policy fails closed, identities and logins never
  mix, the cache of roles never changes a decision, and access follows one table of capabilities and tiers.

  \<^bold>\<open>Session visibility.\<close> \<open>SessionRegistry\<close> (\<open>session_access/registry.rs\<close>, \<open>reconcile/session_contexts.rs\<close>): the
  registry of session contexts is filled in staged generations; it refines a projection that says which repositories
  were reported since when, and it calls itself ready only when one generation has covered every expected repository.
  \<open>Viewer\<close> (\<open>session_access/viewer.rs\<close>, \<open>gate.rs\<close>, \<open>activity.rs\<close>, \<open>metrics.rs\<close>): personal and global scopes, the gate
  on one session and the constraint every activity query carries.

  \<^bold>\<open>Sessions.\<close> \<open>PackageRef\<close>, \<open>EngineConfig\<close>, \<open>PackageEnv\<close>, \<open>TriggerParse\<close>: trigger issues (\<open>goals/package_ref.rs\<close>,
  \<open>engine_config.rs\<close>, \<open>package_env.rs\<close>, \<open>trigger_parse.rs\<close>, \<open>reconcile/branches.rs\<close>, \<open>registry.rs\<close>,
  \<open>session_spec/spec.rs\<close>): every accepted body is well formed, both parsers of package references read one language,
  tunables and settings are bounded, and a session id stands for one issue. \<open>Registration\<close>: registrations, content
  hashes and work authors (\<open>reconcile/desired.rs\<close>, \<open>hashing.rs\<close>, \<open>work_authz.rs\<close>); the full hash freezes everything the
  author wrote. \<open>Desired\<close>: the planner (\<open>reconcile/desired.rs\<close>, \<open>runtime_audit.rs\<close>, \<open>collision.rs\<close>); at most one
  effect on the runtime of a session per pass, none for a rejected edit, collisions demote exactly the outranked.
  \<open>RuntimeIdentity\<close>: attribution stamps on runtimes (\<open>runtime_identity\<close>, and the identity operation of
  \<open>session_backend/k8s/lifecycle.rs\<close>); a stamp is completed and never rewritten, the operation is idempotent, and the
  gate parks a session for its cooldown.

  \<^bold>\<open>The pass.\<close> \<open>EffectivePackages\<close> (\<open>reconcile/manifest_expand.rs\<close>, \<open>effective_packages.rs\<close>, \<open>auth_fallback.rs\<close>):
  the packages and the configuration a session really runs; a pass reads each manifest once, and the set is what the
  author declared. \<open>LabelDiscovery\<close> (\<open>reconcile/work_labels.rs\<close>): the worklist over event dependencies, a
  \<open>partial_function\<close> that is proved to return on every finite graph with exactly the reachable labels.
  \<open>ReconcilePass\<close> (\<open>reconcile/repo.rs\<close>, the hash marker of \<open>announce.rs\<close>): classification, demotions, planning and
  execution of one repository as a sequence of effects over the answers of GitHub and of the backend. \<open>PassSafety\<close>: only
  admitted and complete sessions get a runtime, a pass never contradicts itself about a trigger, the sessions it serves
  do not compete, it returns, and a failed read executes nothing; a demotion takes a running session away.
  \<open>WorkFeedback\<close> (\<open>reconcile/work_ack.rs\<close>, \<open>retire.rs\<close>, \<open>k8s/work_label_wire.rs\<close>): what authors of work issues are
  told, every write reaching GitHub, lost, or answered too late; latched comments are posted once, and feedback settles as
  long as the sessions that serve an issue agree on its author.

  \<^bold>\<open>Leadership.\<close> \<open>LeaderConfig\<close> (\<open>leader_config.rs\<close>), \<open>LeaderElection\<close> (\<open>leader_election.rs\<close>): one claim on the Lease,
  the state of a contender, worker generations that never overlap. \<open>LeaderNetwork\<close>: contenders running
  \<open>run_election_loop\<close> against an API server that checks resource versions, with lost, failing and late requests,
  restarts, and clocks apart by a constant; the steps are \<open>election_step\<close>, time passes only up to the next deadline of
  a contender (timers fire on time). With a Lease that outlives \<open>belief_bound\<close> and the clock offsets, at most one
  contender leads; without that margin, which the validation of the settings does not ask for, two can.

  \<^bold>\<open>The audit trail.\<close> \<open>AuditEvent\<close> (\<open>audit/event.rs\<close>, \<open>identity.rs\<close>, \<open>validate.rs\<close>, \<open>audit/request/outcome.rs\<close>,
  \<open>response.rs\<close>, \<open>id.rs\<close>, \<open>audit/arguments/bounds.rs\<close>): the event of a finished request and its validation, which
  admits only attributions that fit each other. \<open>AuditCatalog\<close> (\<open>audit/arguments/catalog.rs\<close>,
  \<open>audit/request/policy.rs\<close>, \<open>catalog.rs\<close>): the declared policy of every operation and the route it stands for.
  \<open>AuditProtocol\<close> (\<open>audit_relay/protocol.rs\<close>, \<open>audit/lifecycle.rs\<close>, \<open>lifecycle_validate.rs\<close>): the wire forms, with
  the round trip of every valid event at millisecond precision. \<open>AuditRequest\<close> (\<open>audit/request/context.rs\<close>,
  \<open>middleware.rs\<close>, \<open>required.rs\<close>, \<open>audit/relay\<close>): the context in which the first write of a field wins, the retry
  loop of the client, which always ends within its budget, and the middleware around an arbitrary handler: its event is
  valid, and in required mode a response is released only after the relay has acknowledged it. \<open>AuditRelay\<close>
  (\<open>audit_relay/db\<close>, \<open>http\<close>, \<open>closer.rs\<close>, \<open>capture.rs\<close>, \<open>verify.rs\<close>, \<open>worker.rs\<close>): the table of records, the write
  endpoints and the sweep. The SQLite statements are functions on a map from event ids to rows, a storage fault is a
  flag, PostHog is a function of the environment. \<open>AuditLedger\<close>: every run of relay operations refines an abstract ledger
  whose entries only move forward; an acknowledged completion stays until PostHog has shown it, and an overdue start is
  closed. \<open>AuditEndToEnd\<close> joins middleware and relay over a link that may lose requests and answers (the locale
  \<open>relay_link\<close>): a released response is on record at the relay, and a request over a working link is released.

  \<^bold>\<open>Reading the trail.\<close> \<open>ActivityMerge\<close> (\<open>operations/record.rs\<close>, \<open>source.rs\<close>, \<open>merge.rs\<close>, \<open>limits.rs\<close>,
  \<open>service.rs\<close>): the page merged from two sources is the newest part of the merged timeline, following the cursor visits
  every record once and ends, and the limiter never admits more than its budgets. \<open>ActivityQuery\<close>
  (\<open>operations/filters.rs\<close>, \<open>cursor.rs\<close>, \<open>routes/operations/query.rs\<close>, \<open>activity.rs\<close>): from the raw parameters to the
  page; the window is bounded, a cursor reads back and serves only the query it was made for, and no page holds a
  record its viewer may not see, whatever the sources answer.

  \<^bold>\<open>Not modelled.\<close> The clients of GitHub, Kubernetes, OpenSandbox, PostHog, object storage and language models, the
  other HTTP routes and the session pod driver are input and output over third-party libraries; tracing and metrics have
  no effect on the state. Of the audit trail the background sink, the read endpoint of the relay and the decoding of the
  configuration are left out. Of the reconciler the sweep and webhook loops (\<open>reconcile/loops.rs\<close>), the executor of
  session actions (\<open>reconcile/execute*.rs\<close>), auto-merge, the issue templates and the visible text of announcements are not
  modelled: they sequence calls of those clients, and their decisions are those of the planners above. Environment
  profiles and the OpenSandbox side of the identity operation are left out too.
\<close>

end
